(* ===== verification/Prelude.thy ===== *)
theory Prelude
  imports "HOL-Library.Word" "HOL-Library.Monad_Syntax"
begin

text \<open>
  Shared vocabulary of the development: the fixed-width integers of the C++ code, the status and
  port-state codes of the C ABI header, the rewriting collections, and the generic lemmas on lists,
  counters and words that the component theories use.
\<close>

unbundle bit_operations_syntax

section \<open>Machine integers\<close>

type_synonym u8 = "8 word"
type_synonym u16 = "16 word"
type_synonym u32 = "32 word"
type_synonym u64 = "64 word"

text \<open>
  \<open>int32_t\<close> values (status codes and native error codes) are HOL integers; every value the model
  stores in such a field is one of the enumerators below or a code handed in by the platform.
\<close>

type_synonym i32 = int

named_theorems xcom_defs \<open>definitions that evaluation unfolds\<close>

section \<open>Result codes and port states of the C ABI\<close>

definition XCOM_OK :: i32 where [simp]: "XCOM_OK = 0"
definition XCOM_ERR_PARAM :: i32 where [simp]: "XCOM_ERR_PARAM = -1"
definition XCOM_ERR_NOT_OPEN :: i32 where [simp]: "XCOM_ERR_NOT_OPEN = -2"
definition XCOM_ERR_ALREADY_OPEN :: i32 where [simp]: "XCOM_ERR_ALREADY_OPEN = -3"
definition XCOM_ERR_BUSY :: i32 where [simp]: "XCOM_ERR_BUSY = -4"
definition XCOM_ERR_FULL :: i32 where [simp]: "XCOM_ERR_FULL = -5"
definition XCOM_ERR_IO :: i32 where [simp]: "XCOM_ERR_IO = -6"
definition XCOM_ERR_TIMEOUT :: i32 where [simp]: "XCOM_ERR_TIMEOUT = -7"
definition XCOM_ERR_DRAIN_INCOMPLETE :: i32 where [simp]: "XCOM_ERR_DRAIN_INCOMPLETE = -8"
definition XCOM_ERR_UNSUPPORTED :: i32 where [simp]: "XCOM_ERR_UNSUPPORTED = -9"

text \<open>The published port state (\<open>XCOM_PORT_*\<close>), which is also the state of the serial owner.\<close>

datatype port_state = PORT_CLOSED | PORT_OPENING | PORT_OPEN | PORT_CLOSING | PORT_FAULT

fun port_code :: "port_state \<Rightarrow> u16" where
  "port_code PORT_CLOSED = 0"
| "port_code PORT_OPENING = 1"
| "port_code PORT_OPEN = 2"
| "port_code PORT_CLOSING = 3"
| "port_code PORT_FAULT = 4"

lemma port_code_inject [simp]: "port_code a = port_code b \<longleftrightarrow> a = b"
  by (cases a; cases b) simp_all

section \<open>Lists and words\<close>

text \<open>Bytes of a little-endian 32-bit load or store, as \<open>memcpy\<close> performs it on x64.\<close>

definition u32_bytes :: "u32 \<Rightarrow> u8 list" where
  "u32_bytes w = [ucast w, ucast (drop_bit 8 w), ucast (drop_bit 16 w), ucast (drop_bit 24 w)]"

fun bytes_u32 :: "u8 list \<Rightarrow> u32" where
  "bytes_u32 (a # b # c # d # _) =
     ucast a OR push_bit 8 (ucast b) OR push_bit 16 (ucast c) OR push_bit 24 (ucast d)"
| "bytes_u32 _ = 0"

lemma length_u32_bytes [simp]: "length (u32_bytes w) = 4"
  by (simp add: u32_bytes_def)

lemma bytes_u32_bytes [simp]: "bytes_u32 (u32_bytes w @ rest) = w"
  unfolding u32_bytes_def
proof (simp, rule bit_word_eqI)
  fix n assume n: "n < LENGTH(32)"
  consider "n < 8" | "8 \<le> n" "n < 16" | "16 \<le> n" "n < 24" | "24 \<le> n"
    by linarith
  then show "bit ((ucast (ucast w :: u8) :: u32) OR push_bit 8 (ucast (ucast (drop_bit 8 w) :: u8)) OR
       push_bit 16 (ucast (ucast (drop_bit 16 w) :: u8)) OR
       push_bit 24 (ucast (ucast (drop_bit 24 w) :: u8))) n = bit w n"
    using n by cases (auto simp: bit_simps)
qed

text \<open>Overwriting a prefix of a byte buffer (\<open>memcpy\<close> into the start of a block).\<close>

definition overwrite :: "'a list \<Rightarrow> 'a list \<Rightarrow> 'a list" where
  "overwrite buf d = d @ drop (length d) buf"

lemma length_overwrite [simp]: "length d \<le> length buf \<Longrightarrow> length (overwrite buf d) = length buf"
  by (simp add: overwrite_def)

lemma take_overwrite [simp]: "n = length d \<Longrightarrow> take n (overwrite buf d) = d"
  by (simp add: overwrite_def)

lemma bytes_u32_overwrite [simp]: "bytes_u32 (overwrite buf (u32_bytes w)) = w"
  by (simp add: overwrite_def)

lemma unat_of_nat_u32: "n < 2 ^ 32 \<Longrightarrow> unat (of_nat n :: u32) = n"
  by (simp add: unat_of_nat take_bit_nat_eq_self)

lemma unat_of_nat_u16: "n < 2 ^ 16 \<Longrightarrow> unat (of_nat n :: u16) = n"
  by (simp add: unat_of_nat take_bit_nat_eq_self)

lemma drop_take_Suc_nth: "i < length xs \<Longrightarrow> drop i xs = xs ! i # drop (Suc i) xs"
  by (rule Cons_nth_drop_Suc [symmetric])

lemma mod_add_inject:
  fixes a i j m :: nat
  assumes "(a + i) mod m = (a + j) mod m" "i < m" "j < m"
  shows "i = j"
proof -
  have "i = j" if le: "i \<le> j" and eq: "(a + i) mod m = (a + j) mod m" and "j < m" for i j
  proof -
    have "m dvd (a + j) - (a + i)"
      using le eq mod_eq_dvd_iff_nat [of "a + i" "a + j" m] by simp
    then have "m dvd j - i" by simp
    then show ?thesis using le \<open>j < m\<close> nat_dvd_not_less [of "j - i" m] by fastforce
  qed
  with assms show ?thesis by (metis nat_le_linear)
qed

text \<open>Decimal output of \<open>snprintf\<close>'s \<open>%u\<close>.\<close>

definition digit_char :: "nat \<Rightarrow> char" where
  "digit_char d = ''0123456789'' ! d"

fun show_nat :: "nat \<Rightarrow> string" where
  "show_nat n = (if n < 10 then [digit_char n] else show_nat (n div 10) @ [digit_char (n mod 10)])"

lemma show_nat_length: "n < 10 ^ Suc k \<Longrightarrow> length (show_nat n) \<le> Suc k"
proof (induction k arbitrary: n)
  case 0
  then show ?case by (simp add: show_nat.simps)
next
  case (Suc k)
  have "n div 10 < 10 ^ Suc k" using Suc.prems by (simp add: less_mult_imp_div_less)
  from Suc.IH [OF this] show ?case by (subst show_nat.simps) simp
qed

declare show_nat.simps [simp del]

end
