(* ===== verification/Fixed_Pool.thy ===== *)
theory Fixed_Pool
  imports Prelude
begin

text \<open>
  The tagged free-list block pool of \<open>foundation/fixed_pool.hpp\<close>. The free-list link of a block
  lives in the first four bytes of its own storage, so writing the payload of an allocated block
  destroys its link. \<open>fixed_pool_allocate\<close> and \<open>fixed_pool_release\<close> are the runs of the two CAS
  loops without interference; \<open>pool_step\<close> below interleaves them at the granularity of their
  atomic accesses. The debug-only owner array is compiled out of release builds and not modelled.
\<close>

section \<open>Representation\<close>

record fixed_pool =
  fp_head :: u64
  fp_storage :: "u8 list list"

definition kEmpty :: u32 where
  "kEmpty = - 1"

definition fp_pack :: "u32 \<Rightarrow> u32 \<Rightarrow> u64" where
  "fp_pack index_value tag_value = ucast index_value OR push_bit 32 (ucast tag_value)"

definition fp_index :: "u64 \<Rightarrow> u32" where
  "fp_index head = ucast head"

definition fp_tag :: "u64 \<Rightarrow> u32" where
  "fp_tag head = ucast (drop_bit 32 head)"

lemma fp_index_pack [simp]: "fp_index (fp_pack i t) = i"
  unfolding fp_index_def fp_pack_def by (rule bit_word_eqI) (auto simp: bit_simps)

lemma fp_tag_pack [simp]: "fp_tag (fp_pack i t) = t"
  unfolding fp_tag_def fp_pack_def
  by (rule bit_word_eqI) (auto simp: bit_simps dest: bit_imp_le_length)

lemma fp_pack_inject [simp]: "fp_pack i t = fp_pack j u \<longleftrightarrow> i = j \<and> t = u"
  by (metis fp_index_pack fp_tag_pack)

lemma fp_pack_index_tag [simp]: "fp_pack (fp_index h) (fp_tag h) = h"
  unfolding fp_index_def fp_tag_def fp_pack_def
proof (rule bit_word_eqI)
  fix n assume "n < LENGTH(64)"
  then show "bit (ucast (ucast h :: u32) OR push_bit 32 (ucast (ucast (drop_bit 32 h) :: u32)) :: u64) n
    = bit h n"
    by (cases "n < 32") (auto simp: bit_simps)
qed

definition fp_count :: "fixed_pool \<Rightarrow> nat" where
  "fp_count p = length (fp_storage p)"

definition fp_store_next :: "nat \<Rightarrow> u32 \<Rightarrow> fixed_pool \<Rightarrow> fixed_pool" where
  "fp_store_next block nxt p =
     p\<lparr>fp_storage := (fp_storage p)[block := overwrite (fp_storage p ! block) (u32_bytes nxt)]\<rparr>"

definition fp_load_next :: "fixed_pool \<Rightarrow> nat \<Rightarrow> u32" where
  "fp_load_next p block = bytes_u32 (fp_storage p ! block)"

text \<open>The constructor links block \<open>i\<close> to \<open>i + 1\<close> and the last block to the empty index.\<close>

definition fixed_pool_init :: "nat \<Rightarrow> nat \<Rightarrow> fixed_pool" where
  "fixed_pool_init block_size block_count =
     \<lparr>fp_head = fp_pack 0 0,
      fp_storage = map (\<lambda>i. overwrite (replicate block_size 0)
          (u32_bytes (if i + 1 < block_count then of_nat (i + 1) else kEmpty))) [0..<block_count]\<rparr>"

section \<open>Operations\<close>

definition fixed_pool_allocate :: "fixed_pool \<Rightarrow> (nat \<times> fixed_pool) option" where
  "fixed_pool_allocate p =
     (let head = fp_head p in
      if fp_index head = kEmpty then None
      else let current = unat (fp_index head);
               nxt = fp_load_next p current;
               desired = fp_pack nxt (fp_tag head + 1)
           in Some (current, p\<lparr>fp_head := desired\<rparr>))"

definition fixed_pool_release :: "fixed_pool \<Rightarrow> nat \<Rightarrow> fixed_pool" where
  "fixed_pool_release p current =
     (let head = fp_head p;
          p1 = fp_store_next current (fp_index head) p
      in p1\<lparr>fp_head := fp_pack (of_nat current) (fp_tag head + 1)\<rparr>)"

text \<open>The payload accesses of the pool's clients: \<open>memcpy\<close> into and out of a claimed block.\<close>

definition fixed_pool_write :: "fixed_pool \<Rightarrow> nat \<Rightarrow> u8 list \<Rightarrow> fixed_pool" where
  "fixed_pool_write p block data =
     p\<lparr>fp_storage := (fp_storage p)[block := overwrite (fp_storage p ! block) data]\<rparr>"

definition fixed_pool_read :: "fixed_pool \<Rightarrow> nat \<Rightarrow> nat \<Rightarrow> nat \<Rightarrow> u8 list" where
  "fixed_pool_read p block off n = take n (drop off (fp_storage p ! block))"

section \<open>The free list\<close>

fun fp_chain :: "fixed_pool \<Rightarrow> u32 \<Rightarrow> nat list \<Rightarrow> bool" where
  "fp_chain p i [] \<longleftrightarrow> i = kEmpty"
| "fp_chain p i (x # xs) \<longleftrightarrow> i = of_nat x \<and> x < fp_count p \<and> fp_chain p (fp_load_next p x) xs"

fun fp_walk :: "nat \<Rightarrow> fixed_pool \<Rightarrow> u32 \<Rightarrow> nat list" where
  "fp_walk 0 p i = []"
| "fp_walk (Suc n) p i = (if i = kEmpty then [] else unat i # fp_walk n p (fp_load_next p (unat i)))"

definition fp_free_list :: "fixed_pool \<Rightarrow> nat list" where
  "fp_free_list p = fp_walk (fp_count p) p (fp_index (fp_head p))"

definition fp_free :: "fixed_pool \<Rightarrow> nat set" where
  "fp_free p = set (fp_free_list p)"

text \<open>
  The geometry the \<open>static_assert\<close>s demand (a block stores its link, the count does not collide
  with the empty index) and a duplicate-free chain from the head.
\<close>

definition fp_geometry :: "fixed_pool \<Rightarrow> bool" where
  "fp_geometry p \<longleftrightarrow> 0 < fp_count p \<and> fp_count p < unat kEmpty \<and>
     (\<forall>b \<in> set (fp_storage p). 4 \<le> length b)"

definition fp_inv :: "fixed_pool \<Rightarrow> bool" where
  "fp_inv p \<longleftrightarrow> fp_geometry p \<and> distinct (fp_free_list p) \<and>
     fp_chain p (fp_index (fp_head p)) (fp_free_list p)"

lemma unat_kEmpty: "unat kEmpty = 2 ^ 32 - 1"
  by (simp add: kEmpty_def unsigned_minus_1_eq_mask mask_eq_exp_minus_1)

lemma fp_geometry_lt: "fp_geometry p \<Longrightarrow> x < fp_count p \<Longrightarrow> x < 2 ^ 32 - 1"
  unfolding fp_geometry_def unat_kEmpty by linarith

lemma fp_id_roundtrip [simp]: "fp_geometry p \<Longrightarrow> x < fp_count p \<Longrightarrow> unat (of_nat x :: u32) = x"
  by (rule unat_of_nat_u32) (drule (1) fp_geometry_lt, simp)

lemma fp_id_not_empty [simp]: "fp_geometry p \<Longrightarrow> x < fp_count p \<Longrightarrow> (of_nat x :: u32) \<noteq> kEmpty"
  by (metis fp_geometry_lt fp_id_roundtrip nat_less_le unat_kEmpty)

lemma fp_chain_subset: "fp_chain p i xs \<Longrightarrow> set xs \<subseteq> {..<fp_count p}"
  by (induction xs arbitrary: i) auto

lemma fp_chain_length: "fp_chain p i xs \<Longrightarrow> distinct xs \<Longrightarrow> length xs \<le> fp_count p"
  by (metis card_lessThan card_mono distinct_card finite_lessThan fp_chain_subset)

lemma fp_walk_chain:
  "fp_geometry p \<Longrightarrow> fp_chain p i xs \<Longrightarrow> length xs \<le> n \<Longrightarrow> fp_walk n p i = xs"
proof (induction xs arbitrary: i n)
  case Nil
  then show ?case by (cases n) simp_all
next
  case (Cons x xs)
  from Cons.prems obtain m where n: "n = Suc m" and m: "length xs \<le> m"
    by (cases n) auto
  from Cons.prems have "fp_walk m p (fp_load_next p x) = xs"
    using Cons.IH [OF _ _ m] by simp
  with Cons.prems n show ?case by simp
qed

lemma fp_chain_cong:
  "fp_count q = fp_count p \<Longrightarrow> (\<And>x. x \<in> set xs \<Longrightarrow> fp_load_next q x = fp_load_next p x) \<Longrightarrow>
   fp_chain q i xs = fp_chain p i xs"
  by (induction xs arbitrary: i) auto

lemma fp_chain_inv:
  assumes "fp_geometry p" "fp_chain p (fp_index (fp_head p)) xs" "distinct xs"
  shows "fp_inv p" and "fp_free_list p = xs"
proof -
  show eq: "fp_free_list p = xs"
    unfolding fp_free_list_def using assms by (metis fp_chain_length fp_walk_chain)
  show "fp_inv p"
    using assms eq by (simp add: fp_inv_def)
qed

lemma fp_load_store [simp]:
  "b < fp_count p \<Longrightarrow>
   fp_load_next (fp_store_next b n p) x = (if x = b then n else fp_load_next p x)"
  by (auto simp: fp_load_next_def fp_store_next_def fp_count_def nth_list_update)

lemma fp_count_simps [simp]:
  "fp_count (fp_store_next b n p) = fp_count p"
  "fp_count (p\<lparr>fp_head := h\<rparr>) = fp_count p"
  "fp_count (fixed_pool_write p b d) = fp_count p"
  by (simp_all add: fp_count_def fp_store_next_def fixed_pool_write_def)

lemma fp_load_head [simp]: "fp_load_next (p\<lparr>fp_head := h\<rparr>) x = fp_load_next p x"
  by (simp add: fp_load_next_def)

lemma fp_head_store [simp]: "fp_head (fp_store_next b n p) = fp_head p"
  by (simp add: fp_store_next_def)

lemma fp_geometry_head [simp]: "fp_geometry (p\<lparr>fp_head := h\<rparr>) = fp_geometry p"
  by (simp add: fp_geometry_def)

lemma set_update_overwrite:
  assumes "\<forall>b \<in> set xs. n \<le> length b" "i < length xs" "length d \<le> length (xs ! i)" "b \<in> set (xs[i := overwrite (xs ! i) d])"
  shows "n \<le> length b"
proof -
  from assms(4) have "b = overwrite (xs ! i) d \<or> b \<in> set xs"
    using set_update_subset_insert by fastforce
  with assms(1-3) show ?thesis by auto
qed

lemma fp_block_size: "fp_geometry p \<Longrightarrow> b < fp_count p \<Longrightarrow> 4 \<le> length (fp_storage p ! b)"
  by (simp add: fp_geometry_def fp_count_def)

lemma fp_geometry_store [simp]:
  "fp_geometry p \<Longrightarrow> b < fp_count p \<Longrightarrow> fp_geometry (fp_store_next b n p)"
  unfolding fp_geometry_def
  using set_update_overwrite [of "fp_storage p" 4 b "u32_bytes n"]
  by (auto simp: fp_count_def fp_store_next_def)

section \<open>What the operations promise\<close>

lemma fp_inv_chainE:
  assumes "fp_inv p"
  obtains "fp_geometry p" "fp_chain p (fp_index (fp_head p)) (fp_free_list p)" "distinct (fp_free_list p)"
  using assms by (simp add: fp_inv_def)

lemma fixed_pool_allocate_None: "fp_inv p \<Longrightarrow> fixed_pool_allocate p = None \<longleftrightarrow> fp_free p = {}"
  by (erule fp_inv_chainE, cases "fp_free_list p")
    (auto simp: fixed_pool_allocate_def fp_free_def Let_def)

lemma fixed_pool_allocate_Some:
  assumes "fp_inv p" "fixed_pool_allocate p = Some (b, p')"
  shows "fp_inv p'" "b < fp_count p" "fp_count p' = fp_count p" "fp_free_list p = b # fp_free_list p'"
    "fp_storage p' = fp_storage p"
proof -
  from assms(1) have g: "fp_geometry p" and c: "fp_chain p (fp_index (fp_head p)) (fp_free_list p)"
    and d: "distinct (fp_free_list p)"
    by (auto elim: fp_inv_chainE)
  from assms(2) have ne: "fp_index (fp_head p) \<noteq> kEmpty" and b: "b = unat (fp_index (fp_head p))"
    and p': "p' = p\<lparr>fp_head := fp_pack (fp_load_next p b) (fp_tag (fp_head p) + 1)\<rparr>"
    by (auto simp: fixed_pool_allocate_def Let_def split: if_splits)
  from c ne obtain x xs where fl: "fp_free_list p = x # xs"
    by (cases "fp_free_list p") auto
  with c g b have x: "x = b" "b < fp_count p" and c': "fp_chain p (fp_load_next p b) xs"
    by auto
  have "fp_chain p' (fp_index (fp_head p')) xs"
    using c' by (subst fp_chain_cong [of p' p]) (auto simp: p')
  with g d fl have "fp_inv p'" and "fp_free_list p' = xs"
    using fp_chain_inv [of p' xs] by (auto simp: p')
  with fl x show "fp_inv p'" "b < fp_count p" "fp_count p' = fp_count p"
    "fp_free_list p = b # fp_free_list p'" "fp_storage p' = fp_storage p"
    by (auto simp: p')
qed

lemma fixed_pool_release_spec:
  assumes "fp_inv p" "b < fp_count p" "b \<notin> fp_free p"
  shows "fp_inv (fixed_pool_release p b)"
    "fp_free_list (fixed_pool_release p b) = b # fp_free_list p"
    "fp_count (fixed_pool_release p b) = fp_count p"
proof -
  from assms(1) have g: "fp_geometry p" and c: "fp_chain p (fp_index (fp_head p)) (fp_free_list p)"
    and d: "distinct (fp_free_list p)"
    by (auto elim: fp_inv_chainE)
  let ?q = "fixed_pool_release p b"
  have q: "?q = (fp_store_next b (fp_index (fp_head p)) p)
      \<lparr>fp_head := fp_pack (of_nat b) (fp_tag (fp_head p) + 1)\<rparr>"
    by (simp add: fixed_pool_release_def Let_def)
  have nin: "b \<notin> set (fp_free_list p)"
    using assms(3) by (simp add: fp_free_def)
  have "fp_chain ?q (fp_index (fp_head p)) (fp_free_list p)"
    using c nin assms(2) by (subst fp_chain_cong [of ?q p]) (auto simp: q)
  then have "fp_chain ?q (fp_index (fp_head ?q)) (b # fp_free_list p)"
    using assms(2) by (simp add: q)
  moreover have "fp_geometry ?q"
    using g assms(2) by (simp add: q)
  ultimately show "fp_inv ?q" "fp_free_list ?q = b # fp_free_list p"
    using fp_chain_inv [of ?q "b # fp_free_list p"] d nin by auto
  show "fp_count ?q = fp_count p"
    by (simp add: q)
qed

lemma fp_chain_init:
  assumes "n < 2 ^ 32" "4 \<le> k" "i < n"
  shows "fp_chain (fixed_pool_init k n) (of_nat i) [i..<n]"
  using assms(3)
proof (induction "n - i" arbitrary: i)
  case 0
  then show ?case by simp
next
  case (Suc d)
  have link: "fp_load_next (fixed_pool_init k n) i = (if i + 1 < n then of_nat (i + 1) else kEmpty)"
    using Suc.prems by (simp add: fp_load_next_def fixed_pool_init_def)
  show ?case
  proof (cases "i + 1 < n")
    case True
    then have "fp_chain (fixed_pool_init k n) (of_nat (i + 1)) [i + 1..<n]"
      using Suc.hyps(1) [of "i + 1"] Suc.hyps(2) by simp
    then show ?thesis
      using True Suc.prems link by (simp add: upt_conv_Cons fp_count_def fixed_pool_init_def)
  next
    case False
    then have "[i..<n] = [i]" using Suc.prems by (simp add: upt_conv_Cons)
    then show ?thesis
      using False Suc.prems link by (simp add: fp_count_def fixed_pool_init_def)
  qed
qed

lemma fixed_pool_init_spec:
  assumes "0 < n" "n < unat kEmpty" "4 \<le> k"
  shows "fp_inv (fixed_pool_init k n)" "fp_free_list (fixed_pool_init k n) = [0..<n]"
    "fp_count (fixed_pool_init k n) = n"
    "b < n \<Longrightarrow> length (fp_storage (fixed_pool_init k n) ! b) = k"
proof -
  have lt: "n < 2 ^ 32" using assms(2) by (simp add: unat_kEmpty)
  have "fp_geometry (fixed_pool_init k n)"
    using assms by (auto simp: fp_geometry_def fp_count_def fixed_pool_init_def)
  moreover have "fp_chain (fixed_pool_init k n) (fp_index (fp_head (fixed_pool_init k n))) [0..<n]"
    using fp_chain_init [OF lt assms(3), of 0] assms(1) by (simp add: fixed_pool_init_def)
  ultimately show "fp_inv (fixed_pool_init k n)" "fp_free_list (fixed_pool_init k n) = [0..<n]"
    using fp_chain_inv [of "fixed_pool_init k n" "[0..<n]"] by simp_all
  show "fp_count (fixed_pool_init k n) = n"
    by (simp add: fp_count_def fixed_pool_init_def)
  show "b < n \<Longrightarrow> length (fp_storage (fixed_pool_init k n) ! b) = k"
    using assms(3) by (simp add: fixed_pool_init_def)
qed

lemma fp_load_write [simp]:
  "x \<noteq> b \<Longrightarrow> fp_load_next (fixed_pool_write p b d) x = fp_load_next p x"
  by (simp add: fp_load_next_def fixed_pool_write_def)

lemma fp_head_write [simp]: "fp_head (fixed_pool_write p b d) = fp_head p"
  by (simp add: fixed_pool_write_def)

lemma fp_geometry_write [simp]:
  assumes "fp_geometry p" "b < fp_count p" "length d \<le> length (fp_storage p ! b)"
  shows "fp_geometry (fixed_pool_write p b d)"
  unfolding fp_geometry_def
  using assms set_update_overwrite [of "fp_storage p" 4 b d]
  by (auto simp: fp_geometry_def fp_count_def fixed_pool_write_def)

lemma fixed_pool_write_spec:
  assumes "fp_inv p" "b < fp_count p" "b \<notin> fp_free p" "length d \<le> length (fp_storage p ! b)"
  shows "fp_inv (fixed_pool_write p b d)" "fp_free_list (fixed_pool_write p b d) = fp_free_list p"
proof -
  let ?q = "fixed_pool_write p b d"
  from assms(1) have g: "fp_geometry p" and c: "fp_chain p (fp_index (fp_head p)) (fp_free_list p)"
    and ds: "distinct (fp_free_list p)"
    by (auto elim: fp_inv_chainE)
  have "b \<notin> set (fp_free_list p)" using assms(3) by (simp add: fp_free_def)
  then have "fp_chain ?q (fp_index (fp_head ?q)) (fp_free_list p)"
    using c by (subst fp_chain_cong [of ?q p]) (auto intro!: fp_load_write)
  then show "fp_inv ?q" "fp_free_list ?q = fp_free_list p"
    using fp_chain_inv [of ?q "fp_free_list p"] g ds assms by auto
qed

section \<open>The contract of a block pool\<close>

text \<open>
  What the lanes and the log writer rely on: an allocated block was free and is not handed out
  again before it is released, and writing one block leaves every other block alone.
\<close>

locale block_pool =
  fixes alloc :: "'p \<Rightarrow> (nat \<times> 'p) option"
    and release :: "'p \<Rightarrow> nat \<Rightarrow> 'p"
    and put :: "'p \<Rightarrow> nat \<Rightarrow> u8 list \<Rightarrow> 'p"
    and get :: "'p \<Rightarrow> nat \<Rightarrow> nat \<Rightarrow> nat \<Rightarrow> u8 list"
    and free :: "'p \<Rightarrow> nat set"
    and count :: "'p \<Rightarrow> nat"
    and bytes :: "'p \<Rightarrow> nat \<Rightarrow> nat"
    and ok :: "'p \<Rightarrow> bool"
  assumes free_sub: "ok p \<Longrightarrow> free p \<subseteq> {..<count p}"
    and alloc_None: "ok p \<Longrightarrow> alloc p = None \<longleftrightarrow> free p = {}"
    and alloc_Some: "ok p \<Longrightarrow> alloc p = Some (b, p') \<Longrightarrow>
          ok p' \<and> b \<in> free p \<and> free p' = free p - {b} \<and> count p' = count p \<and>
          (\<forall>c. bytes p' c = bytes p c) \<and> (\<forall>c off n. get p' c off n = get p c off n)"
    and release_law: "ok p \<Longrightarrow> b < count p \<Longrightarrow> b \<notin> free p \<Longrightarrow>
          ok (release p b) \<and> free (release p b) = insert b (free p) \<and>
          count (release p b) = count p \<and> (\<forall>c. bytes (release p b) c = bytes p c) \<and>
          (\<forall>c off n. c \<noteq> b \<longrightarrow> get (release p b) c off n = get p c off n)"
    and write_law: "ok p \<Longrightarrow> b < count p \<Longrightarrow> b \<notin> free p \<Longrightarrow> length d \<le> bytes p b \<Longrightarrow>
          ok (put p b d) \<and> free (put p b d) = free p \<and> count (put p b d) = count p \<and>
          (\<forall>c. bytes (put p b d) c = bytes p c) \<and>
          (\<forall>c off n. c \<noteq> b \<longrightarrow> get (put p b d) c off n = get p c off n)"
    and read_write: "b < count p \<Longrightarrow> get (put p b d) b off n = take n (drop off (d @ drop (length d) (get p b 0 (bytes p b))))"
begin

definition used :: "'p \<Rightarrow> nat set" where
  "used p = {..<count p} - free p"

lemma used_finite [simp]: "finite (used p)"
  by (simp add: used_def)

lemma card_split: "ok p \<Longrightarrow> card (free p) + card (used p) = count p"
  unfolding used_def using free_sub [of p]
  by (metis add.commute card_Diff_subset card_lessThan card_mono finite_lessThan finite_subset
      le_add_diff_inverse2)

lemma alloc_fresh:
  "ok p \<Longrightarrow> alloc p = Some (b, p') \<Longrightarrow> b \<notin> used p \<and> used p' = insert b (used p) \<and> b < count p"
  using alloc_Some [of p b p'] free_sub [of p] by (auto simp: used_def)

lemma release_used:
  "ok p \<Longrightarrow> b \<in> used p \<Longrightarrow> used (release p b) = used p - {b} \<and> ok (release p b)"
  using release_law [of p b] by (auto simp: used_def)

lemma write_used: "ok p \<Longrightarrow> b \<in> used p \<Longrightarrow> length d \<le> bytes p b \<Longrightarrow>
    used (put p b d) = used p \<and> ok (put p b d)"
  using write_law [of p b d] by (auto simp: used_def)

lemma read_back: "ok p \<Longrightarrow> b \<in> used p \<Longrightarrow> get (put p b d) b 0 (length d) = d"
  by (simp add: used_def read_write)

lemma alloc_write_release:
  assumes "ok p" "alloc p = Some (b, p')" "length d \<le> bytes p b"
  shows "ok (release (put p' b d) b)" "free (release (put p' b d) b) = free p"
    "count (release (put p' b d) b) = count p"
proof -
  have a: "ok p'" "b < count p'" "b \<notin> free p'" "b \<in> free p" "free p' = free p - {b}"
    "count p' = count p" "bytes p' b = bytes p b"
    using alloc_Some [OF assms(1,2)] alloc_fresh [OF assms(1,2)] by auto
  then have w: "ok (put p' b d)" "free (put p' b d) = free p'" "count (put p' b d) = count p'"
    using write_law [of p' b d] assms(3) by auto
  then show "ok (release (put p' b d) b)" "free (release (put p' b d) b) = free p"
    "count (release (put p' b d) b) = count p"
    using release_law [of "put p' b d" b] a by auto
qed

end

definition fp_bytes :: "fixed_pool \<Rightarrow> nat \<Rightarrow> nat" where
  "fp_bytes p b = length (fp_storage p ! b)"

lemma fp_bytes_release [simp]:
  assumes "fp_inv p" "b < fp_count p"
  shows "fp_bytes (fixed_pool_release p b) c = fp_bytes p c"
proof -
  have "4 \<le> length (fp_storage p ! b)"
    using assms fp_block_size by (auto simp: fp_inv_def)
  then show ?thesis
    using assms(2)
    by (cases "c = b") (auto simp: fp_bytes_def fixed_pool_release_def Let_def fp_store_next_def
      fp_count_def)
qed

interpretation fpool: block_pool fixed_pool_allocate fixed_pool_release fixed_pool_write
  fixed_pool_read fp_free fp_count fp_bytes fp_inv
proof unfold_locales
  show "fp_inv p \<Longrightarrow> fp_free p \<subseteq> {..<fp_count p}" for p
    unfolding fp_free_def by (elim fp_inv_chainE) (rule fp_chain_subset)
  show "fp_inv p \<Longrightarrow> (fixed_pool_allocate p = None) = (fp_free p = {})" for p
    by (rule fixed_pool_allocate_None)
next
  fix p b p' assume a: "fp_inv p" "fixed_pool_allocate p = Some (b, p')"
  from a(1) have "distinct (fp_free_list p)" by (simp add: fp_inv_def)
  then show "fp_inv p' \<and> b \<in> fp_free p \<and> fp_free p' = fp_free p - {b} \<and> fp_count p' = fp_count p \<and>
    (\<forall>c. fp_bytes p' c = fp_bytes p c) \<and>
    (\<forall>c off n. fixed_pool_read p' c off n = fixed_pool_read p c off n)"
    using fixed_pool_allocate_Some [OF a]
    by (auto simp: fp_free_def fp_bytes_def fixed_pool_read_def)
next
  fix p b assume a: "fp_inv p" "b < fp_count p" "b \<notin> fp_free p"
  show "fp_inv (fixed_pool_release p b) \<and> fp_free (fixed_pool_release p b) = insert b (fp_free p) \<and>
    fp_count (fixed_pool_release p b) = fp_count p \<and>
    (\<forall>c. fp_bytes (fixed_pool_release p b) c = fp_bytes p c) \<and>
    (\<forall>c off n. c \<noteq> b \<longrightarrow> fixed_pool_read (fixed_pool_release p b) c off n = fixed_pool_read p c off n)"
    using fixed_pool_release_spec [OF a] a
    by (simp add: fp_free_def) (simp add: fixed_pool_read_def fixed_pool_release_def Let_def fp_store_next_def)
next
  fix p b and d :: "u8 list"
  assume a: "fp_inv p" "b < fp_count p" "b \<notin> fp_free p" "length d \<le> fp_bytes p b"
  show "fp_inv (fixed_pool_write p b d) \<and> fp_free (fixed_pool_write p b d) = fp_free p \<and>
    fp_count (fixed_pool_write p b d) = fp_count p \<and>
    (\<forall>c. fp_bytes (fixed_pool_write p b d) c = fp_bytes p c) \<and>
    (\<forall>c off n. c \<noteq> b \<longrightarrow> fixed_pool_read (fixed_pool_write p b d) c off n = fixed_pool_read p c off n)"
    using fixed_pool_write_spec [of p b d] a
    by (auto simp: fp_free_def fp_bytes_def fixed_pool_read_def fixed_pool_write_def nth_list_update
        fp_count_def)
next
  fix b p off n and d :: "u8 list"
  assume "b < fp_count p"
  then show "fixed_pool_read (fixed_pool_write p b d) b off n =
    take n (drop off (d @ drop (length d) (fixed_pool_read p b 0 (fp_bytes p b))))"
    by (simp add: fixed_pool_read_def fixed_pool_write_def fp_count_def overwrite_def fp_bytes_def)
qed

section \<open>The compare-and-swap loops, interleaved\<close>

text \<open>
  One thread's position in \<open>allocate\<close> or \<open>release\<close>, with the head value it last read. A step is one
  atomic access; the payload and link accesses in between are plain. \<open>fc_age t\<close> counts the head
  mutations since thread \<open>t\<close> last read the head, and \<open>fp_reach\<close> follows the executions in which no
  thread sleeps through \<open>2 ^ 32\<close> of them, the window the comment over \<open>pack\<close> claims.
\<close>

datatype fp_pc =
    FpIdle
  | FpAlloc u64                 \<comment> \<open>head read, index not yet examined\<close>
  | FpLinked u64 u32            \<comment> \<open>link of the head block read, CAS next\<close>
  | FpRelease nat u64           \<comment> \<open>head read, link not yet stored\<close>
  | FpStored nat u64            \<comment> \<open>link stored, CAS next\<close>

record fp_conc =
  fc_pool :: fixed_pool
  fc_issued :: "nat set"
  fc_pc :: "nat \<Rightarrow> fp_pc"
  fc_age :: "nat \<Rightarrow> nat"

definition fp_conc_init :: "fixed_pool \<Rightarrow> fp_conc" where
  "fp_conc_init p = \<lparr>fc_pool = p, fc_issued = {}, fc_pc = (\<lambda>_. FpIdle), fc_age = (\<lambda>_. 0)\<rparr>"

inductive pool_step :: "fp_conc \<Rightarrow> fp_conc \<Rightarrow> bool" where
  ps_load: "fc_pc c t = FpIdle \<Longrightarrow>
     pool_step c (c\<lparr>fc_pc := (fc_pc c)(t := FpAlloc (fp_head (fc_pool c))), fc_age := (fc_age c)(t := 0)\<rparr>)"
| ps_null: "fc_pc c t = FpAlloc h \<Longrightarrow> fp_index h = kEmpty \<Longrightarrow>
     pool_step c (c\<lparr>fc_pc := (fc_pc c)(t := FpIdle)\<rparr>)"
| ps_link: "fc_pc c t = FpAlloc h \<Longrightarrow> fp_index h \<noteq> kEmpty \<Longrightarrow>
     pool_step c (c\<lparr>fc_pc := (fc_pc c)(t := FpLinked h (fp_load_next (fc_pool c) (unat (fp_index h))))\<rparr>)"
| ps_take: "fc_pc c t = FpLinked h n \<Longrightarrow> fp_head (fc_pool c) = h \<Longrightarrow>
     pool_step c (c\<lparr>fc_pool := (fc_pool c)\<lparr>fp_head := fp_pack n (fp_tag h + 1)\<rparr>,
                    fc_issued := insert (unat (fp_index h)) (fc_issued c),
                    fc_pc := (fc_pc c)(t := FpIdle), fc_age := (\<lambda>u. Suc (fc_age c u))\<rparr>)"
| ps_take_retry: "fc_pc c t = FpLinked h n \<Longrightarrow>
     pool_step c (c\<lparr>fc_pc := (fc_pc c)(t := FpAlloc (fp_head (fc_pool c))), fc_age := (fc_age c)(t := 0)\<rparr>)"
| ps_release: "fc_pc c t = FpIdle \<Longrightarrow> b \<in> fc_issued c \<Longrightarrow>
     pool_step c (c\<lparr>fc_issued := fc_issued c - {b},
                    fc_pc := (fc_pc c)(t := FpRelease b (fp_head (fc_pool c))), fc_age := (fc_age c)(t := 0)\<rparr>)"
| ps_store: "fc_pc c t = FpRelease b h \<Longrightarrow>
     pool_step c (c\<lparr>fc_pool := fp_store_next b (fp_index h) (fc_pool c),
                    fc_pc := (fc_pc c)(t := FpStored b h)\<rparr>)"
| ps_give: "fc_pc c t = FpStored b h \<Longrightarrow> fp_head (fc_pool c) = h \<Longrightarrow>
     pool_step c (c\<lparr>fc_pool := (fc_pool c)\<lparr>fp_head := fp_pack (of_nat b) (fp_tag h + 1)\<rparr>,
                    fc_pc := (fc_pc c)(t := FpIdle), fc_age := (\<lambda>u. Suc (fc_age c u))\<rparr>)"
| ps_give_retry: "fc_pc c t = FpStored b h \<Longrightarrow>
     pool_step c (c\<lparr>fc_pc := (fc_pc c)(t := FpRelease b (fp_head (fc_pool c))), fc_age := (fc_age c)(t := 0)\<rparr>)"
| ps_payload: "b \<in> fc_issued c \<Longrightarrow> length d \<le> fp_bytes (fc_pool c) b \<Longrightarrow>
     pool_step c (c\<lparr>fc_pool := fixed_pool_write (fc_pool c) b d\<rparr>)"

definition fp_young :: "fp_conc \<Rightarrow> bool" where
  "fp_young c \<longleftrightarrow> (\<forall>t. fc_pc c t \<noteq> FpIdle \<longrightarrow> fc_age c t < 2 ^ 32)"

inductive fp_reach :: "fixed_pool \<Rightarrow> fp_conc \<Rightarrow> bool" for p where
  fpr_init: "fp_reach p (fp_conc_init p)"
| fpr_step: "fp_reach p c \<Longrightarrow> pool_step c c' \<Longrightarrow> fp_young c' \<Longrightarrow> fp_reach p c'"

fun fp_pc_head :: "fp_pc \<Rightarrow> u64 option" where
  "fp_pc_head FpIdle = None"
| "fp_pc_head (FpAlloc h) = Some h"
| "fp_pc_head (FpLinked h n) = Some h"
| "fp_pc_head (FpRelease b h) = Some h"
| "fp_pc_head (FpStored b h) = Some h"

fun fp_pc_block :: "fp_pc \<Rightarrow> nat set" where
  "fp_pc_block (FpRelease b h) = {b}"
| "fp_pc_block (FpStored b h) = {b}"
| "fp_pc_block _ = {}"

text \<open>What the private values of one thread say about the shared pool.\<close>

fun fp_pc_fresh :: "fixed_pool \<Rightarrow> fp_pc \<Rightarrow> bool" where
  "fp_pc_fresh p (FpLinked h n) \<longleftrightarrow>
     fp_index h \<noteq> kEmpty \<and> (h = fp_head p \<longrightarrow> n = fp_load_next p (unat (fp_index h)))"
| "fp_pc_fresh p (FpStored b h) \<longleftrightarrow> fp_load_next p b = fp_index h"
| "fp_pc_fresh p _ \<longleftrightarrow> True"

definition fp_cinv :: "fp_conc \<Rightarrow> bool" where
  "fp_cinv c \<longleftrightarrow> fp_inv (fc_pool c) \<and>
     fc_issued c \<subseteq> {..<fp_count (fc_pool c)} - fp_free (fc_pool c) \<and>
     (\<forall>t. fp_pc_block (fc_pc c t) \<subseteq> {..<fp_count (fc_pool c)} - fp_free (fc_pool c) - fc_issued c) \<and>
     (\<forall>t u. t \<noteq> u \<longrightarrow> fp_pc_block (fc_pc c t) \<inter> fp_pc_block (fc_pc c u) = {}) \<and>
     (\<forall>t h. fp_pc_head (fc_pc c t) = Some h \<longrightarrow>
        fp_tag (fp_head (fc_pool c)) = fp_tag h + of_nat (fc_age c t) \<and>
        (fc_age c t = 0 \<longrightarrow> h = fp_head (fc_pool c))) \<and>
     (\<forall>t. fp_pc_fresh (fc_pool c) (fc_pc c t))"

lemma fp_tag_moved:
  assumes "0 < k" "k < 2 ^ 32"
  shows "(w :: u32) \<noteq> w + of_nat k"
proof
  assume "w = w + of_nat k"
  then have "(of_nat k :: u32) = 0" by (metis add_cancel_right_right)
  then show False using assms unat_of_nat_u32 [of k] by simp
qed

lemma fp_cinv_head_step:
  assumes inv: "fp_cinv c" and young: "fp_young c'"
    and p': "fc_pool c' = (fc_pool c)\<lparr>fp_head := fp_pack i (fp_tag (fp_head (fc_pool c)) + 1)\<rparr>"
    and pc': "fc_pc c' = (fc_pc c)(t := FpIdle)" and age: "fc_age c' = (\<lambda>u. Suc (fc_age c u))"
  shows "\<forall>u h. fp_pc_head (fc_pc c' u) = Some h \<longrightarrow>
        fp_tag (fp_head (fc_pool c')) = fp_tag h + of_nat (fc_age c' u) \<and>
        (fc_age c' u = 0 \<longrightarrow> h = fp_head (fc_pool c'))"
    and "\<forall>u. fp_pc_fresh (fc_pool c') (fc_pc c' u)"
proof -
  show heads: "\<forall>u h. fp_pc_head (fc_pc c' u) = Some h \<longrightarrow>
        fp_tag (fp_head (fc_pool c')) = fp_tag h + of_nat (fc_age c' u) \<and>
        (fc_age c' u = 0 \<longrightarrow> h = fp_head (fc_pool c'))"
    using inv by (auto simp: fp_cinv_def p' pc' age)
  show "\<forall>u. fp_pc_fresh (fc_pool c') (fc_pc c' u)"
  proof
    fix u
    have fresh: "fp_pc_fresh (fc_pool c) (fc_pc c u)" using inv by (simp add: fp_cinv_def)
    show "fp_pc_fresh (fc_pool c') (fc_pc c' u)"
    proof (cases "fc_pc c' u")
      case (FpLinked h n)
      then have "fp_tag (fp_head (fc_pool c')) = fp_tag h + of_nat (fc_age c' u)"
        using heads by (metis fp_pc_head.simps(3))
      moreover have "fc_age c' u < 2 ^ 32"
        using young FpLinked by (auto simp: fp_young_def)
      ultimately have "h \<noteq> fp_head (fc_pool c')"
        using fp_tag_moved [of "fc_age c' u" "fp_tag h"] by (auto simp: age)
      then show ?thesis using FpLinked fresh pc' by (auto split: if_splits)
    next
      case (FpStored b h)
      then show ?thesis using fresh pc' p' by (auto split: if_splits)
    qed (use fresh in auto)
  qed
qed

lemma fp_linked_allocates:
  assumes "fp_cinv c" "fc_pc c t = FpLinked h n" "fp_head (fc_pool c) = h"
  shows "fixed_pool_allocate (fc_pool c) =
    Some (unat (fp_index h), (fc_pool c)\<lparr>fp_head := fp_pack n (fp_tag h + 1)\<rparr>)"
proof -
  have "fp_pc_fresh (fc_pool c) (FpLinked h n)"
    using assms(1,2) unfolding fp_cinv_def by metis
  then show ?thesis
    using assms(3) by (auto simp: fixed_pool_allocate_def Let_def)
qed

lemma fp_stored_releases:
  assumes "fp_cinv c" "fc_pc c t = FpStored b h" "fp_head (fc_pool c) = h"
  shows "fp_inv ((fc_pool c)\<lparr>fp_head := fp_pack (of_nat b) (fp_tag h + 1)\<rparr>)"
    and "fp_free ((fc_pool c)\<lparr>fp_head := fp_pack (of_nat b) (fp_tag h + 1)\<rparr>) = insert b (fp_free (fc_pool c))"
proof -
  have link: "fp_load_next (fc_pool c) b = fp_index h" and inv: "fp_inv (fc_pool c)"
    and b: "b < fp_count (fc_pool c)" "b \<notin> fp_free (fc_pool c)"
  proof -
    have "fp_pc_fresh (fc_pool c) (FpStored b h)" "fp_pc_block (FpStored b h) \<subseteq>
       {..<fp_count (fc_pool c)} - fp_free (fc_pool c) - fc_issued c" "fp_inv (fc_pool c)"
      using assms(1,2) unfolding fp_cinv_def by metis+
    then show "fp_load_next (fc_pool c) b = fp_index h" "fp_inv (fc_pool c)"
      "b < fp_count (fc_pool c)" "b \<notin> fp_free (fc_pool c)" by auto
  qed
  let ?q = "(fc_pool c)\<lparr>fp_head := fp_pack (of_nat b) (fp_tag h + 1)\<rparr>"
  from inv have g: "fp_geometry ?q" and ch: "fp_chain (fc_pool c) (fp_index h) (fp_free_list (fc_pool c))"
    and d: "distinct (fp_free_list (fc_pool c))"
    using assms(3) by (auto simp: fp_inv_def)
  have "fp_chain ?q (fp_index h) (fp_free_list (fc_pool c))"
    using ch by (subst fp_chain_cong [of ?q "fc_pool c"]) auto
  then have "fp_chain ?q (fp_index (fp_head ?q)) (b # fp_free_list (fc_pool c))"
    using link b by simp
  then show "fp_inv ?q" "fp_free ?q = insert b (fp_free (fc_pool c))"
    using fp_chain_inv [OF g, of "b # fp_free_list (fc_pool c)"] d b by (auto simp: fp_free_def)
qed

lemma fp_store_next_write: "fp_store_next b n p = fixed_pool_write p b (u32_bytes n)"
  by (simp add: fp_store_next_def fixed_pool_write_def)

lemma fp_head_free: "fp_inv p \<Longrightarrow> fp_index (fp_head p) \<noteq> kEmpty \<Longrightarrow> unat (fp_index (fp_head p)) \<in> fp_free p"
  using fpool.alloc_Some [of p "unat (fp_index (fp_head p))"]
  by (auto simp: fixed_pool_allocate_def Let_def)

lemma fp_cinvE:
  assumes "fp_cinv c"
  shows "fp_inv (fc_pool c)" "fc_issued c \<subseteq> {..<fp_count (fc_pool c)} - fp_free (fc_pool c)"
    "fp_pc_block (fc_pc c t) \<subseteq> {..<fp_count (fc_pool c)} - fp_free (fc_pool c) - fc_issued c"
    "t \<noteq> u \<Longrightarrow> fp_pc_block (fc_pc c t) \<inter> fp_pc_block (fc_pc c u) = {}"
    "fp_pc_head (fc_pc c t) = Some h \<Longrightarrow> fp_tag (fp_head (fc_pool c)) = fp_tag h + of_nat (fc_age c t) \<and>
        (fc_age c t = 0 \<longrightarrow> h = fp_head (fc_pool c))"
    "fp_pc_fresh (fc_pool c) (fc_pc c t)"
  using assms unfolding fp_cinv_def by simp_all

lemma fp_cinv_write:
  assumes inv: "fp_cinv c" and b: "b < fp_count (fc_pool c)" "b \<notin> fp_free (fc_pool c)"
    and len: "length d \<le> fp_bytes (fc_pool c) b"
    and off: "\<And>u h. fc_pc c u = FpStored b h \<Longrightarrow> pcs u \<noteq> FpStored b h"
    and same: "\<And>u. pcs u = fc_pc c u \<or> (\<exists>h. fc_pc c u = FpRelease b h \<and> pcs u = FpStored b h \<and>
                fp_load_next (fixed_pool_write (fc_pool c) b d) b = fp_index h)"
  shows "fp_cinv (c\<lparr>fc_pool := fixed_pool_write (fc_pool c) b d, fc_pc := pcs\<rparr>)"
proof -
  let ?q = "fixed_pool_write (fc_pool c) b d"
  note I = fp_cinvE [OF inv]
  have q: "fp_inv ?q" "fp_free ?q = fp_free (fc_pool c)"
    using fixed_pool_write_spec [OF I(1) b] len by (auto simp: fp_bytes_def fp_free_def)
  have hd: "fp_pc_head (pcs u) = fp_pc_head (fc_pc c u)"
    and blk: "fp_pc_block (pcs u) = fp_pc_block (fc_pc c u)" for u
    using same [of u] by auto
  have "fp_pc_fresh ?q (pcs u)" for u
  proof (cases "pcs u")
    case (FpLinked h n)
    then have eq: "pcs u = fc_pc c u" using same [of u] by auto
    have "h = fp_head (fc_pool c) \<Longrightarrow> fp_index h \<noteq> kEmpty \<Longrightarrow> unat (fp_index h) \<noteq> b"
      using fp_head_free [OF I(1)] b by auto
    then show ?thesis using I(6) [of u] FpLinked eq by auto
  next
    case (FpStored b' h)
    show ?thesis
    proof (cases "b' = b")
      case True
      then show ?thesis using same [of u] off [of u h] FpStored by auto
    next
      case False
      then have "fc_pc c u = FpStored b' h" using same [of u] FpStored by auto
      then show ?thesis using I(6) [of u] FpStored False by simp
    qed
  qed auto
  then show ?thesis
    unfolding fp_cinv_def using q I(2-5) by (simp add: hd blk)
qed

lemma fp_cinv_local:
  assumes inv: "fp_cinv c"
    and c': "fc_pool c' = fc_pool c" "fc_pc c' = (fc_pc c)(t := s)" "\<And>u. u \<noteq> t \<Longrightarrow> fc_age c' u = fc_age c u"
    and hd: "\<And>h. fp_pc_head s = Some h \<Longrightarrow> h = fp_head (fc_pool c) \<and> fc_age c' t = 0 \<or>
               fp_pc_head (fc_pc c t) = Some h \<and> fc_age c' t = fc_age c t"
    and blk: "fp_pc_block s \<subseteq> fp_pc_block (fc_pc c t) \<union> fc_issued c" "fc_issued c' \<subseteq> fc_issued c"
      "fp_pc_block s \<inter> fc_issued c' = {}"
    and fresh: "fp_pc_fresh (fc_pool c) s"
  shows "fp_cinv c'"
proof -
  note I = fp_cinvE [OF inv]
  have b: "fp_pc_block (fc_pc c' u) \<subseteq> {..<fp_count (fc_pool c')} - fp_free (fc_pool c') - fc_issued c'" for u
    using I(2) I(3) [of u] I(3) [of t] blk c' by (cases "u = t") auto
  have d: "fp_pc_block (fc_pc c' u) \<inter> fp_pc_block (fc_pc c' v) = {}" if "u \<noteq> v" for u v
    using I(4) [of u v] I(3) [of u] I(3) [of v] blk c' that by (cases "u = t"; cases "v = t") auto
  have h: "fp_tag (fp_head (fc_pool c')) = fp_tag h + of_nat (fc_age c' u) \<and>
        (fc_age c' u = 0 \<longrightarrow> h = fp_head (fc_pool c'))" if "fp_pc_head (fc_pc c' u) = Some h" for u h
    using I(5) [of u h] that hd [of h] c' by (cases "u = t") auto
  show ?thesis
    unfolding fp_cinv_def using I(1,2,6) b d h blk(2) c' fresh by auto
qed

lemma pool_step_cinv:
  assumes "pool_step c c'" "fp_cinv c" "fp_young c'"
  shows "fp_cinv c'"
  using assms(1)
proof cases
  case (ps_take t h n)
  note I = fp_cinvE [OF assms(2)]
  have a: "fixed_pool_allocate (fc_pool c) =
      Some (unat (fp_index h), (fc_pool c)\<lparr>fp_head := fp_pack n (fp_tag h + 1)\<rparr>)"
    using fp_linked_allocates [OF assms(2) ps_take(2,3)] .
  note S = fpool.alloc_Some [OF I(1) a] fpool.alloc_fresh [OF I(1) a]
  have T: "\<forall>u h. fp_pc_head (fc_pc c' u) = Some h \<longrightarrow>
        fp_tag (fp_head (fc_pool c')) = fp_tag h + of_nat (fc_age c' u) \<and>
        (fc_age c' u = 0 \<longrightarrow> h = fp_head (fc_pool c'))"
     "\<forall>u. fp_pc_fresh (fc_pool c') (fc_pc c' u)"
    using fp_cinv_head_step [OF assms(2,3), of n t] ps_take by auto
  have "fp_inv (fc_pool c')" "fc_issued c' \<subseteq> {..<fp_count (fc_pool c')} - fp_free (fc_pool c')"
    using S I(2) ps_take(1) by auto
  moreover have "fp_pc_block (fc_pc c' u) \<subseteq> {..<fp_count (fc_pool c')} - fp_free (fc_pool c') - fc_issued c'" for u
    using S I(3) [of u] ps_take(1) by auto
  moreover have "u \<noteq> v \<Longrightarrow> fp_pc_block (fc_pc c' u) \<inter> fp_pc_block (fc_pc c' v) = {}" for u v
    using I(4) [of u v] ps_take(1) by auto
  ultimately show ?thesis
    unfolding fp_cinv_def using T by blast
next
  case (ps_give t b h)
  note I = fp_cinvE [OF assms(2)]
  note S = fp_stored_releases [OF assms(2) ps_give(2,3)]
  have T: "\<forall>u h. fp_pc_head (fc_pc c' u) = Some h \<longrightarrow>
        fp_tag (fp_head (fc_pool c')) = fp_tag h + of_nat (fc_age c' u) \<and>
        (fc_age c' u = 0 \<longrightarrow> h = fp_head (fc_pool c'))"
     "\<forall>u. fp_pc_fresh (fc_pool c') (fc_pc c' u)"
    using fp_cinv_head_step [OF assms(2,3), of "of_nat b" t] ps_give by auto
  have bt: "b \<notin> fc_issued c" "\<And>u. u \<noteq> t \<Longrightarrow> b \<notin> fp_pc_block (fc_pc c u)"
    using I(3) [of t] I(4) [of t] ps_give(2) by auto
  have "fp_inv (fc_pool c')" "fc_issued c' \<subseteq> {..<fp_count (fc_pool c')} - fp_free (fc_pool c')"
    using S I(2) ps_give(1) bt by auto
  moreover have "fp_pc_block (fc_pc c' u) \<subseteq> {..<fp_count (fc_pool c')} - fp_free (fc_pool c') - fc_issued c'" for u
    using S I(3) [of u] ps_give(1) bt(2) [of u] by auto
  moreover have "u \<noteq> v \<Longrightarrow> fp_pc_block (fc_pc c' u) \<inter> fp_pc_block (fc_pc c' v) = {}" for u v
    using I(4) [of u v] ps_give(1) by auto
  ultimately show ?thesis
    unfolding fp_cinv_def using T by blast
next
  case (ps_store t b h)
  note I = fp_cinvE [OF assms(2)]
  have b: "b < fp_count (fc_pool c)" "b \<notin> fp_free (fc_pool c)" using I(3) [of t] ps_store(2) by auto
  have 4: "4 \<le> length (fp_storage (fc_pool c) ! b)"
    using I(1) b fp_block_size by (auto simp: fp_inv_def)
  have one: "fc_pc c u \<noteq> FpStored b k" for u k
    using I(4) [of u t] ps_store(2) by (cases "u = t") auto
  show ?thesis
    unfolding ps_store(1) fp_store_next_write
    by (rule fp_cinv_write [OF assms(2) b]) (use 4 b one ps_store(2) in
      \<open>auto simp: fp_bytes_def fp_store_next_write [symmetric]\<close>)
next
  case (ps_payload b d)
  note I = fp_cinvE [OF assms(2)]
  have b: "b < fp_count (fc_pool c)" "b \<notin> fp_free (fc_pool c)" using I(2) ps_payload(2) by auto
  have "fc_pc c u \<noteq> FpStored b h" for u h
    using I(3) [of u] ps_payload(2) by auto
  then show ?thesis
    using fp_cinv_write [OF assms(2) b ps_payload(3), of "fc_pc c"] ps_payload(1) by auto
next
  case (ps_load t)
  show ?thesis unfolding ps_load(1)
    by (rule fp_cinv_local [OF assms(2), where t = t]) (use ps_load(2) in auto)
next
  case (ps_null t h)
  show ?thesis unfolding ps_null(1)
    by (rule fp_cinv_local [OF assms(2), where t = t]) (use ps_null(2) in auto)
next
  case (ps_link t h)
  show ?thesis unfolding ps_link(1)
    by (rule fp_cinv_local [OF assms(2), where t = t]) (use ps_link(2,3) in auto)
next
  case (ps_take_retry t h n)
  show ?thesis unfolding ps_take_retry(1)
    by (rule fp_cinv_local [OF assms(2), where t = t]) (use ps_take_retry(2) in auto)
next
  case (ps_release t b)
  show ?thesis unfolding ps_release(1)
    by (rule fp_cinv_local [OF assms(2), where t = t]) (use ps_release(2,3) in auto)
next
  case (ps_give_retry t b h)
  show ?thesis unfolding ps_give_retry(1)
    by (rule fp_cinv_local [OF assms(2), where t = t])
      (use ps_give_retry(2) fp_cinvE(3) [OF assms(2), of t] in auto)
qed

lemma fp_reach_cinv: "fp_reach p c \<Longrightarrow> fp_inv p \<Longrightarrow> fp_cinv c"
proof (induction rule: fp_reach.induct)
  case fpr_init
  then show ?case by (simp add: fp_cinv_def fp_conc_init_def)
next
  case (fpr_step c c')
  then show ?case by (blast intro: pool_step_cinv)
qed

section \<open>Properties\<close>

text \<open>
  C14 (fixed_pool_cas_exclusive). A successful compare-and-swap of \<open>allocate\<close>, in any interleaving with
  other allocators, releasers and payload writers, has the effect of an uninterrupted \<open>allocate\<close>: the
  link read earlier is still the link of the head block although it was read without protection, and
  the block handed out is in nobody's hands. The tag makes this so (no ABA) as long as no thread
  sleeps through \<open>2 ^ 32\<close> head mutations.
\<close>

theorem fixed_pool_cas_exclusive:
  assumes "fp_inv p" "fp_reach p c" "fc_pc c t = FpLinked h n" "fp_head (fc_pool c) = h"
  shows "fixed_pool_allocate (fc_pool c) =
      Some (unat (fp_index h), (fc_pool c)\<lparr>fp_head := fp_pack n (fp_tag h + 1)\<rparr>) \<and>
    unat (fp_index h) \<notin> fc_issued c \<and> (\<forall>u. unat (fp_index h) \<notin> fp_pc_block (fc_pc c u))"
proof -
  note inv = fp_reach_cinv [OF assms(2,1)]
  note a = fp_linked_allocates [OF inv assms(3,4)]
  have "unat (fp_index h) \<in> fp_free (fc_pool c)"
    using fpool.alloc_Some [OF fp_cinvE(1) [OF inv] a] by simp
  then show ?thesis
    using a fp_cinvE(2) [OF inv] fp_cinvE(3) [OF inv] by auto
qed

definition fp_demo :: fp_conc where
  "fp_demo = (fp_conc_init (fixed_pool_init 8 2))
     \<lparr>fc_pc := (\<lambda>_. FpIdle)(7 := FpLinked (fp_pack 0 0) (fp_load_next (fixed_pool_init 8 2) 0)),
      fc_age := (\<lambda>_. 0)(7 := 0)\<rparr>"

lemma fp_demo_reach: "fp_reach (fixed_pool_init 8 2) fp_demo"
proof -
  let ?p = "fixed_pool_init 8 2"
  have h: "fp_head ?p = fp_pack 0 0" by (simp add: fixed_pool_init_def)
  have ne: "fp_index (fp_pack 0 0) \<noteq> kEmpty" by (simp add: kEmpty_def)
  let ?c = "(fp_conc_init ?p)\<lparr>fc_pc := (\<lambda>_. FpIdle)(7 := FpAlloc (fp_pack 0 0)), fc_age := (\<lambda>_. 0)(7 := 0)\<rparr>"
  have "pool_step (fp_conc_init ?p) ?c"
    using ps_load [of "fp_conc_init ?p" 7] by (simp add: fp_conc_init_def h)
  then have 1: "fp_reach ?p ?c"
    by (rule fpr_step [OF fpr_init]) (simp add: fp_young_def)
  have "pool_step ?c fp_demo"
    using ps_link [of ?c 7 "fp_pack 0 0"] ne by (simp add: fp_demo_def fp_conc_init_def)
  then show ?thesis
    by (rule fpr_step [OF 1]) (simp add: fp_young_def fp_demo_def)
qed

theorem fixed_pool_cas_exclusive_witness: "unat (fp_index (fp_pack 0 0)) \<notin> fc_issued fp_demo"
proof -
  have "fp_inv (fixed_pool_init 8 2)"
    by (rule fixed_pool_init_spec) (simp_all add: unat_kEmpty)
  moreover have "fc_pc fp_demo 7 = FpLinked (fp_pack 0 0) (fp_load_next (fixed_pool_init 8 2) 0)"
    "fp_head (fc_pool fp_demo) = fp_pack 0 0"
    by (simp_all add: fp_demo_def fp_conc_init_def fixed_pool_init_def)
  ultimately show ?thesis
    using fixed_pool_cas_exclusive [OF _ fp_demo_reach] by blast
qed

end
