(* ===== verification/Bounded_Fifo.thy ===== *)
theory Bounded_Fifo
  imports Prelude
begin

text \<open>
  The contract of a bounded first-in first-out ring and the drain loop \<open>while (ring.try_pop(x)) ...\<close>.
  Two of the program's rings are in the source and interpret the contract (the error ring, and the
  session writer's job ring while its counters do not wrap). The rings of the coact library
  (\<open>coact::SpscRing\<close>) are not: their state is modelled as the list of queued items, their two
  operations are parameters of the definitions that use them, and \<open>spsc_ring_ok\<close> is the documented
  behaviour the theorems assume of those parameters.
\<close>

locale bounded_fifo =
  fixes try_push :: "'r \<Rightarrow> 'a \<Rightarrow> 'r option"
    and try_pop :: "'r \<Rightarrow> ('a \<times> 'r) option"
    and items :: "'r \<Rightarrow> 'a list"
    and cap :: nat
    and ok :: "'r \<Rightarrow> bool"
  assumes push_None: "ok r \<Longrightarrow> try_push r x = None \<longleftrightarrow> cap \<le> length (items r)"
    and push_Some: "ok r \<Longrightarrow> try_push r x = Some r' \<Longrightarrow> ok r' \<and> items r' = items r @ [x]"
    and pop_None: "ok r \<Longrightarrow> try_pop r = None \<longleftrightarrow> items r = []"
    and pop_Some: "ok r \<Longrightarrow> try_pop r = Some (x, r') \<Longrightarrow> ok r' \<and> items r = x # items r'"
begin

fun push_all :: "'r \<Rightarrow> 'a list \<Rightarrow> 'r \<times> 'a list" where
  "push_all r [] = (r, [])"
| "push_all r (x # xs) = (case try_push r x of None \<Rightarrow> (r, x # xs) | Some r' \<Rightarrow> push_all r' xs)"

lemma push_room: "ok r \<Longrightarrow> length (items r) < cap \<Longrightarrow> \<exists>r'. try_push r x = Some r'"
  using push_None [of r x] by (cases "try_push r x") auto

lemma pop_cons: "ok r \<Longrightarrow> items r = x # xs \<Longrightarrow> \<exists>r'. try_pop r = Some (x, r') \<and> ok r' \<and> items r' = xs"
  using pop_None [of r] pop_Some [of r] by (cases "try_pop r") fastforce+

lemma push_bound: "ok r \<Longrightarrow> length (items r) \<le> cap \<Longrightarrow> try_push r x = Some r' \<Longrightarrow> length (items r') \<le> cap"
  using push_None [of r x] push_Some [of r x r'] by fastforce

lemma push_all_items:
  "ok r \<Longrightarrow> push_all r xs = (r', ys) \<Longrightarrow> ok r' \<and> items r' @ ys = items r @ xs"
proof (induction xs arbitrary: r)
  case (Cons x xs)
  then show ?case
    using push_Some [of r x] by (fastforce split: option.splits)
qed auto

lemma push_then_pop:
  assumes "ok r" "items r = []" "0 < cap"
  shows "\<exists>r' r''. try_push r x = Some r' \<and> try_pop r' = Some (x, r'') \<and> items r'' = []"
  using push_room [of r x] push_Some [of r x] pop_cons [of _ x "[]"] assms
  by fastforce

end

section \<open>Rings of the coact library\<close>

definition spsc_ring_ok :: "nat \<Rightarrow> ('a list \<Rightarrow> 'a \<Rightarrow> 'a list option) \<Rightarrow> ('a list \<Rightarrow> ('a \<times> 'a list) option) \<Rightarrow> bool"
  where "spsc_ring_ok cap push pop \<longleftrightarrow> bounded_fifo push pop id cap (\<lambda>_. True)"

text \<open>Functions with that behaviour, for the closed instances.\<close>

definition list_push :: "nat \<Rightarrow> 'a list \<Rightarrow> 'a \<Rightarrow> 'a list option" where
  [xcom_defs]: "list_push cap r x = (if length r < cap then Some (r @ [x]) else None)"

fun list_pop :: "'a list \<Rightarrow> ('a \<times> 'a list) option" where
  "list_pop [] = None"
| "list_pop (x # xs) = Some (x, xs)"

lemma spsc_list_ring: "spsc_ring_ok cap (list_push cap) list_pop"
  unfolding spsc_ring_ok_def
proof unfold_locales
  show "list_pop r = None \<longleftrightarrow> id r = []" for r :: "'a list" by (cases r) auto
  show "list_pop r = Some (x, r') \<Longrightarrow> True \<and> id r = x # id r'" for r r' :: "'a list" and x
    by (cases r) auto
qed (auto simp: list_push_def split: if_splits)

lemma spsc_push:
  "spsc_ring_ok cap push pop \<Longrightarrow> push r x = (if length r < cap then Some (r @ [x]) else None)"
  using bounded_fifo.push_room [of push pop id cap "\<lambda>_. True" r x]
    bounded_fifo.push_Some [of push pop id cap "\<lambda>_. True" r x]
    bounded_fifo.push_None [of push pop id cap "\<lambda>_. True" r x]
  by (auto simp: spsc_ring_ok_def)

lemma spsc_pop:
  "spsc_ring_ok cap push pop \<Longrightarrow> pop r = (case r of [] \<Rightarrow> None | x # xs \<Rightarrow> Some (x, xs))"
  using bounded_fifo.pop_None [of push pop id cap "\<lambda>_. True" r]
    bounded_fifo.pop_cons [of push pop id cap "\<lambda>_. True" r]
  by (auto simp: spsc_ring_ok_def split: list.splits)

section \<open>Draining a ring\<close>

text \<open>
  \<open>while (ring.try_pop(x)) body(x)\<close>, with the number of turns bounded by \<open>fuel\<close>; with more fuel than
  queued items the loop empties the ring and applies the body to every item in order.
\<close>

fun pop_loop :: "nat \<Rightarrow> ('r \<Rightarrow> ('a \<times> 'r) option) \<Rightarrow> ('a \<Rightarrow> 's \<Rightarrow> 's) \<Rightarrow> 'r \<Rightarrow> 's \<Rightarrow> 'r \<times> 's" where
  "pop_loop 0 pop body r s = (r, s)"
| "pop_loop (Suc n) pop body r s =
     (case pop r of None \<Rightarrow> (r, s) | Some (x, r') \<Rightarrow> pop_loop n pop body r' (body x s))"

lemma pop_loop_spsc:
  assumes "spsc_ring_ok cap push pop"
  shows "length r < n \<Longrightarrow> pop_loop n pop body r s = ([], fold body r s)"
proof (induction r arbitrary: n s)
  case Nil
  then show ?case by (cases n) (simp_all add: spsc_pop [OF assms])
next
  case (Cons x xs)
  then obtain m where "n = Suc m" by (cases n) auto
  with Cons show ?case by (simp add: spsc_pop [OF assms])
qed

end
