(* ===== verification/Error_Ring.thy ===== *)
theory Error_Ring
  imports Bounded_Fifo
begin

text \<open>
  The multi-producer error ring of \<open>runtime/xcom_core.hpp\<close> (class \<open>ErrorRing\<close>): 128 slots, each with
  a sequence word that says whose turn it is. Positions are 32-bit counters that wrap; the model
  keeps them at that width and the FIFO contract below holds across the wrap.
\<close>

section \<open>Representation\<close>

definition kErrorRingCount :: nat where [simp]: "kErrorRingCount = 128"

record error_entry =
  ee_code :: i32
  ee_source :: u16
  ee_message :: "char list"

record error_ring =
  er_enqueue_pos :: u32
  er_dequeue_pos :: u32
  er_sequence :: "u32 list"
  er_entries :: "error_entry list"
  er_dropped :: u32

definition error_ring_init :: error_ring where
  "error_ring_init =
     \<lparr>er_enqueue_pos = 0, er_dequeue_pos = 0, er_sequence = map of_nat [0..<kErrorRingCount],
      er_entries = replicate kErrorRingCount
        \<lparr>ee_code = 0, ee_source = 0, ee_message = replicate 256 (CHR 0x00)\<rparr>,
      er_dropped = 0\<rparr>"

definition er_slot :: "u32 \<Rightarrow> nat" where
  "er_slot position = unat (position AND (of_nat kErrorRingCount - 1))"

section \<open>Operations\<close>

text \<open>
  The message is clamped to 255 bytes and terminated; the bytes behind the terminator keep what the
  slot held before.
\<close>

definition er_fill :: "error_entry \<Rightarrow> i32 \<Rightarrow> u16 \<Rightarrow> string \<Rightarrow> error_entry" where
  "er_fill old code source msg =
     (let cap = length (ee_message old) - 1;
          n = (if length msg < cap then length msg else cap);
          body = overwrite (ee_message old) (take n msg)
      in \<lparr>ee_code = code, ee_source = source, ee_message = body[n := CHR 0x00]\<rparr>)"

datatype er_claim = ErReserved | ErFull | ErMoved

definition er_look :: "error_ring \<Rightarrow> u32 \<Rightarrow> er_claim" where
  "er_look r position =
     (let difference = sint (er_sequence r ! er_slot position - position)
      in if difference = 0 then ErReserved else if difference < 0 then ErFull else ErMoved)"

text \<open>Reserve the slot at \<open>position\<close>, store the entry and publish the sequence.\<close>

definition er_commit :: "error_ring \<Rightarrow> u32 \<Rightarrow> error_entry \<Rightarrow> error_ring" where
  "er_commit r position e =
     r\<lparr>er_enqueue_pos := position + 1,
       er_entries := (er_entries r)[er_slot position := e],
       er_sequence := (er_sequence r)[er_slot position := position + 1]\<rparr>"

text \<open>
  The producer's loop run alone: a slot that is ahead of the producer makes it read the enqueue
  position again. \<open>fuel\<close> bounds these turns; \<open>error_ring_push_reserves\<close> shows one is enough.
\<close>

fun error_ring_push_from :: "nat \<Rightarrow> error_ring \<Rightarrow> u32 \<Rightarrow> i32 \<Rightarrow> u16 \<Rightarrow> string \<Rightarrow> error_ring" where
  "error_ring_push_from 0 r position code source msg = r"
| "error_ring_push_from (Suc n) r position code source msg =
     (case er_look r position of
        ErReserved \<Rightarrow> er_commit r position (er_fill (er_entries r ! er_slot position) code source msg)
      | ErFull \<Rightarrow> r\<lparr>er_dropped := er_dropped r + 1\<rparr>
      | ErMoved \<Rightarrow> error_ring_push_from n r (er_enqueue_pos r) code source msg)"

definition error_ring_push :: "error_ring \<Rightarrow> i32 \<Rightarrow> u16 \<Rightarrow> string \<Rightarrow> error_ring" where
  "error_ring_push r code source msg = error_ring_push_from 2 r (er_enqueue_pos r) code source msg"

definition error_ring_take :: "error_ring \<Rightarrow> (error_entry \<times> error_ring) option" where
  "error_ring_take r =
     (let k = er_slot (er_dequeue_pos r);
          sequence = er_sequence r ! k
      in if sint (sequence - (er_dequeue_pos r + 1)) \<noteq> 0 then None
         else Some (er_entries r ! k,
                r\<lparr>er_sequence := (er_sequence r)[k := er_dequeue_pos r + of_nat kErrorRingCount],
                  er_dequeue_pos := er_dequeue_pos r + 1\<rparr>))"

definition er_try_push :: "error_ring \<Rightarrow> error_entry \<Rightarrow> error_ring option" where
  "er_try_push r e =
     (if er_look r (er_enqueue_pos r) = ErReserved then Some (er_commit r (er_enqueue_pos r) e) else None)"

section \<open>Queued entries and the slot protocol\<close>

definition er_size :: "error_ring \<Rightarrow> nat" where
  "er_size r = unat (er_enqueue_pos r - er_dequeue_pos r)"

definition er_pos :: "error_ring \<Rightarrow> nat \<Rightarrow> u32" where
  "er_pos r i = er_dequeue_pos r + of_nat i"

definition er_items :: "error_ring \<Rightarrow> error_entry list" where
  "er_items r = map (\<lambda>i. er_entries r ! er_slot (er_pos r i)) [0..<er_size r]"

definition er_inv :: "error_ring \<Rightarrow> bool" where
  "er_inv r \<longleftrightarrow> length (er_sequence r) = kErrorRingCount \<and> length (er_entries r) = kErrorRingCount \<and>
     er_size r \<le> kErrorRingCount \<and>
     (\<forall>i < kErrorRingCount. er_sequence r ! er_slot (er_pos r i) =
        (if i < er_size r then er_pos r i + 1 else er_pos r i))"

lemma er_slot_mod: "er_slot w = unat w mod 128"
proof -
  have "w AND (of_nat kErrorRingCount - 1) = take_bit 7 w"
    unfolding take_bit_eq_mask by (simp add: mask_eq_exp_minus_1)
  then have "er_slot w = take_bit 7 (unat w)"
    unfolding er_slot_def by (simp only: unsigned_take_bit_eq)
  then show ?thesis
    by (simp add: take_bit_eq_mod)
qed

lemma er_slot_less [simp]: "er_slot w < 128"
  by (simp add: er_slot_mod)

lemma er_slot_pos: "er_slot (d + of_nat i) = (unat d + i) mod 128"
proof -
  have "unat (d + of_nat i) = (unat d + i) mod 2 ^ 32"
    by (simp add: unat_word_ariths unat_of_nat mod_simps take_bit_eq_mod)
  then show ?thesis
    by (simp add: er_slot_mod mod_mod_cancel)
qed

lemma er_slot_inject:
  assumes "i < 128" "j < 128"
  shows "er_slot (d + of_nat i) = er_slot (d + of_nat j) \<longleftrightarrow> i = j"
proof
  assume "er_slot (d + of_nat i) = er_slot (d + of_nat j)"
  then have "(unat d + i) mod 128 = (unat d + j) mod 128"
    by (simp add: er_slot_pos)
  with assms show "i = j" by (blast intro: mod_add_inject)
qed simp

lemma er_slot_wrap: "er_slot (d + 128) = er_slot d"
  using er_slot_pos [of d 128] by (simp add: er_slot_mod)

lemma er_enqueue_pos_size: "er_pos r (er_size r) = er_enqueue_pos r"
  by (simp add: er_pos_def er_size_def)

lemma er_inv_sequence:
  "er_inv r \<Longrightarrow> i < 128 \<Longrightarrow>
   er_sequence r ! er_slot (er_pos r i) = (if i < er_size r then er_pos r i + 1 else er_pos r i)"
  by (simp add: er_inv_def)

lemma er_inv_look:
  assumes "er_inv r"
  shows "er_look r (er_enqueue_pos r) = (if er_size r < kErrorRingCount then ErReserved else ErFull)"
proof (cases "er_size r < 128")
  case True
  then have "er_sequence r ! er_slot (er_enqueue_pos r) = er_enqueue_pos r"
    using er_inv_sequence [OF assms True] er_enqueue_pos_size [of r] by simp
  then show ?thesis using True by (simp add: er_look_def)
next
  case False
  then have sz: "er_size r = 128" using assms by (simp add: er_inv_def)
  then have e: "er_enqueue_pos r = er_dequeue_pos r + 128"
    using er_enqueue_pos_size [of r] by (simp add: er_pos_def)
  have "er_sequence r ! er_slot (er_pos r 0) = er_pos r 0 + 1"
    using er_inv_sequence [OF assms, of 0] sz by simp
  then have "er_sequence r ! er_slot (er_enqueue_pos r) - er_enqueue_pos r = - 127"
    by (simp add: e er_slot_wrap er_pos_def)
  then show ?thesis using False by (simp add: er_look_def)
qed

lemma er_inv_take:
  assumes "er_inv r"
  shows "error_ring_take r = None \<longleftrightarrow> er_size r = 0"
proof -
  have "er_sequence r ! er_slot (er_dequeue_pos r) =
      (if 0 < er_size r then er_dequeue_pos r + 1 else er_dequeue_pos r)"
    using er_inv_sequence [OF assms, of 0] by (simp add: er_pos_def)
  then show ?thesis
    by (simp add: error_ring_take_def Let_def)
qed

lemma er_size_push:
  assumes "er_size r < 128"
  shows "unat (er_enqueue_pos r + 1 - er_dequeue_pos r) = Suc (er_size r)"
proof -
  have "er_enqueue_pos r + 1 - er_dequeue_pos r = of_nat (Suc (er_size r))"
    by (simp add: er_size_def algebra_simps)
  then show ?thesis using assms unat_of_nat_u32 [of "Suc (er_size r)"] by (simp del: of_nat_Suc)
qed

lemma er_size_pop:
  assumes "0 < er_size r"
  shows "unat (er_enqueue_pos r - (er_dequeue_pos r + 1)) = er_size r - 1"
proof -
  have "er_enqueue_pos r - (er_dequeue_pos r + 1) = of_nat (er_size r - 1)"
    using assms by (simp add: er_size_def of_nat_diff Suc_le_eq)
  moreover have "er_size r < 2 ^ 32"
    unfolding er_size_def using unsigned_less [of "er_enqueue_pos r - er_dequeue_pos r"] by simp
  ultimately show ?thesis using unat_of_nat_u32 [of "er_size r - 1"] by simp
qed

lemma er_commit_spec:
  assumes inv: "er_inv r" and room: "er_size r < kErrorRingCount"
  shows "er_inv (er_commit r (er_enqueue_pos r) e)"
    and "er_items (er_commit r (er_enqueue_pos r) e) = er_items r @ [e]"
proof -
  let ?q = "er_commit r (er_enqueue_pos r) e"
  have room': "er_size r < 128" using room by simp
  have sz: "er_size ?q = Suc (er_size r)"
    using er_size_push [OF room'] by (simp add: er_size_def er_commit_def)
  have pos: "er_pos ?q i = er_pos r i" for i by (simp add: er_pos_def er_commit_def)
  have enq: "er_enqueue_pos r = er_dequeue_pos r + of_nat (er_size r)"
    using er_enqueue_pos_size [of r] by (simp add: er_pos_def)
  have same: "er_slot (er_enqueue_pos r) = er_slot (er_pos r i) \<longleftrightarrow> i = er_size r" if "i < 128" for i
    using er_slot_inject [OF room' that, of "er_dequeue_pos r"] enq by (auto simp: er_pos_def)
  have len: "length (er_sequence r) = 128" "length (er_entries r) = 128"
    and seq: "\<And>i. i < 128 \<Longrightarrow> er_sequence r ! er_slot (er_pos r i) =
       (if i < er_size r then er_pos r i + 1 else er_pos r i)"
    using inv er_inv_sequence [OF inv] by (simp_all add: er_inv_def)
  have seq': "er_sequence ?q ! er_slot (er_pos ?q i) =
        (if i < er_size ?q then er_pos ?q i + 1 else er_pos ?q i)" if "i < 128" for i
  proof (cases "i = er_size r")
    case True
    then show ?thesis
      using len er_enqueue_pos_size [of r] by (simp add: pos sz) (simp add: er_commit_def)
  next
    case False
    then have "er_sequence ?q ! er_slot (er_pos ?q i) = er_sequence r ! er_slot (er_pos r i)"
      using same [OF that] unfolding pos by (simp add: er_commit_def)
    then show ?thesis using False seq [OF that] by (simp add: pos sz less_Suc_eq)
  qed
  have len': "length (er_sequence ?q) = 128" "length (er_entries ?q) = 128"
    using len by (simp_all add: er_commit_def)
  show "er_inv ?q"
    using room' seq' by (simp add: er_inv_def sz len')
  have ent: "er_entries ?q ! er_slot (er_pos r i) = (if i = er_size r then e else er_entries r ! er_slot (er_pos r i))"
    if "i < 128" for i
    using same [OF that] len by (auto simp: er_commit_def nth_list_update)
  have "map (\<lambda>i. er_entries ?q ! er_slot (er_pos r i)) [0..<er_size r] = er_items r"
    unfolding er_items_def using room' ent by (intro map_cong) auto
  then show "er_items ?q = er_items r @ [e]"
    using ent [OF room'] by (simp add: er_items_def [of ?q] sz pos)
qed

lemma er_take_spec:
  assumes inv: "er_inv r" and t: "error_ring_take r = Some (e, q)"
  shows "er_inv q" "er_items r = e # er_items q"
proof -
  have sz0: "0 < er_size r" using er_inv_take [OF inv] t by auto
  have q: "q = r\<lparr>er_sequence := (er_sequence r)[er_slot (er_dequeue_pos r) := er_dequeue_pos r + 128],
      er_dequeue_pos := er_dequeue_pos r + 1\<rparr>" and e: "e = er_entries r ! er_slot (er_dequeue_pos r)"
    using t by (auto simp: error_ring_take_def Let_def split: if_splits)
  have len: "length (er_sequence r) = 128" "length (er_entries r) = 128" "er_size r \<le> 128"
    and seq: "\<And>i. i < 128 \<Longrightarrow> er_sequence r ! er_slot (er_pos r i) =
       (if i < er_size r then er_pos r i + 1 else er_pos r i)"
    using inv er_inv_sequence [OF inv] by (simp_all add: er_inv_def)
  have sz: "er_size q = er_size r - 1"
    using er_size_pop [OF sz0] by (simp add: er_size_def q)
  have pos: "er_pos q i = er_pos r (Suc i)" for i by (simp add: er_pos_def q)
  have seq': "er_sequence q ! er_slot (er_pos q i) = (if i < er_size q then er_pos q i + 1 else er_pos q i)"
    if "i < 128" for i
  proof (cases "Suc i < 128")
    case True
    have "er_slot (er_pos r (Suc i)) \<noteq> er_slot (er_dequeue_pos r)"
      using er_slot_inject [of "Suc i" 0 "er_dequeue_pos r"] True by (simp add: er_pos_def)
    then have "er_sequence q ! er_slot (er_pos q i) = er_sequence r ! er_slot (er_pos r (Suc i))"
      unfolding pos by (simp add: q)
    then show ?thesis using seq [OF True] sz0 by (auto simp: pos sz)
  next
    case False
    then have i: "i = 127" using that by simp
    have "er_pos q i = er_dequeue_pos r + 128" unfolding i pos by (simp add: er_pos_def)
    then show ?thesis using len i sz by (simp add: q er_slot_wrap)
  qed
  then show "er_inv q"
    using len sz by (simp add: er_inv_def q)
  have "map (\<lambda>i. er_entries q ! er_slot (er_pos q i)) [0..<er_size q] =
        map (\<lambda>i. er_entries r ! er_slot (er_pos r (Suc i))) [0..<er_size r - 1]"
    by (simp add: sz pos) (simp add: q)
  moreover have "[0..<er_size r] = 0 # map Suc [0..<er_size r - 1]"
    using sz0 by (simp add: map_Suc_upt upt_conv_Cons)
  ultimately show "er_items r = e # er_items q"
    unfolding er_items_def by (simp add: e er_pos_def)
qed

interpretation ering: bounded_fifo er_try_push error_ring_take er_items kErrorRingCount er_inv
proof unfold_locales
  fix r x r'
  assume inv: "er_inv r"
  have sz: "er_size r \<le> 128" "length (er_items r) = er_size r"
    using inv by (auto simp: er_inv_def er_items_def)
  show "(er_try_push r x = None) = (kErrorRingCount \<le> length (er_items r))"
    using er_inv_look [OF inv] sz by (simp add: er_try_push_def)
  show "er_try_push r x = Some r' \<Longrightarrow> er_inv r' \<and> er_items r' = er_items r @ [x]"
    using er_inv_look [OF inv] er_commit_spec [OF inv, of x] by (auto simp: er_try_push_def split: if_splits)
  show "(error_ring_take r = None) = (er_items r = [])"
    using er_inv_take [OF inv] sz by auto
  show "error_ring_take r = Some (x, r') \<Longrightarrow> er_inv r' \<and> er_items r = x # er_items r'"
    using er_take_spec [OF inv] by blast
qed

section \<open>What a report looks like to the caller\<close>

definition er_text :: "char list \<Rightarrow> string" where
  "er_text buf = takeWhile (\<lambda>c. c \<noteq> CHR 0x00) buf"

definition er_report :: "error_entry \<Rightarrow> i32 \<times> u16 \<times> string" where
  "er_report e = (ee_code e, ee_source e, er_text (ee_message e))"

definition er_reports :: "error_ring \<Rightarrow> (i32 \<times> u16 \<times> string) list" where
  "er_reports r = map er_report (er_items r)"

definition er_wide :: "error_ring \<Rightarrow> bool" where
  "er_wide r \<longleftrightarrow> (\<forall>e \<in> set (er_entries r). length (ee_message e) = 256)"

lemma er_init: "er_inv error_ring_init" "er_wide error_ring_init" "er_reports error_ring_init = []"
proof -
  have "er_size error_ring_init = 0" by (simp add: er_size_def error_ring_init_def)
  moreover have "er_slot (of_nat i) = i" if "i < 128" for i
    using er_slot_pos [of 0 i] that by simp
  ultimately show "er_inv error_ring_init"
    by (simp add: er_inv_def error_ring_init_def er_pos_def)
  show "er_wide error_ring_init" by (simp add: er_wide_def error_ring_init_def)
  show "er_reports error_ring_init = []"
    by (simp add: er_reports_def er_items_def er_size_def error_ring_init_def)
qed

lemma takeWhile_terminated:
  assumes "n < length buf" "length xs = n"
  shows "takeWhile (\<lambda>c. c \<noteq> z) ((overwrite buf xs)[n := z]) = takeWhile (\<lambda>c. c \<noteq> z) xs"
proof -
  have "(overwrite buf xs)[n := z] = xs @ z # drop (Suc n) buf"
    using assms by (simp add: overwrite_def list_update_append Cons_nth_drop_Suc [symmetric])
  moreover have "takeWhile (\<lambda>c. c \<noteq> z) (xs @ z # ys) = takeWhile (\<lambda>c. c \<noteq> z) xs" for ys
    by (induction xs) auto
  ultimately show ?thesis by simp
qed

lemma er_fill_report:
  assumes "length (ee_message old) = 256"
  shows "er_report (er_fill old c s m) = (c, s, er_text (take 255 m))"
    and "length (ee_message (er_fill old c s m)) = 256"
proof -
  have "er_text ((overwrite (ee_message old) (take n m))[n := CHR 0x00]) = er_text (take n m)"
    if "n = (if length m < 255 then length m else 255)" for n
    unfolding er_text_def using takeWhile_terminated [of n "ee_message old" "take n m"] assms that
    by (simp split: if_splits)
  then show "er_report (er_fill old c s m) = (c, s, er_text (take 255 m))"
    using assms by (auto simp: er_report_def er_fill_def Let_def split: if_splits)
  show "length (ee_message (er_fill old c s m)) = 256"
    using assms by (simp add: er_fill_def Let_def)
qed

lemma error_ring_push_try:
  assumes "er_inv r"
  shows "error_ring_push r c s m =
    (case er_try_push r (er_fill (er_entries r ! er_slot (er_enqueue_pos r)) c s m) of
       Some r' \<Rightarrow> r' | None \<Rightarrow> r\<lparr>er_dropped := er_dropped r + 1\<rparr>)"
  using er_inv_look [OF assms] by (auto simp: error_ring_push_def numeral_2_eq_2 er_try_push_def)

lemma er_wide_slot: "er_inv r \<Longrightarrow> er_wide r \<Longrightarrow> length (ee_message (er_entries r ! er_slot p)) = 256"
  by (simp add: er_wide_def er_inv_def)

section \<open>Properties\<close>

text \<open>
  C31 (error_ring_push_fifo). A push on a ring that satisfies the slot protocol appends exactly one
  report, with the message cut to 255 bytes, or counts one drop when 128 reports are queued; the
  invariant is kept, at any value of the wrapping 32-bit positions.
\<close>

theorem error_ring_push_fifo:
  assumes "er_inv r" "er_wide r"
  shows "er_inv (error_ring_push r c s m) \<and> er_wide (error_ring_push r c s m) \<and>
    (if length (er_reports r) < kErrorRingCount
     then er_reports (error_ring_push r c s m) = er_reports r @ [(c, s, er_text (take 255 m))] \<and>
          er_dropped (error_ring_push r c s m) = er_dropped r
     else er_reports (error_ring_push r c s m) = er_reports r \<and>
          er_dropped (error_ring_push r c s m) = er_dropped r + 1)"
proof -
  let ?e = "er_fill (er_entries r ! er_slot (er_enqueue_pos r)) c s m"
  note e = er_fill_report [OF er_wide_slot [OF assms], of _ c s m]
  show ?thesis
  proof (cases "er_try_push r ?e")
    case None
    then have "error_ring_push r c s m = r\<lparr>er_dropped := er_dropped r + 1\<rparr>"
      by (simp add: error_ring_push_try [OF assms(1)])
    moreover have "\<not> length (er_reports r) < kErrorRingCount"
      using None ering.push_None [OF assms(1)] by (simp add: er_reports_def)
    ultimately show ?thesis
      using assms by (simp add: er_inv_def er_wide_def er_reports_def er_items_def er_size_def er_pos_def)
  next
    case (Some r')
    then have r': "error_ring_push r c s m = r'" "r' = er_commit r (er_enqueue_pos r) ?e"
      by (auto simp: error_ring_push_try [OF assms(1)] er_try_push_def split: if_splits)
    have "er_wide r'"
      using assms(2) e(2) set_update_subset_insert
      unfolding r'(2) er_wide_def er_commit_def by fastforce
    moreover have "er_inv r'" "er_items r' = er_items r @ [?e]"
      using ering.push_Some [OF assms(1) Some] by auto
    moreover have "length (er_reports r) < kErrorRingCount"
      using Some ering.push_None [OF assms(1), of ?e] by (simp add: er_reports_def)
    moreover have "er_dropped r' = er_dropped r" by (simp add: r'(2) er_commit_def)
    ultimately show ?thesis
      using r'(1) e(1) by (simp add: er_reports_def)
  qed
qed

theorem error_ring_push_fifo_witness:
  "er_reports (error_ring_push error_ring_init (-4) 1 ''busy'') = [(-4, 1, ''busy'')]"
  using error_ring_push_fifo [OF er_init(1,2), of "-4" 1 "''busy''"]
  by (simp add: er_init(3) er_text_def)

text \<open>
  \<open>take\<close> returns nothing exactly when no report is queued; otherwise it
  returns the oldest report and leaves the others in order.
\<close>

theorem error_ring_take_fifo:
  assumes "er_inv r"
  shows "case error_ring_take r of
      None \<Rightarrow> er_reports r = []
    | Some (e, r') \<Rightarrow> er_inv r' \<and> er_reports r = er_report e # er_reports r' \<and> er_dropped r' = er_dropped r"
  using ering.pop_None [OF assms] ering.pop_Some [OF assms]
  by (auto simp: er_reports_def error_ring_take_def Let_def split: option.splits if_splits)

theorem error_ring_take_fifo_witness: "error_ring_take error_ring_init = None"
  using error_ring_take_fifo [OF er_init(1)] er_init(3) by (simp split: option.splits prod.splits)

end
