(* ===== verification/Rx_Block_Lane.thy ===== *)
theory Rx_Block_Lane
  imports Bounded_Fifo
begin

text \<open>
  The reference-counted receive lane of \<open>foundation/rx_block_lane.hpp\<close>: one block holds a received
  segment, and the display ring and the raw (file) ring each hold their own reference to it. The
  event pool and the rings belong to the coact library; \<open>rx_env\<close> carries their operations, the pool
  as its list of reference counts (a count of 0 is a free block), and \<open>rx_env_ok\<close> states what they
  are documented to do.
\<close>

section \<open>Representation\<close>

definition kRxBlockCount :: nat where [simp]: "kRxBlockCount = 128"
definition kRxBlockBytes :: nat where [simp]: "kRxBlockBytes = 4096"
definition kRxRawReserveBlocks :: nat where [simp]: "kRxRawReserveBlocks = 96"
definition kFileBackedLenMask :: u16 where "kFileBackedLenMask = 0x7FFF"
definition kDisplayUnloggedBit :: u16 where "kDisplayUnloggedBit = 0x8000"

record rx_ref =
  rr_event :: nat
  rr_len :: u16
  rr_gen :: u16
  rr_ingress_ms :: u32

record rx_lane =
  rl_refs :: "nat list"            \<comment> \<open>reference count of each pool block\<close>
  rl_payload :: "u8 list list"
  rl_display_ready :: "rx_ref list"
  rl_raw_ready :: "rx_ref list"
  rl_waiters :: nat

record rx_env =
  xe_alloc_with_margin :: "nat list \<Rightarrow> nat \<Rightarrow> (nat \<times> nat list) option"
  xe_alloc :: "nat list \<Rightarrow> (nat \<times> nat list) option"
  xe_ref_inc :: "nat list \<Rightarrow> nat \<Rightarrow> nat list"
  xe_gc :: "nat list \<Rightarrow> nat \<Rightarrow> nat list"
  xe_push :: "rx_ref list \<Rightarrow> rx_ref \<Rightarrow> rx_ref list option"
  xe_pop :: "rx_ref list \<Rightarrow> (rx_ref \<times> rx_ref list) option"

definition rx_lane_init :: rx_lane where
  "rx_lane_init = \<lparr>rl_refs = replicate kRxBlockCount 0,
     rl_payload = replicate kRxBlockCount (replicate kRxBlockBytes 0),
     rl_display_ready = [], rl_raw_ready = [], rl_waiters = 0\<rparr>"

section \<open>Operations\<close>

definition rx_try_alloc :: "rx_env \<Rightarrow> bool \<Rightarrow> rx_lane \<Rightarrow> (nat \<times> bool \<times> rx_lane) option" where
  "rx_try_alloc E file_lane l =
     (let margin = (if file_lane then kRxRawReserveBlocks else 0)
      in case xe_alloc_with_margin E (rl_refs l) margin of
           Some (both, refs) \<Rightarrow> Some (both, True, l\<lparr>rl_refs := refs\<rparr>)
         | None \<Rightarrow>
             if \<not> file_lane then None
             else (case xe_alloc E (rl_refs l) of
                     Some (b, refs) \<Rightarrow> Some (b, False, l\<lparr>rl_refs := refs\<rparr>)
                   | None \<Rightarrow> None))"

definition rx_release :: "rx_env \<Rightarrow> nat \<Rightarrow> rx_lane \<Rightarrow> rx_lane" where
  "rx_release E event l = l\<lparr>rl_refs := xe_gc E (rl_refs l) event\<rparr>"

definition rx_copy_in :: "nat \<Rightarrow> u8 list \<Rightarrow> rx_lane \<Rightarrow> rx_lane" where
  "rx_copy_in event data l =
     l\<lparr>rl_payload := (rl_payload l)[event := overwrite (rl_payload l ! event) data]\<rparr>"

text \<open>
  \<open>None\<close> is a failed \<open>COACT_ASSERT(pushed)\<close>. The other result says whether the display lane took its
  reference.
\<close>

definition rx_publish :: "rx_env \<Rightarrow> rx_ref \<Rightarrow> bool \<Rightarrow> bool \<Rightarrow> rx_lane \<Rightarrow> (bool \<times> rx_lane) option" where
  "rx_publish E ref file_lane display_ok l =
     (let l1 = (if file_lane \<and> display_ok
                then l\<lparr>rl_refs := xe_ref_inc E (rl_refs l) (rr_event ref)\<rparr> else l)
      in do {
        l2 \<leftarrow> (if file_lane
               then map_option (\<lambda>raw. l1\<lparr>rl_raw_ready := raw\<rparr>) (xe_push E (rl_raw_ready l1) ref)
               else Some l1);
        if display_ok then do {
          let display_len = (rr_len ref AND kFileBackedLenMask) OR
                (if file_lane then 0 else kDisplayUnloggedBit);
          disp \<leftarrow> xe_push E (rl_display_ready l2) (ref\<lparr>rr_len := display_len\<rparr>);
          Some (True, l2\<lparr>rl_display_ready := disp\<rparr>)
        } else Some (False, l2)
      })"

definition rx_pop_display :: "rx_env \<Rightarrow> rx_lane \<Rightarrow> (rx_ref \<times> rx_lane) option" where
  "rx_pop_display E l =
     map_option (\<lambda>(ref, rest). (ref, l\<lparr>rl_display_ready := rest\<rparr>)) (xe_pop E (rl_display_ready l))"

definition rx_display_ready_empty :: "rx_lane \<Rightarrow> bool" where
  "rx_display_ready_empty l \<longleftrightarrow> length (rl_display_ready l) = 0"

definition rx_pop_raw :: "rx_env \<Rightarrow> rx_lane \<Rightarrow> (rx_ref \<times> rx_lane) option" where
  "rx_pop_raw E l =
     map_option (\<lambda>(ref, rest). (ref, l\<lparr>rl_raw_ready := rest\<rparr>)) (xe_pop E (rl_raw_ready l))"

definition rx_raw_ready_empty :: "rx_lane \<Rightarrow> bool" where
  "rx_raw_ready_empty l \<longleftrightarrow> length (rl_raw_ready l) = 0"

definition rx_used :: "rx_lane \<Rightarrow> nat" where
  "rx_used l = length (filter (\<lambda>c. 0 < c) (rl_refs l))"

definition rx_free_blocks :: "rx_lane \<Rightarrow> nat" where
  "rx_free_blocks l = length (rl_refs l) - rx_used l"

text \<open>
  \<open>wait_for_free\<close>: a waiter registers, sleeps on the condition variable, and returns the predicate
  evaluated on the lane \<open>l'\<close> it wakes in (on a notification or on the timeout).
\<close>

definition rx_wait_for_free :: "rx_lane \<Rightarrow> bool" where
  "rx_wait_for_free l' \<longleftrightarrow> rx_used l' < kRxBlockCount"

text \<open>Teardown: drop every queued reference of one ring and return the byte count.\<close>

definition rx_drain_display :: "rx_env \<Rightarrow> rx_lane \<Rightarrow> u32 \<times> rx_lane" where
  "rx_drain_display E l =
     (let (rest, bytes, refs) = pop_loop (Suc kRxBlockCount) (xe_pop E)
            (\<lambda>ref (bytes, refs). (bytes + ucast (rr_len ref AND kFileBackedLenMask), xe_gc E refs (rr_event ref)))
            (rl_display_ready l) (0, rl_refs l)
      in (bytes, l\<lparr>rl_display_ready := rest, rl_refs := refs\<rparr>))"

definition rx_drain_raw :: "rx_env \<Rightarrow> rx_lane \<Rightarrow> u32 \<times> rx_lane" where
  "rx_drain_raw E l =
     (let (rest, bytes, refs) = pop_loop (Suc kRxBlockCount) (xe_pop E)
            (\<lambda>ref (bytes, refs). (bytes + ucast (rr_len ref), xe_gc E refs (rr_event ref)))
            (rl_raw_ready l) (0, rl_refs l)
      in (bytes, l\<lparr>rl_raw_ready := rest, rl_refs := refs\<rparr>))"

section \<open>What the library calls do\<close>

definition free_count :: "nat list \<Rightarrow> nat" where
  "free_count refs = length (filter (\<lambda>c. c = 0) refs)"

text \<open>
  An allocation takes a free block and gives it one reference; the reserving variant refuses unless
  more than \<open>margin\<close> blocks are free; \<open>event_ref_inc\<close> and \<open>event_gc\<close> add and drop one reference.
\<close>

definition event_alloc_law :: "(nat list \<Rightarrow> (nat \<times> nat list) option) \<Rightarrow> nat \<Rightarrow> bool" where
  "event_alloc_law alloc margin \<longleftrightarrow>
     (\<forall>refs. case alloc refs of
        None \<Rightarrow> free_count refs \<le> margin
      | Some (b, refs') \<Rightarrow> margin < free_count refs \<and> b < length refs \<and> refs ! b = 0 \<and> refs' = refs[b := 1])"

definition rx_env_ok :: "rx_env \<Rightarrow> bool" where
  "rx_env_ok E \<longleftrightarrow>
     (\<forall>margin. event_alloc_law (\<lambda>refs. xe_alloc_with_margin E refs margin) margin) \<and>
     event_alloc_law (xe_alloc E) 0 \<and>
     (\<forall>refs b. xe_ref_inc E refs b = refs[b := refs ! b + 1]) \<and>
     (\<forall>refs b. xe_gc E refs b = refs[b := refs ! b - 1]) \<and>
     spsc_ring_ok kRxBlockCount (xe_push E) (xe_pop E)"

fun first_free :: "nat list \<Rightarrow> nat option" where
  "first_free [] = None"
| "first_free (c # cs) = (if c = 0 then Some 0 else map_option Suc (first_free cs))"

definition list_alloc :: "nat \<Rightarrow> nat list \<Rightarrow> (nat \<times> nat list) option" where
  "list_alloc margin refs =
     (if margin < free_count refs
      then map_option (\<lambda>b. (b, refs[b := 1])) (first_free refs) else None)"

definition rx_env_list :: rx_env where
  "rx_env_list = \<lparr>xe_alloc_with_margin = (\<lambda>refs m. list_alloc m refs), xe_alloc = list_alloc 0,
     xe_ref_inc = (\<lambda>refs b. refs[b := refs ! b + 1]), xe_gc = (\<lambda>refs b. refs[b := refs ! b - 1]),
     xe_push = list_push kRxBlockCount, xe_pop = list_pop\<rparr>"

lemma first_free_Some: "first_free cs = Some b \<Longrightarrow> b < length cs \<and> cs ! b = 0"
  by (induction cs arbitrary: b) (auto split: if_splits)

lemma first_free_None: "first_free cs = None \<longleftrightarrow> free_count cs = 0"
  by (induction cs) (auto simp: free_count_def)

lemma list_alloc_law: "event_alloc_law (list_alloc m) m"
  unfolding event_alloc_law_def list_alloc_def
  by (auto simp: first_free_None dest: first_free_Some split: option.splits)

lemma rx_env_list_ok: "rx_env_ok rx_env_list"
  using list_alloc_law spsc_list_ring by (simp add: rx_env_ok_def rx_env_list_def)

section \<open>Reference conservation\<close>

text \<open>
  Every reference count is the number of references that exist: one per queued descriptor of either
  ring, plus those the consumers and the reader hold outside the rings (\<open>held\<close>). A ring holds at
  most one reference to a block.
\<close>

definition ring_ok :: "rx_ref list \<Rightarrow> bool" where
  "ring_ok r \<longleftrightarrow> distinct (map rr_event r) \<and> (\<forall>d \<in> set r. rr_event d < kRxBlockCount)"

definition ring_refs :: "rx_ref list \<Rightarrow> nat \<Rightarrow> nat" where
  "ring_refs r b = count_list (map rr_event r) b"

definition rl_inv :: "(nat \<Rightarrow> nat) \<Rightarrow> rx_lane \<Rightarrow> bool" where
  "rl_inv held l \<longleftrightarrow> length (rl_refs l) = kRxBlockCount \<and> length (rl_payload l) = kRxBlockCount \<and>
     ring_ok (rl_raw_ready l) \<and> ring_ok (rl_display_ready l) \<and>
     (\<forall>b < kRxBlockCount. rl_refs l ! b =
        held b + ring_refs (rl_raw_ready l) b + ring_refs (rl_display_ready l) b)"

lemma ring_refs_simps [simp]:
  "ring_refs [] b = 0"
  "ring_refs (d # r) b = (if rr_event d = b then 1 else 0) + ring_refs r b"
  "ring_refs (r @ [d]) b = ring_refs r b + (if rr_event d = b then 1 else 0)"
  by (auto simp: ring_refs_def)

lemma ring_refs_zero: "ring_refs r b = 0 \<longleftrightarrow> b \<notin> rr_event ` set r"
  by (induction r) auto

lemma ring_ok_simps [simp]:
  "ring_ok []"
  "ring_ok (d # r) \<longleftrightarrow> ring_ok r \<and> rr_event d < kRxBlockCount \<and> ring_refs r (rr_event d) = 0"
  "ring_ok (r @ [d]) \<longleftrightarrow> ring_ok r \<and> rr_event d < kRxBlockCount \<and> ring_refs r (rr_event d) = 0"
  by (auto simp: ring_ok_def ring_refs_zero)

lemma ring_room:
  assumes "ring_ok r" "ring_refs r b = 0" "b < kRxBlockCount"
  shows "length r < kRxBlockCount"
proof -
  have "rr_event ` set r \<subseteq> {..<kRxBlockCount} - {b}"
    using assms by (auto simp: ring_ok_def ring_refs_zero)
  then have "card (rr_event ` set r) \<le> card ({..<kRxBlockCount} - {b})"
    by (rule card_mono [rotated]) simp
  then have "card (rr_event ` set r) < kRxBlockCount" using assms(3) by simp
  moreover have "card (rr_event ` set r) = length r"
    using assms(1) by (metis distinct_card length_map ring_ok_def set_map)
  ultimately show ?thesis by simp
qed

lemma ring_length: "ring_ok r \<Longrightarrow> length r \<le> kRxBlockCount"
proof -
  assume a: "ring_ok r"
  then have "rr_event ` set r \<subseteq> {..<kRxBlockCount}" by (auto simp: ring_ok_def)
  then have "card (rr_event ` set r) \<le> kRxBlockCount"
    by (metis card_lessThan card_mono finite_lessThan)
  then show ?thesis using a by (metis distinct_card length_map ring_ok_def set_map)
qed

lemma rx_env_okE:
  assumes "rx_env_ok E"
  shows "event_alloc_law (\<lambda>refs. xe_alloc_with_margin E refs m) m" "event_alloc_law (xe_alloc E) 0"
    "xe_ref_inc E refs b = refs[b := refs ! b + 1]" "xe_gc E refs b = refs[b := refs ! b - 1]"
    "spsc_ring_ok kRxBlockCount (xe_push E) (xe_pop E)"
  using assms by (simp_all add: rx_env_ok_def)

lemma event_alloc_Some:
  "event_alloc_law alloc m \<Longrightarrow> alloc refs = Some (b, refs') \<Longrightarrow>
   m < free_count refs \<and> b < length refs \<and> refs ! b = 0 \<and> refs' = refs[b := 1]"
  by (auto simp: event_alloc_law_def split: option.splits prod.splits dest: spec [of _ refs])

lemma free_count_update:
  "b < length refs \<Longrightarrow> refs ! b = 0 \<Longrightarrow> free_count (refs[b := Suc n]) = free_count refs - 1"
proof (induction refs arbitrary: b)
  case (Cons c cs)
  then show ?case
  proof (cases b)
    case (Suc k)
    then have "0 \<in> set cs"
      using Cons.prems by (metis length_Cons nth_Cons_Suc nth_mem Suc_less_eq)
    then have "0 < free_count cs"
      by (auto simp: free_count_def filter_empty_conv)
    then show ?thesis using Cons Suc by (auto simp: free_count_def)
  qed (auto simp: free_count_def)
qed simp

lemma rx_try_alloc_spec:
  assumes "rx_env_ok E" "rl_inv held l" "rx_try_alloc E file_lane l = Some (b, display_ok, l')"
  shows "b < kRxBlockCount" "held b = 0" "ring_refs (rl_raw_ready l) b = 0"
    "ring_refs (rl_display_ready l) b = 0" "rl_inv (held(b := 1)) l'"
    "l' = l\<lparr>rl_refs := (rl_refs l)[b := 1]\<rparr>"
    "file_lane \<and> display_ok \<Longrightarrow> kRxRawReserveBlocks \<le> free_count (rl_refs l')"
    "file_lane \<or> display_ok"
proof -
  note laws = rx_env_okE [OF assms(1)]
  have claim: "b < length (rl_refs l) \<and> rl_refs l ! b = 0 \<and> l' = l\<lparr>rl_refs := (rl_refs l)[b := 1]\<rparr> \<and>
      (file_lane \<and> display_ok \<longrightarrow> kRxRawReserveBlocks < free_count (rl_refs l)) \<and> (file_lane \<or> display_ok)"
    using assms(3) event_alloc_Some [OF laws(1)] event_alloc_Some [OF laws(2)]
    by (auto simp: rx_try_alloc_def Let_def split: option.splits if_splits)
  then show "b < kRxBlockCount" "l' = l\<lparr>rl_refs := (rl_refs l)[b := 1]\<rparr>" "file_lane \<or> display_ok"
    using assms(2) by (auto simp: rl_inv_def)
  then show "held b = 0" "ring_refs (rl_raw_ready l) b = 0" "ring_refs (rl_display_ready l) b = 0"
    using assms(2) claim by (auto simp: rl_inv_def)
  then show "rl_inv (held(b := 1)) l'"
    using assms(2) claim by (auto simp: rl_inv_def nth_list_update)
  show "file_lane \<and> display_ok \<Longrightarrow> kRxRawReserveBlocks \<le> free_count (rl_refs l')"
    using claim free_count_update [of b "rl_refs l" 0] by auto
qed

lemma rx_publish_spec:
  assumes E: "rx_env_ok E" and inv: "rl_inv held l" and b: "b = rr_event ref" "b < kRxBlockCount"
    "0 < held b" "ring_refs (rl_raw_ready l) b = 0" "ring_refs (rl_display_ready l) b = 0"
    and lane: "file_lane \<or> display_ok"
  shows "\<exists>l'. rx_publish E ref file_lane display_ok l = Some (display_ok, l') \<and>
     rl_inv (held(b := held b - 1)) l' \<and> rl_payload l' = rl_payload l \<and>
     rl_raw_ready l' = rl_raw_ready l @ (if file_lane then [ref] else []) \<and>
     rl_display_ready l' = rl_display_ready l @ (if display_ok then
        [ref\<lparr>rr_len := (rr_len ref AND kFileBackedLenMask) OR (if file_lane then 0 else kDisplayUnloggedBit)\<rparr>]
        else [])"
proof -
  note laws = rx_env_okE [OF E]
  have room: "length (rl_raw_ready l) < kRxBlockCount" "length (rl_display_ready l) < kRxBlockCount"
    using inv b ring_room by (auto simp: rl_inv_def)
  note push = spsc_push [OF laws(5)]
  show ?thesis
    using inv b lane room
    by (cases file_lane; cases display_ok)
      (auto simp: rx_publish_def push laws(3) rl_inv_def nth_list_update)
qed

lemma rx_pop_display_spec:
  assumes "rx_env_ok E" "rl_inv held l" "rx_pop_display E l = Some (ref, l')"
  shows "rl_inv (held(rr_event ref := held (rr_event ref) + 1)) l'" "rl_display_ready l = ref # rl_display_ready l'"
    "rr_event ref < kRxBlockCount"
    "rl_payload l' = rl_payload l" "rl_raw_ready l' = rl_raw_ready l" "rl_refs l' = rl_refs l"
  using assms spsc_pop [OF rx_env_okE(5) [OF assms(1)], of "rl_display_ready l"]
  by (auto simp: rx_pop_display_def rl_inv_def split: list.splits)

lemma rx_pop_raw_spec:
  assumes "rx_env_ok E" "rl_inv held l" "rx_pop_raw E l = Some (ref, l')"
  shows "rl_inv (held(rr_event ref := held (rr_event ref) + 1)) l'" "rl_raw_ready l = ref # rl_raw_ready l'"
    "rr_event ref < kRxBlockCount"
    "rl_payload l' = rl_payload l" "rl_display_ready l' = rl_display_ready l" "rl_refs l' = rl_refs l"
  using assms spsc_pop [OF rx_env_okE(5) [OF assms(1)], of "rl_raw_ready l"]
  by (auto simp: rx_pop_raw_def rl_inv_def split: list.splits)

lemma rx_release_spec:
  assumes "rx_env_ok E" "rl_inv held l" "0 < held b" "b < kRxBlockCount"
  shows "rl_inv (held(b := held b - 1)) (rx_release E b l)"
  using assms rx_env_okE(4) [OF assms(1)] by (auto simp: rx_release_def rl_inv_def nth_list_update)

lemma fold_gc_refs:
  assumes "rx_env_ok E"
  shows "\<forall>d \<in> set r. rr_event d < length refs \<Longrightarrow>
    fold (\<lambda>ref (bytes, refs). (bytes + f ref, xe_gc E refs (rr_event ref))) r (s, refs) =
      (s + (\<Sum>d\<leftarrow>r. f d), map (\<lambda>b. refs ! b - ring_refs r b) [0..<length refs])"
proof (induction r arbitrary: s refs)
  case Nil
  then show ?case by (simp add: map_nth)
next
  case (Cons d r)
  then show ?case
    using rx_env_okE(4) [OF assms] by (auto simp: nth_list_update add.assoc)
qed

lemma rx_drain_display_spec:
  assumes E: "rx_env_ok E" and inv: "rl_inv held l" and d: "rx_drain_display E l = (bytes, l')"
  shows "rl_inv held l'" "rl_display_ready l' = []" "rl_raw_ready l' = rl_raw_ready l"
    "bytes = (\<Sum>ref\<leftarrow>rl_display_ready l. ucast (rr_len ref AND kFileBackedLenMask))"
proof -
  have len: "length (rl_display_ready l) < Suc kRxBlockCount"
    using ring_length [of "rl_display_ready l"] inv by (simp add: rl_inv_def)
  have ev: "\<forall>d \<in> set (rl_display_ready l). rr_event d < length (rl_refs l)"
    using inv by (auto simp: rl_inv_def ring_ok_def)
  have l': "l' = l\<lparr>rl_display_ready := [],
      rl_refs := map (\<lambda>b. rl_refs l ! b - ring_refs (rl_display_ready l) b) [0..<length (rl_refs l)]\<rparr>"
    and b: "bytes = (\<Sum>ref\<leftarrow>rl_display_ready l. ucast (rr_len ref AND kFileBackedLenMask))"
    using d by (auto simp: rx_drain_display_def pop_loop_spsc [OF rx_env_okE(5) [OF E] len]
      fold_gc_refs [OF E ev] simp del: kRxBlockCount_def pop_loop.simps)
  show "rl_inv held l'" using inv by (auto simp: rl_inv_def l')
  show "rl_display_ready l' = []" "rl_raw_ready l' = rl_raw_ready l" by (simp_all add: l')
  show "bytes = (\<Sum>ref\<leftarrow>rl_display_ready l. ucast (rr_len ref AND kFileBackedLenMask))" by (rule b)
qed

lemma rx_drain_raw_spec:
  assumes E: "rx_env_ok E" and inv: "rl_inv held l" and d: "rx_drain_raw E l = (bytes, l')"
  shows "rl_inv held l'" "rl_raw_ready l' = []" "rl_display_ready l' = rl_display_ready l"
    "bytes = (\<Sum>ref\<leftarrow>rl_raw_ready l. ucast (rr_len ref))"
proof -
  have len: "length (rl_raw_ready l) < Suc kRxBlockCount"
    using ring_length [of "rl_raw_ready l"] inv by (simp add: rl_inv_def)
  have ev: "\<forall>d \<in> set (rl_raw_ready l). rr_event d < length (rl_refs l)"
    using inv by (auto simp: rl_inv_def ring_ok_def)
  have l': "l' = l\<lparr>rl_raw_ready := [],
      rl_refs := map (\<lambda>b. rl_refs l ! b - ring_refs (rl_raw_ready l) b) [0..<length (rl_refs l)]\<rparr>"
    and b: "bytes = (\<Sum>ref\<leftarrow>rl_raw_ready l. ucast (rr_len ref))"
    using d by (auto simp: rx_drain_raw_def pop_loop_spsc [OF rx_env_okE(5) [OF E] len]
      fold_gc_refs [OF E ev] simp del: kRxBlockCount_def pop_loop.simps)
  show "rl_inv held l'" using inv by (auto simp: rl_inv_def l')
  show "rl_raw_ready l' = []" "rl_display_ready l' = rl_display_ready l" by (simp_all add: l')
  show "bytes = (\<Sum>ref\<leftarrow>rl_raw_ready l. ucast (rr_len ref))" by (rule b)
qed

section \<open>Properties\<close>

lemma rl_inv_init: "rl_inv (\<lambda>_. 0) rx_lane_init"
  by (simp add: rl_inv_def rx_lane_init_def)

definition rx_lane_one :: rx_lane where
  "rx_lane_one = rx_lane_init\<lparr>rl_refs := (replicate 128 0)[0 := 1]\<rparr>"

lemma rl_inv_one: "rl_inv ((\<lambda>_. 0)(0 := 1)) rx_lane_one"
  by (auto simp: rl_inv_def rx_lane_init_def rx_lane_one_def nth_list_update)

lemma rx_claim_publish:
  assumes "rx_env_ok E" "rl_inv held l" "rx_try_alloc E file_lane l = Some (b, display_ok, l1)"
    "rr_event ref = b"
  shows "\<exists>l2. rx_publish E ref file_lane display_ok (rx_copy_in b data l1) = Some (display_ok, l2) \<and>
     rl_inv held l2 \<and> held b = 0 \<and>
     rl_raw_ready l2 = rl_raw_ready l @ (if file_lane then [ref] else []) \<and>
     rl_display_ready l2 = rl_display_ready l @ (if display_ok then
        [ref\<lparr>rr_len := (rr_len ref AND kFileBackedLenMask) OR (if file_lane then 0 else kDisplayUnloggedBit)\<rparr>]
        else []) \<and>
     (file_lane \<and> display_ok \<longrightarrow> kRxRawReserveBlocks \<le> free_count (rl_refs l1))"
proof -
  note a = rx_try_alloc_spec [OF assms(1,2,3)]
  let ?l = "rx_copy_in b data l1"
  have inv: "rl_inv (held(b := 1)) ?l" and ring: "rl_raw_ready ?l = rl_raw_ready l"
    "rl_display_ready ?l = rl_display_ready l" "rl_refs ?l = rl_refs l1"
    using a(5,6) by (auto simp: rx_copy_in_def rl_inv_def)
  obtain l2 where "rx_publish E ref file_lane display_ok ?l = Some (display_ok, l2)"
    and "rl_inv ((held(b := 1))(b := 0)) l2"
    and "rl_raw_ready l2 = rl_raw_ready ?l @ (if file_lane then [ref] else [])"
    and "rl_display_ready l2 = rl_display_ready ?l @ (if display_ok then
        [ref\<lparr>rr_len := (rr_len ref AND kFileBackedLenMask) OR (if file_lane then 0 else kDisplayUnloggedBit)\<rparr>]
        else [])"
    using rx_publish_spec [OF assms(1) inv, of b ref file_lane display_ok] a(1-4,8) assms(4) ring by auto
  moreover have "(held(b := 1))(b := 0) = held" using a(2) by auto
  ultimately show ?thesis using a(2,7) ring by auto
qed

text \<open>
  Claiming a block for a segment and publishing it never trips the ring
  assertions: every lane that was offered the segment gets exactly one reference to the same block,
  the reader keeps none, all other references are untouched, and the display lane only takes a
  reference while at least the file reserve of 96 blocks stays free.
\<close>

theorem rx_lane_fan_out:
  assumes "rx_env_ok E" "rl_inv held l" "rx_try_alloc E file_lane l = Some (b, display_ok, l1)"
    "rr_event ref = b"
  shows "\<exists>l2. rx_publish E ref file_lane display_ok (rx_copy_in b data l1) = Some (display_ok, l2) \<and>
     rl_inv held l2 \<and> held b = 0 \<and>
     rl_raw_ready l2 = rl_raw_ready l @ (if file_lane then [ref] else []) \<and>
     rl_display_ready l2 = rl_display_ready l @ (if display_ok then
        [ref\<lparr>rr_len := (rr_len ref AND kFileBackedLenMask) OR (if file_lane then 0 else kDisplayUnloggedBit)\<rparr>]
        else []) \<and>
     (file_lane \<and> display_ok \<longrightarrow> kRxRawReserveBlocks \<le> free_count (rl_refs l1))"
  by (rule rx_claim_publish [OF assms])

theorem rx_lane_fan_out_witness:
  "\<exists>b d l1. rx_try_alloc rx_env_list True rx_lane_init = Some (b, d, l1) \<and>
     (\<exists>l2. rx_publish rx_env_list \<lparr>rr_event = b, rr_len = 3, rr_gen = 0, rr_ingress_ms = 0\<rparr> True d
        (rx_copy_in b [1, 2, 3] l1) = Some (d, l2) \<and> length (rl_raw_ready l2) = 1)"
proof -
  have fc: "free_count (replicate 128 0) = 128" by (simp add: free_count_def)
  have f0: "first_free (replicate 128 0) = Some 0" by (simp add: numeral_eq_Suc)
  have a: "rx_try_alloc rx_env_list True rx_lane_init =
     Some (0, True, rx_lane_init\<lparr>rl_refs := (replicate 128 0)[0 := 1]\<rparr>)"
    using fc f0 by (simp add: rx_try_alloc_def rx_env_list_def rx_lane_init_def list_alloc_def)
  show ?thesis
    using a rx_lane_fan_out [OF rx_env_list_ok rl_inv_init a,
        of "\<lparr>rr_event = 0, rr_len = 3, rr_gen = 0, rr_ingress_ms = 0\<rparr>" "[1, 2, 3]"]
    by (fastforce simp: rx_lane_init_def)
qed

text \<open>
  After both consumers have stopped and nobody holds a reference outside the
  rings, the two teardown drains give every block back to the pool and return the byte counts of
  what was queued.
\<close>

theorem rx_lane_teardown:
  assumes "rx_env_ok E" "rl_inv (\<lambda>_. 0) l"
    "rx_drain_display E l = (shown, l1)" "rx_drain_raw E l1 = (unwritten, l2)"
  shows "rl_refs l2 = replicate kRxBlockCount 0 \<and>
     shown = (\<Sum>ref\<leftarrow>rl_display_ready l. ucast (rr_len ref AND kFileBackedLenMask)) \<and>
     unwritten = (\<Sum>ref\<leftarrow>rl_raw_ready l. ucast (rr_len ref))"
proof -
  note d = rx_drain_display_spec [OF assms(1-3)]
  note r = rx_drain_raw_spec [OF assms(1) d(1) assms(4)]
  have "rl_refs l2 ! b = 0" if "b < kRxBlockCount" for b
    using r(1,2,3) d(2) that by (simp add: rl_inv_def)
  moreover have "length (rl_refs l2) = kRxBlockCount" using r(1) by (simp add: rl_inv_def)
  ultimately have "rl_refs l2 = replicate kRxBlockCount 0" by (simp add: list_eq_iff_nth_eq)
  then show ?thesis using d r by simp
qed

theorem rx_lane_teardown_witness:
  "rl_refs (snd (rx_drain_raw rx_env_list (snd (rx_drain_display rx_env_list rx_lane_init)))) = replicate 128 0"
  using rx_lane_teardown [OF rx_env_list_ok rl_inv_init] by (metis kRxBlockCount_def prod.collapse)

end
