(* ===== verification/Display_Lane.thy ===== *)
theory Display_Lane
  imports Fixed_Pool Bounded_Fifo
begin

text \<open>
  The two block pools of \<open>runtime/xcom_core.hpp\<close> that carry text and transmit payloads:
  \<open>TxBlockPool\<close> and \<open>DisplayLane\<close> (formatted batches handed from the dispatcher to the drain of
  the C ABI). The ready ring is the coact ring of \<open>Bounded_Fifo\<close>.
\<close>

section \<open>The transmit block pool\<close>

definition kTxBlockCount :: nat where [simp]: "kTxBlockCount = 32"
definition kTxBlockBytes :: nat where [simp]: "kTxBlockBytes = 4096"

type_synonym tx_pool = fixed_pool

definition tx_pool_init :: tx_pool where
  "tx_pool_init = fixed_pool_init kTxBlockBytes kTxBlockCount"

definition tx_try_alloc :: "tx_pool \<Rightarrow> (u16 \<times> tx_pool) option" where
  "tx_try_alloc p = map_option (\<lambda>(b, p'). (of_nat b, p')) (fixed_pool_allocate p)"

text \<open>\<open>release\<close> and \<open>block\<close> assert that the identifier is in range; \<open>None\<close> is the failed assertion.\<close>

definition tx_release :: "u16 \<Rightarrow> tx_pool \<Rightarrow> tx_pool option" where
  "tx_release b p = (if unat b < kTxBlockCount then Some (fixed_pool_release p (unat b)) else None)"

definition tx_block :: "tx_pool \<Rightarrow> u16 \<Rightarrow> nat \<Rightarrow> u8 list option" where
  "tx_block p b n = (if unat b < kTxBlockCount then Some (fixed_pool_read p (unat b) 0 n) else None)"

definition tx_inv :: "tx_pool \<Rightarrow> bool" where
  "tx_inv p \<longleftrightarrow> fp_inv p \<and> fp_count p = kTxBlockCount \<and> (\<forall>b < kTxBlockCount. fp_bytes p b = kTxBlockBytes)"

definition tx_used :: "tx_pool \<Rightarrow> u16 set" where
  "tx_used p = of_nat ` fpool.used p"

section \<open>The display lane\<close>

definition kDisplayBatchCount :: nat where [simp]: "kDisplayBatchCount = 32"
definition kDisplayBatchBytes :: nat where [simp]: "kDisplayBatchBytes = 16384"
definition kRxLenMask :: u16 where "kRxLenMask = 0x7FFF"
definition kRxUnloggedFlag :: u16 where "kRxUnloggedFlag = 0x8000"

record display_desc =
  dd_buf :: u16
  dd_rx_meta :: u16
  dd_len :: u32
  dd_ingress_ms :: u32
  dd_gen :: u32

record display_lane =
  dl_buffers :: fixed_pool
  dl_ready :: "display_desc list"
  dl_consumer_desc :: display_desc
  dl_consumer_offset :: u32
  dl_consumer_active :: bool

record display_ring =
  dr_push :: "display_desc list \<Rightarrow> display_desc \<Rightarrow> display_desc list option"
  dr_pop :: "display_desc list \<Rightarrow> (display_desc \<times> display_desc list) option"

definition display_ring_ok :: "display_ring \<Rightarrow> bool" where
  "display_ring_ok R \<longleftrightarrow> spsc_ring_ok kDisplayBatchCount (dr_push R) (dr_pop R)"

definition display_ring_list :: display_ring where
  "display_ring_list = \<lparr>dr_push = list_push kDisplayBatchCount, dr_pop = list_pop\<rparr>"

lemma display_ring_list_ok: "display_ring_ok display_ring_list"
  by (simp add: display_ring_ok_def display_ring_list_def spsc_list_ring del: kDisplayBatchCount_def)

definition display_lane_init :: display_lane where
  "display_lane_init = \<lparr>dl_buffers = fixed_pool_init kDisplayBatchBytes kDisplayBatchCount, dl_ready = [],
     dl_consumer_desc = \<lparr>dd_buf = 0, dd_rx_meta = 0, dd_len = 0, dd_ingress_ms = 0, dd_gen = 0\<rparr>,
     dl_consumer_offset = 0, dl_consumer_active = False\<rparr>"

definition dl_try_acquire :: "display_lane \<Rightarrow> (u16 \<times> display_lane) option" where
  "dl_try_acquire l =
     map_option (\<lambda>(b, p). (of_nat b, l\<lparr>dl_buffers := p\<rparr>)) (fixed_pool_allocate (dl_buffers l))"

definition dl_release_buf :: "u16 \<Rightarrow> display_lane \<Rightarrow> display_lane" where
  "dl_release_buf b l = l\<lparr>dl_buffers := fixed_pool_release (dl_buffers l) (unat b)\<rparr>"

text \<open>The formatter writes its text into the acquired buffer.\<close>

definition dl_fill :: "u16 \<Rightarrow> u8 list \<Rightarrow> display_lane \<Rightarrow> display_lane" where
  "dl_fill b text l = l\<lparr>dl_buffers := fixed_pool_write (dl_buffers l) (unat b) text\<rparr>"

definition dl_push_ready ::
  "display_ring \<Rightarrow> u16 \<Rightarrow> u32 \<Rightarrow> u32 \<Rightarrow> u32 \<Rightarrow> u32 \<Rightarrow> bool \<Rightarrow> display_lane \<Rightarrow> display_lane option" where
  "dl_push_ready R b len ingress_ms generation source_len unlogged l =
     (let packed = ucast ((source_len AND ucast kRxLenMask) OR
                          (if unlogged then ucast kRxUnloggedFlag else 0));
          d = \<lparr>dd_buf = b, dd_rx_meta = packed, dd_len = len, dd_ingress_ms = ingress_ms,
               dd_gen = generation\<rparr>
      in map_option (\<lambda>ready. l\<lparr>dl_ready := ready\<rparr>) (dr_push R (dl_ready l) d))"

text \<open>\<open>reset\<close>: the drained count, the unlogged source bytes, and the lane.\<close>

definition dl_reset :: "display_ring \<Rightarrow> display_lane \<Rightarrow> u32 \<times> u32 \<times> display_lane" where
  "dl_reset R l =
     (let (rest, drained, unlogged, l') = pop_loop (Suc kDisplayBatchCount) (dr_pop R)
            (\<lambda>stale (drained, unlogged, l).
               (drained + 1,
                (if dd_rx_meta stale AND kRxUnloggedFlag \<noteq> 0
                 then unlogged + ucast (dd_rx_meta stale AND kRxLenMask) else unlogged),
                dl_release_buf (dd_buf stale) l))
            (dl_ready l) (0, 0, l)
      in (drained, unlogged, l'\<lparr>dl_ready := rest\<rparr>))"

fun dl_search :: "nat \<Rightarrow> display_ring \<Rightarrow> u32 \<Rightarrow> display_lane \<Rightarrow> bool \<times> display_lane" where
  "dl_search 0 R generation l = (False, l)"
| "dl_search (Suc n) R generation l =
     (case dr_pop R (dl_ready l) of
        None \<Rightarrow> (False, l)
      | Some (d, rest) \<Rightarrow>
          (let l1 = l\<lparr>dl_ready := rest, dl_consumer_desc := d\<rparr>
           in if dd_gen d = generation then (True, l1\<lparr>dl_consumer_offset := 0, dl_consumer_active := True\<rparr>)
              else dl_search n R generation (dl_release_buf (dd_buf d) l1)))"

record drain_result =
  dn_more :: bool
  dn_output :: "u8 list"
  dn_completed :: bool
  dn_ingress_ms :: "u32 option"

definition dl_nothing :: drain_result where
  "dl_nothing = \<lparr>dn_more = False, dn_output = [], dn_completed = False, dn_ingress_ms = None\<rparr>"

text \<open>Retire a consumer batch of an older session, then make sure a batch is active.\<close>

definition dl_select :: "display_ring \<Rightarrow> u32 \<Rightarrow> display_lane \<Rightarrow> bool \<times> display_lane" where
  "dl_select R generation l =
     (let l1 = (if dl_consumer_active l \<and> dd_gen (dl_consumer_desc l) \<noteq> generation
                then (dl_release_buf (dd_buf (dl_consumer_desc l)) l)\<lparr>dl_consumer_active := False\<rparr>
                else l)
      in if dl_consumer_active l1 then (True, l1)
         else dl_search (Suc kDisplayBatchCount) R generation l1)"

definition dl_copy_out :: "u32 \<Rightarrow> display_lane \<Rightarrow> drain_result \<times> display_lane" where
  "dl_copy_out capacity l =
     (let d = dl_consumer_desc l;
          remaining = dd_len d - dl_consumer_offset l;
          count = (if remaining < capacity then remaining else capacity);
          out = fixed_pool_read (dl_buffers l) (unat (dd_buf d))
                  (unat (dl_consumer_offset l)) (unat count);
          l1 = l\<lparr>dl_consumer_offset := dl_consumer_offset l + count\<rparr>;
          completed = (dl_consumer_offset l1 = dd_len d);
          l2 = (if completed then (dl_release_buf (dd_buf d) l1)\<lparr>dl_consumer_active := False\<rparr> else l1)
      in (\<lparr>dn_more = True, dn_output = out, dn_completed = completed,
           dn_ingress_ms = Some (dd_ingress_ms d)\<rparr>, l2))"

definition dl_drain_into :: "display_ring \<Rightarrow> u32 \<Rightarrow> u32 \<Rightarrow> display_lane \<Rightarrow> drain_result \<times> display_lane" where
  "dl_drain_into R capacity generation l =
     (if capacity = 0 then (dl_nothing, l)
      else case dl_select R generation l of
          (found, l1) \<Rightarrow> if found then dl_copy_out capacity l1 else (dl_nothing, l1))"

section \<open>Buffer ownership\<close>

text \<open>
  A buffer is free, queued on the ready ring, held by the consumer, or held by the formatter
  (\<open>held\<close>), and never in two of these places.
\<close>

definition desc_ok :: "display_desc \<Rightarrow> bool" where
  "desc_ok d \<longleftrightarrow> unat (dd_buf d) < kDisplayBatchCount \<and> unat (dd_len d) \<le> kDisplayBatchBytes"

definition dl_owned :: "display_lane \<Rightarrow> nat list" where
  "dl_owned l = (if dl_consumer_active l then [unat (dd_buf (dl_consumer_desc l))] else []) @
     map (\<lambda>d. unat (dd_buf d)) (dl_ready l)"

definition dl_inv :: "nat set \<Rightarrow> display_lane \<Rightarrow> bool" where
  "dl_inv held l \<longleftrightarrow> fp_inv (dl_buffers l) \<and> fp_count (dl_buffers l) = kDisplayBatchCount \<and>
     (\<forall>b < kDisplayBatchCount. fp_bytes (dl_buffers l) b = kDisplayBatchBytes) \<and>
     (\<forall>d \<in> set (dl_ready l). desc_ok d) \<and>
     (dl_consumer_active l \<longrightarrow> desc_ok (dl_consumer_desc l) \<and> dl_consumer_offset l \<le> dd_len (dl_consumer_desc l)) \<and>
     distinct (dl_owned l) \<and> set (dl_owned l) \<inter> held = {} \<and>
     fpool.used (dl_buffers l) = set (dl_owned l) \<union> held"

text \<open>The text waiting for a caller of one session generation.\<close>

definition dd_text :: "fixed_pool \<Rightarrow> display_desc \<Rightarrow> u8 list" where
  "dd_text p d = fixed_pool_read p (unat (dd_buf d)) 0 (unat (dd_len d))"

definition dl_ready_text :: "u32 \<Rightarrow> fixed_pool \<Rightarrow> display_desc list \<Rightarrow> u8 list" where
  "dl_ready_text generation p ds = concat (map (dd_text p) (filter (\<lambda>d. dd_gen d = generation) ds))"

definition dl_pending_text :: "u32 \<Rightarrow> display_lane \<Rightarrow> u8 list" where
  "dl_pending_text generation l =
     (if dl_consumer_active l \<and> dd_gen (dl_consumer_desc l) = generation
      then drop (unat (dl_consumer_offset l)) (dd_text (dl_buffers l) (dl_consumer_desc l)) else []) @
     dl_ready_text generation (dl_buffers l) (dl_ready l)"

lemma dd_text_release:
  assumes "fp_inv p" "b < fp_count p" "b \<notin> fp_free p" "unat (dd_buf d) \<noteq> b"
  shows "dd_text (fixed_pool_release p b) d = dd_text p d"
  using fpool.release_law [OF assms(1-3)] assms(4) by (simp add: dd_text_def)

lemma dl_ready_text_release:
  assumes "fp_inv p" "b < fp_count p" "b \<notin> fp_free p" "b \<notin> (\<lambda>d. unat (dd_buf d)) ` set ds"
  shows "dl_ready_text g (fixed_pool_release p b) ds = dl_ready_text g p ds"
proof -
  have "map (dd_text (fixed_pool_release p b)) (filter (\<lambda>d. dd_gen d = g) ds) =
        map (dd_text p) (filter (\<lambda>d. dd_gen d = g) ds)"
    using assms by (intro map_cong) (auto intro!: dd_text_release)
  then show ?thesis unfolding dl_ready_text_def by (rule arg_cong)
qed

lemma dl_inv_init: "dl_inv {} display_lane_init"
proof -
  have "0 < (32::nat)" "(32::nat) < unat kEmpty" "4 \<le> (16384::nat)" by (simp_all add: unat_kEmpty)
  note s = fixed_pool_init_spec [OF this]
  then have "fpool.used (fixed_pool_init 16384 32) = {}"
    by (auto simp: fpool.used_def fp_free_def)
  then show ?thesis
    using s by (simp add: dl_inv_def display_lane_init_def dl_owned_def fp_bytes_def)
qed

lemma dl_invD:
  assumes "dl_inv held l"
  shows "fp_inv (dl_buffers l)" "fp_count (dl_buffers l) = 32"
    "b < 32 \<Longrightarrow> fp_bytes (dl_buffers l) b = 16384"
    "d \<in> set (dl_ready l) \<Longrightarrow> desc_ok d"
    "dl_consumer_active l \<Longrightarrow> desc_ok (dl_consumer_desc l) \<and> dl_consumer_offset l \<le> dd_len (dl_consumer_desc l)"
    "distinct (dl_owned l)" "set (dl_owned l) \<inter> held = {}"
    "fpool.used (dl_buffers l) = set (dl_owned l) \<union> held"
  using assms by (simp_all add: dl_inv_def)

lemma used_not_free: "b \<in> fpool.used p \<Longrightarrow> b < fp_count p \<and> b \<notin> fp_free p"
  by (auto simp: fpool.used_def)

lemma dl_inv_release:
  assumes inv: "dl_inv held l" and b: "unat b \<in> set (dl_owned l)"
    and own: "dl_owned l' = remove1 (unat b) (dl_owned l)"
    and l': "dl_buffers l' = fixed_pool_release (dl_buffers l) (unat b)" "set (dl_ready l') \<subseteq> set (dl_ready l)"
      "\<not> dl_consumer_active l'"
  shows "dl_inv held l'"
proof -
  note I = dl_invD [OF inv]
  have used: "unat b \<in> fpool.used (dl_buffers l)" using b I(8) by blast
  note nf = used_not_free [OF used]
  note r = fpool.release_law [OF I(1) conjunct1 [OF nf] conjunct2 [OF nf]] fpool.release_used [OF I(1) used]
  have "set (dl_owned l') = set (dl_owned l) - {unat b}"
    using own I(6) by simp
  then show ?thesis
    unfolding dl_inv_def using r I own l' b by (auto simp: distinct_remove1)
qed

lemma dl_search_spec:
  assumes "display_ring_ok R"
  shows "dl_inv held l \<Longrightarrow> \<not> dl_consumer_active l \<Longrightarrow> length (dl_ready l) < n \<Longrightarrow>
    dl_search n R g l = (found, l') \<Longrightarrow>
    dl_inv held l' \<and> dl_pending_text g l' = dl_pending_text g l \<and>
    (found \<longrightarrow> dl_consumer_active l' \<and> dd_gen (dl_consumer_desc l') = g) \<and>
    (\<not> found \<longrightarrow> \<not> dl_consumer_active l' \<and> dl_ready l' = [])"
proof (induction n arbitrary: l)
  case (Suc n)
  note I = dl_invD [OF Suc.prems(1)]
  note pop = spsc_pop [OF assms [unfolded display_ring_ok_def]]
  show ?case
  proof (cases "dl_ready l")
    case Nil
    then show ?thesis using Suc.prems by (auto simp: pop)
  next
    case (Cons d rest)
    let ?l1 = "l\<lparr>dl_ready := rest, dl_consumer_desc := d\<rparr>"
    show ?thesis
    proof (cases "dd_gen d = g")
      case True
      then have l': "found" "l' = ?l1\<lparr>dl_consumer_offset := 0, dl_consumer_active := True\<rparr>"
        using Suc.prems(4) Cons by (auto simp: pop)
      have "dl_owned l' = dl_owned l" using Suc.prems(2) Cons l' by (simp add: dl_owned_def)
      then have "dl_inv held l'"
        using Suc.prems(1) Cons l' by (auto simp: dl_inv_def)
      moreover have "dl_pending_text g l' = dl_pending_text g l"
        using Suc.prems(2) Cons l' True by (simp add: dl_pending_text_def dl_ready_text_def)
      ultimately show ?thesis using l' True by simp
    next
      case False
      let ?l2 = "dl_release_buf (dd_buf d) ?l1"
      have own: "unat (dd_buf d) \<in> set (dl_owned l)" using Cons by (auto simp: dl_owned_def)
      have inv: "dl_inv held ?l2"
        by (rule dl_inv_release [OF Suc.prems(1) own])
          (use Suc.prems(2) Cons in \<open>auto simp: dl_owned_def dl_release_buf_def\<close>)
      have nin: "unat (dd_buf d) \<notin> (\<lambda>d. unat (dd_buf d)) ` set rest"
        using I(6) Cons by (auto simp: dl_owned_def)
      have nf: "unat (dd_buf d) < fp_count (dl_buffers l)" "unat (dd_buf d) \<notin> fp_free (dl_buffers l)"
        using used_not_free own I(8) by blast+
      have same: "dl_pending_text g ?l2 = dl_pending_text g l"
        using Suc.prems(2) Cons False dl_ready_text_release [OF I(1) nf nin, of g]
        by (simp add: dl_pending_text_def dl_release_buf_def dl_ready_text_def)
      have "dl_search n R g ?l2 = (found, l')" "length (dl_ready ?l2) < n" "\<not> dl_consumer_active ?l2"
        using Suc.prems Cons False by (auto simp: pop dl_release_buf_def)
      then show ?thesis using Suc.IH [OF inv] same by simp
    qed
  qed
qed simp

lemma dl_ready_length:
  assumes "dl_inv held l"
  shows "length (dl_ready l) \<le> 32"
proof -
  have "set (map (\<lambda>d. unat (dd_buf d)) (dl_ready l)) \<subseteq> {..<32}"
    using dl_invD(4) [OF assms] by (auto simp: desc_ok_def)
  then have "card (set (map (\<lambda>d. unat (dd_buf d)) (dl_ready l))) \<le> 32"
    by (metis card_lessThan card_mono finite_lessThan)
  moreover have "distinct (map (\<lambda>d. unat (dd_buf d)) (dl_ready l))"
    using dl_invD(6) [OF assms] by (auto simp: dl_owned_def split: if_splits)
  ultimately show ?thesis by (metis distinct_card length_map)
qed

text \<open>The copy-out step on an active batch of the caller's generation.\<close>

lemma dl_copy_spec:
  assumes inv: "dl_inv held l" and act: "dl_consumer_active l" "dd_gen (dl_consumer_desc l) = g"
    and res: "dl_copy_out capacity l = (res, l')"
  shows "dn_output res @ dl_pending_text g l' = dl_pending_text g l" "dl_inv held l'"
    "length (dn_output res) \<le> unat capacity" "dn_more res"
proof -
  define d where "d = dl_consumer_desc l"
  define count where
    "count = (if dd_len d - dl_consumer_offset l < capacity then dd_len d - dl_consumer_offset l else capacity)"
  define out where
    "out = fixed_pool_read (dl_buffers l) (unat (dd_buf d)) (unat (dl_consumer_offset l)) (unat count)"
  define l3 where "l3 = l\<lparr>dl_consumer_offset := dl_consumer_offset l + count\<rparr>"
  have l'_def: "l' = (if dl_consumer_offset l3 = dd_len d
      then (dl_release_buf (dd_buf d) l3)\<lparr>dl_consumer_active := False\<rparr> else l3)"
    and res_def: "dn_output res = out" and "dn_more res"
    using res by (auto simp: dl_copy_out_def Let_def d_def count_def out_def l3_def)
  show "dn_more res" by fact
  note I = dl_invD [OF inv]
  have ok: "unat (dd_buf d) < 32" "unat (dd_len d) \<le> 16384" and off: "dl_consumer_offset l \<le> dd_len d"
    using I(5) act by (auto simp: d_def desc_ok_def)
  have cnt: "unat count \<le> unat (dd_len d) - unat (dl_consumer_offset l)" "count \<le> capacity"
    using unat_sub [OF off] by (auto simp: count_def not_less word_le_nat_alt word_less_nat_alt)
  have le: "unat (dl_consumer_offset l) \<le> unat (dd_len d)" using off by (simp add: word_le_nat_alt)
  have sum: "unat (dl_consumer_offset l + count) = unat (dl_consumer_offset l) + unat count"
    using le cnt(1) ok(2) by (subst unat_plus_simple [THEN iffD1]) (auto simp: no_olen_add_nat)
  let ?T = "dd_text (dl_buffers l) d"
  have Tl: "length ?T = unat (dd_len d)"
    using I(3) [of "unat (dd_buf d)"] ok by (simp add: dd_text_def fixed_pool_read_def fp_bytes_def)
  have outT: "out = take (unat count) (drop (unat (dl_consumer_offset l)) ?T)"
    using cnt(1) le by (simp add: out_def dd_text_def fixed_pool_read_def drop_take min_def)
  then show "length (dn_output res) \<le> unat capacity"
    using Tl cnt by (simp add: res_def word_le_nat_alt)
  have pend: "dl_pending_text g l = drop (unat (dl_consumer_offset l)) ?T @ dl_ready_text g (dl_buffers l) (dl_ready l)"
    using act by (simp add: dl_pending_text_def d_def)
  have own: "unat (dd_buf d) \<in> set (dl_owned l)" using act by (simp add: dl_owned_def d_def)
  show "dl_inv held l'"
  proof (cases "dl_consumer_offset l3 = dd_len d")
    case True
    show ?thesis
      by (rule dl_inv_release [OF inv own])
        (use True act in \<open>auto simp: l'_def l3_def dl_owned_def dl_release_buf_def d_def\<close>)
  next
    case False
    have "dl_consumer_offset l3 \<le> dd_len d"
      using sum cnt(1) le by (simp add: l3_def word_le_nat_alt)
    then show ?thesis
      using False inv by (simp add: l'_def l3_def dl_inv_def dl_owned_def d_def)
  qed
  have "out @ dl_pending_text g l' = dl_pending_text g l"
  proof (cases "dl_consumer_offset l3 = dd_len d")
    case True
    then have full: "unat (dl_consumer_offset l) + unat count = unat (dd_len d)"
      using sum by (simp add: l3_def)
    have nf: "unat (dd_buf d) < fp_count (dl_buffers l)" "unat (dd_buf d) \<notin> fp_free (dl_buffers l)"
      using used_not_free own I(8) by blast+
    have nin: "unat (dd_buf d) \<notin> (\<lambda>d. unat (dd_buf d)) ` set (dl_ready l)"
      using I(6) act by (auto simp: dl_owned_def d_def)
    have "dl_pending_text g l' = dl_ready_text g (dl_buffers l) (dl_ready l)"
      using True dl_ready_text_release [OF I(1) nf nin] by (simp add: l'_def l3_def dl_pending_text_def dl_release_buf_def)
    moreover have "out = drop (unat (dl_consumer_offset l)) ?T"
      using full Tl outT by simp
    ultimately show ?thesis using pend by simp
  next
    case False
    then have "dl_pending_text g l' = drop (unat (dl_consumer_offset l) + unat count) ?T @ dl_ready_text g (dl_buffers l) (dl_ready l)"
      using act sum by (simp add: l'_def l3_def dl_pending_text_def d_def)
    moreover have "out @ drop (unat (dl_consumer_offset l) + unat count) ?T = drop (unat (dl_consumer_offset l)) ?T"
      unfolding outT by (metis add.commute append_take_drop_id drop_drop)
    ultimately show ?thesis using pend by (metis append.assoc)
  qed
  then show "dn_output res @ dl_pending_text g l' = dl_pending_text g l" by (simp add: res_def)
qed

lemma dl_retire_consumer:
  assumes inv: "dl_inv held l" and act: "dl_consumer_active l" "dd_gen (dl_consumer_desc l) \<noteq> g"
  defines "l1 \<equiv> (dl_release_buf (dd_buf (dl_consumer_desc l)) l)\<lparr>dl_consumer_active := False\<rparr>"
  shows "dl_inv held l1" "dl_pending_text g l1 = dl_pending_text g l" "length (dl_ready l1) = length (dl_ready l)"
    "\<not> dl_consumer_active l1"
proof -
  note I = dl_invD [OF inv]
  have own: "unat (dd_buf (dl_consumer_desc l)) \<in> set (dl_owned l)" using act by (simp add: dl_owned_def)
  show "dl_inv held l1"
    by (rule dl_inv_release [OF inv own]) (use act in \<open>auto simp: l1_def dl_owned_def dl_release_buf_def\<close>)
  have nf: "unat (dd_buf (dl_consumer_desc l)) < fp_count (dl_buffers l)"
    "unat (dd_buf (dl_consumer_desc l)) \<notin> fp_free (dl_buffers l)"
    using used_not_free own I(8) by blast+
  have nin: "unat (dd_buf (dl_consumer_desc l)) \<notin> (\<lambda>d. unat (dd_buf d)) ` set (dl_ready l)"
    using I(6) act by (auto simp: dl_owned_def)
  show "dl_pending_text g l1 = dl_pending_text g l"
    using act dl_ready_text_release [OF I(1) nf nin, of g]
    by (simp add: dl_pending_text_def l1_def dl_release_buf_def)
qed (simp_all add: l1_def dl_release_buf_def)

lemma dl_select_spec:
  assumes "display_ring_ok R" "dl_inv held l" "dl_select R g l = (found, l')"
  shows "dl_inv held l' \<and> dl_pending_text g l' = dl_pending_text g l \<and>
    (found \<longrightarrow> dl_consumer_active l' \<and> dd_gen (dl_consumer_desc l') = g) \<and>
    (\<not> found \<longrightarrow> \<not> dl_consumer_active l' \<and> dl_ready l' = [])"
proof (cases "dl_consumer_active l")
  case True
  show ?thesis
  proof (cases "dd_gen (dl_consumer_desc l) = g")
    case False
    let ?l1 = "(dl_release_buf (dd_buf (dl_consumer_desc l)) l)\<lparr>dl_consumer_active := False\<rparr>"
    note r = dl_retire_consumer [OF assms(2) True False]
    have "dl_search (Suc kDisplayBatchCount) R g ?l1 = (found, l')"
      using assms(3) True False by (simp add: dl_select_def Let_def del: dl_search.simps)
    moreover have "length (dl_ready ?l1) < Suc kDisplayBatchCount"
      using r(3) dl_ready_length [OF assms(2)] by simp
    ultimately show ?thesis
      using dl_search_spec [OF assms(1) r(1,4)] r(2) by metis
  qed (use assms True in \<open>auto simp: dl_select_def\<close>)
next
  case False
  then have "dl_search (Suc kDisplayBatchCount) R g l = (found, l')"
    using assms(3) by (simp add: dl_select_def Let_def del: dl_search.simps)
  moreover have "length (dl_ready l) < Suc kDisplayBatchCount"
    using dl_ready_length [OF assms(2)] by simp
  ultimately show ?thesis
    using dl_search_spec [OF assms(1,2) False] by metis
qed

section \<open>The session-boundary reset\<close>

definition dd_unlogged :: "display_desc \<Rightarrow> u32" where
  "dd_unlogged d = (if dd_rx_meta d AND kRxUnloggedFlag \<noteq> 0 then ucast (dd_rx_meta d AND kRxLenMask) else 0)"

definition release_all :: "nat list \<Rightarrow> fixed_pool \<Rightarrow> fixed_pool" where
  "release_all bs p = fold (\<lambda>b p. fixed_pool_release p b) bs p"

lemma release_all_spec:
  "fp_inv p \<Longrightarrow> distinct bs \<Longrightarrow> set bs \<subseteq> fpool.used p \<Longrightarrow>
   fp_inv (release_all bs p) \<and> fpool.used (release_all bs p) = fpool.used p - set bs \<and>
   fp_count (release_all bs p) = fp_count p \<and> (\<forall>c. fp_bytes (release_all bs p) c = fp_bytes p c)"
proof (induction bs arbitrary: p)
  case Nil
  then show ?case by (simp add: release_all_def)
next
  case (Cons b bs)
  then have b: "b \<in> fpool.used p" by simp
  note nf = used_not_free [OF b]
  note r = fpool.release_law [OF Cons.prems(1) conjunct1 [OF nf] conjunct2 [OF nf]]
    fpool.release_used [OF Cons.prems(1) b]
  have "fp_inv (release_all bs (fixed_pool_release p b)) \<and>
      fpool.used (release_all bs (fixed_pool_release p b)) = fpool.used (fixed_pool_release p b) - set bs \<and>
      fp_count (release_all bs (fixed_pool_release p b)) = fp_count (fixed_pool_release p b) \<and>
      (\<forall>c. fp_bytes (release_all bs (fixed_pool_release p b)) c = fp_bytes (fixed_pool_release p b) c)"
    by (rule Cons.IH) (use r Cons.prems in auto)
  then show ?case using r by (auto simp: release_all_def)
qed

lemma dl_reset_fold:
  "fold (\<lambda>stale (drained, unlogged, l).
       (drained + 1,
        (if dd_rx_meta stale AND kRxUnloggedFlag \<noteq> 0
         then unlogged + ucast (dd_rx_meta stale AND kRxLenMask) else unlogged),
        dl_release_buf (dd_buf stale) l)) ds (n, u, l) =
   (n + of_nat (length ds), u + (\<Sum>d\<leftarrow>ds. dd_unlogged d),
    l\<lparr>dl_buffers := release_all (map (\<lambda>d. unat (dd_buf d)) ds) (dl_buffers l)\<rparr>)"
  by (induction ds arbitrary: n u l)
    (auto simp: dd_unlogged_def dl_release_buf_def release_all_def algebra_simps)

text \<open>
  The reset returns every queued batch to the pool exactly once and reports their number and the
  source bytes that no file lane holds. A batch the consumer is in the middle of is left alone.
\<close>

lemma dl_reset_spec:
  assumes R: "display_ring_ok R" and inv: "dl_inv held l" and r: "dl_reset R l = (n, u, l')"
  shows "dl_inv held l'" "dl_ready l' = []" "n = of_nat (length (dl_ready l))"
    "u = (\<Sum>d\<leftarrow>dl_ready l. dd_unlogged d)"
    "dl_consumer_active l' = dl_consumer_active l" "dl_consumer_desc l' = dl_consumer_desc l"
proof -
  have len: "length (dl_ready l) < Suc kDisplayBatchCount"
    using dl_ready_length [OF inv] by simp
  let ?bs = "map (\<lambda>d. unat (dd_buf d)) (dl_ready l)"
  have l': "l' = l\<lparr>dl_buffers := release_all ?bs (dl_buffers l), dl_ready := []\<rparr>"
    and "n = of_nat (length (dl_ready l))" "u = (\<Sum>d\<leftarrow>dl_ready l. dd_unlogged d)"
    using r unfolding dl_reset_def pop_loop_spsc [OF R [unfolded display_ring_ok_def] len] dl_reset_fold
    by auto
  then show "n = of_nat (length (dl_ready l))" "u = (\<Sum>d\<leftarrow>dl_ready l. dd_unlogged d)" "dl_ready l' = []"
    "dl_consumer_active l' = dl_consumer_active l" "dl_consumer_desc l' = dl_consumer_desc l"
    by simp_all
  note I = dl_invD [OF inv]
  have sub: "set ?bs \<subseteq> fpool.used (dl_buffers l)" "distinct ?bs"
    using I(6,8) by (auto simp: dl_owned_def split: if_splits)
  note ra = release_all_spec [OF I(1) sub(2,1)]
  show "dl_inv held l'"
    using ra I inv unfolding dl_inv_def l' by (auto simp: dl_owned_def split: if_splits)
qed

section \<open>Properties\<close>

text \<open>
  C21 (drain_into_stream). The drain is a byte stream: what one call copies out is a prefix of the text
  pending for the caller's session generation, exactly the rest stays pending, at most \<open>capacity\<close>
  bytes are copied, nothing is reported only when nothing is pending, and no buffer is leaked or
  released twice, whatever stale batches of other generations are in the way.
\<close>

theorem drain_into_stream:
  assumes "display_ring_ok R" "dl_inv held l" "0 < capacity"
    "dl_drain_into R capacity g l = (res, l')"
  shows "dn_output res @ dl_pending_text g l' = dl_pending_text g l \<and> dl_inv held l' \<and>
    length (dn_output res) \<le> unat capacity \<and> (\<not> dn_more res \<longrightarrow> dl_pending_text g l = [])"
proof -
  obtain found l1 where sel: "dl_select R g l = (found, l1)" by (meson surj_pair)
  note S = dl_select_spec [OF assms(1,2) sel]
  show ?thesis
  proof (cases found)
    case True
    with assms(3,4) sel have "dl_copy_out capacity l1 = (res, l')"
      by (auto simp: dl_drain_into_def word_gt_0)
    with True S dl_copy_spec [of held l1 g capacity res l'] show ?thesis by auto
  next
    case False
    with assms(3,4) sel have "res = dl_nothing" "l' = l1"
      by (auto simp: dl_drain_into_def word_gt_0)
    moreover have "dl_pending_text g l1 = []"
      using False S by (auto simp: dl_pending_text_def dl_ready_text_def)
    ultimately show ?thesis
      using S by (simp add: dl_nothing_def)
  qed
qed

theorem drain_into_stream_witness:
  "length (dn_output (fst (dl_drain_into display_ring_list 16 3 display_lane_init))) \<le> unat (16 :: u32)"
proof -
  have "(0 :: u32) < 16" by simp
  from drain_into_stream [OF display_ring_list_ok dl_inv_init this surjective_pairing]
  show ?thesis by blast
qed

end
