(* ===== verification/Display_Format.thy ===== *)
theory Display_Format
  imports Prelude
begin

text \<open>
  \<open>format_payload\<close> of \<open>ao/xcom_ao.cpp\<close>: the hexadecimal view and the text view with line-end
  normalisation and escape-sequence stripping. The text view keeps three state variables between
  blocks. It is compared with a transducer that reads one byte at a time and never looks ahead,
  which is what makes the output independent of how the receive stream is cut into blocks.
\<close>

section \<open>Hexadecimal view\<close>

definition hex_digits :: "u8 list" where
  "hex_digits = [48, 49, 50, 51, 52, 53, 54, 55, 56, 57, 65, 66, 67, 68, 69, 70]"

definition hex_pair :: "u8 \<Rightarrow> u8 \<times> u8" where
  "hex_pair v = (hex_digits ! unat (drop_bit 4 v AND 0x0F), hex_digits ! unat (v AND 0x0F))"

fun hex_loop :: "u8 list \<Rightarrow> u8 list" where
  "hex_loop [] = []"
| "hex_loop (v # vs) = (case hex_pair v of (hi, lo) \<Rightarrow> [hi, lo, 32] @ hex_loop vs)"

definition format_payload_hex :: "nat \<Rightarrow> u8 list \<Rightarrow> u8 list" where
  "format_payload_hex budget bytes =
     (let cap_hex = (if budget > 4 then (budget - 4) div 3 + 1 else 0);
          n = (if length bytes < cap_hex then length bytes else cap_hex);
          out = hex_loop (take n bytes)
      in if n > 0 then butlast out else out)"

section \<open>Text view\<close>

record text_state =
  ts_strip :: nat              \<comment> \<open>0 outside, 1 after ESC, 2 in CSI, 3 in OSC, 4 after ESC in OSC\<close>
  ts_line_start :: bool
  ts_pending_cr :: bool

text \<open>The escape machine on a byte inside a sequence.\<close>

definition strip_next :: "nat \<Rightarrow> u8 \<Rightarrow> nat" where
  "strip_next s b =
     (if s = 1 then
        (if b = 0x5B then 2 else if b = 0x5D then 3
         else if b \<ge> 0x40 \<and> b \<le> 0x5F then 0 else 0)
      else if s = 3 then (if b = 0x07 then 0 else if b = 0x1B then 4 else s)
      else if s = 4 then 0
      else (if b \<ge> 0x40 \<and> b \<le> 0x7E then 0 else s))"

text \<open>
  The byte loop on the bytes not yet read, with the output written so far. The look-ahead of the
  carriage return stops at the end of the block.
\<close>

fun text_loop :: "nat \<Rightarrow> u8 list \<Rightarrow> u8 list \<Rightarrow> text_state \<Rightarrow> u8 list \<times> text_state" where
  "text_loop budget [] out st = (out, st)"
| "text_loop budget (b # bs) out st =
     (if ts_pending_cr st \<and> b = 10 \<and> ts_strip st = 0
      then text_loop budget bs out (st\<lparr>ts_pending_cr := False\<rparr>)
      else
        let st = st\<lparr>ts_pending_cr := False\<rparr>
        in if ts_strip st \<noteq> 0 then text_loop budget bs out (st\<lparr>ts_strip := strip_next (ts_strip st) b\<rparr>)
           else if b = 0x1B then text_loop budget bs out (st\<lparr>ts_strip := 1\<rparr>)
           else
             let is_cr = (b = 13); is_lf = (b = 10); is_tab = (b = 9); is_printable = (b \<ge> 0x20)
             in if \<not> is_cr \<and> \<not> is_lf \<and> \<not> is_tab \<and> \<not> is_printable then text_loop budget bs out st
                else
                  let out_byte = (if is_cr then 10 else b);
                      break_line = (is_cr \<or> is_lf);
                      pair = (is_cr \<and> bs \<noteq> [] \<and> hd bs = 10);
                      rest = (if pair then tl bs else bs);
                      st = (if is_cr \<and> \<not> pair then st\<lparr>ts_pending_cr := True\<rparr> else st)
                  in if length out \<ge> budget then (out, st)
                     else text_loop budget rest (out @ [out_byte]) (st\<lparr>ts_line_start := break_line\<rparr>))"

definition format_payload_text :: "nat \<Rightarrow> u8 list \<Rightarrow> text_state \<Rightarrow> u8 list \<times> text_state" where
  "format_payload_text budget bytes st =
     (let n = (if length bytes < budget then length bytes else budget)
      in text_loop budget (take n bytes) [] st)"

section \<open>The transducer\<close>

definition text_step :: "text_state \<Rightarrow> u8 \<Rightarrow> u8 list \<times> text_state" where
  "text_step st b =
     (let carried = ts_pending_cr st; st = st\<lparr>ts_pending_cr := False\<rparr>
      in if carried \<and> b = 10 \<and> ts_strip st = 0 then ([], st)
         else if ts_strip st \<noteq> 0 then ([], st\<lparr>ts_strip := strip_next (ts_strip st) b\<rparr>)
         else if b = 0x1B then ([], st\<lparr>ts_strip := 1\<rparr>)
         else if b = 13 then ([10], st\<lparr>ts_pending_cr := True, ts_line_start := True\<rparr>)
         else if b = 10 then ([10], st\<lparr>ts_line_start := True\<rparr>)
         else if b = 9 \<or> b \<ge> 0x20 then ([b], st\<lparr>ts_line_start := False\<rparr>)
         else ([], st))"

fun text_run :: "text_state \<Rightarrow> u8 list \<Rightarrow> u8 list \<times> text_state" where
  "text_run st [] = ([], st)"
| "text_run st (b # bs) =
     (case text_step st b of (o1, st1) \<Rightarrow> (case text_run st1 bs of (o2, st2) \<Rightarrow> (o1 @ o2, st2)))"

lemma text_run_append:
  "text_run st (xs @ ys) =
     (case text_run st xs of (o1, st1) \<Rightarrow> (case text_run st1 ys of (o2, st2) \<Rightarrow> (o1 @ o2, st2)))"
  by (induction xs arbitrary: st) (auto split: prod.splits)

lemma text_run_length: "text_run st bs = (out, st') \<Longrightarrow> length out \<le> length bs"
proof (induction bs arbitrary: st out)
  case (Cons b bs)
  moreover have "length (fst (text_step st b)) \<le> 1"
    by (simp add: text_step_def Let_def)
  ultimately show ?case by (fastforce split: prod.splits)
qed simp

text \<open>A carriage return followed by a line feed in the same block is one step of the loop, two of the transducer.\<close>

lemma text_run_crlf:
  assumes "ts_strip st = 0"
  shows "text_run st (13 # 10 # bs) =
    (case text_run (st\<lparr>ts_pending_cr := False, ts_line_start := True\<rparr>) bs of (o2, st2) \<Rightarrow> (10 # o2, st2))"
  using assms by (cases st) (simp add: text_step_def Let_def split: prod.splits)

lemma text_loop_step:
  assumes "length out < budget" "\<not> (ts_strip st = 0 \<and> b = 13)"
  shows "text_loop budget (b # bs) out st =
    (case text_step st b of (o1, st1) \<Rightarrow> text_loop budget bs (out @ o1) st1)"
  using assms by (cases st) (auto simp: text_step_def Let_def)

lemma text_loop_cr:
  assumes "length out < budget" "ts_strip st = 0" "\<not> (bs \<noteq> [] \<and> hd bs = 10)"
  shows "text_loop budget (13 # bs) out st =
    (case text_step st 13 of (o1, st1) \<Rightarrow> text_loop budget bs (out @ o1) st1)"
  using assms by (cases st) (auto simp: text_step_def Let_def)

lemma text_loop_crlf:
  assumes "length out < budget" "ts_strip st = 0"
  shows "text_loop budget (13 # 10 # bs) out st =
    text_loop budget bs (out @ [10]) (st\<lparr>ts_pending_cr := False, ts_line_start := True\<rparr>)"
  using assms by (simp add: Let_def)

lemma text_step_length: "length (fst (text_step st b)) \<le> 1"
  by (simp add: text_step_def Let_def)

lemma text_loop_run:
  "length out + length bs \<le> budget \<Longrightarrow>
   text_loop budget bs out st = (case text_run st bs of (o2, st2) \<Rightarrow> (out @ o2, st2))"
proof (induction bs arbitrary: out st rule: length_induct)
  case (1 bs)
  show ?case
  proof (cases bs)
    case (Cons b rest)
    with 1(2) have room: "length out < budget" by simp
    show ?thesis
    proof (cases "ts_strip st = 0 \<and> b = 13 \<and> rest \<noteq> [] \<and> hd rest = 10")
      case True
      then obtain bs' where bs': "rest = 10 # bs'" by (cases rest) auto
      then show ?thesis
        using 1(2) True room Cons 1(1) [rule_format, of bs' "out @ [10]"]
        by (simp add: text_loop_crlf text_run_crlf del: text_loop.simps text_run.simps split: prod.splits)
    next
      case False
      have "text_loop budget bs out st = (case text_step st b of (o1, st1) \<Rightarrow> text_loop budget rest (out @ o1) st1)"
        using False room Cons text_loop_step [of out budget st b rest] text_loop_cr [of out budget st rest]
        by (cases "ts_strip st = 0 \<and> b = 13") (auto simp del: text_loop.simps)
      moreover obtain o1 st1 where o1: "text_step st b = (o1, st1)" by (meson surj_pair)
      moreover have "length (out @ o1) + length rest \<le> budget"
        using text_step_length [of st b] 1(2) Cons o1 by simp
      ultimately show ?thesis
        using Cons 1(1) [rule_format, of rest "out @ o1" st1] by (simp split: prod.splits)
    qed
  qed simp
qed

lemma format_payload_text_run:
  "length bytes \<le> budget \<Longrightarrow> format_payload_text budget bytes st = text_run st bytes"
  by (simp add: format_payload_text_def text_loop_run split: prod.splits)

section \<open>Properties\<close>

definition text_clean :: "u8 \<Rightarrow> bool" where
  "text_clean b \<longleftrightarrow> b = 10 \<or> b = 9 \<or> b \<ge> 0x20"

lemma text_run_clean: "text_run st bs = (out, st') \<Longrightarrow> list_all text_clean out"
proof (induction bs arbitrary: st out)
  case (Cons b bs)
  moreover have "list_all text_clean (fst (text_step st b))"
    by (auto simp: text_step_def Let_def text_clean_def)
  ultimately show ?case by (fastforce split: prod.splits)
qed simp

text \<open>
  C33 (text_view_chunking). The text view does not depend on how the serial driver cuts the stream:
  formatting two consecutive blocks gives the concatenation that formatting them as one block would
  give, and leaves the same state, also when an escape sequence or a CRLF pair spans the cut.
\<close>

theorem text_view_chunking:
  assumes "length xs + length ys \<le> budget"
    "format_payload_text budget xs st = (o1, st1)" "format_payload_text budget ys st1 = (o2, st2)"
  shows "format_payload_text budget (xs @ ys) st = (o1 @ o2, st2)"
  using assms by (simp add: format_payload_text_run text_run_append)

theorem text_view_chunking_witness:
  "format_payload_text 64 ([65, 13] @ [10, 66]) \<lparr>ts_strip = 0, ts_line_start = True, ts_pending_cr = False\<rparr> =
     ([65, 10] @ [66], \<lparr>ts_strip = 0, ts_line_start = False, ts_pending_cr = False\<rparr>)"
proof -
  let ?s0 = "\<lparr>ts_strip = 0, ts_line_start = True, ts_pending_cr = False\<rparr>"
  let ?s1 = "\<lparr>ts_strip = 0, ts_line_start = True, ts_pending_cr = True\<rparr>"
  have 1: "format_payload_text 64 [65, 13] ?s0 = ([65, 10], ?s1)"
    by (simp add: format_payload_text_def Let_def)
  have 2: "format_payload_text 64 [10, 66] ?s1 = ([66], \<lparr>ts_strip = 0, ts_line_start = False, ts_pending_cr = False\<rparr>)"
    by (simp add: format_payload_text_def Let_def)
  have "length [65, 13 :: u8] + length [10, 66 :: u8] \<le> 64" by simp
  from text_view_chunking [OF this 1 2] show ?thesis .
qed

text \<open>
  What the text view writes fits in the input's length, contains only line
  feeds, tabs and bytes from 0x20 up (no carriage return, escape or other control byte), and equals
  the output of the transducer.
\<close>

theorem text_view_output:
  assumes "length bytes \<le> budget" "format_payload_text budget bytes st = (out, st')"
  shows "length out \<le> length bytes \<and> list_all text_clean out \<and> text_run st bytes = (out, st')"
  using assms text_run_length text_run_clean by (simp add: format_payload_text_run)

theorem text_view_output_witness:
  "list_all text_clean (fst (format_payload_text 16 [0x1B, 0x5B, 0x33, 0x6D, 72]
      \<lparr>ts_strip = 0, ts_line_start = True, ts_pending_cr = False\<rparr>))"
proof -
  have "length [0x1B, 0x5B, 0x33, 0x6D, 72 :: u8] \<le> 16" by simp
  from text_view_output [OF this surjective_pairing] show ?thesis by blast
qed

text \<open>Reading the hexadecimal view back.\<close>

definition hex_value :: "u8 \<Rightarrow> u8" where
  "hex_value c = (if c \<le> 57 then c - 48 else c - 55)"

fun hex_decode :: "u8 list \<Rightarrow> u8 list" where
  "hex_decode (a # b # _ # rest) = (push_bit 4 (hex_value a) OR hex_value b) # hex_decode rest"
| "hex_decode [a, b] = [push_bit 4 (hex_value a) OR hex_value b]"
| "hex_decode _ = []"

lemma hex_digit_value:
  assumes "n < 16"
  shows "hex_value (hex_digits ! n) = of_nat n"
proof -
  have "list_all (\<lambda>n. hex_value (hex_digits ! n) = of_nat n) [0..<16]"
    by code_simp
  with assms show ?thesis by (simp add: list_all_iff)
qed

lemma nibble_less: "unat ((v :: u8) AND 0x0F) < 16"
proof -
  have "v AND 0x0F \<le> 0x0F" by (simp add: word_and_le1)
  then show ?thesis by (simp add: word_le_nat_alt)
qed

lemma hex_pair_value:
  assumes "hex_pair v = (hi, lo)"
  shows "push_bit 4 (hex_value hi) OR hex_value lo = v"
proof -
  have "hex_value hi = drop_bit 4 v AND 0x0F" "hex_value lo = v AND 0x0F"
    using assms hex_digit_value [OF nibble_less] by (auto simp: hex_pair_def)
  moreover have "push_bit 4 (drop_bit 4 v AND 0x0F) OR (v AND 0x0F) = v"
  proof (rule bit_word_eqI)
    fix n assume "n < LENGTH(8)"
    then have "n \<in> {0, 1, 2, 3, 4, 5, 6, 7}" by auto
    then show "bit (push_bit 4 (drop_bit 4 v AND 0x0F) OR (v AND 0x0F)) n = bit v n"
      by (auto simp: bit_simps)
  qed
  ultimately show ?thesis by simp
qed

lemma hex_loop_length: "length (hex_loop vs) = 3 * length vs"
  by (induction vs) (auto split: prod.splits)

lemma hex_decode_loop: "vs \<noteq> [] \<Longrightarrow> hex_decode (butlast (hex_loop vs)) = vs"
proof (induction vs)
  case (Cons v vs)
  obtain hi lo where p: "hex_pair v = (hi, lo)" by (meson surj_pair)
  show ?case
  proof (cases "vs = []")
    case False
    then have "hex_loop vs \<noteq> []" using hex_loop_length [of vs] by auto
    then show ?thesis using Cons False p hex_pair_value [OF p] by simp
  qed (use p hex_pair_value [OF p] in simp)
qed simp

text \<open>
  C36 (hex_view_roundtrip). The hexadecimal view of at most \<open>(budget - 4) / 3 + 1\<close> bytes is lossless,
  never runs past the budget, and for the 16 KiB batch and 4 KiB blocks no byte is ever cut.
\<close>

theorem hex_view_roundtrip:
  assumes "4 < budget" "length bytes \<le> (budget - 4) div 3 + 1"
  shows "hex_decode (format_payload_hex budget bytes) = bytes \<and>
    length (format_payload_hex budget bytes) = 3 * length bytes - 1 \<and>
    length (format_payload_hex budget bytes) < budget"
proof -
  have f: "format_payload_hex budget bytes = (if bytes = [] then [] else butlast (hex_loop bytes))"
    using assms by (auto simp: format_payload_hex_def Let_def)
  then have l: "length (format_payload_hex budget bytes) = 3 * length bytes - 1"
    by (auto simp: hex_loop_length)
  then have "length (format_payload_hex budget bytes) < budget"
    using assms by linarith
  then show ?thesis using f l hex_decode_loop by simp
qed

theorem hex_view_roundtrip_witness:
  "hex_decode (format_payload_hex 16384 (replicate 4096 0xA5)) = replicate 4096 0xA5"
proof -
  have "4 < (16384 :: nat)" "length (replicate 4096 (0xA5 :: u8)) \<le> (16384 - 4) div 3 + 1"
    by simp_all
  from hex_view_roundtrip [OF this] show ?thesis by blast
qed

end
