(* ===== verification/Status_Codes.thy ===== *)
theory Status_Codes
  imports Prelude
begin

text \<open>
  The two translations into the status domain of the C ABI: \<open>tx_submit_status\<close>
  (\<open>runtime/tx_submit_status.hpp\<close>) and \<open>open_failure_status_from_result\<close>
  (\<open>abi/open_failure_status.hpp\<close>). The dispositions are those of coact's scheduler that the source
  names, and one for the \<open>default\<close> branch.
\<close>

datatype submit_disposition =
    SdDirect | SdQueued | SdMerged
  | SdDroppedOverload | SdRejectedState | SdDroppedPolicy | SdDroppedRateLimit
  | SdRejectedFull | SdOther

fun tx_submit_status :: "submit_disposition \<Rightarrow> i32" where
  "tx_submit_status SdDirect = XCOM_OK"
| "tx_submit_status SdQueued = XCOM_OK"
| "tx_submit_status SdMerged = XCOM_OK"
| "tx_submit_status SdDroppedOverload = XCOM_ERR_BUSY"
| "tx_submit_status SdRejectedState = XCOM_ERR_BUSY"
| "tx_submit_status SdDroppedPolicy = XCOM_ERR_BUSY"
| "tx_submit_status SdDroppedRateLimit = XCOM_ERR_BUSY"
| "tx_submit_status SdRejectedFull = XCOM_ERR_FULL"
| "tx_submit_status SdOther = XCOM_ERR_FULL"

text \<open>A positive value is a raw Win32 code, a negative one an \<open>XCOM_ERR_*\<close> enumerator.\<close>

definition open_failure_status_from_result :: "i32 \<Rightarrow> i32" where
  "open_failure_status_from_result recorded =
     (if recorded > 0 then
        (if recorded = 87 then XCOM_ERR_PARAM
         else if recorded = 121 \<or> recorded = 258 \<or> recorded = 1460 then XCOM_ERR_TIMEOUT
         else XCOM_ERR_IO)
      else if recorded < 0 then
        (if recorded = XCOM_ERR_BUSY then XCOM_ERR_IO else recorded)
      else XCOM_ERR_IO)"

lemma tx_submit_status_cases:
  "tx_submit_status d = XCOM_OK \<or> tx_submit_status d = XCOM_ERR_BUSY \<or> tx_submit_status d = XCOM_ERR_FULL"
  by (cases d) simp_all

text \<open>
  The status reported for a failed open is always a negative
  \<open>XCOM_ERR_*\<close> value and never the poll-again value BUSY, whatever the two writers of
  \<open>last_open_result\<close> stored: an error enumerator other than BUSY passes through unchanged, everything else becomes IO,
  PARAM or TIMEOUT.
\<close>

theorem open_failure_is_terminal:
  "open_failure_status_from_result r < 0 \<and> open_failure_status_from_result r \<noteq> XCOM_ERR_BUSY \<and>
   (if r < 0 \<and> r \<noteq> XCOM_ERR_BUSY then open_failure_status_from_result r = r
    else open_failure_status_from_result r \<in> {XCOM_ERR_IO, XCOM_ERR_PARAM, XCOM_ERR_TIMEOUT})"
  by (auto simp: open_failure_status_from_result_def)

end
