(* ===== verification/Thread_Health.thy ===== *)
theory Thread_Health
  imports Prelude
begin

text \<open>
  \<open>runtime/thread_health.hpp\<close>: the edge detectors behind the liveness reports. Stamps are 32-bit
  milliseconds and their difference wraps.
\<close>

definition kSerialReadBeatTimeoutMs :: u32 where [simp]: "kSerialReadBeatTimeoutMs = 1000"
definition kDispatcherBeatTimeoutMs :: u32 where [simp]: "kDispatcherBeatTimeoutMs = 1000"
definition kLogWriterBeatTimeoutMs :: u32 where [simp]: "kLogWriterBeatTimeoutMs = 2000"
definition kDispatcherParkedInfoMs :: u32 where [simp]: "kDispatcherParkedInfoMs = 60000"

record liveness_state =
  lv_last_beat_ms :: u32
  lv_started :: bool
  lv_faulted :: bool
  lv_episodes :: u32

record park_watch_state =
  pw_reported :: bool
  pw_episodes :: u32

datatype liveness_edge = EdgeNone | EdgeFault | EdgeRecovery

record liveness_result =
  lr_edge :: liveness_edge
  lr_elapsed_ms :: u32
  lr_episodes :: u32

definition liveness_init :: liveness_state where
  "liveness_init = \<lparr>lv_last_beat_ms = 0, lv_started = False, lv_faulted = False, lv_episodes = 0\<rparr>"

definition liveness_evaluate ::
  "liveness_state \<Rightarrow> u32 \<Rightarrow> u32 \<Rightarrow> bool \<Rightarrow> bool \<Rightarrow> liveness_result \<times> liveness_state" where
  "liveness_evaluate state now_ms timeout_ms running parked =
     (let s1 = (if lv_last_beat_ms state \<noteq> 0 then state\<lparr>lv_started := True\<rparr> else state);
          elapsed = now_ms - lv_last_beat_ms s1;
          expired = (running \<and> lv_started s1 \<and> \<not> parked \<and> elapsed > timeout_ms)
      in if expired \<and> \<not> lv_faulted s1 then
           let s2 = s1\<lparr>lv_faulted := True, lv_episodes := lv_episodes s1 + 1\<rparr>
           in (\<lparr>lr_edge = EdgeFault, lr_elapsed_ms = elapsed, lr_episodes = lv_episodes s2\<rparr>, s2)
         else if \<not> expired \<and> lv_faulted s1 then
           let s2 = s1\<lparr>lv_faulted := False\<rparr>
           in (\<lparr>lr_edge = EdgeRecovery, lr_elapsed_ms = elapsed, lr_episodes = lv_episodes s2\<rparr>, s2)
         else (\<lparr>lr_edge = EdgeNone, lr_elapsed_ms = elapsed, lr_episodes = lv_episodes s1\<rparr>, s1))"

definition liveness_evaluate_park ::
  "park_watch_state \<Rightarrow> u32 \<Rightarrow> u32 \<Rightarrow> u32 \<Rightarrow> bool \<Rightarrow> liveness_result \<times> park_watch_state" where
  "liveness_evaluate_park state now_ms since_ms threshold_ms running =
     (let parked = (since_ms \<noteq> 0);
          elapsed = (if parked then now_ms - since_ms else 0);
          long_park = (running \<and> parked \<and> elapsed > threshold_ms)
      in if long_park \<and> \<not> pw_reported state then
           let s = state\<lparr>pw_reported := True, pw_episodes := pw_episodes state + 1\<rparr>
           in (\<lparr>lr_edge = EdgeFault, lr_elapsed_ms = elapsed, lr_episodes = pw_episodes s\<rparr>, s)
         else if \<not> long_park \<and> pw_reported state then
           let s = state\<lparr>pw_reported := False\<rparr>
           in (\<lparr>lr_edge = EdgeRecovery, lr_elapsed_ms = elapsed, lr_episodes = pw_episodes s\<rparr>, s)
         else (\<lparr>lr_edge = EdgeNone, lr_elapsed_ms = elapsed, lr_episodes = pw_episodes state\<rparr>, state))"

section \<open>Sequences of checks\<close>

text \<open>One check of the observer: the beat stamp it reads, the clock, and the two flags.\<close>

record health_sample =
  hs_beat :: u32
  hs_now :: u32
  hs_running :: bool
  hs_parked :: bool

definition health_expired :: "u32 \<Rightarrow> bool \<Rightarrow> health_sample \<Rightarrow> bool" where
  "health_expired timeout started x \<longleftrightarrow> hs_running x \<and> started \<and> \<not> hs_parked x \<and> hs_now x - hs_beat x > timeout"

fun liveness_run :: "u32 \<Rightarrow> liveness_state \<Rightarrow> health_sample list \<Rightarrow> liveness_edge list \<times> liveness_state" where
  "liveness_run timeout s [] = ([], s)"
| "liveness_run timeout s (x # xs) =
     (case liveness_evaluate (s\<lparr>lv_last_beat_ms := hs_beat x\<rparr>) (hs_now x) timeout (hs_running x) (hs_parked x) of
        (r, s1) \<Rightarrow> (case liveness_run timeout s1 xs of (es, s2) \<Rightarrow> (lr_edge r # es, s2)))"

text \<open>Edges alternate: from a healthy state the first edge is a fault, from a faulted one a recovery.\<close>

fun edges_alternate :: "bool \<Rightarrow> liveness_edge list \<Rightarrow> bool" where
  "edges_alternate faulted [] = True"
| "edges_alternate faulted (EdgeNone # es) = edges_alternate faulted es"
| "edges_alternate faulted (EdgeFault # es) = (\<not> faulted \<and> edges_alternate True es)"
| "edges_alternate faulted (EdgeRecovery # es) = (faulted \<and> edges_alternate False es)"

lemma liveness_evaluate_cases:
  assumes "liveness_evaluate s now t running parked = (r, s')"
  obtains (none) "lr_edge r = EdgeNone" "lv_faulted s' = lv_faulted s" "lv_episodes s' = lv_episodes s"
  | (fault) "lr_edge r = EdgeFault" "\<not> lv_faulted s" "lv_faulted s'" "lv_episodes s' = lv_episodes s + 1"
  | (recovery) "lr_edge r = EdgeRecovery" "lv_faulted s" "\<not> lv_faulted s'" "lv_episodes s' = lv_episodes s"
  using assms by (auto simp: liveness_evaluate_def Let_def split: if_splits)

text \<open>
  Over any sequence of checks a stall is reported once and its end is
  reported once, alternately, and the episode counter has counted the reported stalls, modulo its
  32 bits.
\<close>

theorem liveness_edges_alternate:
  "edges_alternate (lv_faulted s) (fst (liveness_run timeout s xs)) \<and>
   lv_episodes (snd (liveness_run timeout s xs)) =
     lv_episodes s + of_nat (count_list (fst (liveness_run timeout s xs)) EdgeFault)"
proof (induction xs arbitrary: s)
  case (Cons x xs)
  obtain r s1 where e: "liveness_evaluate (s\<lparr>lv_last_beat_ms := hs_beat x\<rparr>) (hs_now x) timeout
      (hs_running x) (hs_parked x) = (r, s1)" by (meson surj_pair)
  show ?case
    using e by (rule liveness_evaluate_cases) (use Cons.IH [of s1] e in \<open>auto split: prod.splits\<close>)
qed simp

text \<open>
  A check raises a fault only for a thread that runs, has beaten at
  least once, is not parked and whose last beat is older than the timeout; and it is then in the
  faulted state exactly as long as that holds.
\<close>

theorem liveness_never_false_alarm:
  assumes "liveness_evaluate s now timeout running parked = (r, s')"
  shows "lv_faulted s' = (running \<and> (lv_started s \<or> lv_last_beat_ms s \<noteq> 0) \<and> \<not> parked \<and>
      now - lv_last_beat_ms s > timeout) \<and>
    (lr_edge r = EdgeFault) = (\<not> lv_faulted s \<and> lv_faulted s') \<and>
    (lr_edge r = EdgeRecovery) = (lv_faulted s \<and> \<not> lv_faulted s')"
  using assms by (auto simp: liveness_evaluate_def Let_def split: if_splits)

theorem liveness_never_false_alarm_witness:
  "lv_faulted (snd (liveness_evaluate (liveness_init\<lparr>lv_last_beat_ms := 0xFFFFFF00\<rparr>) 0x100 1000 True False)) = False"
proof -
  have "liveness_evaluate (liveness_init\<lparr>lv_last_beat_ms := 0xFFFFFF00\<rparr>) 0x100 1000 True False =
      (fst (liveness_evaluate (liveness_init\<lparr>lv_last_beat_ms := 0xFFFFFF00\<rparr>) 0x100 1000 True False),
       snd (liveness_evaluate (liveness_init\<lparr>lv_last_beat_ms := 0xFFFFFF00\<rparr>) 0x100 1000 True False))" by simp
  from liveness_never_false_alarm [OF this] show ?thesis by (simp add: liveness_init_def)
qed

end
