(* ===== verification/Periodic_Timer.thy ===== *)
theory Periodic_Timer
  imports Prelude
begin

text \<open>
  The deadline arithmetic of \<open>runtime/periodic_timer.cpp\<close>. Times are 64-bit nanoseconds with the
  wrap-around of the code; the clock readings are inputs.
\<close>

definition kNsPerMs :: u64 where [simp]: "kNsPerMs = 1000000"

definition wait_milliseconds :: "u64 \<Rightarrow> u32" where
  "wait_milliseconds remaining_ns =
     (let rounded_ms = (remaining_ns + (kNsPerMs - 1)) div kNsPerMs;
          kMaxWait = 0xFFFFFFFE
      in ucast (if rounded_ms > kMaxWait then kMaxWait else rounded_ms))"

text \<open>\<open>monotonic_ns\<close> from a performance-counter reading; \<open>None\<close> is a failed query.\<close>

definition monotonic_ns :: "u64 option \<Rightarrow> u64 \<Rightarrow> u64" where
  "monotonic_ns counter qpc_frequency =
     (case counter of
        None \<Rightarrow> 0
      | Some ticks \<Rightarrow>
          if qpc_frequency = 0 then 0
          else (ticks div qpc_frequency) * 1000000000 +
               ((ticks mod qpc_frequency) * 1000000000) div qpc_frequency)"

record timer_state =
  pt_interval_ns :: u64
  pt_armed :: bool               \<comment> \<open>a callback is stored\<close>
  pt_stop_requested :: bool
  pt_active :: bool
  pt_worker :: bool              \<comment> \<open>the worker thread is joinable\<close>

definition timer_stop :: "timer_state \<Rightarrow> timer_state" where
  "timer_stop t = t\<lparr>pt_stop_requested := True, pt_worker := False, pt_active := False,
     pt_armed := False, pt_interval_ns := 0\<rparr>"

text \<open>
  \<open>start\<close>: \<open>wake_valid\<close> and \<open>qpc\<close> are the handle and frequency found by the constructor,
  \<open>callback\<close> whether the argument is callable, \<open>spawned\<close> whether the thread constructor returned.
\<close>

definition timer_start :: "u32 \<Rightarrow> bool \<Rightarrow> bool \<Rightarrow> u64 \<Rightarrow> bool \<Rightarrow> timer_state \<Rightarrow> bool \<times> timer_state" where
  "timer_start interval_ms callback wake_valid qpc spawned t =
     (let t = timer_stop t
      in if interval_ms = 0 \<or> \<not> callback \<or> \<not> wake_valid \<or> qpc = 0 then (False, t)
         else
           let t = t\<lparr>pt_interval_ns := ucast interval_ms * kNsPerMs, pt_armed := True,
                     pt_stop_requested := False, pt_active := True\<rparr>
           in if spawned then (True, t\<lparr>pt_worker := True\<rparr>)
              else (False, t\<lparr>pt_active := False, pt_armed := False, pt_interval_ns := 0\<rparr>))"

text \<open>One turn of the worker's loop on a clock reading: sleep, or fire and move the deadline.\<close>

datatype timer_turn = TurnWait u32 | TurnFire u64

definition next_deadline :: "u64 \<Rightarrow> u64 \<Rightarrow> u64 \<Rightarrow> u64" where
  "next_deadline interval_ns deadline_ns after_callback_ns =
     (let deadline_ns = deadline_ns + interval_ns
      in if deadline_ns \<le> after_callback_ns
         then deadline_ns + ((after_callback_ns - deadline_ns) div interval_ns + 1) * interval_ns
         else deadline_ns)"

definition timer_turn :: "u64 \<Rightarrow> u64 \<Rightarrow> u64 \<Rightarrow> u64 \<Rightarrow> timer_turn" where
  "timer_turn interval_ns deadline_ns now_ns after_callback_ns =
     (if now_ns < deadline_ns then TurnWait (wait_milliseconds (deadline_ns - now_ns))
      else TurnFire (next_deadline interval_ns deadline_ns after_callback_ns))"

lemma unat_add_exact: "unat (a :: u64) + unat b < 2 ^ 64 \<Longrightarrow> unat (a + b) = unat a + unat b"
  by (simp add: unat_word_ariths)

lemma unat_mult_exact: "unat (a :: u64) * unat b < 2 ^ 64 \<Longrightarrow> unat (a * b) = unat a * unat b"
  by (simp add: unat_word_ariths)

lemma skipped_periods:
  assumes "0 < unat i" "unat x + unat (i :: u64) < 2 ^ 64"
  shows "unat ((x div i + 1) * i) = (unat x div unat i + 1) * unat i"
    and "unat x < (unat x div unat i + 1) * unat i" "(unat x div unat i + 1) * unat i \<le> unat x + unat i"
proof -
  let ?q = "unat x div unat i"
  have le: "?q * unat i \<le> unat x" by (simp add: div_times_less_eq_dividend)
  then show up: "(?q + 1) * unat i \<le> unat x + unat i" by (simp add: distrib_right)
  show "unat x < (?q + 1) * unat i"
    using assms(1) by (simp add: distrib_right) (metis add.commute dividend_less_div_times)
  have "?q \<le> unat x" using div_le_dividend by blast
  then have "?q + 1 < 2 ^ 64" using assms by linarith
  then have q: "unat (x div i + 1) = ?q + 1"
    using unat_add_exact [of "x div i" 1] by (simp add: unat_div)
  have "(?q + 1) * unat i < 2 ^ 64" using up assms(2) by linarith
  then show "unat ((x div i + 1) * i) = (?q + 1) * unat i"
    using unat_mult_exact [of "x div i + 1" i] by (simp only: q)
qed

section \<open>Properties\<close>

text \<open>
  After a callback, however late, the next deadline lies strictly in the
  future, on the grid of the old one (whole intervals later), and no more than one interval beyond
  the later of the clock and the old deadline: missed periods are skipped, never replayed, and the
  phase does not drift. The premises exclude the wrap of the 64-bit nanosecond clock.
\<close>

theorem timer_deadline_grid:
  assumes "0 < unat i" "unat d + unat i < 2 ^ 64" "unat now + unat i < 2 ^ 64"
  shows "unat now < unat (next_deadline i d now) \<and>
    (\<exists>k>0. unat (next_deadline i d now) = unat d + k * unat i) \<and>
    unat (next_deadline i d now) \<le> max (unat now) (unat d) + unat i"
proof -
  have d1: "unat (d + i) = unat d + unat i" by (rule unat_add_exact [OF assms(2)])
  show ?thesis
  proof (cases "d + i \<le> now")
    case False
    then have "next_deadline i d now = d + i" by (simp add: next_deadline_def)
    moreover have "unat now < unat d + unat i" using False d1 by (simp add: word_le_nat_alt not_le)
    moreover have "\<exists>k>0. unat d + unat i = unat d + k * unat i" by (rule exI [of _ 1]) simp
    ultimately show ?thesis using d1 by simp
  next
    case True
    let ?x = "now - (d + i)"
    have x: "unat ?x = unat now - (unat d + unat i)" "unat d + unat i \<le> unat now"
      using True d1 unat_sub [OF True] by (simp_all add: word_le_nat_alt)
    then have "unat ?x + unat i < 2 ^ 64" using assms(3) by linarith
    note sk = skipped_periods [OF assms(1) this]
    let ?q = "unat ?x div unat i"
    have eq: "next_deadline i d now = (d + i) + (?x div i + 1) * i"
      using True by (simp add: next_deadline_def Let_def)
    have "unat (next_deadline i d now) = unat d + unat i + (?q + 1) * unat i"
      unfolding eq using unat_add_exact [of "d + i" "(?x div i + 1) * i"] d1 sk x assms(3) by linarith
    moreover from this have "unat (next_deadline i d now) = unat d + (?q + 2) * unat i"
      by (simp add: algebra_simps)
    ultimately show ?thesis
      using sk(2,3) x by (intro conjI exI [of _ "?q + 2"]) auto
  qed
qed

theorem timer_deadline_grid_witness:
  "unat (next_deadline 10 100 137 :: u64) > 137"
proof -
  have "0 < unat (10 :: u64)" "unat (100 :: u64) + unat (10 :: u64) < 2 ^ 64"
    "unat (137 :: u64) + unat (10 :: u64) < 2 ^ 64" by simp_all
  from timer_deadline_grid [OF this] show ?thesis by simp
qed

text \<open>
  The sleep before a deadline is long enough: the rounded milliseconds cover the
  remaining nanoseconds unless they are clamped to the largest finite wait, overshoot by less than a
  millisecond, and never become the infinite wait.
\<close>

theorem timer_wait_covers:
  assumes "unat remaining + 999999 < 2 ^ 64"
  shows "wait_milliseconds remaining \<noteq> 0xFFFFFFFF \<and>
    (if unat remaining \<le> 0xFFFFFFFE * 1000000
     then unat remaining \<le> unat (wait_milliseconds remaining) * 1000000 \<and>
          unat (wait_milliseconds remaining) * 1000000 < unat remaining + 1000000
     else wait_milliseconds remaining = 0xFFFFFFFE)"
proof -
  define r where "r = (remaining + (kNsPerMs - 1)) div kNsPerMs"
  have r: "unat r = (unat remaining + 999999) div 1000000"
    using unat_add_exact [of remaining 999999] assms by (simp add: r_def unat_div)
  have w: "wait_milliseconds remaining = ucast (if r > 0xFFFFFFFE then 0xFFFFFFFE else r)"
    by (simp add: wait_milliseconds_def r_def Let_def)
  show ?thesis
  proof (cases "unat remaining \<le> 0xFFFFFFFE * 1000000")
    case True
    then have le: "unat r \<le> 0xFFFFFFFE" using r by simp
    then have "wait_milliseconds remaining = ucast r" using w by (simp add: word_less_nat_alt)
    moreover have u: "unat (ucast r :: u32) = unat r"
      using le by (simp add: unsigned_ucast_eq take_bit_nat_eq_self)
    moreover have "ucast r \<noteq> (0xFFFFFFFF :: u32)"
    proof
      assume "ucast r = (0xFFFFFFFF :: u32)"
      with u have "unat r = 0xFFFFFFFF" by simp
      with le show False by simp
    qed
    moreover have "n \<le> (n + 999999) div 1000000 * 1000000 \<and> (n + 999999) div 1000000 * 1000000 < n + 1000000"
      for n :: nat
      using div_mult_mod_eq [of "n + 999999" 1000000] mod_less_divisor [of 1000000 "n + 999999"] by linarith
    ultimately show ?thesis using True r by simp
  next
    case False
    then have ge: "unat r > 0xFFFFFFFE" using r by simp
    then have "wait_milliseconds remaining = 0xFFFFFFFE" using w by (simp add: word_less_nat_alt)
    then show ?thesis using False by simp
  qed
qed

theorem timer_wait_covers_witness: "wait_milliseconds 1000001 \<noteq> 0xFFFFFFFF"
proof -
  have "unat (1000001 :: u64) + 999999 < 2 ^ 64" by simp
  from timer_wait_covers [OF this] show ?thesis by blast
qed

end
