(* ===== verification/Core_Ctx.thy ===== *)
theory Core_Ctx
  imports Error_Ring Rx_Block_Lane Display_Lane Display_Format Thread_Health
begin

text \<open>
  \<open>CoreCtx\<close> of \<open>runtime/xcom_core.hpp\<close>: the state every component shares, the table of functions the
  runtime installs (\<open>DispatchSink\<close>), the wrappers around that table, and the loss-accounting helpers.
  An absent function pointer is \<open>None\<close>. Diagnostic records are collected in emission order in
  \<open>c_diag\<close>. The wake latch, the admission gate and the other 0/1 atomics are booleans.
\<close>

section \<open>Metrics and heartbeats\<close>

record metrics =
  m_rx_bytes :: u32
  m_rx_pool_exhausted_bytes :: u32
  m_rx_backpressure_events :: u32
  m_rx_file_block_events :: u32
  m_rx_file_blocked_ms :: u32
  m_rx_loss_offset :: u32
  m_rx_callback_oversize_bytes :: u32
  m_callback_count :: u32
  m_rx_seq :: u32
  m_display_pending :: u32
  m_display_seq :: u32
  m_ui_trimmed_bytes :: u32
  m_display_paused_bytes :: u32
  m_tx_bytes :: u32
  m_tx_rejected :: u32
  m_tx_rejected_overload :: u32
  m_auto_tick_coalesced :: u32
  m_save_rejected_bytes :: u32
  m_framing_errors :: u32
  m_parity_errors :: u32
  m_overrun_errors :: u32
  m_break_events :: u32
  m_flow_hold_events :: u32
  m_modem_lines :: u32

definition metrics_zero :: metrics where
  "metrics_zero = \<lparr>m_rx_bytes = 0, m_rx_pool_exhausted_bytes = 0, m_rx_backpressure_events = 0,
     m_rx_file_block_events = 0, m_rx_file_blocked_ms = 0, m_rx_loss_offset = 0,
     m_rx_callback_oversize_bytes = 0, m_callback_count = 0, m_rx_seq = 0, m_display_pending = 0,
     m_display_seq = 0, m_ui_trimmed_bytes = 0, m_display_paused_bytes = 0, m_tx_bytes = 0,
     m_tx_rejected = 0, m_tx_rejected_overload = 0, m_auto_tick_coalesced = 0,
     m_save_rejected_bytes = 0, m_framing_errors = 0, m_parity_errors = 0, m_overrun_errors = 0,
     m_break_events = 0, m_flow_hold_events = 0, m_modem_lines = 0\<rparr>"

record thread_heartbeats =
  hb_serial_read_ms :: u32
  hb_dispatcher_ms :: u32
  hb_log_writer_ms :: u32
  hb_dispatcher_parked :: bool
  hb_log_writer_parked :: bool
  hb_dispatcher_running :: bool
  hb_log_writer_running :: bool
  hb_dispatcher_parked_since_ms :: u32
  hb_serial_read_state :: liveness_state
  hb_dispatcher_state :: liveness_state
  hb_log_writer_state :: liveness_state
  hb_dispatcher_park_state :: park_watch_state

definition heartbeats_zero :: thread_heartbeats where
  "heartbeats_zero = \<lparr>hb_serial_read_ms = 0, hb_dispatcher_ms = 0, hb_log_writer_ms = 0,
     hb_dispatcher_parked = False, hb_log_writer_parked = False, hb_dispatcher_running = False,
     hb_log_writer_running = False, hb_dispatcher_parked_since_ms = 0,
     hb_serial_read_state = liveness_init, hb_dispatcher_state = liveness_init,
     hb_log_writer_state = liveness_init,
     hb_dispatcher_park_state = \<lparr>pw_reported = False, pw_episodes = 0\<rparr>\<rparr>"

section \<open>The shared context\<close>

datatype diag_event =
    DgOpenOk | DgOpenFail | DgCloseOk | DgFault | DgWriteFail | DgRxDrop | DgTxRejected | DgErrPushed
  | DgDiagTick | DgDiagStart | DgDiagRotate | DgLineError

fun diag_event_id :: "diag_event \<Rightarrow> u16" where
  "diag_event_id DgOpenOk = 1"
| "diag_event_id DgOpenFail = 2"
| "diag_event_id DgCloseOk = 3"
| "diag_event_id DgFault = 4"
| "diag_event_id DgWriteFail = 5"
| "diag_event_id DgRxDrop = 6"
| "diag_event_id DgTxRejected = 7"
| "diag_event_id DgErrPushed = 8"
| "diag_event_id DgDiagTick = 9"
| "diag_event_id DgDiagStart = 10"
| "diag_event_id DgDiagRotate = 11"
| "diag_event_id DgLineError = 12"

text \<open>Source, event and the four argument words of one diagnostic record.\<close>

type_synonym diag_record = "u16 \<times> diag_event \<times> u32 \<times> u32 \<times> u32 \<times> u32"

record port_config =
  cfg_baud :: u32
  cfg_data_bits :: u8
  cfg_stop_bits :: u8
  cfg_parity :: u8
  cfg_flow_control :: u8
  cfg_dtr_enable :: u8
  cfg_rts_enable :: u8

record core =
  c_rx :: rx_lane
  c_tx :: tx_pool
  c_display :: display_lane
  c_kick :: bool
  c_metrics :: metrics
  c_errors :: error_ring
  c_heartbeats :: thread_heartbeats
  c_hex_view :: u8
  c_timestamp :: u8
  c_pause_display :: u8
  c_text :: text_state
  c_autosend_armed :: bool
  c_autosend_next_tick_ns :: u64
  c_port_state :: port_state
  c_generation :: u32
  c_open_generation :: u32
  c_cancel_open :: bool
  c_fault_pending :: bool
  c_virtual_port :: bool
  c_port_name :: string
  c_cfg :: port_config
  c_callback_admission :: bool
  c_in_callback :: u32
  c_rx_backpressured :: bool
  c_last_open_result :: i32
  c_tx_fail_streak :: u32
  c_test_session :: bool
  c_diag :: "diag_record list"

definition text_state_init :: text_state where
  "text_state_init = \<lparr>ts_strip = 0, ts_line_start = True, ts_pending_cr = False\<rparr>"

definition core_init :: core where
  "core_init = \<lparr>c_rx = rx_lane_init, c_tx = tx_pool_init, c_display = display_lane_init, c_kick = False,
     c_metrics = metrics_zero, c_errors = error_ring_init, c_heartbeats = heartbeats_zero,
     c_hex_view = 0, c_timestamp = 0, c_pause_display = 0, c_text = text_state_init,
     c_autosend_armed = False, c_autosend_next_tick_ns = 0, c_port_state = PORT_CLOSED,
     c_generation = 0, c_open_generation = 0, c_cancel_open = False, c_fault_pending = False,
     c_virtual_port = False, c_port_name = [],
     c_cfg = \<lparr>cfg_baud = 0, cfg_data_bits = 8, cfg_stop_bits = 0, cfg_parity = 0, cfg_flow_control = 0,
       cfg_dtr_enable = 0, cfg_rts_enable = 0\<rparr>,
     c_callback_admission = True, c_in_callback = 0, c_rx_backpressured = False,
     c_last_open_result = XCOM_ERR_IO, c_tx_fail_streak = 0, c_test_session = False, c_diag = []\<rparr>"

lemma core_init_fields [simp]:
  "c_metrics core_init = metrics_zero" "c_rx core_init = rx_lane_init" "c_display core_init = display_lane_init"
  "c_errors core_init = error_ring_init" "c_port_state core_init = PORT_CLOSED" "c_tx core_init = tx_pool_init"
  "c_diag core_init = []" "c_generation core_init = 0" "c_pause_display core_init = 0"
  by (simp_all add: core_init_def)

lemma metrics_zero_fields [simp]:
  "m_rx_bytes metrics_zero = 0" "m_save_rejected_bytes metrics_zero = 0" "m_display_pending metrics_zero = 0"
  by (simp_all add: metrics_zero_def)

definition on_metrics :: "(metrics \<Rightarrow> metrics) \<Rightarrow> 'x core_scheme \<Rightarrow> 'x core_scheme" where
  [simp]: "on_metrics f c = c\<lparr>c_metrics := f (c_metrics c)\<rparr>"

definition push_error :: "i32 \<Rightarrow> u16 \<Rightarrow> string \<Rightarrow> 'x core_scheme \<Rightarrow> 'x core_scheme" where
  "push_error code source msg c = c\<lparr>c_errors := error_ring_push (c_errors c) code source msg\<rparr>"

text \<open>\<open>RxKickGate\<close>.\<close>

definition kick_try_arm :: "'x core_scheme \<Rightarrow> bool \<times> 'x core_scheme" where
  "kick_try_arm c = (if c_kick c then (False, c) else (True, c\<lparr>c_kick := True\<rparr>))"

definition kick_disarm :: "'x core_scheme \<Rightarrow> 'x core_scheme" where
  "kick_disarm c = c\<lparr>c_kick := False\<rparr>"

definition beat_dispatcher :: "u32 \<Rightarrow> 'x core_scheme \<Rightarrow> 'x core_scheme" where
  "beat_dispatcher now c = c\<lparr>c_heartbeats := (c_heartbeats c)\<lparr>hb_dispatcher_ms := now\<rparr>\<rparr>"

section \<open>The installed functions\<close>

record tx_descriptor =
  td_block :: u16
  td_length :: u16
  td_generation :: u32

record auto_template =
  at_block :: u16
  at_length :: u16
  at_interval_ms :: u32

datatype signal = SigRxKick | SigSend | SigAutosend | SigOpen | SigClose | SigOpenDone | SigCloseDone
  | SigAutosendConfig | SigFault | SigDiag | SigRxBlock

record 'c dispatch_sink =
  sk_submit_rx_kick :: "('c \<Rightarrow> bool \<times> 'c) option"
  sk_submit_control :: "(signal \<Rightarrow> u32 \<Rightarrow> bool \<Rightarrow> 'c \<Rightarrow> bool \<times> 'c) option"
  sk_submit_write :: "(tx_descriptor \<Rightarrow> 'c \<Rightarrow> i32 \<times> 'c) option"
  sk_submit_autosend_config :: "(auto_template \<Rightarrow> 'c \<Rightarrow> bool \<times> 'c) option"
  sk_enqueue_write :: "(u16 \<Rightarrow> u16 \<Rightarrow> u32 \<Rightarrow> bool \<Rightarrow> 'c \<Rightarrow> bool \<times> 'c) option"
  sk_owner_open :: "('c \<Rightarrow> 'c) option"
  sk_owner_close :: "('c \<Rightarrow> 'c) option"
  sk_owner_write :: "(u16 \<Rightarrow> u16 \<Rightarrow> 'c \<Rightarrow> i32 \<times> 'c) option"
  sk_owner_set_lines :: "(bool \<Rightarrow> bool \<Rightarrow> 'c \<Rightarrow> i32 \<times> 'c) option"
  sk_autosend_set :: "(u32 \<Rightarrow> 'c \<Rightarrow> 'c) option"
  sk_log_open :: "(string \<Rightarrow> bool \<Rightarrow> 'c \<Rightarrow> i32 \<times> 'c) option"
  sk_log_append :: "(u8 list option \<Rightarrow> u32 \<Rightarrow> 'c \<Rightarrow> i32 \<times> 'c) option"
  sk_log_flush :: "(u32 \<Rightarrow> 'c \<Rightarrow> i32 \<times> 'c) option"
  sk_log_close :: "(u32 \<Rightarrow> 'c \<Rightarrow> i32 \<times> 'c) option"
  sk_file_submit_atomic :: "(string \<Rightarrow> u8 list option \<Rightarrow> u32 \<Rightarrow> u64 \<Rightarrow> 'c \<Rightarrow> i32 \<times> 'c) option"
  sk_file_submit_atomic_borrowed :: "(string \<Rightarrow> u8 list option \<Rightarrow> u32 \<Rightarrow> u64 \<Rightarrow> 'c \<Rightarrow> i32 \<times> 'c) option"
  sk_file_stream_begin :: "(string \<Rightarrow> u64 \<Rightarrow> u64 \<Rightarrow> 'c \<Rightarrow> i32 \<times> 'c) option"
  sk_file_stream_append_borrowed :: "(u64 \<Rightarrow> u8 list option \<Rightarrow> u32 \<Rightarrow> u64 \<Rightarrow> 'c \<Rightarrow> i32 \<times> 'c) option"
  sk_file_stream_commit :: "(u64 \<Rightarrow> u64 \<Rightarrow> 'c \<Rightarrow> i32 \<times> 'c) option"
  sk_file_stream_abort :: "(u64 \<Rightarrow> u64 \<Rightarrow> 'c \<Rightarrow> i32 \<times> 'c) option"
  sk_file_take_completion :: "('c \<Rightarrow> (u64 \<times> i32) option \<times> i32 \<times> 'c) option"
  sk_diag_emit :: "(u16 \<Rightarrow> diag_event \<Rightarrow> u32 \<Rightarrow> u32 \<Rightarrow> u32 \<Rightarrow> u32 \<Rightarrow> 'c \<Rightarrow> 'c) option"

type_synonym 'x core_sink = "'x core_scheme dispatch_sink"

definition submit_rx_kick :: "'x core_sink \<Rightarrow> 'x core_scheme \<Rightarrow> bool \<times> 'x core_scheme" where
  "submit_rx_kick S c =
     (case sk_submit_rx_kick S of
        Some f \<Rightarrow> (case f c of (ok, c') \<Rightarrow> if ok then (True, c') else (False, kick_disarm c'))
      | None \<Rightarrow> (False, kick_disarm c))"

definition submit_control :: "'x core_sink \<Rightarrow> signal \<Rightarrow> u32 \<Rightarrow> bool \<Rightarrow> 'x core_scheme \<Rightarrow> bool \<times> 'x core_scheme" where
  "submit_control S sig word critical c =
     (case sk_submit_control S of Some f \<Rightarrow> f sig word critical c | None \<Rightarrow> (False, c))"

definition submit_write :: "'x core_sink \<Rightarrow> tx_descriptor \<Rightarrow> 'x core_scheme \<Rightarrow> i32 \<times> 'x core_scheme" where
  "submit_write S d c = (case sk_submit_write S of Some f \<Rightarrow> f d c | None \<Rightarrow> (XCOM_ERR_NOT_OPEN, c))"

definition submit_autosend_config :: "'x core_sink \<Rightarrow> auto_template \<Rightarrow> 'x core_scheme \<Rightarrow> bool \<times> 'x core_scheme" where
  "submit_autosend_config S d c = (case sk_submit_autosend_config S of Some f \<Rightarrow> f d c | None \<Rightarrow> (False, c))"

definition enqueue_write :: "'x core_sink \<Rightarrow> u16 \<Rightarrow> u16 \<Rightarrow> u32 \<Rightarrow> bool \<Rightarrow> 'x core_scheme \<Rightarrow> bool \<times> 'x core_scheme" where
  "enqueue_write S block len gen auto_send c =
     (case sk_enqueue_write S of Some f \<Rightarrow> f block len gen auto_send c | None \<Rightarrow> (False, c))"

definition resume_rx :: "'x core_scheme \<Rightarrow> 'x core_scheme" where
  "resume_rx c = c\<lparr>c_rx_backpressured := False\<rparr>"

definition core_diag_emit ::
  "'x core_sink \<Rightarrow> u16 \<Rightarrow> diag_event \<Rightarrow> u32 \<Rightarrow> u32 \<Rightarrow> u32 \<Rightarrow> u32 \<Rightarrow> 'x core_scheme \<Rightarrow> 'x core_scheme" where
  "core_diag_emit S source event a0 a1 a2 a3 c =
     (case sk_diag_emit S of Some f \<Rightarrow> f source event a0 a1 a2 a3 c | None \<Rightarrow> c)"

definition core_log_open :: "'x core_sink \<Rightarrow> string \<Rightarrow> bool \<Rightarrow> 'x core_scheme \<Rightarrow> i32 \<times> 'x core_scheme" where
  "core_log_open S path app c = (case sk_log_open S of Some f \<Rightarrow> f path app c | None \<Rightarrow> (XCOM_ERR_IO, c))"

definition core_log_append :: "'x core_sink \<Rightarrow> u8 list option \<Rightarrow> u32 \<Rightarrow> 'x core_scheme \<Rightarrow> i32 \<times> 'x core_scheme" where
  "core_log_append S data n c = (case sk_log_append S of Some f \<Rightarrow> f data n c | None \<Rightarrow> (XCOM_ERR_IO, c))"

definition core_log_flush :: "'x core_sink \<Rightarrow> u32 \<Rightarrow> 'x core_scheme \<Rightarrow> i32 \<times> 'x core_scheme" where
  "core_log_flush S timeout_ms c = (case sk_log_flush S of Some f \<Rightarrow> f timeout_ms c | None \<Rightarrow> (XCOM_ERR_IO, c))"

definition core_log_close :: "'x core_sink \<Rightarrow> u32 \<Rightarrow> 'x core_scheme \<Rightarrow> i32 \<times> 'x core_scheme" where
  "core_log_close S timeout_ms c = (case sk_log_close S of Some f \<Rightarrow> f timeout_ms c | None \<Rightarrow> (XCOM_ERR_IO, c))"

definition core_file_submit_atomic ::
  "'x core_sink \<Rightarrow> string \<Rightarrow> u8 list option \<Rightarrow> u32 \<Rightarrow> u64 \<Rightarrow> 'x core_scheme \<Rightarrow> i32 \<times> 'x core_scheme" where
  "core_file_submit_atomic S path data n request_id c =
     (case sk_file_submit_atomic S of Some f \<Rightarrow> f path data n request_id c | None \<Rightarrow> (XCOM_ERR_IO, c))"

definition core_file_submit_atomic_borrowed ::
  "'x core_sink \<Rightarrow> string \<Rightarrow> u8 list option \<Rightarrow> u32 \<Rightarrow> u64 \<Rightarrow> 'x core_scheme \<Rightarrow> i32 \<times> 'x core_scheme" where
  "core_file_submit_atomic_borrowed S path data n request_id c =
     (case sk_file_submit_atomic_borrowed S of Some f \<Rightarrow> f path data n request_id c | None \<Rightarrow> (XCOM_ERR_IO, c))"

definition core_file_stream_begin ::
  "'x core_sink \<Rightarrow> string \<Rightarrow> u64 \<Rightarrow> u64 \<Rightarrow> 'x core_scheme \<Rightarrow> i32 \<times> 'x core_scheme" where
  "core_file_stream_begin S path stream_id request_id c =
     (case sk_file_stream_begin S of Some f \<Rightarrow> f path stream_id request_id c | None \<Rightarrow> (XCOM_ERR_IO, c))"

definition core_file_stream_append_borrowed ::
  "'x core_sink \<Rightarrow> u64 \<Rightarrow> u8 list option \<Rightarrow> u32 \<Rightarrow> u64 \<Rightarrow> 'x core_scheme \<Rightarrow> i32 \<times> 'x core_scheme" where
  "core_file_stream_append_borrowed S stream_id data n request_id c =
     (case sk_file_stream_append_borrowed S of Some f \<Rightarrow> f stream_id data n request_id c | None \<Rightarrow> (XCOM_ERR_IO, c))"

definition core_file_stream_commit :: "'x core_sink \<Rightarrow> u64 \<Rightarrow> u64 \<Rightarrow> 'x core_scheme \<Rightarrow> i32 \<times> 'x core_scheme" where
  "core_file_stream_commit S stream_id request_id c =
     (case sk_file_stream_commit S of Some f \<Rightarrow> f stream_id request_id c | None \<Rightarrow> (XCOM_ERR_IO, c))"

definition core_file_stream_abort :: "'x core_sink \<Rightarrow> u64 \<Rightarrow> u64 \<Rightarrow> 'x core_scheme \<Rightarrow> i32 \<times> 'x core_scheme" where
  "core_file_stream_abort S stream_id request_id c =
     (case sk_file_stream_abort S of Some f \<Rightarrow> f stream_id request_id c | None \<Rightarrow> (XCOM_ERR_IO, c))"

definition core_file_take_completion ::
  "'x core_sink \<Rightarrow> 'x core_scheme \<Rightarrow> (u64 \<times> i32) option \<times> i32 \<times> 'x core_scheme" where
  "core_file_take_completion S c =
     (case sk_file_take_completion S of Some f \<Rightarrow> f c | None \<Rightarrow> (None, XCOM_ERR_IO, c))"

text \<open>The table before the runtime has installed anything.\<close>

definition quiet_sink :: "'x core_sink" where
  "quiet_sink = \<lparr>sk_submit_rx_kick = None, sk_submit_control = None, sk_submit_write = None,
     sk_submit_autosend_config = None, sk_enqueue_write = None, sk_owner_open = None,
     sk_owner_close = None, sk_owner_write = None, sk_owner_set_lines = None, sk_autosend_set = None,
     sk_log_open = None, sk_log_append = None, sk_log_flush = None, sk_log_close = None,
     sk_file_submit_atomic = None, sk_file_submit_atomic_borrowed = None, sk_file_stream_begin = None,
     sk_file_stream_append_borrowed = None, sk_file_stream_commit = None, sk_file_stream_abort = None,
     sk_file_take_completion = None, sk_diag_emit = None\<rparr>"

section \<open>Names and the loss ledger\<close>

definition sync_port_name :: "string option \<Rightarrow> 'x core_scheme \<Rightarrow> bool \<times> 'x core_scheme" where
  "sync_port_name name c =
     (case name of
        None \<Rightarrow> (True, c\<lparr>c_port_name := []\<rparr>)
      | Some input \<Rightarrow>
          if length input \<ge> 64 then (False, c\<lparr>c_port_name := []\<rparr>)
          else (True, c\<lparr>c_port_name := input\<rparr>))"

definition count_rejected_rx :: "u32 \<Rightarrow> 'x core_scheme \<Rightarrow> 'x core_scheme" where
  "count_rejected_rx n c =
     (if n = 0 then c
      else on_metrics (\<lambda>m. m\<lparr>m_save_rejected_bytes := m_save_rejected_bytes m + n,
                              m_rx_loss_offset := m_rx_bytes m\<rparr>) c)"

definition reset_display_committed :: "display_ring \<Rightarrow> 'x core_scheme \<Rightarrow> u32 \<times> 'x core_scheme" where
  "reset_display_committed R c =
     (case dl_reset R (c_display c) of (drained, unlogged, d) \<Rightarrow>
        let c1 = c\<lparr>c_display := d\<rparr>;
            c2 = (if drained \<noteq> 0
                  then on_metrics (\<lambda>m. m\<lparr>m_display_pending := m_display_pending m - drained\<rparr>) c1 else c1)
        in (drained, count_rejected_rx unlogged c2))"

definition count_deferred_display_loss :: "rx_ref \<Rightarrow> 'x core_scheme \<Rightarrow> u32 \<times> 'x core_scheme" where
  "count_deferred_display_loss deferred c =
     (if rr_len deferred AND kDisplayUnloggedBit = 0 then (0, c)
      else let bytes = ucast (rr_len deferred AND kFileBackedLenMask)
           in (bytes, count_rejected_rx bytes c))"

definition release_deferred_rx :: "rx_env \<Rightarrow> rx_ref option \<Rightarrow> 'x core_scheme \<Rightarrow> bool \<times> 'x core_scheme" where
  "release_deferred_rx E deferred c =
     (case deferred of
        None \<Rightarrow> (False, c)
      | Some d \<Rightarrow>
          let c1 = snd (count_deferred_display_loss d c)
          in (True, c1\<lparr>c_rx := rx_release E (rr_event d) (c_rx c1)\<rparr>))"

section \<open>The ledger conserves bytes\<close>

lemma count_rejected_rx_fields [simp]:
  "c_rx (count_rejected_rx n c) = c_rx c"
  "c_display (count_rejected_rx n c) = c_display c"
  "m_rx_bytes (c_metrics (count_rejected_rx n c)) = m_rx_bytes (c_metrics c)"
  "m_save_rejected_bytes (c_metrics (count_rejected_rx n c)) = m_save_rejected_bytes (c_metrics c) + n"
  "m_display_pending (c_metrics (count_rejected_rx n c)) = m_display_pending (c_metrics c)"
  "c_errors (count_rejected_rx n c) = c_errors c"
  "c_port_state (count_rejected_rx n c) = c_port_state c"
  "c_generation (count_rejected_rx n c) = c_generation c"
  "c_kick (count_rejected_rx n c) = c_kick c"
  by (simp_all add: count_rejected_rx_def)

text \<open>
  The session-boundary reset charges exactly the source bytes of
  the discarded batches that no file lane holds, lowers the pending count by the number of discarded
  batches, empties the ready ring and gives every buffer back exactly once.
\<close>

theorem session_reset_charges_loss:
  assumes "display_ring_ok R" "dl_inv held (c_display c)" "reset_display_committed R c = (drained, c')"
  shows "drained = of_nat (length (dl_ready (c_display c))) \<and> dl_inv held (c_display c') \<and>
    dl_ready (c_display c') = [] \<and>
    m_save_rejected_bytes (c_metrics c') =
      m_save_rejected_bytes (c_metrics c) + (\<Sum>d\<leftarrow>dl_ready (c_display c). dd_unlogged d) \<and>
    m_display_pending (c_metrics c') = m_display_pending (c_metrics c) - drained"
proof -
  obtain n u d where r: "dl_reset R (c_display c) = (n, u, d)" by (metis prod_cases3)
  note s = dl_reset_spec [OF assms(1,2) r]
  show ?thesis
    using assms(3) r s by (auto simp: reset_display_committed_def Let_def split: if_splits)
qed

theorem session_reset_charges_loss_witness:
  "m_save_rejected_bytes (c_metrics (snd (reset_display_committed display_ring_list core_init))) = 0"
proof -
  have "dl_inv {} (c_display core_init)" by (simp add: core_init_def dl_inv_init)
  from session_reset_charges_loss [OF display_ring_list_ok this surjective_pairing]
  show ?thesis by (simp add: core_init_def display_lane_init_def metrics_zero_def)
qed

text \<open>
  Giving up the receive AO's deferred block charges its bytes when
  and only when they have no file copy, drops exactly that reference, and is idempotent: a second
  call on the cleared slot changes nothing.
\<close>

theorem deferred_release_charges_once:
  assumes "rx_env_ok E" "rl_inv held (c_rx c)" "0 < held (rr_event d)" "rr_event d < kRxBlockCount"
    "release_deferred_rx E (Some d) c = (done, c')"
  shows "rl_inv (held(rr_event d := held (rr_event d) - 1)) (c_rx c') \<and>
    m_save_rejected_bytes (c_metrics c') = m_save_rejected_bytes (c_metrics c) +
      (if rr_len d AND kDisplayUnloggedBit = 0 then 0 else ucast (rr_len d AND kFileBackedLenMask)) \<and>
    release_deferred_rx E None c' = (False, c')"
proof -
  have "c_rx c' = rx_release E (rr_event d) (c_rx c)"
    using assms(5) by (auto simp: release_deferred_rx_def count_deferred_display_loss_def Let_def)
  then have "rl_inv (held(rr_event d := held (rr_event d) - 1)) (c_rx c')"
    using rx_release_spec [OF assms(1-4)] by simp
  then show ?thesis
    using assms(5) by (auto simp: release_deferred_rx_def count_deferred_display_loss_def Let_def)
qed

theorem deferred_release_charges_once_witness:
  "m_save_rejected_bytes (c_metrics (snd (release_deferred_rx rx_env_list
     (Some \<lparr>rr_event = 0, rr_len = 0x8005, rr_gen = 1, rr_ingress_ms = 0\<rparr>) (core_init\<lparr>c_rx := rx_lane_one\<rparr>)))) = 5"
proof -
  let ?c = "core_init\<lparr>c_rx := rx_lane_one\<rparr>" and ?d = "\<lparr>rr_event = 0, rr_len = 0x8005, rr_gen = 1, rr_ingress_ms = 0\<rparr>"
  have "rl_inv ((\<lambda>_. 0)(0 := 1)) (c_rx ?c)" "0 < ((\<lambda>_. 0 :: nat)(0 := 1)) (rr_event ?d)" "rr_event ?d < kRxBlockCount"
    using rl_inv_one by simp_all
  from deferred_release_charges_once [OF rx_env_list_ok this surjective_pairing]
  show ?thesis
    by (simp add: core_init_def metrics_zero_def kDisplayUnloggedBit_def kFileBackedLenMask_def)
qed

end
