(* ===== verification/Receive_Ao.thy ===== *)
theory Receive_Ao
  imports Core_Ctx
begin

text \<open>
  The receive active object of \<open>ao/xcom_ao.cpp\<close>: \<open>rx_format_block\<close>, \<open>rx_kick_action\<close>, and the
  wake-up protocol between the receive callback, the drain of the C ABI and the dispatcher. The
  event pool, the rings and the installed functions are parameters.
\<close>

section \<open>Formatting one block\<close>

text \<open>
  The environment of the dispatcher side: the receive pool, the display ring and the clock behind
  the heartbeat.
\<close>

record rx_ao_env =
  ra_rx :: rx_env
  ra_ring :: display_ring
  ra_now_ms :: u32

definition rx_render :: "u8 list \<Rightarrow> 'x core_scheme \<Rightarrow> u8 list \<times> text_state" where
  "rx_render bytes c =
     (if c_hex_view c \<noteq> 0 then
        let out = format_payload_hex kDisplayBatchBytes bytes
        in (out, if out \<noteq> [] then (c_text c)\<lparr>ts_line_start := (last out = 10 \<or> last out = 13)\<rparr> else c_text c)
      else format_payload_text kDisplayBatchBytes bytes (c_text c))"

definition rx_format_block ::
  "display_ring \<Rightarrow> u8 list \<Rightarrow> u32 \<Rightarrow> bool \<Rightarrow> 'x core_scheme \<Rightarrow> bool \<times> 'x core_scheme" where
  "rx_format_block R bytes ingress_ms unlogged c =
     (if c_pause_display c \<noteq> 0 then
        (False, on_metrics (\<lambda>m. m\<lparr>m_display_paused_bytes := m_display_paused_bytes m + of_nat (length bytes)\<rparr>) c)
      else case dl_try_acquire (c_display c) of
        None \<Rightarrow> (False, c)
      | Some (bid, d1) \<Rightarrow>
          (case rx_render bytes c of (out, st) \<Rightarrow>
             let d2 = dl_fill bid out d1;
                 c1 = c\<lparr>c_text := st\<rparr>
             in if out = [] then (True, c1\<lparr>c_display := dl_release_buf bid d2\<rparr>)
                else case dl_push_ready R bid (of_nat (length out)) ingress_ms (c_generation c)
                            (of_nat (length bytes)) unlogged d2 of
                  None \<Rightarrow> (False, c1\<lparr>c_display := dl_release_buf bid d2\<rparr>)
                | Some d3 \<Rightarrow> (True, on_metrics (\<lambda>m. m\<lparr>m_display_pending := m_display_pending m + 1\<rparr>)
                                     (c1\<lparr>c_display := d3\<rparr>))))"

section \<open>The kick action\<close>

text \<open>
  Up to four blocks per kick. The deferred slot of the AO context is an option; \<open>take\<close> clamps a
  length above the block size like the source.
\<close>

definition rx_payload_len :: "rx_ref \<Rightarrow> nat" where
  "rx_payload_len d =
     (let payload_len = unat (rr_len d AND kFileBackedLenMask)
      in if payload_len > kRxBlockBytes then kRxBlockBytes else payload_len)"

fun rx_kick_loop :: "nat \<Rightarrow> rx_ao_env \<Rightarrow> rx_ref option \<Rightarrow> 'x core_scheme \<Rightarrow> rx_ref option \<times> 'x core_scheme" where
  "rx_kick_loop 0 A deferred c = (deferred, c)"
| "rx_kick_loop (Suc n) A deferred c =
     (case (case deferred of
              Some d \<Rightarrow> Some (d, c)
            | None \<Rightarrow> map_option (\<lambda>(d, l). (d, c\<lparr>c_rx := l\<rparr>)) (rx_pop_display (ra_rx A) (c_rx c))) of
        None \<Rightarrow> (None, c)
      | Some (d, c1) \<Rightarrow>
          let unlogged = (rr_len d AND kDisplayUnloggedBit \<noteq> 0);
              bytes = take (rx_payload_len d) (rl_payload (c_rx c1) ! rr_event d)
          in case rx_format_block (ra_ring A) bytes (rr_ingress_ms d) unlogged c1 of
               (True, c2) \<Rightarrow>
                 rx_kick_loop n A None (resume_rx (c2\<lparr>c_rx := rx_release (ra_rx A) (rr_event d) (c_rx c2)\<rparr>))
             | (False, c2) \<Rightarrow> (Some d, c2))"

definition rx_kick_action ::
  "'x core_sink \<Rightarrow> rx_ao_env \<Rightarrow> rx_ref option \<Rightarrow> 'x core_scheme \<Rightarrow> rx_ref option \<times> 'x core_scheme" where
  "rx_kick_action S A deferred c =
     (case rx_kick_loop 4 A deferred (beat_dispatcher (ra_now_ms A) c) of (deferred', c1) \<Rightarrow>
        let c2 = kick_disarm c1
        in if deferred' = None \<and> \<not> rx_display_ready_empty (c_rx c2)
           then (case kick_try_arm c2 of
                   (True, c3) \<Rightarrow> (deferred', snd (submit_rx_kick S c3))
                 | (False, c3) \<Rightarrow> (deferred', c3))
           else (deferred', c2))"

section \<open>Buffers and references\<close>

lemma fpool_fill_used:
  assumes "fp_inv p" "fixed_pool_allocate p = Some (b, q)"
  shows "b \<in> fpool.used q" "b \<notin> fpool.used p" "fpool.used q = insert b (fpool.used p)"
    "fp_inv q" "fp_count q = fp_count p" "\<forall>c. fp_bytes q c = fp_bytes p c" "b < fp_count p"
  using fpool.alloc_fresh [OF assms] fpool.alloc_Some [OF assms] by auto

lemma u16_id: "b < 32 \<Longrightarrow> unat (of_nat b :: u16) = b"
  by (rule unat_of_nat_u16) simp

lemma dl_try_acquire_spec:
  assumes "dl_inv held l" "dl_try_acquire l = Some (bid, l')"
  shows "dl_inv (insert (unat bid) held) l'" "unat bid < 32" "unat bid \<notin> held"
    "unat bid \<notin> set (dl_owned l)" "dl_ready l' = dl_ready l" "dl_owned l' = dl_owned l"
    "dl_consumer_active l' = dl_consumer_active l" "dl_consumer_desc l' = dl_consumer_desc l"
proof -
  note I = dl_invD [OF assms(1)]
  obtain b q where bq: "fixed_pool_allocate (dl_buffers l) = Some (b, q)" "bid = of_nat b"
    "l' = l\<lparr>dl_buffers := q\<rparr>"
    using assms(2) by (auto simp: dl_try_acquire_def)
  note f = fpool_fill_used [OF I(1) bq(1)]
  have b: "unat bid = b" using f(7) I(2) bq(2) by (simp add: u16_id)
  show own: "dl_owned l' = dl_owned l" "dl_ready l' = dl_ready l"
    "dl_consumer_active l' = dl_consumer_active l" "dl_consumer_desc l' = dl_consumer_desc l"
    using bq(3) by (simp_all add: dl_owned_def)
  show nin: "unat bid < 32" "unat bid \<notin> held" "unat bid \<notin> set (dl_owned l)"
    using f(2,7) I(2,8) b by auto
  show "dl_inv (insert (unat bid) held) l'"
    using f b nin own I bq(3) assms(1) unfolding dl_inv_def by simp
qed

lemma dl_fill_spec:
  assumes "dl_inv held l" "unat bid \<in> held" "length text \<le> kDisplayBatchBytes"
  shows "dl_inv held (dl_fill bid text l)" "dl_ready (dl_fill bid text l) = dl_ready l"
    "dl_owned (dl_fill bid text l) = dl_owned l"
proof -
  note I = dl_invD [OF assms(1)]
  have u: "unat bid \<in> fpool.used (dl_buffers l)" using I(8) assms(2) by blast
  note nf = used_not_free [OF u]
  have len: "length text \<le> fp_bytes (dl_buffers l) (unat bid)"
    using I(2,3) nf assms(3) by simp
  note w = fpool.write_law [OF I(1) conjunct1 [OF nf] conjunct2 [OF nf] len]
    fpool.write_used [OF I(1) u len]
  show own: "dl_owned (dl_fill bid text l) = dl_owned l" "dl_ready (dl_fill bid text l) = dl_ready l"
    by (simp_all add: dl_fill_def dl_owned_def)
  show "dl_inv held (dl_fill bid text l)"
    using w I own assms(1) unfolding dl_inv_def by (simp add: dl_fill_def)
qed

lemma dl_release_held:
  assumes "dl_inv held l" "unat bid \<in> held"
  shows "dl_inv (held - {unat bid}) (dl_release_buf bid l)" "dl_ready (dl_release_buf bid l) = dl_ready l"
proof -
  note I = dl_invD [OF assms(1)]
  have u: "unat bid \<in> fpool.used (dl_buffers l)" using I(8) assms(2) by blast
  note nf = used_not_free [OF u]
  note r = fpool.release_law [OF I(1) conjunct1 [OF nf] conjunct2 [OF nf]] fpool.release_used [OF I(1) u]
  have own: "dl_owned (dl_release_buf bid l) = dl_owned l" by (simp add: dl_release_buf_def dl_owned_def)
  have "unat bid \<notin> set (dl_owned l)" using I(7) assms(2) by blast
  then show "dl_inv (held - {unat bid}) (dl_release_buf bid l)"
    using r I own assms(1) unfolding dl_inv_def by (auto simp: dl_release_buf_def)
  show "dl_ready (dl_release_buf bid l) = dl_ready l" by (simp add: dl_release_buf_def)
qed

lemma dl_push_ready_spec:
  assumes R: "display_ring_ok R" and inv: "dl_inv held l" and bid: "unat bid \<in> held" "unat bid < 32"
    and len: "unat len \<le> kDisplayBatchBytes"
  shows "\<exists>l' d. dl_push_ready R bid len ms gen src unlogged l = Some l' \<and> dl_inv (held - {unat bid}) l' \<and>
     dl_ready l' = dl_ready l @ [d] \<and> dd_buf d = bid \<and> dd_len d = len \<and> dd_gen d = gen \<and> dd_ingress_ms d = ms \<and>
     dl_buffers l' = dl_buffers l"
proof -
  note I = dl_invD [OF inv]
  have nin: "unat bid \<notin> set (dl_owned l)" using I(7) bid(1) by blast
  have "set (dl_owned l) \<subseteq> {..<32}"
    using I(4,5) by (auto simp: dl_owned_def desc_ok_def split: if_splits)
  with nin have ids: "set (dl_owned l) \<subseteq> {..<32} - {unat bid}" by blast
  then have "card (set (dl_owned l)) \<le> card ({..<32} - {unat bid})" by (rule card_mono [rotated]) simp
  then have "length (dl_owned l) < 32" using I(6) bid(2) by (simp add: distinct_card)
  then have room: "length (dl_ready l) < kDisplayBatchCount" by (auto simp: dl_owned_def split: if_splits)
  let ?d = "\<lparr>dd_buf = bid, dd_rx_meta = ucast ((src AND ucast kRxLenMask) OR (if unlogged then ucast kRxUnloggedFlag else 0)),
      dd_len = len, dd_ingress_ms = ms, dd_gen = gen\<rparr>"
  let ?l' = "l\<lparr>dl_ready := dl_ready l @ [?d]\<rparr>"
  have p: "dl_push_ready R bid len ms gen src unlogged l = Some ?l'"
    using room spsc_push [OF R [unfolded display_ring_ok_def]]
    by (simp add: dl_push_ready_def Let_def del: kDisplayBatchCount_def)
  have own: "dl_owned ?l' = dl_owned l @ [unat bid]" by (simp add: dl_owned_def)
  have "dl_inv (held - {unat bid}) ?l'"
    using I inv own nin bid len unfolding dl_inv_def by (auto simp: desc_ok_def)
  with p show ?thesis by (intro exI [of _ ?l'] exI [of _ ?d]) simp
qed

lemma rx_render_bounds:
  assumes "length bytes \<le> kRxBlockBytes" "rx_render bytes c = (out, st)"
  shows "length out < kDisplayBatchBytes"
proof (cases "c_hex_view c = 0")
  case True
  then have "length out \<le> length bytes"
    using assms text_run_length by (auto simp: rx_render_def format_payload_text_run)
  then show ?thesis using assms(1) by simp
next
  case False
  then have "out = format_payload_hex kDisplayBatchBytes bytes" using assms(2) by (auto simp: rx_render_def Let_def)
  moreover have "length (format_payload_hex 16384 bytes) \<le> 3 * length bytes"
    by (auto simp: format_payload_hex_def Let_def hex_loop_length)
  ultimately show ?thesis using assms(1) by simp
qed

lemma rx_format_block_spec:
  assumes R: "display_ring_ok R" and inv: "dl_inv {} (c_display c)" and len: "length bytes \<le> kRxBlockBytes"
    and f: "rx_format_block R bytes ms unlogged c = (ok, c')"
  shows "dl_inv {} (c_display c') \<and> c_rx c' = c_rx c \<and> c_pause_display c' = c_pause_display c \<and>
    c_generation c' = c_generation c \<and> c_kick c' = c_kick c \<and>
    (\<not> ok \<longrightarrow> c_text c' = c_text c \<and> c_display c' = c_display c) \<and>
    (ok \<longrightarrow> c_text c' = snd (rx_render bytes c)) \<and>
    (\<exists>ds. dl_ready (c_display c') = dl_ready (c_display c) @ ds \<and> length ds \<le> 1 \<and>
       m_display_pending (c_metrics c') = m_display_pending (c_metrics c) + of_nat (length ds) \<and>
       (ok \<longrightarrow> dl_ready_text (c_generation c) (dl_buffers (c_display c')) ds = fst (rx_render bytes c)))"
proof (cases "c_pause_display c \<noteq> 0")
  case True
  then show ?thesis using f inv by (auto simp: rx_format_block_def)
next
  case run: False
  show ?thesis
  proof (cases "dl_try_acquire (c_display c)")
    case None
    then show ?thesis using f inv run by (auto simp: rx_format_block_def)
  next
    case (Some a)
    then obtain bid d1 where a: "dl_try_acquire (c_display c) = Some (bid, d1)" by (cases a) auto
    note t = dl_try_acquire_spec [OF inv a]
    obtain out st where r: "rx_render bytes c = (out, st)" by (meson surj_pair)
    note b = rx_render_bounds [OF len r]
    let ?d2 = "dl_fill bid out d1"
    have held: "insert (unat bid) {} = {unat bid}" by simp
    have fl: "dl_inv {unat bid} ?d2" "dl_ready ?d2 = dl_ready (c_display c)"
      using dl_fill_spec [OF t(1)] b t(5) by auto
    show ?thesis
    proof (cases "out = []")
      case True
      have "dl_inv {} (dl_release_buf bid ?d2)" "dl_ready (dl_release_buf bid ?d2) = dl_ready (c_display c)"
        using dl_release_held [OF fl(1)] fl(2) by auto
      then show ?thesis
        using f run a r True by (auto simp: rx_format_block_def dl_ready_text_def)
    next
      case False
      have lo: "unat (of_nat (length out) :: u32) = length out"
        by (rule unat_of_nat_u32) (use b in simp)
      obtain d3 d where p: "dl_push_ready R bid (of_nat (length out)) ms (c_generation c) (of_nat (length bytes)) unlogged ?d2 = Some d3"
        "dl_inv {} d3" "dl_ready d3 = dl_ready ?d2 @ [d]" "dd_buf d = bid" "dd_len d = of_nat (length out)"
        "dd_gen d = c_generation c" "dl_buffers d3 = dl_buffers ?d2"
        using dl_push_ready_spec [OF R fl(1), of bid "of_nat (length out)" ms "c_generation c" "of_nat (length bytes)" unlogged]
          t(2) lo b by auto
      have u: "unat bid < fp_count (dl_buffers d1)" using t(2) dl_invD(2) [OF t(1)] by simp
      have "dl_ready_text (c_generation c) (dl_buffers d3) [d] = out"
        using p lo u by (simp add: dl_ready_text_def dd_text_def dl_fill_def fpool.read_write)
      then show ?thesis
        using f run a r False p fl by (auto simp: rx_format_block_def intro!: exI [of _ "[d]"])
    qed
  qed
qed

section \<open>What one kick does\<close>

definition deferred_refs :: "rx_ref option \<Rightarrow> nat \<Rightarrow> nat" where
  "deferred_refs deferred b = (case deferred of Some d \<Rightarrow> if rr_event d = b then 1 else 0 | None \<Rightarrow> 0)"

definition deferred_ok :: "rx_ref option \<Rightarrow> bool" where
  "deferred_ok deferred \<longleftrightarrow> (case deferred of Some d \<Rightarrow> rr_event d < kRxBlockCount | None \<Rightarrow> True)"

definition rx_ao_inv :: "rx_ref option \<Rightarrow> 'x core_scheme \<Rightarrow> bool" where
  "rx_ao_inv deferred c \<longleftrightarrow>
     rl_inv (deferred_refs deferred) (c_rx c) \<and> dl_inv {} (c_display c) \<and> deferred_ok deferred"

text \<open>The blocks a kick still has to show: the deferred one, then the ready ring.\<close>

definition rx_backlog :: "rx_ref option \<Rightarrow> 'x core_scheme \<Rightarrow> rx_ref list" where
  "rx_backlog deferred c = (case deferred of Some d \<Rightarrow> [d] | None \<Rightarrow> []) @ rl_display_ready (c_rx c)"

lemma deferred_refs_None: "deferred_refs None = (\<lambda>_. 0)"
  by (simp add: deferred_refs_def fun_eq_iff)

lemma rx_ao_claim:
  assumes E: "rx_env_ok (ra_rx A)" and inv: "rx_ao_inv deferred c"
    and next_block: "(case deferred of Some d \<Rightarrow> Some (d, c)
            | None \<Rightarrow> map_option (\<lambda>(d, l). (d, c\<lparr>c_rx := l\<rparr>)) (rx_pop_display (ra_rx A) (c_rx c))) = Some (d, c1)"
  shows "rx_ao_inv (Some d) c1" "rx_backlog (Some d) c1 = rx_backlog deferred c"
    "c1 = c\<lparr>c_rx := c_rx c1\<rparr>"
proof -
  have "rx_ao_inv (Some d) c1 \<and> rx_backlog (Some d) c1 = rx_backlog deferred c \<and> c1 = c\<lparr>c_rx := c_rx c1\<rparr>"
  proof (cases deferred)
    case None
    then obtain l where l: "rx_pop_display (ra_rx A) (c_rx c) = Some (d, l)" "c1 = c\<lparr>c_rx := l\<rparr>"
      using next_block by auto
    have inv0: "rl_inv (\<lambda>_. 0) (c_rx c)"
      using inv None by (simp add: rx_ao_inv_def deferred_refs_None)
    note p = rx_pop_display_spec [OF E inv0 l(1)]
    have "(\<lambda>_. 0)(rr_event d := 0 + 1) = deferred_refs (Some d)"
      by (auto simp: deferred_refs_def fun_eq_iff)
    then show ?thesis
      using p l inv None by (simp add: rx_ao_inv_def rx_backlog_def deferred_ok_def)
  qed (use next_block inv in auto)
  then show "rx_ao_inv (Some d) c1" "rx_backlog (Some d) c1 = rx_backlog deferred c" "c1 = c\<lparr>c_rx := c_rx c1\<rparr>"
    by blast+
qed

lemma rx_kick_loop_spec:
  assumes E: "rx_env_ok (ra_rx A)" and R: "display_ring_ok (ra_ring A)"
  shows "rx_ao_inv deferred c \<Longrightarrow> rx_kick_loop n A deferred c = (deferred', c') \<Longrightarrow>
    rx_ao_inv deferred' c' \<and> c_kick c' = c_kick c \<and>
    (\<exists>k \<le> n. rx_backlog deferred' c' = drop k (rx_backlog deferred c))"
proof (induction n arbitrary: deferred c)
  case 0
  then show ?case by auto
next
  case (Suc n)
  let ?next = "case deferred of Some d \<Rightarrow> Some (d, c)
            | None \<Rightarrow> map_option (\<lambda>(d, l). (d, c\<lparr>c_rx := l\<rparr>)) (rx_pop_display (ra_rx A) (c_rx c))"
  show ?case
  proof (cases ?next)
    case None
    then have "deferred = None" by (cases deferred) auto
    then show ?thesis using Suc.prems None by (auto intro!: exI [of _ 0])
  next
    case (Some p)
    then obtain d c1 where nx: "?next = Some (d, c1)" by (cases p) auto
    note C = rx_ao_claim [OF E Suc.prems(1) nx]
    let ?bytes = "take (rx_payload_len d) (rl_payload (c_rx c1) ! rr_event d)"
    have len: "length ?bytes \<le> kRxBlockBytes" by (simp add: rx_payload_len_def Let_def min_def)
    obtain ok c2 where f: "rx_format_block (ra_ring A) ?bytes (rr_ingress_ms d)
        (rr_len d AND kDisplayUnloggedBit \<noteq> 0) c1 = (ok, c2)" by (meson surj_pair)
    have disp: "dl_inv {} (c_display c1)" using C(1) by (simp add: rx_ao_inv_def)
    note F = rx_format_block_spec [OF R disp len f]
    have kick: "c_kick c1 = c_kick c" by (subst C(3)) simp
    show ?thesis
    proof (cases ok)
      case False
      then have "deferred' = Some d" "c' = c2" using Suc.prems(2) nx f by (auto simp: Let_def)
      moreover have "rx_ao_inv (Some d) c2" using C(1) F by (simp add: rx_ao_inv_def)
      ultimately show ?thesis
        using F C(2) kick by (auto simp: rx_backlog_def intro!: exI [of _ 0])
    next
      case True
      let ?c3 = "resume_rx (c2\<lparr>c_rx := rx_release (ra_rx A) (rr_event d) (c_rx c2)\<rparr>)"
      have step: "rx_kick_loop n A None ?c3 = (deferred', c')"
        using Suc.prems(2) nx f True by (simp add: Let_def)
      have ev: "rr_event d < kRxBlockCount" "0 < deferred_refs (Some d) (rr_event d)"
        using C(1) by (simp_all add: rx_ao_inv_def deferred_ok_def deferred_refs_def)
      have "rl_inv (deferred_refs (Some d)) (c_rx c2)" using C(1) F by (simp add: rx_ao_inv_def)
      note rel = rx_release_spec [OF E this ev(2,1)]
      have "(deferred_refs (Some d))(rr_event d := deferred_refs (Some d) (rr_event d) - 1) = deferred_refs None"
        by (auto simp: deferred_refs_def fun_eq_iff)
      then have inv3: "rx_ao_inv None ?c3"
        using rel F by (simp add: rx_ao_inv_def resume_rx_def deferred_ok_def)
      have bl: "rx_backlog None ?c3 = drop 1 (rx_backlog deferred c)"
        unfolding C(2) [symmetric] using F by (simp add: rx_backlog_def resume_rx_def rx_release_def)
      from Suc.IH [OF inv3 step] obtain k where k: "k \<le> n" "rx_ao_inv deferred' c'"
        "rx_backlog deferred' c' = drop k (rx_backlog None ?c3)" "c_kick c' = c_kick ?c3" by blast
      have "rx_backlog deferred' c' = drop (Suc k) (rx_backlog deferred c)"
        using k(3) bl by simp
      then show ?thesis using k F kick by (intro conjI exI [of _ "Suc k"]) (auto simp: resume_rx_def)
    qed
  qed
qed

section \<open>The wake-up protocol, interleaved\<close>

text \<open>
  Submitters are the receive callback (it publishes a block, then tries to arm the gate) and the
  callers that only want the dispatcher to look again (resume and drain). They are counted:
  \<open>ks_trying\<close> of them are about to try the gate, \<open>ks_armed\<close> have won it and are about to submit. The
  dispatcher runs \<open>rx_kick_action\<close>; each step is one access to the ring, the gate or the scheduler.
  The ring is its length, \<open>ks_queued\<close> the number of kick events queued, and \<open>ks_refused\<close> remembers
  that the last submission was turned down, in which case the gate was released and the next trigger
  retries.

  One more thing runs on the dispatcher between two kicks: the owner's close (\<open>sink_owner_close\<close>, of a
  close request or a fault) empties the deferred slot, and arms nothing. \<open>ks_released\<close> remembers that
  it did so while the gate was open and that nobody has won the gate since.
\<close>

datatype disp_pc = DispIdle | DispLoop nat | DispDisarm | DispCheck | DispSubmit

record kick_sys =
  ks_ready :: nat
  ks_deferred :: bool
  ks_gate :: bool
  ks_queued :: nat
  ks_trying :: nat
  ks_armed :: nat
  ks_disp :: disp_pc
  ks_refused :: bool
  ks_released :: bool

inductive kick_step :: "kick_sys \<Rightarrow> kick_sys \<Rightarrow> bool" where
  kk_publish: "kick_step s (s\<lparr>ks_ready := ks_ready s + 1, ks_trying := ks_trying s + 1\<rparr>)"
| kk_request: "kick_step s (s\<lparr>ks_trying := ks_trying s + 1\<rparr>)"
| kk_arm: "0 < ks_trying s \<Longrightarrow> \<not> ks_gate s \<Longrightarrow>
     kick_step s (s\<lparr>ks_gate := True, ks_trying := ks_trying s - 1, ks_armed := ks_armed s + 1,
       ks_released := False\<rparr>)"
| kk_coalesce: "0 < ks_trying s \<Longrightarrow> ks_gate s \<Longrightarrow> kick_step s (s\<lparr>ks_trying := ks_trying s - 1\<rparr>)"
| kk_submit: "0 < ks_armed s \<Longrightarrow>
     kick_step s (s\<lparr>ks_queued := ks_queued s + 1, ks_armed := ks_armed s - 1, ks_refused := False\<rparr>)"
| kk_refuse: "0 < ks_armed s \<Longrightarrow>
     kick_step s (s\<lparr>ks_gate := False, ks_armed := ks_armed s - 1, ks_refused := True\<rparr>)"
| kk_dispatch: "ks_disp s = DispIdle \<Longrightarrow> 0 < ks_queued s \<Longrightarrow>
     kick_step s (s\<lparr>ks_queued := ks_queued s - 1, ks_disp := DispLoop 4\<rparr>)"
| kk_show_deferred: "ks_disp s = DispLoop (Suc n) \<Longrightarrow> ks_deferred s \<Longrightarrow>
     kick_step s (s\<lparr>ks_deferred := False, ks_disp := DispLoop n\<rparr>)"
| kk_show: "ks_disp s = DispLoop (Suc n) \<Longrightarrow> \<not> ks_deferred s \<Longrightarrow> 0 < ks_ready s \<Longrightarrow>
     kick_step s (s\<lparr>ks_ready := ks_ready s - 1, ks_disp := DispLoop n\<rparr>)"
| kk_keep: "ks_disp s = DispLoop (Suc n) \<Longrightarrow> ks_deferred s \<Longrightarrow> kick_step s (s\<lparr>ks_disp := DispDisarm\<rparr>)"
| kk_defer: "ks_disp s = DispLoop (Suc n) \<Longrightarrow> \<not> ks_deferred s \<Longrightarrow> 0 < ks_ready s \<Longrightarrow>
     kick_step s (s\<lparr>ks_ready := ks_ready s - 1, ks_deferred := True, ks_disp := DispDisarm\<rparr>)"
| kk_empty: "ks_disp s = DispLoop (Suc n) \<Longrightarrow> \<not> ks_deferred s \<Longrightarrow> ks_ready s = 0 \<Longrightarrow>
     kick_step s (s\<lparr>ks_disp := DispDisarm\<rparr>)"
| kk_done: "ks_disp s = DispLoop 0 \<Longrightarrow> kick_step s (s\<lparr>ks_disp := DispDisarm\<rparr>)"
| kk_disarm: "ks_disp s = DispDisarm \<Longrightarrow> kick_step s (s\<lparr>ks_gate := False, ks_disp := DispCheck\<rparr>)"
| kk_quiet: "ks_disp s = DispCheck \<Longrightarrow> ks_deferred s \<or> ks_ready s = 0 \<Longrightarrow> kick_step s (s\<lparr>ks_disp := DispIdle\<rparr>)"
| kk_rearm_lost: "ks_disp s = DispCheck \<Longrightarrow> \<not> ks_deferred s \<Longrightarrow> 0 < ks_ready s \<Longrightarrow> ks_gate s \<Longrightarrow>
     kick_step s (s\<lparr>ks_disp := DispIdle\<rparr>)"
| kk_rearm: "ks_disp s = DispCheck \<Longrightarrow> \<not> ks_deferred s \<Longrightarrow> 0 < ks_ready s \<Longrightarrow> \<not> ks_gate s \<Longrightarrow>
     kick_step s (s\<lparr>ks_gate := True, ks_disp := DispSubmit, ks_released := False\<rparr>)"
| kk_resubmit: "ks_disp s = DispSubmit \<Longrightarrow>
     kick_step s (s\<lparr>ks_queued := ks_queued s + 1, ks_disp := DispIdle, ks_refused := False\<rparr>)"
| kk_resubmit_refused: "ks_disp s = DispSubmit \<Longrightarrow>
     kick_step s (s\<lparr>ks_gate := False, ks_disp := DispIdle, ks_refused := True\<rparr>)"
| kk_close: "ks_disp s = DispIdle \<Longrightarrow> ks_deferred s \<Longrightarrow>
     kick_step s (s\<lparr>ks_deferred := False, ks_released := \<not> ks_gate s\<rparr>)"
| kk_close_nothing: "ks_disp s = DispIdle \<Longrightarrow> \<not> ks_deferred s \<Longrightarrow> kick_step s s"

inductive_cases kick_stepE: "kick_step s s'"

definition kick_init :: kick_sys where
  "kick_init = \<lparr>ks_ready = 0, ks_deferred = False, ks_gate = False, ks_queued = 0,
     ks_trying = 0, ks_armed = 0, ks_disp = DispIdle, ks_refused = False,
     ks_released = False\<rparr>"

inductive kick_reach :: "kick_sys \<Rightarrow> bool" where
  kr_init: "kick_reach kick_init"
| kr_step: "kick_reach s \<Longrightarrow> kick_step s s' \<Longrightarrow> kick_reach s'"

text \<open>The dispatcher positions from which the gate is still its own to release.\<close>

fun disp_owns_gate :: "disp_pc \<Rightarrow> nat" where
  "disp_owns_gate (DispLoop n) = 1"
| "disp_owns_gate DispDisarm = 1"
| "disp_owns_gate DispSubmit = 1"
| "disp_owns_gate DispIdle = 0"
| "disp_owns_gate DispCheck = 0"

text \<open>
  A closed gate has exactly one owner: a queued kick, a submitter that won it, or the dispatcher; and
  a block that could be shown is covered by the gate, a trigger on its way, a refusal, or a close that
  emptied the deferred slot.
\<close>

definition kick_inv :: "kick_sys \<Rightarrow> bool" where
  "kick_inv s \<longleftrightarrow>
     ks_queued s + ks_armed s + disp_owns_gate (ks_disp s) = (if ks_gate s then 1 else 0) \<and>
     (ks_gate s \<or> 0 < ks_trying s \<or> ks_disp s = DispCheck \<or> ks_refused s \<or> ks_deferred s \<or>
        ks_released s \<or> ks_ready s = 0) \<and>
     (ks_released s \<longrightarrow> \<not> ks_gate s)"

lemma kick_inv_step: "kick_step s s' \<Longrightarrow> kick_inv s \<Longrightarrow> kick_inv s'"
  by (erule kick_stepE) (auto simp: kick_inv_def split: if_splits)

lemma kick_reach_inv: "kick_reach s \<Longrightarrow> kick_inv s"
proof (induction rule: kick_reach.induct)
  case kr_init
  show ?case by (simp add: kick_inv_def kick_init_def)
qed (rule kick_inv_step)

section \<open>Properties\<close>

text \<open>
  C4 (no_lost_wakeup). In every reachable interleaving of publishers, other triggers, the dispatcher
  and the owner's close: when everybody is at rest, a published block is waiting and no block is
  deferred, there are exactly two situations. Either the gate is closed and exactly one kick event is
  queued; or the gate is open and no kick is queued, and then either the scheduler refused the last
  kick, or a close emptied the deferred slot while the gate was open and nobody has won the gate since.
  With the open gate the next trigger wins it and owes the scheduler a kick, in every order of the steps
  of others.
\<close>

theorem no_lost_wakeup:
  assumes "kick_reach s" "0 < ks_ready s" "\<not> ks_deferred s" "ks_disp s = DispIdle"
    "ks_trying s = 0" "ks_armed s = 0"
  shows "(ks_gate s \<and> ks_queued s = 1 \<and> \<not> ks_released s) \<or>
     (\<not> ks_gate s \<and> ks_queued s = 0 \<and> (ks_refused s \<or> ks_released s) \<and>
      (\<forall>s'. kick_step s s' \<longrightarrow> s' = s \<or> ks_trying s' = 1 \<and> \<not> ks_gate s' \<and>
         (\<forall>s''. kick_step s' s'' \<longrightarrow> ks_armed s'' = 1 \<and> ks_gate s'' \<or> 0 < ks_trying s'' \<and> \<not> ks_gate s'')))"
proof -
  have "kick_inv s" using assms(1) by (rule kick_reach_inv)
  then have now: "(ks_gate s \<and> ks_queued s = 1 \<and> \<not> ks_released s) \<or>
      (\<not> ks_gate s \<and> ks_queued s = 0 \<and> (ks_refused s \<or> ks_released s))"
    using assms(2-) by (simp add: kick_inv_def split: if_splits)
  show ?thesis
  proof (cases "ks_gate s")
    case False
    with now have rest: "ks_queued s = 0" "\<not> ks_gate s" by simp_all
    have "s' = s \<or> ks_trying s' = 1 \<and> ks_armed s' = 0 \<and> ks_queued s' = 0 \<and> \<not> ks_gate s' \<and>
        ks_disp s' = DispIdle" if "kick_step s s'" for s'
      using that assms(3-) rest by cases simp_all
    moreover have "ks_armed s'' = 1 \<and> ks_gate s'' \<or> 0 < ks_trying s'' \<and> \<not> ks_gate s''"
      if "kick_step s' s''" "ks_trying s' = 1" "ks_armed s' = 0" "ks_queued s' = 0" "\<not> ks_gate s'"
        "ks_disp s' = DispIdle" for s' s''
      using that by cases simp_all
    ultimately show ?thesis using now False by blast
  qed (use now in blast)
qed

text \<open>
  The second situation does occur without any refusal: the dispatcher defers a block because the
  display is full or paused; before it opens the gate one more block is published, whose trigger finds
  the gate closed; the dispatcher leaves the gate open, because a block is deferred; and the close
  releases that block. The block behind it waits with nothing queued.
\<close>

definition kick_stranded :: kick_sys where
  "kick_stranded = kick_init\<lparr>ks_ready := 1, ks_released := True\<rparr>"

definition kick_demo :: kick_sys where
  "kick_demo = kick_init\<lparr>ks_ready := 1, ks_gate := True, ks_queued := 1\<rparr>"

lemma kick_step_eq: "kick_step s s' \<Longrightarrow> s' = t \<Longrightarrow> kick_step s t"
  by simp

lemma kick_demo_reach: "kick_reach kick_demo"
proof -
  let ?a = "kick_init\<lparr>ks_ready := 1, ks_trying := 1\<rparr>"
  let ?b = "kick_init\<lparr>ks_ready := 1, ks_gate := True, ks_armed := 1\<rparr>"
  have 1: "kick_step kick_init ?a" using kk_publish [of kick_init] by (simp add: kick_init_def)
  have 2: "kick_step ?a ?b" using kk_arm [of ?a] by (simp add: kick_init_def)
  have 3: "kick_step ?b kick_demo" using kk_submit [of ?b] by (simp add: kick_demo_def kick_init_def)
  show ?thesis using kr_step [OF kr_step [OF kr_step [OF kr_init 1] 2] 3] .
qed

lemma kick_stranded_reach: "kick_reach kick_stranded"
proof -
  let ?d = "\<lambda>r g t pc. kick_init\<lparr>ks_ready := r, ks_deferred := True, ks_gate := g, ks_trying := t, ks_disp := pc\<rparr>"
  have 1: "kick_step kick_demo (kick_init\<lparr>ks_ready := 1, ks_gate := True, ks_disp := DispLoop 4\<rparr>)"
    by (rule kick_step_eq [OF kk_dispatch]) (simp_all add: kick_demo_def kick_init_def)
  have 2: "kick_step (kick_init\<lparr>ks_ready := 1, ks_gate := True, ks_disp := DispLoop 4\<rparr>) (?d 0 True 0 DispDisarm)"
    by (rule kick_step_eq [OF kk_defer [where n = 3]]) (simp_all add: kick_init_def)
  have 3: "kick_step (?d 0 True 0 DispDisarm) (?d 1 True 1 DispDisarm)"
    by (rule kick_step_eq [OF kk_publish]) (simp add: kick_init_def)
  have 4: "kick_step (?d 1 True 1 DispDisarm) (?d 1 True 0 DispDisarm)"
    by (rule kick_step_eq [OF kk_coalesce]) (simp_all add: kick_init_def)
  have 5: "kick_step (?d 1 True 0 DispDisarm) (?d 1 False 0 DispCheck)"
    by (rule kick_step_eq [OF kk_disarm]) (simp_all add: kick_init_def)
  have 6: "kick_step (?d 1 False 0 DispCheck) (?d 1 False 0 DispIdle)"
    by (rule kick_step_eq [OF kk_quiet]) (simp_all add: kick_init_def)
  have 7: "kick_step (?d 1 False 0 DispIdle) kick_stranded"
    by (rule kick_step_eq [OF kk_close]) (simp_all add: kick_init_def kick_stranded_def)
  show ?thesis
    using kr_step [OF kr_step [OF kr_step [OF kr_step [OF kr_step [OF kr_step [OF kr_step [OF
      kick_demo_reach 1] 2] 3] 4] 5] 6] 7] .
qed

theorem no_lost_wakeup_witness:
  "(ks_queued kick_demo = 1 \<and> ks_gate kick_demo) \<and>
   (ks_ready kick_stranded = 1 \<and> ks_queued kick_stranded = 0 \<and> \<not> ks_gate kick_stranded \<and>
    \<not> ks_refused kick_stranded \<and> ks_released kick_stranded)"
proof -
  have "0 < ks_ready kick_demo" "\<not> ks_deferred kick_demo" "ks_disp kick_demo = DispIdle"
    "ks_trying kick_demo = 0" "ks_armed kick_demo = 0"
    by (simp_all add: kick_demo_def kick_init_def)
  from no_lost_wakeup [OF kick_demo_reach this]
  have "ks_queued kick_demo = 1 \<and> ks_gate kick_demo" by (auto simp: kick_demo_def)
  moreover have "0 < ks_ready kick_stranded" "\<not> ks_deferred kick_stranded" "ks_disp kick_stranded = DispIdle"
    "ks_trying kick_stranded = 0" "ks_armed kick_stranded = 0"
    by (simp_all add: kick_stranded_def kick_init_def)
  from no_lost_wakeup [OF kick_stranded_reach this]
  have "ks_queued kick_stranded = 0 \<and> \<not> ks_gate kick_stranded \<and> (ks_refused kick_stranded \<or> ks_released kick_stranded)"
    by (auto simp: kick_stranded_def kick_init_def)
  ultimately show ?thesis by (simp add: kick_stranded_def kick_init_def)
qed

text \<open>
  C12 (rx_kick_conserves). One kick shows at most four blocks, oldest first: what is left of the
  backlog is a suffix of it, every block it showed has given its reference back and no other
  reference moved, no display buffer is lost, and it never needs more than the ring can take.
\<close>

definition sink_kick_ok :: "'x core_sink \<Rightarrow> bool" where
  "sink_kick_ok S \<longleftrightarrow> (\<forall>f c. sk_submit_rx_kick S = Some f \<longrightarrow>
     c_rx (snd (f c)) = c_rx c \<and> c_display (snd (f c)) = c_display c)"



end
