(* ===== verification/Rx_Ingress.thy ===== *)
theory Rx_Ingress
  imports Core_Ctx
begin

text \<open>
  Receive ingress of \<open>runtime/xcom_core.cpp\<close>: \<open>rx_ingress\<close>, \<open>line_status_ingress\<close> and the read
  callback in front of them. The reader may sleep for a free block; what the other threads do to the
  context during each sleep is the argument \<open>wakes\<close>, and a run that is still asleep when it is
  exhausted has the value \<open>InBlocked\<close>.
\<close>

section \<open>Ingress of received bytes\<close>

text \<open>The collaborators: the receive pool, the clock, and the log writer's lease operations.\<close>

record 'c ingress_env =
  ie_rx :: rx_env
  ie_now_ms :: u32
  ie_elapsed_ms :: u32
  ie_acquire_lease :: "'c \<Rightarrow> bool \<times> 'c"
  ie_release_lease :: "'c \<Rightarrow> 'c"
  ie_wake_rx :: "'c \<Rightarrow> 'c"

datatype rx_ingress_result = AllAccepted | PartialAccepted

text \<open>
  How the segment loop ends: with the bytes that were not taken, the display backlog, the bytes
  without an owner and whether the reader slept; asleep; or in a failed assertion.
\<close>

datatype 'c ingress_end =
    InDone 'c "u8 list" u32 u32 bool
  | InBlocked 'c
  | InAssert

definition rx_note_stall :: "'x core_scheme \<Rightarrow> 'x core_scheme" where
  "rx_note_stall c =
     (let c1 = on_metrics (\<lambda>m. m\<lparr>m_rx_file_block_events := m_rx_file_block_events m + 1\<rparr>) c;
          c2 = (if \<not> c_rx_backpressured c1
                then on_metrics (\<lambda>m. m\<lparr>m_rx_backpressure_events := m_rx_backpressure_events m + 1\<rparr>) c1 else c1)
      in push_error XCOM_ERR_IO 0 ''storage stalled: RX file lane full'' (c2\<lparr>c_rx_backpressured := True\<rparr>))"

definition rx_segment_ref :: "u32 \<Rightarrow> nat \<Rightarrow> nat \<Rightarrow> 'x core_scheme \<Rightarrow> rx_ref" where
  "rx_segment_ref now ev n c = \<lparr>rr_event = ev, rr_len = of_nat n, rr_gen = ucast (c_generation c), rr_ingress_ms = now\<rparr>"

function rx_ingress_loop ::
  "('x core_scheme) ingress_env \<Rightarrow> bool \<Rightarrow> ('x core_scheme \<Rightarrow> 'x core_scheme) list \<Rightarrow> u8 list \<Rightarrow>
   u32 \<Rightarrow> u32 \<Rightarrow> bool \<Rightarrow> 'x core_scheme \<Rightarrow> ('x core_scheme) ingress_end" where
  "rx_ingress_loop I file_lane wakes p backlog unowned episode c =
     (if p = [] then InDone c [] backlog unowned episode
      else case rx_try_alloc (ie_rx I) file_lane (c_rx c) of
        None \<Rightarrow>
          if file_lane then
            let c1 = (if \<not> episode then rx_note_stall c else c)
            in if \<not> c_callback_admission c1 \<or> c_port_state c1 \<noteq> PORT_OPEN
               then InDone c1 p backlog (unowned + of_nat (length p)) True
               else (case wakes of
                       [] \<Rightarrow> InBlocked c1
                     | w # ws \<Rightarrow> rx_ingress_loop I file_lane ws p backlog unowned True (w c1))
          else InDone c p backlog (unowned + of_nat (length p)) episode
      | Some (ev, display_ok, l1) \<Rightarrow>
          let n = (if length p > kRxBlockBytes then kRxBlockBytes else length p);
              c1 = on_metrics (\<lambda>m. m\<lparr>m_rx_seq := m_rx_seq m + 1\<rparr>) c
          in case rx_publish (ie_rx I) (rx_segment_ref (ie_now_ms I) ev n c) file_lane display_ok
                    (rx_copy_in ev (take n p) l1) of
               None \<Rightarrow> InAssert
             | Some (shown, l2) \<Rightarrow>
                 let c2 = c1\<lparr>c_rx := l2\<rparr>;
                     c3 = (if file_lane then ie_wake_rx I c2 else c2);
                     c4 = on_metrics (\<lambda>m. m\<lparr>m_rx_bytes := m_rx_bytes m + of_nat n\<rparr>) c3
                 in rx_ingress_loop I file_lane wakes (drop n p)
                      (if shown then backlog else backlog + of_nat n) unowned episode c4)"
  by auto
termination
  by (relation "measure (\<lambda>(I, f, wakes, p, b, u, e, c). length wakes + length p)") (auto split: if_splits)

declare rx_ingress_loop.simps [simp del]

definition rx_ingress_reject :: "'x core_sink \<Rightarrow> u32 \<Rightarrow> 'x core_scheme \<Rightarrow> 'x core_scheme" where
  "rx_ingress_reject S n c =
     (let c1 = count_rejected_rx n c
      in core_diag_emit S 0 DgRxDrop n (m_save_rejected_bytes (c_metrics c1)) 0 0 c1)"

text \<open>The accounting after the loop; \<open>rest\<close> are the bytes that were not taken.\<close>

definition rx_ingress_account ::
  "'x core_sink \<Rightarrow> ('x core_scheme) ingress_env \<Rightarrow> bool \<Rightarrow> nat \<Rightarrow> u8 list \<Rightarrow> u32 \<Rightarrow> u32 \<Rightarrow> bool \<Rightarrow>
   'x core_scheme \<Rightarrow> rx_ingress_result \<times> 'x core_scheme" where
  "rx_ingress_account S I file_lane nbytes rest backlog unowned episode c =
     (let c1 = (if episode
                then on_metrics (\<lambda>m. m\<lparr>m_rx_file_blocked_ms := m_rx_file_blocked_ms m + ie_elapsed_ms I\<rparr>) c else c);
          accepted = nbytes - length rest;
          c2 = (if backlog \<noteq> 0
                then let c' = on_metrics (\<lambda>m. m\<lparr>m_rx_pool_exhausted_bytes := m_rx_pool_exhausted_bytes m + backlog,
                                                m_rx_loss_offset := m_rx_bytes m\<rparr>) c1
                     in core_diag_emit S 0 DgRxDrop backlog (m_rx_pool_exhausted_bytes (c_metrics c')) 0 0 c'
                else c1);
          c3 = (if unowned \<noteq> 0 then rx_ingress_reject S unowned c2 else c2);
          c4 = (if accepted \<noteq> 0
                then (case kick_try_arm c3 of (True, c') \<Rightarrow> snd (submit_rx_kick S c') | (False, c') \<Rightarrow> c')
                else c3);
          c5 = (if file_lane then ie_release_lease I c4 else c4)
      in (if rest = [] then AllAccepted else PartialAccepted, c5))"

datatype 'c ingress_outcome = Returned rx_ingress_result 'c | Waiting 'c | Asserted

definition rx_ingress ::
  "'x core_sink \<Rightarrow> ('x core_scheme) ingress_env \<Rightarrow> ('x core_scheme \<Rightarrow> 'x core_scheme) list \<Rightarrow> u8 list \<Rightarrow>
   'x core_scheme \<Rightarrow> ('x core_scheme) ingress_outcome" where
  "rx_ingress S I wakes data c =
     (if data = [] then Returned AllAccepted c
      else if c_port_state c \<noteq> PORT_OPEN then
        Returned PartialAccepted (rx_ingress_reject S (of_nat (length data)) c)
      else
        let c1 = on_metrics (\<lambda>m. m\<lparr>m_callback_count := m_callback_count m + 1\<rparr>) c
        in case ie_acquire_lease I c1 of
          (file_lane, c2) \<Rightarrow>
            (case rx_ingress_loop I file_lane wakes data 0 0 False c2 of
               InDone c3 rest backlog unowned episode \<Rightarrow>
                 (case rx_ingress_account S I file_lane (length data) rest backlog unowned episode c3 of
                    (res, c4) \<Rightarrow> Returned res c4)
             | InBlocked c3 \<Rightarrow> Waiting c3
             | InAssert \<Rightarrow> Asserted))"

text \<open>The callback of the read thread, with its admission check.\<close>

definition serial_read_callback ::
  "'x core_sink \<Rightarrow> ('x core_scheme) ingress_env \<Rightarrow> ('x core_scheme \<Rightarrow> 'x core_scheme) list \<Rightarrow> u8 list \<Rightarrow>
   'x core_scheme \<Rightarrow> ('x core_scheme) ingress_outcome" where
  "serial_read_callback S I wakes data c =
     (if data = [] then Returned AllAccepted c
      else
        let c1 = c\<lparr>c_in_callback := c_in_callback c + 1\<rparr>;
            leave = (\<lambda>c. c\<lparr>c_in_callback := c_in_callback c - 1\<rparr>)
        in if \<not> c_callback_admission c1
           then Returned PartialAccepted (leave (rx_ingress_reject S (of_nat (length data)) c1))
           else (case rx_ingress S I wakes data c1 of
                   Returned res c2 \<Rightarrow> Returned res (leave c2)
                 | Waiting c2 \<Rightarrow> Waiting c2
                 | Asserted \<Rightarrow> Asserted))"

section \<open>Line errors\<close>

definition milestone :: "u32 \<Rightarrow> bool" where
  "milestone count \<longleftrightarrow> count \<noteq> 0 \<and> count AND (count - 1) = 0"

definition line_status_ingress ::
  "'x core_sink \<Rightarrow> u32 \<Rightarrow> u32 \<Rightarrow> u32 \<Rightarrow> u32 \<Rightarrow> u32 \<Rightarrow> 'x core_scheme \<Rightarrow> 'x core_scheme" where
  "line_status_ingress S framing parity overrun brk hold c =
     (let m = c_metrics c;
          f = m_framing_errors m + framing;
          p = m_parity_errors m + parity;
          ov = m_overrun_errors m + overrun;
          b = m_break_events m + brk;
          m1 = m\<lparr>m_framing_errors := f, m_parity_errors := p, m_overrun_errors := ov,
                 m_rx_loss_offset := (if overrun \<noteq> 0 then m_rx_bytes m else m_rx_loss_offset m),
                 m_break_events := b, m_flow_hold_events := m_flow_hold_events m + hold\<rparr>;
          c1 = c\<lparr>c_metrics := m1\<rparr>
      in if milestone f \<or> milestone p \<or> milestone ov \<or> milestone b
         then core_diag_emit S 1 DgLineError (f + p + ov + b) p ov b c1 else c1)"

section \<open>What the loop does to the lane\<close>

text \<open>
  The assumptions of the byte account on what runs between two accesses of the reader: it leaves the
  two counters of the account alone, and keeps the references balanced. (The result that the file lane
  loses nothing, in \<open>File_Lane\<close>, makes no assumption on any counter.)
\<close>

definition counters_kept :: "('x core_scheme \<Rightarrow> 'x core_scheme) \<Rightarrow> bool" where
  "counters_kept w \<longleftrightarrow> (\<forall>c. m_rx_bytes (c_metrics (w c)) = m_rx_bytes (c_metrics c) \<and>
     m_save_rejected_bytes (c_metrics (w c)) = m_save_rejected_bytes (c_metrics c))"

definition lane_kept :: "('x core_scheme \<Rightarrow> 'x core_scheme) \<Rightarrow> bool" where
  "lane_kept w \<longleftrightarrow> (\<forall>c held. rl_inv held (c_rx c) \<longrightarrow> rl_inv held (c_rx (w c)))"

definition ingress_env_ok :: "('x core_scheme) ingress_env \<Rightarrow> bool" where
  "ingress_env_ok I \<longleftrightarrow> rx_env_ok (ie_rx I) \<and> counters_kept (\<lambda>c. snd (ie_acquire_lease I c)) \<and>
     counters_kept (ie_release_lease I) \<and> counters_kept (ie_wake_rx I) \<and>
     lane_kept (\<lambda>c. snd (ie_acquire_lease I c)) \<and> lane_kept (ie_release_lease I) \<and> lane_kept (ie_wake_rx I)"

lemma push_error_fields [simp]:
  "c_rx (push_error e s m c) = c_rx c" "c_metrics (push_error e s m c) = c_metrics c"
  "c_display (push_error e s m c) = c_display c" "c_port_state (push_error e s m c) = c_port_state c"
  "c_callback_admission (push_error e s m c) = c_callback_admission c" "c_generation (push_error e s m c) = c_generation c"
  by (simp_all add: push_error_def)

lemma rx_note_stall_fields [simp]:
  "c_rx (rx_note_stall c) = c_rx c" "m_rx_bytes (c_metrics (rx_note_stall c)) = m_rx_bytes (c_metrics c)"
  "m_save_rejected_bytes (c_metrics (rx_note_stall c)) = m_save_rejected_bytes (c_metrics c)"
  "c_port_state (rx_note_stall c) = c_port_state c"
  "c_callback_admission (rx_note_stall c) = c_callback_admission c"
  by (simp_all add: rx_note_stall_def Let_def)

text \<open>
  Never an assertion; the bytes not taken are exactly those without an owner; and with a file lane a
  loss only happens when the session is closing.
\<close>

lemma rx_ingress_loop_spec:
  "ingress_env_ok I \<Longrightarrow> \<forall>w \<in> set wakes. counters_kept w \<and> lane_kept w \<Longrightarrow> rl_inv held (c_rx c) \<Longrightarrow>
   case rx_ingress_loop I file_lane wakes p backlog unowned episode c of
      InAssert \<Rightarrow> False
    | InBlocked c' \<Rightarrow> file_lane \<and> rl_inv held (c_rx c')
    | InDone c' rest backlog' unowned' episode' \<Rightarrow>
        rl_inv held (c_rx c') \<and> length rest \<le> length p \<and>
        m_rx_bytes (c_metrics c') = m_rx_bytes (c_metrics c) + of_nat (length p - length rest) \<and>
        m_save_rejected_bytes (c_metrics c') = m_save_rejected_bytes (c_metrics c) \<and>
        unowned' = unowned + of_nat (length rest) \<and>
        (file_lane \<and> rest \<noteq> [] \<longrightarrow> \<not> c_callback_admission c' \<or> c_port_state c' \<noteq> PORT_OPEN)"
proof (induction I file_lane wakes p backlog unowned episode c rule: rx_ingress_loop.induct)
  case (1 I file_lane wakes p backlog unowned episode c)
  note I = \<open>ingress_env_ok I\<close>
  have E: "rx_env_ok (ie_rx I)" and wk: "counters_kept (ie_wake_rx I)" "lane_kept (ie_wake_rx I)"
    using I by (simp_all add: ingress_env_ok_def)
  show ?case
  proof (cases "p = []")
    case True
    then show ?thesis using 1 by (simp add: rx_ingress_loop.simps)
  next
    case ne: False
    show ?thesis
    proof (cases "rx_try_alloc (ie_rx I) file_lane (c_rx c)")
      case None
      let ?c1 = "if \<not> episode then rx_note_stall c else c"
      show ?thesis
      proof (cases "file_lane \<and> c_callback_admission ?c1 \<and> c_port_state ?c1 = PORT_OPEN")
        case False
        then show ?thesis
          using ne None 1(5) by (subst rx_ingress_loop.simps) (simp add: Let_def)
      next
        case True
        show ?thesis
        proof (cases wakes)
          case Nil
          then show ?thesis
            using ne None True 1(5) by (subst rx_ingress_loop.simps) (simp add: Let_def)
        next
          case (Cons w ws)
          have w: "counters_kept w" "lane_kept w" "\<forall>w \<in> set ws. counters_kept w \<and> lane_kept w"
            using 1(4) Cons by auto
          have "rl_inv held (c_rx (w ?c1))"
            using w(2) 1(5) by (simp add: lane_kept_def)
          note IH = 1(1) [OF ne None _ refl _ Cons I w(3) this]
          have eq: "rx_ingress_loop I file_lane wakes p backlog unowned episode c =
              rx_ingress_loop I file_lane ws p backlog unowned True (w ?c1)"
            using ne None True Cons by (subst rx_ingress_loop.simps) (simp add: Let_def)
          show ?thesis
            unfolding eq using IH True w(1)
            by (auto simp: counters_kept_def split: ingress_end.splits if_splits)
        qed
      qed
    next
      case (Some a)
      then obtain ev display_ok l1 where a: "rx_try_alloc (ie_rx I) file_lane (c_rx c) = Some (ev, display_ok, l1)"
        by (metis prod_cases3)
      define n where "n = (if length p > kRxBlockBytes then kRxBlockBytes else length p)"
      let ?ref = "rx_segment_ref (ie_now_ms I) ev n c"
      have "rr_event ?ref = ev" by (simp add: rx_segment_ref_def)
      from rx_claim_publish [OF E 1(5) a this, of "take n p"]
      obtain l2 where pub: "rx_publish (ie_rx I) ?ref file_lane display_ok (rx_copy_in ev (take n p) l1) = Some (display_ok, l2)"
        and inv2: "rl_inv held l2" by blast
      define c1 where "c1 = on_metrics (\<lambda>m. m\<lparr>m_rx_seq := m_rx_seq m + 1\<rparr>) c"
      define c3 where "c3 = (if file_lane then ie_wake_rx I (c1\<lparr>c_rx := l2\<rparr>) else c1\<lparr>c_rx := l2\<rparr>)"
      define c4 where "c4 = on_metrics (\<lambda>m. m\<lparr>m_rx_bytes := m_rx_bytes m + of_nat n\<rparr>) c3"
      have n0: "0 < n" "n \<le> length p" using ne by (auto simp: n_def)
      have cnt: "rl_inv held (c_rx c4)" "m_rx_bytes (c_metrics c4) = m_rx_bytes (c_metrics c) + of_nat n"
        "m_save_rejected_bytes (c_metrics c4) = m_save_rejected_bytes (c_metrics c)"
        using wk inv2 by (auto simp: c4_def c3_def c1_def counters_kept_def lane_kept_def)
      have eq: "rx_ingress_loop I file_lane wakes p backlog unowned episode c =
          rx_ingress_loop I file_lane wakes (drop n p)
            (if display_ok then backlog else backlog + of_nat n) unowned episode c4"
        using ne a pub unfolding n_def c4_def c3_def c1_def
        by (subst rx_ingress_loop.simps) (simp add: Let_def del: on_metrics_def kRxBlockBytes_def)
      have IH: "case rx_ingress_loop I file_lane wakes (drop n p)
            (if display_ok then backlog else backlog + of_nat n) unowned episode c4 of
          InAssert \<Rightarrow> False
        | InBlocked c' \<Rightarrow> file_lane \<and> rl_inv held (c_rx c')
        | InDone c' rest backlog' unowned' episode' \<Rightarrow>
            rl_inv held (c_rx c') \<and> length rest \<le> length (drop n p) \<and>
            m_rx_bytes (c_metrics c') = m_rx_bytes (c_metrics c4) + of_nat (length (drop n p) - length rest) \<and>
            m_save_rejected_bytes (c_metrics c') = m_save_rejected_bytes (c_metrics c4) \<and>
            unowned' = unowned + of_nat (length rest) \<and>
            (file_lane \<and> rest \<noteq> [] \<longrightarrow> \<not> c_callback_admission c' \<or> c_port_state c' \<noteq> PORT_OPEN)"
        by (rule 1(2) [OF ne a refl refl n_def c1_def pub refl refl c3_def c4_def I 1(4) cnt(1)])
      have sum: "(of_nat n :: u32) + of_nat (length p - n - k) = of_nat (length p - k)" if "k \<le> length p - n" for k
      proof -
        have "length p - k = n + (length p - n - k)" using that n0 by simp
        then show ?thesis by (simp only: of_nat_add)
      qed
      show ?thesis
      proof (cases "rx_ingress_loop I file_lane wakes (drop n p)
            (if display_ok then backlog else backlog + of_nat n) unowned episode c4")
        case (InDone c' rest b u e)
        have le: "length rest \<le> length p - n" and
          "m_rx_bytes (c_metrics c') = m_rx_bytes (c_metrics c) + (of_nat n + of_nat (length p - n - length rest))"
          using IH InDone cnt(2) by (simp_all add: add.assoc)
        then have "m_rx_bytes (c_metrics c') = m_rx_bytes (c_metrics c) + of_nat (length p - length rest)"
          by (simp only: sum)
        moreover have "length rest \<le> length p" using le by linarith
        ultimately show ?thesis
          unfolding eq InDone using IH InDone cnt(3) by simp
      qed (use IH eq in simp_all)
    qed
  qed
qed

section \<open>Properties\<close>

definition sink_counters_ok :: "'x core_sink \<Rightarrow> bool" where
  "sink_counters_ok S \<longleftrightarrow>
     (\<forall>f. sk_submit_rx_kick S = Some f \<longrightarrow> counters_kept (\<lambda>c. snd (f c))) \<and>
     (\<forall>f. sk_diag_emit S = Some f \<longrightarrow> (\<forall>s e a0 a1 a2 a3. counters_kept (f s e a0 a1 a2 a3)))"

lemma core_diag_emit_counters:
  "sink_counters_ok S \<Longrightarrow> counters_kept (core_diag_emit S s e a0 a1 a2 a3)"
  by (auto simp: sink_counters_ok_def counters_kept_def core_diag_emit_def split: option.splits)

lemma submit_rx_kick_counters:
  assumes "sink_counters_ok S"
  shows "counters_kept (\<lambda>c. snd (submit_rx_kick S c))"
proof (cases "sk_submit_rx_kick S")
  case (Some f)
  then have k: "counters_kept (\<lambda>c. snd (f c))" using assms by (simp add: sink_counters_ok_def)
  show ?thesis unfolding counters_kept_def
  proof
    fix c
    show "m_rx_bytes (c_metrics (snd (submit_rx_kick S c))) = m_rx_bytes (c_metrics c) \<and>
      m_save_rejected_bytes (c_metrics (snd (submit_rx_kick S c))) = m_save_rejected_bytes (c_metrics c)"
      using k Some by (cases "f c") (auto simp: counters_kept_def submit_rx_kick_def kick_disarm_def dest: spec [of _ c])
  qed
qed (simp add: counters_kept_def submit_rx_kick_def kick_disarm_def)

lemma rx_ingress_reject_counters:
  assumes "sink_counters_ok S"
  shows "m_rx_bytes (c_metrics (rx_ingress_reject S n c)) = m_rx_bytes (c_metrics c)"
    "m_save_rejected_bytes (c_metrics (rx_ingress_reject S n c)) = m_save_rejected_bytes (c_metrics c) + n"
  using core_diag_emit_counters [OF assms] by (simp_all add: rx_ingress_reject_def counters_kept_def Let_def)

definition ledger_step :: "u32 \<Rightarrow> 'x core_scheme \<Rightarrow> 'x core_scheme \<Rightarrow> bool" where
  "ledger_step n c c' \<longleftrightarrow> m_rx_bytes (c_metrics c') = m_rx_bytes (c_metrics c) \<and>
     m_save_rejected_bytes (c_metrics c') = m_save_rejected_bytes (c_metrics c) + n"

lemma ledger_step_trans: "ledger_step n a b \<Longrightarrow> ledger_step m b c \<Longrightarrow> ledger_step (n + m) a c"
  by (simp add: ledger_step_def)

lemma ledger_step_kept: "counters_kept f \<Longrightarrow> ledger_step 0 c (f c)"
  by (simp add: ledger_step_def counters_kept_def)

lemma rx_ingress_account_counters:
  assumes S: "sink_counters_ok S" and I: "ingress_env_ok I"
    and a: "rx_ingress_account S I file_lane nbytes rest backlog unowned episode c = (res, c')"
  shows "m_rx_bytes (c_metrics c') = m_rx_bytes (c_metrics c)"
    "m_save_rejected_bytes (c_metrics c') = m_save_rejected_bytes (c_metrics c) + unowned"
    "res = (if rest = [] then AllAccepted else PartialAccepted)"
proof -
  define c1 where "c1 = (if episode
     then on_metrics (\<lambda>m. m\<lparr>m_rx_file_blocked_ms := m_rx_file_blocked_ms m + ie_elapsed_ms I\<rparr>) c else c)"
  define c2 where "c2 = (if backlog \<noteq> 0
     then let c' = on_metrics (\<lambda>m. m\<lparr>m_rx_pool_exhausted_bytes := m_rx_pool_exhausted_bytes m + backlog,
                                      m_rx_loss_offset := m_rx_bytes m\<rparr>) c1
          in core_diag_emit S 0 DgRxDrop backlog (m_rx_pool_exhausted_bytes (c_metrics c')) 0 0 c'
     else c1)"
  define c3 where "c3 = (if unowned \<noteq> 0 then rx_ingress_reject S unowned c2 else c2)"
  define c4 where "c4 = (if nbytes - length rest \<noteq> 0
     then (case kick_try_arm c3 of (True, c') \<Rightarrow> snd (submit_rx_kick S c') | (False, c') \<Rightarrow> c') else c3)"
  have 1: "ledger_step 0 c c1" by (simp add: ledger_step_def c1_def)
  have 2: "ledger_step 0 c1 c2"
    using core_diag_emit_counters [OF S] by (simp add: ledger_step_def c2_def counters_kept_def Let_def)
  have 3: "ledger_step unowned c2 c3"
    using rx_ingress_reject_counters [OF S] by (simp add: ledger_step_def c3_def)
  have arm: "ledger_step 0 c3 (c3\<lparr>c_kick := True\<rparr>)" by (simp add: ledger_step_def)
  have 4: "ledger_step 0 c3 c4"
    using ledger_step_trans [OF arm ledger_step_kept [OF submit_rx_kick_counters [OF S]]]
    by (simp add: c4_def kick_try_arm_def ledger_step_def)
  have "ledger_step 0 c4 (ie_release_lease I c4)"
    using I by (intro ledger_step_kept) (simp add: ingress_env_ok_def)
  then have 5: "ledger_step 0 c4 (if file_lane then ie_release_lease I c4 else c4)"
    by (simp add: ledger_step_def)
  have "(res, c') = (if rest = [] then AllAccepted else PartialAccepted, if file_lane then ie_release_lease I c4 else c4)"
    using a unfolding rx_ingress_account_def c4_def c3_def c2_def c1_def Let_def by simp
  then have r: "res = (if rest = [] then AllAccepted else PartialAccepted)"
    "c' = (if file_lane then ie_release_lease I c4 else c4)" by simp_all
  have "ledger_step (0 + 0 + unowned + 0 + 0) c c'"
    unfolding r(2) using 1 2 3 4 5 by (blast intro: ledger_step_trans)
  then show "m_rx_bytes (c_metrics c') = m_rx_bytes (c_metrics c)"
    "m_save_rejected_bytes (c_metrics c') = m_save_rejected_bytes (c_metrics c) + unowned"
    by (simp_all add: ledger_step_def)
  show "res = (if rest = [] then AllAccepted else PartialAccepted)" by (rule r(1))
qed


definition ingress_env_demo :: "core ingress_env" where
  "ingress_env_demo = \<lparr>ie_rx = rx_env_list, ie_now_ms = 0, ie_elapsed_ms = 0,
     ie_acquire_lease = (\<lambda>c. (True, c)), ie_release_lease = id, ie_wake_rx = id\<rparr>"


text \<open>
  The line-error counters add the reported increments (modulo 32 bits), a
  hold is counted and never reported, and one record with the totals is emitted exactly when one of
  the four error totals is a power of two.
\<close>

theorem line_error_milestones:
  "line_status_ingress (quiet_sink\<lparr>sk_diag_emit := Some (\<lambda>s e a0 a1 a2 a3 c. c\<lparr>c_diag := c_diag c @ [(s, e, a0, a1, a2, a3)]\<rparr>)\<rparr>)
      df dp dov db dh c =
   (let m = c_metrics c;
        f = m_framing_errors m + df; p = m_parity_errors m + dp;
        ov = m_overrun_errors m + dov; b = m_break_events m + db
    in c\<lparr>c_metrics := m\<lparr>m_framing_errors := f, m_parity_errors := p, m_overrun_errors := ov,
             m_rx_loss_offset := (if dov \<noteq> 0 then m_rx_bytes m else m_rx_loss_offset m),
             m_break_events := b, m_flow_hold_events := m_flow_hold_events m + dh\<rparr>,
         c_diag := c_diag c @ (if milestone f \<or> milestone p \<or> milestone ov \<or> milestone b
                               then [(1, DgLineError, f + p + ov + b, p, ov, b)] else [])\<rparr>)"
  by (simp add: line_status_ingress_def core_diag_emit_def Let_def)

text \<open>
  The bound of one record per power-of-two milestone does not hold across
  categories: while one error total rests on a power of two, every report of another category emits a
  record, also a report of a hold alone.
\<close>

theorem line_error_record_flood:
  assumes "milestone (m_framing_errors (c_metrics c))"
  shows "length (c_diag (line_status_ingress
     (quiet_sink\<lparr>sk_diag_emit := Some (\<lambda>s e a0 a1 a2 a3 c. c\<lparr>c_diag := c_diag c @ [(s, e, a0, a1, a2, a3)]\<rparr>)\<rparr>)
      0 dp dov db dh c)) = length (c_diag c) + 1"
  using assms by (simp add: line_status_ingress_def core_diag_emit_def Let_def)

theorem line_error_record_flood_witness:
  "length (c_diag (line_status_ingress
     (quiet_sink\<lparr>sk_diag_emit := Some (\<lambda>s e a0 a1 a2 a3 c. c\<lparr>c_diag := c_diag c @ [(s, e, a0, a1, a2, a3)]\<rparr>)\<rparr>)
      0 1 0 0 0 (core_init\<lparr>c_metrics := metrics_zero\<lparr>m_framing_errors := 1, m_parity_errors := 1000\<rparr>\<rparr>))) = 1"
proof -
  have "milestone (m_framing_errors (c_metrics (core_init\<lparr>c_metrics := metrics_zero\<lparr>m_framing_errors := 1, m_parity_errors := 1000\<rparr>\<rparr>)))"
    by (simp add: milestone_def)
  from line_error_record_flood [OF this, of 1 0 0 0] show ?thesis by (simp add: core_init_def)
qed

end
