(* ===== verification/Send_Ao.thy ===== *)
theory Send_Ao
  imports Core_Ctx
begin

text \<open>
  The transmit side: the two send active objects of \<open>ao/xcom_ao.cpp\<close> and the session write worker
  (\<open>SessionWriter\<close> in \<open>runtime/xcom_core.cpp\<close>). Functions that release a transmit block are partial:
  \<open>None\<close> is the failed assertion on a block identifier out of range.
\<close>

section \<open>Blocks\<close>

definition core_tx_release :: "u16 \<Rightarrow> 'x core_scheme \<Rightarrow> ('x core_scheme) option" where
  "core_tx_release b c = map_option (\<lambda>p. c\<lparr>c_tx := p\<rparr>) (tx_release b (c_tx c))"

definition count_tx_rejected :: "'x core_scheme \<Rightarrow> 'x core_scheme" where
  "count_tx_rejected = on_metrics (\<lambda>m. m\<lparr>m_tx_rejected := m_tx_rejected m + 1\<rparr>)"

section \<open>The send active objects\<close>

record send_ctx =
  sx_autosend_block :: u16
  sx_autosend_length :: u16
  sx_autosend_interval_ms :: u32

definition no_block :: u16 where "no_block = 0xFFFF"

definition send_ctx_init :: send_ctx where
  "send_ctx_init = \<lparr>sx_autosend_block = no_block, sx_autosend_length = 0, sx_autosend_interval_ms = 0\<rparr>"

definition call_autosend_set :: "'x core_sink \<Rightarrow> u32 \<Rightarrow> 'x core_scheme \<Rightarrow> 'x core_scheme" where
  "call_autosend_set S interval_ms c = (case sk_autosend_set S of Some f \<Rightarrow> f interval_ms c | None \<Rightarrow> c)"

definition autosend_config_action ::
  "'x core_sink \<Rightarrow> u32 \<Rightarrow> auto_template \<Rightarrow> send_ctx \<Rightarrow> 'x core_scheme \<Rightarrow> (send_ctx \<times> 'x core_scheme) option" where
  "autosend_config_action S now d ctx c =
     (let c = beat_dispatcher now c;
          enable = (at_interval_ms d \<noteq> 0);
          valid = (\<not> enable \<or> (at_block d \<noteq> no_block \<and> at_length d \<noteq> 0 \<and> unat (at_length d) \<le> kTxBlockBytes))
      in if \<not> valid then do {
           c1 \<leftarrow> (if enable \<and> at_block d \<noteq> no_block then core_tx_release (at_block d) c else Some c);
           Some (ctx, push_error XCOM_ERR_PARAM 0 ''invalid auto-send template'' c1)
         } else do {
           let c1 = call_autosend_set S 0 c;
           c2 \<leftarrow> (if sx_autosend_block ctx \<noteq> no_block then core_tx_release (sx_autosend_block ctx) c1 else Some c1);
           let c3 = c2\<lparr>c_autosend_armed := False\<rparr>;
           if \<not> enable then Some (send_ctx_init, c3)
           else Some (\<lparr>sx_autosend_block = at_block d, sx_autosend_length = at_length d,
                       sx_autosend_interval_ms = at_interval_ms d\<rparr>,
                      call_autosend_set S (at_interval_ms d) c3)
         })"

definition send_autosend_action ::
  "'x core_sink \<Rightarrow> u32 \<Rightarrow> send_ctx \<Rightarrow> 'x core_scheme \<Rightarrow> ('x core_scheme) option" where
  "send_autosend_action S now ctx c =
     (let c = beat_dispatcher now c;
          size = unat (sx_autosend_length ctx)
      in if c_port_state c \<noteq> PORT_OPEN then Some (c\<lparr>c_autosend_armed := False\<rparr>)
         else if sx_autosend_block ctx = no_block \<or> size = 0 then Some (c\<lparr>c_autosend_armed := False\<rparr>)
         else case tx_try_alloc (c_tx c) of
           None \<Rightarrow> Some ((count_tx_rejected c)\<lparr>c_autosend_armed := False\<rparr>)
         | Some (bid, p) \<Rightarrow> do {
             bytes \<leftarrow> tx_block p (sx_autosend_block ctx) size;
             let c1 = c\<lparr>c_tx := fixed_pool_write p (unat bid) bytes\<rparr>;
             let (handed, c2) = enqueue_write S bid (of_nat size) (c_generation c1) True c1;
             if handed then Some c2
             else do {
               c3 \<leftarrow> core_tx_release bid c2;
               Some ((count_tx_rejected c3)\<lparr>c_autosend_armed := False\<rparr>)
             }
           })"

definition send_user_action ::
  "'x core_sink \<Rightarrow> u32 \<Rightarrow> tx_descriptor \<Rightarrow> 'x core_scheme \<Rightarrow> ('x core_scheme) option" where
  "send_user_action S now d c =
     (let c = beat_dispatcher now c;
          stale = (td_generation d \<noteq> c_generation c \<or> c_port_state c \<noteq> PORT_OPEN)
      in if stale then core_tx_release (td_block d) c
         else let (handed, c1) = enqueue_write S (td_block d) (td_length d) (td_generation d) False c
              in if handed then Some c1
                 else do {
                   c2 \<leftarrow> core_tx_release (td_block d) c1;
                   Some (push_error XCOM_ERR_FULL 0 ''serial write queue full'' (count_tx_rejected c2))
                 })"

definition diag_tick_action :: "'x core_sink \<Rightarrow> u32 \<Rightarrow> 'x core_scheme \<Rightarrow> 'x core_scheme" where
  "diag_tick_action S now c =
     (let c = beat_dispatcher now c; m = c_metrics c
      in core_diag_emit S 0 DgDiagTick (m_rx_bytes m) (m_tx_rejected m) (m_rx_pool_exhausted_bytes m)
           (ucast (port_code (c_port_state c))) c)"

section \<open>The session writer\<close>

definition kMaxJobs :: nat where [simp]: "kMaxJobs = 256"

record write_job =
  wj_block :: u16
  wj_len :: u16
  wj_gen :: u32
  wj_auto_send :: bool

record session_writer =
  sw_stop :: bool
  sw_write :: u32
  sw_read :: u32
  sw_jobs :: "write_job list"
  sw_active :: bool            \<comment> \<open>the thread is joinable\<close>

definition session_writer_init :: session_writer where
  "session_writer_init = \<lparr>sw_stop = False, sw_write = 0, sw_read = 0,
     sw_jobs = replicate kMaxJobs \<lparr>wj_block = 0, wj_len = 0, wj_gen = 0, wj_auto_send = False\<rparr>,
     sw_active = False\<rparr>"

text \<open>\<open>spawned\<close> says whether the thread constructor returned.\<close>

definition sw_start :: "bool \<Rightarrow> session_writer \<Rightarrow> bool \<times> session_writer" where
  "sw_start spawned w =
     (if sw_active w then (False, w)
      else let w1 = w\<lparr>sw_stop := False, sw_write := 0, sw_read := 0\<rparr>
           in if spawned then (True, w1\<lparr>sw_active := True\<rparr>) else (False, w1))"

definition sw_slot :: "u32 \<Rightarrow> nat" where
  "sw_slot i = unat (i AND (of_nat kMaxJobs - 1))"

definition sw_try_enqueue :: "session_writer \<Rightarrow> write_job \<Rightarrow> session_writer option" where
  "sw_try_enqueue w j =
     (if sw_write w - sw_read w \<ge> of_nat kMaxJobs then None
      else Some (w\<lparr>sw_jobs := (sw_jobs w)[sw_slot (sw_write w) := j], sw_write := sw_write w + 1\<rparr>))"

definition sw_try_pop :: "session_writer \<Rightarrow> (write_job \<times> session_writer) option" where
  "sw_try_pop w =
     (if sw_read w \<ge> sw_write w then None
      else Some (sw_jobs w ! sw_slot (sw_read w), w\<lparr>sw_read := sw_read w + 1\<rparr>))"

definition sw_request_stop :: "session_writer \<Rightarrow> session_writer" where
  "sw_request_stop w = w\<lparr>sw_stop := True\<rparr>"

definition sw_leftover_job :: "write_job \<Rightarrow> ('x core_scheme) option \<Rightarrow> ('x core_scheme) option" where
  "sw_leftover_job j co = do {
     c \<leftarrow> co;
     c1 \<leftarrow> core_tx_release (wj_block j) c;
     Some (count_tx_rejected (if wj_auto_send j then c1\<lparr>c_autosend_armed := False\<rparr> else c1))
   }"

definition sw_release_leftover_jobs ::
  "session_writer \<Rightarrow> 'x core_scheme \<Rightarrow> session_writer \<times> ('x core_scheme) option" where
  "sw_release_leftover_jobs w c = pop_loop (Suc kMaxJobs) sw_try_pop sw_leftover_job w (Some c)"

text \<open>
  The worker's part of the join (it finds the stop flag and gives the leftover jobs back) runs before
  \<open>stop_and_join\<close> returns.
\<close>

definition sw_stop_and_join :: "session_writer \<Rightarrow> 'x core_scheme \<Rightarrow> session_writer \<times> ('x core_scheme) option" where
  "sw_stop_and_join w c =
     (let w1 = sw_request_stop w
      in if sw_active w1
         then (case sw_release_leftover_jobs w1 c of (w2, co) \<Rightarrow> (w2\<lparr>sw_active := False\<rparr>, co))
         else (w1, Some c))"

definition sw_execute :: "'x core_sink \<Rightarrow> write_job \<Rightarrow> 'x core_scheme \<Rightarrow> ('x core_scheme) option" where
  "sw_execute S j c =
     (let cur = c_generation c;
          (result, c1) =
            (if wj_gen j = cur \<and> c_port_state c = PORT_OPEN then
               (case sk_owner_write S of
                  Some f \<Rightarrow> f (wj_block j) (wj_len j) c
                | None \<Rightarrow> (XCOM_OK, on_metrics (\<lambda>m. m\<lparr>m_tx_bytes := m_tx_bytes m + ucast (wj_len j)\<rparr>) c))
             else (XCOM_ERR_NOT_OPEN, c))
      in do {
        c2 \<leftarrow> core_tx_release (wj_block j) c1;
        let c3 = (if wj_auto_send j then c2\<lparr>c_autosend_armed := False\<rparr> else c2);
        Some (if result \<noteq> XCOM_OK \<and> wj_gen j = cur
              then let c4 = push_error result 0 ''serial write failed'' c3
                   in core_diag_emit S 0 DgWriteFail (of_int result) (c_generation c4) 0 0 c4
              else c3)
      })"

text \<open>
  One wake-up of the worker: stop if asked, otherwise execute queued jobs until the ring is empty or a
  stop is seen after a job. The flag says whether the thread has ended.
\<close>

fun sw_run_jobs ::
  "nat \<Rightarrow> 'x core_sink \<Rightarrow> session_writer \<Rightarrow> 'x core_scheme \<Rightarrow> bool \<times> session_writer \<times> ('x core_scheme) option" where
  "sw_run_jobs 0 S w c = (False, w, Some c)"
| "sw_run_jobs (Suc n) S w c =
     (case sw_try_pop w of
        None \<Rightarrow> (False, w, Some c)
      | Some (j, w1) \<Rightarrow>
          (case sw_execute S j c of
             None \<Rightarrow> (True, w1, None)
           | Some c1 \<Rightarrow>
               if sw_stop w1 then (case sw_release_leftover_jobs w1 c1 of (w2, co) \<Rightarrow> (True, w2, co))
               else sw_run_jobs n S w1 c1))"

definition sw_wake ::
  "nat \<Rightarrow> 'x core_sink \<Rightarrow> session_writer \<Rightarrow> 'x core_scheme \<Rightarrow> bool \<times> session_writer \<times> ('x core_scheme) option" where
  "sw_wake fuel S w c =
     (if sw_stop w then (case sw_release_leftover_jobs w c of (w1, co) \<Rightarrow> (True, w1, co))
      else sw_run_jobs fuel S w c)"

section \<open>The job ring\<close>

text \<open>Jobs queued, while the counters have not wrapped.\<close>

definition sw_items :: "session_writer \<Rightarrow> write_job list" where
  "sw_items w = map (\<lambda>i. sw_jobs w ! (i mod 256)) [unat (sw_read w)..<unat (sw_write w)]"

definition sw_inv :: "session_writer \<Rightarrow> bool" where
  "sw_inv w \<longleftrightarrow> length (sw_jobs w) = kMaxJobs \<and> sw_read w \<le> sw_write w \<and>
     unat (sw_write w) - unat (sw_read w) \<le> kMaxJobs"

lemma sw_slot_mod: "sw_slot w = unat w mod 256"
proof -
  have "w AND (of_nat kMaxJobs - 1) = take_bit 8 w"
    unfolding take_bit_eq_mask by (simp add: mask_eq_exp_minus_1)
  then have "sw_slot w = take_bit 8 (unat w)"
    unfolding sw_slot_def by (simp only: unsigned_take_bit_eq)
  then show ?thesis by (simp add: take_bit_eq_mod)
qed

lemma mod_window_neq:
  fixes i w :: nat
  assumes "i < w" "w < i + 256"
  shows "i mod 256 \<noteq> w mod 256"
proof
  assume "i mod 256 = w mod 256"
  then have "256 dvd w - i" using assms(1) by (metis mod_eq_dvd_iff_nat less_imp_le)
  then show False using assms by (metis add_diff_inverse_nat nat_dvd_not_less less_imp_le
    linorder_not_less nat_add_left_cancel_less zero_less_diff)
qed

lemma sw_enqueue_spec:
  assumes inv: "sw_inv w" and nowrap: "unat (sw_write w) < 2 ^ 32 - 1"
  shows "case sw_try_enqueue w j of
      None \<Rightarrow> length (sw_items w) = kMaxJobs
    | Some w' \<Rightarrow> sw_inv w' \<and> sw_items w' = sw_items w @ [j] \<and> length (sw_items w) < kMaxJobs \<and>
        unat (sw_write w') = unat (sw_write w) + 1"
proof -
  have le: "unat (sw_read w) \<le> unat (sw_write w)" and len: "length (sw_jobs w) = 256"
    and bound: "unat (sw_write w) - unat (sw_read w) \<le> 256"
    using inv by (simp_all add: sw_inv_def word_le_nat_alt)
  have diff: "unat (sw_write w - sw_read w) = unat (sw_write w) - unat (sw_read w)"
    using inv by (simp add: sw_inv_def unat_sub)
  have suc: "unat (sw_write w + 1) = unat (sw_write w) + 1"
    using nowrap by (simp add: unat_word_ariths)
  show ?thesis
  proof (cases "sw_write w - sw_read w \<ge> of_nat kMaxJobs")
    case True
    then have "256 \<le> unat (sw_write w) - unat (sw_read w)" using diff by (simp add: word_le_nat_alt)
    then show ?thesis using True bound by (simp add: sw_try_enqueue_def sw_items_def)
  next
    case False
    then have room: "unat (sw_write w) - unat (sw_read w) < 256" using diff by (simp add: word_le_nat_alt)
    let ?w = "w\<lparr>sw_jobs := (sw_jobs w)[sw_slot (sw_write w) := j], sw_write := sw_write w + 1\<rparr>"
    have "map (\<lambda>i. (sw_jobs w)[unat (sw_write w) mod 256 := j] ! (i mod 256)) [unat (sw_read w)..<unat (sw_write w)] =
          sw_items w"
      unfolding sw_items_def
    proof (rule map_cong [OF refl])
      fix i assume "i \<in> set [unat (sw_read w)..<unat (sw_write w)]"
      then have "i < unat (sw_write w)" "unat (sw_write w) < i + 256" using room by auto
      from mod_window_neq [OF this]
      show "(sw_jobs w)[unat (sw_write w) mod 256 := j] ! (i mod 256) = sw_jobs w ! (i mod 256)" by simp
    qed
    then have "sw_items ?w = sw_items w @ [j]"
      using le suc len by (simp add: sw_items_def sw_slot_mod)
    moreover have "sw_inv ?w" using le suc len room by (simp add: sw_inv_def word_le_nat_alt)
    moreover have "length (sw_items w) < kMaxJobs" using room by (simp add: sw_items_def)
    ultimately show ?thesis using False suc by (simp add: sw_try_enqueue_def)
  qed
qed

lemma sw_pop_spec:
  assumes "sw_inv w"
  shows "case sw_try_pop w of
      None \<Rightarrow> sw_items w = []
    | Some (j, w') \<Rightarrow> sw_inv w' \<and> sw_items w = j # sw_items w' \<and> sw_write w' = sw_write w"
proof (cases "sw_read w < sw_write w")
  case False
  then show ?thesis using assms by (simp add: sw_try_pop_def sw_items_def sw_inv_def not_less)
next
  case True
  then have lt: "unat (sw_read w) < unat (sw_write w)" by (simp add: word_less_nat_alt)
  have "unat (sw_write w) < 2 ^ 32" using unsigned_less [of "sw_write w"] by simp
  then have suc: "unat (sw_read w + 1) = unat (sw_read w) + 1"
    using lt by (simp add: unat_word_ariths)
  let ?w = "w\<lparr>sw_read := sw_read w + 1\<rparr>"
  have "sw_items w = sw_jobs w ! sw_slot (sw_read w) # sw_items ?w"
    using lt suc by (simp add: sw_items_def sw_slot_mod upt_conv_Cons)
  moreover have "unat (sw_write w) - unat (sw_read w + 1) \<le> 256"
    using assms suc by (simp add: sw_inv_def) linarith
  then have "sw_inv ?w" using assms lt suc by (simp add: sw_inv_def word_le_nat_alt)
  ultimately show ?thesis using True by (simp add: sw_try_pop_def)
qed

section \<open>Transmit blocks\<close>

lemma tx_invD:
  assumes "tx_inv p"
  shows "fp_inv p" "fp_count p = 32" "b < 32 \<Longrightarrow> fp_bytes p b = 4096"
  using assms by (simp_all add: tx_inv_def)

lemma tx_release_used:
  assumes "tx_inv p" "unat b \<in> fpool.used p"
  shows "\<exists>q. tx_release b p = Some q \<and> tx_inv q \<and> fpool.used q = fpool.used p - {unat b}"
proof -
  note I = tx_invD [OF assms(1)]
  note nf = used_not_free [OF assms(2)]
  note r = fpool.release_law [OF I(1) conjunct1 [OF nf] conjunct2 [OF nf]] fpool.release_used [OF I(1) assms(2)]
  have "tx_release b p = Some (fixed_pool_release p (unat b))"
    using nf I(2) by (simp add: tx_release_def)
  moreover have "tx_inv (fixed_pool_release p (unat b))" using r I by (simp add: tx_inv_def)
  ultimately show ?thesis using r by simp
qed

lemma tx_inv_init: "tx_inv tx_pool_init" "fpool.used tx_pool_init = {}"
proof -
  have "0 < (32 :: nat)" "(32 :: nat) < unat kEmpty" "4 \<le> (4096 :: nat)" by (simp_all add: unat_kEmpty)
  note s = fixed_pool_init_spec [OF this]
  then show "tx_inv tx_pool_init" "fpool.used tx_pool_init = {}"
    by (auto simp: tx_inv_def tx_pool_init_def fp_bytes_def fpool.used_def fp_free_def)
qed

definition sink_keeps_tx :: "'x core_sink \<Rightarrow> bool" where
  "sink_keeps_tx S \<longleftrightarrow>
     (\<forall>f b l g a c. sk_enqueue_write S = Some f \<longrightarrow> c_tx (snd (f b l g a c)) = c_tx c) \<and>
     (\<forall>f b l c. sk_owner_write S = Some f \<longrightarrow> c_tx (snd (f b l c)) = c_tx c)"

lemma enqueue_write_tx: "sink_keeps_tx S \<Longrightarrow> c_tx (snd (enqueue_write S b l g a c)) = c_tx c"
  by (auto simp: sink_keeps_tx_def enqueue_write_def split: option.splits)

lemma core_tx_release_used:
  assumes "tx_inv (c_tx c)" "unat b \<in> fpool.used (c_tx c)"
  shows "\<exists>c'. core_tx_release b c = Some c' \<and> tx_inv (c_tx c') \<and>
    fpool.used (c_tx c') = fpool.used (c_tx c) - {unat b} \<and> c_metrics c' = c_metrics c \<and>
    c_errors c' = c_errors c"
proof -
  obtain q where "tx_release b (c_tx c) = Some q" "tx_inv q" "fpool.used q = fpool.used (c_tx c) - {unat b}"
    using tx_release_used [OF assms] by blast
  then show ?thesis by (simp add: core_tx_release_def)
qed

section \<open>Properties\<close>

text \<open>
  An accepted send keeps exactly one owner of its transmit block: the
  send AO either hands the block to the session writer, only when the descriptor belongs to the
  current, open session, or gives it back to the pool exactly once. No other block moves.
\<close>

theorem send_block_single_owner:
  assumes "sink_keeps_tx S" "tx_inv (c_tx c)" "unat (td_block d) \<in> fpool.used (c_tx c)"
  shows "\<exists>c'. send_user_action S now d c = Some c' \<and> tx_inv (c_tx c') \<and>
    (if td_generation d = c_generation c \<and> c_port_state c = PORT_OPEN \<and>
        fst (enqueue_write S (td_block d) (td_length d) (td_generation d) False (beat_dispatcher now c))
     then fpool.used (c_tx c') = fpool.used (c_tx c)
     else fpool.used (c_tx c') = fpool.used (c_tx c) - {unat (td_block d)})"
proof -
  let ?c = "beat_dispatcher now c"
  have c: "c_tx ?c = c_tx c" "c_generation ?c = c_generation c" "c_port_state ?c = c_port_state c"
    by (simp_all add: beat_dispatcher_def)
  obtain ok c1 where e: "enqueue_write S (td_block d) (td_length d) (td_generation d) False ?c = (ok, c1)"
    by (meson surj_pair)
  have c1: "c_tx c1 = c_tx c"
    using enqueue_write_tx [OF assms(1), of "td_block d" "td_length d" "td_generation d" False ?c] e c by simp
  obtain ca where ra: "core_tx_release (td_block d) ?c = Some ca" "tx_inv (c_tx ca)"
    "fpool.used (c_tx ca) = fpool.used (c_tx c) - {unat (td_block d)}"
    using core_tx_release_used [of ?c "td_block d"] assms(2,3) c by auto
  obtain cb where rb: "core_tx_release (td_block d) c1 = Some cb" "tx_inv (c_tx cb)"
    "fpool.used (c_tx cb) = fpool.used (c_tx c) - {unat (td_block d)}"
    using core_tx_release_used [of c1 "td_block d"] assms(2,3) c1 by auto
  show ?thesis
  proof (cases "td_generation d = c_generation c \<and> c_port_state c = PORT_OPEN")
    case True
    then show ?thesis
      using e c rb c1 assms(2)
      by (cases ok) (simp_all add: send_user_action_def Let_def push_error_def count_tx_rejected_def)
  next
    case False
    then show ?thesis
      using e c ra by (auto simp: send_user_action_def Let_def)
  qed
qed

theorem send_block_single_owner_witness:
  "\<exists>c'. send_user_action quiet_sink 0 \<lparr>td_block = 0, td_length = 1, td_generation = 9\<rparr>
     (core_init\<lparr>c_tx := snd (the (tx_try_alloc tx_pool_init))\<rparr>) = Some c'"
proof -
  have ne: "fixed_pool_allocate tx_pool_init \<noteq> None"
    using fpool.alloc_None [OF tx_invD(1) [OF tx_inv_init(1)]] fpool.card_split [OF tx_invD(1) [OF tx_inv_init(1)]]
      tx_inv_init(2) tx_invD(2) [OF tx_inv_init(1)] by auto
  then obtain b p where a: "fixed_pool_allocate tx_pool_init = Some (b, p)" by auto
  note f = fpool.alloc_fresh [OF tx_invD(1) [OF tx_inv_init(1)] a]
    fpool.alloc_Some [OF tx_invD(1) [OF tx_inv_init(1)] a]
  have "b = 0" using a by (auto simp: fixed_pool_allocate_def Let_def tx_pool_init_def fixed_pool_init_def split: if_splits)
  then have "tx_inv p" "0 \<in> fpool.used p"
    using f tx_invD [OF tx_inv_init(1)] by (auto simp: tx_inv_def)
  moreover have "sink_keeps_tx quiet_sink" by (simp add: sink_keeps_tx_def quiet_sink_def)
  ultimately show ?thesis
    using send_block_single_owner [of quiet_sink "core_init\<lparr>c_tx := p\<rparr>" "\<lparr>td_block = 0, td_length = 1, td_generation = 9\<rparr>" 0] a
    by (auto simp: tx_try_alloc_def)
qed

text \<open>
  The write worker never calls the backend for a job of an older
  session or when the port is not open: such a job only gives its block back, opens the auto-send
  gate if it held it, and transmits nothing.
\<close>

theorem stale_job_never_written:
  assumes "wj_gen j \<noteq> c_generation c" "tx_inv (c_tx c)" "unat (wj_block j) \<in> fpool.used (c_tx c)"
  shows "\<exists>c'. sw_execute S j c = Some c' \<and> m_tx_bytes (c_metrics c') = m_tx_bytes (c_metrics c) \<and>
    c_errors c' = c_errors c \<and> fpool.used (c_tx c') = fpool.used (c_tx c) - {unat (wj_block j)} \<and>
    (\<forall>T. sw_execute T j c = sw_execute S j c)"
proof -
  obtain c1 where r: "core_tx_release (wj_block j) c = Some c1" "tx_inv (c_tx c1)"
    "fpool.used (c_tx c1) = fpool.used (c_tx c) - {unat (wj_block j)}" "c_metrics c1 = c_metrics c" "c_errors c1 = c_errors c"
    using core_tx_release_used [OF assms(2,3)] by blast
  have "sw_execute T j c = Some (if wj_auto_send j then c1\<lparr>c_autosend_armed := False\<rparr> else c1)" for T
    using assms(1) r(1) by (simp add: sw_execute_def Let_def)
  then show ?thesis using r by simp
qed

theorem stale_job_never_written_witness:
  "\<exists>c'. sw_execute quiet_sink \<lparr>wj_block = 0, wj_len = 4, wj_gen = 7, wj_auto_send = False\<rparr>
     (core_init\<lparr>c_tx := snd (the (fixed_pool_allocate tx_pool_init))\<rparr>) = Some c' \<and> m_tx_bytes (c_metrics c') = 0"
proof -
  have ne: "fixed_pool_allocate tx_pool_init \<noteq> None"
    using fpool.alloc_None [OF tx_invD(1) [OF tx_inv_init(1)]] fpool.card_split [OF tx_invD(1) [OF tx_inv_init(1)]]
      tx_inv_init(2) tx_invD(2) [OF tx_inv_init(1)] by auto
  then obtain b p where a: "fixed_pool_allocate tx_pool_init = Some (b, p)" by auto
  note f = fpool.alloc_fresh [OF tx_invD(1) [OF tx_inv_init(1)] a]
    fpool.alloc_Some [OF tx_invD(1) [OF tx_inv_init(1)] a]
  have "b = 0" using a by (auto simp: fixed_pool_allocate_def Let_def tx_pool_init_def fixed_pool_init_def split: if_splits)
  then have "tx_inv p" "0 \<in> fpool.used p"
    using f tx_invD [OF tx_inv_init(1)] by (auto simp: tx_inv_def)
  then show ?thesis
    using stale_job_never_written [of "\<lparr>wj_block = 0, wj_len = 4, wj_gen = 7, wj_auto_send = False\<rparr>" "core_init\<lparr>c_tx := p\<rparr>" quiet_sink] a
    by (auto simp: metrics_zero_def)
qed

text \<open>
  While fewer than \<open>2 ^ 32 - 1\<close> jobs have been queued in a session, the job
  ring is a first-in first-out queue of 256 jobs: an enqueue appends or is refused only when 256 are
  queued, a pop returns the oldest job or nothing only when none is queued.
\<close>

theorem session_writer_fifo:
  assumes "sw_inv w" "unat (sw_write w) < 2 ^ 32 - 1"
  shows "(case sw_try_enqueue w j of
      None \<Rightarrow> length (sw_items w) = kMaxJobs
    | Some w' \<Rightarrow> sw_inv w' \<and> sw_items w' = sw_items w @ [j] \<and> length (sw_items w) < kMaxJobs) \<and>
    (case sw_try_pop w of
      None \<Rightarrow> sw_items w = []
    | Some (j', w') \<Rightarrow> sw_inv w' \<and> sw_items w = j' # sw_items w')"
  using sw_enqueue_spec [OF assms, of j] sw_pop_spec [OF assms(1)] by (auto split: option.splits)

theorem session_writer_fifo_witness:
  "\<exists>w'. sw_try_enqueue session_writer_init \<lparr>wj_block = 1, wj_len = 2, wj_gen = 3, wj_auto_send = False\<rparr> = Some w' \<and>
     sw_items w' = [\<lparr>wj_block = 1, wj_len = 2, wj_gen = 3, wj_auto_send = False\<rparr>]"
proof -
  have "sw_inv session_writer_init" "unat (sw_write session_writer_init) < 2 ^ 32 - 1"
    by (simp_all add: sw_inv_def session_writer_init_def)
  from session_writer_fifo [OF this, of "\<lparr>wj_block = 1, wj_len = 2, wj_gen = 3, wj_auto_send = False\<rparr>"]
  show ?thesis
    by (auto simp: sw_items_def session_writer_init_def split: option.splits)
qed

text \<open>
  At the wrap of the 32-bit counters the pop test compares the two
  counters as plain numbers: once the read counter stands at its maximum and a job is queued across
  the wrap, no number of further enqueues makes a pop succeed again.
\<close>

fun sw_enqueue_all :: "session_writer \<Rightarrow> write_job list \<Rightarrow> session_writer" where
  "sw_enqueue_all w [] = w"
| "sw_enqueue_all w (j # js) = (case sw_try_enqueue w j of None \<Rightarrow> w | Some w' \<Rightarrow> sw_enqueue_all w' js)"

lemma sw_wrap_step:
  assumes "sw_read w = - 1" "unat (sw_write w) < 256 \<or> sw_write w = - 1" "sw_try_enqueue w j = Some w'"
  shows "sw_read w' = - 1 \<and> unat (sw_write w') < 256"
proof (cases "sw_write w = - 1")
  case True
  then show ?thesis using assms by (auto simp: sw_try_enqueue_def)
next
  case False
  then have lt: "unat (sw_write w) < 256" using assms(2) by simp
  have w': "w' = w\<lparr>sw_jobs := (sw_jobs w)[sw_slot (sw_write w) := j], sw_write := sw_write w + 1\<rparr>"
    and room: "\<not> 256 \<le> sw_write w + 1"
    using assms(1,3) by (auto simp: sw_try_enqueue_def split: if_splits)
  have "unat (sw_write w + 1) < 256" using room by (simp add: word_le_nat_alt)
  then show ?thesis using w' assms(1) by simp
qed

theorem session_writer_wrap_stalls:
  assumes "sw_read w = - 1" "sw_write w = - 1" "js \<noteq> []"
  shows "sw_try_pop (sw_enqueue_all w js) = None"
proof -
  have "sw_read (sw_enqueue_all w js) = - 1 \<and> (unat (sw_write (sw_enqueue_all w js)) < 256 \<or> sw_write (sw_enqueue_all w js) = - 1)"
    if "sw_read w = - 1" "unat (sw_write w) < 256 \<or> sw_write w = - 1" for w js
    using that
  proof (induction js arbitrary: w)
    case (Cons j js)
    then show ?case using sw_wrap_step [OF Cons.prems] by (auto split: option.splits)
  qed simp
  then have r: "sw_read (sw_enqueue_all w js) = - 1" using assms by blast
  have "sw_write (sw_enqueue_all w js) \<le> - 1" by (rule word_n1_ge)
  then show ?thesis by (simp add: sw_try_pop_def r)
qed

theorem session_writer_wrap_stalls_witness:
  "sw_try_pop (sw_enqueue_all (session_writer_init\<lparr>sw_read := - 1, sw_write := - 1\<rparr>)
     [\<lparr>wj_block = 1, wj_len = 2, wj_gen = 3, wj_auto_send = False\<rparr>]) = None"
  by (rule session_writer_wrap_stalls) simp_all

end
