(* ===== verification/Serial_Ao.thy ===== *)
theory Serial_Ao
  imports Core_Ctx
begin

text \<open>
  The serial active object (\<open>ao/xcom_ao.cpp\<close>): the owner of the port lifecycle. Its local state is
  the first component of a \<open>serial\<close> pair and the shared context the second; the published port state
  is the field \<open>c_port_state\<close> of the context, which the machine writes and never reads. The locale
  \<open>serial_sink\<close> states what the lifecycle relies on from the installed functions.
\<close>

section \<open>The transition table\<close>

datatype serial_event = EvOpen | EvClose | EvFault | EvOpenDone | EvCloseDone | EvCancel

datatype serial_action =
    ActNone | ActOwnerOpen | ActOwnerClose | ActCancelClose | ActOpenCommit | ActOpenFail | ActCloseCommit

type_synonym 'x serial = "port_state \<times> 'x core_scheme"

record 'c serial_edge =
  se_from :: port_state
  se_event :: serial_event
  se_guard :: "('c \<Rightarrow> bool) option"
  se_to :: port_state
  se_action :: serial_action
  se_publish_first :: bool

definition serial_open_succeeded :: "'x core_scheme \<Rightarrow> bool" where
  "serial_open_succeeded c \<longleftrightarrow> c_last_open_result c = XCOM_OK"

abbreviation edge ::
  "port_state \<Rightarrow> serial_event \<Rightarrow> ('c \<Rightarrow> bool) option \<Rightarrow> port_state \<Rightarrow> serial_action \<Rightarrow> bool \<Rightarrow> 'c serial_edge" where
  "edge f e g t a p \<equiv> \<lparr>se_from = f, se_event = e, se_guard = g, se_to = t, se_action = a, se_publish_first = p\<rparr>"

definition kSerialEdges :: "('x core_scheme) serial_edge list" where
  "kSerialEdges =
    [edge PORT_CLOSED  EvOpen      None                         PORT_OPENING ActOwnerOpen   True,
     edge PORT_FAULT   EvOpen      None                         PORT_OPENING ActOwnerOpen   True,
     edge PORT_OPENING EvOpenDone  (Some serial_open_succeeded) PORT_OPEN    ActOpenCommit  False,
     edge PORT_OPENING EvOpenDone  None                         PORT_CLOSED  ActOpenFail    False,
     edge PORT_OPENING EvCancel    None                         PORT_CLOSING ActCancelClose True,
     edge PORT_OPEN    EvClose     None                         PORT_CLOSING ActOwnerClose  True,
     edge PORT_FAULT   EvClose     None                         PORT_CLOSING ActOwnerClose  True,
     edge PORT_CLOSING EvClose     None                         PORT_CLOSING ActOwnerClose  True,
     edge PORT_CLOSING EvCloseDone None                         PORT_CLOSED  ActCloseCommit False,
     edge PORT_OPENING EvFault     None                         PORT_FAULT   ActOwnerClose  True,
     edge PORT_OPEN    EvFault     None                         PORT_FAULT   ActOwnerClose  True,
     edge PORT_CLOSING EvFault     None                         PORT_CLOSED  ActOwnerClose  True]"

definition serial_find_edge :: "serial_event \<Rightarrow> 'x serial \<Rightarrow> (('x core_scheme) serial_edge) option" where
  "serial_find_edge ev s =
     find (\<lambda>e. se_from e = fst s \<and> se_event e = ev \<and>
               (case se_guard e of None \<Rightarrow> True | Some g \<Rightarrow> g (snd s))) kSerialEdges"

section \<open>Actions and transitions\<close>

definition serial_publish :: "port_state \<Rightarrow> 'x serial \<Rightarrow> 'x serial" where
  "serial_publish st s = (st, (snd s)\<lparr>c_port_state := st\<rparr>)"

definition reset_display_at_commit :: "display_ring \<Rightarrow> 'x core_scheme \<Rightarrow> 'x core_scheme" where
  "reset_display_at_commit R c = snd (reset_display_committed R c)"

definition call_owner_open :: "'x core_sink \<Rightarrow> 'x core_scheme \<Rightarrow> 'x core_scheme" where
  "call_owner_open S c = (case sk_owner_open S of Some f \<Rightarrow> f c | None \<Rightarrow> c)"

definition call_owner_close :: "'x core_sink \<Rightarrow> 'x core_scheme \<Rightarrow> 'x core_scheme" where
  "call_owner_close S c = (case sk_owner_close S of Some f \<Rightarrow> f c | None \<Rightarrow> c)"

fun serial_run_action ::
  "'x core_sink \<Rightarrow> display_ring \<Rightarrow> serial_action \<Rightarrow> port_state \<Rightarrow> 'x core_scheme \<Rightarrow> port_state \<times> 'x core_scheme" where
  "serial_run_action S R ActOwnerOpen target c = (target, call_owner_open S c)"
| "serial_run_action S R ActOwnerClose target c = (target, call_owner_close S c)"
| "serial_run_action S R ActCancelClose target c =
     (case submit_control S SigClose 0 True c of
        (True, c1) \<Rightarrow> (target, c1)
      | (False, c1) \<Rightarrow>
          (PORT_FAULT, push_error XCOM_ERR_FULL 0 ''open cancellation close event rejected''
                         (call_owner_close S c1)))"
| "serial_run_action S R ActOpenCommit target c =
     (let c1 = c\<lparr>c_open_generation := c_open_generation c + 1\<rparr>;
          c2 = c1\<lparr>c_generation := c_open_generation c1, c_text := text_state_init\<rparr>;
          c3 = reset_display_at_commit R c2
      in (target, core_diag_emit S 0 DgOpenOk (cfg_baud (c_cfg c3)) (c_generation c3) 0 0 c3))"
| "serial_run_action S R ActOpenFail target c =
     (target, core_diag_emit S 0 DgOpenFail (of_int (c_last_open_result c)) (c_generation c) 0 0 c)"
| "serial_run_action S R ActCloseCommit target c =
     (let c1 = c\<lparr>c_generation := c_generation c + 1, c_text := text_state_init\<rparr>;
          c2 = reset_display_at_commit R c1
      in (target, core_diag_emit S 0 DgCloseOk (c_generation c2) 0 0 0 c2))"
| "serial_run_action S R ActNone target c = (target, c)"

definition serial_transition :: "'x core_sink \<Rightarrow> display_ring \<Rightarrow> serial_event \<Rightarrow> 'x serial \<Rightarrow> 'x serial" where
  "serial_transition S R ev s =
     (case serial_find_edge ev s of
        None \<Rightarrow> s
      | Some e \<Rightarrow>
          if se_publish_first e
          then (let s1 = serial_publish (se_to e) s;
                    (outcome, c) = serial_run_action S R (se_action e) (se_to e) (snd s1)
                in if outcome \<noteq> se_to e then serial_publish outcome (fst s1, c) else (fst s1, c))
          else (let (outcome, c) = serial_run_action S R (se_action e) (se_to e) (snd s)
                in serial_publish outcome (fst s, c)))"

definition serial_reconcile_pending_fault :: "'x core_sink \<Rightarrow> display_ring \<Rightarrow> 'x serial \<Rightarrow> 'x serial" where
  "serial_reconcile_pending_fault S R s =
     (let s1 = (fst s, (snd s)\<lparr>c_fault_pending := False\<rparr>)
      in if c_fault_pending (snd s) then serial_transition S R EvFault s1 else s1)"

text \<open>\<open>serial_open_from\<close> is \<open>serial_do_open\<close> after the heartbeat and the reconciliation.\<close>

definition serial_open_from :: "'x core_sink \<Rightarrow> display_ring \<Rightarrow> 'x serial \<Rightarrow> 'x serial" where
  "serial_open_from S R s2 =
     (let s3 = serial_transition S R EvOpen s2
      in if c_last_open_result (snd s3) \<noteq> XCOM_OK then serial_transition S R EvOpenDone s3
         else let s4 = (fst s3, (snd s3)\<lparr>c_cancel_open := False\<rparr>)
              in if c_cancel_open (snd s3) then serial_transition S R EvCancel s4
                 else serial_transition S R EvOpenDone s4)"

definition serial_do_open :: "'x core_sink \<Rightarrow> display_ring \<Rightarrow> u32 \<Rightarrow> 'x serial \<Rightarrow> 'x serial" where
  "serial_do_open S R now s =
     serial_open_from S R (serial_reconcile_pending_fault S R (fst s, beat_dispatcher now (snd s)))"

definition serial_do_close :: "'x core_sink \<Rightarrow> display_ring \<Rightarrow> u32 \<Rightarrow> 'x serial \<Rightarrow> 'x serial" where
  "serial_do_close S R now s =
     (let s1 = serial_transition S R EvClose (fst s, beat_dispatcher now (snd s));
          s2 = serial_transition S R EvCloseDone s1
      in (fst s2, (snd s2)\<lparr>c_fault_pending := False\<rparr>))"

definition serial_do_fault :: "'x core_sink \<Rightarrow> display_ring \<Rightarrow> u32 \<Rightarrow> 'x serial \<Rightarrow> 'x serial" where
  "serial_do_fault S R now s =
     (if fst s = PORT_FAULT then s
      else let s1 = (fst s, (beat_dispatcher now (snd s))\<lparr>c_fault_pending := False\<rparr>);
               s2 = serial_transition S R EvFault s1;
               c3 = push_error XCOM_ERR_IO 0 ''serial device removed / port fault; close then reopen'' (snd s2)
           in (fst s2, core_diag_emit S 0 DgFault (of_int XCOM_ERR_IO) (c_generation c3) 0 0 c3))"

section \<open>The table, edge by edge\<close>

lemma serial_find_edge_simps [simp]:
  "serial_find_edge EvOpen (st, c) =
     (if st = PORT_CLOSED \<or> st = PORT_FAULT then Some (edge st EvOpen None PORT_OPENING ActOwnerOpen True) else None)"
  "serial_find_edge EvOpenDone (st, c) =
     (if st = PORT_OPENING
      then Some (if serial_open_succeeded c
                 then edge st EvOpenDone (Some serial_open_succeeded) PORT_OPEN ActOpenCommit False
                 else edge st EvOpenDone None PORT_CLOSED ActOpenFail False)
      else None)"
  "serial_find_edge EvCancel (st, c) =
     (if st = PORT_OPENING then Some (edge st EvCancel None PORT_CLOSING ActCancelClose True) else None)"
  "serial_find_edge EvClose (st, c) =
     (if st = PORT_OPEN \<or> st = PORT_FAULT \<or> st = PORT_CLOSING
      then Some (edge st EvClose None PORT_CLOSING ActOwnerClose True) else None)"
  "serial_find_edge EvCloseDone (st, c) =
     (if st = PORT_CLOSING then Some (edge st EvCloseDone None PORT_CLOSED ActCloseCommit False) else None)"
  "serial_find_edge EvFault (st, c) =
     (if st = PORT_OPENING \<or> st = PORT_OPEN then Some (edge st EvFault None PORT_FAULT ActOwnerClose True)
      else if st = PORT_CLOSING then Some (edge st EvFault None PORT_CLOSED ActOwnerClose True) else None)"
  by (cases st; simp add: serial_find_edge_def kSerialEdges_def)+

section \<open>What the lifecycle relies on\<close>

text \<open>
  An installed function leaves the two generation counters alone, never withdraws a latched fault, and
  changes the published state, if at all, only to a fault that it also latches.
\<close>

definition serial_frame :: "'x core_scheme \<Rightarrow> 'x core_scheme \<Rightarrow> bool" where
  "serial_frame c c' \<longleftrightarrow> c_generation c' = c_generation c \<and> c_open_generation c' = c_open_generation c \<and>
     (c_fault_pending c \<longrightarrow> c_fault_pending c') \<and>
     (c_port_state c' = c_port_state c \<or> c_port_state c' = PORT_FAULT \<and> c_fault_pending c')"

lemma serial_frame_refl [simp]: "serial_frame c c"
  by (simp add: serial_frame_def)

lemma serial_frame_trans [trans]: "serial_frame a b \<Longrightarrow> serial_frame b c \<Longrightarrow> serial_frame a c"
  unfolding serial_frame_def by auto

text \<open>The published state is the local one, or a fault that is still to be adopted.\<close>

definition view_ok :: "'x serial \<Rightarrow> bool" where
  "view_ok s \<longleftrightarrow> c_port_state (snd s) = fst s \<or> c_port_state (snd s) = PORT_FAULT \<and> c_fault_pending (snd s)"

lemma frame_view: "serial_frame c c' \<Longrightarrow> c_port_state c = st \<Longrightarrow> view_ok (st, c')"
  by (auto simp: serial_frame_def view_ok_def)

lemma reset_display_at_commit_fields [simp]:
  "c_generation (reset_display_at_commit R c) = c_generation c"
  "c_open_generation (reset_display_at_commit R c) = c_open_generation c"
  "c_port_state (reset_display_at_commit R c) = c_port_state c"
  "c_fault_pending (reset_display_at_commit R c) = c_fault_pending c"
  "c_text (reset_display_at_commit R c) = c_text c"
  by (simp_all add: reset_display_at_commit_def reset_display_committed_def count_rejected_rx_def Let_def
    split: prod.splits)

lemma core_update_fields [simp]:
  "c_generation (push_error e k msg c) = c_generation c"
  "c_open_generation (push_error e k msg c) = c_open_generation c"
  "c_port_state (push_error e k msg c) = c_port_state c"
  "c_fault_pending (push_error e k msg c) = c_fault_pending c"
  "c_generation (beat_dispatcher now c) = c_generation c"
  "c_open_generation (beat_dispatcher now c) = c_open_generation c"
  "c_port_state (beat_dispatcher now c) = c_port_state c"
  "c_fault_pending (beat_dispatcher now c) = c_fault_pending c"
  by (simp_all add: push_error_def beat_dispatcher_def)

locale serial_sink =
  fixes S :: "'x core_sink"
  assumes open_law: "sk_owner_open S = Some f1 \<Longrightarrow> serial_frame c (f1 c)"
    and close_law: "sk_owner_close S = Some f2 \<Longrightarrow> serial_frame c (f2 c)"
    and control_law: "sk_submit_control S = Some f3 \<Longrightarrow> serial_frame c (snd (f3 sig word crit c))"
    and diag_law: "sk_diag_emit S = Some f4 \<Longrightarrow>
      serial_frame c (f4 src ev a0 a1 a2 a3 c) \<and> c_port_state (f4 src ev a0 a1 a2 a3 c) = c_port_state c \<and>
      c_fault_pending (f4 src ev a0 a1 a2 a3 c) = c_fault_pending c"
begin

lemma owner_open_frame: "serial_frame c (call_owner_open S c)"
  using open_law by (auto simp: call_owner_open_def split: option.splits)

lemma owner_close_frame: "serial_frame c (call_owner_close S c)"
  using close_law by (auto simp: call_owner_close_def split: option.splits)

lemma control_frame: "submit_control S sig w crit c = (ok, c') \<Longrightarrow> serial_frame c c'"
  using control_law [of _ c sig w crit] by (auto simp: submit_control_def split: option.splits)

lemma diag_frame [simp]:
  "c_generation (core_diag_emit S src ev a0 a1 a2 a3 c) = c_generation c"
  "c_open_generation (core_diag_emit S src ev a0 a1 a2 a3 c) = c_open_generation c"
  "c_port_state (core_diag_emit S src ev a0 a1 a2 a3 c) = c_port_state c"
  "c_fault_pending (core_diag_emit S src ev a0 a1 a2 a3 c) = c_fault_pending c"
  using diag_law by (auto simp: core_diag_emit_def serial_frame_def split: option.splits)


lemma open_transition:
  "serial_transition S R EvOpen (st, c) =
     (if st = PORT_CLOSED \<or> st = PORT_FAULT
      then (PORT_OPENING, call_owner_open S (c\<lparr>c_port_state := PORT_OPENING\<rparr>)) else (st, c))"
  by (simp add: serial_transition_def serial_publish_def)

text \<open>Completing an open: success enters a fresh session, failure returns to CLOSED.\<close>

lemma open_done_success:
  assumes "serial_open_succeeded c" "serial_transition S R EvOpenDone (PORT_OPENING, c) = (st', c')"
  shows "st' = PORT_OPEN" "c_port_state c' = PORT_OPEN" "c_generation c' = c_open_generation c + 1"
    "c_open_generation c' = c_open_generation c + 1" "c_fault_pending c' = c_fault_pending c"
  using assms by (auto simp: serial_transition_def serial_publish_def Let_def)

lemma open_done_failure:
  assumes "\<not> serial_open_succeeded c" "serial_transition S R EvOpenDone (PORT_OPENING, c) = (st', c')"
  shows "st' = PORT_CLOSED" "c_port_state c' = PORT_CLOSED" "c_generation c' = c_generation c"
    "c_open_generation c' = c_open_generation c" "c_fault_pending c' = c_fault_pending c"
  using assms by (auto simp: serial_transition_def serial_publish_def Let_def)

lemma open_done_elsewhere: "st \<noteq> PORT_OPENING \<Longrightarrow> serial_transition S R EvOpenDone (st, c) = (st, c)"
  by (simp add: serial_transition_def)

text \<open>A cancelled open hands itself over as a close, or lands in a visible fault.\<close>

lemma cancel_transition:
  assumes "serial_transition S R EvCancel (PORT_OPENING, c) = (st', c')"
  shows "st' = PORT_CLOSING \<or> st' = PORT_FAULT" "view_ok (st', c')" "c_generation c' = c_generation c"
    "c_open_generation c' = c_open_generation c" "c_fault_pending c \<Longrightarrow> c_fault_pending c'"
proof -
  let ?c = "c\<lparr>c_port_state := PORT_CLOSING\<rparr>"
  obtain ok c1 where s: "submit_control S SigClose 0 True ?c = (ok, c1)" by (meson surj_pair)
  note f1 = control_frame [OF s]
  note f2 = owner_close_frame [of c1]
  have "(st' = PORT_CLOSING \<or> st' = PORT_FAULT) \<and> view_ok (st', c') \<and> c_generation c' = c_generation c \<and>
    c_open_generation c' = c_open_generation c \<and> (c_fault_pending c \<longrightarrow> c_fault_pending c')"
    using assms s f1 f2
    by (cases ok) (auto simp: serial_transition_def serial_publish_def serial_frame_def view_ok_def)
  then show "st' = PORT_CLOSING \<or> st' = PORT_FAULT" "view_ok (st', c')" "c_generation c' = c_generation c"
    "c_open_generation c' = c_open_generation c" "c_fault_pending c \<Longrightarrow> c_fault_pending c'" by auto
qed

lemma close_transition:
  "serial_transition S R EvClose (st, c) =
     (if st = PORT_OPEN \<or> st = PORT_FAULT \<or> st = PORT_CLOSING
      then (PORT_CLOSING, call_owner_close S (c\<lparr>c_port_state := PORT_CLOSING\<rparr>)) else (st, c))"
  by (simp add: serial_transition_def serial_publish_def)

lemma close_done_transition:
  assumes "serial_transition S R EvCloseDone (PORT_CLOSING, c) = (st', c')"
  shows "st' = PORT_CLOSED" "c_port_state c' = PORT_CLOSED" "c_generation c' = c_generation c + 1"
    "c_open_generation c' = c_open_generation c"
  using assms by (auto simp: serial_transition_def serial_publish_def Let_def)

lemma close_done_elsewhere: "st \<noteq> PORT_CLOSING \<Longrightarrow> serial_transition S R EvCloseDone (st, c) = (st, c)"
  by (simp add: serial_transition_def)

lemma fault_transition:
  "serial_transition S R EvFault (st, c) =
     (if st = PORT_OPENING \<or> st = PORT_OPEN then (PORT_FAULT, call_owner_close S (c\<lparr>c_port_state := PORT_FAULT\<rparr>))
      else if st = PORT_CLOSING then (PORT_CLOSED, call_owner_close S (c\<lparr>c_port_state := PORT_CLOSED\<rparr>))
      else (st, c))"
  by (simp add: serial_transition_def serial_publish_def)

text \<open>One handler each: a close always ends closed, with the generation moved on once.\<close>

lemma do_close_closes:
  assumes "st = PORT_OPEN \<or> st = PORT_FAULT \<or> st = PORT_CLOSING" "serial_do_close S R now (st, c) = (st', c')"
  shows "st' = PORT_CLOSED" "c_port_state c' = PORT_CLOSED" "\<not> c_fault_pending c'"
    "c_generation c' = c_generation c + 1" "c_open_generation c' = c_open_generation c"
proof -
  let ?c1 = "call_owner_close S ((beat_dispatcher now c)\<lparr>c_port_state := PORT_CLOSING\<rparr>)"
  obtain sa ca where d: "serial_transition S R EvCloseDone (PORT_CLOSING, ?c1) = (sa, ca)" by (meson surj_pair)
  note cd = close_done_transition [OF d]
  have e: "(st', c') = (sa, ca\<lparr>c_fault_pending := False\<rparr>)"
    using assms d by (auto simp: serial_do_close_def close_transition Let_def)
  show "st' = PORT_CLOSED" "c_port_state c' = PORT_CLOSED" "\<not> c_fault_pending c'"
    "c_generation c' = c_generation c + 1" "c_open_generation c' = c_open_generation c"
    using e cd owner_close_frame [of "(beat_dispatcher now c)\<lparr>c_port_state := PORT_CLOSING\<rparr>"]
    by (auto simp: serial_frame_def)
qed

lemma do_fault_outcome:
  assumes "serial_do_fault S R now (st, c) = (st', c')" "view_ok (st, c)" "st = PORT_CLOSED \<longrightarrow> c_port_state c = PORT_CLOSED"
  shows "st' = (case st of PORT_OPENING \<Rightarrow> PORT_FAULT | PORT_OPEN \<Rightarrow> PORT_FAULT | PORT_CLOSING \<Rightarrow> PORT_CLOSED | _ \<Rightarrow> st)"
    "view_ok (st', c')" "c_generation c' = c_generation c" "c_open_generation c' = c_open_generation c"
proof -
  let ?c = "(beat_dispatcher now c)\<lparr>c_fault_pending := False\<rparr>"
  note f = owner_close_frame [of "?c\<lparr>c_port_state := PORT_FAULT\<rparr>"] owner_close_frame [of "?c\<lparr>c_port_state := PORT_CLOSED\<rparr>"]
  have "st' = (case st of PORT_OPENING \<Rightarrow> PORT_FAULT | PORT_OPEN \<Rightarrow> PORT_FAULT | PORT_CLOSING \<Rightarrow> PORT_CLOSED | _ \<Rightarrow> st) \<and>
    view_ok (st', c') \<and> c_generation c' = c_generation c \<and> c_open_generation c' = c_open_generation c"
    using assms f by (cases st) (auto simp: serial_do_fault_def fault_transition Let_def view_ok_def serial_frame_def)
  then show "st' = (case st of PORT_OPENING \<Rightarrow> PORT_FAULT | PORT_OPEN \<Rightarrow> PORT_FAULT | PORT_CLOSING \<Rightarrow> PORT_CLOSED | _ \<Rightarrow> st)"
    "view_ok (st', c')" "c_generation c' = c_generation c" "c_open_generation c' = c_open_generation c" by auto
qed

lemma open_from_outcome:
  assumes "st = PORT_CLOSED \<or> st = PORT_FAULT" "serial_open_from S R (st, c) = (st', c')"
    and c1: "c1 = call_owner_open S (c\<lparr>c_port_state := PORT_OPENING\<rparr>)"
  shows "if c_last_open_result c1 \<noteq> XCOM_OK
     then st' = PORT_CLOSED \<and> c_port_state c' = PORT_CLOSED \<and> c_generation c' = c_generation c \<and>
          c_open_generation c' = c_open_generation c
     else if c_cancel_open c1
     then (st' = PORT_CLOSING \<or> st' = PORT_FAULT) \<and> view_ok (st', c') \<and> c_generation c' = c_generation c \<and>
          c_open_generation c' = c_open_generation c
     else st' = PORT_OPEN \<and> c_port_state c' = PORT_OPEN \<and> c_generation c' = c_open_generation c + 1 \<and>
          c_open_generation c' = c_open_generation c + 1"
proof -
  have g: "c_generation c1 = c_generation c" "c_open_generation c1 = c_open_generation c"
    using owner_open_frame [of "c\<lparr>c_port_state := PORT_OPENING\<rparr>"] c1 by (simp_all add: serial_frame_def)
  have red: "serial_open_from S R (st, c) =
    (if c_last_open_result c1 \<noteq> XCOM_OK then serial_transition S R EvOpenDone (PORT_OPENING, c1)
     else let c2 = c1\<lparr>c_cancel_open := False\<rparr>
          in if c_cancel_open c1 then serial_transition S R EvCancel (PORT_OPENING, c2)
             else serial_transition S R EvOpenDone (PORT_OPENING, c2))"
    using assms(1) by (simp add: serial_open_from_def open_transition c1 Let_def)
  consider "c_last_open_result c1 \<noteq> XCOM_OK" | "c_last_open_result c1 = XCOM_OK" "c_cancel_open c1"
    | "c_last_open_result c1 = XCOM_OK" "\<not> c_cancel_open c1" by blast
  then show ?thesis
  proof cases
    case 1
    then show ?thesis
      using open_done_failure [of c1 R st' c'] assms(2) red g by (simp add: serial_open_succeeded_def)
  next
    case 2
    then show ?thesis
      using cancel_transition [of R "c1\<lparr>c_cancel_open := False\<rparr>" st' c'] assms(2) red g by (simp add: Let_def)
  next
    case 3
    then show ?thesis
      using open_done_success [of "c1\<lparr>c_cancel_open := False\<rparr>" R st' c'] assms(2) red g
      by (simp add: Let_def serial_open_succeeded_def)
  qed
qed

text \<open>An open request in any other state of rest changes nothing but a stale cancel flag.\<close>

lemma open_from_elsewhere:
  assumes "st = PORT_OPEN \<or> st = PORT_CLOSING"
  shows "\<exists>b. serial_open_from S R (st, c) = (st, c\<lparr>c_cancel_open := b\<rparr>)"
proof -
  have t: "serial_transition S R EvCancel (st, d) = (st, d)" "serial_transition S R EvOpenDone (st, d) = (st, d)"
    "serial_transition S R EvOpen (st, d) = (st, d)" for d
    using assms by (auto simp: serial_transition_def)
  have "serial_open_from S R (st, c) =
      (st, c\<lparr>c_cancel_open := (c_last_open_result c \<noteq> XCOM_OK \<and> c_cancel_open c)\<rparr>)"
    by (simp add: serial_open_from_def t Let_def)
  then show ?thesis ..
qed

text \<open>The reconciliation only clears the latch unless a session is there to be released.\<close>

lemma reconcile_idle:
  assumes "\<not> c_fault_pending c \<or> st = PORT_CLOSED \<or> st = PORT_FAULT"
  shows "serial_reconcile_pending_fault S R (st, c) = (st, c\<lparr>c_fault_pending := False\<rparr>)"
  using assms by (auto simp: serial_reconcile_pending_fault_def fault_transition Let_def)

text \<open>A latched fault is adopted before the open: the stale session is released first.\<close>

lemma reconcile_outcome:
  assumes "serial_reconcile_pending_fault S R (st, c) = (st', c')" "c_fault_pending c" "st = PORT_OPEN \<or> st = PORT_OPENING"
  shows "st' = PORT_FAULT"
    "c' = call_owner_close S (c\<lparr>c_fault_pending := False, c_port_state := PORT_FAULT\<rparr>)"
  using assms by (auto simp: serial_reconcile_pending_fault_def fault_transition Let_def)

end

end
