(* ===== verification/Serial_Backend.thy ===== *)
theory Serial_Backend
  imports Prelude
begin

text \<open>
  The Win32 serial adapter (\<open>io/serial_backend_win.hpp\<close>, \<open>.cpp\<close>). The Win32 calls are arguments: each
  function takes the outcomes of the calls it makes, in the order it makes them, and returns what
  the adapter did with them. Native error codes are integers.
\<close>

section \<open>Native codes and line bits\<close>

definition ERROR_SUCCESS :: i32 where [simp]: "ERROR_SUCCESS = 0"
definition ERROR_FILE_NOT_FOUND :: i32 where [simp]: "ERROR_FILE_NOT_FOUND = 2"
definition ERROR_PATH_NOT_FOUND :: i32 where [simp]: "ERROR_PATH_NOT_FOUND = 3"
definition ERROR_ACCESS_DENIED :: i32 where [simp]: "ERROR_ACCESS_DENIED = 5"
definition ERROR_INVALID_HANDLE :: i32 where [simp]: "ERROR_INVALID_HANDLE = 6"
definition ERROR_NOT_ENOUGH_MEMORY :: i32 where [simp]: "ERROR_NOT_ENOUGH_MEMORY = 8"
definition ERROR_WRITE_FAULT :: i32 where [simp]: "ERROR_WRITE_FAULT = 29"
definition ERROR_SHARING_VIOLATION :: i32 where [simp]: "ERROR_SHARING_VIOLATION = 32"
definition ERROR_NOT_SUPPORTED :: i32 where [simp]: "ERROR_NOT_SUPPORTED = 50"
definition ERROR_INVALID_PARAMETER :: i32 where [simp]: "ERROR_INVALID_PARAMETER = 87"
definition ERROR_OPERATION_ABORTED :: i32 where [simp]: "ERROR_OPERATION_ABORTED = 995"
definition ERROR_TIMEOUT :: i32 where [simp]: "ERROR_TIMEOUT = 1460"
definition ERROR_DEVICE_REMOVED :: i32 where [simp]: "ERROR_DEVICE_REMOVED = 1617"

definition kReadChunkBytes :: nat where [simp]: "kReadChunkBytes = 4096"
definition kMaxWriteIterations :: nat where [simp]: "kMaxWriteIterations = 8"

definition kLineStatusCtsHold :: u32 where [simp]: "kLineStatusCtsHold = 1"
definition kLineStatusDsrHold :: u32 where [simp]: "kLineStatusDsrHold = 2"
definition kLineStatusXoffHold :: u32 where [simp]: "kLineStatusXoffHold = 4"
definition kLineStatusRlsdHold :: u32 where [simp]: "kLineStatusRlsdHold = 8"

definition kModemCts :: u32 where [simp]: "kModemCts = 1"
definition kModemDsr :: u32 where [simp]: "kModemDsr = 2"
definition kModemRing :: u32 where [simp]: "kModemRing = 4"
definition kModemRlsd :: u32 where [simp]: "kModemRlsd = 8"
definition kModemValid :: u32 where [simp]: "kModemValid = 0x80000000"

section \<open>Pure helpers\<close>

definition describe_write_failure :: "i32 \<Rightarrow> u32 \<Rightarrow> string" where
  "describe_write_failure error line_status =
     (if error \<noteq> ERROR_TIMEOUT then ''Win32 serial write failed''
      else if line_status AND kLineStatusCtsHold \<noteq> 0
      then ''Win32 serial write timeout: CTS not asserted (peer not ready or flow control stalled)''
      else if line_status AND kLineStatusDsrHold \<noteq> 0
      then ''Win32 serial write timeout: DSR not asserted (peer not ready)''
      else if line_status AND kLineStatusXoffHold \<noteq> 0
      then ''Win32 serial write timeout: peer sent XOFF (software flow control paused)''
      else ''Win32 serial write timeout: peer not reading (TX buffer full)'')"

text \<open>A null property buffer is \<open>None\<close>. The result is the text before the terminator.\<close>

definition copy_first_multi_sz :: "u8 list option \<Rightarrow> nat \<Rightarrow> u8 list" where
  "copy_first_multi_sz raw out_size =
     (case raw of None \<Rightarrow> [] | Some bytes \<Rightarrow> take (out_size - 1) (takeWhile (\<lambda>b. b \<noteq> 0) bytes))"

datatype line_drive = Deassert | Assert | LeaveAlone

definition line_drive_of_code :: "u8 \<Rightarrow> line_drive option" where
  "line_drive_of_code n = (if n = 0 then Some Deassert else if n = 1 then Some Assert
     else if n = 2 then Some LeaveAlone else None)"

text \<open>The drives are kept as the raw byte the ABI passed; \<open>valid_line_drive\<close> is the range test.\<close>

record serial_options =
  so_port_name :: string
  so_baud :: u32
  so_data_bits :: u8
  so_stop_bits :: u8
  so_parity :: u8
  so_flow_control :: u8
  so_dtr_drive :: u8
  so_rts_drive :: u8

definition valid_line_drive :: "u8 \<Rightarrow> bool" where
  "valid_line_drive d \<longleftrightarrow> line_drive_of_code d \<noteq> None"

definition valid_line_format :: "u8 \<Rightarrow> u8 \<Rightarrow> bool" where
  "valid_line_format data_bits stop_bits \<longleftrightarrow>
     \<not> (data_bits < 5 \<or> data_bits > 8) \<and> \<not> stop_bits > 2 \<and> \<not> (stop_bits = 1 \<and> data_bits \<noteq> 5)"

definition map_stop_bits :: "u8 \<Rightarrow> u8" where
  "map_stop_bits v = (if v = 1 then 1 else if v = 2 then 2 else 0)"

definition map_parity :: "u8 \<Rightarrow> u8" where
  "map_parity v = (if v = 1 then 1 else if v = 2 then 2 else if v = 3 then 3 else if v = 4 then 4 else 0)"

definition validate_serial_options :: "serial_options \<Rightarrow> i32 option" where
  "validate_serial_options s =
     (if so_baud s = 0 \<or> so_parity s > 4 \<or> so_flow_control s > 2 then Some ERROR_INVALID_PARAMETER
      else if \<not> valid_line_format (so_data_bits s) (so_stop_bits s) then Some ERROR_INVALID_PARAMETER
      else if \<not> valid_line_drive (so_dtr_drive s) \<or> \<not> valid_line_drive (so_rts_drive s)
      then Some ERROR_INVALID_PARAMETER
      else None)"

definition device_path :: "string \<Rightarrow> string" where
  "device_path wide = (let p = [CHR 0x5C, CHR 0x5C, CHR ''.'', CHR 0x5C]
     in if take 4 wide = p then wide else p @ wide)"

text \<open>
  \<open>to_wide\<close> is the UTF-8 conversion (empty on invalid input), \<open>create_file\<close> the exclusive open: the
  native error, or \<open>None\<close> for a handle (which the probe closes).
\<close>

definition probe_port_busy :: "(string \<Rightarrow> string) \<Rightarrow> (string \<Rightarrow> i32 option) \<Rightarrow> string \<Rightarrow> bool" where
  "probe_port_busy to_wide create_file port_name =
     (if port_name = [] then False
      else if to_wide port_name = [] then False
      else case create_file (device_path (to_wide port_name)) of
          Some e \<Rightarrow> e = ERROR_ACCESS_DENIED \<or> e = ERROR_SHARING_VIOLATION
        | None \<Rightarrow> False)"

section \<open>Programming the port\<close>

datatype rts_control = RtsDisable | RtsEnable | RtsHandshake
datatype modem_pin = PinDtr | PinRts

record dcb =
  dcb_baud :: u32
  dcb_byte_size :: u8
  dcb_stop_bits :: u8
  dcb_parity :: u8
  dcb_binary :: bool
  dcb_parity_check :: bool
  dcb_outx_cts_flow :: bool
  dcb_rts_control :: rts_control
  dcb_dtr_enable :: bool
  dcb_out_x :: bool
  dcb_in_x :: bool
  dcb_abort_on_error :: bool

definition dcb_of_options :: "serial_options \<Rightarrow> dcb" where
  "dcb_of_options s =
     (let handshake = (so_flow_control s = 1)
      in \<lparr>dcb_baud = so_baud s, dcb_byte_size = so_data_bits s,
          dcb_stop_bits = map_stop_bits (so_stop_bits s), dcb_parity = map_parity (so_parity s),
          dcb_binary = True, dcb_parity_check = (so_parity s \<noteq> 0), dcb_outx_cts_flow = handshake,
          dcb_rts_control = (if handshake then RtsHandshake
                             else if line_drive_of_code (so_rts_drive s) = Some Assert then RtsEnable else RtsDisable),
          dcb_dtr_enable = (line_drive_of_code (so_dtr_drive s) = Some Assert),
          dcb_out_x = (so_flow_control s = 2), dcb_in_x = (so_flow_control s = 2),
          dcb_abort_on_error = False\<rparr>)"

text \<open>The answers of the six calls \<open>configure\<close> makes: an error code, or success.\<close>

record configure_answers =
  ca_setup :: "i32 option"
  ca_get_state :: "i32 option"
  ca_set_state :: "dcb \<Rightarrow> i32 option"
  ca_read_back :: "i32 + dcb"
  ca_escape :: "modem_pin \<Rightarrow> bool \<Rightarrow> i32 option"
  ca_timeouts :: "i32 option"

text \<open>
  The result: the error (\<open>None\<close> for success), the RTS/CTS flag if it was stored, the pin writes issued
  and the warnings reported.
\<close>

record configure_result =
  cr_error :: "i32 option"
  cr_handshake :: "bool option"
  cr_pins :: "(modem_pin \<times> bool) list"
  cr_warnings :: "(modem_pin \<times> i32) list"

definition configure_fails :: "i32 \<Rightarrow> configure_result" where
  "configure_fails e = \<lparr>cr_error = Some e, cr_handshake = None, cr_pins = [], cr_warnings = []\<rparr>"

definition replay_pin :: "configure_answers \<Rightarrow> modem_pin \<Rightarrow> u8 \<Rightarrow> (modem_pin \<times> bool) list \<times> (modem_pin \<times> i32) list" where
  "replay_pin A pin drive =
     (if line_drive_of_code drive = Some LeaveAlone then ([], [])
      else let level = (line_drive_of_code drive = Some Assert)
           in ([(pin, level)], case ca_escape A pin level of Some e \<Rightarrow> [(pin, e)] | None \<Rightarrow> []))"

definition configure :: "configure_answers \<Rightarrow> serial_options \<Rightarrow> configure_result" where
  "configure A s =
     (case ca_setup A of Some e \<Rightarrow> configure_fails e | None \<Rightarrow>
      case ca_get_state A of Some e \<Rightarrow> configure_fails e | None \<Rightarrow>
      let d = dcb_of_options s
      in case ca_set_state A d of Some e \<Rightarrow> configure_fails e | None \<Rightarrow>
         case ca_read_back A of Inl e \<Rightarrow> configure_fails e | Inr verified \<Rightarrow>
         if verified \<noteq> d then configure_fails ERROR_NOT_SUPPORTED
         else let handshake = (so_flow_control s = 1);
                  (p1, w1) = replay_pin A PinDtr (so_dtr_drive s);
                  (p2, w2) = (if handshake then ([], []) else replay_pin A PinRts (so_rts_drive s))
              in \<lparr>cr_error = ca_timeouts A, cr_handshake = Some handshake, cr_pins = p1 @ p2, cr_warnings = w1 @ w2\<rparr>)"

definition pin_warning :: "(i32 \<Rightarrow> string) \<Rightarrow> modem_pin \<times> i32 \<Rightarrow> string" where
  "pin_warning show_int w =
     (let name = (case fst w of PinDtr \<Rightarrow> ''DTR'' | PinRts \<Rightarrow> ''RTS'')
      in ''open warning (non-fatal): '' @ name @ '' pin write failed, Win32 error '' @ show_int (snd w) @
         ''; '' @ name @ '' not driven'')"

section \<open>The adapter's state\<close>

record backend =
  sb_port :: bool                \<comment> \<open>the port handle is valid\<close>
  sb_events :: bool              \<comment> \<open>the three events are valid\<close>
  sb_callbacks :: bool           \<comment> \<open>the read, fault and line callbacks are installed\<close>
  sb_reader :: bool              \<comment> \<open>the read thread is joinable\<close>
  sb_stop_requested :: bool
  sb_open :: bool
  sb_write_in_flight :: bool
  sb_rts_handshake :: bool
  sb_last_holds :: u32
  sb_last_modem :: u32

definition backend_init :: backend where
  "backend_init = \<lparr>sb_port = False, sb_events = False, sb_callbacks = False, sb_reader = False,
     sb_stop_requested = False, sb_open = False, sb_write_in_flight = False, sb_rts_handshake = False,
     sb_last_holds = 0, sb_last_modem = 0\<rparr>"

definition backend_close :: "backend \<Rightarrow> backend" where
  "backend_close b = b\<lparr>sb_stop_requested := True, sb_reader := False, sb_callbacks := False, sb_open := False,
     sb_write_in_flight := False, sb_port := False, sb_events := False\<rparr>"

text \<open>
  What the platform answers to an open: the wide name (empty on a conversion failure), the exclusive
  open, the error of a failed event creation, the port programming, and whether an allocation or the
  thread start throws.
\<close>

record open_answers =
  oa_to_wide :: "string \<Rightarrow> string"
  oa_name_throws :: bool
  oa_create_file :: "string \<Rightarrow> i32 option"
  oa_events :: "i32 option"
  oa_configure :: configure_answers
  oa_thread_throws :: bool

definition backend_open ::
  "open_answers \<Rightarrow> serial_options \<Rightarrow> backend \<Rightarrow> bool \<times> i32 \<times> (modem_pin \<times> i32) list \<times> backend" where
  "backend_open A s b =
     (let b0 = backend_close b
      in case validate_serial_options s of Some e \<Rightarrow> (False, e, [], b0) | None \<Rightarrow>
         if oa_name_throws A then (False, ERROR_NOT_ENOUGH_MEMORY, [], backend_close b0)
         else if oa_to_wide A (so_port_name s) = [] then (False, ERROR_INVALID_PARAMETER, [], b0)
         else case oa_create_file A (device_path (oa_to_wide A (so_port_name s))) of
             Some e \<Rightarrow> (False, e, [], b0)
           | None \<Rightarrow>
           let b1 = b0\<lparr>sb_port := True\<rparr>
           in case oa_events A of Some e \<Rightarrow> (False, e, [], backend_close b1) | None \<Rightarrow>
              let b2 = b1\<lparr>sb_events := True\<rparr>; r = configure (oa_configure A) s;
                  b3 = (case cr_handshake r of Some h \<Rightarrow> b2\<lparr>sb_rts_handshake := h\<rparr> | None \<Rightarrow> b2)
              in case cr_error r of Some e \<Rightarrow> (False, e, cr_warnings r, backend_close b3) | None \<Rightarrow>
                 let b4 = b3\<lparr>sb_callbacks := True, sb_last_holds := 0, sb_last_modem := 0,
                             sb_stop_requested := False, sb_open := True\<rparr>
                 in if oa_thread_throws A then (False, ERROR_NOT_ENOUGH_MEMORY, cr_warnings r, backend_close b4)
                    else (True, ERROR_SUCCESS, cr_warnings r, b4\<lparr>sb_reader := True\<rparr>))"

datatype line_apply_result = LineApplied | LineDriverOwned | LineFailed | LineClosed

definition set_rts :: "(modem_pin \<Rightarrow> bool \<Rightarrow> i32 option) \<Rightarrow> bool \<Rightarrow> backend \<Rightarrow> line_apply_result" where
  "set_rts escape asserted b =
     (if \<not> sb_port b then LineClosed
      else if sb_rts_handshake b then LineDriverOwned
      else case escape PinRts asserted of Some _ \<Rightarrow> LineFailed | None \<Rightarrow> LineApplied)"

definition set_dtr :: "(modem_pin \<Rightarrow> bool \<Rightarrow> i32 option) \<Rightarrow> bool \<Rightarrow> backend \<Rightarrow> line_apply_result" where
  "set_dtr escape asserted b =
     (if \<not> sb_port b then LineClosed
      else case escape PinDtr asserted of Some _ \<Rightarrow> LineFailed | None \<Rightarrow> LineApplied)"

section \<open>Line status\<close>

record comstat =
  cs_cts_hold :: bool
  cs_dsr_hold :: bool
  cs_xoff_hold :: bool
  cs_rlsd_hold :: bool
  cs_in_que :: u32
  cs_out_que :: u32

definition CE_RXOVER :: u32 where [simp]: "CE_RXOVER = 1"
definition CE_OVERRUN :: u32 where [simp]: "CE_OVERRUN = 2"
definition CE_RXPARITY :: u32 where [simp]: "CE_RXPARITY = 4"
definition CE_FRAME :: u32 where [simp]: "CE_FRAME = 8"
definition CE_BREAK :: u32 where [simp]: "CE_BREAK = 16"

text \<open>
  The driver's error latch is the argument \<open>latch\<close>; a successful \<open>ClearCommError\<close> returns it and leaves
  it empty, which is the documented effect of the call. \<open>None\<close> for the queue state is a failed call.
\<close>

definition clear_comm_error :: "comstat option \<Rightarrow> u32 \<Rightarrow> (u32 \<times> comstat) option \<times> u32" where
  "clear_comm_error answer latch = (case answer of None \<Rightarrow> (None, latch) | Some st \<Rightarrow> (Some (latch, st), 0))"

definition bit_if :: "bool \<Rightarrow> u32 \<Rightarrow> u32" where
  "bit_if p w = (if p then w else 0)"

definition capture_line_status :: "comstat option \<Rightarrow> backend \<Rightarrow> u32 \<Rightarrow> u32 \<times> u32" where
  "capture_line_status answer b latch =
     (if \<not> sb_port b then (0, latch)
      else case clear_comm_error answer latch of
          (None, latch') \<Rightarrow> (0, latch')
        | (Some (_, st), latch') \<Rightarrow>
            (bit_if (cs_cts_hold st) kLineStatusCtsHold OR bit_if (cs_dsr_hold st) kLineStatusDsrHold OR
             bit_if (cs_xoff_hold st) kLineStatusXoffHold, latch'))"

record modem_raw =
  mr_cts :: bool
  mr_dsr :: bool
  mr_ring :: bool
  mr_rlsd :: bool

definition fold_holds :: "comstat \<Rightarrow> u32" where
  "fold_holds st =
     bit_if (cs_cts_hold st) kLineStatusCtsHold OR bit_if (cs_dsr_hold st) kLineStatusDsrHold OR
     bit_if (cs_xoff_hold st) kLineStatusXoffHold OR bit_if (cs_rlsd_hold st) kLineStatusRlsdHold"

definition pack_modem :: "modem_raw option \<Rightarrow> u32" where
  "pack_modem m =
     (case m of None \<Rightarrow> 0
      | Some r \<Rightarrow> kModemValid OR bit_if (mr_cts r) kModemCts OR bit_if (mr_dsr r) kModemDsr OR
          bit_if (mr_ring r) kModemRing OR bit_if (mr_rlsd r) kModemRlsd)"

record line_status =
  ls_framing :: u32
  ls_parity :: u32
  ls_overrun :: u32
  ls_break :: u32
  ls_hold :: u32
  ls_error_flags :: u32
  ls_in_que :: u32
  ls_out_que :: u32
  ls_modem_lines :: u32

definition classify_line :: "u32 \<Rightarrow> comstat \<Rightarrow> bool \<Rightarrow> u32 \<Rightarrow> line_status" where
  "classify_line errors st hold modem =
     \<lparr>ls_framing = (if errors AND CE_FRAME \<noteq> 0 then 1 else 0),
      ls_parity = (if errors AND CE_RXPARITY \<noteq> 0 then 1 else 0),
      ls_overrun = (if errors AND (CE_RXOVER OR CE_OVERRUN) \<noteq> 0 then 1 else 0),
      ls_break = (if errors AND CE_BREAK \<noteq> 0 then 1 else 0),
      ls_hold = (if hold then 1 else 0), ls_error_flags = errors,
      ls_in_que = cs_in_que st, ls_out_que = cs_out_que st, ls_modem_lines = modem\<rparr>"

definition poll_line_status ::
  "comstat option \<Rightarrow> modem_raw option \<Rightarrow> backend \<Rightarrow> u32 \<Rightarrow> line_status option \<times> backend \<times> u32" where
  "poll_line_status answer raw b latch =
     (if \<not> sb_port b \<or> \<not> sb_callbacks b then (None, b, latch)
      else case clear_comm_error answer latch of
          (None, latch') \<Rightarrow> (None, b, latch')
        | (Some (errors, st), latch') \<Rightarrow>
            let holds = fold_holds st; hold_edge = (holds \<noteq> sb_last_holds b); modem = pack_modem raw;
                modem_edge = (modem \<noteq> sb_last_modem b);
                b' = b\<lparr>sb_last_holds := holds, sb_last_modem := modem\<rparr>
            in if errors = 0 \<and> (\<not> hold_edge \<or> holds = 0) \<and> \<not> modem_edge then (None, b', latch')
               else (Some (classify_line errors st (hold_edge \<and> holds \<noteq> 0) modem), b', latch'))"

section \<open>Writing a block\<close>

text \<open>
  What one \<open>WriteFile\<close> attempt comes to, with the number of bytes of the chunk the driver had taken by
  the time the attempt was given up (the call reports that number only on completion).
\<close>

datatype write_outcome =
    WoDone nat                    \<comment> \<open>completed, at once or overlapped, reporting a count\<close>
  | WoError i32 nat               \<comment> \<open>failed at once\<close>
  | WoTimeout "comstat option" nat \<comment> \<open>the wait timed out; the queue state sampled before the cancel\<close>
  | WoWaitFailed i32 nat
  | WoReapFailed i32 nat

record write_result =
  wr_ok :: bool
  wr_written :: nat
  wr_error :: i32
  wr_line_status :: u32
  wr_accepted :: "u8 list"       \<comment> \<open>the bytes the driver took, over all attempts\<close>

fun write_loop ::
  "nat \<Rightarrow> (nat \<Rightarrow> u8 list \<Rightarrow> write_outcome) \<Rightarrow> backend \<Rightarrow> u8 list \<Rightarrow> nat \<Rightarrow> u8 list \<Rightarrow> write_result" where
  "write_loop 0 drv b data sent out =
     \<lparr>wr_ok = False, wr_written = sent, wr_error = ERROR_WRITE_FAULT, wr_line_status = 0, wr_accepted = out\<rparr>"
| "write_loop (Suc n) drv b data sent out =
     (let chunk = drop sent data
      in case drv (kMaxWriteIterations - Suc n) chunk of
           WoDone reported \<Rightarrow>
             (let got = min reported (length chunk); sent' = sent + got; out' = out @ take got chunk
              in if sent' \<ge> length data
                 then \<lparr>wr_ok = True, wr_written = sent', wr_error = ERROR_SUCCESS, wr_line_status = 0, wr_accepted = out'\<rparr>
                 else if got = 0
                 then \<lparr>wr_ok = False, wr_written = sent', wr_error = ERROR_WRITE_FAULT, wr_line_status = 0, wr_accepted = out'\<rparr>
                 else write_loop n drv b data sent' out')
         | WoError e took \<Rightarrow>
             \<lparr>wr_ok = False, wr_written = sent, wr_error = e, wr_line_status = 0, wr_accepted = out @ take took chunk\<rparr>
         | WoTimeout st took \<Rightarrow>
             \<lparr>wr_ok = False, wr_written = sent, wr_error = ERROR_TIMEOUT,
              wr_line_status = fst (capture_line_status st b 0), wr_accepted = out @ take took chunk\<rparr>
         | WoWaitFailed e took \<Rightarrow>
             \<lparr>wr_ok = False, wr_written = sent, wr_error = e, wr_line_status = 0, wr_accepted = out @ take took chunk\<rparr>
         | WoReapFailed e took \<Rightarrow>
             \<lparr>wr_ok = False, wr_written = sent, wr_error = e, wr_line_status = 0, wr_accepted = out @ take took chunk\<rparr>)"

definition backend_write :: "(nat \<Rightarrow> u8 list \<Rightarrow> write_outcome) \<Rightarrow> backend \<Rightarrow> u8 list \<Rightarrow> write_result" where
  "backend_write drv b data =
     (if \<not> sb_open b \<or> \<not> sb_port b \<or> data = []
      then \<lparr>wr_ok = False, wr_written = 0, wr_error = ERROR_INVALID_PARAMETER, wr_line_status = 0, wr_accepted = []\<rparr>
      else write_loop kMaxWriteIterations drv b data 0 [])"

text \<open>Whether the teardown cancels the pending write; \<open>drained\<close> says it finished in the grace period.\<close>

definition abort_pending_write :: "bool \<Rightarrow> backend \<Rightarrow> bool" where
  "abort_pending_write drained b =
     (if \<not> sb_port b then False else if sb_write_in_flight b \<and> drained then False else True)"

section \<open>Writing accounts for its bytes\<close>

lemma take_append_take_drop:
  assumes "n \<le> length data"
  shows "take n data @ take m (drop n data) = take (n + m) data"
  by (simp add: take_add)

lemma write_loop_spec:
  assumes "sent < length data" "out = take sent data"
  shows "wr_accepted (write_loop n drv b data sent out) =
      take (length (wr_accepted (write_loop n drv b data sent out))) data \<and>
    wr_written (write_loop n drv b data sent out) \<le> length (wr_accepted (write_loop n drv b data sent out)) \<and>
    (wr_ok (write_loop n drv b data sent out) \<longleftrightarrow> wr_written (write_loop n drv b data sent out) = length data)"
  using assms
proof (induction n arbitrary: sent out)
  case (Suc n)
  note assms = Suc.prems
  have glue: "out @ take k (drop sent data) = take (sent + k) data" for k
    using assms by (simp add: take_add)
  show ?case
  proof (cases "drv (kMaxWriteIterations - Suc n) (drop sent data)")
    case (WoDone reported)
    let ?got = "min reported (length (drop sent data))"
    show ?thesis
    proof (cases "sent + ?got < length data \<and> ?got \<noteq> 0")
      case True
      then have "write_loop (Suc n) drv b data sent out =
          write_loop n drv b data (sent + ?got) (out @ take ?got (drop sent data))"
        using WoDone by (auto simp add: Let_def not_le)
      then show ?thesis using Suc.IH [of "sent + ?got", OF conjunct1 [OF True] glue] by simp
    next
      case False
      then show ?thesis using WoDone assms glue by (auto simp: Let_def min_def)
    qed
  qed (use assms glue in \<open>auto simp: Let_def min_def\<close>)
qed auto

text \<open>
  A transmit of a block gives the driver a prefix of the block, never a
  byte out of order or twice, reports no more bytes than the driver took, and succeeds exactly when
  the whole block is out.
\<close>

theorem backend_write_accounts:
  assumes "backend_write drv b data = r" "data \<noteq> []"
  shows "wr_accepted r = take (length (wr_accepted r)) data \<and> wr_written r \<le> length (wr_accepted r) \<and>
    (wr_ok r \<longleftrightarrow> wr_written r = length data)"
proof (cases "sb_open b \<and> sb_port b")
  case True
  then show ?thesis
    using write_loop_spec [of 0 data "[]" kMaxWriteIterations drv b] assms by (auto simp: backend_write_def)
next
  case False
  then show ?thesis using assms by (auto simp: backend_write_def)
qed

theorem backend_write_accounts_witness:
  "wr_ok (backend_write (\<lambda>_ _. WoDone 2) (backend_init\<lparr>sb_open := True, sb_port := True\<rparr>) [1, 2, 3])"
proof -
  let ?r = "backend_write (\<lambda>_ _. WoDone 2) (backend_init\<lparr>sb_open := True, sb_port := True\<rparr>) [1, 2, 3]"
  have "wr_written ?r = 3" by (simp add: backend_write_def Let_def numeral_eq_Suc)
  then show ?thesis using backend_write_accounts [of "\<lambda>_ _. WoDone 2" _ "[1, 2, 3]", OF refl] by simp
qed

text \<open>
  A transmit whose wait times out reports none of the bytes the driver
  had already put on the wire from that attempt, however many they were.
\<close>

theorem write_timeout_undercounts:
  assumes "sb_open b" "sb_port b" "data \<noteq> []" "drv 0 data = WoTimeout st took"
  shows "wr_written (backend_write drv b data) = 0 \<and> wr_accepted (backend_write drv b data) = take took data"
proof -
  have "write_loop (Suc 7) drv b data 0 [] =
      \<lparr>wr_ok = False, wr_written = 0, wr_error = ERROR_TIMEOUT,
       wr_line_status = fst (capture_line_status st b 0), wr_accepted = take took data\<rparr>"
    using assms(4) by (subst write_loop.simps) (simp add: Let_def)
  then show ?thesis using assms(1-3) by (simp add: backend_write_def)
qed

theorem write_timeout_undercounts_witness:
  "wr_written (backend_write (\<lambda>_ _. WoTimeout None 3) (backend_init\<lparr>sb_open := True, sb_port := True\<rparr>) [1, 2, 3, 4]) = 0 \<and>
   wr_accepted (backend_write (\<lambda>_ _. WoTimeout None 3) (backend_init\<lparr>sb_open := True, sb_port := True\<rparr>) [1, 2, 3, 4]) = [1, 2, 3]"
  using write_timeout_undercounts [of "backend_init\<lparr>sb_open := True, sb_port := True\<rparr>" "[1, 2, 3, 4]" "\<lambda>_ _. WoTimeout None 3" None 3]
  by simp

section \<open>Programming what was asked\<close>

lemma replay_pin_cases:
  "set (fst (replay_pin A pin drive)) \<subseteq> {(pin, line_drive_of_code drive = Some Assert)}"
  "line_drive_of_code drive = Some LeaveAlone \<Longrightarrow> replay_pin A pin drive = ([], [])"
  by (simp_all add: replay_pin_def Let_def)

text \<open>
  A successful port programming has been read back and equals the request in
  every field, drives no line the options leave alone, never drives RTS under RTS/CTS handshake, and
  drives a line only to the level asked for; a failed pin write does not make it fail.
\<close>

theorem configure_success:
  assumes "cr_error (configure A s) = None"
  shows "ca_read_back A = Inr (dcb_of_options s) \<and> cr_handshake (configure A s) = Some (so_flow_control s = 1) \<and>
    set (cr_pins (configure A s)) \<subseteq>
      (if line_drive_of_code (so_dtr_drive s) = Some LeaveAlone then {}
       else {(PinDtr, line_drive_of_code (so_dtr_drive s) = Some Assert)}) \<union>
      (if so_flow_control s = 1 \<or> line_drive_of_code (so_rts_drive s) = Some LeaveAlone then {}
       else {(PinRts, line_drive_of_code (so_rts_drive s) = Some Assert)})"
proof -
  from assms have ok: "ca_setup A = None" "ca_get_state A = None" "ca_set_state A (dcb_of_options s) = None"
    "ca_read_back A = Inr (dcb_of_options s)"
    by (auto simp: configure_def configure_fails_def Let_def split: option.splits sum.splits if_splits prod.splits)
  obtain p1 w1 p2 w2 where r: "replay_pin A PinDtr (so_dtr_drive s) = (p1, w1)"
    "replay_pin A PinRts (so_rts_drive s) = (p2, w2)" by (meson surj_pair)
  have pins: "cr_pins (configure A s) = p1 @ (if so_flow_control s = 1 then [] else p2)"
    "cr_handshake (configure A s) = Some (so_flow_control s = 1)"
    using ok r by (simp_all add: configure_def Let_def)
  note c = replay_pin_cases [where A = A and pin = PinDtr and drive = "so_dtr_drive s"]
    replay_pin_cases [where A = A and pin = PinRts and drive = "so_rts_drive s"]
  have p1: "set p1 \<subseteq> (if line_drive_of_code (so_dtr_drive s) = Some LeaveAlone then {}
       else {(PinDtr, line_drive_of_code (so_dtr_drive s) = Some Assert)})"
    using c(1,2) r(1) by (simp split: if_splits)
  have p2: "(if so_flow_control s = 1 then {} else set p2) \<subseteq>
      (if so_flow_control s = 1 \<or> line_drive_of_code (so_rts_drive s) = Some LeaveAlone then {}
       else {(PinRts, line_drive_of_code (so_rts_drive s) = Some Assert)})"
    using c(3,4) r(2) by (simp split: if_splits)
  have "set (cr_pins (configure A s)) \<subseteq> set p1 \<union> (if so_flow_control s = 1 then {} else set p2)"
    using pins(1) by simp
  note subset_trans [OF this Un_mono [OF p1 p2]]
  then show ?thesis using ok(4) pins(2) by (intro conjI)
qed

definition options_115200 :: serial_options where
  "options_115200 = \<lparr>so_port_name = ''COM3'', so_baud = 115200, so_data_bits = 8, so_stop_bits = 0, so_parity = 0,
     so_flow_control = 1, so_dtr_drive = 2, so_rts_drive = 1\<rparr>"

definition configure_honest :: "serial_options \<Rightarrow> configure_answers" where
  "configure_honest s = \<lparr>ca_setup = None, ca_get_state = None, ca_set_state = (\<lambda>_. None),
     ca_read_back = Inr (dcb_of_options s), ca_escape = (\<lambda>_ _. None), ca_timeouts = None\<rparr>"

theorem configure_success_witness:
  "cr_pins (configure (configure_honest options_115200) options_115200) = []"
proof -
  have "cr_error (configure (configure_honest options_115200) options_115200) = None"
    by (simp add: configure_def configure_honest_def Let_def split: prod.splits)
  from configure_success [OF this] show ?thesis by (simp add: options_115200_def line_drive_of_code_def)
qed

section \<open>Line errors\<close>

text \<open>
  The status sample taken when a transmit times out empties
  the driver's error latch, so the read thread's next poll reports none of the framing, parity,
  overrun or break errors that were latched: they are never counted.
\<close>

theorem write_timeout_discards_line_errors:
  assumes "sb_port b" "capture_line_status (Some st) b latch = (lines, latch')"
  shows "case poll_line_status answer raw b latch' of
      (None, _, _) \<Rightarrow> latch' = 0
    | (Some s, _, _) \<Rightarrow> ls_framing s = 0 \<and> ls_parity s = 0 \<and> ls_overrun s = 0 \<and> ls_break s = 0 \<and> ls_error_flags s = 0"
proof -
  have "latch' = 0" using assms by (auto simp: capture_line_status_def clear_comm_error_def)
  then show ?thesis
    by (auto simp: poll_line_status_def clear_comm_error_def classify_line_def Let_def split: option.splits)
qed

definition idle_comstat :: comstat where
  "idle_comstat = \<lparr>cs_cts_hold = False, cs_dsr_hold = False, cs_xoff_hold = False, cs_rlsd_hold = False,
     cs_in_que = 0, cs_out_que = 0\<rparr>"

theorem write_timeout_discards_line_errors_witness:
  "fst (poll_line_status (Some idle_comstat) None (backend_init\<lparr>sb_port := True, sb_callbacks := True\<rparr>)
     (snd (capture_line_status (Some idle_comstat) (backend_init\<lparr>sb_port := True, sb_callbacks := True\<rparr>) CE_FRAME))) = None"
proof -
  let ?b = "backend_init\<lparr>sb_port := True, sb_callbacks := True\<rparr>"
  obtain l k where c: "capture_line_status (Some idle_comstat) ?b CE_FRAME = (l, k)" by (meson surj_pair)
  have "sb_port ?b" by simp
  note w = write_timeout_discards_line_errors [OF this c, of "Some idle_comstat" None]
  have k: "k = 0" using c by (auto simp: capture_line_status_def clear_comm_error_def)
  then show ?thesis using w c
    by (simp add: poll_line_status_def clear_comm_error_def idle_comstat_def fold_holds_def bit_if_def
      backend_init_def pack_modem_def)
qed

text \<open>A partial release of a hold counts as a new hold.\<close>

lemma hold_release_reported:
  assumes "sb_port b" "sb_callbacks b" "fold_holds st \<noteq> 0" "sb_last_holds b = fold_holds st OR extra"
    "fold_holds st OR extra \<noteq> fold_holds st"
  shows "\<exists>s. fst (poll_line_status (Some st) raw b latch) = Some s \<and> ls_hold s = 1"
  using assms by (auto simp: poll_line_status_def clear_comm_error_def classify_line_def Let_def)

end
