(* ===== verification/Serial_Reader.thy ===== *)
theory Serial_Reader
  imports Serial_Backend
begin

text \<open>
  The adapter's read thread (\<open>WinSerialBackend::read_loop\<close>) and the registry enumeration of ports. One
  element of the loop's argument is one pass: the stop flag seen at the loop head and what the
  overlapped read came to. The result lists the callbacks in order.
\<close>

section \<open>The read loop\<close>

text \<open>The queue state, the modem sample and the error latch a poll finds.\<close>

type_synonym poll_input = "comstat option \<times> modem_raw option \<times> u32"

datatype read_answer =
    RaDone "u8 list" poll_input              \<comment> \<open>completed at once\<close>
  | RaFailed i32 bool                        \<comment> \<open>refused; the stop flag read next\<close>
  | RaGrace                                  \<comment> \<open>a cancelled read was never released\<close>
  | RaStop                                   \<comment> \<open>the stop event alone\<close>
  | RaWaitFailed i32 bool
  | RaReaped "u8 list" poll_input bool       \<comment> \<open>overlapped completion; the stop flag read last\<close>
  | RaReapFailed i32 "u8 list" bool          \<comment> \<open>failed completion with the bytes it moved\<close>

datatype read_event = ReBeat | ReBytes "u8 list" | ReFault i32 | ReLine line_status

definition read_poll :: "poll_input \<Rightarrow> backend \<Rightarrow> read_event list \<times> backend" where
  "read_poll p b =
     (case p of (answer, raw, latch) \<Rightarrow>
        case poll_line_status answer raw b latch of
          (None, b', _) \<Rightarrow> ([], b')
        | (Some st, b', _) \<Rightarrow> ([ReLine st], b'))"

definition read_deliver :: "u8 list \<Rightarrow> backend \<Rightarrow> read_event list" where
  "read_deliver bytes b = (if bytes \<noteq> [] \<and> sb_callbacks b then [ReBytes bytes] else [])"

definition read_fault :: "i32 \<Rightarrow> backend \<Rightarrow> read_event list" where
  "read_fault e b = (if sb_callbacks b then [ReFault e] else [])"

text \<open>One pass: the callbacks, the adapter afterwards, and whether the thread returns.\<close>

fun read_pass :: "read_answer \<Rightarrow> backend \<Rightarrow> read_event list \<times> backend \<times> bool" where
  "read_pass (RaDone bytes p) b =
     (case read_poll p b of (evs, b') \<Rightarrow> (evs @ read_deliver bytes b', b', False))"
| "read_pass (RaFailed e stop) b = (if stop then ([], b, True) else (read_fault e b, b\<lparr>sb_open := False\<rparr>, True))"
| "read_pass RaGrace b = (read_fault ERROR_OPERATION_ABORTED b, b\<lparr>sb_open := False\<rparr>, True)"
| "read_pass RaStop b = ([], b, True)"
| "read_pass (RaWaitFailed e stop) b = (if stop then ([], b, True) else (read_fault e b, b\<lparr>sb_open := False\<rparr>, True))"
| "read_pass (RaReaped bytes p stop) b =
     (case read_poll p b of (evs, b') \<Rightarrow> (evs @ read_deliver (take kReadChunkBytes bytes) b', b', stop))"
| "read_pass (RaReapFailed e bytes stop) b =
     (let evs = read_deliver (take kReadChunkBytes bytes) b
      in if stop then (evs, b, True) else (evs @ read_fault e b, b\<lparr>sb_open := False\<rparr>, True))"

fun read_loop :: "(bool \<times> read_answer) list \<Rightarrow> backend \<Rightarrow> read_event list \<times> backend \<times> bool" where
  "read_loop [] b = ([], b, False)"
| "read_loop ((stop, a) # rest) b =
     (if stop then ([], b, True)
      else case read_pass a b of (evs, b1, returned) \<Rightarrow>
             if returned then (ReBeat # evs, b1, True)
             else case read_loop rest b1 of (evs2, b2, done) \<Rightarrow> (ReBeat # evs @ evs2, b2, done))"

section \<open>Enumeration\<close>

record port_info =
  pi_name :: string
  pi_description :: string
  pi_busy :: bool
  pi_hardware_id :: string

definition copy_text :: "string \<Rightarrow> nat \<Rightarrow> string" where
  "copy_text source capacity = take (capacity - 1) source"

text \<open>A character buffer read as a C string.\<close>

definition c_string :: "string \<Rightarrow> string" where
  "c_string buf = takeWhile (\<lambda>ch. ch \<noteq> CHR 0x00) buf"

text \<open>
  One device of the Ports class as SetupAPI shows it: the PortName value if the parameter key opens
  and holds a string, and the raw hardware-id property.
\<close>

record port_device =
  pd_port_name :: "string option"
  pd_hardware_raw :: "u8 list option"

definition byte_text :: "u8 list \<Rightarrow> string" where
  "byte_text bs = map (\<lambda>b. char_of (unat b)) bs"

fun collect_port_hardware_ids :: "nat \<Rightarrow> port_device list \<Rightarrow> (string \<times> string) list" where
  "collect_port_hardware_ids capacity [] = []"
| "collect_port_hardware_ids 0 (d # ds) = []"
| "collect_port_hardware_ids (Suc n) (d # ds) =
     (case pd_port_name d of
        None \<Rightarrow> collect_port_hardware_ids (Suc n) ds
      | Some p \<Rightarrow> (c_string (take 63 p), byte_text (copy_first_multi_sz (pd_hardware_raw d) 96))
                  # collect_port_hardware_ids n ds)"

definition copy_port_hardware_id :: "string \<Rightarrow> (string \<times> string) list \<Rightarrow> nat \<Rightarrow> string" where
  "copy_port_hardware_id port_name table out_size =
     (case find (\<lambda>e. fst e = port_name) table of Some e \<Rightarrow> copy_text (snd e) out_size | None \<Rightarrow> [])"

datatype enum_value = EnNoMore | EnError i32 | EnNotString | EnPort string string

definition kMaxPortHardwareIds :: nat where [simp]: "kMaxPortHardwareIds = 64"

definition port_entry :: "bool \<Rightarrow> (string \<Rightarrow> bool) \<Rightarrow> (string \<times> string) list \<Rightarrow> string \<Rightarrow> string \<Rightarrow> port_info" where
  "port_entry probe busy ids device port =
     (let name = copy_text (c_string port) 64
      in \<lparr>pi_name = name, pi_description = copy_text (c_string device) 256, pi_busy = (probe \<and> busy name),
          pi_hardware_id = copy_port_hardware_id name ids 96\<rparr>)"

text \<open>
  The walk over the registry values by index. It ends only at the end-of-list answer, so it is a
  partial function: \<open>None\<close> is a walk that does not end.
\<close>

partial_function (option) enumerate_loop ::
  "(u32 \<Rightarrow> enum_value) \<Rightarrow> (string \<Rightarrow> string \<Rightarrow> port_info) \<Rightarrow> nat \<Rightarrow> u32 \<Rightarrow> port_info list \<Rightarrow> nat \<Rightarrow> i32 \<Rightarrow>
   (port_info list \<times> nat \<times> i32) option" where
  "enumerate_loop vals mk capacity i out found error =
     (case vals i of
        EnNoMore \<Rightarrow> Some (out, found, error)
      | EnError e \<Rightarrow> enumerate_loop vals mk capacity (i + 1) out found (if error = 0 then e else error)
      | EnNotString \<Rightarrow> enumerate_loop vals mk capacity (i + 1) out found error
      | EnPort device port \<Rightarrow>
          enumerate_loop vals mk capacity (i + 1)
            (if found < capacity then out @ [mk device port] else out) (Suc found) error)"

definition enumerate_serial_ports_ex ::
  "i32 \<Rightarrow> (u32 \<Rightarrow> enum_value) \<Rightarrow> port_device list \<Rightarrow> (string \<Rightarrow> bool) \<Rightarrow> nat \<Rightarrow> bool \<Rightarrow>
   (port_info list \<times> nat \<times> i32) option" where
  "enumerate_serial_ports_ex open_result vals devices busy capacity probe =
     (if open_result \<noteq> ERROR_SUCCESS then
        (if open_result = ERROR_FILE_NOT_FOUND \<or> open_result = ERROR_PATH_NOT_FOUND then Some ([], 0, 0)
         else Some ([], 0, open_result))
      else let ids = (if capacity \<noteq> 0 then collect_port_hardware_ids kMaxPortHardwareIds devices else [])
           in enumerate_loop vals (port_entry probe busy ids) capacity 0 [] 0 0)"

definition enumerate_serial_ports ::
  "i32 \<Rightarrow> (u32 \<Rightarrow> enum_value) \<Rightarrow> port_device list \<Rightarrow> nat \<Rightarrow> (port_info list \<times> nat) option" where
  "enumerate_serial_ports open_result vals devices capacity =
     map_option (\<lambda>(out, found, _). (out, found))
       (enumerate_serial_ports_ex open_result vals devices (\<lambda>_. False) capacity False)"

definition list_ports_impl ::
  "i32 \<Rightarrow> (u32 \<Rightarrow> enum_value) \<Rightarrow> port_device list \<Rightarrow> nat \<Rightarrow> (i32 \<times> port_info list \<times> nat) option" where
  "list_ports_impl open_result vals devices capacity =
     map_option (\<lambda>(out, found). (if found > capacity then XCOM_ERR_FULL else XCOM_OK, out, found))
       (enumerate_serial_ports open_result vals devices capacity)"

section \<open>The reader loses no byte and never ends silently\<close>

fun read_bytes :: "read_event list \<Rightarrow> u8 list" where
  "read_bytes [] = []"
| "read_bytes (ReBytes bs # evs) = bs @ read_bytes evs"
| "read_bytes (_ # evs) = read_bytes evs"

lemma read_bytes_append [simp]: "read_bytes (a @ b) = read_bytes a @ read_bytes b"
  by (induction a rule: read_bytes.induct) simp_all

text \<open>The bytes the completed reads of a run moved, up to the pass that ends it.\<close>

fun pass_bytes :: "read_answer \<Rightarrow> u8 list" where
  "pass_bytes (RaDone bytes p) = bytes"
| "pass_bytes (RaReaped bytes p stop) = take kReadChunkBytes bytes"
| "pass_bytes (RaReapFailed e bytes stop) = take kReadChunkBytes bytes"
| "pass_bytes _ = []"

fun pass_returns :: "read_answer \<Rightarrow> bool" where
  "pass_returns (RaDone bytes p) = False"
| "pass_returns (RaReaped bytes p stop) = stop"
| "pass_returns _ = True"

fun run_bytes :: "(bool \<times> read_answer) list \<Rightarrow> u8 list" where
  "run_bytes [] = []"
| "run_bytes ((stop, a) # rest) =
     (if stop then [] else pass_bytes a @ (if pass_returns a then [] else run_bytes rest))"

text \<open>No stop was requested when the pass looked.\<close>

fun unstopped :: "read_answer \<Rightarrow> bool" where
  "unstopped (RaDone bytes p) = True"
| "unstopped (RaFailed e stop) = (\<not> stop)"
| "unstopped (RaWaitFailed e stop) = (\<not> stop)"
| "unstopped (RaReaped bytes p stop) = (\<not> stop)"
| "unstopped (RaReapFailed e bytes stop) = (\<not> stop)"
| "unstopped _ = False"

definition run_unstopped :: "(bool \<times> read_answer) list \<Rightarrow> bool" where
  "run_unstopped run = list_all (\<lambda>(stop, a). \<not> stop \<and> unstopped a) run"

definition ends_in_fault :: "read_event list \<Rightarrow> bool" where
  "ends_in_fault evs \<longleftrightarrow> (\<exists>evs0 e. evs = evs0 @ [ReFault e] \<and> (\<forall>e'. ReFault e' \<notin> set evs0))"

lemma ends_in_fault_prepend:
  assumes "ends_in_fault evs" "\<forall>e. ReFault e \<notin> set pre"
  shows "ends_in_fault (pre @ evs)"
  using assms unfolding ends_in_fault_def by (metis Un_iff append.assoc set_append)

lemma read_poll_spec:
  assumes "read_poll p b = (evs, b')"
  shows "sb_callbacks b' = sb_callbacks b" "read_bytes evs = []" "\<forall>e. ReFault e \<notin> set evs"
  using assms
  by (auto simp: read_poll_def poll_line_status_def clear_comm_error_def Let_def split: prod.splits option.splits if_splits)

lemma read_pass_spec:
  assumes "read_pass a b = (evs, b', r)" "sb_callbacks b"
  shows "sb_callbacks b'" "read_bytes evs = pass_bytes a" "r = pass_returns a"
    "\<not> r \<Longrightarrow> ReFault e \<notin> set evs"
    "r \<Longrightarrow> unstopped a \<Longrightarrow> ends_in_fault evs \<and> \<not> sb_open b'"
  using assms read_poll_spec
  by (cases a; auto simp: ends_in_fault_def read_deliver_def read_fault_def Let_def split: prod.splits if_splits; fastforce)+

text \<open>
  C37 (reader_loses_nothing). The bytes handed to the runtime are exactly those the completed reads
  moved, in order, including the ones of a failed completion and of one that raced a stop; and a
  reader that ends without a stop having been requested (\<open>run_unstopped\<close>) leaves a fault report as its last callback,
  the only one, with the adapter no longer open.
\<close>

theorem reader_loses_nothing:
  assumes "sb_callbacks b" "read_loop run b = (evs, b', ended)"
  shows "read_bytes evs = run_bytes run \<and>
    (if ended \<and> run_unstopped run then \<not> sb_open b' \<and> ends_in_fault evs else True)"
  using assms
proof (induction run b arbitrary: evs b' ended rule: read_loop.induct)
  case (1 b)
  then show ?case by simp
next
  case (2 stop a rest b)
  note run = "2.prems"(2) and cb = "2.prems"(1)
  obtain e1 b1 r1 where p: "read_pass a b = (e1, b1, r1)" by (metis prod_cases3)
  obtain e2 b2 r2 where l: "read_loop rest b1 = (e2, b2, r2)" by (metis prod_cases3)
  note ps = read_pass_spec [OF p cb]
  consider (stopped) "stop" | (ends) "\<not> stop" "r1" | (goes) "\<not> stop" "\<not> r1" by blast
  then show ?case
  proof cases
    case stopped
    then show ?thesis using run by (auto simp: run_unstopped_def)
  next
    case ends
    have e: "evs = [ReBeat] @ e1" "b' = b1" "ended" using run ends p by auto
    then show ?thesis using ps(2,3,5) ends ends_in_fault_prepend [of e1 "[ReBeat]"]
      by (auto simp: run_unstopped_def)
  next
    case goes
    have e: "evs = (ReBeat # e1) @ e2" "b' = b2" "ended = r2" using run goes p l by auto
    have ih: "read_bytes e2 = run_bytes rest \<and>
        (if r2 \<and> run_unstopped rest then \<not> sb_open b2 \<and> ends_in_fault e2 else True)"
      by (rule "2.IH" [OF goes(1) p [symmetric] refl goes(2) ps(1) l])
    have "\<forall>e. ReFault e \<notin> set (ReBeat # e1)" using ps(4) [OF goes(2)] by simp
    note ends_in_fault_prepend [OF _ this, of e2]
    then show ?thesis using e ih ps(2,3) goes by (auto simp: run_unstopped_def split: if_splits)
  qed
qed

theorem reader_loses_nothing_witness:
  "read_bytes (fst (read_loop [(False, RaReaped [1, 2] (None, None, 0) False), (False, RaReapFailed 995 [3] False)]
     (backend_init\<lparr>sb_callbacks := True, sb_open := True\<rparr>))) = [1, 2, 3]"
proof -
  let ?run = "[(False, RaReaped [1, 2] (None, None, 0) False), (False, RaReapFailed 995 [3] False)]"
  let ?b = "backend_init\<lparr>sb_callbacks := True, sb_open := True\<rparr>"
  obtain evs b' e where r: "read_loop ?run ?b = (evs, b', e)" by (metis prod_cases3)
  have "sb_callbacks ?b" by simp
  from reader_loses_nothing [OF this r] show ?thesis using r by simp
qed

section \<open>Enumeration\<close>

text \<open>The values before the end of the list, counted from an index.\<close>

fun enum_prefix :: "(u32 \<Rightarrow> enum_value) \<Rightarrow> u32 \<Rightarrow> nat \<Rightarrow> (string \<times> string) list" where
  "enum_prefix vals i 0 = []"
| "enum_prefix vals i (Suc n) =
     (case vals i of EnPort d p \<Rightarrow> (d, p) # enum_prefix vals (i + 1) n | _ \<Rightarrow> enum_prefix vals (i + 1) n)"

lemma enumerate_loop_finds:
  assumes "vals (i + of_nat n) = EnNoMore" "\<forall>k<n. vals (i + of_nat k) \<noteq> EnNoMore"
  shows "\<exists>e. enumerate_loop vals mk cap i out found error =
    Some (out @ map (\<lambda>(d, p). mk d p) (take (cap - found) (enum_prefix vals i n)), found + length (enum_prefix vals i n), e)"
  using assms
proof (induction n arbitrary: i out found error)
  case 0
  then show ?case by (subst enumerate_loop.simps) simp
next
  case (Suc n)
  have next_end: "vals (i + 1 + of_nat n) = EnNoMore" using Suc.prems(1) by (simp add: algebra_simps)
  have before: "\<forall>k<n. vals (i + 1 + of_nat k) \<noteq> EnNoMore"
  proof (intro allI impI)
    fix k assume "k < n"
    then have "vals (i + of_nat (Suc k)) \<noteq> EnNoMore" using Suc.prems(2) Suc_mono by blast
    then show "vals (i + 1 + of_nat k) \<noteq> EnNoMore" by (simp add: algebra_simps)
  qed
  note ih = Suc.IH [OF next_end before]
  have "vals i \<noteq> EnNoMore" using Suc.prems(2) by force
  then show ?case
  proof (cases "vals i")
    case (EnPort d p)
    have "take (cap - found) ((d, p) # enum_prefix vals (i + 1) n) =
        (if found < cap then (d, p) # take (cap - Suc found) (enum_prefix vals (i + 1) n) else [])"
      by (auto simp: take_Cons' Suc_diff_Suc)
    then show ?thesis
      using EnPort ih [of "if found < cap then out @ [mk d p] else out" "Suc found" error]
      by (subst enumerate_loop.simps) auto
  qed (use ih in \<open>subst enumerate_loop.simps, simp\<close>)+
qed

lemma enumerate_loop_end:
  "enumerate_loop vals mk cap i out found error = Some r \<Longrightarrow> \<exists>i. vals i = EnNoMore"
  by (rule enumerate_loop.raw_induct [where P = "\<lambda>vals mk cap i out found error r. \<exists>i. vals i = EnNoMore"])
    (auto split: enum_value.splits)

text \<open>
  When the registry list ends after \<open>n\<close> values, the port listing returns the
  number of string values among them, the first \<open>capacity\<close> of them in order with their hardware ids
  looked up and no port probed, and reports FULL exactly when there were more.
\<close>

theorem port_enumeration_spec:
  assumes "vals (of_nat n) = EnNoMore" "\<forall>k<n. vals (of_nat k) \<noteq> EnNoMore"
  shows "list_ports_impl ERROR_SUCCESS vals devices capacity =
    (let ports = enum_prefix vals 0 n;
         ids = (if capacity \<noteq> 0 then collect_port_hardware_ids kMaxPortHardwareIds devices else [])
     in Some (if length ports > capacity then XCOM_ERR_FULL else XCOM_OK,
              map (\<lambda>(d, p). port_entry False (\<lambda>_. False) ids d p) (take capacity ports), length ports))"
  using enumerate_loop_finds [of vals 0 n, simplified, OF assms, of _ capacity "[]" 0 0]
  by (auto simp: list_ports_impl_def enumerate_serial_ports_def enumerate_serial_ports_ex_def Let_def)

theorem port_enumeration_spec_witness:
  "map_option (\<lambda>(st, out, n). (st, map pi_name out, n))
     (list_ports_impl ERROR_SUCCESS (\<lambda>i. if i = 0 then EnPort ''dev'' ''COM3'' else EnNoMore) [] 4) =
   Some (0, [''COM3''], 1)"
proof -
  let ?v = "\<lambda>i :: u32. if i = 0 then EnPort ''dev'' ''COM3'' else EnNoMore"
  have "?v (of_nat 1) = EnNoMore" "\<forall>k<1. ?v (of_nat k) \<noteq> EnNoMore" by simp_all
  from port_enumeration_spec [OF this, of "[]" 4] show ?thesis
    by (simp add: Let_def port_entry_def copy_text_def c_string_def)
qed

text \<open>
  If no index answers end-of-list, as when every call fails because the
  key has been deleted, the port listing never returns, whatever errors the calls report.
\<close>

theorem port_enumeration_hangs:
  assumes "\<forall>i. vals i \<noteq> EnNoMore"
  shows "list_ports_impl ERROR_SUCCESS vals devices capacity = None"
proof -
  have "enumerate_loop vals mk capacity 0 [] 0 0 = None" for mk
    using enumerate_loop_end [of vals mk capacity 0 "[]" 0 0] assms
    by (cases "enumerate_loop vals mk capacity 0 [] 0 0") auto
  then show ?thesis
    by (simp add: list_ports_impl_def enumerate_serial_ports_def enumerate_serial_ports_ex_def Let_def)
qed

theorem port_enumeration_hangs_witness:
  "list_ports_impl ERROR_SUCCESS (\<lambda>_. EnError 1018) [] 4 = None"
  by (rule port_enumeration_hangs) simp

end
