(* ===== verification/Log_Writer.thy ===== *)
theory Log_Writer
  imports Core_Ctx
begin

text \<open>
  The dedicated file writer (\<open>io/log_writer.cpp\<close>): its job ring, block pool and completion slots, and
  the worker thread that executes the jobs. The file calls are arguments (\<open>file_os\<close>), indexed by a
  clock that counts the calls the worker has made; the calls that took effect are recorded, in order,
  in the trace \<open>lw_ops\<close>, on which the results about files are stated.
\<close>

section \<open>State\<close>

definition kFileBlockBytes :: nat where [simp]: "kFileBlockBytes = 65536"
definition kFileBlockCount :: nat where [simp]: "kFileBlockCount = 16"
definition kFileJobCapacity :: nat where [simp]: "kFileJobCapacity = 16"
definition kCompletionCapacity :: nat where [simp]: "kCompletionCapacity = 32"
definition kCompletionPoolCapacity :: nat where [simp]: "kCompletionPoolCapacity = 8"
definition kTemporaryPathChars :: nat where [simp]: "kTemporaryPathChars = 568"

datatype job_kind =
    JkOpen | JkAppend | JkFlush | JkClose | JkAtomicWrite | JkStreamBegin | JkStreamAppend | JkStreamCommit | JkStreamAbort

text \<open>
  The data of a job is the contents of its block, or of the borrowed buffer, which the caller has
  promised not to change before the completion.
\<close>

record file_job =
  fj_kind :: job_kind
  fj_block :: "nat option"
  fj_data :: "u8 list"
  fj_offset :: nat
  fj_request :: u64
  fj_stream :: u64
  fj_append :: bool
  fj_completion :: "nat option"
  fj_path :: string

definition plain_job :: "job_kind \<Rightarrow> file_job" where
  "plain_job k = \<lparr>fj_kind = k, fj_block = None, fj_data = [], fj_offset = 0, fj_request = 0, fj_stream = 0,
     fj_append = False, fj_completion = None, fj_path = []\<rparr>"

text \<open>The intrusive reference count, the status and the event of a synchronous completion.\<close>

record sync_slot =
  ss_refs :: int
  ss_status :: i32
  ss_done :: bool

datatype file_op =
    OpCreate string bool        \<comment> \<open>truncating or not\<close>
  | OpSeekEnd string
  | OpWrite string "u8 list"
  | OpFlush string
  | OpMove string string
  | OpDelete string

record atomic_stream =
  as_id :: u64
  as_destination :: string
  as_temporary :: string

record log_writer =
  lw_present :: bool
  lw_blocks :: fixed_pool
  lw_jobs :: "file_job list"
  lw_completions :: "(u64 \<times> i32) list"
  lw_slots :: fixed_pool
  lw_sync :: "nat \<Rightarrow> sync_slot"
  lw_pending :: u32
  lw_running :: bool
  lw_stopping :: bool
  lw_accepting :: bool
  lw_appenders :: u32
  lw_log :: "string option"
  lw_stream :: "atomic_stream option"
  lw_clock :: nat
  lw_ops :: "file_op list"

definition log_writer_init :: log_writer where
  "log_writer_init = \<lparr>lw_present = False, lw_blocks = fixed_pool_init kFileBlockBytes kFileBlockCount, lw_jobs = [],
     lw_completions = [], lw_slots = fixed_pool_init 64 kCompletionPoolCapacity,
     lw_sync = (\<lambda>_. \<lparr>ss_refs = 0, ss_status = XCOM_ERR_IO, ss_done = False\<rparr>), lw_pending = 0, lw_running = False,
     lw_stopping = False, lw_accepting = False, lw_appenders = 0, lw_log = None, lw_stream = None, lw_clock = 0,
     lw_ops = []\<rparr>"

text \<open>
  The platform of the writer. \<open>os_write\<close> answers an error or a count, at most the chunk handed to it;
  \<open>os_stopping\<close> says whether a shutdown has been requested by then.
\<close>

record file_os =
  os_wide :: "string \<Rightarrow> string option"
  os_create :: "nat \<Rightarrow> string \<Rightarrow> bool"
  os_write :: "nat \<Rightarrow> u8 list \<Rightarrow> i32 + nat"
  os_flush :: "nat \<Rightarrow> bool"
  os_move :: "nat \<Rightarrow> bool"
  os_stopping :: "nat \<Rightarrow> bool"
  os_now :: "nat \<Rightarrow> u32"
  os_rx :: rx_env
  os_push_job :: "file_job list \<Rightarrow> file_job \<Rightarrow> file_job list option"
  os_pop_job :: "file_job list \<Rightarrow> (file_job \<times> file_job list) option"
  os_push_done :: "(u64 \<times> i32) list \<Rightarrow> (u64 \<times> i32) \<Rightarrow> (u64 \<times> i32) list option"
  os_pop_done :: "(u64 \<times> i32) list \<Rightarrow> ((u64 \<times> i32) \<times> (u64 \<times> i32) list) option"

definition file_os_ok :: "file_os \<Rightarrow> bool" where
  "file_os_ok Q \<longleftrightarrow> rx_env_ok (os_rx Q) \<and> spsc_ring_ok kFileJobCapacity (os_push_job Q) (os_pop_job Q) \<and>
     spsc_ring_ok kCompletionCapacity (os_push_done Q) (os_pop_done Q)"

section \<open>Blocks, completions and leases\<close>

definition lw_release_block :: "nat option \<Rightarrow> log_writer \<Rightarrow> log_writer" where
  "lw_release_block b w = (case b of None \<Rightarrow> w | Some i \<Rightarrow> w\<lparr>lw_blocks := fixed_pool_release (lw_blocks w) i\<rparr>)"

definition acquire_completion :: "bool \<Rightarrow> log_writer \<Rightarrow> nat option \<times> log_writer" where
  "acquire_completion event_ok w =
     (case fixed_pool_allocate (lw_slots w) of
        None \<Rightarrow> (None, w)
      | Some (i, p) \<Rightarrow>
          if event_ok
          then (Some i, w\<lparr>lw_slots := p, lw_sync := (lw_sync w)(i := \<lparr>ss_refs = 1, ss_status = XCOM_ERR_IO, ss_done = False\<rparr>)\<rparr>)
          else (None, w\<lparr>lw_slots := fixed_pool_release p i\<rparr>))"

definition release_completion :: "nat \<Rightarrow> log_writer \<Rightarrow> log_writer" where
  "release_completion i w =
     (let s = lw_sync w i; w1 = w\<lparr>lw_sync := (lw_sync w)(i := s\<lparr>ss_refs := ss_refs s - 1\<rparr>)\<rparr>
      in if ss_refs s = 1 then w1\<lparr>lw_slots := fixed_pool_release (lw_slots w1) i\<rparr> else w1)"

definition reserve_completion :: "log_writer \<Rightarrow> log_writer option" where
  "reserve_completion w =
     (if unat (lw_pending w) < kCompletionCapacity then Some (w\<lparr>lw_pending := lw_pending w + 1\<rparr>) else None)"

definition release_completion_reservation :: "log_writer \<Rightarrow> log_writer" where
  "release_completion_reservation w = w\<lparr>lw_pending := lw_pending w - 1\<rparr>"

definition acquire_append_lease :: "log_writer \<Rightarrow> log_writer option" where
  "acquire_append_lease w = (if \<not> lw_accepting w then None else Some (w\<lparr>lw_appenders := lw_appenders w + 1\<rparr>))"

definition release_append_lease :: "log_writer \<Rightarrow> log_writer" where
  "release_append_lease w = w\<lparr>lw_appenders := lw_appenders w - 1\<rparr>"

text \<open>
  \<open>waits\<close> lists the lease counts the closer reads when it looks (it gives up, on the deadline or for
  want of an event, when the list ends).
\<close>

definition close_append_admission :: "u32 list \<Rightarrow> log_writer \<Rightarrow> bool \<times> log_writer" where
  "close_append_admission waits w = (list_ex (\<lambda>n. n = 0) waits, w\<lparr>lw_accepting := False\<rparr>)"

section \<open>Heartbeat and queue\<close>

definition lw_beat :: "file_os \<Rightarrow> log_writer \<Rightarrow> 'x core_scheme \<Rightarrow> 'x core_scheme" where
  "lw_beat Q w c = c\<lparr>c_heartbeats := (c_heartbeats c)\<lparr>hb_log_writer_ms := os_now Q (lw_clock w)\<rparr>\<rparr>"

definition lw_set_parked :: "bool \<Rightarrow> 'x core_scheme \<Rightarrow> 'x core_scheme" where
  "lw_set_parked p c = c\<lparr>c_heartbeats := (c_heartbeats c)\<lparr>hb_log_writer_parked := p\<rparr>\<rparr>"

definition lw_set_running :: "bool \<Rightarrow> 'x core_scheme \<Rightarrow> 'x core_scheme" where
  "lw_set_running p c = c\<lparr>c_heartbeats := (c_heartbeats c)\<lparr>hb_log_writer_running := p\<rparr>\<rparr>"

definition lw_enqueue :: "file_os \<Rightarrow> file_job \<Rightarrow> log_writer \<Rightarrow> log_writer option" where
  "lw_enqueue Q j w =
     (if \<not> lw_running w \<or> lw_stopping w then None
      else map_option (\<lambda>q. w\<lparr>lw_jobs := q\<rparr>) (os_push_job Q (lw_jobs w) j))"

definition lw_stop_seen :: "file_os \<Rightarrow> log_writer \<Rightarrow> bool" where
  "lw_stop_seen Q w \<longleftrightarrow> lw_stopping w \<or> os_stopping Q (lw_clock w)"

definition lw_tick :: "log_writer \<Rightarrow> log_writer" where
  "lw_tick w = w\<lparr>lw_clock := Suc (lw_clock w)\<rparr>"

definition lw_do :: "file_op \<Rightarrow> log_writer \<Rightarrow> log_writer" where
  "lw_do x w = w\<lparr>lw_clock := Suc (lw_clock w), lw_ops := lw_ops w @ [x]\<rparr>"

section \<open>Finishing a job\<close>

text \<open>\<open>None\<close> is the failed assertion that the completion ring has room.\<close>

definition publish_atomic_completion :: "file_os \<Rightarrow> u64 \<Rightarrow> i32 \<Rightarrow> log_writer \<Rightarrow> log_writer option" where
  "publish_atomic_completion Q request status w =
     map_option (\<lambda>q. w\<lparr>lw_completions := q\<rparr>) (os_push_done Q (lw_completions w) (request, status))"

definition complete_sync :: "nat option \<Rightarrow> i32 \<Rightarrow> log_writer \<Rightarrow> log_writer" where
  "complete_sync completion status w =
     (case completion of
        None \<Rightarrow> w
      | Some i \<Rightarrow> release_completion i
          (w\<lparr>lw_sync := (lw_sync w)(i := (lw_sync w i)\<lparr>ss_status := status, ss_done := True\<rparr>)\<rparr>))"

definition job_reports :: "file_job \<Rightarrow> bool" where
  "job_reports j \<longleftrightarrow> fj_kind j \<in> {JkAtomicWrite, JkStreamBegin, JkStreamAppend, JkStreamCommit, JkStreamAbort}"

definition lw_finish ::
  "file_os \<Rightarrow> file_job \<Rightarrow> i32 \<Rightarrow> log_writer \<Rightarrow> 'x core_scheme \<Rightarrow> (log_writer \<times> 'x core_scheme) option" where
  "lw_finish Q j status w c = do {
     w1 \<leftarrow> (if job_reports j then publish_atomic_completion Q (fj_request j) status w else Some w);
     let c1 = (if status \<noteq> XCOM_OK
               then push_error status 2 ''dedicated file writer failed''
                 (if fj_kind j = JkAppend \<and> fj_offset j < length (fj_data j)
                  then on_metrics (\<lambda>m. m\<lparr>m_save_rejected_bytes := m_save_rejected_bytes m +
                         of_nat (length (fj_data j) - fj_offset j)\<rparr>) c
                  else c)
               else c);
     Some (complete_sync (fj_completion j) status (lw_release_block (fj_block j) w1), c1)
   }"

section \<open>Writing\<close>

text \<open>
  \<open>write_all\<close>: the error of the call that stopped it, or \<open>None\<close>; the offset reached; the writer and the
  context afterwards. Every pass beats and makes one call.
\<close>

function write_all ::
  "file_os \<Rightarrow> string \<Rightarrow> u8 list \<Rightarrow> nat \<Rightarrow> log_writer \<Rightarrow> 'x core_scheme \<Rightarrow>
   i32 option \<times> nat \<times> log_writer \<times> 'x core_scheme" where
  "write_all Q path data offset w c =
     (if offset < length data
      then let c1 = lw_beat Q w c; chunk = drop offset data
           in case os_write Q (lw_clock w) chunk of
                Inl e \<Rightarrow> (Some e, offset, lw_tick w, c1)
              | Inr n \<Rightarrow>
                  let got = min n (length chunk)
                  in if got = 0 then (Some 29, offset, lw_tick w, c1)
                     else write_all Q path data (offset + got) (lw_do (OpWrite path (take got chunk)) w) c1
      else (None, offset, w, c))"
  by pat_completeness auto

termination
  by (relation "measure (\<lambda>(Q, path, data, offset, w, c). length data - offset)") auto

declare write_all.simps [simp del]

definition temporary_path :: "string \<Rightarrow> u64 \<Rightarrow> string option" where
  "temporary_path path n =
     (let t = path @ ''.xcom.'' @ show_nat (unat n) @ ''.tmp''
      in if length t < kTemporaryPathChars then Some t else None)"

text \<open>An atomic write: everything goes to the temporary file, which is moved over the target at the end.\<close>

definition process_atomic ::
  "file_os \<Rightarrow> file_job \<Rightarrow> log_writer \<Rightarrow> 'x core_scheme \<Rightarrow> i32 \<times> nat \<times> log_writer \<times> 'x core_scheme" where
  "process_atomic Q j w c =
     (case temporary_path (fj_path j) (fj_request j) of
        None \<Rightarrow> (XCOM_ERR_PARAM, fj_offset j, w, c)
      | Some t \<Rightarrow>
          if \<not> os_create Q (lw_clock w) t then (XCOM_ERR_IO, fj_offset j, lw_tick w, c)
          else case write_all Q t (fj_data j) (fj_offset j) (lw_do (OpCreate t True) w) c of
            (e, off, w1, c1) \<Rightarrow>
              let flushed = (e = None \<and> os_flush Q (lw_clock w1));
                  w2 = (if e \<noteq> None then w1 else if flushed then lw_do (OpFlush t) w1 else lw_tick w1)
              in if flushed \<and> os_move Q (lw_clock w2) then (XCOM_OK, off, lw_do (OpMove t (fj_path j)) w2, c1)
                 else (XCOM_ERR_IO, off, lw_do (OpDelete t) (if flushed then lw_tick w2 else w2), c1))"

definition stream_reset :: "log_writer \<Rightarrow> log_writer" where
  "stream_reset w =
     (case lw_stream w of None \<Rightarrow> w | Some a \<Rightarrow> lw_do (OpDelete (as_temporary a)) (w\<lparr>lw_stream := None\<rparr>))"

definition process_stream_begin :: "file_os \<Rightarrow> file_job \<Rightarrow> log_writer \<Rightarrow> i32 \<times> log_writer" where
  "process_stream_begin Q j w =
     (if lw_stream w \<noteq> None then (XCOM_ERR_BUSY, w)
      else case temporary_path (fj_path j) (fj_stream j) of
          None \<Rightarrow> (XCOM_ERR_PARAM, w)
        | Some t \<Rightarrow>
            if \<not> os_create Q (lw_clock w) t then (XCOM_ERR_IO, lw_tick w)
            else (XCOM_OK, (lw_do (OpCreate t True) w)
                    \<lparr>lw_stream := Some \<lparr>as_id = fj_stream j, as_destination = fj_path j, as_temporary = t\<rparr>\<rparr>))"

definition process_stream_append ::
  "file_os \<Rightarrow> file_job \<Rightarrow> log_writer \<Rightarrow> 'x core_scheme \<Rightarrow> i32 \<times> nat \<times> log_writer \<times> 'x core_scheme" where
  "process_stream_append Q j w c =
     (case lw_stream w of
        None \<Rightarrow> (XCOM_ERR_NOT_OPEN, fj_offset j, w, c)
      | Some a \<Rightarrow>
          if as_id a \<noteq> fj_stream j then (XCOM_ERR_NOT_OPEN, fj_offset j, w, c)
          else case write_all Q (as_temporary a) (fj_data j) (fj_offset j) w c of
                 (None, off, w1, c1) \<Rightarrow> (XCOM_OK, off, w1, c1)
               | (Some e, off, w1, c1) \<Rightarrow> (XCOM_ERR_IO, off, stream_reset w1, c1))"

definition process_stream_commit :: "file_os \<Rightarrow> file_job \<Rightarrow> log_writer \<Rightarrow> i32 \<times> log_writer" where
  "process_stream_commit Q j w =
     (case lw_stream w of
        None \<Rightarrow> (XCOM_ERR_NOT_OPEN, w)
      | Some a \<Rightarrow>
          if as_id a \<noteq> fj_stream j then (XCOM_ERR_NOT_OPEN, w)
          else if \<not> os_flush Q (lw_clock w) then (XCOM_ERR_IO, stream_reset (lw_tick w))
          else let w1 = lw_do (OpFlush (as_temporary a)) w
               in if os_move Q (lw_clock w1)
                  then (XCOM_OK, (lw_do (OpMove (as_temporary a) (as_destination a)) w1)\<lparr>lw_stream := None\<rparr>)
                  else (XCOM_ERR_IO, stream_reset (lw_tick w1)))"

definition process_stream_abort :: "file_job \<Rightarrow> log_writer \<Rightarrow> i32 \<times> log_writer" where
  "process_stream_abort j w =
     (case lw_stream w of
        None \<Rightarrow> (XCOM_OK, w)
      | Some a \<Rightarrow> if as_id a \<noteq> fj_stream j then (XCOM_ERR_NOT_OPEN, w) else (XCOM_OK, stream_reset w))"

section \<open>The log file\<close>

text \<open>
  The append job retries until everything is written or a stop is seen; without either it never ends
  (\<open>None\<close>). \<open>reported\<close> says whether the stall of this run has been reported.
\<close>

partial_function (option) append_loop ::
  "file_os \<Rightarrow> string \<Rightarrow> u8 list \<Rightarrow> nat \<Rightarrow> bool \<Rightarrow> log_writer \<Rightarrow> 'x core_scheme \<Rightarrow>
   (i32 \<times> nat \<times> log_writer \<times> 'x core_scheme) option" where
  "append_loop Q path data offset reported w c =
     (case write_all Q path data offset w (lw_beat Q w c) of
        (None, off, w1, c1) \<Rightarrow>
          Some (XCOM_OK, off, w1,
            if reported then push_error XCOM_OK 2 ''storage recovered: log write resumed'' c1 else c1)
      | (Some e, off, w1, c1) \<Rightarrow>
          let c2 = (if reported then c1
                    else push_error e 2 ''storage stalled: log write retrying (disk slow or device gone)'' c1)
          in if lw_stop_seen Q w1 then Some (XCOM_ERR_IO, off, w1, c2)
             else append_loop Q path data off True w1 c2)"

partial_function (option) rx_write_loop ::
  "file_os \<Rightarrow> string \<Rightarrow> u8 list \<Rightarrow> nat \<Rightarrow> log_writer \<Rightarrow> 'x core_scheme \<Rightarrow>
   (nat \<times> log_writer \<times> 'x core_scheme) option" where
  "rx_write_loop Q path data offset w c =
     (if \<not> offset < length data \<or> lw_stop_seen Q w then Some (offset, w, c)
      else let c1 = lw_beat Q w c; chunk = drop offset data
           in case os_write Q (lw_clock w) chunk of
                Inl e \<Rightarrow> (if lw_stop_seen Q (lw_tick w) then Some (offset, lw_tick w, c1)
                           else rx_write_loop Q path data offset (lw_tick w) c1)
              | Inr n \<Rightarrow>
                  let got = min n (length chunk)
                  in if got = 0
                     then (if lw_stop_seen Q (lw_tick w) then Some (offset, lw_tick w, c1)
                           else rx_write_loop Q path data offset (lw_tick w) c1)
                     else rx_write_loop Q path data (offset + got) (lw_do (OpWrite path (take got chunk)) w) c1)"

definition charge_loss :: "nat \<Rightarrow> i32 \<Rightarrow> string \<Rightarrow> 'x core_scheme \<Rightarrow> 'x core_scheme" where
  "charge_loss n e msg c =
     push_error e 2 msg (on_metrics (\<lambda>m. m\<lparr>m_save_rejected_bytes := m_save_rejected_bytes m + of_nat n\<rparr>) c)"

definition process_rx_ref ::
  "file_os \<Rightarrow> rx_ref \<Rightarrow> log_writer \<Rightarrow> 'x core_scheme \<Rightarrow> (log_writer \<times> 'x core_scheme) option" where
  "process_rx_ref Q ref w c =
     (let data = take (unat (rr_len ref)) (rl_payload (c_rx c) ! rr_event ref)
      in map_option (\<lambda>(w1, c1). (w1, c1\<lparr>c_rx := rx_release (os_rx Q) (rr_event ref) (c_rx c1)\<rparr>))
          (if rr_len ref = 0 then Some (w, c)
           else case lw_log w of
               None \<Rightarrow> Some (w, charge_loss (length data) XCOM_ERR_NOT_OPEN ''raw RX with no open file (counted as loss)'' c)
             | Some path \<Rightarrow>
                 map_option (\<lambda>(off, w1, c1).
                     (w1, if off < length data
                          then charge_loss (length data - off) XCOM_ERR_IO
                                 ''raw RX log tail unwritten at stop (counted as loss)'' c1
                          else c1))
                   (rx_write_loop Q path data 0 w c)))"

text \<open>The drain loops over the raw ring; a block that never gets written makes the whole loop not end.\<close>

fun drain_rx ::
  "nat \<Rightarrow> file_os \<Rightarrow> log_writer \<Rightarrow> 'x core_scheme \<Rightarrow> (log_writer \<times> 'x core_scheme) option" where
  "drain_rx 0 Q w c = Some (w, c)"
| "drain_rx (Suc n) Q w c =
     (case rx_pop_raw (os_rx Q) (c_rx c) of
        None \<Rightarrow> Some (w, c)
      | Some (ref, l) \<Rightarrow>
          (case process_rx_ref Q ref w (c\<lparr>c_rx := l\<rparr>) of
             None \<Rightarrow> None
           | Some (w1, c1) \<Rightarrow> drain_rx n Q w1 c1))"

definition cancel_pending_rx :: "file_os \<Rightarrow> log_writer \<Rightarrow> 'x core_scheme \<Rightarrow> (log_writer \<times> 'x core_scheme) option" where
  "cancel_pending_rx Q w c = drain_rx (Suc kRxBlockCount) Q w c"

definition flush_rx_before_close :: "file_os \<Rightarrow> log_writer \<Rightarrow> 'x core_scheme \<Rightarrow> (log_writer \<times> 'x core_scheme) option" where
  "flush_rx_before_close Q w c = (if lw_log w = None then Some (w, c) else drain_rx (Suc kRxBlockCount) Q w c)"

section \<open>Executing a job\<close>

definition process_open :: "file_os \<Rightarrow> file_job \<Rightarrow> log_writer \<Rightarrow> i32 \<times> log_writer" where
  "process_open Q j w =
     (if lw_log w \<noteq> None then (XCOM_ERR_BUSY, w)
      else if \<not> os_create Q (lw_clock w) (fj_path j) then (XCOM_ERR_IO, (lw_tick w)\<lparr>lw_accepting := False\<rparr>)
      else let w1 = (lw_do (OpCreate (fj_path j) (\<not> fj_append j)) w)\<lparr>lw_log := Some (fj_path j)\<rparr>;
               w2 = (if fj_append j then lw_do (OpSeekEnd (fj_path j)) w1 else w1)
           in (XCOM_OK, w2\<lparr>lw_accepting := True\<rparr>))"

definition process_close ::
  "file_os \<Rightarrow> log_writer \<Rightarrow> 'x core_scheme \<Rightarrow> (i32 \<times> log_writer \<times> 'x core_scheme) option" where
  "process_close Q w c =
     map_option (\<lambda>(w1, c1).
        case lw_log w1 of
          None \<Rightarrow> (XCOM_OK, w1, c1)
        | Some path \<Rightarrow>
            if os_flush Q (lw_clock w1) then (XCOM_OK, (lw_do (OpFlush path) w1)\<lparr>lw_log := None\<rparr>, c1)
            else (XCOM_ERR_IO, (lw_tick w1)\<lparr>lw_log := None\<rparr>, c1))
      (flush_rx_before_close Q (w\<lparr>lw_accepting := False\<rparr>) c)"

text \<open>The status, the offset the job reached, and the state; the job is then finished with them.\<close>

definition run_job ::
  "file_os \<Rightarrow> file_job \<Rightarrow> log_writer \<Rightarrow> 'x core_scheme \<Rightarrow> (i32 \<times> nat \<times> log_writer \<times> 'x core_scheme) option" where
  "run_job Q j w c =
     (case fj_kind j of
        JkOpen \<Rightarrow> (case process_open Q j w of (st, w1) \<Rightarrow> Some (st, fj_offset j, w1, c))
      | JkAppend \<Rightarrow>
          (case lw_log w of
             None \<Rightarrow> Some (XCOM_ERR_NOT_OPEN, fj_offset j, w, c)
           | Some path \<Rightarrow> append_loop Q path (fj_data j) (fj_offset j) False w c)
      | JkFlush \<Rightarrow>
          (case lw_log w of
             None \<Rightarrow> Some (XCOM_ERR_IO, fj_offset j, w, c)
           | Some path \<Rightarrow> if os_flush Q (lw_clock w) then Some (XCOM_OK, fj_offset j, lw_do (OpFlush path) w, c)
                          else Some (XCOM_ERR_IO, fj_offset j, lw_tick w, c))
      | JkClose \<Rightarrow> map_option (\<lambda>(st, w1, c1). (st, fj_offset j, w1, c1)) (process_close Q w c)
      | JkAtomicWrite \<Rightarrow> Some (process_atomic Q j w c)
      | JkStreamBegin \<Rightarrow> (case process_stream_begin Q j w of (st, w1) \<Rightarrow> Some (st, fj_offset j, w1, c))
      | JkStreamAppend \<Rightarrow> Some (process_stream_append Q j w c)
      | JkStreamCommit \<Rightarrow> (case process_stream_commit Q j w of (st, w1) \<Rightarrow> Some (st, fj_offset j, w1, c))
      | JkStreamAbort \<Rightarrow> (case process_stream_abort j w of (st, w1) \<Rightarrow> Some (st, fj_offset j, w1, c)))"

definition lw_process ::
  "file_os \<Rightarrow> file_job \<Rightarrow> log_writer \<Rightarrow> 'x core_scheme \<Rightarrow> (log_writer \<times> 'x core_scheme) option" where
  "lw_process Q j w c =
     (case run_job Q j w c of
        None \<Rightarrow> None
      | Some (st, off, w1, c1) \<Rightarrow> lw_finish Q (j\<lparr>fj_offset := off\<rparr>) st w1 c1)"

fun cancel_pending ::
  "nat \<Rightarrow> file_os \<Rightarrow> log_writer \<Rightarrow> 'x core_scheme \<Rightarrow> (log_writer \<times> 'x core_scheme) option" where
  "cancel_pending 0 Q w c = Some (w, c)"
| "cancel_pending (Suc n) Q w c =
     (case os_pop_job Q (lw_jobs w) of
        None \<Rightarrow> Some (w, c)
      | Some (j, q) \<Rightarrow>
          (case lw_finish Q j XCOM_ERR_TIMEOUT (w\<lparr>lw_jobs := q\<rparr>) c of
             None \<Rightarrow> None
           | Some (w1, c1) \<Rightarrow> cancel_pending n Q w1 c1))"

section \<open>The worker thread\<close>

datatype worker_turn = TurnIdle | TurnWorked | TurnExit

text \<open>
  One pass of the thread's loop. A pass that finds the stop flag gives everything pending back and
  ends the thread; \<open>None\<close> is a pass that does not end (a write retried for ever) or asserts.
\<close>

definition worker_pass ::
  "file_os \<Rightarrow> log_writer \<Rightarrow> 'x core_scheme \<Rightarrow> (worker_turn \<times> log_writer \<times> 'x core_scheme) option" where
  "worker_pass Q w c =
     (let c0 = lw_beat Q w c
      in if lw_stopping w then do {
           (w1, c1) \<leftarrow> cancel_pending (Suc kFileJobCapacity) Q w c0;
           (w2, c2) \<leftarrow> cancel_pending_rx Q w1 c1;
           Some (TurnExit, stream_reset (w2\<lparr>lw_log := None\<rparr>), lw_set_running False c2)
         } else case os_pop_job Q (lw_jobs w) of
           Some (j, q) \<Rightarrow> map_option (\<lambda>(w1, c1). (TurnWorked, w1, c1)) (lw_process Q j (w\<lparr>lw_jobs := q\<rparr>) c0)
         | None \<Rightarrow>
             (case rx_pop_raw (os_rx Q) (c_rx c0) of
                Some (ref, l) \<Rightarrow>
                  map_option (\<lambda>(w1, c1). (TurnWorked, w1, c1)) (process_rx_ref Q ref w (c0\<lparr>c_rx := l\<rparr>))
              | None \<Rightarrow> Some (TurnIdle, w, lw_set_parked False (lw_set_parked True c0))))"

text \<open>The passes the worker makes while a caller waits.\<close>

fun worker_passes ::
  "nat \<Rightarrow> file_os \<Rightarrow> log_writer \<Rightarrow> 'x core_scheme \<Rightarrow> (log_writer \<times> 'x core_scheme) option" where
  "worker_passes 0 Q w c = Some (w, c)"
| "worker_passes (Suc n) Q w c =
     (case worker_pass Q w c of
        None \<Rightarrow> None
      | Some (TurnExit, w1, c1) \<Rightarrow> Some (w1, c1)
      | Some (_, w1, c1) \<Rightarrow> worker_passes n Q w1 c1)"

section \<open>The caller's side\<close>

text \<open>Takes a completion slot, held by the caller and by the job, and queues the job.\<close>

definition sync_queue :: "file_os \<Rightarrow> bool \<Rightarrow> file_job \<Rightarrow> log_writer \<Rightarrow> nat option \<times> log_writer" where
  "sync_queue Q event_ok j w =
     (case acquire_completion event_ok w of
        (None, w1) \<Rightarrow> (None, w1)
      | (Some i, w1) \<Rightarrow>
          let w2 = w1\<lparr>lw_sync := (lw_sync w1)(i := (lw_sync w1 i)\<lparr>ss_refs := ss_refs (lw_sync w1 i) + 1\<rparr>)\<rparr>
          in case lw_enqueue Q (j\<lparr>fj_completion := Some i\<rparr>) w2 of
               None \<Rightarrow> (None, release_completion i (release_completion i w2))
             | Some w3 \<Rightarrow> (Some i, w3))"

text \<open>
  \<open>passes\<close> is how far the worker gets before the wait ends. A worker that has not returned from a pass
  leaves the caller to its timeout, with the state as it was when the job was queued.
\<close>

definition submit_sync ::
  "file_os \<Rightarrow> bool \<Rightarrow> nat \<Rightarrow> file_job \<Rightarrow> log_writer \<Rightarrow> 'x core_scheme \<Rightarrow> i32 \<times> log_writer \<times> 'x core_scheme" where
  "submit_sync Q event_ok passes j w c =
     (case sync_queue Q event_ok j w of
        (None, w3) \<Rightarrow> (XCOM_ERR_FULL, w3, c)
      | (Some i, w3) \<Rightarrow>
          (case worker_passes passes Q w3 c of
             None \<Rightarrow> (XCOM_ERR_TIMEOUT, release_completion i w3, c)
           | Some (w4, c4) \<Rightarrow>
               if ss_done (lw_sync w4 i) then (ss_status (lw_sync w4 i), release_completion i w4, c4)
               else (XCOM_ERR_TIMEOUT, release_completion i w4, c4)))"

definition log_start :: "file_os \<Rightarrow> bool \<Rightarrow> bool \<Rightarrow> bool \<Rightarrow> log_writer \<Rightarrow> 'x core_scheme \<Rightarrow> bool \<times> log_writer \<times> 'x core_scheme" where
  "log_start Q slot_free wake_ok spawned w c =
     (if \<not> lw_present w \<and> \<not> slot_free then (False, w, c)
      else let w1 = w\<lparr>lw_present := True\<rparr>
           in if lw_running w1 then (True, w1, c)
              else let w2 = w1\<lparr>lw_stopping := False\<rparr>
                   in if \<not> wake_ok then (False, w2, c)
                      else if \<not> spawned then (False, w2\<lparr>lw_running := False\<rparr>, c)
                      else (True, w2\<lparr>lw_running := True\<rparr>, lw_set_running True c))"

definition log_open ::
  "file_os \<Rightarrow> bool \<Rightarrow> nat \<Rightarrow> string \<Rightarrow> bool \<Rightarrow> log_writer \<Rightarrow> 'x core_scheme \<Rightarrow> i32 \<times> log_writer \<times> 'x core_scheme" where
  "log_open Q event_ok passes path app w c =
     (if \<not> lw_present w then (XCOM_ERR_IO, w, c)
      else case os_wide Q path of
          None \<Rightarrow> (XCOM_ERR_PARAM, w, c)
        | Some p \<Rightarrow>
            if lw_accepting w then (XCOM_ERR_BUSY, w, c)
            else submit_sync Q event_ok passes ((plain_job JkOpen)\<lparr>fj_append := app, fj_path := p\<rparr>) w c)"

text \<open>A null data pointer is \<open>None\<close>.\<close>

definition log_append :: "file_os \<Rightarrow> u8 list option \<Rightarrow> nat \<Rightarrow> log_writer \<Rightarrow> i32 \<times> log_writer" where
  "log_append Q data len w =
     (case data of
        Some bytes \<Rightarrow>
          if lw_present w \<and> len \<le> kFileBlockBytes then
            (case acquire_append_lease w of
               None \<Rightarrow> (XCOM_ERR_NOT_OPEN, w)
             | Some w1 \<Rightarrow>
                 (case fixed_pool_allocate (lw_blocks w1) of
                    None \<Rightarrow> (XCOM_ERR_FULL, release_append_lease w1)
                  | Some (b, p) \<Rightarrow>
                      let w2 = w1\<lparr>lw_blocks := fixed_pool_write p b (take len bytes)\<rparr>
                      in case lw_enqueue Q ((plain_job JkAppend)\<lparr>fj_block := Some b, fj_data := take len bytes\<rparr>) w2 of
                           None \<Rightarrow> (XCOM_ERR_FULL, release_append_lease (lw_release_block (Some b) w2))
                         | Some w3 \<Rightarrow> (XCOM_OK, release_append_lease w3)))
          else (if len > kFileBlockBytes then XCOM_ERR_FULL else XCOM_ERR_PARAM, w)
      | None \<Rightarrow> (if len > kFileBlockBytes then XCOM_ERR_FULL else XCOM_ERR_PARAM, w))"

definition log_flush ::
  "file_os \<Rightarrow> bool \<Rightarrow> nat \<Rightarrow> log_writer \<Rightarrow> 'x core_scheme \<Rightarrow> i32 \<times> log_writer \<times> 'x core_scheme" where
  "log_flush Q event_ok passes w c =
     (if \<not> lw_present w then (XCOM_ERR_IO, w, c) else submit_sync Q event_ok passes (plain_job JkFlush) w c)"

definition log_close ::
  "file_os \<Rightarrow> bool \<Rightarrow> u32 list \<Rightarrow> nat \<Rightarrow> log_writer \<Rightarrow> 'x core_scheme \<Rightarrow> i32 \<times> log_writer \<times> 'x core_scheme" where
  "log_close Q event_ok waits passes w c =
     (if \<not> lw_present w then (XCOM_ERR_IO, w, c)
      else case close_append_admission waits w of
          (False, w1) \<Rightarrow> (XCOM_ERR_TIMEOUT, w1, c)
        | (True, w1) \<Rightarrow> submit_sync Q event_ok passes (plain_job JkClose) w1 c)"

text \<open>The part every asynchronous submission shares: reserve a completion, queue, or give it back.\<close>

definition submit_reserved :: "file_os \<Rightarrow> file_job \<Rightarrow> log_writer \<Rightarrow> i32 \<times> log_writer" where
  "submit_reserved Q j w =
     (case reserve_completion w of
        None \<Rightarrow> (XCOM_ERR_FULL, w)
      | Some w1 \<Rightarrow>
          (case lw_enqueue Q j w1 of
             None \<Rightarrow> (XCOM_ERR_FULL, release_completion_reservation w1)
           | Some w2 \<Rightarrow> (XCOM_OK, w2)))"

definition submit_atomic :: "file_os \<Rightarrow> string \<Rightarrow> u8 list option \<Rightarrow> nat \<Rightarrow> u64 \<Rightarrow> log_writer \<Rightarrow> i32 \<times> log_writer" where
  "submit_atomic Q path data len request w =
     (if \<not> lw_present w \<or> data = None \<or> len > kFileBlockBytes
      then (if len > kFileBlockBytes then XCOM_ERR_FULL else XCOM_ERR_PARAM, w)
      else case os_wide Q path of
          None \<Rightarrow> (XCOM_ERR_PARAM, w)
        | Some p \<Rightarrow>
            (case reserve_completion w of
               None \<Rightarrow> (XCOM_ERR_FULL, w)
             | Some w1 \<Rightarrow>
                 (case fixed_pool_allocate (lw_blocks w1) of
                    None \<Rightarrow> (XCOM_ERR_FULL, release_completion_reservation w1)
                  | Some (b, q) \<Rightarrow>
                      let bytes = take len (the data); w2 = w1\<lparr>lw_blocks := fixed_pool_write q b bytes\<rparr>
                      in case lw_enqueue Q ((plain_job JkAtomicWrite)\<lparr>fj_block := Some b, fj_data := bytes,
                                fj_request := request, fj_path := p\<rparr>) w2 of
                           None \<Rightarrow> (XCOM_ERR_FULL, release_completion_reservation (lw_release_block (Some b) w2))
                         | Some w3 \<Rightarrow> (XCOM_OK, w3))))"

definition submit_atomic_borrowed ::
  "file_os \<Rightarrow> string \<Rightarrow> u8 list option \<Rightarrow> nat \<Rightarrow> u64 \<Rightarrow> log_writer \<Rightarrow> i32 \<times> log_writer" where
  "submit_atomic_borrowed Q path data len request w =
     (if \<not> lw_present w \<or> (len \<noteq> 0 \<and> data = None) then (XCOM_ERR_PARAM, w)
      else case os_wide Q path of
          None \<Rightarrow> (XCOM_ERR_PARAM, w)
        | Some p \<Rightarrow> submit_reserved Q ((plain_job JkAtomicWrite)\<lparr>fj_data := (case data of None \<Rightarrow> [] | Some d \<Rightarrow> take len d),
                       fj_request := request, fj_path := p\<rparr>) w)"

definition stream_begin :: "file_os \<Rightarrow> string \<Rightarrow> u64 \<Rightarrow> u64 \<Rightarrow> log_writer \<Rightarrow> i32 \<times> log_writer" where
  "stream_begin Q path stream request w =
     (if \<not> lw_present w \<or> stream = 0 then (XCOM_ERR_PARAM, w)
      else case os_wide Q path of
          None \<Rightarrow> (XCOM_ERR_PARAM, w)
        | Some p \<Rightarrow> submit_reserved Q ((plain_job JkStreamBegin)\<lparr>fj_stream := stream, fj_request := request, fj_path := p\<rparr>) w)"

definition stream_append_borrowed ::
  "file_os \<Rightarrow> u64 \<Rightarrow> u8 list option \<Rightarrow> nat \<Rightarrow> u64 \<Rightarrow> log_writer \<Rightarrow> i32 \<times> log_writer" where
  "stream_append_borrowed Q stream data len request w =
     (if \<not> lw_present w \<or> stream = 0 \<or> (len \<noteq> 0 \<and> data = None) then (XCOM_ERR_PARAM, w)
      else submit_reserved Q ((plain_job JkStreamAppend)\<lparr>fj_data := (case data of None \<Rightarrow> [] | Some d \<Rightarrow> take len d),
             fj_stream := stream, fj_request := request\<rparr>) w)"

definition stream_commit :: "file_os \<Rightarrow> u64 \<Rightarrow> u64 \<Rightarrow> log_writer \<Rightarrow> i32 \<times> log_writer" where
  "stream_commit Q stream request w =
     (if \<not> lw_present w \<or> stream = 0 then (XCOM_ERR_PARAM, w)
      else submit_reserved Q ((plain_job JkStreamCommit)\<lparr>fj_stream := stream, fj_request := request\<rparr>) w)"

definition stream_abort :: "file_os \<Rightarrow> u64 \<Rightarrow> u64 \<Rightarrow> log_writer \<Rightarrow> i32 \<times> log_writer" where
  "stream_abort Q stream request w =
     (if \<not> lw_present w \<or> stream = 0 then (XCOM_ERR_PARAM, w)
      else submit_reserved Q ((plain_job JkStreamAbort)\<lparr>fj_stream := stream, fj_request := request\<rparr>) w)"

definition log_take_completion :: "file_os \<Rightarrow> log_writer \<Rightarrow> (u64 \<times> i32) option \<times> i32 \<times> log_writer" where
  "log_take_completion Q w =
     (if \<not> lw_present w then (None, XCOM_ERR_IO, w)
      else case os_pop_done Q (lw_completions w) of
          None \<Rightarrow> (Some (0, XCOM_OK), XCOM_OK, w)
        | Some (d, q) \<Rightarrow> (Some d, XCOM_OK, release_completion_reservation (w\<lparr>lw_completions := q\<rparr>)))"

text \<open>
  Shutdown: a close first, then the stop flag; the join is the worker's next passes, the last of which
  sees the flag.
\<close>

definition log_shutdown ::
  "file_os \<Rightarrow> bool \<Rightarrow> u32 list \<Rightarrow> nat \<Rightarrow> log_writer \<Rightarrow> 'x core_scheme \<Rightarrow> (log_writer \<times> 'x core_scheme) option" where
  "log_shutdown Q event_ok waits passes w c =
     (if \<not> lw_present w \<or> \<not> lw_running w then Some (w, c)
      else case log_close Q event_ok waits passes w c of
        (st, w1, c1) \<Rightarrow>
          let w2 = (if st \<noteq> XCOM_OK then w1\<lparr>lw_accepting := False\<rparr> else w1)\<lparr>lw_stopping := True\<rparr>
          in map_option (\<lambda>(turn, w3, c3). (w3\<lparr>lw_running := False\<rparr>, c3)) (worker_pass Q w2 (lw_set_running False c1)))"

section \<open>A concrete platform\<close>

text \<open>A platform that takes at most two bytes per write; a stop is requested at its call 100.\<close>

definition demo_os :: file_os where
  "demo_os = \<lparr>os_wide = Some, os_create = (\<lambda>_ _. True), os_write = (\<lambda>_ bs. Inr 2), os_flush = (\<lambda>_. True),
     os_move = (\<lambda>_. True), os_stopping = (\<lambda>n. 100 \<le> n), os_now = of_nat, os_rx = rx_env_list,
     os_push_job = list_push kFileJobCapacity, os_pop_job = list_pop,
     os_push_done = list_push kCompletionCapacity, os_pop_done = list_pop\<rparr>"

lemma demo_os_ok: "file_os_ok demo_os"
  using rx_env_list_ok spsc_list_ring [of kFileJobCapacity] spsc_list_ring [of kCompletionCapacity]
  by (simp add: file_os_ok_def demo_os_def)

end
