(* ===== verification/Core_State.thy ===== *)
theory Core_State
  imports Receive_Ao Rx_Ingress Send_Ao Serial_Ao Serial_Backend Periodic_Timer Status_Codes Log_Writer
begin

text \<open>
  \<open>CoreState\<close> of \<open>runtime/xcom_core.cpp\<close>: the shared context together with the session writer, the serial
  adapter, the deferred receive block, the auto-send template and timer, and the functions it installs
  in the context. The platform (the coact coordinator, Win32, the thread library) is the record
  \<open>platform\<close>; what other threads of the program do while an owner function blocks is a list of their
  modelled steps. A failed assertion sets \<open>k_aborted\<close>: the process ends there.
\<close>

section \<open>State and platform\<close>

datatype posted = PostKick | PostControl signal | PostSend tx_descriptor | PostConfig auto_template

record core_state = core +
  k_writer :: session_writer
  k_backend :: backend
  k_deferred :: "rx_ref option"
  k_send :: send_ctx
  k_timer :: timer_state
  k_log :: log_writer
  k_posted :: "posted list"       \<comment> \<open>events accepted by the coordinator, in order\<close>
  k_started :: bool
  k_aborted :: bool

text \<open>Steps of the other threads that touch the lifecycle fields.\<close>

datatype other_step =
    OsFault i32                 \<comment> \<open>the read thread reports a fault\<close>
  | OsLine line_status          \<comment> \<open>the read thread reports a line status\<close>
  | OsCancel                    \<comment> \<open>the client gives the open up\<close>
  | OsWrite u16 u16             \<comment> \<open>the write thread transmits a block\<close>

text \<open>
  What the file writer's calls meet: whether its slot is free, its event valid and its thread spawned, whether
  the completion event is valid, the lease counts a close reads, and how many passes the worker makes
  before a wait ends.
\<close>

record log_answers =
  la_slot_free :: bool
  la_wake_ok :: bool
  la_spawned :: bool
  la_event_ok :: bool
  la_waits :: "u32 list"
  la_passes :: nat

record platform =
  pf_now :: u32
  pf_alloc_control :: "core_state \<Rightarrow> bool"
  pf_submit :: "core_state \<Rightarrow> posted \<Rightarrow> bool \<Rightarrow> submit_disposition"
  pf_open :: "core_state \<Rightarrow> open_answers"
  pf_spawn_writer :: "core_state \<Rightarrow> bool"
  pf_timer :: "core_state \<Rightarrow> bool \<times> u64 \<times> bool"
  pf_write :: "core_state \<Rightarrow> nat \<Rightarrow> u8 list \<Rightarrow> write_outcome"
  pf_escape :: "modem_pin \<Rightarrow> bool \<Rightarrow> i32 option"
  pf_show_int :: "i32 \<Rightarrow> string"
  pf_rx :: rx_env
  pf_files :: file_os
  pf_log :: "core_state \<Rightarrow> log_answers"
  pf_during_open :: "core_state \<Rightarrow> other_step list"
  pf_during_close :: "core_state \<Rightarrow> other_step list"

definition core_state_init :: core_state where
  "core_state_init = core.extend core_init
     \<lparr>k_writer = session_writer_init, k_backend = backend_init, k_deferred = None, k_send = send_ctx_init,
      k_timer = \<lparr>pt_interval_ns = 0, pt_armed = False, pt_stop_requested = True, pt_active = False, pt_worker = False\<rparr>,
      k_log = log_writer_init, k_posted = [], k_started = False, k_aborted = False\<rparr>"

section \<open>Posting to the Dispatcher\<close>

definition disposition_accepted :: "submit_disposition \<Rightarrow> bool" where
  "disposition_accepted d \<longleftrightarrow> d = SdQueued \<or> d = SdDirect"

definition post :: "platform \<Rightarrow> posted \<Rightarrow> bool \<Rightarrow> core_state \<Rightarrow> submit_disposition \<times> core_state" where
  "post P e critical s =
     (let d = pf_submit P s e critical
      in (d, if disposition_accepted d then s\<lparr>k_posted := k_posted s @ [e]\<rparr> else s))"

definition sink_submit_rx_kick :: "platform \<Rightarrow> core_state \<Rightarrow> bool \<times> core_state" where
  "sink_submit_rx_kick P s = (case post P PostKick True s of (d, s') \<Rightarrow> (disposition_accepted d, s'))"

definition control_target :: "signal \<Rightarrow> bool" where
  "control_target sig \<longleftrightarrow> sig \<in> {SigOpen, SigClose, SigFault, SigAutosend, SigDiag}"

definition sink_submit_control :: "platform \<Rightarrow> signal \<Rightarrow> u32 \<Rightarrow> bool \<Rightarrow> core_state \<Rightarrow> bool \<times> core_state" where
  "sink_submit_control P sig word critical s =
     (if \<not> pf_alloc_control P s then (False, s)
      else if \<not> control_target sig then (False, s)
      else case post P (PostControl sig) critical s of (d, s') \<Rightarrow> (disposition_accepted d, s'))"

definition sink_submit_write :: "platform \<Rightarrow> tx_descriptor \<Rightarrow> core_state \<Rightarrow> i32 \<times> core_state" where
  "sink_submit_write P d s =
     (if \<not> pf_alloc_control P s then (XCOM_ERR_FULL, s)
      else case post P (PostSend d) False s of (disp, s') \<Rightarrow> (tx_submit_status disp, s'))"

definition sink_submit_autosend_config :: "platform \<Rightarrow> auto_template \<Rightarrow> core_state \<Rightarrow> bool \<times> core_state" where
  "sink_submit_autosend_config P d s =
     (if \<not> pf_alloc_control P s then (False, s)
      else case post P (PostConfig d) False s of (disp, s') \<Rightarrow> (disposition_accepted disp, s'))"

definition sink_enqueue_write :: "u16 \<Rightarrow> u16 \<Rightarrow> u32 \<Rightarrow> bool \<Rightarrow> core_state \<Rightarrow> bool \<times> core_state" where
  "sink_enqueue_write block len gen auto_send s =
     (if \<not> sw_active (k_writer s) then (False, s)
      else case sw_try_enqueue (k_writer s) \<lparr>wj_block = block, wj_len = len, wj_gen = gen, wj_auto_send = auto_send\<rparr> of
          None \<Rightarrow> (False, s)
        | Some w \<Rightarrow> (True, s\<lparr>k_writer := w\<rparr>))"

definition sink_diag_emit :: "u16 \<Rightarrow> diag_event \<Rightarrow> u32 \<Rightarrow> u32 \<Rightarrow> u32 \<Rightarrow> u32 \<Rightarrow> core_state \<Rightarrow> core_state" where
  "sink_diag_emit source event a0 a1 a2 a3 s = s\<lparr>c_diag := c_diag s @ [(source, event, a0, a1, a2, a3)]\<rparr>"

text \<open>The latch both backend threads use when even a critical fault signal is refused.\<close>

definition latch_fault :: "string \<Rightarrow> core_state \<Rightarrow> core_state" where
  "latch_fault msg s = (push_error XCOM_ERR_IO 0 msg s)\<lparr>c_port_state := PORT_FAULT, c_fault_pending := True\<rparr>"

definition serial_fault_callback :: "platform \<Rightarrow> i32 \<Rightarrow> core_state \<Rightarrow> core_state" where
  "serial_fault_callback P e s =
     (if \<not> c_callback_admission s then s
      else case sink_submit_control P SigFault 0 True (push_error e 2 ''Win32 serial read fault'' s) of
          (True, s') \<Rightarrow> s'
        | (False, s') \<Rightarrow> latch_fault ''coact fault signal rejected'' s')"

definition line_callback :: "line_status \<Rightarrow> core_state \<Rightarrow> core_state" where
  "line_callback st s =
     (let s1 = on_metrics (\<lambda>m. m\<lparr>m_modem_lines := ls_modem_lines st\<rparr>) s
      in if ls_framing st OR ls_parity st OR ls_overrun st OR ls_break st OR ls_hold st \<noteq> 0
         then line_status_ingress (quiet_sink\<lparr>sk_diag_emit := Some sink_diag_emit\<rparr>)
                (ls_framing st) (ls_parity st) (ls_overrun st) (ls_break st) (ls_hold st) s1
         else s1)"

section \<open>Auto-send\<close>

definition autosend_set_impl :: "platform \<Rightarrow> u32 \<Rightarrow> core_state \<Rightarrow> core_state" where
  "autosend_set_impl P interval_ms s =
     (if interval_ms = 0 then s\<lparr>k_timer := timer_stop (k_timer s)\<rparr>
      else case pf_timer P s of (wake_valid, qpc, spawned) \<Rightarrow>
        case timer_start interval_ms True wake_valid qpc spawned (k_timer s) of
          (True, t) \<Rightarrow> s\<lparr>k_timer := t\<rparr>
        | (False, t) \<Rightarrow> push_error XCOM_ERR_IO 0 ''autosend timer create failed'' (s\<lparr>k_timer := t\<rparr>))"

definition autosend_tick :: "platform \<Rightarrow> core_state \<Rightarrow> core_state" where
  "autosend_tick P s =
     (if c_port_state s \<noteq> PORT_OPEN then s
      else if c_autosend_armed s
      then on_metrics (\<lambda>m. m\<lparr>m_auto_tick_coalesced := m_auto_tick_coalesced m + 1\<rparr>) s
      else case sink_submit_control P SigAutosend 0 False (s\<lparr>c_autosend_armed := True\<rparr>) of
          (True, s') \<Rightarrow> s'
        | (False, s') \<Rightarrow> on_metrics (\<lambda>m. m\<lparr>m_tx_rejected := m_tx_rejected m + 1\<rparr>) (s'\<lparr>c_autosend_armed := False\<rparr>))"

section \<open>The native write\<close>

definition kTxFailStreakLimit :: u32 where [simp]: "kTxFailStreakLimit = 3"

text \<open>
  The floating-point formula: the block at ten bits a byte, eight times over, clamped. The clamp
  bounds are whole, and below them the quotient is exact to well under one millisecond, so the
  truncated result is the integer quotient.
\<close>

definition compute_write_timeout_ms :: "u32 \<Rightarrow> nat" where
  "compute_write_timeout_ms baud =
     (let ms = (if baud > 0 then 4096 * 10 * 1000 * 8 div unat baud else 0)
      in min 60000 (max 2000 ms))"

definition truncation_note :: "(i32 \<Rightarrow> string) \<Rightarrow> string \<Rightarrow> nat \<Rightarrow> nat \<Rightarrow> string" where
  "truncation_note show_int reason written len =
     take 159 (reason @ '' (truncated: '' @ show_nat written @ '' of '' @ show_nat len @ '' bytes sent)'')"

definition write_error_code :: "i32 \<Rightarrow> i32" where
  "write_error_code e = (if e \<noteq> 0 then e else XCOM_ERR_IO)"

definition write_error_fatal :: "i32 \<Rightarrow> bool" where
  "write_error_fatal e \<longleftrightarrow> e = ERROR_DEVICE_REMOVED \<or> e = ERROR_ACCESS_DENIED \<or> e = ERROR_INVALID_HANDLE \<or>
     e = ERROR_OPERATION_ABORTED"

definition record_write_failure :: "platform \<Rightarrow> write_result \<Rightarrow> u16 \<Rightarrow> core_state \<Rightarrow> core_state" where
  "record_write_failure P r len s =
     (let n = wr_written r;
          s1 = (if n \<noteq> 0 then on_metrics (\<lambda>m. m\<lparr>m_tx_bytes := m_tx_bytes m + of_nat n\<rparr>) s else s);
          reason = describe_write_failure (wr_error r) (wr_line_status r);
          s2 = push_error (write_error_code (wr_error r)) 2
                 (if n \<noteq> 0 \<and> n < unat len then truncation_note (pf_show_int P) reason n (unat len) else reason) s1
      in s2\<lparr>c_tx_fail_streak := c_tx_fail_streak s2 + 1\<rparr>)"

definition write_failed :: "platform \<Rightarrow> write_result \<Rightarrow> u16 \<Rightarrow> core_state \<Rightarrow> core_state" where
  "write_failed P r len s =
     (let s1 = record_write_failure P r len s
      in if write_error_fatal (wr_error r) \<or> c_tx_fail_streak s1 \<ge> kTxFailStreakLimit
         then (case sink_submit_control P SigFault 0 True s1 of
                 (True, s2) \<Rightarrow> s2
               | (False, s2) \<Rightarrow> latch_fault ''writer fault signal rejected'' s2)
         else s1)"

definition sink_owner_write :: "platform \<Rightarrow> u16 \<Rightarrow> u16 \<Rightarrow> core_state \<Rightarrow> i32 \<times> core_state" where
  "sink_owner_write P block len s =
     (if c_virtual_port s then (XCOM_OK, on_metrics (\<lambda>m. m\<lparr>m_tx_bytes := m_tx_bytes m + ucast len\<rparr>) s)
      else if \<not> sb_open (k_backend s) then (XCOM_ERR_NOT_OPEN, s)
      else case tx_block (c_tx s) block (unat len) of
          None \<Rightarrow> (XCOM_ERR_IO, s\<lparr>k_aborted := True\<rparr>)
        | Some data \<Rightarrow>
            let r = backend_write (pf_write P s) (k_backend s) data
            in if wr_ok r
               then (XCOM_OK, on_metrics (\<lambda>m. m\<lparr>m_tx_bytes := m_tx_bytes m + of_nat (wr_written r)\<rparr>)
                                (s\<lparr>c_tx_fail_streak := 0\<rparr>))
               else (XCOM_ERR_IO, write_failed P r len s))"

definition sink_owner_set_lines :: "platform \<Rightarrow> bool \<Rightarrow> bool \<Rightarrow> core_state \<Rightarrow> i32 \<times> core_state" where
  "sink_owner_set_lines P dtr rts s =
     (if c_virtual_port s \<or> \<not> sb_open (k_backend s) then (XCOM_ERR_NOT_OPEN, s)
      else let r1 = (case set_dtr (pf_escape P) dtr (k_backend s) of
                       LineApplied \<Rightarrow> XCOM_OK | LineFailed \<Rightarrow> XCOM_ERR_IO | LineClosed \<Rightarrow> XCOM_ERR_NOT_OPEN | _ \<Rightarrow> XCOM_ERR_IO);
               r2 = (case set_rts (pf_escape P) rts (k_backend s) of
                       LineApplied \<Rightarrow> r1
                     | LineDriverOwned \<Rightarrow> (if r1 = XCOM_OK then XCOM_ERR_UNSUPPORTED else r1)
                     | LineFailed \<Rightarrow> (if r1 = XCOM_OK then XCOM_ERR_IO else r1)
                     | LineClosed \<Rightarrow> (if r1 = XCOM_OK then XCOM_ERR_NOT_OPEN else r1))
           in (r2, s))"

section \<open>Files\<close>

definition sink_log_start :: "platform \<Rightarrow> core_state \<Rightarrow> bool \<times> core_state" where
  "sink_log_start P s =
     (let A = pf_log P s
      in case log_start (pf_files P) (la_slot_free A) (la_wake_ok A) (la_spawned A) (k_log s) s of
           (ok, w, s1) \<Rightarrow> (ok, s1\<lparr>k_log := w\<rparr>))"

definition sink_log_open :: "platform \<Rightarrow> string \<Rightarrow> bool \<Rightarrow> core_state \<Rightarrow> i32 \<times> core_state" where
  "sink_log_open P path app s =
     (case sink_log_start P s of
        (False, s1) \<Rightarrow> (XCOM_ERR_IO, s1)
      | (True, s1) \<Rightarrow>
          let A = pf_log P s1
          in case log_open (pf_files P) (la_event_ok A) (la_passes A) path app (k_log s1) s1 of
               (st, w, s2) \<Rightarrow> (st, s2\<lparr>k_log := w\<rparr>))"

definition sink_log_append :: "platform \<Rightarrow> u8 list option \<Rightarrow> u32 \<Rightarrow> core_state \<Rightarrow> i32 \<times> core_state" where
  "sink_log_append P data n s =
     (case log_append (pf_files P) data (unat n) (k_log s) of
        (st, w) \<Rightarrow>
          (st, (if st = XCOM_ERR_FULL
                then on_metrics (\<lambda>m. m\<lparr>m_save_rejected_bytes := m_save_rejected_bytes m + n\<rparr>) s
                else s)\<lparr>k_log := w\<rparr>))"

definition sink_log_flush :: "platform \<Rightarrow> core_state \<Rightarrow> i32 \<times> core_state" where
  "sink_log_flush P s =
     (let A = pf_log P s
      in case log_flush (pf_files P) (la_event_ok A) (la_passes A) (k_log s) s of (st, w, s1) \<Rightarrow> (st, s1\<lparr>k_log := w\<rparr>))"

definition sink_log_close :: "platform \<Rightarrow> core_state \<Rightarrow> i32 \<times> core_state" where
  "sink_log_close P s =
     (let A = pf_log P s
      in case log_close (pf_files P) (la_event_ok A) (la_waits A) (la_passes A) (k_log s) s of
           (st, w, s1) \<Rightarrow> (st, s1\<lparr>k_log := w\<rparr>))"

text \<open>A submission that starts the writer first, and one that needs it running.\<close>

definition started_file_op :: "platform \<Rightarrow> (log_writer \<Rightarrow> i32 \<times> log_writer) \<Rightarrow> core_state \<Rightarrow> i32 \<times> core_state" where
  "started_file_op P f s =
     (case sink_log_start P s of
        (False, s1) \<Rightarrow> (XCOM_ERR_IO, s1)
      | (True, s1) \<Rightarrow> (case f (k_log s1) of (st, w) \<Rightarrow> (st, s1\<lparr>k_log := w\<rparr>)))"

definition file_op_on :: "(log_writer \<Rightarrow> i32 \<times> log_writer) \<Rightarrow> core_state \<Rightarrow> i32 \<times> core_state" where
  "file_op_on f s = (case f (k_log s) of (st, w) \<Rightarrow> (st, s\<lparr>k_log := w\<rparr>))"

definition sink_file_submit_atomic ::
  "platform \<Rightarrow> string \<Rightarrow> u8 list option \<Rightarrow> u32 \<Rightarrow> u64 \<Rightarrow> core_state \<Rightarrow> i32 \<times> core_state" where
  "sink_file_submit_atomic P path data n request = started_file_op P (submit_atomic (pf_files P) path data (unat n) request)"

definition sink_file_submit_atomic_borrowed ::
  "platform \<Rightarrow> string \<Rightarrow> u8 list option \<Rightarrow> u32 \<Rightarrow> u64 \<Rightarrow> core_state \<Rightarrow> i32 \<times> core_state" where
  "sink_file_submit_atomic_borrowed P path data n request =
     started_file_op P (submit_atomic_borrowed (pf_files P) path data (unat n) request)"

definition sink_file_stream_begin :: "platform \<Rightarrow> string \<Rightarrow> u64 \<Rightarrow> u64 \<Rightarrow> core_state \<Rightarrow> i32 \<times> core_state" where
  "sink_file_stream_begin P path stream request = started_file_op P (stream_begin (pf_files P) path stream request)"

definition sink_file_stream_append_borrowed ::
  "platform \<Rightarrow> u64 \<Rightarrow> u8 list option \<Rightarrow> u32 \<Rightarrow> u64 \<Rightarrow> core_state \<Rightarrow> i32 \<times> core_state" where
  "sink_file_stream_append_borrowed P stream data n request =
     file_op_on (stream_append_borrowed (pf_files P) stream data (unat n) request)"

definition sink_file_stream_commit :: "platform \<Rightarrow> u64 \<Rightarrow> u64 \<Rightarrow> core_state \<Rightarrow> i32 \<times> core_state" where
  "sink_file_stream_commit P stream request = file_op_on (stream_commit (pf_files P) stream request)"

definition sink_file_stream_abort :: "platform \<Rightarrow> u64 \<Rightarrow> u64 \<Rightarrow> core_state \<Rightarrow> i32 \<times> core_state" where
  "sink_file_stream_abort P stream request = file_op_on (stream_abort (pf_files P) stream request)"

definition sink_file_take_completion :: "platform \<Rightarrow> core_state \<Rightarrow> (u64 \<times> i32) option \<times> i32 \<times> core_state" where
  "sink_file_take_completion P s =
     (case log_take_completion (pf_files P) (k_log s) of (d, st, w) \<Rightarrow> (d, st, s\<lparr>k_log := w\<rparr>))"

section \<open>Opening and closing the session\<close>

fun other_step_effect :: "platform \<Rightarrow> other_step \<Rightarrow> core_state \<Rightarrow> core_state" where
  "other_step_effect P (OsFault e) s = serial_fault_callback P e s"
| "other_step_effect P (OsLine st) s = line_callback st s"
| "other_step_effect P OsCancel s = s\<lparr>c_cancel_open := True\<rparr>"
| "other_step_effect P (OsWrite b n) s = snd (sink_owner_write P b n s)"

definition other_steps :: "platform \<Rightarrow> other_step list \<Rightarrow> core_state \<Rightarrow> core_state" where
  "other_steps P xs s = fold (other_step_effect P) xs s"

definition session_options :: "'x core_scheme \<Rightarrow> serial_options" where
  "session_options c = \<lparr>so_port_name = c_port_name c, so_baud = cfg_baud (c_cfg c),
     so_data_bits = cfg_data_bits (c_cfg c), so_stop_bits = cfg_stop_bits (c_cfg c), so_parity = cfg_parity (c_cfg c),
     so_flow_control = cfg_flow_control (c_cfg c), so_dtr_drive = cfg_dtr_enable (c_cfg c),
     so_rts_drive = cfg_rts_enable (c_cfg c)\<rparr>"

definition report_pin_warnings :: "platform \<Rightarrow> (modem_pin \<times> i32) list \<Rightarrow> core_state \<Rightarrow> core_state" where
  "report_pin_warnings P ws s = fold (\<lambda>w s. push_error XCOM_ERR_IO 1 (pin_warning (pf_show_int P) w) s) ws s"

text \<open>The end of \<open>sink_owner_open\<close>, which a virtual and a physical session share.\<close>

definition start_session_writer :: "platform \<Rightarrow> core_state \<Rightarrow> core_state" where
  "start_session_writer P s =
     (let (ok, w) = (if sw_active (k_writer s) then (True, k_writer s)
                     else sw_start (pf_spawn_writer P s) (k_writer s));
          s1 = s\<lparr>k_writer := w\<rparr>
      in if ok then s1\<lparr>c_callback_admission := True, c_last_open_result := XCOM_OK\<rparr>
         else (push_error XCOM_ERR_IO 0 ''serial writer start failed'' (s1\<lparr>k_backend := backend_close (k_backend s1)\<rparr>))
                \<lparr>c_last_open_result := XCOM_ERR_IO\<rparr>)"

definition sink_owner_open :: "platform \<Rightarrow> core_state \<Rightarrow> core_state" where
  "sink_owner_open P s =
     (let s0 = s\<lparr>c_heartbeats := (c_heartbeats s)\<lparr>hb_serial_read_ms := pf_now P\<rparr>\<rparr>
      in if c_virtual_port s0
         then start_session_writer P (other_steps P (pf_during_open P s0) (s0\<lparr>c_last_open_result := XCOM_OK\<rparr>))
         else let s1 = on_metrics (\<lambda>m. m\<lparr>m_modem_lines := 0\<rparr>) s0
              in case backend_open (pf_open P s1) (session_options s1) (k_backend s1) of
                (ok, e, warnings, b) \<Rightarrow>
                  let s2 = other_steps P (pf_during_open P s1)
                             (report_pin_warnings P warnings (s1\<lparr>k_backend := b\<rparr>))
                  in if ok then start_session_writer P s2
                     else (push_error (write_error_code e) 2 ''Win32 serial open failed'' s2)
                            \<lparr>c_last_open_result := write_error_code e\<rparr>)"

definition stop_session_writer :: "core_state \<Rightarrow> core_state" where
  "stop_session_writer s =
     (case sw_stop_and_join (k_writer s) s of
        (w, None) \<Rightarrow> s\<lparr>k_writer := w, k_aborted := True\<rparr>
      | (w, Some s1) \<Rightarrow>
          (case sw_release_leftover_jobs w s1 of
             (w', None) \<Rightarrow> s1\<lparr>k_writer := w', k_aborted := True\<rparr>
           | (w', Some s2) \<Rightarrow> s2\<lparr>k_writer := w'\<rparr>))"

definition release_deferred :: "platform \<Rightarrow> core_state \<Rightarrow> core_state" where
  "release_deferred P s = (snd (release_deferred_rx (pf_rx P) (k_deferred s) s))\<lparr>k_deferred := None\<rparr>"

definition sink_owner_close :: "platform \<Rightarrow> core_state \<Rightarrow> core_state" where
  "sink_owner_close P s =
     (let s1 = autosend_set_impl P 0 (on_metrics (\<lambda>m. m\<lparr>m_modem_lines := 0\<rparr>) s);
          s2 = release_deferred P (s1\<lparr>c_callback_admission := False\<rparr>);
          s3 = other_steps P (pf_during_close P s2) s2;
          s4 = (if sw_active (k_writer s3) then stop_session_writer s3 else s3);
          s5 = (if c_virtual_port s4 then s4 else s4\<lparr>k_backend := backend_close (k_backend s4)\<rparr>);
          s6 = (if c_in_callback s5 \<noteq> 0
                then push_error XCOM_ERR_IO 2 ''Win32 backend close left read callback active'' s5 else s5)
      in s6\<lparr>c_callback_admission := True\<rparr>)"

definition core_sink :: "platform \<Rightarrow> core_state dispatch_sink" where
  "core_sink P = quiet_sink\<lparr>
     sk_submit_rx_kick := Some (sink_submit_rx_kick P),
     sk_submit_control := Some (sink_submit_control P),
     sk_submit_write := Some (sink_submit_write P),
     sk_submit_autosend_config := Some (sink_submit_autosend_config P),
     sk_enqueue_write := Some sink_enqueue_write,
     sk_owner_open := Some (sink_owner_open P),
     sk_owner_close := Some (sink_owner_close P),
     sk_owner_write := Some (sink_owner_write P),
     sk_owner_set_lines := Some (sink_owner_set_lines P),
     sk_autosend_set := Some (autosend_set_impl P),
     sk_log_open := Some (sink_log_open P),
     sk_log_append := Some (sink_log_append P),
     sk_log_flush := Some (\<lambda>_. sink_log_flush P),
     sk_log_close := Some (\<lambda>_. sink_log_close P),
     sk_file_submit_atomic := Some (sink_file_submit_atomic P),
     sk_file_submit_atomic_borrowed := Some (sink_file_submit_atomic_borrowed P),
     sk_file_stream_begin := Some (sink_file_stream_begin P),
     sk_file_stream_append_borrowed := Some (sink_file_stream_append_borrowed P),
     sk_file_stream_commit := Some (sink_file_stream_commit P),
     sk_file_stream_abort := Some (sink_file_stream_abort P),
     sk_file_take_completion := Some (sink_file_take_completion P),
     sk_diag_emit := Some sink_diag_emit\<rparr>"

section \<open>The installed functions keep the lifecycle contract\<close>

lemma serial_frameI:
  assumes "c_generation c' = c_generation c" "c_open_generation c' = c_open_generation c"
    "c_fault_pending c' = c_fault_pending c" "c_port_state c' = c_port_state c"
  shows "serial_frame c c'"
  using assms by (simp add: serial_frame_def)

lemma sink_submit_control_frame: "serial_frame s (snd (sink_submit_control P sig w crit s))"
  by (rule serial_frameI) (simp_all add: sink_submit_control_def post_def Let_def)

lemma latch_fault_frame: "serial_frame s (latch_fault msg s)"
  by (simp add: serial_frame_def latch_fault_def)

lemma push_error_frame: "serial_frame s (push_error e k m s)"
  by (rule serial_frameI) simp_all

lemma control_or_latch_frame:
  "serial_frame s (case sink_submit_control P sig w crit s of (True, s') \<Rightarrow> s' | (False, s') \<Rightarrow> latch_fault msg s')"
proof -
  obtain ok s1 where c: "sink_submit_control P sig w crit s = (ok, s1)" by (meson surj_pair)
  have "serial_frame s s1" using sink_submit_control_frame [of s P sig w crit] c by simp
  then show ?thesis using c latch_fault_frame [of s1 msg] serial_frame_trans by (cases ok) auto
qed

lemma fault_callback_frame: "serial_frame s (serial_fault_callback P e s)"
  unfolding serial_fault_callback_def
  using serial_frame_trans [OF push_error_frame control_or_latch_frame] by simp

lemma line_callback_frame: "serial_frame s (line_callback st s)"
  by (rule serial_frameI)
    (simp_all add: line_callback_def line_status_ingress_def core_diag_emit_def quiet_sink_def sink_diag_emit_def Let_def)

lemma write_failed_frame: "serial_frame s (write_failed P r len s)"
proof -
  have r: "serial_frame s (record_write_failure P r len s)"
    by (rule serial_frameI) (simp_all add: record_write_failure_def Let_def)
  then show ?thesis
    using serial_frame_trans [OF r control_or_latch_frame] by (simp add: write_failed_def Let_def)
qed

lemma owner_write_frame: "serial_frame s (snd (sink_owner_write P b n s))"
proof -
  have "serial_frame s (s\<lparr>k_aborted := True\<rparr>)" "serial_frame s (on_metrics f (s\<lparr>c_tx_fail_streak := 0\<rparr>))"
    "serial_frame s (on_metrics f s)" for f
    by (auto intro: serial_frameI)
  then show ?thesis
    by (auto simp: sink_owner_write_def Let_def write_failed_frame split: option.split)
qed

lemma other_step_frame: "serial_frame s (other_step_effect P x s)"
  by (cases x) (auto intro: serial_frameI fault_callback_frame line_callback_frame owner_write_frame)

lemma other_steps_frame: "serial_frame s (other_steps P xs s)"
proof (induction xs arbitrary: s)
  case Nil
  then show ?case by (simp add: other_steps_def)
next
  case (Cons x xs)
  then show ?case
    using serial_frame_trans [OF other_step_frame Cons.IH] by (simp add: other_steps_def)
qed

lemma start_session_writer_frame: "serial_frame s (start_session_writer P s)"
  by (rule serial_frameI) (simp_all add: start_session_writer_def Let_def split: prod.split)

lemma pin_warnings_frame: "serial_frame s (report_pin_warnings P ws s)"
proof (induction ws arbitrary: s)
  case (Cons w ws)
  then show ?case
    using serial_frame_trans [OF push_error_frame Cons.IH] by (simp add: report_pin_warnings_def)
qed (simp add: report_pin_warnings_def)

lemma core_open_frame: "serial_frame s (sink_owner_open P s)"
proof -
  let ?s0 = "s\<lparr>c_heartbeats := (c_heartbeats s)\<lparr>hb_serial_read_ms := pf_now P\<rparr>\<rparr>"
  let ?s1 = "on_metrics (\<lambda>m. m\<lparr>m_modem_lines := 0\<rparr>) ?s0"
  obtain ok e ws b where o: "backend_open (pf_open P ?s1) (session_options ?s1) (k_backend ?s1) = (ok, e, ws, b)"
    by (metis prod_cases4)
  let ?s2 = "other_steps P (pf_during_open P ?s1) (report_pin_warnings P ws (?s1\<lparr>k_backend := b\<rparr>))"
  have v: "serial_frame s (other_steps P xs (?s0\<lparr>c_last_open_result := XCOM_OK\<rparr>))" for xs
    by (rule serial_frame_trans [OF serial_frameI other_steps_frame]) simp_all
  have p: "serial_frame s ?s2"
    by (rule serial_frame_trans [OF serial_frame_trans [OF serial_frameI pin_warnings_frame] other_steps_frame]) simp_all
  have f: "serial_frame x ((push_error k e m x)\<lparr>c_last_open_result := r\<rparr>)" for x :: core_state and k e m r
    by (rule serial_frameI) simp_all
  show ?thesis
    unfolding sink_owner_open_def Let_def o prod.case
    using serial_frame_trans [OF v start_session_writer_frame] serial_frame_trans [OF p start_session_writer_frame]
      serial_frame_trans [OF p f] by simp
qed

lemma pop_loop_invariant:
  assumes "\<And>x a. I a \<Longrightarrow> I (f x a)" "I acc"
  shows "I (snd (pop_loop n pop f q acc))"
  using assms(2)
proof (induction n arbitrary: q acc)
  case (Suc n)
  then show ?case using assms(1) by (auto split: option.splits)
qed simp

text \<open>The exact form: none of the four lifecycle fields changes.\<close>

definition serial_same :: "'x core_scheme \<Rightarrow> 'x core_scheme \<Rightarrow> bool" where
  "serial_same c c' \<longleftrightarrow> c_generation c' = c_generation c \<and> c_open_generation c' = c_open_generation c \<and>
     c_fault_pending c' = c_fault_pending c \<and> c_port_state c' = c_port_state c"

lemma serial_same_frame: "serial_same c c' \<Longrightarrow> serial_frame c c'"
  by (simp add: serial_same_def serial_frame_def)

lemma serial_same_trans [trans]: "serial_same a b \<Longrightarrow> serial_same b c \<Longrightarrow> serial_same a c"
  by (simp add: serial_same_def)

definition framed :: "'x core_scheme \<Rightarrow> ('x core_scheme) option \<Rightarrow> bool" where
  "framed c co \<longleftrightarrow> (case co of None \<Rightarrow> True | Some c' \<Rightarrow> serial_same c c')"

lemma leftover_job_framed: "framed c co \<Longrightarrow> framed c (sw_leftover_job j co)"
  by (cases co) (auto simp: framed_def sw_leftover_job_def core_tx_release_def count_tx_rejected_def serial_same_def
      split: option.splits bind_splits)

lemma leftover_same:
  assumes "sw_release_leftover_jobs w c = (w', Some c')"
  shows "serial_same c c'"
proof -
  have "framed c (snd (pop_loop (Suc kMaxJobs) sw_try_pop sw_leftover_job w (Some c)))"
    by (rule pop_loop_invariant [where I = "framed c"], erule leftover_job_framed, simp add: framed_def serial_same_def)
  then show ?thesis using assms by (simp only: sw_release_leftover_jobs_def snd_conv framed_def option.case)
qed

lemma stop_and_join_same: "sw_stop_and_join w c = (w', Some c') \<Longrightarrow> serial_same c c'"
  by (auto simp: sw_stop_and_join_def Let_def serial_same_def dest!: leftover_same split: if_splits prod.splits)

lemma stop_session_writer_same: "serial_same s (stop_session_writer s)"
proof -
  have u: "serial_same a (b\<lparr>k_writer := w, k_aborted := True\<rparr>)" "serial_same a (b\<lparr>k_writer := w\<rparr>)"
    if "serial_same a b" for a b :: core_state and w using that by (simp_all add: serial_same_def)
  have "serial_same s s2" if "sw_stop_and_join (k_writer s) s = (w, Some s1)" "sw_release_leftover_jobs w s1 = (w', Some s2)"
    for w s1 w' s2
    using that by (blast intro: stop_and_join_same leftover_same serial_same_trans)
  then show ?thesis
    unfolding stop_session_writer_def
    by (auto intro!: u dest: stop_and_join_same simp: serial_same_def [of s s] split: prod.split option.split)
qed

lemma release_deferred_same: "serial_same s (release_deferred P s)"
  by (simp add: serial_same_def release_deferred_def release_deferred_rx_def count_deferred_display_loss_def
      count_rejected_rx_def Let_def split: option.split)

text \<open>Everything an owner close does before the other threads are waited for.\<close>

definition close_prologue :: "platform \<Rightarrow> core_state \<Rightarrow> core_state" where
  "close_prologue P s = release_deferred P
     ((autosend_set_impl P 0 (on_metrics (\<lambda>m. m\<lparr>m_modem_lines := 0\<rparr>) s))\<lparr>c_callback_admission := False\<rparr>)"

definition close_epilogue :: "core_state \<Rightarrow> core_state" where
  "close_epilogue s3 =
     (let s4 = (if sw_active (k_writer s3) then stop_session_writer s3 else s3);
          s5 = (if c_virtual_port s4 then s4 else s4\<lparr>k_backend := backend_close (k_backend s4)\<rparr>);
          s6 = (if c_in_callback s5 \<noteq> 0
                then push_error XCOM_ERR_IO 2 ''Win32 backend close left read callback active'' s5 else s5)
      in s6\<lparr>c_callback_admission := True\<rparr>)"

lemma owner_close_split:
  "sink_owner_close P s = close_epilogue (other_steps P (pf_during_close P (close_prologue P s)) (close_prologue P s))"
  by (simp add: sink_owner_close_def close_prologue_def close_epilogue_def Let_def)

lemma close_prologue_same: "serial_same s (close_prologue P s)"
proof -
  have "serial_same s ((autosend_set_impl P 0 (on_metrics (\<lambda>m. m\<lparr>m_modem_lines := 0\<rparr>) s))\<lparr>c_callback_admission := False\<rparr>)"
    by (simp add: serial_same_def autosend_set_impl_def)
  then show ?thesis unfolding close_prologue_def using release_deferred_same serial_same_trans by blast
qed

lemma close_epilogue_same: "serial_same s (close_epilogue s)"
  using stop_session_writer_same [of s] by (simp add: close_epilogue_def serial_same_def Let_def)

lemma core_close_frame: "serial_frame s (sink_owner_close P s)"
  unfolding owner_close_split
  by (rule serial_frame_trans [OF serial_frame_trans [OF serial_same_frame [OF close_prologue_same] other_steps_frame]
        serial_same_frame [OF close_epilogue_same]])

text \<open>Without a step of another thread the published state stays as it is.\<close>

lemma owner_close_quiet:
  assumes "pf_during_close P (close_prologue P s) = []"
  shows "serial_same s (sink_owner_close P s)"
  unfolding owner_close_split assms
  using serial_same_trans [OF close_prologue_same close_epilogue_same] by (simp add: other_steps_def)

lemma core_sink_fields [simp]:
  "sk_owner_open (core_sink P) = Some (sink_owner_open P)"
  "sk_owner_close (core_sink P) = Some (sink_owner_close P)"
  "sk_owner_write (core_sink P) = Some (sink_owner_write P)"
  "sk_submit_control (core_sink P) = Some (sink_submit_control P)"
  "sk_submit_write (core_sink P) = Some (sink_submit_write P)"
  "sk_submit_rx_kick (core_sink P) = Some (sink_submit_rx_kick P)"
  "sk_submit_autosend_config (core_sink P) = Some (sink_submit_autosend_config P)"
  "sk_owner_set_lines (core_sink P) = Some (sink_owner_set_lines P)"
  "sk_diag_emit (core_sink P) = Some sink_diag_emit"
  by (simp_all add: core_sink_def)

interpretation lifecycle: serial_sink "core_sink P" for P
proof unfold_locales
  show "sk_diag_emit (core_sink P) = Some f4 \<Longrightarrow>
      serial_frame c (f4 src ev a0 a1 a2 a3 c) \<and> c_port_state (f4 src ev a0 a1 a2 a3 c) = c_port_state c \<and>
      c_fault_pending (f4 src ev a0 a1 a2 a3 c) = c_fault_pending c" for f4 c src ev a0 a1 a2 a3
    by (auto simp: sink_diag_emit_def serial_frame_def)
qed (use core_open_frame core_close_frame sink_submit_control_frame in auto)

end
