(* ===== verification/Session_Lifecycle.thy ===== *)
theory Session_Lifecycle
  imports Core_State
begin

text \<open>
  The port lifecycle of the whole core: the serial active object running on the functions the core
  installs, interleaved with the steps of the session's own threads. The results come from the facts
  of the locale \<open>serial_sink\<close> at its interpretation \<open>lifecycle\<close>.
\<close>

section \<open>Runs\<close>

text \<open>
  Between two handlers of the active object, the read and write threads and the client run; the threads
  exist in an open session and in one being closed after a cancelled open.
\<close>

type_synonym owner = "port_state \<times> core_state"

inductive lifecycle_step :: "platform \<Rightarrow> display_ring \<Rightarrow> owner \<Rightarrow> owner \<Rightarrow> bool"
  for P R where
  handle_open: "lifecycle_step P R x (serial_do_open (core_sink P) R now x)"
| handle_close: "lifecycle_step P R x (serial_do_close (core_sink P) R now x)"
| handle_fault: "lifecycle_step P R x (serial_do_fault (core_sink P) R now x)"
| other_thread: "st = PORT_OPEN \<or> st = PORT_CLOSING \<Longrightarrow> lifecycle_step P R (st, s) (st, other_step_effect P y s)"

inductive lifecycle_reach :: "platform \<Rightarrow> display_ring \<Rightarrow> owner \<Rightarrow> bool" for P R where
  start: "lifecycle_reach P R (PORT_CLOSED, core_state_init)"
| step: "lifecycle_reach P R x \<Longrightarrow> lifecycle_step P R x y \<Longrightarrow> lifecycle_reach P R y"

text \<open>A close of a session that never was open finds no thread of it transmitting.\<close>

definition quiet_when_closed :: "platform \<Rightarrow> bool" where
  "quiet_when_closed P \<longleftrightarrow> (\<forall>s. c_port_state s = PORT_CLOSED \<longrightarrow> pf_during_close P s = [])"

definition lifecycle_inv :: "owner \<Rightarrow> bool" where
  "lifecycle_inv x \<longleftrightarrow> view_ok x \<and> fst x \<noteq> PORT_OPENING \<and>
     (fst x = PORT_CLOSED \<longrightarrow> c_port_state (snd x) = PORT_CLOSED) \<and>
     (fst x = PORT_OPEN \<longrightarrow> c_generation (snd x) = c_open_generation (snd x))"

section \<open>The invariant\<close>

lemma lifecycle_invI:
  assumes "c_port_state s = st \<or> c_port_state s = PORT_FAULT \<and> c_fault_pending s" "st \<noteq> PORT_OPENING"
    "st = PORT_CLOSED \<Longrightarrow> c_port_state s = PORT_CLOSED" "st = PORT_OPEN \<Longrightarrow> c_generation s = c_open_generation s"
  shows "lifecycle_inv (st, s)"
  using assms by (auto simp: lifecycle_inv_def view_ok_def)

lemma lifecycle_invD:
  assumes "lifecycle_inv (st, s)"
  shows "c_port_state s = st \<or> c_port_state s = PORT_FAULT \<and> c_fault_pending s" "st \<noteq> PORT_OPENING"
    "st = PORT_CLOSED \<Longrightarrow> c_port_state s = PORT_CLOSED" "st = PORT_OPEN \<Longrightarrow> c_generation s = c_open_generation s"
  using assms by (auto simp: lifecycle_inv_def view_ok_def)

lemma inv_frame:
  assumes "lifecycle_inv (st, s)" "serial_frame s s'" "st \<noteq> PORT_CLOSED"
  shows "lifecycle_inv (st, s')"
  using assms by (auto simp: lifecycle_inv_def view_ok_def serial_frame_def)

lemma inv_same: "lifecycle_inv (st, s) \<Longrightarrow> serial_same s s' \<Longrightarrow> lifecycle_inv (st, s')"
  by (auto simp: lifecycle_inv_def view_ok_def serial_same_def)

lemma close_keeps_inv:
  assumes "lifecycle_inv (st, s)"
  shows "lifecycle_inv (serial_do_close (core_sink P) R now (st, s))"
proof (cases "st = PORT_CLOSED")
  case True
  then have "serial_do_close (core_sink P) R now (st, s) = (st, (beat_dispatcher now s)\<lparr>c_fault_pending := False\<rparr>)"
    by (simp add: serial_do_close_def lifecycle.close_transition lifecycle.close_done_elsewhere)
  then show ?thesis using lifecycle_invD [OF assms] True by (auto intro: lifecycle_invI)
next
  case False
  then have st: "st = PORT_OPEN \<or> st = PORT_FAULT \<or> st = PORT_CLOSING"
    using lifecycle_invD(2) [OF assms] by (cases st) auto
  obtain st' s' where r: "serial_do_close (core_sink P) R now (st, s) = (st', s')" by (meson surj_pair)
  show ?thesis using lifecycle.do_close_closes [OF st r] r by (auto intro: lifecycle_invI)
qed

lemma owner_close_closed:
  assumes "quiet_when_closed P" "c_port_state s = PORT_CLOSED"
  shows "c_port_state (sink_owner_close P s) = PORT_CLOSED"
proof -
  have "c_port_state (close_prologue P s) = PORT_CLOSED"
    using close_prologue_same [of s P] assms(2) by (simp add: serial_same_def)
  then have "serial_same s (sink_owner_close P s)"
    using assms(1) by (intro owner_close_quiet) (simp add: quiet_when_closed_def)
  then show ?thesis using assms(2) by (simp add: serial_same_def)
qed

lemma call_owner [simp]:
  "call_owner_close (core_sink P) s = sink_owner_close P s" "call_owner_open (core_sink P) s = sink_owner_open P s"
  by (simp_all add: call_owner_close_def call_owner_open_def)

lemma fault_keeps_inv:
  assumes "lifecycle_inv (st, s)" "quiet_when_closed P"
  shows "lifecycle_inv (serial_do_fault (core_sink P) R now (st, s))"
proof -
  obtain st' s' where r: "serial_do_fault (core_sink P) R now (st, s) = (st', s')" by (meson surj_pair)
  note I = lifecycle_invD [OF assms(1)]
  have v: "view_ok (st, s)" using assms(1) by (simp add: lifecycle_inv_def)
  have c: "st = PORT_CLOSED \<longrightarrow> c_port_state s = PORT_CLOSED" using I(3) by blast
  note o = lifecycle.do_fault_outcome [OF r v c]
  have "c_port_state s' = PORT_CLOSED" if "st' = PORT_CLOSED"
  proof (cases "st = PORT_CLOSING")
    case True
    then have "s' = core_diag_emit (core_sink P) 0 DgFault (of_int XCOM_ERR_IO) (c_generation s')
        0 0 (push_error XCOM_ERR_IO 0 ''serial device removed / port fault; close then reopen''
          (sink_owner_close P ((beat_dispatcher now s)\<lparr>c_fault_pending := False, c_port_state := PORT_CLOSED\<rparr>)))"
      using r by (auto simp: serial_do_fault_def lifecycle.fault_transition Let_def)
    then have "c_port_state s' = c_port_state (sink_owner_close P
        ((beat_dispatcher now s)\<lparr>c_fault_pending := False, c_port_state := PORT_CLOSED\<rparr>))"
      by (metis core_update_fields(3) lifecycle.diag_frame(3))
    then show ?thesis using owner_close_closed [OF assms(2)] by simp
  next
    case False
    then have "st = PORT_CLOSED" using o(1) that by (cases st) auto
    then show ?thesis using r I(3) by (auto simp: serial_do_fault_def lifecycle.fault_transition Let_def)
  qed
  moreover have "st' \<noteq> PORT_OPEN \<and> st' \<noteq> PORT_OPENING" using o(1) I(2) by (cases st) auto
  ultimately show ?thesis using o(2) r by (auto simp: lifecycle_inv_def)
qed

lemma open_from_keeps_inv:
  assumes "lifecycle_inv (st, s)"
  shows "lifecycle_inv (serial_open_from (core_sink P) R (st, s))"
proof -
  obtain st' s' where r: "serial_open_from (core_sink P) R (st, s) = (st', s')" by (meson surj_pair)
  consider (idle) "st = PORT_CLOSED \<or> st = PORT_FAULT" | (busy) "st = PORT_OPEN \<or> st = PORT_CLOSING"
    using lifecycle_invD(2) [OF assms] by (cases st) auto
  then show ?thesis
  proof cases
    case idle
    show ?thesis
      using lifecycle.open_from_outcome [OF idle r refl] r
      by (auto simp: lifecycle_inv_def view_ok_def split: if_splits)
  next
    case busy
    then obtain b where "(st', s') = (st, s\<lparr>c_cancel_open := b\<rparr>)" using lifecycle.open_from_elsewhere r by metis
    then show ?thesis using inv_same [OF assms] r by (simp add: serial_same_def)
  qed
qed

lemma open_keeps_inv:
  assumes "lifecycle_inv (st, s)" "quiet_when_closed P"
  shows "lifecycle_inv (serial_do_open (core_sink P) R now (st, s))"
proof -
  let ?s = "beat_dispatcher now s"
  have i: "lifecycle_inv (st, ?s)" using inv_same [OF assms(1)] by (simp add: serial_same_def)
  have "lifecycle_inv (serial_reconcile_pending_fault (core_sink P) R (st, ?s))"
  proof (cases "c_fault_pending ?s \<and> (st = PORT_OPEN \<or> st = PORT_CLOSING)")
    case True
    let ?f = "?s\<lparr>c_fault_pending := False, c_port_state := PORT_FAULT\<rparr>"
    let ?c = "?s\<lparr>c_fault_pending := False, c_port_state := PORT_CLOSED\<rparr>"
    have "serial_reconcile_pending_fault (core_sink P) R (st, ?s) =
        (if st = PORT_OPEN then (PORT_FAULT, sink_owner_close P ?f) else (PORT_CLOSED, sink_owner_close P ?c))"
      using True by (auto simp: serial_reconcile_pending_fault_def lifecycle.fault_transition Let_def)
    moreover have "lifecycle_inv (PORT_FAULT, sink_owner_close P ?f)"
      using core_close_frame [of ?f P] by (auto intro: lifecycle_invI simp: serial_frame_def)
    moreover have "lifecycle_inv (PORT_CLOSED, sink_owner_close P ?c)"
      using owner_close_closed [OF assms(2), of ?c] by (auto intro: lifecycle_invI)
    ultimately show ?thesis by simp
  next
    case False
    then have "\<not> c_fault_pending ?s \<or> st = PORT_CLOSED \<or> st = PORT_FAULT"
      using lifecycle_invD(2) [OF i] by (cases st) auto
    then show ?thesis
      using lifecycle_invD [OF i] by (auto simp: lifecycle.reconcile_idle intro!: lifecycle_invI)
  qed
  then obtain st1 s1 where "serial_reconcile_pending_fault (core_sink P) R (st, ?s) = (st1, s1)" "lifecycle_inv (st1, s1)"
    by (metis surj_pair)
  then show ?thesis using open_from_keeps_inv by (simp add: serial_do_open_def)
qed

lemma reach_inv:
  assumes "lifecycle_reach P R x" "quiet_when_closed P"
  shows "lifecycle_inv x"
  using assms(1)
proof induction
  case start
  show ?case by (rule lifecycle_invI) (simp_all add: core_state_init_def core.extend_def core_init_def)
next
  case (step x y)
  obtain st s where x: "x = (st, s)" by (meson surj_pair)
  from step.hyps(2) step.IH show ?case unfolding x
    by cases (auto intro: open_keeps_inv close_keeps_inv fault_keeps_inv assms(2) inv_frame [OF _ other_step_frame])
qed

section \<open>What a close releases\<close>

lemma pop_loop_state:
  assumes "\<And>q x q'. J q \<Longrightarrow> pop q = Some (x, q') \<Longrightarrow> J q'" "J q"
  shows "J (fst (pop_loop n pop f q acc))"
  using assms(2)
proof (induction n arbitrary: q acc)
  case (Suc n)
  then show ?case using assms(1) by (auto split: option.splits)
qed simp

lemma leftover_inactive: "\<not> sw_active w \<Longrightarrow> \<not> sw_active (fst (sw_release_leftover_jobs w c))"
  unfolding sw_release_leftover_jobs_def
  by (rule pop_loop_state [where J = "\<lambda>w. \<not> sw_active w"])
    (auto simp: sw_try_pop_def split: if_splits)

lemma join_inactive: "\<not> sw_active (fst (sw_stop_and_join w c))"
  by (auto simp: sw_stop_and_join_def Let_def split: prod.splits)

text \<open>The parts of the core that the steps of the session threads leave alone.\<close>

definition owner_parts ::
  "core_state \<Rightarrow> (rx_ref option \<times> timer_state) \<times> log_writer \<times> bool \<times> send_ctx \<times> rx_lane \<times> bool \<times> i32" where
  "owner_parts s = ((k_deferred s, k_timer s), k_log s, k_started s, k_send s, c_rx s,
     hb_dispatcher_running (c_heartbeats s), c_last_open_result s)"

lemma owner_parts_control [simp]: "owner_parts (snd (sink_submit_control P sig w crit s)) = owner_parts s"
  by (simp add: owner_parts_def sink_submit_control_def post_def Let_def)

lemma owner_parts_latch [simp]:
  "owner_parts (latch_fault m s) = owner_parts s" "owner_parts (push_error e k m s) = owner_parts s"
  by (simp_all add: owner_parts_def latch_fault_def push_error_def)

lemma owner_parts_control_or_latch [simp]:
  "owner_parts (case sink_submit_control P sig w crit s of (True, s') \<Rightarrow> s' | (False, s') \<Rightarrow> latch_fault m s') = owner_parts s"
  using owner_parts_control [of P sig w crit s] by (auto split: prod.split bool.split simp del: owner_parts_control)

lemma owner_parts_record [simp]: "owner_parts (record_write_failure P r len s) = owner_parts s"
  by (simp add: record_write_failure_def owner_parts_def push_error_def Let_def)

lemma owner_parts_write [simp]: "owner_parts (snd (sink_owner_write P b n s)) = owner_parts s"
  by (auto simp: sink_owner_write_def write_failed_def Let_def split: option.split)
    (simp_all add: owner_parts_def)

lemma owner_parts_step [simp]: "owner_parts (other_step_effect P x s) = owner_parts s"
proof (cases x)
  case (OsLine st)
  then show ?thesis
    by (simp add: owner_parts_def line_callback_def line_status_ingress_def core_diag_emit_def quiet_sink_def
      sink_diag_emit_def Let_def)
qed (simp_all add: serial_fault_callback_def, simp add: owner_parts_def)

lemma owner_parts_steps [simp]: "owner_parts (other_steps P xs s) = owner_parts s"
  by (induction xs arbitrary: s) (simp_all add: other_steps_def)

lemma leftover_owner_parts:
  assumes "sw_release_leftover_jobs w s = (w', Some s')"
  shows "owner_parts s' = owner_parts s"
proof -
  let ?I = "\<lambda>co. \<forall>c. co = Some c \<longrightarrow> owner_parts c = owner_parts s"
  have "?I (snd (pop_loop (Suc kMaxJobs) sw_try_pop sw_leftover_job w (Some s)))"
  proof (rule pop_loop_invariant [where I = ?I])
    show "?I (sw_leftover_job j co)" if "?I co" for j and co :: "core_state option"
      using that
      by (cases co) (auto simp: sw_leftover_job_def core_tx_release_def count_tx_rejected_def owner_parts_def
        split: option.splits bind_splits if_splits)
  qed simp
  then show ?thesis using assms by (simp only: sw_release_leftover_jobs_def snd_conv)
qed

lemma join_owner_parts: "sw_stop_and_join w s = (w', Some s') \<Longrightarrow> owner_parts s' = owner_parts s"
  by (auto simp: sw_stop_and_join_def Let_def dest!: leftover_owner_parts split: if_splits prod.splits)

lemma stop_session_writer_result:
  "\<not> sw_active (k_writer (stop_session_writer s))" "owner_parts (stop_session_writer s) = owner_parts s"
proof -
  obtain w co where j: "sw_stop_and_join (k_writer s) s = (w, co)" by (meson surj_pair)
  have w: "\<not> sw_active w" using join_inactive [of "k_writer s" s] j by simp
  show "\<not> sw_active (k_writer (stop_session_writer s))"
  proof (cases co)
    case None
    then show ?thesis using j w by (simp add: stop_session_writer_def)
  next
    case (Some s1)
    obtain w' co' where l: "sw_release_leftover_jobs w s1 = (w', co')" by (meson surj_pair)
    then have "\<not> sw_active w'" using leftover_inactive [OF w, of s1] by simp
    then show ?thesis using j Some l by (cases co') (simp_all add: stop_session_writer_def)
  qed
  show "owner_parts (stop_session_writer s) = owner_parts s"
  proof (cases co)
    case None
    then show ?thesis using j by (simp add: stop_session_writer_def owner_parts_def)
  next
    case (Some s1)
    obtain w' co' where l: "sw_release_leftover_jobs w s1 = (w', co')" by (meson surj_pair)
    have "owner_parts s1 = owner_parts s" using j Some join_owner_parts by blast
    then show ?thesis
      using j Some l leftover_owner_parts [of w s1 w']
      by (cases co') (auto simp: stop_session_writer_def owner_parts_def)
  qed
qed

definition session_released :: "core_state \<Rightarrow> bool" where
  "session_released s \<longleftrightarrow> \<not> sw_active (k_writer s) \<and> k_deferred s = None \<and> \<not> pt_active (k_timer s) \<and>
     (c_virtual_port s \<or> (\<not> sb_port (k_backend s) \<and> \<not> sb_open (k_backend s) \<and> \<not> sb_reader (k_backend s)))"

lemma owner_close_releases: "session_released (sink_owner_close P s)"
proof -
  let ?p = "close_prologue P s"
  let ?s3 = "other_steps P (pf_during_close P ?p) ?p"
  let ?s4 = "if sw_active (k_writer ?s3) then stop_session_writer ?s3 else ?s3"
  have "fst (owner_parts ?p) = (None, timer_stop (k_timer s))"
    by (simp add: owner_parts_def close_prologue_def release_deferred_def release_deferred_rx_def autosend_set_impl_def
      count_deferred_display_loss_def count_rejected_rx_def Let_def split: option.split)
  then have o: "fst (owner_parts ?s4) = (None, timer_stop (k_timer s))"
    by (simp add: stop_session_writer_result(2))
  have "\<not> sw_active (k_writer ?s4)" using stop_session_writer_result(1) by simp
  moreover have "close_epilogue ?s3 = (let s5 = (if c_virtual_port ?s4 then ?s4 else ?s4\<lparr>k_backend := backend_close (k_backend ?s4)\<rparr>);
          s6 = (if c_in_callback s5 \<noteq> 0
                then push_error XCOM_ERR_IO 2 ''Win32 backend close left read callback active'' s5 else s5)
      in s6\<lparr>c_callback_admission := True\<rparr>)"
    unfolding close_epilogue_def Let_def by simp
  ultimately show ?thesis
    using o unfolding owner_close_split session_released_def
    by (simp add: Let_def owner_parts_def timer_stop_def push_error_def backend_close_def)
qed

lemma close_done_parts:
  "session_released (snd (serial_transition (core_sink P) R EvCloseDone (PORT_CLOSING, c))) = session_released c"
  "c_virtual_port (snd (serial_transition (core_sink P) R EvCloseDone (PORT_CLOSING, c))) = c_virtual_port c"
  "c_cancel_open (snd (serial_transition (core_sink P) R EvCloseDone (PORT_CLOSING, c))) = c_cancel_open c"
  by (simp_all add: serial_transition_def serial_publish_def Let_def session_released_def core_diag_emit_def
      sink_diag_emit_def reset_display_at_commit_def reset_display_committed_def count_rejected_rx_def split: prod.split)

lemma do_close_state:
  assumes "st = PORT_OPEN \<or> st = PORT_FAULT \<or> st = PORT_CLOSING"
    "serial_do_close (core_sink P) R now (st, s) = (st', s')"
  shows "s' = (snd (serial_transition (core_sink P) R EvCloseDone (PORT_CLOSING,
    sink_owner_close P ((beat_dispatcher now s)\<lparr>c_port_state := PORT_CLOSING\<rparr>))))\<lparr>c_fault_pending := False\<rparr>"
  using assms by (auto simp: serial_do_close_def lifecycle.close_transition Let_def)

lemma do_close_released:
  assumes "st = PORT_OPEN \<or> st = PORT_FAULT \<or> st = PORT_CLOSING"
    "serial_do_close (core_sink P) R now (st, s) = (st', s')"
  shows "session_released s'"
  using do_close_state [OF assms] owner_close_releases
    close_done_parts(1) [of P R "sink_owner_close P ((beat_dispatcher now s)\<lparr>c_port_state := PORT_CLOSING\<rparr>)"]
  by (simp add: session_released_def)

text \<open>
  C9 (close_releases_session). A close handled in any state that owns a session ends in CLOSED with the
  session's generation retired once and no fault latched, and nothing of the session is left: the
  write worker joined, the serial port and its reader gone, the deferred block released, the
  auto-send timer stopped.
\<close>

theorem close_releases_session:
  assumes "st = PORT_OPEN \<or> st = PORT_FAULT \<or> st = PORT_CLOSING"
    "serial_do_close (core_sink P) R now (st, s) = (st', s')"
  shows "st' = PORT_CLOSED \<and> c_port_state s' = PORT_CLOSED \<and> \<not> c_fault_pending s' \<and>
    c_generation s' = c_generation s + 1 \<and> session_released s'"
  using lifecycle.do_close_closes [OF assms] do_close_released [OF assms] by simp

section \<open>A platform on which sessions open\<close>

definition open_answers_ok :: "serial_options \<Rightarrow> open_answers" where
  "open_answers_ok opts = \<lparr>oa_to_wide = id, oa_name_throws = False, oa_create_file = (\<lambda>_. None), oa_events = None,
     oa_configure = configure_honest opts, oa_thread_throws = False\<rparr>"

definition platform_ok :: platform where
  "platform_ok = \<lparr>pf_now = 1, pf_alloc_control = (\<lambda>_. True), pf_submit = (\<lambda>_ _ _. SdQueued),
     pf_open = (\<lambda>s. open_answers_ok (session_options s)), pf_spawn_writer = (\<lambda>_. True),
     pf_timer = (\<lambda>_. (True, 1, True)), pf_write = (\<lambda>_ _ _. WoTimeout None 0), pf_escape = (\<lambda>_ _. None),
     pf_show_int = (\<lambda>_. ''?''), pf_rx = rx_env_list, pf_files = demo_os,
     pf_log = (\<lambda>_. \<lparr>la_slot_free = True, la_wake_ok = True, la_spawned = True, la_event_ok = True, la_waits = [0], la_passes = 4\<rparr>),
     pf_during_open = (\<lambda>_. []), pf_during_close = (\<lambda>_. [])\<rparr>"

text \<open>A core whose client asked for a virtual session, or for COM3.\<close>

definition state_virtual :: core_state where
  "state_virtual = core_state_init\<lparr>c_virtual_port := True\<rparr>"

definition state_com3 :: core_state where
  "state_com3 = core_state_init\<lparr>c_port_name := ''COM3'', c_cfg := (c_cfg core_state_init)\<lparr>cfg_baud := 9600\<rparr>\<rparr>"

lemma platform_ok_quiet: "quiet_when_closed platform_ok"
  by (simp add: quiet_when_closed_def platform_ok_def)

lemma core_state_init_fields [simp]:
  "c_port_state core_state_init = PORT_CLOSED" "c_generation core_state_init = 0" "c_open_generation core_state_init = 0"
  "c_fault_pending core_state_init = False" "c_cancel_open core_state_init = False"
  "c_virtual_port core_state_init = False" "k_writer core_state_init = session_writer_init"
  "k_backend core_state_init = backend_init" "c_tx_fail_streak core_state_init = 0"
  by (simp_all add: core_state_init_def core.extend_def core_init_def)

text \<open>
  C1 (published_state_tracks_owner). In every interleaving of the lifecycle handlers with the session's
  threads, the published port state is the owner's state or a fault that is latched for it to adopt:
  it is OPEN only in an open session, OPENING is never left published at rest, a closed owner is
  published as closed, and in an open session the current generation is the session's own.
\<close>

theorem published_state_tracks_owner:
  assumes "lifecycle_reach P R (st, s)" "quiet_when_closed P"
  shows "(if c_port_state s = st then True else c_port_state s = PORT_FAULT \<and> c_fault_pending s) \<and>
    st \<noteq> PORT_OPENING \<and> c_port_state s \<noteq> PORT_OPENING \<and>
    (if st = PORT_CLOSED then c_port_state s = PORT_CLOSED else True) \<and>
    (if c_port_state s = PORT_OPEN then st = PORT_OPEN else True) \<and>
    (if st = PORT_OPEN then c_generation s = c_open_generation s else True)"
  using lifecycle_invD [OF reach_inv [OF assms]] by (auto split: if_splits)

theorem published_state_tracks_owner_witness:
  "c_port_state (snd (serial_do_close (core_sink platform_ok) display_ring_list 0 (PORT_CLOSED, core_state_init))) \<noteq> PORT_OPENING"
proof -
  obtain st s where c: "serial_do_close (core_sink platform_ok) display_ring_list 0 (PORT_CLOSED, core_state_init) = (st, s)"
    by (meson surj_pair)
  have "lifecycle_reach platform_ok display_ring_list (st, s)"
    using lifecycle_reach.step [OF lifecycle_reach.start lifecycle_step.handle_close] c by metis
  from published_state_tracks_owner [OF this platform_ok_quiet] show ?thesis using c by simp
qed

lemma do_open_outcome:
  assumes "st = PORT_CLOSED \<or> st = PORT_FAULT" "serial_do_open (core_sink P) R now (st, s) = (st', s')"
    "c1 = sink_owner_open P ((beat_dispatcher now s)\<lparr>c_fault_pending := False, c_port_state := PORT_OPENING\<rparr>)"
  shows "if c_last_open_result c1 \<noteq> XCOM_OK
    then st' = PORT_CLOSED \<and> c_port_state s' = PORT_CLOSED \<and> c_generation s' = c_generation s
    else if c_cancel_open c1
    then (st' = PORT_CLOSING \<or> st' = PORT_FAULT) \<and> view_ok (st', s') \<and> c_generation s' = c_generation s
    else st' = PORT_OPEN \<and> c_port_state s' = PORT_OPEN \<and> c_generation s' = c_open_generation s + 1 \<and>
         c_open_generation s' = c_open_generation s + 1"
proof -
  let ?s = "(beat_dispatcher now s)\<lparr>c_fault_pending := False\<rparr>"
  have i: "\<not> c_fault_pending (beat_dispatcher now s) \<or> st = PORT_CLOSED \<or> st = PORT_FAULT" using assms(1) by blast
  have r: "serial_open_from (core_sink P) R (st, ?s) = (st', s')"
    using assms(2) by (simp add: serial_do_open_def lifecycle.reconcile_idle [OF i])
  show ?thesis using lifecycle.open_from_outcome [OF assms(1) r refl] assms(3) by simp
qed

text \<open>
  C20 (open_outcome). An open handled in CLOSED or FAULT ends as the physical open went: CLOSED with no
  session on a failure, CLOSING or a visible fault when the client gave up meanwhile, and otherwise
  OPEN, published, with a fresh generation one above every earlier session's.
\<close>

theorem open_outcome:
  assumes "st = PORT_CLOSED \<or> st = PORT_FAULT" "serial_do_open (core_sink P) R now (st, s) = (st', s')"
    "c1 = sink_owner_open P ((beat_dispatcher now s)\<lparr>c_fault_pending := False, c_port_state := PORT_OPENING\<rparr>)"
  shows "if c_last_open_result c1 \<noteq> XCOM_OK
    then st' = PORT_CLOSED \<and> c_port_state s' = PORT_CLOSED \<and> c_generation s' = c_generation s
    else if c_cancel_open c1
    then (st' = PORT_CLOSING \<or> st' = PORT_FAULT) \<and> view_ok (st', s') \<and> c_generation s' = c_generation s
    else st' = PORT_OPEN \<and> c_port_state s' = PORT_OPEN \<and> c_generation s' = c_open_generation s + 1 \<and>
         c_open_generation s' = c_open_generation s + 1"
  by (rule do_open_outcome [OF assms])

lemma virtual_open_succeeds:
  assumes "c_virtual_port s" "\<not> sw_active (k_writer s)" "\<not> c_cancel_open s"
  shows "c_last_open_result (sink_owner_open platform_ok s) = XCOM_OK \<and> \<not> c_cancel_open (sink_owner_open platform_ok s)"
  using assms by (simp add: sink_owner_open_def platform_ok_def other_steps_def start_session_writer_def sw_start_def Let_def)

theorem open_outcome_witness:
  "fst (serial_do_open (core_sink platform_ok) display_ring_list 0 (PORT_CLOSED, state_virtual)) = PORT_OPEN"
proof -
  obtain st' s' where o: "serial_do_open (core_sink platform_ok) display_ring_list 0 (PORT_CLOSED, state_virtual) = (st', s')"
    by (meson surj_pair)
  let ?s = "(beat_dispatcher 0 state_virtual)\<lparr>c_fault_pending := False, c_port_state := PORT_OPENING\<rparr>"
  have "c_virtual_port ?s" "\<not> sw_active (k_writer ?s)" "\<not> c_cancel_open ?s"
    by (simp_all add: state_virtual_def beat_dispatcher_def session_writer_init_def)
  from virtual_open_succeeds [OF this] open_outcome [OF _ o refl] show ?thesis using o by simp
qed

theorem close_releases_session_witness:
  "session_released (snd (serial_do_close (core_sink platform_ok) display_ring_list 0 (PORT_OPEN, state_virtual)))"
proof -
  obtain st' s' where c: "serial_do_close (core_sink platform_ok) display_ring_list 0 (PORT_OPEN, state_virtual) = (st', s')"
    by (meson surj_pair)
  from close_releases_session [OF _ c] show ?thesis using c by simp
qed

section \<open>Generations, strikes and timeouts\<close>

text \<open>
  The generation current while the port is closed after a session is the
  very generation the next session runs under: work stamped after the close is not stale in the
  session opened next.
\<close>

theorem closed_generation_reused:
  assumes "serial_do_close (core_sink P) R n1 (PORT_OPEN, s) = (st1, s1)" "c_generation s = c_open_generation s"
    "serial_do_open (core_sink P) R n2 (st1, s1) = (PORT_OPEN, s2)"
  shows "c_generation s2 = c_generation s1"
proof -
  note c = lifecycle.do_close_closes [OF _ assms(1), simplified]
  have o: "serial_do_open (core_sink P) R n2 (PORT_CLOSED, s1) = (PORT_OPEN, s2)" using assms(3) c(1) by simp
  have "c_generation s2 = c_open_generation s1 + 1"
    using do_open_outcome [OF _ o refl] by (auto split: if_splits)
  then show ?thesis using c(4,5) assms(2) by simp
qed

lemma virtual_close:
  assumes "serial_do_close (core_sink platform_ok) R n (PORT_OPEN, state_virtual) = (st1, s1)"
  shows "c_virtual_port s1" "\<not> c_cancel_open s1"
proof -
  let ?c = "sink_owner_close platform_ok ((beat_dispatcher n state_virtual)\<lparr>c_port_state := PORT_CLOSING\<rparr>)"
  have "c_virtual_port ?c" "\<not> c_cancel_open ?c"
    by (simp_all add: owner_close_split close_prologue_def close_epilogue_def state_virtual_def autosend_set_impl_def
      release_deferred_def release_deferred_rx_def platform_ok_def other_steps_def beat_dispatcher_def push_error_def
      session_writer_init_def core_state_init_def core.extend_def core_init_def Let_def)
  then show "c_virtual_port s1" "\<not> c_cancel_open s1"
    using do_close_state [OF _ assms] by (simp_all add: close_done_parts)
qed

theorem closed_generation_reused_witness:
  "\<exists>s1 s2. serial_do_close (core_sink platform_ok) display_ring_list 0 (PORT_OPEN, state_virtual) = (PORT_CLOSED, s1) \<and>
     serial_do_open (core_sink platform_ok) display_ring_list 0 (PORT_CLOSED, s1) = (PORT_OPEN, s2) \<and>
     c_generation s2 = c_generation s1"
proof -
  obtain st1 s1 where c: "serial_do_close (core_sink platform_ok) display_ring_list 0 (PORT_OPEN, state_virtual) = (st1, s1)"
    by (meson surj_pair)
  note d = lifecycle.do_close_closes [OF _ c, simplified]
  have r: "session_released s1" using do_close_released [OF _ c] by simp
  obtain st2 s2 where o: "serial_do_open (core_sink platform_ok) display_ring_list 0 (PORT_CLOSED, s1) = (st2, s2)"
    by (meson surj_pair)
  let ?s = "(beat_dispatcher 0 s1)\<lparr>c_fault_pending := False, c_port_state := PORT_OPENING\<rparr>"
  have "c_virtual_port ?s" "\<not> sw_active (k_writer ?s)" "\<not> c_cancel_open ?s"
    using virtual_close [OF c] r by (simp_all add: session_released_def beat_dispatcher_def)
  from virtual_open_succeeds [OF this] do_open_outcome [OF _ o refl]
  have "st2 = PORT_OPEN" by simp
  then have "serial_do_open (core_sink platform_ok) display_ring_list 0 (st1, s1) = (PORT_OPEN, s2)" using o d(1) by simp
  moreover have "c_generation state_virtual = c_open_generation state_virtual" by (simp add: state_virtual_def)
  ultimately show ?thesis using closed_generation_reused [OF c] c d(1) by auto
qed

text \<open>
  C39 (first_failure_faults). The count of consecutive write failures is not cleared when a session is
  opened: after a session that ended with two or more, the first failed write of the next one, however
  transient, raises a fault.
\<close>

lemma pin_warnings_keep: "c_tx_fail_streak (report_pin_warnings P ws s) = c_tx_fail_streak s"
  by (induction ws arbitrary: s) (simp_all add: report_pin_warnings_def push_error_def)

lemma owner_open_keeps_streak:
  assumes "pf_during_open P = (\<lambda>_. [])"
  shows "c_tx_fail_streak (sink_owner_open P s) = c_tx_fail_streak s"
proof -
  have w: "c_tx_fail_streak (start_session_writer P x) = c_tx_fail_streak x" for x
    by (simp add: start_session_writer_def push_error_def Let_def split: prod.split)
  show ?thesis
    by (simp add: sink_owner_open_def assms other_steps_def w pin_warnings_keep push_error_def Let_def split: prod.split)
qed

lemma fault_or_latch:
  assumes "s' = (case sink_submit_control P SigFault 0 True s of (True, s2) \<Rightarrow> s2 | (False, s2) \<Rightarrow> latch_fault m s2)"
  shows "k_posted s' = k_posted s @ [PostControl SigFault] \<or> c_port_state s' = PORT_FAULT \<and> c_fault_pending s'"
  using assms by (auto simp: sink_submit_control_def control_target_def post_def latch_fault_def Let_def split: if_splits)

theorem first_failure_faults:
  assumes "pf_during_open P = (\<lambda>_. [])" "2 \<le> c_tx_fail_streak s" "c_tx_fail_streak s \<noteq> - 1"
    "s1 = sink_owner_open P s" "\<not> c_virtual_port s1" "sb_open (k_backend s1)"
    "tx_block (c_tx s1) block (unat len) = Some data" "\<not> wr_ok (backend_write (pf_write P s1) (k_backend s1) data)"
    "sink_owner_write P block len s1 = (result, s2)"
  shows "result = XCOM_ERR_IO \<and>
    (k_posted s2 = k_posted s1 @ [PostControl SigFault] \<or> c_port_state s2 = PORT_FAULT \<and> c_fault_pending s2)"
proof -
  let ?r = "backend_write (pf_write P s1) (k_backend s1) data"
  let ?s = "record_write_failure P ?r len s1"
  have keep: "c_tx_fail_streak s1 = c_tx_fail_streak s" using owner_open_keeps_streak [OF assms(1)] assms(4) by simp
  have "c_tx_fail_streak ?s = c_tx_fail_streak s1 + 1" by (simp add: record_write_failure_def push_error_def Let_def)
  moreover have "1 + c_tx_fail_streak s1 \<noteq> 0" using assms(3) keep by (metis add_eq_0_iff)
  ultimately have "unat (c_tx_fail_streak ?s) = Suc (unat (c_tx_fail_streak s))"
    using unatSuc [of "c_tx_fail_streak s1"] keep by (simp add: add.commute)
  moreover have "2 \<le> unat (c_tx_fail_streak s)"
    using word_le_nat_alt [of "2 :: u32" "c_tx_fail_streak s"] assms(2) by simp
  ultimately have "unat (3 :: u32) \<le> unat (c_tx_fail_streak ?s)" by simp
  then have "3 \<le> c_tx_fail_streak ?s" by (simp only: word_le_nat_alt)
  then have "write_failed P ?r len s1 =
      (case sink_submit_control P SigFault 0 True ?s of (True, s2) \<Rightarrow> s2 | (False, s2) \<Rightarrow> latch_fault ''writer fault signal rejected'' s2)"
    by (simp add: write_failed_def Let_def)
  note f = fault_or_latch [OF this]
  have "k_posted ?s = k_posted s1" by (simp add: record_write_failure_def push_error_def Let_def)
  moreover have "result = XCOM_ERR_IO" "s2 = write_failed P ?r len s1"
    using assms(5-9) by (simp_all add: sink_owner_write_def Let_def)
  ultimately show ?thesis using f by simp
qed

lemma timeout_write_fails: "\<not> wr_ok (backend_write (\<lambda>_ _. WoTimeout None 0) b data)"
proof -
  have "\<not> wr_ok (write_loop (Suc 7) (\<lambda>_ _. WoTimeout None 0) b data 0 [])"
    by (subst write_loop.simps) (simp add: Let_def)
  then show ?thesis by (simp add: backend_write_def)
qed

lemma com3_opens:
  "sb_open (k_backend (sink_owner_open platform_ok (state_com3\<lparr>c_tx_fail_streak := 2\<rparr>)))"
  "\<not> c_virtual_port (sink_owner_open platform_ok (state_com3\<lparr>c_tx_fail_streak := 2\<rparr>))"
  by (simp_all add: sink_owner_open_def state_com3_def platform_ok_def other_steps_def backend_open_def
      validate_serial_options_def session_options_def valid_line_format_def valid_line_drive_def
      line_drive_of_code_def open_answers_ok_def configure_def configure_honest_def report_pin_warnings_def
      start_session_writer_def sw_start_def session_writer_init_def replay_pin_def core_state_init_def
      core.extend_def core_init_def Let_def)

theorem first_failure_faults_witness:
  "fst (sink_owner_write platform_ok 0 4 (sink_owner_open platform_ok (state_com3\<lparr>c_tx_fail_streak := 2\<rparr>))) = XCOM_ERR_IO"
proof -
  let ?s1 = "sink_owner_open platform_ok (state_com3\<lparr>c_tx_fail_streak := 2\<rparr>)"
  obtain data where d: "tx_block (c_tx ?s1) 0 (unat (4 :: u16)) = Some data" by (simp add: tx_block_def)
  obtain r s2 where w: "sink_owner_write platform_ok 0 4 ?s1 = (r, s2)" by (meson surj_pair)
  have "pf_during_open platform_ok = (\<lambda>_. [])" "2 \<le> c_tx_fail_streak (state_com3\<lparr>c_tx_fail_streak := 2\<rparr>)"
    "c_tx_fail_streak (state_com3\<lparr>c_tx_fail_streak := 2\<rparr>) \<noteq> - 1"
    "\<not> wr_ok (backend_write (pf_write platform_ok ?s1) (k_backend ?s1) data)"
    using timeout_write_fails by (simp_all add: platform_ok_def)
  from first_failure_faults [OF this(1-3) refl com3_opens(2,1) d this(4) w] show ?thesis using w by simp
qed

text \<open>
  The time a native write may take is always between two seconds and one
  minute, and it covers a whole block at ten bits a byte exactly from 683 baud on: on a slower link a
  full block times out however well the link works.
\<close>

theorem write_timeout_bounds:
  "2000 \<le> compute_write_timeout_ms baud \<and> compute_write_timeout_ms baud \<le> 60000 \<and>
   (4096 * 10 * 1000 \<le> compute_write_timeout_ms baud * unat baud \<longleftrightarrow> 683 \<le> unat baud)"
proof -
  define b where "b = unat baud"
  define q where "q = 327680000 div b"
  define t where "t = compute_write_timeout_ms baud"
  have t: "t = min 60000 (max 2000 (if b = 0 then 0 else q))"
    by (simp add: t_def compute_write_timeout_ms_def b_def q_def unat_eq_0 word_neq_0_conv [symmetric])
  have bounds: "2000 \<le> t" "t \<le> 60000" using t by auto
  have "40960000 \<le> t * b \<longleftrightarrow> 683 \<le> b"
  proof
    assume le: "40960000 \<le> t * b"
    show "683 \<le> b"
    proof (rule ccontr)
      assume "\<not> 683 \<le> b"
      then have "t * b \<le> 60000 * 682" using bounds(2) by (intro mult_le_mono) auto
      then show False using le by simp
    qed
  next
    assume b: "683 \<le> b"
    show "40960000 \<le> t * b"
    proof (cases "t = 60000")
      case True
      then show ?thesis using b by simp
    next
      case False
      then have "q \<le> t" using t b by (auto simp: min_def max_def split: if_splits)
      moreover have "327680000 < (q + 1) * b"
        unfolding q_def using dividend_less_div_times [of b 327680000] b by (simp add: algebra_simps)
      ultimately have q: "327680000 < (t + 1) * b" by (meson add_le_mono1 less_le_trans mult_le_mono1)
      have "(t + 1) * b \<le> (2 * t) * b" using bounds(1) by (intro mult_le_mono1) simp
      then have "327680000 < 2 * (t * b)" using q by (simp only: mult.assoc)
      then show ?thesis by linarith
    qed
  qed
  then show ?thesis using bounds by (simp add: t_def b_def)
qed

end
