(* ===== verification/Log_Facts.thy ===== *)
theory Log_Facts
  imports Log_Writer
begin

text \<open>
  What the file writer guarantees: the bytes of an accepted block reach the file in order or are charged
  as loss, an atomic write replaces its target only by the complete data, the completion ring cannot
  overflow, and a requested stop always ends the worker with every pending request answered.
\<close>

section \<open>Writes\<close>

text \<open>\<open>w'\<close> is \<open>w\<close> after writes of \<open>chunks\<close> to \<open>path\<close>.\<close>

definition after_writes :: "string \<Rightarrow> u8 list list \<Rightarrow> log_writer \<Rightarrow> log_writer \<Rightarrow> bool" where
  "after_writes path chunks w w' \<longleftrightarrow>
     (\<exists>clk. w' = w\<lparr>lw_clock := clk, lw_ops := lw_ops w @ map (OpWrite path) chunks\<rparr>)"

lemma after_writes_refl [simp]: "after_writes path [] w w" "after_writes path [] w (lw_tick w)"
proof -
  have "w = w\<lparr>lw_clock := lw_clock w, lw_ops := lw_ops w @ map (OpWrite path) []\<rparr>" by simp
  then show "after_writes path [] w w" unfolding after_writes_def by blast
  have "lw_tick w = w\<lparr>lw_clock := Suc (lw_clock w), lw_ops := lw_ops w @ map (OpWrite path) []\<rparr>"
    by (simp add: lw_tick_def)
  then show "after_writes path [] w (lw_tick w)" unfolding after_writes_def by blast
qed

lemma after_writes_one [simp]: "after_writes path [bs] w (lw_do (OpWrite path bs) w)"
  unfolding after_writes_def lw_do_def by (intro exI [of _ "Suc (lw_clock w)"]) simp

lemma after_writes_trans:
  assumes "after_writes path a w w1" "after_writes path b w1 w2"
  shows "after_writes path (a @ b) w w2"
proof -
  obtain k1 k2 where "w1 = w\<lparr>lw_clock := k1, lw_ops := lw_ops w @ map (OpWrite path) a\<rparr>"
    "w2 = w1\<lparr>lw_clock := k2, lw_ops := lw_ops w1 @ map (OpWrite path) b\<rparr>"
    using assms unfolding after_writes_def by blast
  then show ?thesis unfolding after_writes_def by (intro exI [of _ k2]) simp
qed

lemma after_writes_fields:
  assumes "after_writes path chunks w w'"
  shows "lw_ops w' = lw_ops w @ map (OpWrite path) chunks" "lw_jobs w' = lw_jobs w" "lw_log w' = lw_log w"
    "lw_completions w' = lw_completions w" "lw_pending w' = lw_pending w" "lw_stopping w' = lw_stopping w"
    "lw_stream w' = lw_stream w" "lw_blocks w' = lw_blocks w"
  using assms by (auto simp: after_writes_def)

text \<open>
  The context is touched only in the writer's heartbeats and the error ring. \<open>core_outer\<close> is what no
  file operation touches at all.
\<close>

definition core_outer :: "'x core_scheme \<Rightarrow> 'x \<times> bool \<times> fixed_pool" where
  "core_outer c = (core.more c, hb_dispatcher_running (c_heartbeats c), c_tx c)"

lemma core_outer_simps [simp]:
  "core_outer (lw_beat Q w c) = core_outer c" "core_outer (push_error e k m c) = core_outer c"
  "core_outer (lw_set_running b c) = core_outer c" "core_outer (lw_set_parked b c) = core_outer c"
  "core_outer (on_metrics f c) = core_outer c" "core_outer (c\<lparr>c_rx := l\<rparr>) = core_outer c"
  by (simp_all add: core_outer_def lw_beat_def push_error_def lw_set_running_def lw_set_parked_def)

definition quiet_core :: "'x core_scheme \<Rightarrow> 'x core_scheme \<Rightarrow> bool" where
  "quiet_core c c' \<longleftrightarrow> c_metrics c' = c_metrics c \<and> c_rx c' = c_rx c \<and> core_outer c' = core_outer c"

lemma quiet_core_simps [simp]:
  "quiet_core c c" "quiet_core c (lw_beat Q w d) = quiet_core c d" "quiet_core c (push_error e k m d) = quiet_core c d"
  "quiet_core (lw_beat Q w c) d = quiet_core c d"
  by (simp_all add: quiet_core_def) (simp_all add: lw_beat_def push_error_def)

lemma quiet_core_trans: "quiet_core a b \<Longrightarrow> quiet_core b c \<Longrightarrow> quiet_core a c"
  by (simp add: quiet_core_def)

definition wrote :: "string \<Rightarrow> u8 list \<Rightarrow> nat \<Rightarrow> nat \<Rightarrow> log_writer \<Rightarrow> log_writer \<Rightarrow> bool" where
  "wrote path data lo hi w w' \<longleftrightarrow>
     (\<exists>chunks. after_writes path chunks w w' \<and> concat chunks = take (hi - lo) (drop lo data) \<and>
        lo \<le> hi \<and> (lo \<le> length data \<longrightarrow> hi \<le> length data))"

lemma wrote_refl [simp]: "wrote path data n n w w" "wrote path data n n w (lw_tick w)"
proof -
  have "concat [] = take (n - n) (drop n data)" by simp
  then show "wrote path data n n w w" "wrote path data n n w (lw_tick w)"
    unfolding wrote_def using after_writes_refl by blast+
qed

lemma wrote_trans:
  assumes "wrote path data a b w w1" "wrote path data b d w1 w2"
  shows "wrote path data a d w w2"
proof -
  obtain x y where x: "after_writes path x w w1" "concat x = take (b - a) (drop a data)" "a \<le> b"
      "a \<le> length data \<longrightarrow> b \<le> length data"
    and y: "after_writes path y w1 w2" "concat y = take (d - b) (drop b data)" "b \<le> d" "b \<le> length data \<longrightarrow> d \<le> length data"
    using assms unfolding wrote_def by blast
  have "drop b data = drop (b - a) (drop a data)" using x(3) by simp
  then have "concat (x @ y) = take (d - a) (drop a data)"
    using x y take_add [of "b - a" "d - b" "drop a data"] by simp
  then show ?thesis using after_writes_trans [OF x(1) y(1)] x y unfolding wrote_def by (intro exI [of _ "x @ y"]) auto
qed

lemma wrote_one:
  assumes "offset < length data" "got = min n (length (drop offset data))"
  shows "wrote path data offset (offset + got) w (lw_do (OpWrite path (take got (drop offset data))) w)"
  unfolding wrote_def using assms by (intro exI [of _ "[take got (drop offset data)]"]) auto

lemma write_all_spec:
  assumes "write_all Q path data offset w c = (e, offset', w', c')"
  shows "wrote path data offset offset' w w' \<and> quiet_core c c' \<and>
    (e = None \<longrightarrow> length data \<le> offset') \<and> (e \<noteq> None \<longrightarrow> offset' < length data)"
  using assms
proof (induction Q path data offset w c arbitrary: e offset' w' c' rule: write_all.induct)
  case (1 Q path data offset w c)
  show ?case
  proof (cases "offset < length data")
    case False
    then show ?thesis using "1.prems" by (subst (asm) write_all.simps) auto
  next
    case True
    note r = "1.prems" [unfolded write_all.simps [of Q path data offset w c]]
    show ?thesis
    proof (cases "os_write Q (lw_clock w) (drop offset data)")
      case (Inl x)
      then show ?thesis using r True by (auto simp: Let_def)
    next
      case (Inr n)
      let ?got = "min n (length (drop offset data))"
      show ?thesis
      proof (cases "?got = 0")
        case zero: True
        then show ?thesis using r True Inr by (auto simp: Let_def)
      next
        case False
        let ?w = "lw_do (OpWrite path (take ?got (drop offset data))) w"
        have "write_all Q path data (offset + ?got) ?w (lw_beat Q w c) = (e, offset', w', c')"
          using r by (simp only: True if_True Let_def Inr sum.case if_not_P [OF False])
        from "1.IH" [OF True refl refl Inr refl False this]
        show ?thesis using wrote_trans [OF wrote_one [OF True refl [of ?got]]] by (simp only: quiet_core_simps) blast
      qed
    qed
  qed
qed

text \<open>What a retry loop leaves behind, success or stop.\<close>

definition retry_post :: "string \<Rightarrow> u8 list \<Rightarrow> nat \<Rightarrow> log_writer \<Rightarrow> 'x core_scheme \<Rightarrow>
    nat \<times> log_writer \<times> 'x core_scheme \<Rightarrow> bool" where
  "retry_post path data offset w c r \<longleftrightarrow>
     wrote path data offset (fst r) w (fst (snd r)) \<and> quiet_core c (snd (snd r))"

lemma retry_post_trans:
  assumes "wrote path data offset off w w1" "quiet_core c c1" "retry_post path data off w1 c1 r"
  shows "retry_post path data offset w c r"
  using assms wrote_trans quiet_core_trans unfolding retry_post_def by blast

lemma append_loop_spec:
  assumes "append_loop Q path data offset reported w c = Some r"
  shows "retry_post path data offset w c (snd r) \<and>
    (if fst r = XCOM_OK then length data \<le> fst (snd r) else fst (snd r) < length data)"
proof -
  let ?P = "\<lambda>(Q :: file_os) path data offset (reported :: bool) w c r. retry_post path data offset w c (snd r) \<and>
    (if fst r = XCOM_OK then length data \<le> fst (snd r) else fst (snd r) < length data)"
  have "?P Q path data offset reported w c r"
  proof (rule append_loop.raw_induct [where P = ?P, OF _ assms])
    fix loop Q path data offset reported w and c :: "'a core_scheme" and r
    assume ih: "\<And>Q path data offset reported w c r. loop Q path data offset reported w c = Some r \<Longrightarrow>
        ?P Q path data offset reported w c r"
      and body: "(case write_all Q path data offset w (lw_beat Q w c) of
          (None, off, w1, c1) \<Rightarrow>
            Some (XCOM_OK, off, w1, if reported then push_error XCOM_OK 2 ''storage recovered: log write resumed'' c1 else c1)
        | (Some e, off, w1, c1) \<Rightarrow>
            let c2 = (if reported then c1
                      else push_error e 2 ''storage stalled: log write retrying (disk slow or device gone)'' c1)
            in if lw_stop_seen Q w1 then Some (XCOM_ERR_IO, off, w1, c2) else loop Q path data off True w1 c2) = Some r"
    obtain e off w1 c1 where wr: "write_all Q path data offset w (lw_beat Q w c) = (e, off, w1, c1)"
      by (metis prod_cases4)
    note s = write_all_spec [OF wr]
    show "?P Q path data offset reported w c r"
    proof (cases "e = None \<or> lw_stop_seen Q w1")
      case True
      then show ?thesis using s body wr by (auto simp: retry_post_def Let_def split: if_splits option.splits)
    next
      case False
      then obtain x where "e = Some x" by (cases e) auto
      then have "loop Q path data off True w1
          (if reported then c1 else push_error x 2 ''storage stalled: log write retrying (disk slow or device gone)'' c1) = Some r"
        using body wr False by (simp add: Let_def)
      note more = ih [OF this]
      have "retry_post path data offset w c (snd r)"
        by (rule retry_post_trans [OF _ _ conjunct1 [OF more]]) (use s in auto)
      then show ?thesis using more by simp
    qed
  qed
  then show ?thesis .
qed

lemma rx_write_loop_spec:
  assumes "rx_write_loop Q path data offset w c = Some r"
  shows "retry_post path data offset w c r"
proof -
  let ?P = "\<lambda>(Q :: file_os). retry_post"
  have "?P Q path data offset w c r"
  proof (rule rx_write_loop.raw_induct [where P = ?P, OF _ assms])
    fix loop Q path data offset w and c :: "'a core_scheme" and r
    assume ih: "\<And>Q path data offset w c r. loop Q path data offset w c = Some r \<Longrightarrow> retry_post path data offset w c r"
      and body: "(if \<not> offset < length data \<or> lw_stop_seen Q w then Some (offset, w, c)
        else let c1 = lw_beat Q w c; chunk = drop offset data
             in case os_write Q (lw_clock w) chunk of
                  Inl e \<Rightarrow> (if lw_stop_seen Q (lw_tick w) then Some (offset, lw_tick w, c1)
                             else loop Q path data offset (lw_tick w) c1)
                | Inr n \<Rightarrow>
                    let got = min n (length chunk)
                    in if got = 0
                       then (if lw_stop_seen Q (lw_tick w) then Some (offset, lw_tick w, c1)
                             else loop Q path data offset (lw_tick w) c1)
                       else loop Q path data (offset + got) (lw_do (OpWrite path (take got chunk)) w) c1) = Some r"
    have again: "retry_post path data offset w c r"
      if "(if lw_stop_seen Q (lw_tick w) then Some (offset, lw_tick w, lw_beat Q w c)
           else loop Q path data offset (lw_tick w) (lw_beat Q w c)) = Some r"
      using that ih [of Q path data offset "lw_tick w" "lw_beat Q w c" r]
        retry_post_trans [OF wrote_refl(2), of c "lw_beat Q w c" path data offset w r]
      by (auto simp: retry_post_def split: if_splits)
    show "retry_post path data offset w c r"
    proof (cases "\<not> offset < length data \<or> lw_stop_seen Q w")
      case True
      then show ?thesis using body by (auto simp: retry_post_def)
    next
      case False
      then have lt: "offset < length data" by simp
      show ?thesis
      proof (cases "os_write Q (lw_clock w) (drop offset data)")
        case (Inl e)
        then show ?thesis using body False again by (simp add: Let_def)
      next
        case (Inr n)
        let ?got = "min n (length (drop offset data))"
        show ?thesis
        proof (cases "?got = 0")
          case stuck: True
          show ?thesis
            by (rule again) (use body in \<open>simp only: False if_False Let_def Inr sum.case if_P [OF stuck]\<close>)
        next
          case step: False
          then have "loop Q path data (offset + ?got) (lw_do (OpWrite path (take ?got (drop offset data))) w) (lw_beat Q w c) = Some r"
            using body by (simp only: False if_False Let_def Inr sum.case)
          from retry_post_trans [OF wrote_one [OF lt refl] _ ih [OF this]] show ?thesis by simp
        qed
      qed
    qed
  qed
  then show ?thesis .
qed

section \<open>Every byte is written or charged\<close>

definition accounted :: "string option \<Rightarrow> u8 list \<Rightarrow> log_writer \<Rightarrow> 'x core_scheme \<Rightarrow> log_writer \<Rightarrow> 'x core_scheme \<Rightarrow> bool" where
  "accounted file bs w c w' c' \<longleftrightarrow>
     (\<exists>chunks n. n \<le> length bs \<and> concat chunks = take n bs \<and>
        lw_ops w' = lw_ops w @ (case file of None \<Rightarrow> [] | Some path \<Rightarrow> map (OpWrite path) chunks) \<and>
        (file = None \<longrightarrow> n = 0) \<and>
        m_save_rejected_bytes (c_metrics c') = m_save_rejected_bytes (c_metrics c) + of_nat (length bs - n))"

lemma charge_fields [simp]:
  "m_save_rejected_bytes (c_metrics (charge_loss n e msg c)) = m_save_rejected_bytes (c_metrics c) + of_nat n"
  "c_rx (charge_loss n e msg c) = c_rx c"
  "c_metrics (push_error e k msg c) = c_metrics c" "c_rx (push_error e k msg c) = c_rx c"
  by (simp_all add: charge_loss_def push_error_def)

lemma accountedI_file:
  assumes "wrote path bs 0 n w w1" "lw_ops w' = lw_ops w1"
    "m_save_rejected_bytes (c_metrics c') = m_save_rejected_bytes (c_metrics c) + of_nat (length bs - n)"
  shows "accounted (Some path) bs w c w' c'"
proof -
  obtain chunks where "after_writes path chunks w w1" "concat chunks = take n bs" "n \<le> length bs"
    using assms(1) unfolding wrote_def by auto
  then show ?thesis
    using assms after_writes_fields(1) [of path chunks w w1] unfolding accounted_def
    by (intro exI [of _ chunks] exI [of _ n]) simp
qed

lemma accountedI_none:
  assumes "lw_ops w' = lw_ops w"
    "m_save_rejected_bytes (c_metrics c') = m_save_rejected_bytes (c_metrics c) + of_nat (length bs)"
  shows "accounted None bs w c w' c'"
  unfolding accounted_def using assms by (intro exI [of _ "[]"] exI [of _ 0]) simp

text \<open>A finished job leaves the trace and the context as they were, apart from its own charge.\<close>

lemma lw_finish_spec:
  assumes "lw_finish Q j st w c = Some (w', c')"
  shows "lw_ops w' = lw_ops w \<and> lw_log w' = lw_log w \<and> lw_blocks w' = lw_blocks (lw_release_block (fj_block j) w) \<and>
    m_save_rejected_bytes (c_metrics c') = m_save_rejected_bytes (c_metrics c) +
      (if st \<noteq> XCOM_OK \<and> fj_kind j = JkAppend then of_nat (length (fj_data j) - fj_offset j) else 0)"
proof -
  have sync [simp]: "lw_ops (complete_sync d s x) = lw_ops x" "lw_log (complete_sync d s x) = lw_log x"
      "lw_blocks (complete_sync d s x) = lw_blocks x" for d s x
    by (simp_all add: complete_sync_def release_completion_def Let_def split: option.split)
  have block [simp]: "lw_ops (lw_release_block b x) = lw_ops x" "lw_log (lw_release_block b x) = lw_log x" for b x
    by (simp_all add: lw_release_block_def split: option.split)
  have "lw_blocks (lw_release_block b (x\<lparr>lw_completions := q\<rparr>)) = lw_blocks (lw_release_block b x)" for b x q
    by (simp add: lw_release_block_def split: option.split)
  then show ?thesis
    using assms by (auto simp: lw_finish_def publish_atomic_completion_def Let_def split: bind_splits if_splits)
qed

lemma rx_ref_accounted:
  assumes "process_rx_ref Q ref w c = Some (w', c')"
  shows "accounted (lw_log w) (take (unat (rr_len ref)) (rl_payload (c_rx c) ! rr_event ref)) w c w' c' \<and>
    c_rx c' = rx_release (os_rx Q) (rr_event ref) (c_rx c)"
proof -
  let ?d = "take (unat (rr_len ref)) (rl_payload (c_rx c) ! rr_event ref)"
  consider "rr_len ref = 0" | "rr_len ref \<noteq> 0" "lw_log w = None" | path where "rr_len ref \<noteq> 0" "lw_log w = Some path"
    by (cases "lw_log w") auto
  then show ?thesis
  proof cases
    case 1
    have "accounted f [] w c w (c\<lparr>c_rx := l\<rparr>)" for f l
      by (auto simp: accounted_def intro!: exI [of _ "[]"] split: option.split)
    then show ?thesis using assms 1 by (auto simp: process_rx_ref_def Let_def)
  next
    case 2
    then show ?thesis using assms by (auto simp: process_rx_ref_def Let_def intro!: accountedI_none)
  next
    case 3
    obtain off w1 c1 where l: "rx_write_loop Q path ?d 0 w c = Some (off, w1, c1)"
      using assms 3 by (auto simp: process_rx_ref_def Let_def)
    have s: "wrote path ?d 0 off w w1" "quiet_core c c1"
      using rx_write_loop_spec [OF l] by (simp_all add: retry_post_def)
    have le: "off \<le> length ?d" using s(1) by (auto simp: wrote_def)
    show ?thesis
      using assms 3 l s le
      by (auto simp: process_rx_ref_def Let_def quiet_core_def intro!: accountedI_file [OF s(1)] split: if_splits)
  qed
qed

section \<open>Files\<close>

text \<open>What the file operations do to the contents of the files: writes append.\<close>

fun fs_apply :: "file_op \<Rightarrow> (string \<rightharpoonup> u8 list) \<Rightarrow> (string \<rightharpoonup> u8 list)" where
  "fs_apply (OpCreate p trunc) fs = fs(p \<mapsto> (if trunc then [] else case fs p of None \<Rightarrow> [] | Some d \<Rightarrow> d))"
| "fs_apply (OpSeekEnd p) fs = fs"
| "fs_apply (OpWrite p bs) fs = fs(p \<mapsto> (case fs p of None \<Rightarrow> bs | Some d \<Rightarrow> d @ bs))"
| "fs_apply (OpFlush p) fs = fs"
| "fs_apply (OpMove a b) fs = (fs(b := fs a))(a := None)"
| "fs_apply (OpDelete p) fs = fs(p := None)"

definition fs_run :: "file_op list \<Rightarrow> (string \<rightharpoonup> u8 list) \<Rightarrow> (string \<rightharpoonup> u8 list)" where
  "fs_run ops fs = fold fs_apply ops fs"

lemma fs_run_simps [simp]:
  "fs_run [] fs = fs" "fs_run (x # xs) fs = fs_run xs (fs_apply x fs)" "fs_run (xs @ ys) fs = fs_run ys (fs_run xs fs)"
  by (simp_all add: fs_run_def)

lemma fs_run_writes: "fs p = Some d \<Longrightarrow> fs_run (map (OpWrite p) chunks) fs = fs(p \<mapsto> d @ concat chunks)"
  by (induction chunks arbitrary: fs d) (auto simp: fun_eq_iff)

fun op_target :: "file_op \<Rightarrow> string" where
  "op_target (OpCreate p _) = p"
| "op_target (OpSeekEnd p) = p"
| "op_target (OpWrite p _) = p"
| "op_target (OpFlush p) = p"
| "op_target (OpMove a b) = b"
| "op_target (OpDelete p) = p"

lemma fs_run_untouched:
  "\<forall>x\<in>set ops. op_target x \<noteq> p \<and> (\<forall>a b. x = OpMove a b \<longrightarrow> a \<noteq> p) \<Longrightarrow> fs_run ops fs p = fs p"
proof (induction ops arbitrary: fs)
  case (Cons x xs)
  then have "fs_apply x fs p = fs p" by (cases x) auto
  then show ?case using Cons by simp
qed simp

lemma temporary_path_differs: "temporary_path path n = Some t \<Longrightarrow> t \<noteq> path"
  by (auto simp: temporary_path_def Let_def split: if_splits)

definition only_on :: "string \<Rightarrow> file_op list \<Rightarrow> bool" where
  "only_on t ops \<longleftrightarrow> (\<forall>x\<in>set ops. op_target x = t \<and> (\<forall>a b. x \<noteq> OpMove a b))"

lemma only_on_simps [simp]:
  "only_on t []" "only_on t (x # xs) \<longleftrightarrow> op_target x = t \<and> (\<forall>a b. x \<noteq> OpMove a b) \<and> only_on t xs"
  "only_on t (xs @ ys) \<longleftrightarrow> only_on t xs \<and> only_on t ys" "only_on t (map (OpWrite t) chunks)"
  by (auto simp: only_on_def)

lemma only_on_untouched: "only_on t ops \<Longrightarrow> p \<noteq> t \<Longrightarrow> fs_run ops fs p = fs p"
  by (rule fs_run_untouched) (auto simp: only_on_def)

text \<open>The operations of one atomic write, by how it ended.\<close>

lemma process_atomic_ops:
  assumes "process_atomic Q j w c = (st, off, w', c')" "temporary_path (fj_path j) (fj_request j) = Some t" "fj_offset j = 0"
  obtains chunks where "st = XCOM_OK" "concat chunks = fj_data j"
      "lw_ops w' = lw_ops w @ OpCreate t True # map (OpWrite t) chunks @ [OpFlush t, OpMove t (fj_path j)]"
    | "st = XCOM_ERR_IO" "lw_ops w' = lw_ops w"
    | body where "st = XCOM_ERR_IO" "only_on t body" "lw_ops w' = lw_ops w @ OpCreate t True # body @ [OpDelete t]"
proof (cases "os_create Q (lw_clock w) t")
  case False
  then show ?thesis using assms that(2) by (auto simp: process_atomic_def lw_tick_def)
next
  case True
  let ?w0 = "lw_do (OpCreate t True) w"
  obtain e off' w1 c1 where wa: "write_all Q t (fj_data j) 0 ?w0 c = (e, off', w1, c1)" by (metis prod_cases4)
  from write_all_spec [OF wa] obtain chunks where ch: "after_writes t chunks ?w0 w1" "concat chunks = take off' (fj_data j)"
      "e = None \<longrightarrow> length (fj_data j) \<le> off'" unfolding wrote_def by auto
  have o: "lw_ops w1 = lw_ops w @ OpCreate t True # map (OpWrite t) chunks"
    using after_writes_fields(1) [OF ch(1)] by (simp add: lw_do_def)
  consider "e \<noteq> None" | "e = None" "\<not> os_flush Q (lw_clock w1)" | "e = None" "os_flush Q (lw_clock w1)" "\<not> os_move Q (Suc (lw_clock w1))"
    | "e = None" "os_flush Q (lw_clock w1)" "os_move Q (Suc (lw_clock w1))" by blast
  then show ?thesis
  proof cases
    case 4
    then show ?thesis using assms True wa ch o that(1) [of chunks]
      by (auto simp: process_atomic_def Let_def lw_do_def)
  next
    case 3
    then show ?thesis using assms True wa o that(3) [of "map (OpWrite t) chunks @ [OpFlush t]"]
      by (auto simp: process_atomic_def Let_def lw_do_def lw_tick_def)
  next
    case 2
    then show ?thesis using assms True wa o that(3) [of "map (OpWrite t) chunks"]
      by (auto simp: process_atomic_def Let_def lw_do_def lw_tick_def)
  next
    case 1
    then show ?thesis using assms True wa o that(3) [of "map (OpWrite t) chunks"]
      by (auto simp: process_atomic_def Let_def lw_do_def lw_tick_def)
  qed
qed

lemma prefix_of_success:
  assumes "k \<le> length (OpCreate t True # map (OpWrite t) chunks @ [OpFlush t])" "t \<noteq> p"
  shows "fs_run (take k (OpCreate t True # map (OpWrite t) chunks @ [OpFlush t])) fs p = fs p"
proof (rule only_on_untouched [of t])
  have "only_on t (OpCreate t True # map (OpWrite t) chunks @ [OpFlush t])" by simp
  then show "only_on t (take k (OpCreate t True # map (OpWrite t) chunks @ [OpFlush t]))"
    unfolding only_on_def by (meson in_set_takeD)
qed (use assms in simp)

text \<open>
  C13 (atomic_write_is_atomic). An atomic write replaces its target as a whole or not at all. It ends OK, IO
  error or parameter error. At every point between two of its file operations (so also after a crash
  there) the target holds what it held before or the complete new data; it holds the new data at the
  end exactly when OK is reported, and no temporary file is left behind once a file was created.
\<close>

theorem atomic_write_is_atomic:
  assumes "process_atomic Q j w c = (st, off, w', c')" "fj_offset j = 0"
  shows "\<exists>ops. lw_ops w' = lw_ops w @ ops \<and> st \<in> {XCOM_OK, XCOM_ERR_IO, XCOM_ERR_PARAM} \<and>
    (\<forall>k fs. fs_run (take k ops) fs (fj_path j) \<in> {fs (fj_path j), Some (fj_data j)}) \<and>
    (\<forall>fs. fs_run ops fs (fj_path j) = (if st = XCOM_OK then Some (fj_data j) else fs (fj_path j))) \<and>
    (\<forall>fs t. temporary_path (fj_path j) (fj_request j) = Some t \<longrightarrow> ops \<noteq> [] \<longrightarrow> fs_run ops fs t = None)"
proof (cases "temporary_path (fj_path j) (fj_request j)")
  case None
  then show ?thesis using assms by (intro exI [of _ "[]"]) (auto simp: process_atomic_def)
next
  case (Some t)
  note differs = temporary_path_differs [OF Some]
  from process_atomic_ops [OF assms(1) Some assms(2)] show ?thesis
  proof cases
    case (1 chunks)
    let ?pre = "OpCreate t True # map (OpWrite t) chunks @ [OpFlush t]"
    have all: "fs_run (?pre @ [OpMove t (fj_path j)]) fs = fs(fj_path j \<mapsto> fj_data j, t := None)" for fs
      using 1(2) differs fs_run_writes [of "fs(t \<mapsto> [])" t "[]" chunks] by (simp add: fun_eq_iff)
    have "fs_run (take k (?pre @ [OpMove t (fj_path j)])) fs (fj_path j) \<in> {fs (fj_path j), Some (fj_data j)}" for k fs
    proof (cases "k \<le> length ?pre")
      case True
      then show ?thesis using prefix_of_success [OF True differs] by (simp only: take_append) simp
    next
      case False
      then have "take k (?pre @ [OpMove t (fj_path j)]) = ?pre @ [OpMove t (fj_path j)]" by simp
      then show ?thesis using all differs by (simp only:) simp
    qed
    then show ?thesis
      using 1 all differs Some by (intro exI [of _ "?pre @ [OpMove t (fj_path j)]"]) auto
  next
    case 2
    then show ?thesis by (intro exI [of _ "[]"]) simp
  next
    case (3 body)
    let ?ops = "OpCreate t True # body @ [OpDelete t]"
    have "only_on t ?ops" using 3 by simp
    then have "only_on t (take k ?ops)" for k unfolding only_on_def by (meson in_set_takeD)
    then have "fs_run (take k ?ops) fs (fj_path j) = fs (fj_path j)" for k fs using only_on_untouched differs by metis
    moreover have "fs_run ?ops fs (fj_path j) = fs (fj_path j)" for fs
      using only_on_untouched [OF \<open>only_on t ?ops\<close>] differs by metis
    ultimately show ?thesis using 3 Some by (intro exI [of _ ?ops]) auto
  qed
qed

definition demo_log :: log_writer where
  "demo_log = log_writer_init\<lparr>lw_present := True, lw_running := True, lw_log := Some ''log'', lw_accepting := True\<rparr>"

theorem atomic_write_is_atomic_witness:
  "fs_run (lw_ops (fst (snd (snd (process_atomic demo_os
     ((plain_job JkAtomicWrite)\<lparr>fj_path := ''a'', fj_data := [1, 2, 3], fj_request := 7\<rparr>) demo_log core_init))))) Map.empty ''a''
   = Some [1, 2, 3]"
proof -
  let ?j = "(plain_job JkAtomicWrite)\<lparr>fj_path := ''a'', fj_data := [1, 2, 3], fj_request := 7\<rparr>"
  obtain st off w' and c' :: core where p: "process_atomic demo_os ?j demo_log core_init = (st, off, w', c')"
    by (metis prod_cases4)
  have "st = XCOM_OK"
    using p by (auto simp: process_atomic_def temporary_path_def show_nat.simps demo_os_def plain_job_def write_all.simps Let_def)
  then show ?thesis
    using atomic_write_is_atomic [OF p] p by (auto simp: plain_job_def demo_log_def log_writer_init_def)
qed

end
