(* ===== verification/Log_Protocol.thy ===== *)
theory Log_Protocol
  imports Log_Facts
begin

text \<open>
  The file writer together with its clients: the step relation of the worker and the callers around the
  completion ring, the guarantee that a requested stop ends the worker, and the admission protocol by
  which a close waits for the appenders.
\<close>

section \<open>A stop ends every wait\<close>

definition stops_by :: "file_os \<Rightarrow> nat \<Rightarrow> bool" where
  "stops_by Q m \<longleftrightarrow> (\<forall>n\<ge>m. os_stopping Q n)"

lemma write_all_clock:
  assumes "write_all Q path data offset w c = (e, offset', w', c')"
  shows "lw_clock w + (if e = None then 0 else 1) \<le> lw_clock w' \<and> lw_stopping w' = lw_stopping w"
  using assms
proof (induction Q path data offset w c arbitrary: e offset' w' c' rule: write_all.induct)
  case (1 Q path data offset w c)
  note r = "1.prems" [unfolded write_all.simps [of Q path data offset w c]]
  show ?case
  proof (cases "offset < length data \<and> (\<exists>n. os_write Q (lw_clock w) (drop offset data) = Inr n \<and> n \<noteq> 0)")
    case False
    then show ?thesis using r by (auto simp: Let_def lw_tick_def split: if_splits sum.splits)
  next
    case True
    then obtain n where n: "os_write Q (lw_clock w) (drop offset data) = Inr n" "n \<noteq> 0" and lt: "offset < length data"
      by blast
    let ?got = "min n (length (drop offset data))"
    have got: "?got \<noteq> 0" using n lt by auto
    have "write_all Q path data (offset + ?got) (lw_do (OpWrite path (take ?got (drop offset data))) w) (lw_beat Q w c)
      = (e, offset', w', c')"
      using r by (simp only: lt if_True Let_def n(1) sum.case if_not_P [OF got])
    from "1.IH" [OF lt refl refl n(1) refl got this] show ?thesis
      by (auto simp: lw_do_def split: if_splits)
  qed
qed

lemma append_loop_returns:
  assumes "stops_by Q m"
  shows "\<exists>r. append_loop Q path data offset reported w c = Some r"
proof (induction "m - lw_clock w" arbitrary: offset reported w c rule: less_induct)
  case less
  obtain e off w1 c1 where wr: "write_all Q path data offset w (lw_beat Q w c) = (e, off, w1, c1)"
    by (metis prod_cases4)
  show ?case
  proof (cases "e = None \<or> lw_stop_seen Q w1")
    case True
    then show ?thesis by (cases e) (auto simp: append_loop.simps [of Q path data offset] wr Let_def)
  next
    case False
    then obtain x where x: "e = Some x" and run: "\<not> lw_stop_seen Q w1" by (cases e) auto
    have "lw_clock w < lw_clock w1" using write_all_clock [OF wr] x by simp
    moreover have "lw_clock w1 < m" using run assms unfolding lw_stop_seen_def stops_by_def by (meson not_le)
    ultimately have "m - lw_clock w1 < m - lw_clock w" by simp
    from less [OF this] show ?thesis using x run
      by (subst append_loop.simps) (simp add: wr Let_def)
  qed
qed

lemma rx_write_loop_returns:
  assumes "stops_by Q m"
  shows "\<exists>r. rx_write_loop Q path data offset w c = Some r"
proof (induction "m - lw_clock w" arbitrary: offset w c rule: less_induct)
  case less
  show ?case
  proof (cases "\<not> offset < length data \<or> lw_stop_seen Q w")
    case True
    then show ?thesis by (subst rx_write_loop.simps) auto
  next
    case False
    then have "lw_clock w < m" using assms unfolding lw_stop_seen_def stops_by_def by (meson not_le)
    then have "\<exists>r. rx_write_loop Q path data off w' c' = Some r" if "lw_clock w' = Suc (lw_clock w)" for off w' and c' :: "'a core_scheme"
      using less [of w' off c'] that by simp
    then show ?thesis
      by (subst rx_write_loop.simps) (auto simp: Let_def lw_tick_def lw_do_def split: sum.split)
  qed
qed

lemma rx_write_loop_stopped:
  "lw_stopping w \<Longrightarrow> rx_write_loop Q path data offset w c = Some (offset, w, c)"
  by (subst rx_write_loop.simps) (simp add: lw_stop_seen_def)

lemma process_rx_ref_returns:
  assumes "stops_by Q m \<or> lw_stopping w"
  shows "\<exists>w' c'. process_rx_ref Q ref w c = Some (w', c')"
proof -
  have "\<exists>r. rx_write_loop Q path data 0 w c = Some r" for path data
    using assms rx_write_loop_returns rx_write_loop_stopped by blast
  then have "\<exists>off w1 c1. rx_write_loop Q path data 0 w c = Some (off, w1, c1)" for path data
    by (metis prod_cases3)
  then have "\<exists>w1 c1. map_option (\<lambda>(off, w1, c1). (w1, f off w1 c1)) (rx_write_loop Q path data 0 w c) = Some (w1, c1)"
    for path data and f :: "nat \<Rightarrow> log_writer \<Rightarrow> 'a core_scheme \<Rightarrow> 'a core_scheme"
    by fastforce
  then show ?thesis by (auto simp: process_rx_ref_def Let_def split: option.split)
qed

text \<open>What the raw lane's part of the worker leaves untouched.\<close>

definition same_queues :: "log_writer \<Rightarrow> log_writer \<Rightarrow> bool" where
  "same_queues w w' \<longleftrightarrow> lw_jobs w' = lw_jobs w \<and> lw_completions w' = lw_completions w \<and> lw_pending w' = lw_pending w \<and>
     lw_stopping w' = lw_stopping w \<and> lw_sync w' = lw_sync w"

lemma same_queues_simps [simp]:
  "same_queues w w" "same_queues w (lw_tick v) = same_queues w v" "same_queues w (lw_do x v) = same_queues w v"
  "same_queues w (v\<lparr>lw_log := f\<rparr>) = same_queues w v" "same_queues w (v\<lparr>lw_accepting := b\<rparr>) = same_queues w v"
  "same_queues w (v\<lparr>lw_stream := s\<rparr>) = same_queues w v" "same_queues w (stream_reset v) = same_queues w v"
  "same_queues (lw_tick v) w = same_queues v w" "same_queues (lw_do x v) w = same_queues v w"
  "same_queues (v\<lparr>lw_accepting := b\<rparr>) w = same_queues v w"
  by (simp_all add: same_queues_def lw_tick_def lw_do_def stream_reset_def split: option.split)

lemma same_queues_trans: "same_queues a b \<Longrightarrow> same_queues b c \<Longrightarrow> same_queues a c"
  by (simp add: same_queues_def)

lemma wrote_same_queues: "wrote path data lo hi w w' \<Longrightarrow> same_queues w w'"
  by (auto simp: wrote_def after_writes_def same_queues_def)

lemma process_rx_ref_queues:
  assumes "process_rx_ref Q ref w c = Some (w', c')"
  shows "same_queues w w' \<and> lw_log w' = lw_log w"
proof -
  have "same_queues w w1 \<and> lw_log w1 = lw_log w" if "rx_write_loop Q path data 0 w c = Some (off, w1, c1)" for path data off w1 c1
    using rx_write_loop_spec [OF that] wrote_same_queues [of path data 0 off w w1]
    by (auto simp: retry_post_def wrote_def dest: after_writes_fields(3))
  then show ?thesis using assms by (auto simp: process_rx_ref_def Let_def split: if_splits option.splits)
qed

lemma drain_rx_queues:
  "drain_rx n Q w c = Some (w', c') \<Longrightarrow> same_queues w w'"
proof (induction n arbitrary: w c)
  case (Suc n)
  then show ?case
    by (auto split: option.splits dest!: process_rx_ref_queues Suc.IH intro: same_queues_trans)
qed simp

lemma drain_rx_returns:
  assumes "stops_by Q m \<or> lw_stopping w"
  shows "\<exists>w' c'. drain_rx n Q w c = Some (w', c')"
  using assms
proof (induction n arbitrary: w c)
  case (Suc n)
  show ?case
  proof (cases "rx_pop_raw (os_rx Q) (c_rx c)")
    case (Some a)
    obtain ref l where a: "a = (ref, l)" by (cases a)
    obtain w1 c1 where p: "process_rx_ref Q ref w (c\<lparr>c_rx := l\<rparr>) = Some (w1, c1)"
      using process_rx_ref_returns [OF Suc.prems] by blast
    have "stops_by Q m \<or> lw_stopping w1"
      using Suc.prems process_rx_ref_queues [OF p] by (auto simp: same_queues_def)
    then show ?thesis using Suc.IH Some a p by simp
  qed simp
qed simp

section \<open>Completions\<close>

definition reporting :: "file_job list \<Rightarrow> file_job list" where
  "reporting js = filter job_reports js"

text \<open>Every reserved completion is either published and not yet taken, or owed by a job.\<close>

definition lw_inv :: "file_job option \<Rightarrow> log_writer \<Rightarrow> bool" where
  "lw_inv f w \<longleftrightarrow>
     unat (lw_pending w) =
       length (lw_completions w) + length (reporting (case f of None \<Rightarrow> [] | Some j \<Rightarrow> [j])) + length (reporting (lw_jobs w)) \<and>
     unat (lw_pending w) \<le> kCompletionCapacity \<and> length (lw_jobs w) \<le> kFileJobCapacity"

lemma file_os_rings:
  assumes "file_os_ok Q"
  shows "os_push_done Q q x = (if length q < kCompletionCapacity then Some (q @ [x]) else None)"
    "os_push_job Q r y = (if length r < kFileJobCapacity then Some (r @ [y]) else None)"
    "os_pop_job Q r = (case r of [] \<Rightarrow> None | j # js \<Rightarrow> Some (j, js))"
    "os_pop_done Q q = (case q of [] \<Rightarrow> None | d # ds \<Rightarrow> Some (d, ds))"
  using assms spsc_push [of kCompletionCapacity "os_push_done Q" "os_pop_done Q" q x]
    spsc_push [of kFileJobCapacity "os_push_job Q" "os_pop_job Q" r y] spsc_pop [of kFileJobCapacity "os_push_job Q" "os_pop_job Q" r]
    spsc_pop [of kCompletionCapacity "os_push_done Q" "os_pop_done Q" q]
  unfolding file_os_ok_def by blast+

lemma lw_inv_same: "same_queues w w' \<Longrightarrow> lw_inv f w' = lw_inv f w"
  by (simp add: same_queues_def lw_inv_def)

lemma run_job_queues:
  assumes "run_job Q j w c = Some (st, off, w', c')"
  shows "same_queues w w'"
proof -
  have wa: "same_queues w w1" if "write_all Q path data o' w c = (e, off, w1, c1)" for path data o' e off w1 c1 w and c :: "'a core_scheme"
    using write_all_spec [OF that] wrote_same_queues by blast
  have al: "same_queues w w1" if "append_loop Q path data o' b w c = Some (e, off, w1, c1)" for path data o' b e off w1 c1
    using append_loop_spec [OF that] wrote_same_queues [of path data o' off w w1] by (simp add: retry_post_def)
  have at: "same_queues w w'" if "process_atomic Q j w c = (st, off, w', c')"
    using that by (auto simp: process_atomic_def Let_def split: option.splits prod.splits if_splits dest!: wa)
  have sa: "same_queues w w'" if "process_stream_append Q j w c = (st, off, w', c')"
    using that by (auto simp: process_stream_append_def split: option.splits prod.splits if_splits dest!: wa)
  have ol: "same_queues w w'" if "process_open Q j w = (st, w')"
    using that by (auto simp: process_open_def Let_def split: if_splits)
  have cl: "same_queues w w'" if "process_close Q w c = Some (st, w', c')"
    using that by (auto simp: process_close_def flush_rx_before_close_def split: option.splits if_splits dest!: drain_rx_queues)
  have st: "same_queues w w'" if "process_stream_begin Q j w = (st, w') \<or> process_stream_commit Q j w = (st, w') \<or> process_stream_abort j w = (st, w')"
    using that by (auto simp: process_stream_begin_def process_stream_commit_def process_stream_abort_def Let_def
        split: option.splits if_splits)
  show ?thesis
    using assms at sa ol cl st al
    by (auto simp: run_job_def split: job_kind.splits option.splits prod.splits if_splits)
qed

lemma sync_fields [simp]:
  "lw_jobs (complete_sync d s x) = lw_jobs x" "lw_completions (complete_sync d s x) = lw_completions x"
  "lw_pending (complete_sync d s x) = lw_pending x" "lw_stopping (complete_sync d s x) = lw_stopping x"
  "lw_jobs (lw_release_block b x) = lw_jobs x" "lw_completions (lw_release_block b x) = lw_completions x"
  "lw_pending (lw_release_block b x) = lw_pending x" "lw_stopping (lw_release_block b x) = lw_stopping x"
  "lw_sync (lw_release_block b x) = lw_sync x"
  by (simp_all add: complete_sync_def release_completion_def lw_release_block_def Let_def split: option.split)

text \<open>Finishing the job in flight always finds room for its completion.\<close>

lemma finish_in_flight:
  assumes "file_os_ok Q" "lw_inv (Some j) w"
  shows "\<exists>w' c'. lw_finish Q (j\<lparr>fj_offset := off\<rparr>) st w c = Some (w', c') \<and> lw_inv None w' \<and>
    lw_jobs w' = lw_jobs w \<and> lw_stopping w' = lw_stopping w \<and> c_rx c' = c_rx c \<and>
    lw_completions w' = lw_completions w @ (if job_reports j then [(fj_request j, st)] else [])"
proof -
  note push = file_os_rings(1) [OF assms(1)]
  have r: "job_reports (j\<lparr>fj_offset := off\<rparr>) = job_reports j" by (simp add: job_reports_def)
  show ?thesis
    using assms(2) by (auto simp: lw_finish_def r publish_atomic_completion_def push lw_inv_def reporting_def Let_def)
qed

lemma pop_job_inv:
  assumes "file_os_ok Q" "lw_inv None w" "os_pop_job Q (lw_jobs w) = Some (j, q)"
  shows "lw_inv (Some j) (w\<lparr>lw_jobs := q\<rparr>) \<and> lw_jobs w = j # q"
proof -
  show ?thesis using assms(2,3) file_os_rings(3) [OF assms(1)] by (auto simp: lw_inv_def reporting_def split: list.splits if_splits)
qed

text \<open>Cancelling answers every queued job with a timeout, in order.\<close>

lemma cancel_pending_spec:
  assumes "file_os_ok Q" "lw_inv None w" "length (lw_jobs w) < n"
  shows "\<exists>w' c'. cancel_pending n Q w c = Some (w', c') \<and> lw_inv None w' \<and> lw_jobs w' = [] \<and>
    lw_stopping w' = lw_stopping w \<and> c_rx c' = c_rx c \<and>
    lw_completions w' = lw_completions w @ map (\<lambda>j. (fj_request j, XCOM_ERR_TIMEOUT)) (reporting (lw_jobs w))"
  using assms(2,3)
proof (induction n arbitrary: w c)
  case (Suc n)
  show ?case
  proof (cases "os_pop_job Q (lw_jobs w)")
    case None
    then show ?thesis using Suc.prems file_os_rings(3) [OF assms(1)] by (auto simp: reporting_def split: list.splits)
  next
    case (Some a)
    obtain j q where a: "a = (j, q)" by (cases a)
    note p = pop_job_inv [OF assms(1) Suc.prems(1) Some [unfolded a]]
    have same: "j\<lparr>fj_offset := fj_offset j\<rparr> = j" by simp
    obtain w1 c1 where f: "lw_finish Q j XCOM_ERR_TIMEOUT (w\<lparr>lw_jobs := q\<rparr>) c = Some (w1, c1)" "lw_inv None w1" "lw_jobs w1 = q"
        "lw_stopping w1 = lw_stopping w" "c_rx c1 = c_rx c"
        "lw_completions w1 = lw_completions w @ (if job_reports j then [(fj_request j, XCOM_ERR_TIMEOUT)] else [])"
      using finish_in_flight [OF assms(1) conjunct1 [OF p], of "fj_offset j" XCOM_ERR_TIMEOUT c] unfolding same by auto
    have "length (lw_jobs w1) < n" using Suc.prems(2) p f by simp
    from Suc.IH [OF f(2) this, of c1] show ?thesis using f Some a p by (auto simp: reporting_def)
  qed
qed simp

section \<open>The worker and its clients\<close>

text \<open>
  What a client call does to the queues at once: the asynchronous submissions, the taking of a
  completion, the queueing half of a synchronous call and its release, and the stop request.
\<close>

inductive client_step :: "file_os \<Rightarrow> log_writer \<Rightarrow> log_writer \<Rightarrow> bool" for Q where
  cs_append: "client_step Q w (snd (log_append Q data n w))"
| cs_atomic: "client_step Q w (snd (submit_atomic Q path data n request w))"
| cs_borrowed: "client_step Q w (snd (submit_atomic_borrowed Q path data n request w))"
| cs_begin: "client_step Q w (snd (stream_begin Q path stream request w))"
| cs_stream_append: "client_step Q w (snd (stream_append_borrowed Q stream data n request w))"
| cs_commit: "client_step Q w (snd (stream_commit Q stream request w))"
| cs_abort: "client_step Q w (snd (stream_abort Q stream request w))"
| cs_take: "client_step Q w (snd (snd (log_take_completion Q w)))"
| cs_sync: "\<not> job_reports j \<Longrightarrow> client_step Q w (snd (sync_queue Q event_ok j w))"
| cs_release: "client_step Q w (release_completion i w)"
| cs_close: "client_step Q w (snd (close_append_admission waits w))"
| cs_stop: "client_step Q w (w\<lparr>lw_stopping := True\<rparr>)"

text \<open>
  The job in flight is popped by one step and executed and finished by another, so that clients run in
  between; a raw block is processed, and a stop carried out, in one step.
\<close>

inductive log_step ::
  "file_os \<Rightarrow> file_job option \<times> log_writer \<times> core \<Rightarrow> file_job option \<times> log_writer \<times> core \<Rightarrow> bool" for Q where
  ls_client: "client_step Q w w' \<Longrightarrow> log_step Q (f, w, c) (f, w', c)"
| ls_take: "\<lbrakk>\<not> lw_stopping w; os_pop_job Q (lw_jobs w) = Some (j, q)\<rbrakk> \<Longrightarrow>
    log_step Q (None, w, c) (Some j, w\<lparr>lw_jobs := q\<rparr>, lw_beat Q w c)"
| ls_finish: "lw_process Q j w c = Some (w', c') \<Longrightarrow> log_step Q (Some j, w, c) (None, w', c')"
| ls_rx: "process_rx_ref Q ref w c = Some (w', c') \<Longrightarrow> log_step Q (None, w, c) (None, w', c')"
| ls_exit: "\<lbrakk>lw_stopping w; worker_pass Q w c = Some (t, w', c')\<rbrakk> \<Longrightarrow> log_step Q (None, w, c) (None, w', c')"

inductive log_reach :: "file_os \<Rightarrow> file_job option \<times> log_writer \<times> core \<Rightarrow> bool" for Q where
  lr_start: "log_start Q slot_free wake_ok spawned log_writer_init core_init = (ok, w, c) \<Longrightarrow> log_reach Q (None, w, c)"
| lr_step: "\<lbrakk>log_reach Q s; log_step Q s s'\<rbrakk> \<Longrightarrow> log_reach Q s'"

lemma lw_inv_fields:
  assumes "lw_jobs w' = lw_jobs w" "lw_completions w' = lw_completions w" "lw_pending w' = lw_pending w"
  shows "lw_inv f w' = lw_inv f w"
  using assms by (simp add: lw_inv_def)

lemma release_fields [simp]:
  "lw_jobs (release_completion i w) = lw_jobs w" "lw_completions (release_completion i w) = lw_completions w"
  "lw_pending (release_completion i w) = lw_pending w"
  by (simp_all add: release_completion_def Let_def)

lemma enqueue_plain_inv:
  assumes "file_os_ok Q" "lw_inv f w" "lw_enqueue Q j w = Some w'" "\<not> job_reports j"
  shows "lw_inv f w'"
  using assms by (auto simp: lw_enqueue_def file_os_rings [OF assms(1)] lw_inv_def reporting_def split: if_splits)

lemma reserve_enqueue_inv:
  assumes "file_os_ok Q" "lw_inv f w" "reserve_completion w = Some w1"
    "lw_jobs w2 = lw_jobs w1" "lw_completions w2 = lw_completions w1" "lw_pending w2 = lw_pending w1"
  shows "lw_enqueue Q j w2 = Some w3 \<Longrightarrow> job_reports j \<Longrightarrow> lw_inv f w3"
    "lw_inv f (release_completion_reservation w2)"
proof -
  have n: "unat (lw_pending w) < 32" "lw_pending w2 = lw_pending w + 1" "lw_jobs w2 = lw_jobs w" "lw_completions w2 = lw_completions w"
    using assms by (auto simp: reserve_completion_def split: if_splits)
  then have u: "unat (lw_pending w + 1) = Suc (unat (lw_pending w))"
    by (simp add: unat_word_ariths(1))
  show "lw_inv f (release_completion_reservation w2)"
    using assms(2) n by (simp add: lw_inv_def release_completion_reservation_def)
  show "lw_inv f w3" if "lw_enqueue Q j w2 = Some w3" "job_reports j"
    using that assms(2) n u
    by (auto simp: lw_enqueue_def file_os_rings [OF assms(1)] lw_inv_def reporting_def split: if_splits)
qed

lemma submit_reserved_inv:
  assumes "file_os_ok Q" "lw_inv f w" "job_reports j"
  shows "lw_inv f (snd (submit_reserved Q j w))"
  using assms reserve_enqueue_inv [OF assms(1,2)]
  by (auto simp: submit_reserved_def split: option.split)

lemma take_completion_inv:
  assumes "file_os_ok Q" "lw_inv f w"
  shows "lw_inv f (snd (snd (log_take_completion Q w)))"
proof (cases "lw_present w \<and> lw_completions w \<noteq> []")
  case True
  then obtain d ds where d: "lw_completions w = d # ds" by (cases "lw_completions w") auto
  then have "unat (lw_pending w) \<noteq> 0" using assms(2) by (simp add: lw_inv_def)
  then have "unat (lw_pending w - 1) = unat (lw_pending w) - 1" by (simp add: unat_minus_one unat_eq_zero)
  then show ?thesis
    using True d assms by (simp add: log_take_completion_def file_os_rings [OF assms(1)] release_completion_reservation_def lw_inv_def)
next
  case False
  then show ?thesis using assms by (auto simp: log_take_completion_def file_os_rings [OF assms(1)])
qed

lemma append_inv:
  assumes "file_os_ok Q" "lw_inv f w"
  shows "lw_inv f (snd (log_append Q data n w))"
proof -
  have plain: "lw_inv f w3" if "lw_enqueue Q ((plain_job JkAppend)\<lparr>fj_block := b, fj_data := d\<rparr>) (w\<lparr>lw_appenders := a, lw_blocks := p\<rparr>) = Some w3"
    for w3 b d a p
    by (rule enqueue_plain_inv [OF assms(1) _ that])
      (use assms(2) in \<open>simp_all add: lw_inv_def job_reports_def plain_job_def\<close>)
  have other: "lw_inv f (w\<lparr>lw_appenders := a\<rparr>)" "lw_inv f (w\<lparr>lw_appenders := a, lw_blocks := p\<rparr>)" for a p
    using assms(2) by (simp_all add: lw_inv_def)
  have lease: "lw_inv f (release_append_lease x) = lw_inv f x" "lw_inv f (lw_release_block b x) = lw_inv f x" for b x
    by (simp_all add: release_append_lease_def lw_inv_def)
  show ?thesis
    using assms(2)
    by (auto simp: log_append_def acquire_append_lease_def Let_def lease other dest: plain split: option.split prod.split)
qed

lemma submit_atomic_inv:
  assumes "file_os_ok Q" "lw_inv f w"
  shows "lw_inv f (snd (submit_atomic Q path data n request w))"
proof (cases "\<not> lw_present w \<or> data = None \<or> n > kFileBlockBytes \<or> os_wide Q path = None \<or> reserve_completion w = None")
  case True
  then show ?thesis using assms(2) by (auto simp: submit_atomic_def split: option.split)
next
  case False
  then obtain p w1 where p: "os_wide Q path = Some p" "reserve_completion w = Some w1" "lw_present w" "data \<noteq> None" "\<not> n > kFileBlockBytes"
    by auto
  have rep: "job_reports ((plain_job JkAtomicWrite)\<lparr>fj_block := b, fj_data := d, fj_request := r, fj_path := q\<rparr>)" for b d r q
    by (simp add: job_reports_def plain_job_def)
  note keep = reserve_enqueue_inv [OF assms p(2)]
  have "lw_inv f w3" if "lw_enqueue Q ((plain_job JkAtomicWrite)\<lparr>fj_block := b, fj_data := d, fj_request := r, fj_path := q\<rparr>)
      (w1\<lparr>lw_blocks := pool\<rparr>) = Some w3" for b d r q pool w3
    by (rule keep(1) [OF _ _ _ that rep]) simp_all
  moreover have "lw_inv f (release_completion_reservation w1)"
      "lw_inv f (release_completion_reservation (lw_release_block b (w1\<lparr>lw_blocks := pool\<rparr>)))" for b pool
    by (rule keep(2); simp)+
  ultimately show ?thesis
    using p by (auto simp: submit_atomic_def Let_def split: option.split prod.split)
qed

lemma client_step_inv:
  assumes "client_step Q w w'" "file_os_ok Q" "lw_inv f w"
  shows "lw_inv f w'"
  using assms(1)
proof cases
  case (cs_append data n)
  then show ?thesis using append_inv assms by simp
next
  case (cs_atomic path data n request)
  then show ?thesis using submit_atomic_inv assms by simp
next
  case cs_take
  then show ?thesis using take_completion_inv assms by simp
next
  case (cs_sync j event_ok)
  have slot: "lw_inv f (snd (acquire_completion event_ok w))"
    using assms(3) by (auto simp: acquire_completion_def lw_inv_def split: option.split prod.split)
  obtain d w1 where a: "acquire_completion event_ok w = (d, w1)" by (cases "acquire_completion event_ok w")
  have plain: "lw_inv f w3" if "lw_enqueue Q (j\<lparr>fj_completion := Some i\<rparr>) (w1\<lparr>lw_sync := u\<rparr>) = Some w3" for i u w3
    by (rule enqueue_plain_inv [OF assms(2) _ that])
      (use slot a cs_sync in \<open>simp_all add: lw_inv_def job_reports_def\<close>)
  have "lw_inv f (w1\<lparr>lw_sync := u\<rparr>)" for u using slot a by (simp add: lw_inv_def)
  then show ?thesis
    using slot cs_sync
    by (auto simp: sync_queue_def a Let_def lw_inv_fields [of "release_completion _ _"] dest: plain split: option.split)
qed (use assms in \<open>auto simp: submit_atomic_borrowed_def stream_begin_def stream_append_borrowed_def stream_commit_def
      stream_abort_def lw_inv_fields [of "release_completion _ _"] close_append_admission_def job_reports_def plain_job_def
      intro!: submit_reserved_inv split: option.split\<close>, (simp add: lw_inv_def)+)

lemma process_in_flight:
  assumes "file_os_ok Q" "lw_inv (Some j) w" "run_job Q j w c = Some (st, off, w1, c1)"
  shows "\<exists>w' c'. lw_process Q j w c = Some (w', c') \<and> lw_inv None w'"
proof -
  have "lw_inv (Some j) w1" using assms(2) lw_inv_same [OF run_job_queues [OF assms(3)]] by simp
  from finish_in_flight [OF assms(1) this, of off st c1] show ?thesis using assms(3) by (auto simp: lw_process_def)
qed

text \<open>A stopping worker's pass, whatever the storage does.\<close>

lemma drain_rx_empties:
  assumes "file_os_ok Q" "length (rl_raw_ready (c_rx c)) < n" "drain_rx n Q w c = Some (w', c')"
  shows "rl_raw_ready (c_rx c') = []"
  using assms(2,3)
proof (induction n arbitrary: w c)
  case (Suc n)
  have pop: "xe_pop (os_rx Q) r = (case r of [] \<Rightarrow> None | x # xs \<Rightarrow> Some (x, xs))" for r
    using assms(1) spsc_pop [of kRxBlockCount "xe_push (os_rx Q)" "xe_pop (os_rx Q)" r]
    by (simp add: file_os_ok_def rx_env_ok_def)
  show ?case
  proof (cases "rl_raw_ready (c_rx c)")
    case Nil
    then show ?thesis using Suc.prems by (simp add: rx_pop_raw_def pop)
  next
    case (Cons ref rest)
    let ?l = "(c_rx c)\<lparr>rl_raw_ready := rest\<rparr>"
    obtain w1 c1 where p: "process_rx_ref Q ref w (c\<lparr>c_rx := ?l\<rparr>) = Some (w1, c1)" "drain_rx n Q w1 c1 = Some (w', c')"
      using Suc.prems(2) Cons by (auto simp: rx_pop_raw_def pop split: option.splits)
    have "rl_raw_ready (c_rx c1) = rest"
      using rx_ref_accounted [OF p(1)] by (simp add: rx_release_def)
    then show ?thesis using Suc.IH [OF _ p(2)] Suc.prems(1) Cons by simp
  qed
qed simp

lemma stopping_pass:
  assumes "file_os_ok Q" "lw_inv None w" "lw_stopping w"
  shows "\<exists>w' c'. worker_pass Q w c = Some (TurnExit, w', c') \<and> lw_inv None w' \<and> lw_jobs w' = [] \<and>
    lw_log w' = None \<and> lw_stream w' = None \<and> \<not> hb_log_writer_running (c_heartbeats c') \<and>
    lw_completions w' = lw_completions w @ map (\<lambda>j. (fj_request j, XCOM_ERR_TIMEOUT)) (reporting (lw_jobs w)) \<and>
    (length (rl_raw_ready (c_rx c)) \<le> kRxBlockCount \<longrightarrow> rl_raw_ready (c_rx c') = [])"
proof -
  have "length (lw_jobs w) < Suc kFileJobCapacity" using assms(2) by (simp add: lw_inv_def)
  from cancel_pending_spec [OF assms(1,2) this, of "lw_beat Q w c"] obtain w1 c1 where
    w1: "cancel_pending (Suc kFileJobCapacity) Q w (lw_beat Q w c) = Some (w1, c1)" "lw_inv None w1" "lw_jobs w1 = []"
      "lw_stopping w1" "c_rx c1 = c_rx c"
      "lw_completions w1 = lw_completions w @ map (\<lambda>j. (fj_request j, XCOM_ERR_TIMEOUT)) (reporting (lw_jobs w))"
    using assms(3) by (auto simp: lw_beat_def)
  obtain w2 c2 where d: "cancel_pending_rx Q w1 c1 = Some (w2, c2)"
    using drain_rx_returns [of Q 0 w1] w1(4) unfolding cancel_pending_rx_def by blast
  let ?w = "stream_reset (w2\<lparr>lw_log := None\<rparr>)"
  have q: "same_queues w1 ?w" using drain_rx_queues d by (simp add: cancel_pending_rx_def)
  have "lw_log ?w = None" "lw_stream ?w = None"
    by (simp_all add: stream_reset_def lw_do_def split: option.split)
  moreover have "length (rl_raw_ready (c_rx c)) \<le> kRxBlockCount \<Longrightarrow> rl_raw_ready (c_rx c2) = []"
    using drain_rx_empties [OF assms(1) _ d [unfolded cancel_pending_rx_def]] w1(5) by simp
  ultimately show ?thesis
    using assms(3) w1 d q lw_inv_same [OF q] by (simp add: worker_pass_def Let_def lw_set_running_def same_queues_def)
qed

lemma log_reach_inv:
  assumes "log_reach Q s" "file_os_ok Q"
  shows "lw_inv (fst s) (fst (snd s))"
  using assms(1)
proof induction
  case (lr_start slot_free wake_ok spawned ok w c)
  then show ?case
    by (auto simp: log_start_def Let_def log_writer_init_def lw_inv_def reporting_def split: if_splits)
next
  case (lr_step s s')
  from lr_step(2) show ?case
  proof cases
    case (ls_client w w' f c)
    then show ?thesis using client_step_inv assms(2) lr_step.IH by simp
  next
    case (ls_take w j q c)
    then show ?thesis using pop_job_inv [OF assms(2)] lr_step.IH by simp
  next
    case (ls_finish j w c w' c')
    then obtain st off w1 c1 where "run_job Q j w c = Some (st, off, w1, c1)"
      by (auto simp: lw_process_def split: option.splits)
    from process_in_flight [OF assms(2) _ this] show ?thesis using ls_finish lr_step.IH by simp
  next
    case (ls_rx ref w c w' c')
    then show ?thesis using lw_inv_same [OF conjunct1 [OF process_rx_ref_queues [OF ls_rx(3)]]] lr_step.IH by simp
  next
    case (ls_exit w c t w' c')
    then show ?thesis using stopping_pass [OF assms(2), of w c] lr_step.IH by auto
  qed
qed

text \<open>
  C5 (completion_ring_never_overflows). In every state that the worker and its clients reach, the
  reservation counter is exactly the number of completions that are published and not yet taken or still
  owed by a queued or running job, and at most 32; so when a job that has been executed is finished,
  the ring has room and the assertion in the publishing code cannot fail.
\<close>

theorem completion_ring_never_overflows:
  assumes "file_os_ok Q" "log_reach Q (f, w, c)"
  shows "unat (lw_pending w) = length (lw_completions w) +
      length (reporting (case f of None \<Rightarrow> [] | Some j \<Rightarrow> [j])) + length (reporting (lw_jobs w)) \<and>
    unat (lw_pending w) \<le> kCompletionCapacity \<and>
    (\<forall>j. f = Some j \<longrightarrow> run_job Q j w c \<noteq> None \<longrightarrow> lw_process Q j w c \<noteq> None)"
proof -
  have inv: "lw_inv f w" using log_reach_inv [OF assms(2,1)] by simp
  then show ?thesis using process_in_flight [OF assms(1), of _ w c] by (fastforce simp: lw_inv_def)
qed

definition demo_started :: "log_writer \<times> core" where
  "demo_started = (case log_start demo_os True True True log_writer_init core_init of (_, w, c) \<Rightarrow> (w, c))"

definition demo_queued :: log_writer where
  "demo_queued = snd (submit_atomic_borrowed demo_os ''a'' (Some [1, 2, 3]) 3 7 (fst demo_started))"

lemma demo_queued_reach: "log_reach demo_os (None, demo_queued, snd demo_started)"
proof -
  obtain ok w c where s: "log_start demo_os True True True log_writer_init core_init = (ok, w, c)" by (metis prod_cases3)
  from lr_step [OF lr_start [OF s] ls_client [OF cs_borrowed]] show ?thesis
    by (simp add: demo_queued_def demo_started_def s)
qed

lemma demo_queued_jobs:
  "lw_jobs demo_queued = [(plain_job JkAtomicWrite)\<lparr>fj_data := [1, 2, 3], fj_request := 7, fj_path := ''a''\<rparr>]"
  "lw_pending demo_queued = 1" "lw_completions demo_queued = []" "\<not> lw_stopping demo_queued"
  by (simp_all add: demo_queued_def demo_started_def log_start_def log_writer_init_def submit_atomic_borrowed_def demo_os_def
      submit_reserved_def reserve_completion_def lw_enqueue_def list_push_def Let_def)

theorem completion_ring_never_overflows_witness:
  "\<exists>j w c. log_reach demo_os (Some j, w, c) \<and> lw_pending w = 1 \<and> lw_process demo_os j w c \<noteq> None"
proof -
  let ?j = "(plain_job JkAtomicWrite)\<lparr>fj_data := [1, 2, 3], fj_request := 7, fj_path := ''a''\<rparr>"
  let ?w = "demo_queued\<lparr>lw_jobs := []\<rparr>" and ?c = "lw_beat demo_os demo_queued (snd demo_started)"
  have "os_pop_job demo_os (lw_jobs demo_queued) = Some (?j, [])"
    by (simp add: demo_queued_jobs demo_os_def)
  then have r: "log_reach demo_os (Some ?j, ?w, ?c)"
    using lr_step [OF demo_queued_reach ls_take] demo_queued_jobs by simp
  have "run_job demo_os ?j ?w ?c \<noteq> None" by (simp add: run_job_def plain_job_def)
  then show ?thesis
    using completion_ring_never_overflows [OF demo_os_ok r] r demo_queued_jobs by fastforce
qed

text \<open>
  C25 (stop_ends_worker). Once the stop flag is set, the worker's next pass ends the thread, whatever the
  storage does: it answers every queued job that reports with TIMEOUT, in order, empties the job
  ring and the raw receive ring, closes the log file, drops an unfinished stream and clears the
  liveness flag of the writer.
\<close>

theorem stop_ends_worker:
  assumes "file_os_ok Q" "log_reach Q (None, w, c)" "lw_stopping w" "length (rl_raw_ready (c_rx c)) \<le> kRxBlockCount"
  shows "\<exists>w' c'. worker_pass Q w c = Some (TurnExit, w', c') \<and> lw_jobs w' = [] \<and> rl_raw_ready (c_rx c') = [] \<and>
    lw_log w' = None \<and> lw_stream w' = None \<and> \<not> hb_log_writer_running (c_heartbeats c') \<and>
    lw_completions w' = lw_completions w @ map (\<lambda>j. (fj_request j, XCOM_ERR_TIMEOUT)) (reporting (lw_jobs w))"
proof -
  have "lw_inv None w" using log_reach_inv [OF assms(2,1)] by simp
  from stopping_pass [OF assms(1) this assms(3), of c] show ?thesis using assms(4) by blast
qed

theorem stop_ends_worker_witness:
  "\<exists>w' c'. worker_pass demo_os (demo_queued\<lparr>lw_stopping := True\<rparr>) (snd demo_started) = Some (TurnExit, w', c') \<and>
     lw_completions w' = [(7, XCOM_ERR_TIMEOUT)]"
proof -
  let ?w = "demo_queued\<lparr>lw_stopping := True\<rparr>"
  have r: "log_reach demo_os (None, ?w, snd demo_started)"
    by (rule lr_step [OF demo_queued_reach ls_client [OF cs_stop]])
  have "length (rl_raw_ready (c_rx (snd demo_started))) \<le> kRxBlockCount"
    by (simp add: demo_started_def log_start_def log_writer_init_def lw_set_running_def rx_lane_init_def Let_def)
  from stop_ends_worker [OF demo_os_ok r _ this] show ?thesis
    by (auto simp: demo_queued_jobs reporting_def job_reports_def plain_job_def)
qed

lemma run_job_returns:
  assumes "stops_by Q m"
  shows "\<exists>st off w1 c1. run_job Q j w c = Some (st, off, w1, c1)"
proof -
  have al: "\<exists>st off w1 c1. append_loop Q path (fj_data j) (fj_offset j) False w c = Some (st, off, w1, c1)" for path
    using append_loop_returns [OF assms] by (metis prod_cases4)
  have "\<exists>w1 c1. flush_rx_before_close Q x c = Some (w1, c1)" for x
    using drain_rx_returns [OF disjI1 [OF assms]] by (auto simp: flush_rx_before_close_def)
  then have "\<exists>st w1 c1. process_close Q w c = Some (st, w1, c1)"
    unfolding process_close_def by (smt (verit, best) case_prod_conv option.map(2) prod_cases3)
  then show ?thesis using al
    by (auto simp: run_job_def split: job_kind.split option.split prod.split) (metis prod_cases4)+
qed

text \<open>
  C29 (worker_pass_returns). No storage fault holds the worker for ever: if from some call on a shutdown has
  been requested, then a pass returns in every reachable state, also from the retry loops of the append
  job and of the raw blocks, which otherwise wait for the storage to recover.
\<close>

theorem worker_pass_returns:
  assumes "file_os_ok Q" "log_reach Q (None, w, c)" "stops_by Q m"
  shows "\<exists>t w' c'. worker_pass Q w c = Some (t, w', c')"
proof -
  have inv: "lw_inv None w" using log_reach_inv [OF assms(2,1)] by simp
  show ?thesis
  proof (cases "lw_stopping w")
    case True
    then show ?thesis using stopping_pass [OF assms(1) inv] by blast
  next
    case False
    show ?thesis
    proof (cases "os_pop_job Q (lw_jobs w)")
      case (Some a)
      obtain j q where a: "a = (j, q)" by (cases a)
      let ?w = "w\<lparr>lw_jobs := q\<rparr>"
      obtain st off w1 c1 where "run_job Q j ?w (lw_beat Q w c) = Some (st, off, w1, c1)"
        using run_job_returns [OF assms(3)] by blast
      from process_in_flight [OF assms(1) conjunct1 [OF pop_job_inv [OF assms(1) inv Some [unfolded a]]] this]
      show ?thesis using False Some a by (auto simp: worker_pass_def Let_def)
    next
      case None
      show ?thesis
      proof (cases "rx_pop_raw (os_rx Q) (c_rx (lw_beat Q w c))")
        case (Some b)
        obtain ref l where b: "b = (ref, l)" by (cases b)
        from process_rx_ref_returns [OF disjI1 [OF assms(3)], of ref w "(lw_beat Q w c)\<lparr>c_rx := l\<rparr>"]
        show ?thesis using False None Some b by (auto simp: worker_pass_def Let_def)
      qed (use False None in \<open>simp add: worker_pass_def Let_def\<close>)
    qed
  qed
qed

text \<open>A device that fails every call, with a stop requested at call 100.\<close>

theorem worker_pass_returns_witness:
  "\<exists>r. worker_pass (demo_os\<lparr>os_write := \<lambda>_ _. Inl 5\<rparr>) (fst demo_started) (snd demo_started) = Some r"
proof -
  let ?Q = "demo_os\<lparr>os_write := \<lambda>_ _. Inl 5\<rparr>"
  have ok: "file_os_ok ?Q" using demo_os_ok by (simp add: file_os_ok_def)
  have st: "log_start ?Q True True True log_writer_init core_init = (True, fst demo_started, snd demo_started)"
    by (simp add: demo_started_def log_start_def log_writer_init_def Let_def)
  have "stops_by ?Q 100" by (simp add: stops_by_def demo_os_def)
  from worker_pass_returns [OF ok lr_start [OF st] this] show ?thesis by blast
qed

section \<open>The rest of the context\<close>

text \<open>No file operation touches what lies outside the shared context.\<close>

lemma charge_outer [simp]: "core_outer (charge_loss n e m c) = core_outer c"
  by (simp add: charge_loss_def del: on_metrics_def)

lemma process_rx_ref_outer:
  assumes "process_rx_ref Q ref w c = Some (w', c')"
  shows "core_outer c' = core_outer c"
proof -
  have "core_outer c1 = core_outer c" if "rx_write_loop Q path data 0 w c = Some (off, w1, c1)" for path data off w1 c1
    using rx_write_loop_spec [OF that] by (simp add: retry_post_def quiet_core_def)
  then show ?thesis using assms by (auto simp: process_rx_ref_def Let_def split: if_splits option.splits)
qed

lemma drain_rx_outer: "drain_rx n Q w c = Some (w', c') \<Longrightarrow> core_outer c' = core_outer c"
  by (induction n arbitrary: w c) (auto split: option.splits dest!: process_rx_ref_outer)

lemma lw_finish_outer: "lw_finish Q j st w c = Some (w', c') \<Longrightarrow> core_outer c' = core_outer c"
  by (auto simp: lw_finish_def Let_def simp del: on_metrics_def split: bind_splits if_splits)

lemma cancel_pending_outer: "cancel_pending n Q w c = Some (w', c') \<Longrightarrow> core_outer c' = core_outer c"
  by (induction n arbitrary: w c) (auto split: option.splits dest!: lw_finish_outer)

lemma run_job_outer:
  assumes "run_job Q j w c = Some (st, off, w', c')"
  shows "core_outer c' = core_outer c"
proof -
  have wa: "core_outer c1 = core_outer c" if "write_all Q path data o' w c = (e, off, w1, c1)"
    for path data o' e off w1 c1 w and c :: "'a core_scheme"
    using write_all_spec [OF that] by (simp add: quiet_core_def)
  have al: "core_outer c1 = core_outer c" if "append_loop Q path data o' b w c = Some (e, off, w1, c1)" for path data o' b e off w1 c1
    using append_loop_spec [OF that] by (simp add: retry_post_def quiet_core_def)
  have at: "core_outer c' = core_outer c" if "process_atomic Q j w c = (st, off, w', c')"
    using that by (auto simp: process_atomic_def Let_def split: option.splits prod.splits if_splits dest!: wa)
  have sa: "core_outer c' = core_outer c" if "process_stream_append Q j w c = (st, off, w', c')"
    using that by (auto simp: process_stream_append_def split: option.splits prod.splits if_splits dest!: wa)
  have cl: "core_outer c' = core_outer c" if "process_close Q w c = Some (st, w', c')"
    using that by (auto simp: process_close_def flush_rx_before_close_def split: option.splits if_splits dest!: drain_rx_outer)
  show ?thesis
    using assms at sa cl al by (auto simp: run_job_def split: job_kind.splits option.splits prod.splits if_splits)
qed

lemma worker_pass_outer:
  assumes "worker_pass Q w c = Some (t, w', c')"
  shows "core_outer c' = core_outer c"
  using assms
  by (auto simp: worker_pass_def cancel_pending_rx_def lw_process_def Let_def split: if_splits option.splits bind_splits
      dest!: cancel_pending_outer drain_rx_outer run_job_outer lw_finish_outer process_rx_ref_outer)

lemma worker_passes_outer: "worker_passes n Q w c = Some (w', c') \<Longrightarrow> core_outer c' = core_outer c"
  by (induction n arbitrary: w c) (auto split: option.splits worker_turn.splits dest!: worker_pass_outer)

lemma submit_sync_outer: "submit_sync Q event_ok n j w c = (st, w', c') \<Longrightarrow> core_outer c' = core_outer c"
  by (auto simp: submit_sync_def split: prod.splits option.splits if_splits dest!: worker_passes_outer)

lemma log_shutdown_outer:
  assumes "log_shutdown Q event_ok waits n w c = Some (w', c')"
  shows "core_outer c' = core_outer c"
proof -
  have "core_outer c1 = core_outer c" if "log_close Q event_ok waits n w c = (st, w1, c1)" for st w1 c1
    using that by (auto simp: log_close_def split: if_splits prod.splits bool.splits dest!: submit_sync_outer)
  then show ?thesis
    using assms by (auto simp: log_shutdown_def Let_def split: if_splits prod.splits dest!: worker_pass_outer)
qed

section \<open>Waiting for the appenders\<close>

text \<open>
  The admission protocol with its atomic steps apart. \<open>pc_read\<close> counts the appenders that have read the
  flag as set and not yet raised the count, \<open>pc_check\<close> those that have raised it and not yet read the
  flag again, \<open>pc_held\<close> those that hold a lease, \<open>pc_back\<close> those that must lower the count again.
  \<open>pc_buffered\<close> says that the closer's store of the flag is still in its processor's store buffer: other
  threads read the old value then. With \<open>sc\<close> the closer reads the count only after its store is
  visible; the release store and acquire load of the code do not order the two.
\<close>

record admission =
  pc_flag :: bool
  pc_count :: nat
  pc_read :: nat
  pc_check :: nat
  pc_held :: nat
  pc_back :: nat
  pc_closing :: bool
  pc_buffered :: bool
  pc_closed :: bool

definition admission_open :: admission where
  "admission_open = \<lparr>pc_flag = True, pc_count = 0, pc_read = 0, pc_check = 0, pc_held = 0, pc_back = 0,
     pc_closing = False, pc_buffered = False, pc_closed = False\<rparr>"

inductive admission_step :: "bool \<Rightarrow> admission \<Rightarrow> admission \<Rightarrow> bool" for sc where
  ad_read: "pc_flag a \<Longrightarrow> admission_step sc a (a\<lparr>pc_read := pc_read a + 1\<rparr>)"
| ad_raise: "0 < pc_read a \<Longrightarrow>
    admission_step sc a (a\<lparr>pc_read := pc_read a - 1, pc_count := pc_count a + 1, pc_check := pc_check a + 1\<rparr>)"
| ad_hold: "\<lbrakk>0 < pc_check a; pc_flag a\<rbrakk> \<Longrightarrow>
    admission_step sc a (a\<lparr>pc_check := pc_check a - 1, pc_held := pc_held a + 1\<rparr>)"
| ad_refuse: "\<lbrakk>0 < pc_check a; \<not> pc_flag a\<rbrakk> \<Longrightarrow>
    admission_step sc a (a\<lparr>pc_check := pc_check a - 1, pc_back := pc_back a + 1\<rparr>)"
| ad_back: "0 < pc_back a \<Longrightarrow> admission_step sc a (a\<lparr>pc_back := pc_back a - 1, pc_count := pc_count a - 1\<rparr>)"
| ad_release: "0 < pc_held a \<Longrightarrow> admission_step sc a (a\<lparr>pc_held := pc_held a - 1, pc_count := pc_count a - 1\<rparr>)"
| ad_store: "\<not> pc_closing a \<Longrightarrow> admission_step sc a (a\<lparr>pc_closing := True, pc_buffered := True\<rparr>)"
| ad_flush: "pc_buffered a \<Longrightarrow> admission_step sc a (a\<lparr>pc_buffered := False, pc_flag := False\<rparr>)"
| ad_close: "\<lbrakk>pc_closing a; sc \<longrightarrow> \<not> pc_buffered a; pc_count a = 0\<rbrakk> \<Longrightarrow> admission_step sc a (a\<lparr>pc_closed := True\<rparr>)"

inductive admission_reach :: "bool \<Rightarrow> admission \<Rightarrow> bool" for sc where
  ar_open: "admission_reach sc admission_open"
| ar_step: "\<lbrakk>admission_reach sc a; admission_step sc a a'\<rbrakk> \<Longrightarrow> admission_reach sc a'"

lemma admission_inv:
  assumes "admission_reach True a"
  shows "pc_count a = pc_check a + pc_held a + pc_back a \<and> (pc_closed a \<longrightarrow> \<not> pc_flag a \<and> \<not> pc_buffered a \<and> pc_held a = 0) \<and>
    (pc_closing a \<longrightarrow> pc_buffered a \<or> \<not> pc_flag a) \<and> (pc_closed a \<longrightarrow> pc_closing a)"
  using assms
proof induction
  case (ar_step a a')
  from ar_step(2) show ?case using ar_step.IH by cases auto
qed (simp add: admission_open_def)

lemma admission_race:
  "admission_reach False (admission_open\<lparr>pc_flag := False, pc_count := 1, pc_held := 1, pc_closing := True, pc_closed := True\<rparr>)"
proof -
  let ?s = "admission_open"
  note go = ar_step [where sc = False]
  have 1: "admission_reach False (?s\<lparr>pc_closing := True, pc_buffered := True\<rparr>)"
    by (rule go [OF ar_open]) (use ad_store [of ?s] in \<open>simp add: admission_open_def\<close>)
  have 2: "admission_reach False (?s\<lparr>pc_closing := True, pc_buffered := True, pc_closed := True\<rparr>)"
    by (rule go [OF 1]) (use ad_close [of "?s\<lparr>pc_closing := True, pc_buffered := True\<rparr>" False] in \<open>simp add: admission_open_def\<close>)
  have 3: "admission_reach False (?s\<lparr>pc_read := 1, pc_closing := True, pc_buffered := True, pc_closed := True\<rparr>)"
    by (rule go [OF 2]) (use ad_read [of "?s\<lparr>pc_closing := True, pc_buffered := True, pc_closed := True\<rparr>"] in \<open>simp add: admission_open_def\<close>)
  have 4: "admission_reach False (?s\<lparr>pc_count := 1, pc_check := 1, pc_closing := True, pc_buffered := True, pc_closed := True\<rparr>)"
    by (rule go [OF 3]) (use ad_raise [of "?s\<lparr>pc_read := 1, pc_closing := True, pc_buffered := True, pc_closed := True\<rparr>"] in \<open>simp add: admission_open_def\<close>)
  have 5: "admission_reach False (?s\<lparr>pc_count := 1, pc_held := 1, pc_closing := True, pc_buffered := True, pc_closed := True\<rparr>)"
    by (rule go [OF 4]) (use ad_hold [of "?s\<lparr>pc_count := 1, pc_check := 1, pc_closing := True, pc_buffered := True, pc_closed := True\<rparr>"] in \<open>simp add: admission_open_def\<close>)
  show ?thesis
    by (rule go [OF 5]) (use ad_flush [of "?s\<lparr>pc_count := 1, pc_held := 1, pc_closing := True, pc_buffered := True, pc_closed := True\<rparr>"] in \<open>simp add: admission_open_def\<close>)
qed



end
