(* ===== verification/Diagnostic.thy ===== *)
theory Diagnostic
  imports Core_Ctx Serial_Reader
begin

text \<open>
  The diagnostic log (\<open>diagnostics/diagnostic.cpp\<close>): the writer thread that renders the records of the
  event framework's logger into lines of a rotated file, and the producer entry. The logger, the file
  stream and the environment are parameters; the file calls that are made form a trace.
\<close>

section \<open>The logger and the file\<close>

datatype log_level = LvDebug | LvInfo | LvWarn | LvError

datatype log_lane = LaneCritical | LaneNormal

record diag_entry =
  de_counter :: u32
  de_event :: u16
  de_source :: u16
  de_args :: "u32 list"

text \<open>The framework's logger, over a state \<open>'l\<close> of its own.\<close>

record 'l diag_logger =
  lg_record :: "log_level \<Rightarrow> u16 \<Rightarrow> u16 \<Rightarrow> u32 list \<Rightarrow> 'l \<Rightarrow> 'l"
  lg_pop :: "log_lane \<Rightarrow> 'l \<Rightarrow> (diag_entry \<times> 'l) option"
  lg_size :: "log_lane \<Rightarrow> 'l \<Rightarrow> nat"
  lg_note_sink_failed :: "'l \<Rightarrow> 'l"

datatype diag_file_op = DfOpen string | DfWrite string | DfClose

text \<open>Whether \<open>fopen\<close> succeeds and how much \<open>fwrite\<close> takes, after the calls so far.\<close>

record diag_files =
  df_open_ok :: "diag_file_op list \<Rightarrow> bool"
  df_taken :: "diag_file_op list \<Rightarrow> string \<Rightarrow> nat"

record 'l diag_impl =
  di_log :: 'l
  di_stop :: bool
  di_started :: bool
  di_open :: bool                  \<comment> \<open>the stream pointer is not null\<close>
  di_file_bytes :: u64
  di_max_bytes :: u64
  di_rotate_count :: u32
  di_path :: string
  di_sink_writes :: u32
  di_qpc_freq :: u64
  di_ops :: "diag_file_op list"

definition kCriticalDrainBatch :: nat where [simp]: "kCriticalDrainBatch = 4"
definition kLineBufferSize :: nat where [simp]: "kLineBufferSize = 256"
definition kDefaultMaxBytes :: u64 where [simp]: "kDefaultMaxBytes = 4 * 1024 * 1024"

definition diag_impl_init :: "'l \<Rightarrow> 'l diag_impl" where
  "diag_impl_init l = \<lparr>di_log = l, di_stop = False, di_started = False, di_open = False, di_file_bytes = 0,
     di_max_bytes = kDefaultMaxBytes, di_rotate_count = 0, di_path = ''xcom_diag.log'', di_sink_writes = 0,
     di_qpc_freq = 0, di_ops = []\<rparr>"

definition diag_fopen :: "diag_files \<Rightarrow> 'l diag_impl \<Rightarrow> 'l diag_impl" where
  "diag_fopen F p = p\<lparr>di_open := df_open_ok F (di_ops p), di_ops := di_ops p @ [DfOpen (di_path p)]\<rparr>"

definition diag_fclose :: "'l diag_impl \<Rightarrow> 'l diag_impl" where
  "diag_fclose p = (if di_open p then p\<lparr>di_open := False, di_ops := di_ops p @ [DfClose]\<rparr> else p)"

definition rotate :: "diag_files \<Rightarrow> 'l diag_impl \<Rightarrow> 'l diag_impl" where
  "rotate F p = diag_fopen F ((diag_fclose p)\<lparr>di_rotate_count := di_rotate_count p + 1, di_file_bytes := 0\<rparr>)"

text \<open>\<open>None\<close> is an \<open>fwrite\<close> on a null stream.\<close>

definition file_sink :: "diag_files \<Rightarrow> string \<Rightarrow> 'l diag_impl \<Rightarrow> (bool \<times> 'l diag_impl) option" where
  "file_sink F line p =
     (if \<not> di_open p then Some (False, p)
      else let len = of_nat (length line);
               p1 = (if di_file_bytes p + len > di_max_bytes p \<and> di_max_bytes p > 0 then rotate F p else p)
           in if \<not> di_open p1 then None
              else let n = df_taken F (di_ops p1) line;
                       p2 = p1\<lparr>di_ops := di_ops p1 @ [DfWrite (take n line)]\<rparr>
                   in if n \<noteq> length line then Some (False, p2)
                      else Some (True, p2\<lparr>di_file_bytes := di_file_bytes p2 + len, di_sink_writes := di_sink_writes p2 + 1\<rparr>))"

section \<open>Rendering\<close>

definition diag_event_name :: "u16 \<Rightarrow> string" where
  "diag_event_name i =
     (if i = diag_event_id DgOpenOk then ''OPEN_OK''
      else if i = diag_event_id DgOpenFail then ''OPEN_FAIL''
      else if i = diag_event_id DgCloseOk then ''CLOSE_OK''
      else if i = diag_event_id DgFault then ''FAULT''
      else if i = diag_event_id DgWriteFail then ''WRITE_FAIL''
      else if i = diag_event_id DgRxDrop then ''RX_DROP''
      else if i = diag_event_id DgTxRejected then ''TX_REJECTED''
      else if i = diag_event_id DgErrPushed then ''ERR_PUSHED''
      else if i = diag_event_id DgDiagTick then ''DIAG_TICK''
      else if i = diag_event_id DgDiagStart then ''DIAG_START''
      else if i = diag_event_id DgDiagRotate then ''DIAG_ROTATE''
      else if i = diag_event_id DgLineError then ''LINE_ERROR''
      else ''UNKNOWN'')"

text \<open>The line, and what fits the line buffer with its terminating null.\<close>

definition diag_line :: "diag_entry \<Rightarrow> string" where
  "diag_line r =
     ''['' @ show_nat (unat (de_counter r)) @ ''] ev='' @ show_nat (unat (de_event r)) @
     '' src='' @ show_nat (unat (de_source r)) @ '' '' @ diag_event_name (de_event r) @
     '' a0='' @ show_nat (unat (de_args r ! 0)) @ '' a1='' @ show_nat (unat (de_args r ! 1)) @
     '' a2='' @ show_nat (unat (de_args r ! 2)) @ '' a3='' @ show_nat (unat (de_args r ! 3)) @ [CHR 0x0A]"

definition emit_line :: "diag_files \<Rightarrow> 'l diag_logger \<Rightarrow> diag_entry \<Rightarrow> 'l diag_impl \<Rightarrow> 'l diag_impl option" where
  "emit_line F L r p =
     map_option (\<lambda>(ok, p1). if ok then p1 else p1\<lparr>di_log := lg_note_sink_failed L (di_log p1)\<rparr>)
       (file_sink F (take (kLineBufferSize - 1) (diag_line r)) p)"

section \<open>The writer thread\<close>

text \<open>Pop one record and write its line: whether there was one, \<open>None\<close> as above.\<close>

definition drain_one ::
  "diag_files \<Rightarrow> 'l diag_logger \<Rightarrow> log_lane \<Rightarrow> 'l diag_impl \<Rightarrow> (bool \<times> 'l diag_impl) option" where
  "drain_one F L lane p =
     (case lg_pop L lane (di_log p) of
        None \<Rightarrow> Some (False, p)
      | Some (r, l) \<Rightarrow> map_option (Pair True) (emit_line F L r (p\<lparr>di_log := l\<rparr>)))"

fun drain_critical ::
  "nat \<Rightarrow> diag_files \<Rightarrow> 'l diag_logger \<Rightarrow> bool \<Rightarrow> 'l diag_impl \<Rightarrow> (bool \<times> 'l diag_impl) option" where
  "drain_critical 0 F L any p = Some (any, p)"
| "drain_critical (Suc n) F L any p =
     (case drain_one F L LaneCritical p of
        None \<Rightarrow> None
      | Some (False, p1) \<Rightarrow> Some (any, p1)
      | Some (True, p1) \<Rightarrow> drain_critical n F L True p1)"

datatype diag_next = DiagAgain | DiagEnd | DiagWait

definition writer_pass ::
  "diag_files \<Rightarrow> 'l diag_logger \<Rightarrow> 'l diag_impl \<Rightarrow> (diag_next \<times> 'l diag_impl) option" where
  "writer_pass F L p =
     (case drain_critical kCriticalDrainBatch F L False p of
        None \<Rightarrow> None
      | Some (any1, p1) \<Rightarrow>
         (case drain_one F L LaneNormal p1 of
            None \<Rightarrow> None
          | Some (any2, p2) \<Rightarrow>
              Some (if di_stop p2 \<and> lg_size L LaneCritical (di_log p2) = 0 \<and> lg_size L LaneNormal (di_log p2) = 0
                    then DiagEnd
                    else if any1 \<or> any2 then DiagAgain
                    else if di_stop p2 then DiagEnd else DiagWait, p2)))"

datatype 'l writer_result = WrEnded "'l diag_impl" | WrAsleep "'l diag_impl" | WrCrashed | WrRunning

text \<open>
  Up to \<open>n\<close> passes of the thread; each element of \<open>wakes\<close> is what the others do until the next wake-up.
\<close>

fun writer_run ::
  "nat \<Rightarrow> diag_files \<Rightarrow> 'l diag_logger \<Rightarrow> ('l diag_impl \<Rightarrow> 'l diag_impl) list \<Rightarrow> 'l diag_impl \<Rightarrow> 'l writer_result" where
  "writer_run 0 F L wakes p = WrRunning"
| "writer_run (Suc n) F L wakes p =
     (case writer_pass F L p of
        None \<Rightarrow> WrCrashed
      | Some (DiagEnd, p1) \<Rightarrow> WrEnded p1
      | Some (DiagAgain, p1) \<Rightarrow> writer_run n F L wakes p1
      | Some (DiagWait, p1) \<Rightarrow> (case wakes of [] \<Rightarrow> WrAsleep p1 | f # fs \<Rightarrow> writer_run n F L fs (f p1)))"

section \<open>The producer\<close>

fun diag_level :: "diag_event \<Rightarrow> log_level" where
  "diag_level DgOpenOk = LvInfo"
| "diag_level DgOpenFail = LvError"
| "diag_level DgCloseOk = LvInfo"
| "diag_level DgFault = LvError"
| "diag_level DgWriteFail = LvError"
| "diag_level DgRxDrop = LvWarn"
| "diag_level DgTxRejected = LvWarn"
| "diag_level DgErrPushed = LvWarn"
| "diag_level DgDiagTick = LvDebug"
| "diag_level DgDiagStart = LvInfo"
| "diag_level DgDiagRotate = LvWarn"
| "diag_level DgLineError = LvWarn"

text \<open>How many of the four arguments the record of an event carries; the others are zero.\<close>

fun diag_arity :: "diag_event \<Rightarrow> nat" where
  "diag_arity DgOpenOk = 2"
| "diag_arity DgOpenFail = 2"
| "diag_arity DgFault = 2"
| "diag_arity DgWriteFail = 2"
| "diag_arity DgDiagTick = 4"
| "diag_arity DgLineError = 4"
| "diag_arity _ = 1"

definition impl_emit :: "'l diag_logger \<Rightarrow> diag_event \<Rightarrow> u16 \<Rightarrow> u32 list \<Rightarrow> 'l diag_impl \<Rightarrow> 'l diag_impl" where
  "impl_emit L ev source args p =
     p\<lparr>di_log := lg_record L (diag_level ev) (diag_event_id ev) source
         (take (diag_arity ev) args @ replicate (4 - diag_arity ev) 0) (di_log p)\<rparr>"

text \<open>
  The owner's handle: the implementation object when one is running, the bound flag, and the file calls
  of the implementations that are gone.
\<close>

record 'l diagnostic =
  dg_impl :: "'l diag_impl option"
  dg_bound :: bool
  dg_ops :: "diag_file_op list"

definition diag_emit :: "'l diag_logger \<Rightarrow> diag_event \<Rightarrow> u16 \<Rightarrow> u32 list \<Rightarrow> 'l diagnostic \<Rightarrow> 'l diagnostic" where
  "diag_emit L ev source args d =
     (case dg_impl d of
        None \<Rightarrow> d
      | Some p \<Rightarrow> if di_started p then d\<lparr>dg_impl := Some (impl_emit L ev source args p)\<rparr> else d)"

section \<open>Starting and stopping\<close>

text \<open>
  \<open>ga_getenv name capacity\<close> is the value and the buffer that \<open>GetEnvironmentVariableA\<close> returns for a
  buffer of that capacity, whose former content is whatever the caller left in it.
\<close>

record 'l diag_answers =
  ga_getenv :: "string \<Rightarrow> nat \<Rightarrow> nat \<times> string"
  ga_slot_free :: bool
  ga_logger :: 'l                   \<comment> \<open>a fresh logger\<close>
  ga_wake_valid :: bool
  ga_qpc_freq :: u64
  ga_bind :: bool
  ga_spawned :: bool

definition diag_disabled :: "(string \<Rightarrow> nat \<Rightarrow> nat \<times> string) \<Rightarrow> bool" where
  "diag_disabled getenv = (case getenv ''XCOM_DIAG_DISABLE'' 1 of (n, buf) \<Rightarrow> n > 0 \<and> take 1 buf = ''1'')"

text \<open>The part of the start that the core sees: a path that does not fit is reported.\<close>

definition diag_note_path :: "(string \<Rightarrow> nat \<Rightarrow> nat \<times> string) \<Rightarrow> 'x core_scheme \<Rightarrow> 'x core_scheme" where
  "diag_note_path getenv c =
     (if fst (getenv ''XCOM_DIAG_LOG'' 512) \<ge> 512
      then push_error XCOM_ERR_PARAM 0 ''XCOM_DIAG_LOG path too long (>=512); using default'' c else c)"

definition bind_logger :: "'l diag_answers \<Rightarrow> 'l diag_impl \<Rightarrow> bool \<times> 'l diag_impl" where
  "bind_logger A p =
     (if \<not> ga_wake_valid A then (False, p) else (ga_bind A, p\<lparr>di_qpc_freq := ga_qpc_freq A\<rparr>))"

text \<open>The core, when one is given, keeps the report of a path that does not fit.\<close>

definition diag_start ::
  "diag_files \<Rightarrow> 'l diag_logger \<Rightarrow> 'l diag_answers \<Rightarrow> ('x core_scheme) option \<Rightarrow> 'l diagnostic \<Rightarrow>
   bool \<times> ('x core_scheme) option \<times> 'l diagnostic" where
  "diag_start F L A core d =
     (if dg_impl d \<noteq> None then (False, core, d)
      else if diag_disabled (ga_getenv A) then (False, core, d\<lparr>dg_bound := False\<rparr>)
      else case ga_getenv A ''XCOM_DIAG_LOG'' 512 of
        (elen, env) \<Rightarrow>
          let core1 = map_option (diag_note_path (ga_getenv A)) core
          in if \<not> ga_slot_free A then (False, core1, d)
             else let p0 = diag_impl_init (ga_logger A);
                      p1 = (if 0 < elen \<and> elen < 512 then p0\<lparr>di_path := copy_text (take elen env) 512\<rparr> else p0);
                      p2 = diag_fopen F p1
                  in case bind_logger A p2 of
                       (False, p3) \<Rightarrow> (False, core1, d\<lparr>dg_ops := dg_ops d @ di_ops (diag_fclose p3)\<rparr>)
                     | (True, p3) \<Rightarrow>
                         let p4 = p3\<lparr>di_stop := False, di_started := True\<rparr>
                         in if \<not> ga_spawned A
                            then (False, core1, d\<lparr>dg_ops := dg_ops d @ di_ops (diag_fclose p4)\<rparr>)
                            else (True, core1, d\<lparr>dg_bound := True,
                                    dg_impl := Some (impl_emit L DgDiagStart 0 [ucast (di_qpc_freq p4), 0, 0, 0] p4)\<rparr>))"

text \<open>The join waits for the thread, given \<open>n\<close> passes; \<open>None\<close> is a thread that crashed or is still running.\<close>

definition diag_shutdown :: "nat \<Rightarrow> diag_files \<Rightarrow> 'l diag_logger \<Rightarrow> 'l diagnostic \<Rightarrow> 'l diagnostic option" where
  "diag_shutdown n F L d =
     (case dg_impl d of
        None \<Rightarrow> Some d
      | Some p \<Rightarrow>
          (case writer_run n F L [] (p\<lparr>di_stop := True\<rparr>) of
             WrEnded p1 \<Rightarrow> Some (d\<lparr>dg_impl := None, dg_bound := False, dg_ops := dg_ops d @ di_ops (diag_fclose p1)\<rparr>)
           | _ \<Rightarrow> None))"

end
