(* ===== verification/Diagnostic_Facts.thy ===== *)
theory Diagnostic_Facts
  imports Diagnostic
begin

text \<open>
  What the diagnostic log delivers: every line fits its buffer, a stop hands every queued record to the
  stream in the order of the two lanes before the file is closed, and what the file then holds, which a
  rotation empties; the only crash is a rotation whose reopen fails, and the switch that turns the log
  off reads a byte that is never written.
\<close>

section \<open>Lines\<close>

lemma unat_u_less: "unat (w :: 'a::len word) < 2 ^ LENGTH('a)"
  by (rule unsigned_less)

lemma show_u32_length: "length (show_nat (unat (x :: u32))) \<le> 10"
  using show_nat_length [of "unat x" 9] unat_u_less [of x] by simp

lemma show_u16_length: "length (show_nat (unat (x :: u16))) \<le> 5"
  using show_nat_length [of "unat x" 4] unat_u_less [of x] by simp

lemma event_name_length: "length (diag_event_name i) \<le> 11"
  by (simp add: diag_event_name_def)

lemma diag_line_length: "length (diag_line r) \<le> 100"
proof -
  have "length (diag_line r) = 29 + length (show_nat (unat (de_counter r))) + length (show_nat (unat (de_event r))) +
      length (show_nat (unat (de_source r))) + length (diag_event_name (de_event r)) +
      length (show_nat (unat (de_args r ! 0))) + length (show_nat (unat (de_args r ! 1))) +
      length (show_nat (unat (de_args r ! 2))) + length (show_nat (unat (de_args r ! 3)))"
    by (simp add: diag_line_def)
  with show_u32_length [of "de_counter r"] show_u16_length [of "de_event r"] show_u16_length [of "de_source r"]
    event_name_length [of "de_event r"] show_u32_length [of "de_args r ! 0"] show_u32_length [of "de_args r ! 1"]
    show_u32_length [of "de_args r ! 2"] show_u32_length [of "de_args r ! 3"]
  show ?thesis by linarith
qed

lemma diag_line_untruncated: "take (kLineBufferSize - 1) (diag_line r) = diag_line r"
  using diag_line_length [of r] by simp

lemmas emit_line_plain = emit_line_def [unfolded diag_line_untruncated]

section \<open>The sink\<close>

text \<open>
  Writing a line is undefined, an \<open>fwrite\<close> on a null stream, exactly when the
  line no longer fits the file and the file cannot be opened again: the sink tests the stream before the
  rotation and not after it. Otherwise the line is written or the failure is noted.
\<close>

theorem diag_sink_crashes_exactly:
  "emit_line F L r p = None \<longleftrightarrow>
     di_open p \<and> 0 < di_max_bytes p \<and> di_max_bytes p < di_file_bytes p + of_nat (length (diag_line r)) \<and>
     \<not> df_open_ok F (di_ops p @ [DfClose])"
  by (auto simp: emit_line_plain file_sink_def rotate_def diag_fopen_def diag_fclose_def Let_def)

section \<open>Stopping\<close>

text \<open>
  What the writer relies on from the logger: each lane is a queue, \<open>q\<close> shows what it holds, and noting a
  failure disturbs neither. The disk is any disk, whose writes may come up short at any time, on which a
  file that was just closed can be opened again: the writer crashes without that, as shown above.
\<close>

definition logger_ok :: "'l diag_logger \<Rightarrow> (log_lane \<Rightarrow> 'l \<Rightarrow> diag_entry list) \<Rightarrow> bool" where
  "logger_ok L q \<longleftrightarrow>
     (\<forall>lane l. case lg_pop L lane l of
          None \<Rightarrow> q lane l = []
        | Some (r, l') \<Rightarrow> q lane l = r # q lane l' \<and> (\<forall>k. k \<noteq> lane \<longrightarrow> q k l' = q k l)) \<and>
     (\<forall>lane l. lg_size L lane l = length (q lane l)) \<and> (\<forall>lane l. q lane (lg_note_sink_failed L l) = q lane l)"

definition reopens :: "diag_files \<Rightarrow> bool" where
  "reopens F \<longleftrightarrow> (\<forall>ops. df_open_ok F (ops @ [DfClose]))"

definition takes_all :: "diag_files \<Rightarrow> bool" where
  "takes_all F \<longleftrightarrow> (\<forall>ops line. df_taken F ops line = length line)"

text \<open>
  What the stream was given over a trace, and what the file holds after it: opening the file truncates
  it, so a rotation throws away everything written before. Neither counts the carriage returns that a
  stream in text mode adds.
\<close>

fun stream_text :: "diag_file_op list \<Rightarrow> string" where
  "stream_text [] = []"
| "stream_text (DfWrite s # ops) = s @ stream_text ops"
| "stream_text (_ # ops) = stream_text ops"

fun file_text :: "string \<Rightarrow> diag_file_op list \<Rightarrow> string" where
  "file_text t [] = t"
| "file_text t (DfOpen path # ops) = file_text [] ops"
| "file_text t (DfWrite s # ops) = file_text (t @ s) ops"
| "file_text t (DfClose # ops) = file_text t ops"

lemma stream_text_append [simp]: "stream_text (a @ b) = stream_text a @ stream_text b"
  by (induction a rule: stream_text.induct) simp_all

lemma file_text_append [simp]: "file_text t (a @ b) = file_text (file_text t a) b"
  by (induction a arbitrary: t rule: stream_text.induct) simp_all

text \<open>The order in which the two lanes are served.\<close>

function diag_order :: "diag_entry list \<Rightarrow> diag_entry list \<Rightarrow> diag_entry list" where
  "diag_order c m = (if c = [] \<and> m = [] then [] else take 4 c @ take 1 m @ diag_order (drop 4 c) (drop 1 m))"
  by pat_completeness auto
termination by (relation "measure (\<lambda>(c, m). length c + length m)") (auto simp: neq_Nil_conv)

declare diag_order.simps [simp del]

lemma diag_order_nil [simp]: "diag_order [] [] = []"
  by (simp add: diag_order.simps)

abbreviation lines_of :: "diag_entry list \<Rightarrow> string" where
  "lines_of rs \<equiv> concat (map diag_line rs)"

text \<open>What one write leaves of a line, and the count that the size bound is tested on.\<close>

definition part_of :: "diag_files \<Rightarrow> diag_entry \<Rightarrow> string \<Rightarrow> bool" where
  "part_of F r s \<longleftrightarrow> (\<exists>ops. s = take (df_taken F ops (diag_line r)) (diag_line r))"

definition size_counted :: "'l diag_impl \<Rightarrow> bool" where
  "size_counted p \<longleftrightarrow> di_max_bytes p = kDefaultMaxBytes \<and> unat (di_file_bytes p) \<le> 4194304"

definition fits_file :: "'l diag_impl \<Rightarrow> nat \<Rightarrow> bool" where
  "fits_file p n \<longleftrightarrow> unat (di_file_bytes p) + n \<le> 4194304"

lemma size_counted_init: "size_counted (diag_impl_init l)"
  by (simp add: size_counted_def diag_impl_init_def)

lemma size_counted_fields [simp]:
  "size_counted (p\<lparr>di_path := x\<rparr>) = size_counted p" "size_counted (diag_fopen F p) = size_counted p"
  "size_counted (p\<lparr>di_qpc_freq := f\<rparr>) = size_counted p" "size_counted (impl_emit L ev source args p) = size_counted p"
  "size_counted (p\<lparr>di_stop := b, di_started := e\<rparr>) = size_counted p"
  by (simp_all add: size_counted_def diag_fopen_def impl_emit_def)

lemma start_counts:
  assumes "diag_start F L A core d = (True, core', d')"
  shows "\<exists>p. dg_impl d' = Some p \<and> size_counted p"
  using assms size_counted_init [of "ga_logger A"]
  by (auto simp: diag_start_def Let_def bind_logger_def split: prod.splits if_splits bool.splits)

lemma part_of_whole: "takes_all F \<Longrightarrow> part_of F r s \<longleftrightarrow> s = diag_line r"
  by (auto simp: part_of_def takes_all_def)

text \<open>
  One state is reached from another by writing \<open>rs\<close>: on a closed stream no file call is made. On an open
  one every record gives its line to the stream, or what the disk takes of it, in order; the file keeps
  what it held and gains all of it, when there is room for the lines, and otherwise may hold the lines
  from some rotation on; and a count that covers the file goes on covering it.
\<close>

definition file_gains :: "string list \<Rightarrow> string \<Rightarrow> string \<Rightarrow> bool" where
  "file_gains parts t t' \<longleftrightarrow> t' = t @ concat parts \<or> (\<exists>k<length parts. t' = concat (drop k parts))"

definition gives_parts :: "diag_files \<Rightarrow> diag_entry list \<Rightarrow> string list \<Rightarrow> 'l diag_impl \<Rightarrow> 'l diag_impl \<Rightarrow> bool" where
  "gives_parts F rs parts p p' \<longleftrightarrow> list_all2 (part_of F) rs parts \<and>
     stream_text (di_ops p') = stream_text (di_ops p) @ concat parts \<and>
     file_gains parts (file_text [] (di_ops p)) (file_text [] (di_ops p')) \<and>
     (fits_file p (length (lines_of rs)) \<longrightarrow>
        file_text [] (di_ops p') = file_text [] (di_ops p) @ concat parts \<and>
        unat (di_file_bytes p') \<le> unat (di_file_bytes p) + length (lines_of rs)) \<and>
     (takes_all F \<and> length (file_text [] (di_ops p)) \<le> unat (di_file_bytes p) \<longrightarrow>
        length (file_text [] (di_ops p')) \<le> unat (di_file_bytes p'))"

definition writes_records :: "diag_files \<Rightarrow> diag_entry list \<Rightarrow> 'l diag_impl \<Rightarrow> 'l diag_impl \<Rightarrow> bool" where
  "writes_records F rs p p' \<longleftrightarrow> di_open p' = di_open p \<and> di_stop p' = di_stop p \<and> size_counted p' \<and>
     (if di_open p then \<exists>parts. gives_parts F rs parts p p' else di_ops p' = di_ops p)"

lemma file_gains_trans:
  assumes "file_gains a t t1" "file_gains b t1 t2"
  shows "file_gains (a @ b) t t2"
  using assms(2) unfolding file_gains_def [of b]
proof
  assume b: "t2 = t1 @ concat b"
  from assms(1) show ?thesis
    unfolding file_gains_def by (auto simp: b) (metis (no_types) add.commute concat_append drop_append
        diff_is_0_eq drop_0 less_imp_le_nat trans_less_add2)
next
  assume "\<exists>k<length b. t2 = concat (drop k b)"
  then obtain k where "k < length b" "t2 = concat (drop k b)" by blast
  then have "length a + k < length (a @ b) \<and> t2 = concat (drop (length a + k) (a @ b))" by simp
  then show ?thesis unfolding file_gains_def by blast
qed

lemma writes_records_nil: "size_counted p \<Longrightarrow> writes_records F [] p p"
  by (auto simp: writes_records_def gives_parts_def file_gains_def)

lemma writes_records_trans:
  assumes "writes_records F rs p p1" "writes_records F rs' p1 p2"
  shows "writes_records F (rs @ rs') p p2"
proof (cases "di_open p")
  case True
  with assms obtain a b where a: "gives_parts F rs a p p1" and b: "gives_parts F rs' b p1 p2"
    by (auto simp: writes_records_def)
  have "gives_parts F (rs @ rs') (a @ b) p p2"
    unfolding gives_parts_def
  proof (intro conjI impI)
    show "list_all2 (part_of F) (rs @ rs') (a @ b)"
      using a b by (auto simp: gives_parts_def intro: list_all2_appendI)
    show "stream_text (di_ops p2) = stream_text (di_ops p) @ concat (a @ b)"
      using a b by (simp add: gives_parts_def)
    show "file_gains (a @ b) (file_text [] (di_ops p)) (file_text [] (di_ops p2))"
      using a b by (auto simp: gives_parts_def intro: file_gains_trans)
    show "length (file_text [] (di_ops p2)) \<le> unat (di_file_bytes p2)"
      if "takes_all F \<and> length (file_text [] (di_ops p)) \<le> unat (di_file_bytes p)"
      using a b that by (simp add: gives_parts_def)
    assume fits: "fits_file p (length (lines_of (rs @ rs')))"
    then have p1: "file_text [] (di_ops p1) = file_text [] (di_ops p) @ concat a"
      "unat (di_file_bytes p1) \<le> unat (di_file_bytes p) + length (lines_of rs)"
      using a by (simp_all add: gives_parts_def fits_file_def)
    moreover have "fits_file p1 (length (lines_of rs'))" using fits p1(2) by (simp add: fits_file_def)
    ultimately show "file_text [] (di_ops p2) = file_text [] (di_ops p) @ concat (a @ b)"
      "unat (di_file_bytes p2) \<le> unat (di_file_bytes p) + length (lines_of (rs @ rs'))"
      using b by (simp_all add: gives_parts_def)
  qed
  with True assms show ?thesis by (auto simp: writes_records_def)
qed (use assms in \<open>auto simp: writes_records_def\<close>)

text \<open>One line.\<close>

lemma count_line: "unat b \<le> 4194304 \<Longrightarrow> n \<le> 100 \<Longrightarrow> unat ((b :: u64) + of_nat n) = unat b + n"
  by (simp add: unat_word_ariths(1) unat_of_nat)

lemma emit_line_writes:
  assumes "logger_ok L q" "reopens F" "size_counted p"
  shows "\<exists>p'. emit_line F L r p = Some p' \<and> (\<forall>k. q k (di_log p') = q k (di_log p)) \<and> writes_records F [r] p p'"
proof (cases "di_open p")
  case False
  then show ?thesis
    using assms by (simp add: emit_line_plain file_sink_def logger_ok_def writes_records_def size_counted_def)
next
  case True
  let ?n = "length (diag_line r)"
  define big where "big \<longleftrightarrow> di_file_bytes p + of_nat ?n > di_max_bytes p \<and> di_max_bytes p > 0"
  define p1 where "p1 = (if big then rotate F p else p)"
  define s where "s = take (df_taken F (di_ops p1) (diag_line r)) (diag_line r)"
  have n: "?n \<le> 100" by (rule diag_line_length)
  have b: "unat (di_file_bytes p) \<le> 4194304" using assms(3) by (simp add: size_counted_def)
  have big: "big \<longleftrightarrow> 4194304 < unat (di_file_bytes p) + ?n"
    using assms(3) count_line [OF b n] by (simp add: big_def size_counted_def word_less_nat_alt)
  have p1: "di_open p1" "di_stop p1 = di_stop p" "di_log p1 = di_log p" "di_max_bytes p1 = di_max_bytes p"
    "di_ops p1 = di_ops p @ (if big then [DfClose, DfOpen (di_path p)] else [])"
    "di_file_bytes p1 = (if big then 0 else di_file_bytes p)"
    using True assms(2) by (simp_all add: p1_def rotate_def diag_fopen_def diag_fclose_def reopens_def)
  have b1: "unat (di_file_bytes p1) \<le> 4194304" "unat (di_file_bytes p1) + ?n \<le> 4194304"
    using p1(6) b big n by auto
  have part: "part_of F r s" unfolding part_of_def s_def by blast
  have s: "takes_all F \<Longrightarrow> length s = ?n" by (simp add: s_def takes_all_def)
  let ?p2 = "p1\<lparr>di_ops := di_ops p1 @ [DfWrite s]\<rparr>"
  let ?p3 = "?p2\<lparr>di_file_bytes := di_file_bytes ?p2 + of_nat ?n, di_sink_writes := di_sink_writes ?p2 + 1\<rparr>"
  have sink: "file_sink F (diag_line r) p =
      (if df_taken F (di_ops p1) (diag_line r) \<noteq> ?n then Some (False, ?p2) else Some (True, ?p3))"
    using True p1(1) by (simp add: file_sink_def Let_def s_def flip: big_def p1_def)
  have gives: "gives_parts F [r] [s] p p'"
    if "di_ops p' = di_ops ?p2" "unat (di_file_bytes p') \<le> unat (di_file_bytes p1) + ?n"
      "takes_all F \<Longrightarrow> unat (di_file_bytes p') = unat (di_file_bytes p1) + ?n" for p' :: "'a diag_impl"
    using that p1(5,6) part s big by (auto simp: gives_parts_def file_gains_def fits_file_def)
  show ?thesis
  proof (cases "df_taken F (di_ops p1) (diag_line r) = ?n")
    case whole: True
    have "unat (di_file_bytes ?p3) = unat (di_file_bytes p1) + ?n" using count_line [OF b1(1) n] by simp
    with gives [of ?p3] b1 p1 True assms(3) have "writes_records F [r] p ?p3"
      by (auto simp: writes_records_def size_counted_def)
    then show ?thesis using sink whole p1(3) by (simp add: emit_line_plain)
  next
    case short: False
    then have "\<not> takes_all F" by (auto simp: takes_all_def)
    with gives [of "?p2\<lparr>di_log := lg_note_sink_failed L (di_log ?p2)\<rparr>"] b1 p1 True assms(3)
    have "writes_records F [r] p (?p2\<lparr>di_log := lg_note_sink_failed L (di_log ?p2)\<rparr>)"
      by (auto simp: writes_records_def size_counted_def)
    then show ?thesis using sink short p1(3) assms(1) by (simp add: emit_line_plain logger_ok_def)
  qed
qed

lemma drain_one_nil:
  assumes "logger_ok L q" "q lane (di_log p) = []"
  shows "drain_one F L lane p = Some (False, p)"
  using assms by (auto simp: drain_one_def logger_ok_def split: option.splits)

text \<open>Writing \<open>rs\<close> leaves the lanes \<open>c\<close> and \<open>m\<close>.\<close>

definition diag_wrote ::
  "(log_lane \<Rightarrow> 'l \<Rightarrow> diag_entry list) \<Rightarrow> diag_files \<Rightarrow> diag_entry list \<Rightarrow> diag_entry list \<Rightarrow> diag_entry list \<Rightarrow>
   'l diag_impl \<Rightarrow> 'l diag_impl \<Rightarrow> bool" where
  "diag_wrote q F rs c m p p' \<longleftrightarrow> q LaneCritical (di_log p') = c \<and> q LaneNormal (di_log p') = m \<and> writes_records F rs p p'"

lemma diag_wrote_trans:
  "diag_wrote q F rs c m p p1 \<Longrightarrow> diag_wrote q F rs' c' m' p1 p2 \<Longrightarrow> diag_wrote q F (rs @ rs') c' m' p p2"
  unfolding diag_wrote_def using writes_records_trans by blast

lemma diag_wrote_counted: "diag_wrote q F rs c m p p' \<Longrightarrow> size_counted p' \<and> di_stop p' = di_stop p"
  by (simp add: diag_wrote_def writes_records_def)

lemma drain_one_writes:
  assumes "logger_ok L q" "reopens F" "size_counted p" "q lane (di_log p) = r # rs"
  obtains p' where "drain_one F L lane p = Some (True, p')" "q lane (di_log p') = rs"
    "\<And>k. k \<noteq> lane \<Longrightarrow> q k (di_log p') = q k (di_log p)" "writes_records F [r] p p'"
proof -
  have law: "case lg_pop L lane (di_log p) of None \<Rightarrow> q lane (di_log p) = []
      | Some (r, l') \<Rightarrow> q lane (di_log p) = r # q lane l' \<and> (\<forall>k. k \<noteq> lane \<longrightarrow> q k l' = q k (di_log p))"
    using assms(1) by (simp only: logger_ok_def)
  then obtain l where l: "lg_pop L lane (di_log p) = Some (r, l)" "q lane l = rs" "\<forall>k. k \<noteq> lane \<longrightarrow> q k l = q k (di_log p)"
    using assms(4) by (cases "lg_pop L lane (di_log p)") auto
  have "size_counted (p\<lparr>di_log := l\<rparr>)" using assms(3) by (simp add: size_counted_def)
  from emit_line_writes [OF assms(1,2) this, of r] obtain p' where
    p': "emit_line F L r (p\<lparr>di_log := l\<rparr>) = Some p'" "\<forall>k. q k (di_log p') = q k l" "writes_records F [r] (p\<lparr>di_log := l\<rparr>) p'"
    by auto
  have "writes_records F [r] p p'" using p'(3) by (auto simp: writes_records_def gives_parts_def fits_file_def)
  with that show thesis using p' l by (simp add: drain_one_def)
qed

lemma drain_critical_writes:
  assumes "logger_ok L q" "reopens F"
  shows "size_counted p \<Longrightarrow> \<exists>p'. drain_critical n F L any p = Some (any \<or> n > 0 \<and> q LaneCritical (di_log p) \<noteq> [], p') \<and>
    diag_wrote q F (take n (q LaneCritical (di_log p))) (drop n (q LaneCritical (di_log p))) (q LaneNormal (di_log p)) p p'"
proof (induction n arbitrary: any p)
  case 0
  then show ?case by (simp add: diag_wrote_def writes_records_nil)
next
  case (Suc n)
  show ?case
  proof (cases "q LaneCritical (di_log p)")
    case Nil
    then show ?thesis using Suc.prems by (simp add: drain_one_nil [OF assms(1)] diag_wrote_def writes_records_nil)
  next
    case (Cons r rs)
    from drain_one_writes [OF assms Suc.prems Cons] obtain p1 where p1: "drain_one F L LaneCritical p = Some (True, p1)"
      "q LaneCritical (di_log p1) = rs" "q LaneNormal (di_log p1) = q LaneNormal (di_log p)" "writes_records F [r] p p1"
      by (metis log_lane.distinct(1))
    then have "diag_wrote q F [r] rs (q LaneNormal (di_log p)) p p1" by (simp add: diag_wrote_def)
    moreover from this Suc.IH [of p1 True] obtain p2 where "drain_critical n F L True p1 = Some (True, p2)"
      "diag_wrote q F (take n rs) (drop n rs) (q LaneNormal (di_log p)) p1 p2"
      using diag_wrote_counted p1(2,3) by fastforce
    ultimately show ?thesis using p1(1) Cons by (auto dest: diag_wrote_trans)
  qed
qed

lemma drain_normal_writes:
  assumes "logger_ok L q" "reopens F" "size_counted p"
  shows "\<exists>p'. drain_one F L LaneNormal p = Some (q LaneNormal (di_log p) \<noteq> [], p') \<and>
    diag_wrote q F (take 1 (q LaneNormal (di_log p))) (q LaneCritical (di_log p)) (drop 1 (q LaneNormal (di_log p))) p p'"
proof (cases "q LaneNormal (di_log p)")
  case Nil
  then show ?thesis using assms by (simp add: drain_one_nil [OF assms(1)] diag_wrote_def writes_records_nil)
next
  case (Cons r rs)
  from drain_one_writes [OF assms Cons] show ?thesis
    using Cons by (simp add: diag_wrote_def) (metis log_lane.distinct(1))
qed

lemma writer_pass_stopping:
  assumes "logger_ok L q" "reopens F" "size_counted p" "di_stop p"
  defines "c \<equiv> q LaneCritical (di_log p)" and "m \<equiv> q LaneNormal (di_log p)"
  shows "\<exists>p'. writer_pass F L p = Some (if drop 4 c = [] \<and> drop 1 m = [] then DiagEnd else DiagAgain, p') \<and>
    diag_wrote q F (take 4 c @ take 1 m) (drop 4 c) (drop 1 m) p p'"
proof -
  from drain_critical_writes [OF assms(1-3), of 4 False] obtain p1 where
    p1: "drain_critical 4 F L False p = Some (c \<noteq> [], p1)" "diag_wrote q F (take 4 c) (drop 4 c) m p p1"
    by (auto simp: c_def m_def)
  from drain_normal_writes [OF assms(1,2), of p1] diag_wrote_counted [OF p1(2)] obtain p2 where
    p2: "drain_one F L LaneNormal p1 = Some (m \<noteq> [], p2)" "diag_wrote q F (take 1 m) (drop 4 c) (drop 1 m) p1 p2"
    using p1(2) by (auto simp: diag_wrote_def)
  have w: "diag_wrote q F (take 4 c @ take 1 m) (drop 4 c) (drop 1 m) p p2" by (rule diag_wrote_trans [OF p1(2) p2(2)])
  have "lg_size L LaneCritical (di_log p2) = length (drop 4 c)" "lg_size L LaneNormal (di_log p2) = length (drop 1 m)"
    using assms(1) w by (simp_all add: logger_ok_def diag_wrote_def)
  moreover have "di_stop p2" using diag_wrote_counted [OF w] assms(4) by simp
  ultimately show ?thesis
    using p1(1) p2(1) w by (auto simp: writer_pass_def simp del: length_drop)
qed

lemma writer_run_stopping:
  assumes "logger_ok L q" "reopens F"
  shows "\<lbrakk>size_counted p; di_stop p; length (q LaneCritical (di_log p)) + length (q LaneNormal (di_log p)) < n\<rbrakk> \<Longrightarrow>
    \<exists>p'. writer_run n F L wakes p = WrEnded p' \<and>
      diag_wrote q F (diag_order (q LaneCritical (di_log p)) (q LaneNormal (di_log p))) [] [] p p'"
proof (induction n arbitrary: p)
  case 0
  then show ?case by simp
next
  case (Suc n)
  let ?c = "q LaneCritical (di_log p)" and ?m = "q LaneNormal (di_log p)"
  from writer_pass_stopping [OF assms Suc.prems(1,2)] obtain p1 where
    p1: "writer_pass F L p = Some (if drop 4 ?c = [] \<and> drop 1 ?m = [] then DiagEnd else DiagAgain, p1)"
      "diag_wrote q F (take 4 ?c @ take 1 ?m) (drop 4 ?c) (drop 1 ?m) p p1" by blast
  show ?case
  proof (cases "drop 4 ?c = [] \<and> drop 1 ?m = []")
    case True
    have "diag_order ?c ?m = take 4 ?c @ take 1 ?m" using True by (subst diag_order.simps) auto
    then show ?thesis using p1 True by auto
  next
    case False
    then have ne: "\<not> (?c = [] \<and> ?m = [])" by auto
    have "length (drop 4 ?c) + length (drop 1 ?m) < n" using Suc.prems(3) ne by (auto simp: neq_Nil_conv)
    with Suc.IH [of p1] p1(2) Suc.prems(2) diag_wrote_counted [OF p1(2)] obtain p2 where
      "writer_run n F L wakes p1 = WrEnded p2" "diag_wrote q F (diag_order (drop 4 ?c) (drop 1 ?m)) [] [] p1 p2"
      by (auto simp: diag_wrote_def)
    moreover have "diag_order ?c ?m = (take 4 ?c @ take 1 ?m) @ diag_order (drop 4 ?c) (drop 1 ?m)"
      using ne by (subst diag_order.simps) simp
    ultimately show ?thesis using p1 False by (auto dest: diag_wrote_trans)
  qed
qed

text \<open>
  C38 (diag_shutdown_writes_everything). Stopping the log ends the writer thread and drops the logger, after every
  queued record was taken, four critical ones for each normal one while both lanes last. With no file
  open they are dropped without a file call. With one open each record gives the stream its line, or what
  the disk takes of it, in that order, and the file is closed last; the file then holds what it held and
  all of these lines, when there was room for them below its bound, and otherwise possibly only those
  since the last rotation, which empties the same file, the last record's always among them; on a disk
  that takes every write it is within four megabytes, if it was. The disk may refuse any write, but it has to reopen
  the file after a rotation closed it: the writer crashes otherwise (\<open>diag_sink_crashes_exactly\<close>).
\<close>

theorem diag_shutdown_writes_everything:
  assumes "logger_ok L q" "reopens F" "dg_impl d = Some p" "size_counted p"
    "length (q LaneCritical (di_log p)) + length (q LaneNormal (di_log p)) < n"
  defines "rs \<equiv> diag_order (q LaneCritical (di_log p)) (q LaneNormal (di_log p))"
  shows "\<exists>d' ops. diag_shutdown n F L d = Some d' \<and> dg_impl d' = None \<and> \<not> dg_bound d' \<and> dg_ops d' = dg_ops d @ ops \<and>
    (\<not> di_open p \<longrightarrow> ops = di_ops p) \<and>
    (di_open p \<longrightarrow> last ops = DfClose \<and>
      (\<exists>parts. list_all2 (part_of F) rs parts \<and> stream_text ops = stream_text (di_ops p) @ concat parts \<and>
        (file_text [] ops = file_text [] (di_ops p) @ concat parts \<or>
         \<not> fits_file p (length (lines_of rs)) \<and> (\<exists>k<length parts. file_text [] ops = concat (drop k parts)))) \<and>
      (takes_all F \<and> length (file_text [] (di_ops p)) \<le> unat (di_file_bytes p) \<longrightarrow> length (file_text [] ops) \<le> 4194304))"
proof -
  let ?p = "p\<lparr>di_stop := True\<rparr>"
  have "size_counted ?p" using assms(4) by (simp add: size_counted_def)
  from writer_run_stopping [OF assms(1,2) this, of n "[]"] assms(5) obtain p1 where
    run: "writer_run n F L [] ?p = WrEnded p1" and w: "writes_records F rs ?p p1"
    by (auto simp: rs_def diag_wrote_def)
  show ?thesis
  proof (cases "di_open p")
    case False
    then show ?thesis using run w assms(3) by (simp add: diag_shutdown_def diag_fclose_def writes_records_def)
  next
    case True
    with w obtain parts where parts: "gives_parts F rs parts ?p p1" "di_open p1" "size_counted p1"
      by (auto simp: writes_records_def)
    then show ?thesis using run True assms(3)
      by (auto simp: diag_shutdown_def diag_fclose_def gives_parts_def file_gains_def fits_file_def size_counted_def
          intro!: exI [of _ parts])
  qed
qed

text \<open>A logger whose lanes are two lists.\<close>

definition list_logger :: "(diag_entry list \<times> diag_entry list) diag_logger" where
  "list_logger = \<lparr>lg_record = (\<lambda>level ev source args l.
       let e = \<lparr>de_counter = 0, de_event = ev, de_source = source, de_args = args\<rparr>
       in if level = LvError then (fst l @ [e], snd l) else (fst l, snd l @ [e])),
     lg_pop = (\<lambda>lane l. case lane of
         LaneCritical \<Rightarrow> (case fst l of [] \<Rightarrow> None | r # rs \<Rightarrow> Some (r, (rs, snd l)))
       | LaneNormal \<Rightarrow> (case snd l of [] \<Rightarrow> None | r # rs \<Rightarrow> Some (r, (fst l, rs)))),
     lg_size = (\<lambda>lane l. case lane of LaneCritical \<Rightarrow> length (fst l) | LaneNormal \<Rightarrow> length (snd l)),
     lg_note_sink_failed = (\<lambda>l. l)\<rparr>"

definition list_lanes :: "log_lane \<Rightarrow> diag_entry list \<times> diag_entry list \<Rightarrow> diag_entry list" where
  "list_lanes lane l = (case lane of LaneCritical \<Rightarrow> fst l | LaneNormal \<Rightarrow> snd l)"

lemma list_logger_ok: "logger_ok list_logger list_lanes"
  unfolding logger_ok_def list_logger_def list_lanes_def
  by (auto split: log_lane.split list.split option.split)

definition good_disk :: diag_files where
  "good_disk = \<lparr>df_open_ok = (\<lambda>_. True), df_taken = (\<lambda>_. length)\<rparr>"

theorem diag_shutdown_writes_everything_witness:
  "\<exists>d'. diag_shutdown 3 good_disk list_logger \<lparr>dg_impl = Some ((diag_impl_init
       ([\<lparr>de_counter = 7, de_event = 4, de_source = 0, de_args = [1, 2, 0, 0]\<rparr>],
        [\<lparr>de_counter = 6, de_event = 1, de_source = 0, de_args = [9, 2, 0, 0]\<rparr>]))
         \<lparr>di_open := True, di_file_bytes := 3, di_ops := [DfOpen ''xcom_diag.log'', DfWrite ''old'']\<rparr>),
     dg_bound = True, dg_ops = []\<rparr> = Some d' \<and>
     file_text [] (dg_ops d') = ''old[7] ev=4 src=0 FAULT a0=1 a1=2 a2=0 a3=0'' @ [CHR 0x0A] @
       ''[6] ev=1 src=0 OPEN_OK a0=9 a1=2 a2=0 a3=0'' @ [CHR 0x0A]"
proof -
  let ?c = "\<lparr>de_counter = 7, de_event = 4, de_source = 0, de_args = [1, 2, 0, 0]\<rparr>"
  let ?m = "\<lparr>de_counter = 6, de_event = 1, de_source = 0, de_args = [9, 2, 0, 0]\<rparr>"
  let ?p = "(diag_impl_init ([?c], [?m]))\<lparr>di_open := True, di_file_bytes := 3,
    di_ops := [DfOpen ''xcom_diag.log'', DfWrite ''old'']\<rparr>"
  have ok: "reopens good_disk" "takes_all good_disk" by (simp_all add: reopens_def takes_all_def good_disk_def)
  have "size_counted ?p" "length (list_lanes LaneCritical (di_log ?p)) + length (list_lanes LaneNormal (di_log ?p)) < 3"
    by (simp_all add: diag_impl_init_def list_lanes_def size_counted_def)
  moreover have rs: "diag_order (list_lanes LaneCritical (di_log ?p)) (list_lanes LaneNormal (di_log ?p)) = [?c, ?m]"
    by (simp add: diag_impl_init_def list_lanes_def diag_order.simps)
  moreover have "fits_file ?p (length (lines_of [?c, ?m]))"
    using diag_line_length [of ?c] diag_line_length [of ?m] by (simp add: fits_file_def)
  moreover have "list_all2 (part_of good_disk) [?c, ?m] parts \<longleftrightarrow> parts = [diag_line ?c, diag_line ?m]" for parts
    using ok(2) by (auto simp: list_all2_Cons1 part_of_whole)
  ultimately show ?thesis
    using diag_shutdown_writes_everything [OF list_logger_ok ok(1), of "\<lparr>dg_impl = Some ?p, dg_bound = True, dg_ops = []\<rparr>" ?p 3]
    by (auto simp: diag_line_def diag_event_name_def show_nat.simps digit_char_def)
qed

section \<open>Turning the log off\<close>

text \<open>
  \<open>GetEnvironmentVariableA\<close> as documented: the length of a value that fits the buffer with its null, the
  needed capacity and an untouched buffer otherwise, and zero for a variable that is not set.
\<close>

definition getenv_documented :: "(string \<Rightarrow> nat \<Rightarrow> nat \<times> string) \<Rightarrow> (string \<Rightarrow> string option) \<Rightarrow> string \<Rightarrow> bool" where
  "getenv_documented getenv env buf \<longleftrightarrow>
     (\<forall>name capacity. getenv name capacity =
        (case env name of None \<Rightarrow> (0, buf)
         | Some v \<Rightarrow> if length v < capacity then (length v, v) else (length v + 1, buf)))"

text \<open>
  The switch asks for the value in a one-byte buffer, which holds the null of an
  empty value and nothing else: a value that is set never arrives, and whether the log is off depends on
  the byte that was on the stack, not on the value.
\<close>

theorem diag_disable_reads_garbage:
  assumes "getenv_documented getenv env buf"
  shows "diag_disabled getenv \<longleftrightarrow> take 1 buf = ''1'' \<and> env ''XCOM_DIAG_DISABLE'' \<notin> {None, Some []}"
  using assms by (auto simp: diag_disabled_def getenv_documented_def split: option.splits)

theorem diag_disable_reads_garbage_witness:
  "\<not> diag_disabled (\<lambda>name capacity. if name = ''XCOM_DIAG_DISABLE''
      then if 1 < capacity then (1, ''1'') else (2, ''x'') else (0, ''x''))"
proof -
  have "getenv_documented (\<lambda>name capacity. if name = ''XCOM_DIAG_DISABLE''
      then if 1 < capacity then (1, ''1'') else (2, ''x'') else (0, ''x''))
    (\<lambda>name. if name = ''XCOM_DIAG_DISABLE'' then Some ''1'' else None) ''x''"
    by (simp add: getenv_documented_def)
  from diag_disable_reads_garbage [OF this] show ?thesis by simp
qed

end
