(* ===== verification/Runtime.thy ===== *)
theory Runtime
  imports Session_Lifecycle Log_Protocol Diagnostic
begin

text \<open>
  Boot, shutdown and supervision of the core (\<open>runtime/xcom_core.cpp\<close>): the start-up sequence, the teardown
  order, the Dispatcher's park stamps, the liveness reports of the status poll, and the two static slots
  that hold the one session and its handle. \<open>None\<close> is a shutdown that does not return.
\<close>

section \<open>The Dispatcher's wait\<close>

definition on_beats :: "(thread_heartbeats \<Rightarrow> thread_heartbeats) \<Rightarrow> 'x core_scheme \<Rightarrow> 'x core_scheme" where
  [simp]: "on_beats f c = c\<lparr>c_heartbeats := f (c_heartbeats c)\<rparr>"

text \<open>The stamps around one wait; \<open>others\<close> is what happens while the Dispatcher is parked.\<close>

definition wait_dispatcher :: "u32 \<Rightarrow> ('x core_scheme \<Rightarrow> 'x core_scheme) \<Rightarrow> u32 \<Rightarrow> 'x core_scheme \<Rightarrow> 'x core_scheme" where
  "wait_dispatcher before others after c =
     (let c1 = on_beats (\<lambda>h. h\<lparr>hb_dispatcher_parked_since_ms := before\<rparr>) c;
          c2 = on_beats (\<lambda>h. h\<lparr>hb_dispatcher_parked := True\<rparr>) c1;
          c3 = others c2;
          c4 = on_beats (\<lambda>h. h\<lparr>hb_dispatcher_ms := after\<rparr>) c3;
          c5 = on_beats (\<lambda>h. h\<lparr>hb_dispatcher_parked := False\<rparr>) c4
      in on_beats (\<lambda>h. h\<lparr>hb_dispatcher_parked_since_ms := 0\<rparr>) c5)"

section \<open>Boot\<close>

text \<open>What the coact calls of the start-up answer, in order, and the environment the diagnostic log reads.\<close>

record boot_answers =
  ba_binds :: "bool list"
  ba_rx_pool :: bool
  ba_getenv :: "string \<Rightarrow> nat \<Rightarrow> nat \<times> string"
  ba_control_pool :: bool
  ba_initialize :: bool
  ba_start :: bool

definition core_init_call :: "core_state \<Rightarrow> core_state" where
  "core_init_call s = snd (sync_port_name None (s\<lparr>c_tx := tx_pool_init\<rparr>))"

definition diag_start_effect :: "(string \<Rightarrow> nat \<Rightarrow> nat \<times> string) \<Rightarrow> core_state \<Rightarrow> core_state" where
  "diag_start_effect getenv s = (if diag_disabled getenv then s else diag_note_path getenv s)"

definition boot :: "boot_answers \<Rightarrow> core_state \<Rightarrow> bool \<times> core_state" where
  "boot A s =
     (if \<not> list_all id (take 5 (ba_binds A)) then (False, s)
      else let s1 = core_init_call s
           in if \<not> ba_rx_pool A then (False, s1)
              else let s2 = diag_start_effect (ba_getenv A) (s1\<lparr>c_rx := rx_lane_init\<rparr>)
                   in if \<not> ba_control_pool A \<or> \<not> ba_initialize A \<or> \<not> ba_start A then (False, s2)
                      else (True, (on_beats (\<lambda>h. h\<lparr>hb_dispatcher_running := True\<rparr>) s2)\<lparr>k_started := True\<rparr>))"

section \<open>Shutdown\<close>

definition stop_dispatcher :: "core_state \<Rightarrow> core_state" where
  "stop_dispatcher s =
     (if k_started s then (on_beats (\<lambda>h. h\<lparr>hb_dispatcher_running := False\<rparr>) s)\<lparr>k_posted := [], k_started := False\<rparr> else s)"

definition drop_autosend_template :: "core_state \<Rightarrow> core_state" where
  "drop_autosend_template s =
     (if sx_autosend_block (k_send s) = no_block then s
      else case core_tx_release (sx_autosend_block (k_send s)) s of
          None \<Rightarrow> s\<lparr>k_aborted := True\<rparr>
        | Some s1 \<Rightarrow> s1\<lparr>k_send := send_ctx_init\<rparr>)"

text \<open>The two teardown drains; only the raw one is charged.\<close>

definition drain_lanes :: "platform \<Rightarrow> core_state \<Rightarrow> core_state" where
  "drain_lanes P s =
     (case rx_drain_raw (pf_rx P) (c_rx s) of
        (stranded, l) \<Rightarrow>
          let s1 = s\<lparr>c_rx := l\<rparr>;
              s2 = (if stranded \<noteq> 0
                    then push_error XCOM_ERR_IO 0 ''raw RX blocks stranded at shutdown (counted as loss)''
                           (on_metrics (\<lambda>m. m\<lparr>m_save_rejected_bytes := m_save_rejected_bytes m + stranded\<rparr>) s1)
                    else s1)
          in s2\<lparr>c_rx := snd (rx_drain_display (pf_rx P) (c_rx s2))\<rparr>)"

definition shutdown :: "platform \<Rightarrow> core_state \<Rightarrow> core_state option" where
  "shutdown P s =
     (let s1 = autosend_set_impl P 0 s;
          s2 = stop_dispatcher (s1\<lparr>k_timer := timer_stop (k_timer s1)\<rparr>);
          s3 = release_deferred P (drop_autosend_template s2);
          s4 = (stop_session_writer s3)\<lparr>c_callback_admission := False\<rparr>;
          s5 = other_steps P (pf_during_close P s4) s4;
          s6 = s5\<lparr>k_backend := backend_close (k_backend s5)\<rparr>;
          A = pf_log P s6
      in map_option (\<lambda>(w, s7). drain_lanes P (s7\<lparr>k_log := w\<rparr>))
           (log_shutdown (pf_files P) (la_event_ok A) (la_waits A) (la_passes A) (k_log s6) s6))"

section \<open>The liveness reports\<close>

definition report_thread_health ::
  "u32 \<Rightarrow> string \<Rightarrow> liveness_state \<Rightarrow> u32 \<Rightarrow> u32 \<Rightarrow> bool \<Rightarrow> bool \<Rightarrow> 'x core_scheme \<Rightarrow> liveness_state \<times> 'x core_scheme" where
  "report_thread_health now name st beat timeout_ms running parked c =
     (case liveness_evaluate (st\<lparr>lv_last_beat_ms := beat\<rparr>) now timeout_ms running parked of
        (r, st') \<Rightarrow>
          (st', case lr_edge r of
             EdgeFault \<Rightarrow> push_error XCOM_ERR_TIMEOUT 0
               (take 255 (''thread stalled: '' @ name @ '' no beat for '' @ show_nat (unat (lr_elapsed_ms r)) @
                  '' ms (reported, not killed)'')) c
           | EdgeRecovery \<Rightarrow> push_error XCOM_OK 0 (take 255 (''thread recovered: '' @ name @ '' beating again'')) c
           | EdgeNone \<Rightarrow> c))"

definition report_dispatcher_park :: "u32 \<Rightarrow> u32 \<Rightarrow> bool \<Rightarrow> 'x core_scheme \<Rightarrow> 'x core_scheme" where
  "report_dispatcher_park now since running c =
     (case liveness_evaluate_park (hb_dispatcher_park_state (c_heartbeats c)) now since kDispatcherParkedInfoMs running of
        (r, st') \<Rightarrow>
          let c1 = on_beats (\<lambda>h. h\<lparr>hb_dispatcher_park_state := st'\<rparr>) c
          in case lr_edge r of
               EdgeFault \<Rightarrow> push_error XCOM_OK 0
                 (take 255 (''dispatcher parked '' @ show_nat (unat (lr_elapsed_ms r)) @
                    '' ms: idle (healthy) or lost wakeup - this signal cannot distinguish'')) c1
             | EdgeRecovery \<Rightarrow> push_error XCOM_OK 0 ''dispatcher left a long parked wait'' c1
             | EdgeNone \<Rightarrow> c1)"

text \<open>\<open>clk\<close> gives the four clock readings of the four reports.\<close>

definition check_serial_read :: "u32 \<Rightarrow> 'x core_scheme \<Rightarrow> 'x core_scheme" where
  "check_serial_read now c =
     (let h = c_heartbeats c; active = (c_port_state c = PORT_OPEN \<and> \<not> c_virtual_port c)
      in case report_thread_health now ''serial read'' (hb_serial_read_state h) (hb_serial_read_ms h)
                kSerialReadBeatTimeoutMs True (\<not> active) c of
           (st, c1) \<Rightarrow> on_beats (\<lambda>h. h\<lparr>hb_serial_read_state := st\<rparr>) c1)"

definition dispatcher_transitioning :: "'x core_scheme \<Rightarrow> bool" where
  "dispatcher_transitioning c \<longleftrightarrow> c_port_state c \<in> {PORT_OPENING, PORT_CLOSING, PORT_FAULT}"

definition check_dispatcher :: "u32 \<Rightarrow> 'x core_scheme \<Rightarrow> 'x core_scheme" where
  "check_dispatcher now c =
     (let h = c_heartbeats c; running = hb_dispatcher_running h;
          parked = (running \<and> (dispatcher_transitioning c \<or> hb_dispatcher_parked h))
      in case report_thread_health now ''dispatcher'' (hb_dispatcher_state h) (hb_dispatcher_ms h)
                kDispatcherBeatTimeoutMs running parked c of
           (st, c1) \<Rightarrow> on_beats (\<lambda>h. h\<lparr>hb_dispatcher_state := st\<rparr>) c1)"

definition check_park :: "u32 \<Rightarrow> 'x core_scheme \<Rightarrow> 'x core_scheme" where
  "check_park now c =
     (let h = c_heartbeats c
      in report_dispatcher_park now (if hb_dispatcher_parked h then hb_dispatcher_parked_since_ms h else 0)
           (hb_dispatcher_running h) c)"

definition check_log_writer :: "u32 \<Rightarrow> 'x core_scheme \<Rightarrow> 'x core_scheme" where
  "check_log_writer now c =
     (let h = c_heartbeats c
      in case report_thread_health now ''log writer'' (hb_log_writer_state h) (hb_log_writer_ms h)
                kLogWriterBeatTimeoutMs (hb_log_writer_running h) (hb_log_writer_parked h) c of
           (st, c1) \<Rightarrow> on_beats (\<lambda>h. h\<lparr>hb_log_writer_state := st\<rparr>) c1)"

definition check_thread_health :: "(nat \<Rightarrow> u32) \<Rightarrow> 'x core_scheme \<Rightarrow> 'x core_scheme" where
  "check_thread_health clk c = check_log_writer (clk 3) (check_park (clk 2) (check_dispatcher (clk 1) (check_serial_read (clk 0) c)))"

section \<open>The session slot and its handle\<close>

text \<open>
  An opaque handle is the address of the handle slot, null, or any other address. Validation compares
  addresses and never reads through the pointer.
\<close>

datatype xcom_handle = HandleNull | HandleSlot | HandleOther nat

definition kHandleMagic :: u32 where [simp]: "kHandleMagic = 0x58434F4D"

record handle =
  hd_generation :: u32
  hd_magic :: u32

record process =
  pr_core :: "core_state option"
  pr_handle :: "handle option"

definition process_init :: process where
  "process_init = \<lparr>pr_core = None, pr_handle = None\<rparr>"

text \<open>A \<open>StaticObjectSlot\<close> holds at most one object; \<open>None\<close> from \<open>slot_emplace\<close> is a refusal.\<close>

definition slot_emplace :: "'a \<Rightarrow> 'a option \<Rightarrow> ('a option) option" where
  "slot_emplace x slot = (case slot of None \<Rightarrow> Some (Some x) | Some _ \<Rightarrow> None)"

definition xcom_handle_valid :: "xcom_handle \<Rightarrow> process \<Rightarrow> bool" where
  "xcom_handle_valid h p \<longleftrightarrow> h = HandleSlot \<and> pr_handle p \<noteq> None"

definition xcom_handle_create :: "process \<Rightarrow> xcom_handle \<times> process" where
  "xcom_handle_create p =
     (case slot_emplace core_state_init (pr_core p) of
        None \<Rightarrow> (HandleNull, p)
      | Some slot \<Rightarrow>
          (case slot_emplace \<lparr>hd_generation = 0, hd_magic = kHandleMagic\<rparr> (pr_handle p) of
             None \<Rightarrow> (HandleNull, p\<lparr>pr_core := None\<rparr>)
           | Some hslot \<Rightarrow> (HandleSlot, p\<lparr>pr_core := slot, pr_handle := hslot\<rparr>)))"

definition handle_live :: "process \<Rightarrow> bool" where
  "handle_live p \<longleftrightarrow> (case pr_handle p of None \<Rightarrow> False | Some d \<Rightarrow> hd_magic d = kHandleMagic)"

definition xcom_handle_boot :: "boot_answers \<Rightarrow> process \<Rightarrow> i32 \<times> process" where
  "xcom_handle_boot A p =
     (case pr_core p of
        Some s \<Rightarrow>
          if handle_live p then (case boot A s of (ok, s1) \<Rightarrow> (if ok then XCOM_OK else XCOM_ERR_IO, p\<lparr>pr_core := Some s1\<rparr>))
          else (XCOM_ERR_PARAM, p)
      | None \<Rightarrow> (XCOM_ERR_PARAM, p))"

text \<open>\<open>None\<close> is a destroy that does not return.\<close>

definition xcom_handle_destroy :: "platform \<Rightarrow> process \<Rightarrow> process option" where
  "xcom_handle_destroy P p =
     (case pr_core p of
        Some s \<Rightarrow> if handle_live p then map_option (\<lambda>_. p\<lparr>pr_handle := None, pr_core := None\<rparr>) (shutdown P s) else Some p
      | None \<Rightarrow> Some p)"

definition xcom_handle_core :: "process \<Rightarrow> core_state option" where
  "xcom_handle_core p = (if handle_live p then pr_core p else None)"

section \<open>The file writer's shutdown returns\<close>

lemma process_rx_ref_inv: "process_rx_ref Q ref w c = Some (w', c') \<Longrightarrow> lw_inv f w \<Longrightarrow> lw_inv f w'"
  using lw_inv_same process_rx_ref_queues by blast

lemma worker_pass_inv:
  assumes "file_os_ok Q" "lw_inv None w" "worker_pass Q w c = Some (t, w', c')"
  shows "lw_inv None w'"
proof (cases "lw_stopping w")
  case True
  then show ?thesis using stopping_pass [OF assms(1,2) True, of c] assms(3) by auto
next
  case False
  show ?thesis
  proof (cases "os_pop_job Q (lw_jobs w)")
    case (Some a)
    obtain j q where a: "a = (j, q)" by (cases a)
    then have p: "lw_process Q j (w\<lparr>lw_jobs := q\<rparr>) (lw_beat Q w c) = Some (w', c')"
      using assms(3) False Some by (auto simp: worker_pass_def Let_def)
    then obtain st off w1 c1 where "run_job Q j (w\<lparr>lw_jobs := q\<rparr>) (lw_beat Q w c) = Some (st, off, w1, c1)"
      by (auto simp: lw_process_def split: option.splits)
    from process_in_flight [OF assms(1) conjunct1 [OF pop_job_inv [OF assms(1,2) Some [unfolded a]]] this]
    show ?thesis using p by simp
  next
    case None
    then show ?thesis
      using assms(2,3) False by (auto simp: worker_pass_def Let_def intro: process_rx_ref_inv split: option.splits)
  qed
qed

lemma worker_passes_inv:
  assumes "file_os_ok Q" "lw_inv None w" "worker_passes n Q w c = Some (w', c')"
  shows "lw_inv None w'"
  using assms(2,3)
proof (induction n arbitrary: w c)
  case (Suc n)
  obtain t w1 c1 where p: "worker_pass Q w c = Some (t, w1, c1)"
    using Suc.prems(2) by (auto split: option.splits)
  have "lw_inv None w1" by (rule worker_pass_inv [OF assms(1) Suc.prems(1) p])
  then show ?case using Suc.IH Suc.prems(2) p by (cases t) auto
qed simp

lemma log_close_inv:
  assumes "file_os_ok Q" "lw_inv None w" "log_close Q event_ok waits passes w c = (st, w', c')"
  shows "lw_inv None w'"
proof -
  have plain: "\<not> job_reports (plain_job JkClose)" by (simp add: job_reports_def plain_job_def)
  have "lw_inv None (w\<lparr>lw_accepting := False\<rparr>)" using assms(2) by (simp add: lw_inv_def)
  moreover have "lw_inv None (fst (snd (submit_sync Q event_ok passes (plain_job JkClose) x c)))" if "lw_inv None x" for x
  proof -
    obtain d x3 where q: "sync_queue Q event_ok (plain_job JkClose) x = (d, x3)" by (meson surj_pair)
    have i: "lw_inv None x3" using client_step_inv [OF cs_sync [OF plain, of Q x event_ok] assms(1) that] q by simp
    show ?thesis
    proof (cases d)
      case (Some k)
      show ?thesis
      proof (cases "worker_passes passes Q x3 c")
        case (Some a)
        obtain x4 c4 where "a = (x4, c4)" by (cases a)
        then show ?thesis
          using worker_passes_inv [OF assms(1) i, of passes c x4 c4] q \<open>d = Some k\<close> Some
          by (simp add: submit_sync_def lw_inv_fields [of "release_completion _ _"])
      qed (use q i \<open>d = Some k\<close> in \<open>simp add: submit_sync_def lw_inv_fields [of "release_completion _ _"]\<close>)
    qed (use q i in \<open>simp add: submit_sync_def\<close>)
  qed
  ultimately have "lw_inv None (fst (snd (log_close Q event_ok waits passes w c)))"
    using assms(2) by (simp add: log_close_def close_append_admission_def split: bool.split)
  then show ?thesis using assms(3) by simp
qed

lemma log_shutdown_returns:
  assumes "file_os_ok Q" "lw_inv None w"
  shows "\<exists>w' c'. log_shutdown Q event_ok waits passes w c = Some (w', c') \<and>
    (lw_present w \<longrightarrow> \<not> lw_running w')"
proof (cases "\<not> lw_present w \<or> \<not> lw_running w")
  case False
  obtain st w1 c1 where l: "log_close Q event_ok waits passes w c = (st, w1, c1)" by (metis prod_cases3)
  let ?w2 = "(if st \<noteq> XCOM_OK then w1\<lparr>lw_accepting := False\<rparr> else w1)\<lparr>lw_stopping := True\<rparr>"
  have "lw_inv None ?w2" using log_close_inv [OF assms l] by (simp add: lw_inv_def)
  then obtain w3 c3 where "worker_pass Q ?w2 (lw_set_running False c1) = Some (TurnExit, w3, c3)"
    using stopping_pass [OF assms(1)] by fastforce
  then show ?thesis using False l by (simp add: log_shutdown_def Let_def)
qed (auto simp: log_shutdown_def)

section \<open>Shutdown releases everything\<close>

lemma outer_fields:
  fixes s s' :: core_state
  assumes "core_outer s' = core_outer s"
  shows "k_writer s' = k_writer s" "k_backend s' = k_backend s" "k_deferred s' = k_deferred s" "k_send s' = k_send s"
    "k_timer s' = k_timer s" "k_started s' = k_started s" "k_aborted s' = k_aborted s"
    "c_tx s' = c_tx s" "k_posted s' = k_posted s"
    "hb_dispatcher_running (c_heartbeats s') = hb_dispatcher_running (c_heartbeats s)"
  using assms by (cases s, cases s', simp add: core_outer_def)+

lemma drain_lanes_fields:
  "k_writer (drain_lanes P s) = k_writer s" "k_backend (drain_lanes P s) = k_backend s"
  "k_deferred (drain_lanes P s) = k_deferred s" "k_timer (drain_lanes P s) = k_timer s"
  "k_started (drain_lanes P s) = k_started s" "k_log (drain_lanes P s) = k_log s" "k_send (drain_lanes P s) = k_send s"
  "hb_dispatcher_running (c_heartbeats (drain_lanes P s)) = hb_dispatcher_running (c_heartbeats s)"
  by (simp_all add: drain_lanes_def push_error_def Let_def split: prod.split)

lemma drop_template_parts:
  "k_timer (drop_autosend_template s) = k_timer s" "k_started (drop_autosend_template s) = k_started s"
  "k_log (drop_autosend_template s) = k_log s"
  "hb_dispatcher_running (c_heartbeats (drop_autosend_template s)) = hb_dispatcher_running (c_heartbeats s)"
  by (simp_all add: drop_autosend_template_def core_tx_release_def split: option.split)

lemma release_deferred_parts:
  "k_deferred (release_deferred P s) = None" "k_timer (release_deferred P s) = k_timer s"
  "k_started (release_deferred P s) = k_started s" "k_log (release_deferred P s) = k_log s"
  "hb_dispatcher_running (c_heartbeats (release_deferred P s)) = hb_dispatcher_running (c_heartbeats s)"
  by (simp_all add: release_deferred_def release_deferred_rx_def count_deferred_display_loss_def count_rejected_rx_def
      Let_def split: option.split)

lemma control_writer [simp]: "k_writer (snd (sink_submit_control P sig w crit s)) = k_writer s"
  by (simp add: sink_submit_control_def post_def Let_def)

lemma control_or_latch_writer [simp]:
  "k_writer (case sink_submit_control P sig w crit s of (True, s') \<Rightarrow> s' | (False, s') \<Rightarrow> latch_fault m s') = k_writer s"
  using control_writer [of P sig w crit s]
  by (auto simp: latch_fault_def push_error_def split: prod.split bool.split simp del: control_writer)

lemma other_steps_writer: "k_writer (other_steps P xs s) = k_writer s"
proof -
  have r: "k_writer (record_write_failure P r n s) = k_writer s" for r n s
    by (simp add: record_write_failure_def push_error_def Let_def)
  have "k_writer (other_step_effect P x s) = k_writer s" for x s
  proof (cases x)
    case (OsFault e)
    then show ?thesis by (simp add: serial_fault_callback_def) (simp add: push_error_def)
  next
    case (OsLine st)
    then show ?thesis
      by (simp add: line_callback_def line_status_ingress_def core_diag_emit_def quiet_sink_def sink_diag_emit_def Let_def)
  next
    case (OsWrite b n)
    then show ?thesis by (auto simp: sink_owner_write_def write_failed_def r Let_def split: option.split)
  qed simp
  then show ?thesis by (induction xs arbitrary: s) (simp_all add: other_steps_def)
qed

text \<open>The state in which the file writer is stopped.\<close>

definition before_log_stop :: "platform \<Rightarrow> core_state \<Rightarrow> core_state" where
  "before_log_stop P s =
     (let s1 = autosend_set_impl P 0 s;
          s2 = stop_dispatcher (s1\<lparr>k_timer := timer_stop (k_timer s1)\<rparr>);
          s3 = release_deferred P (drop_autosend_template s2);
          s4 = (stop_session_writer s3)\<lparr>c_callback_admission := False\<rparr>;
          s5 = other_steps P (pf_during_close P s4) s4
      in s5\<lparr>k_backend := backend_close (k_backend s5)\<rparr>)"

lemma before_log_stop_parts:
  "\<not> sw_active (k_writer (before_log_stop P s))" "k_deferred (before_log_stop P s) = None"
  "\<not> pt_active (k_timer (before_log_stop P s))" "\<not> k_started (before_log_stop P s)"
  "k_log (before_log_stop P s) = k_log s" "k_started s \<Longrightarrow> \<not> hb_dispatcher_running (c_heartbeats (before_log_stop P s))"
  "\<exists>b. k_backend (before_log_stop P s) = backend_close b"
proof -
  define s2 where "s2 = stop_dispatcher ((autosend_set_impl P 0 s)\<lparr>k_timer := timer_stop (k_timer (autosend_set_impl P 0 s))\<rparr>)"
  define s3 where "s3 = release_deferred P (drop_autosend_template s2)"
  define s4 where "s4 = (stop_session_writer s3)\<lparr>c_callback_admission := False\<rparr>"
  define s5 where "s5 = other_steps P (pf_during_close P s4) s4"
  have b: "before_log_stop P s = s5\<lparr>k_backend := backend_close (k_backend s5)\<rparr>"
    by (simp add: before_log_stop_def Let_def s2_def s3_def s4_def s5_def)
  have "owner_parts s4 = owner_parts s3"
    using stop_session_writer_result(2) [of s3] by (simp add: s4_def owner_parts_def)
  then have o: "owner_parts s5 = owner_parts s3" by (simp add: s5_def)
  have d: "\<not> k_started s2" "k_log s2 = k_log s" "\<not> pt_active (k_timer s2)"
      "k_started s \<Longrightarrow> \<not> hb_dispatcher_running (c_heartbeats s2)"
    by (simp_all add: s2_def stop_dispatcher_def autosend_set_impl_def timer_stop_def)
  have "\<not> sw_active (k_writer s4)" using stop_session_writer_result(1) by (simp add: s4_def)
  then show "\<not> sw_active (k_writer (before_log_stop P s))"
    unfolding b s5_def by (simp add: other_steps_writer)
  show "k_deferred (before_log_stop P s) = None" "\<not> pt_active (k_timer (before_log_stop P s))"
    "\<not> k_started (before_log_stop P s)" "k_log (before_log_stop P s) = k_log s"
    "k_started s \<Longrightarrow> \<not> hb_dispatcher_running (c_heartbeats (before_log_stop P s))"
    using o d unfolding b owner_parts_def s3_def by (simp_all add: release_deferred_parts drop_template_parts)
  show "\<exists>b. k_backend (before_log_stop P s) = backend_close b" unfolding b by (simp, blast)
qed

lemma shutdown_split:
  "shutdown P s = map_option (\<lambda>(w, s7). drain_lanes P (s7\<lparr>k_log := w\<rparr>))
     (log_shutdown (pf_files P) (la_event_ok (pf_log P (before_log_stop P s))) (la_waits (pf_log P (before_log_stop P s)))
        (la_passes (pf_log P (before_log_stop P s))) (k_log (before_log_stop P s)) (before_log_stop P s))"
  by (simp add: shutdown_def before_log_stop_def Let_def)

text \<open>
  The two teardown drains give every queued block back, but charge only the
  raw lane: the bytes of blocks that wait in the display lane are discarded without an entry in the
  loss ledger, also those marked as having no file copy.
\<close>

theorem shutdown_loses_display_blocks:
  assumes "rx_env_ok (pf_rx P)" "rl_inv held (c_rx s)"
  shows "rl_display_ready (c_rx (drain_lanes P s)) = [] \<and> rl_raw_ready (c_rx (drain_lanes P s)) = [] \<and>
    m_save_rejected_bytes (c_metrics (drain_lanes P s)) =
      m_save_rejected_bytes (c_metrics s) + (\<Sum>ref\<leftarrow>rl_raw_ready (c_rx s). ucast (rr_len ref))"
proof -
  obtain n l where r: "rx_drain_raw (pf_rx P) (c_rx s) = (n, l)" by (meson surj_pair)
  note raw = rx_drain_raw_spec [OF assms r]
  obtain m l2 where d: "rx_drain_display (pf_rx P) l = (m, l2)" by (meson surj_pair)
  note disp = rx_drain_display_spec [OF assms(1) raw(1) d]
  show ?thesis
    using raw disp r d by (cases "n = 0") (simp_all add: drain_lanes_def push_error_def Let_def)
qed

definition unlogged_ref :: rx_ref where
  "unlogged_ref = \<lparr>rr_event = 0, rr_len = 0x8005, rr_gen = 1, rr_ingress_ms = 0\<rparr>"

theorem shutdown_loses_display_blocks_witness:
  "m_save_rejected_bytes (c_metrics (drain_lanes platform_ok
     (core_state_init\<lparr>c_rx := rx_lane_one\<lparr>rl_display_ready := [unlogged_ref]\<rparr>\<rparr>))) = 0 \<and>
   rr_len unlogged_ref AND kDisplayUnloggedBit \<noteq> 0"
proof -
  let ?s = "core_state_init\<lparr>c_rx := rx_lane_one\<lparr>rl_display_ready := [unlogged_ref]\<rparr>\<rparr>"
  have inv: "rl_inv (\<lambda>_. 0) (c_rx ?s)"
    by (auto simp: rl_inv_def ring_ok_def rx_lane_init_def rx_lane_one_def unlogged_ref_def nth_list_update)
  have env: "rx_env_ok (pf_rx platform_ok)" using rx_env_list_ok by (simp add: platform_ok_def)
  have "rl_raw_ready (c_rx ?s) = []" "m_save_rejected_bytes (c_metrics ?s) = 0"
    by (simp_all add: rx_lane_one_def rx_lane_init_def core_state_init_def core.extend_def core_init_def metrics_zero_def)
  then show ?thesis
    using shutdown_loses_display_blocks [OF env inv] by (simp add: unlogged_ref_def kDisplayUnloggedBit_def)
qed

section \<open>The liveness reports raise no false alarm\<close>

text \<open>A check only reports: it writes the error ring and the detectors.\<close>

definition only_reports :: "'x core_scheme \<Rightarrow> 'x core_scheme \<Rightarrow> bool" where
  "only_reports c c' \<longleftrightarrow> c'\<lparr>c_errors := c_errors c, c_heartbeats := c_heartbeats c\<rparr> = c"

lemma only_reports_simps [simp]:
  "only_reports c c" "only_reports c (d\<lparr>c_heartbeats := h\<rparr>) = only_reports c d"
  "only_reports c (push_error e k m d) = only_reports c d"
  by (simp_all add: only_reports_def push_error_def)

lemma only_reports_fields:
  assumes "only_reports c d"
  shows "c_port_state d = c_port_state c" "c_virtual_port d = c_virtual_port c"
  using assms by (cases c, cases d, simp add: only_reports_def)+

text \<open>One report: the detector changes, and a parked or stopped thread is never faulted.\<close>

lemma report_thread_health_spec:
  assumes "report_thread_health now name st beat t running parked c = (st', c')"
  shows "only_reports d c' = only_reports d c" "c_heartbeats c' = c_heartbeats c"
    "\<not> running \<or> parked \<Longrightarrow> lv_episodes st' = lv_episodes st \<and> \<not> lv_faulted st'"
    "lv_episodes st' = lv_episodes st \<or> lv_episodes st' = lv_episodes st + 1 \<and> lv_faulted st' \<and> \<not> lv_faulted st"
  using assms
  by (auto simp: report_thread_health_def liveness_evaluate_def push_error_def only_reports_def Let_def
      split: liveness_edge.splits if_splits prod.splits)

definition detectors :: "'x core_scheme \<Rightarrow> liveness_state \<times> liveness_state \<times> liveness_state" where
  "detectors c = (hb_serial_read_state (c_heartbeats c), hb_dispatcher_state (c_heartbeats c), hb_log_writer_state (c_heartbeats c))"

text \<open>The beats, gates and park flags the reports read, which they leave alone.\<close>

definition beats :: "'x core_scheme \<Rightarrow> u32 \<times> u32 \<times> u32 \<times> bool \<times> bool \<times> bool \<times> bool" where
  "beats c = (let h = c_heartbeats c in (hb_serial_read_ms h, hb_dispatcher_ms h, hb_log_writer_ms h, hb_dispatcher_parked h,
     hb_log_writer_parked h, hb_dispatcher_running h, hb_log_writer_running h))"

lemma check_serial_read_spec:
  "only_reports c (check_serial_read now c)" "beats (check_serial_read now c) = beats c"
  "snd (detectors (check_serial_read now c)) = snd (detectors c)"
  "c_port_state c \<noteq> PORT_OPEN \<or> c_virtual_port c \<Longrightarrow>
     lv_episodes (fst (detectors (check_serial_read now c))) = lv_episodes (fst (detectors c)) \<and>
     \<not> lv_faulted (fst (detectors (check_serial_read now c)))"
proof -
  let ?h = "c_heartbeats c"
  obtain st c1 where r: "report_thread_health now ''serial read'' (hb_serial_read_state ?h) (hb_serial_read_ms ?h)
      kSerialReadBeatTimeoutMs True (\<not> (c_port_state c = PORT_OPEN \<and> \<not> c_virtual_port c)) c = (st, c1)" by (meson surj_pair)
  note spec = report_thread_health_spec [OF r]
  show "only_reports c (check_serial_read now c)" "beats (check_serial_read now c) = beats c"
    "snd (detectors (check_serial_read now c)) = snd (detectors c)"
    using r spec(1) [of c] spec(2) by (simp_all add: check_serial_read_def beats_def detectors_def Let_def)
  show "c_port_state c \<noteq> PORT_OPEN \<or> c_virtual_port c \<Longrightarrow>
     lv_episodes (fst (detectors (check_serial_read now c))) = lv_episodes (fst (detectors c)) \<and>
     \<not> lv_faulted (fst (detectors (check_serial_read now c)))"
    using r spec(3) by (simp add: check_serial_read_def detectors_def Let_def)
qed

lemma check_dispatcher_spec:
  "only_reports d (check_dispatcher now c) = only_reports d c" "beats (check_dispatcher now c) = beats c"
  "fst (detectors (check_dispatcher now c)) = fst (detectors c)"
  "snd (snd (detectors (check_dispatcher now c))) = snd (snd (detectors c))"
  "dispatcher_transitioning c \<or> hb_dispatcher_parked (c_heartbeats c) \<or> \<not> hb_dispatcher_running (c_heartbeats c) \<Longrightarrow>
     lv_episodes (fst (snd (detectors (check_dispatcher now c)))) = lv_episodes (fst (snd (detectors c))) \<and>
     \<not> lv_faulted (fst (snd (detectors (check_dispatcher now c))))"
proof -
  let ?h = "c_heartbeats c"
  obtain st c1 where r: "report_thread_health now ''dispatcher'' (hb_dispatcher_state ?h) (hb_dispatcher_ms ?h)
      kDispatcherBeatTimeoutMs (hb_dispatcher_running ?h)
      (hb_dispatcher_running ?h \<and> (dispatcher_transitioning c \<or> hb_dispatcher_parked ?h)) c = (st, c1)" by (meson surj_pair)
  note spec = report_thread_health_spec [OF r]
  show "only_reports d (check_dispatcher now c) = only_reports d c" "beats (check_dispatcher now c) = beats c"
    "fst (detectors (check_dispatcher now c)) = fst (detectors c)"
    "snd (snd (detectors (check_dispatcher now c))) = snd (snd (detectors c))"
    using r spec(1) [of d] spec(2) by (simp_all add: check_dispatcher_def beats_def detectors_def Let_def)
  show "dispatcher_transitioning c \<or> hb_dispatcher_parked ?h \<or> \<not> hb_dispatcher_running ?h \<Longrightarrow>
     lv_episodes (fst (snd (detectors (check_dispatcher now c)))) = lv_episodes (fst (snd (detectors c))) \<and>
     \<not> lv_faulted (fst (snd (detectors (check_dispatcher now c))))"
    using r spec(3) by (auto simp: check_dispatcher_def detectors_def Let_def)
qed

lemma check_park_spec:
  "only_reports d (check_park now c) = only_reports d c" "beats (check_park now c) = beats c"
  "detectors (check_park now c) = detectors c"
  by (simp_all add: check_park_def report_dispatcher_park_def beats_def detectors_def only_reports_def push_error_def Let_def
      split: prod.split liveness_edge.split)

lemma check_log_writer_spec:
  "only_reports d (check_log_writer now c) = only_reports d c" "fst (detectors (check_log_writer now c)) = fst (detectors c)"
  "fst (snd (detectors (check_log_writer now c))) = fst (snd (detectors c))"
  "hb_log_writer_parked (c_heartbeats c) \<or> \<not> hb_log_writer_running (c_heartbeats c) \<Longrightarrow>
     lv_episodes (snd (snd (detectors (check_log_writer now c)))) = lv_episodes (snd (snd (detectors c))) \<and>
     \<not> lv_faulted (snd (snd (detectors (check_log_writer now c))))"
proof -
  let ?h = "c_heartbeats c"
  obtain st c1 where r: "report_thread_health now ''log writer'' (hb_log_writer_state ?h) (hb_log_writer_ms ?h)
      kLogWriterBeatTimeoutMs (hb_log_writer_running ?h) (hb_log_writer_parked ?h) c = (st, c1)" by (meson surj_pair)
  note spec = report_thread_health_spec [OF r]
  show "only_reports d (check_log_writer now c) = only_reports d c" "fst (detectors (check_log_writer now c)) = fst (detectors c)"
    "fst (snd (detectors (check_log_writer now c))) = fst (snd (detectors c))"
    using r spec(1) [of d] spec(2) by (simp_all add: check_log_writer_def detectors_def Let_def)
  show "hb_log_writer_parked ?h \<or> \<not> hb_log_writer_running ?h \<Longrightarrow>
     lv_episodes (snd (snd (detectors (check_log_writer now c)))) = lv_episodes (snd (snd (detectors c))) \<and>
     \<not> lv_faulted (snd (snd (detectors (check_log_writer now c))))"
    using r spec(3) by (auto simp: check_log_writer_def detectors_def Let_def)
qed

text \<open>
  The status poll's health check writes nothing but the error ring and its
  own detectors, and it opens no stall episode for a thread that is not expected to run: the reader of a
  port that is not open or is virtual, a Dispatcher that is parked, stopped or in a lifecycle transition
  that may block it, and a file writer that is parked or stopped.
\<close>

theorem idle_threads_never_reported:
  "only_reports c (check_thread_health clk c) \<and>
   (c_port_state c \<noteq> PORT_OPEN \<or> c_virtual_port c \<longrightarrow>
      lv_episodes (fst (detectors (check_thread_health clk c))) = lv_episodes (fst (detectors c))) \<and>
   (dispatcher_transitioning c \<or> hb_dispatcher_parked (c_heartbeats c) \<or> \<not> hb_dispatcher_running (c_heartbeats c) \<longrightarrow>
      lv_episodes (fst (snd (detectors (check_thread_health clk c)))) = lv_episodes (fst (snd (detectors c)))) \<and>
   (hb_log_writer_parked (c_heartbeats c) \<or> \<not> hb_log_writer_running (c_heartbeats c) \<longrightarrow>
      lv_episodes (snd (snd (detectors (check_thread_health clk c)))) = lv_episodes (snd (snd (detectors c))))"
proof -
  let ?a = "check_serial_read (clk 0) c"
  let ?b = "check_dispatcher (clk 1) ?a"
  let ?d = "check_park (clk 2) ?b"
  note a = check_serial_read_spec [where c = c and now = "clk 0"]
  note b = check_dispatcher_spec [where c = ?a and now = "clk 1"]
  note p = check_park_spec [where c = ?b and now = "clk 2"]
  note l = check_log_writer_spec [where c = ?d and now = "clk 3"]
  have t: "dispatcher_transitioning ?a = dispatcher_transitioning c"
    using only_reports_fields [OF a(1)] by (simp add: dispatcher_transitioning_def)
  have g: "beats ?d = beats c" "beats ?a = beats c" using a(2) b(2) p(2) by simp_all
  then have h: "hb_dispatcher_parked (c_heartbeats ?a) = hb_dispatcher_parked (c_heartbeats c)"
      "hb_dispatcher_running (c_heartbeats ?a) = hb_dispatcher_running (c_heartbeats c)"
      "hb_log_writer_parked (c_heartbeats ?d) = hb_log_writer_parked (c_heartbeats c)"
      "hb_log_writer_running (c_heartbeats ?d) = hb_log_writer_running (c_heartbeats c)"
    by (simp_all add: beats_def Let_def)
  show ?thesis
    unfolding check_thread_health_def using a b p l t h by auto
qed

theorem idle_threads_never_reported_witness:
  "lv_episodes (fst (detectors (check_thread_health (\<lambda>_. 90000)
     (core_init\<lparr>c_heartbeats := heartbeats_zero\<lparr>hb_serial_read_ms := 1\<rparr>\<rparr>)))) = 0"
  using idle_threads_never_reported [of "core_init\<lparr>c_heartbeats := heartbeats_zero\<lparr>hb_serial_read_ms := 1\<rparr>\<rparr>" "\<lambda>_. 90000"]
  by (simp add: detectors_def heartbeats_zero_def liveness_init_def)

end
