(* ===== verification/Xcom_Abi.thy ===== *)
theory Xcom_Abi
  imports Runtime Serial_Reader
begin

text \<open>
  The C ABI of the core (\<open>abi/xcom_abi.cpp\<close>): every exported function, over the process state that holds the
  session slot and its handle. A null pointer argument is \<open>None\<close>; an output structure that the caller
  passes is given by its \<open>struct_size\<close>, and the result says what is written to it. The blocking calls
  take what the other threads do between two polls as a list of state changes.
\<close>

section \<open>Calls through a handle\<close>

definition on_core :: "xcom_handle \<Rightarrow> 'r \<Rightarrow> (core_state \<Rightarrow> 'r \<times> core_state) \<Rightarrow> process \<Rightarrow> 'r \<times> process" where
  "on_core h bad f p =
     (if \<not> xcom_handle_valid h p then (bad, p)
      else case xcom_handle_core p of
          None \<Rightarrow> (bad, p)
        | Some s \<Rightarrow> (case f s of (r, s1) \<Rightarrow> (r, p\<lparr>pr_core := Some s1\<rparr>)))"

definition xcom_version :: u32 where
  "xcom_version = push_bit 16 1 OR push_bit 8 7 OR 0"

section \<open>Ports\<close>

definition XCOM_LIST_PORTS_PROBE_BUSY :: u32 where [simp]: "XCOM_LIST_PORTS_PROBE_BUSY = 1"

text \<open>\<open>out\<close> and \<open>count\<close> say whether the pointers are given; the outer \<open>None\<close> is a walk that does not end.\<close>

definition xcom_list_ports ::
  "i32 \<Rightarrow> (u32 \<Rightarrow> enum_value) \<Rightarrow> port_device list \<Rightarrow> bool \<Rightarrow> nat \<Rightarrow> bool \<Rightarrow> (i32 \<times> port_info list \<times> nat) option" where
  "xcom_list_ports open_result vals devices out capacity count =
     (if \<not> count \<or> (capacity \<noteq> 0 \<and> \<not> out) then Some (XCOM_ERR_PARAM, [], 0)
      else list_ports_impl open_result vals devices capacity)"

text \<open>The status, the entries, the count and the native error.\<close>

definition xcom_list_ports_ex ::
  "i32 \<Rightarrow> (u32 \<Rightarrow> enum_value) \<Rightarrow> port_device list \<Rightarrow> (string \<Rightarrow> bool) \<Rightarrow> bool \<Rightarrow> nat \<Rightarrow> bool \<Rightarrow> u32 \<Rightarrow>
   (i32 \<times> port_info list \<times> nat \<times> i32) option" where
  "xcom_list_ports_ex open_result vals devices busy out capacity count flags =
     (if \<not> count \<or> (capacity \<noteq> 0 \<and> \<not> out) then Some (XCOM_ERR_PARAM, [], 0, 0)
      else map_option (\<lambda>(entries, found, e).
             (if e \<noteq> 0 then XCOM_ERR_IO else if found > capacity then XCOM_ERR_FULL else XCOM_OK, entries, found, e))
           (enumerate_serial_ports_ex open_result vals devices busy capacity (flags AND XCOM_LIST_PORTS_PROBE_BUSY \<noteq> 0)))"

section \<open>Creating and destroying the session\<close>

text \<open>\<open>options\<close> are the size and the flags; the outer \<open>None\<close> is a teardown that does not return.\<close>

definition xcom_create :: "platform \<Rightarrow> boot_answers \<Rightarrow> (nat \<times> u32) option \<Rightarrow> process \<Rightarrow> (xcom_handle \<times> process) option" where
  "xcom_create P A options p =
     (if (case options of None \<Rightarrow> False | Some (bytes, flags) \<Rightarrow> bytes < 8 \<or> flags \<noteq> 0) then Some (HandleNull, p)
      else case xcom_handle_create p of
          (h, p1) \<Rightarrow>
            if h = HandleNull then Some (HandleNull, p1)
            else case xcom_handle_boot A p1 of
                (st, p2) \<Rightarrow>
                  if st \<noteq> XCOM_OK then map_option (\<lambda>p3. (HandleNull, p3)) (xcom_handle_destroy P p2)
                  else Some (h, p2))"

definition xcom_destroy :: "platform \<Rightarrow> xcom_handle \<Rightarrow> process \<Rightarrow> process option" where
  "xcom_destroy P h p = (if xcom_handle_valid h p then xcom_handle_destroy P p else Some p)"

section \<open>Opening and closing\<close>

record open_request =
  or_struct_size :: nat
  or_port :: "string option"
  or_cfg :: port_config

definition kSizeofPortConfig :: nat where [simp]: "kSizeofPortConfig = 32"
definition XCOM_LINE_LEAVE_ALONE :: u8 where [simp]: "XCOM_LINE_LEAVE_ALONE = 2"

definition is_virtual_port :: "string \<Rightarrow> bool" where
  "is_virtual_port name \<longleftrightarrow> name = ''VIRTUAL'' \<or> take 4 name = ''TEST''"

definition port_name_from_config :: "open_request option \<Rightarrow> i32 \<times> string" where
  "port_name_from_config config =
     (case config of
        None \<Rightarrow> (XCOM_ERR_PARAM, [])
      | Some r \<Rightarrow>
          if or_struct_size r < kSizeofPortConfig then (XCOM_ERR_PARAM, [])
          else case or_port r of
              None \<Rightarrow> (XCOM_ERR_PARAM, [])
            | Some name \<Rightarrow> (XCOM_OK, copy_text name 64))"

definition config_in_range :: "port_config \<Rightarrow> bool" where
  "config_in_range g \<longleftrightarrow> cfg_baud g \<noteq> 0 \<and> \<not> (cfg_data_bits g < 5 \<or> cfg_data_bits g > 8) \<and> \<not> cfg_stop_bits g > 2 \<and>
     \<not> cfg_parity g > 4 \<and> \<not> cfg_flow_control g > 2 \<and>
     \<not> (XCOM_LINE_LEAVE_ALONE < cfg_dtr_enable g \<or> XCOM_LINE_LEAVE_ALONE < cfg_rts_enable g)"

text \<open>The admission part: the refusal, or the port name.\<close>

definition open_refusal :: "'x core_scheme \<Rightarrow> open_request option \<Rightarrow> i32 option" where
  "open_refusal c config =
     (case port_name_from_config config of
        (pm, name) \<Rightarrow>
          if pm \<noteq> XCOM_OK then Some pm
          else if \<not> config_in_range (or_cfg (the config)) then Some XCOM_ERR_PARAM
          else if c_port_state c = PORT_OPEN then Some XCOM_ERR_ALREADY_OPEN
          else if c_last_open_result c = XCOM_ERR_BUSY then Some XCOM_ERR_BUSY
          else if c_port_state c \<noteq> PORT_CLOSED \<and> c_port_state c \<noteq> PORT_FAULT then Some XCOM_ERR_BUSY
          else None)"

definition queue_open :: "platform \<Rightarrow> open_request option \<Rightarrow> core_state \<Rightarrow> i32 \<times> core_state" where
  "queue_open P config s =
     (case open_refusal s config of
        Some e \<Rightarrow> (e, s)
      | None \<Rightarrow>
          let name = snd (port_name_from_config config); g = or_cfg (the config)
          in case sync_port_name (Some name) s of
               (False, s1) \<Rightarrow> (XCOM_ERR_PARAM, push_error XCOM_ERR_PARAM 0 ''serial port name exceeds fixed capacity'' s1)
             | (True, s1) \<Rightarrow>
                 let s2 = s1\<lparr>c_virtual_port := is_virtual_port name, c_cfg := g\<rparr>;
                     s3 = s2\<lparr>c_last_open_result := XCOM_ERR_BUSY, c_cancel_open := False\<rparr>;
                     s4 = push_error 0 0 ''open requested'' s3
                 in case submit_control (core_sink P) SigOpen 0 False s4 of
                      (True, s5) \<Rightarrow> (XCOM_OK, s5)
                    | (False, s5) \<Rightarrow> (XCOM_ERR_FULL, push_error XCOM_ERR_FULL 0 ''open event rejected''
                                        (s5\<lparr>c_last_open_result := XCOM_ERR_IO\<rparr>)))"

definition open_failure_status :: "'x core_scheme \<Rightarrow> i32" where
  "open_failure_status c = open_failure_status_from_result (c_last_open_result c)"

text \<open>Up to \<open>n\<close> looks at the result, each followed by what the other threads do in ten milliseconds.\<close>

fun poll_open :: "nat \<Rightarrow> (core_state \<Rightarrow> core_state) list \<Rightarrow> core_state \<Rightarrow> i32 \<times> core_state" where
  "poll_open 0 turns s = (XCOM_ERR_TIMEOUT, s\<lparr>c_cancel_open := True\<rparr>)"
| "poll_open (Suc n) turns s =
     (if c_last_open_result s = XCOM_OK \<and> c_port_state s = PORT_OPEN then (XCOM_OK, s)
      else if c_last_open_result s \<noteq> XCOM_OK \<and> c_last_open_result s \<noteq> XCOM_ERR_BUSY then (open_failure_status s, s)
      else case turns of
          [] \<Rightarrow> poll_open n [] s
        | t # ts \<Rightarrow> poll_open n ts (t s))"

definition kOpenPolls :: nat where [simp]: "kOpenPolls = 200"

definition xcom_open ::
  "platform \<Rightarrow> (core_state \<Rightarrow> core_state) list \<Rightarrow> xcom_handle \<Rightarrow> open_request option \<Rightarrow> process \<Rightarrow> i32 \<times> process" where
  "xcom_open P turns h config = on_core h XCOM_ERR_PARAM (\<lambda>s.
     case queue_open P config s of
       (q, s1) \<Rightarrow> if q \<noteq> XCOM_OK then (q, s1) else poll_open kOpenPolls turns s1)"

definition xcom_open_async :: "platform \<Rightarrow> xcom_handle \<Rightarrow> open_request option \<Rightarrow> process \<Rightarrow> i32 \<times> process" where
  "xcom_open_async P h config = on_core h XCOM_ERR_PARAM (queue_open P config)"

definition take_open_result :: "'x core_scheme \<Rightarrow> i32" where
  "take_open_result c =
     (if c_port_state c = PORT_OPEN then XCOM_OK
      else if c_port_state c = PORT_OPENING then XCOM_ERR_BUSY
      else if c_last_open_result c = XCOM_ERR_BUSY then XCOM_ERR_BUSY
      else open_failure_status c)"

definition xcom_take_open_result :: "xcom_handle \<Rightarrow> process \<Rightarrow> i32 \<times> process" where
  "xcom_take_open_result h = on_core h XCOM_ERR_PARAM (\<lambda>s. (take_open_result s, s))"

text \<open>The looks at the state until the deadline: one at once, and one after each turn.\<close>

fun poll_close :: "(core_state \<Rightarrow> core_state) list \<Rightarrow> core_state \<Rightarrow> i32 \<times> core_state" where
  "poll_close turns s =
     (if c_port_state s = PORT_CLOSED then (XCOM_OK, s)
      else case turns of [] \<Rightarrow> (XCOM_ERR_TIMEOUT, s) | t # ts \<Rightarrow> poll_close ts (t s))"

definition close_session :: "platform \<Rightarrow> (core_state \<Rightarrow> core_state) list \<Rightarrow> core_state \<Rightarrow> i32 \<times> core_state" where
  "close_session P turns s =
     (let open_pending = (c_last_open_result s = XCOM_ERR_BUSY)
      in if c_port_state s = PORT_CLOSED \<and> \<not> open_pending then (XCOM_OK, s)
         else let s1 = (if c_port_state s = PORT_OPENING \<or> open_pending then s\<lparr>c_cancel_open := True\<rparr> else s)
              in case submit_control (core_sink P) SigClose 0 True s1 of
                   (False, s2) \<Rightarrow> (XCOM_ERR_FULL, push_error XCOM_ERR_FULL 0 ''close event rejected'' s2)
                 | (True, s2) \<Rightarrow> poll_close turns s2)"

definition xcom_close ::
  "platform \<Rightarrow> (core_state \<Rightarrow> core_state) list \<Rightarrow> xcom_handle \<Rightarrow> process \<Rightarrow> i32 \<times> process" where
  "xcom_close P turns h = on_core h XCOM_ERR_PARAM (close_session P turns)"

section \<open>Sending\<close>

text \<open>\<open>None\<close> is the failed assertion in giving the block back.\<close>

definition give_back_block :: "u16 \<Rightarrow> core_state \<Rightarrow> core_state" where
  "give_back_block b s = (case core_tx_release b s of None \<Rightarrow> s\<lparr>k_aborted := True\<rparr> | Some s1 \<Rightarrow> s1)"

definition tx_fill :: "u16 \<Rightarrow> u8 list \<Rightarrow> core_state \<Rightarrow> core_state" where
  "tx_fill b data s = s\<lparr>c_tx := fixed_pool_write (c_tx s) (unat b) data\<rparr>"

definition send_bytes :: "platform \<Rightarrow> u8 list \<Rightarrow> core_state \<Rightarrow> i32 \<times> core_state" where
  "send_bytes P data s =
     (if length data = 0 then (XCOM_OK, s)
      else if length data > kTxBlockBytes then (XCOM_ERR_FULL, count_tx_rejected s)
      else if c_port_state s \<noteq> PORT_OPEN then (XCOM_ERR_NOT_OPEN, s)
      else case tx_try_alloc (c_tx s) of
          None \<Rightarrow> (XCOM_ERR_FULL, count_tx_rejected s)
        | Some (bid, pool) \<Rightarrow>
            let s1 = tx_fill bid data (s\<lparr>c_tx := pool\<rparr>);
                desc = \<lparr>td_block = bid, td_length = of_nat (length data), td_generation = c_generation s1\<rparr>
            in case submit_write (core_sink P) desc s1 of
                 (st, s2) \<Rightarrow>
                   if st \<noteq> XCOM_OK
                   then let s3 = count_tx_rejected (give_back_block bid s2)
                        in (st, if st = XCOM_ERR_BUSY
                                then on_metrics (\<lambda>m. m\<lparr>m_tx_rejected_overload := m_tx_rejected_overload m + 1\<rparr>) s3
                                else s3)
                   else (XCOM_OK, s2))"

definition xcom_send :: "platform \<Rightarrow> xcom_handle \<Rightarrow> u8 list option \<Rightarrow> process \<Rightarrow> i32 \<times> process" where
  "xcom_send P h data p =
     (case data of None \<Rightarrow> (XCOM_ERR_PARAM, p) | Some bytes \<Rightarrow> on_core h XCOM_ERR_PARAM (send_bytes P bytes) p)"

definition set_auto_template :: "platform \<Rightarrow> u8 list option \<Rightarrow> nat \<Rightarrow> u32 \<Rightarrow> core_state \<Rightarrow> i32 \<times> core_state" where
  "set_auto_template P data n interval_ms s =
     (if interval_ms \<noteq> 0 \<and> data = None then (XCOM_ERR_PARAM, s)
         else if n > kTxBlockBytes then (XCOM_ERR_FULL, count_tx_rejected s)
         else if interval_ms = 0
         then (case submit_autosend_config (core_sink P) \<lparr>at_block = 0xFFFF, at_length = 0, at_interval_ms = 0\<rparr> s of
                 (True, s1) \<Rightarrow> (XCOM_OK, s1)
               | (False, s1) \<Rightarrow> (XCOM_ERR_FULL, count_tx_rejected s1))
         else case tx_try_alloc (c_tx s) of
             None \<Rightarrow> (XCOM_ERR_FULL, count_tx_rejected s)
           | Some (bid, pool) \<Rightarrow>
               let s1 = tx_fill bid (take n (the data)) (s\<lparr>c_tx := pool\<rparr>)
               in case submit_autosend_config (core_sink P)
                         \<lparr>at_block = bid, at_length = of_nat n, at_interval_ms = interval_ms\<rparr> s1 of
                    (True, s2) \<Rightarrow> (XCOM_OK, s2)
                  | (False, s2) \<Rightarrow> (XCOM_ERR_FULL, count_tx_rejected (give_back_block bid s2)))"

definition xcom_set_auto_template ::
  "platform \<Rightarrow> xcom_handle \<Rightarrow> u8 list option \<Rightarrow> nat \<Rightarrow> u32 \<Rightarrow> process \<Rightarrow> i32 \<times> process" where
  "xcom_set_auto_template P h data n interval_ms = on_core h XCOM_ERR_PARAM (set_auto_template P data n interval_ms)"

section \<open>Options and lines\<close>

text \<open>The size and the three flags that are read.\<close>

record display_options =
  do_struct_size :: nat
  do_hex_view :: u8
  do_timestamp :: u8
  do_pause_display :: u8

definition kSizeofDisplayOptions :: nat where [simp]: "kSizeofDisplayOptions = 16"

text \<open>Arm the kick gate and submit the static kick, as every call that may unblock the receive path does.\<close>

definition kick_if :: "platform \<Rightarrow> bool \<Rightarrow> core_state \<Rightarrow> core_state" where
  "kick_if P b s =
     (if b then (case kick_try_arm s of (True, s1) \<Rightarrow> snd (submit_rx_kick (core_sink P) s1) | (False, s1) \<Rightarrow> s1) else s)"

definition flag :: "u8 \<Rightarrow> u8" where
  "flag x = (if x \<noteq> 0 then 1 else 0)"

definition set_options :: "platform \<Rightarrow> display_options \<Rightarrow> core_state \<Rightarrow> i32 \<times> core_state" where
  "set_options P d s =
     (if do_struct_size d < kSizeofDisplayOptions then (XCOM_ERR_PARAM, s)
      else let resume_display = (c_pause_display s \<noteq> 0 \<and> do_pause_display d = 0);
               s1 = s\<lparr>c_hex_view := flag (do_hex_view d), c_timestamp := flag (do_timestamp d),
                      c_pause_display := flag (do_pause_display d)\<rparr>
           in (XCOM_OK, kick_if P resume_display s1))"

definition xcom_set_options :: "platform \<Rightarrow> xcom_handle \<Rightarrow> display_options option \<Rightarrow> process \<Rightarrow> i32 \<times> process" where
  "xcom_set_options P h d p =
     (case d of None \<Rightarrow> (XCOM_ERR_PARAM, p) | Some dd \<Rightarrow> on_core h XCOM_ERR_PARAM (set_options P dd) p)"

definition set_lines :: "platform \<Rightarrow> u8 \<Rightarrow> u8 \<Rightarrow> core_state \<Rightarrow> i32 \<times> core_state" where
  "set_lines P dtr rts s =
     (if c_port_state s \<noteq> PORT_OPEN then (XCOM_ERR_NOT_OPEN, s)
      else case sk_owner_set_lines (core_sink P) of
          None \<Rightarrow> (XCOM_ERR_NOT_OPEN, s)
        | Some f \<Rightarrow>
            (case f (dtr \<noteq> 0) (rts \<noteq> 0) s of
               (applied, s1) \<Rightarrow>
                 if cfg_flow_control (c_cfg s1) = 1
                 then (if \<not> c_virtual_port s1 \<and> (applied = XCOM_ERR_IO \<or> applied = XCOM_ERR_NOT_OPEN)
                       then applied else XCOM_ERR_UNSUPPORTED, s1)
                 else (applied, s1)))"

definition xcom_set_lines :: "platform \<Rightarrow> xcom_handle \<Rightarrow> u8 \<Rightarrow> u8 \<Rightarrow> process \<Rightarrow> i32 \<times> process" where
  "xcom_set_lines P h dtr rts = on_core h XCOM_ERR_PARAM (set_lines P dtr rts)"

section \<open>Draining the display\<close>

text \<open>The part both drains share: the drain, the pending count and the kick.\<close>

definition drain_step :: "platform \<Rightarrow> display_ring \<Rightarrow> u32 \<Rightarrow> core_state \<Rightarrow> drain_result \<times> core_state" where
  "drain_step P R capacity s =
     (case dl_drain_into R capacity (c_generation s) (c_display s) of
        (r, l) \<Rightarrow>
          let s1 = s\<lparr>c_display := l\<rparr>
          in if \<not> dn_more r then (r, s1)
             else let s2 = (if dn_completed r
                            then on_metrics (\<lambda>m. m\<lparr>m_display_pending := m_display_pending m - 1\<rparr>) s1 else s1)
                  in (r, kick_if P (dn_completed r) s2))"

text \<open>The status and the bytes written; \<open>ptrs\<close> says that both pointers are given.\<close>

definition xcom_drain_display ::
  "platform \<Rightarrow> display_ring \<Rightarrow> xcom_handle \<Rightarrow> bool \<Rightarrow> u32 \<Rightarrow> process \<Rightarrow> (i32 \<times> u8 list) \<times> process" where
  "xcom_drain_display P R h ptrs capacity p =
     (if \<not> ptrs then ((XCOM_ERR_PARAM, []), p)
      else on_core h (XCOM_ERR_PARAM, []) (\<lambda>s.
        case drain_step P R capacity s of
          (r, s1) \<Rightarrow> ((XCOM_OK, if dn_more r then dn_output r else []), s1)) p)"

text \<open>The bytes written, and the arrival time if the caller's variable is written.\<close>

definition xcom_drain_display_ts ::
  "platform \<Rightarrow> display_ring \<Rightarrow> xcom_handle \<Rightarrow> bool \<Rightarrow> u32 \<Rightarrow> process \<Rightarrow> (u8 list \<times> u32 option) \<times> process" where
  "xcom_drain_display_ts P R h ptrs capacity p =
     (if h = HandleNull \<or> \<not> ptrs then (([], None), p)
      else on_core h ([], None) (\<lambda>s.
        case drain_step P R capacity s of
          (r, s1) \<Rightarrow>
            (if \<not> dn_more r then ([], None)
             else (dn_output r, if length (dn_output r) > 0 then dn_ingress_ms r else None), s1)) p)"

section \<open>Snapshot and errors\<close>

definition kSnapshotFloorBytes :: nat where [simp]: "kSnapshotFloorBytes = 84"
definition kSizeofSnapshot :: nat where [simp]: "kSizeofSnapshot = 88"
definition kSizeofError :: nat where [simp]: "kSizeofError = 268"

text \<open>The words the call writes behind the size, in the order of the structure.\<close>

record snapshot =
  sn_struct_size :: nat
  sn_words :: "u32 list"
  sn_port_state :: u16
  sn_late_words :: "u32 list"
  sn_modem_lines :: "u32 option"

definition snapshot_of :: "nat \<Rightarrow> 'x core_scheme \<Rightarrow> snapshot" where
  "snapshot_of caller_size c =
     (let m = c_metrics c; want_modem = (caller_size \<ge> kSizeofSnapshot)
      in \<lparr>sn_struct_size = (if want_modem then kSizeofSnapshot else kSnapshotFloorBytes),
          sn_words = [m_rx_bytes m, m_tx_bytes m, m_rx_pool_exhausted_bytes m, m_tx_rejected m, m_auto_tick_coalesced m,
             m_ui_trimmed_bytes m, m_save_rejected_bytes m, m_display_paused_bytes m, m_callback_count m, c_generation c,
             m_display_pending m],
          sn_port_state = port_code (c_port_state c),
          sn_late_words = [m_framing_errors m, m_parity_errors m, m_overrun_errors m, m_break_events m, m_rx_seq m,
             m_rx_loss_offset m, m_rx_backpressure_events m, m_flow_hold_events m],
          sn_modem_lines = (if want_modem then Some (m_modem_lines m) else None)\<rparr>)"

text \<open>The bytes of the structure that the call writes: the size, the words, the state with its padding, the rest.\<close>

definition snapshot_bytes :: "snapshot \<Rightarrow> nat" where
  "snapshot_bytes n = 4 + 4 * length (sn_words n) + 4 + 4 * length (sn_late_words n) +
     (case sn_modem_lines n of None \<Rightarrow> 0 | Some _ \<Rightarrow> 4)"

definition xcom_get_snapshot ::
  "(nat \<Rightarrow> u32) \<Rightarrow> xcom_handle \<Rightarrow> nat option \<Rightarrow> process \<Rightarrow> (i32 \<times> snapshot option) \<times> process" where
  "xcom_get_snapshot clk h output p =
     (case output of
        None \<Rightarrow> ((XCOM_ERR_PARAM, None), p)
      | Some caller_size \<Rightarrow> on_core h (XCOM_ERR_PARAM, None) (\<lambda>s.
          if caller_size < kSnapshotFloorBytes then ((XCOM_ERR_PARAM, None), s)
          else let s1 = check_thread_health clk s in ((XCOM_OK, Some (snapshot_of caller_size s1)), s1)) p)"

text \<open>Code, source and message of the error that is written to the caller.\<close>

definition xcom_take_error ::
  "xcom_handle \<Rightarrow> nat option \<Rightarrow> process \<Rightarrow> (i32 \<times> (i32 \<times> u16 \<times> string) option) \<times> process" where
  "xcom_take_error h output p =
     (case output of
        None \<Rightarrow> ((XCOM_ERR_PARAM, None), p)
      | Some caller_size \<Rightarrow> on_core h (XCOM_ERR_PARAM, None) (\<lambda>s.
          if caller_size < kSizeofError then ((XCOM_ERR_PARAM, None), s)
          else case error_ring_take (c_errors s) of
              None \<Rightarrow> ((XCOM_OK, Some (0, 0, [])), s)
            | Some (e, r) \<Rightarrow> ((XCOM_OK, Some (ee_code e, ee_source e, copy_text (c_string (ee_message e)) 256)),
                s\<lparr>c_errors := r\<rparr>)) p)"

section \<open>Files\<close>

definition xcom_log_open :: "platform \<Rightarrow> xcom_handle \<Rightarrow> string \<Rightarrow> u8 \<Rightarrow> process \<Rightarrow> i32 \<times> process" where
  "xcom_log_open P h path app = on_core h XCOM_ERR_PARAM (core_log_open (core_sink P) path (app \<noteq> 0))"

definition xcom_log_append :: "platform \<Rightarrow> xcom_handle \<Rightarrow> u8 list option \<Rightarrow> u32 \<Rightarrow> process \<Rightarrow> i32 \<times> process" where
  "xcom_log_append P h data n = on_core h XCOM_ERR_PARAM (core_log_append (core_sink P) data n)"

definition xcom_log_flush :: "platform \<Rightarrow> xcom_handle \<Rightarrow> u32 \<Rightarrow> process \<Rightarrow> i32 \<times> process" where
  "xcom_log_flush P h timeout_ms = on_core h XCOM_ERR_PARAM (core_log_flush (core_sink P) timeout_ms)"

definition xcom_log_close :: "platform \<Rightarrow> xcom_handle \<Rightarrow> u32 \<Rightarrow> process \<Rightarrow> i32 \<times> process" where
  "xcom_log_close P h timeout_ms = on_core h XCOM_ERR_PARAM (core_log_close (core_sink P) timeout_ms)"

definition xcom_file_submit_atomic ::
  "platform \<Rightarrow> xcom_handle \<Rightarrow> string \<Rightarrow> u8 list option \<Rightarrow> u32 \<Rightarrow> u64 \<Rightarrow> process \<Rightarrow> i32 \<times> process" where
  "xcom_file_submit_atomic P h path data n request =
     on_core h XCOM_ERR_PARAM (core_file_submit_atomic (core_sink P) path data n request)"

definition xcom_file_submit_atomic_borrowed ::
  "platform \<Rightarrow> xcom_handle \<Rightarrow> string \<Rightarrow> u8 list option \<Rightarrow> u32 \<Rightarrow> u64 \<Rightarrow> process \<Rightarrow> i32 \<times> process" where
  "xcom_file_submit_atomic_borrowed P h path data n request =
     on_core h XCOM_ERR_PARAM (core_file_submit_atomic_borrowed (core_sink P) path data n request)"

definition xcom_file_stream_begin :: "platform \<Rightarrow> xcom_handle \<Rightarrow> string \<Rightarrow> u64 \<Rightarrow> u64 \<Rightarrow> process \<Rightarrow> i32 \<times> process" where
  "xcom_file_stream_begin P h path stream request =
     on_core h XCOM_ERR_PARAM (core_file_stream_begin (core_sink P) path stream request)"

definition xcom_file_stream_append_borrowed ::
  "platform \<Rightarrow> xcom_handle \<Rightarrow> u64 \<Rightarrow> u8 list option \<Rightarrow> u32 \<Rightarrow> u64 \<Rightarrow> process \<Rightarrow> i32 \<times> process" where
  "xcom_file_stream_append_borrowed P h stream data n request =
     on_core h XCOM_ERR_PARAM (core_file_stream_append_borrowed (core_sink P) stream data n request)"

definition xcom_file_stream_commit :: "platform \<Rightarrow> xcom_handle \<Rightarrow> u64 \<Rightarrow> u64 \<Rightarrow> process \<Rightarrow> i32 \<times> process" where
  "xcom_file_stream_commit P h stream request =
     on_core h XCOM_ERR_PARAM (core_file_stream_commit (core_sink P) stream request)"

definition xcom_file_stream_abort :: "platform \<Rightarrow> xcom_handle \<Rightarrow> u64 \<Rightarrow> u64 \<Rightarrow> process \<Rightarrow> i32 \<times> process" where
  "xcom_file_stream_abort P h stream request =
     on_core h XCOM_ERR_PARAM (core_file_stream_abort (core_sink P) stream request)"

text \<open>The status, and the request and its status if the caller's variables are written.\<close>

definition xcom_file_take_completion ::
  "platform \<Rightarrow> xcom_handle \<Rightarrow> bool \<Rightarrow> process \<Rightarrow> (i32 \<times> (u64 \<times> i32) option) \<times> process" where
  "xcom_file_take_completion P h ptrs =
     on_core h (XCOM_ERR_PARAM, None) (\<lambda>s.
       if \<not> ptrs then ((XCOM_ERR_PARAM, None), s)
       else case core_file_take_completion (core_sink P) s of (d, st, s1) \<Rightarrow> ((st, d), s1))"

section \<open>The test seam\<close>

text \<open>\<open>None\<close> in the result is a reader that is still asleep, or a failed assertion.\<close>

definition core_ingress_env :: "platform \<Rightarrow> core_state ingress_env" where
  "core_ingress_env P = \<lparr>ie_rx = pf_rx P, ie_now_ms = pf_now P, ie_elapsed_ms = 0,
     ie_acquire_lease = (\<lambda>s. if \<not> lw_present (k_log s) then (False, s)
        else case acquire_append_lease (k_log s) of None \<Rightarrow> (False, s) | Some w \<Rightarrow> (True, s\<lparr>k_log := w\<rparr>)),
     ie_release_lease = (\<lambda>s. s\<lparr>k_log := release_append_lease (k_log s)\<rparr>),
     ie_wake_rx = (\<lambda>s. s)\<rparr>"

definition inject_rx ::
  "platform \<Rightarrow> (core_state \<Rightarrow> core_state) list \<Rightarrow> u8 list \<Rightarrow> core_state \<Rightarrow> i32 option \<times> core_state" where
  "inject_rx P wakes data s =
     (if c_port_state s \<noteq> PORT_OPEN then (Some XCOM_ERR_NOT_OPEN, s)
      else case rx_ingress (core_sink P) (core_ingress_env P) wakes data s of
          Returned AllAccepted s1 \<Rightarrow> (Some XCOM_OK, s1)
        | Returned PartialAccepted s1 \<Rightarrow> (Some XCOM_ERR_IO, s1)
        | Waiting s1 \<Rightarrow> (None, s1)
        | Asserted \<Rightarrow> (None, s\<lparr>k_aborted := True\<rparr>))"

definition xcom_test_inject_rx ::
  "platform \<Rightarrow> (core_state \<Rightarrow> core_state) list \<Rightarrow> xcom_handle \<Rightarrow> u8 list option \<Rightarrow> process \<Rightarrow> i32 option \<times> process" where
  "xcom_test_inject_rx P wakes h data p =
     (case data of None \<Rightarrow> (Some XCOM_ERR_PARAM, p)
      | Some bytes \<Rightarrow> on_core h (Some XCOM_ERR_PARAM) (inject_rx P wakes bytes) p)"

definition xcom_test_inject_line_errors ::
  "platform \<Rightarrow> xcom_handle \<Rightarrow> u32 \<Rightarrow> u32 \<Rightarrow> u32 \<Rightarrow> u32 \<Rightarrow> process \<Rightarrow> i32 \<times> process" where
  "xcom_test_inject_line_errors P h framing parity overrun brk = on_core h XCOM_ERR_PARAM (\<lambda>s.
     if c_port_state s \<noteq> PORT_OPEN then (XCOM_ERR_NOT_OPEN, s)
     else (XCOM_OK, line_status_ingress (core_sink P) framing parity overrun brk 0 s))"

end
