(* ===== verification/Abi_Facts.thy ===== *)
theory Abi_Facts
  imports Xcom_Abi
begin

text \<open>
  What a client of the C ABI can rely on: a bad handle has no effect, one session exists at a time, a
  transmit block has one owner, an accepted open request is always resolved, and no call writes past
  the structure of the caller.
\<close>

section \<open>Handles\<close>

lemma on_core_invalid [simp]: "\<not> xcom_handle_valid h p \<Longrightarrow> on_core h bad f p = (bad, p)"
  by (simp add: on_core_def)

text \<open>
  C30 (bad_handle_no_effect). Every entry point called with a handle that is not the live one (null, stale after
  a destroy, or any other address) reports a parameter error, or nothing, and leaves the process as it was.
\<close>

theorem bad_handle_no_effect:
  assumes "\<not> xcom_handle_valid h p"
  shows "xcom_open P turns h config p = (XCOM_ERR_PARAM, p) \<and> xcom_open_async P h config p = (XCOM_ERR_PARAM, p) \<and>
    xcom_take_open_result h p = (XCOM_ERR_PARAM, p) \<and> xcom_close P turns h p = (XCOM_ERR_PARAM, p) \<and>
    xcom_send P h data p = (XCOM_ERR_PARAM, p) \<and> xcom_set_auto_template P h data n interval p = (XCOM_ERR_PARAM, p) \<and>
    xcom_set_options P h opts p = (XCOM_ERR_PARAM, p) \<and> xcom_set_lines P h dtr rts p = (XCOM_ERR_PARAM, p) \<and>
    xcom_drain_display P R h ptrs capacity p = ((XCOM_ERR_PARAM, []), p) \<and>
    xcom_drain_display_ts P R h ptrs capacity p = (([], None), p) \<and>
    xcom_get_snapshot clk h out p = ((XCOM_ERR_PARAM, None), p) \<and> xcom_take_error h out p = ((XCOM_ERR_PARAM, None), p) \<and>
    xcom_log_open P h path app p = (XCOM_ERR_PARAM, p) \<and> xcom_log_append P h data m p = (XCOM_ERR_PARAM, p) \<and>
    xcom_log_flush P h t p = (XCOM_ERR_PARAM, p) \<and> xcom_log_close P h t p = (XCOM_ERR_PARAM, p) \<and>
    xcom_file_submit_atomic P h path data m r p = (XCOM_ERR_PARAM, p) \<and>
    xcom_file_submit_atomic_borrowed P h path data m r p = (XCOM_ERR_PARAM, p) \<and>
    xcom_file_stream_begin P h path stream r p = (XCOM_ERR_PARAM, p) \<and>
    xcom_file_stream_append_borrowed P h stream data m r p = (XCOM_ERR_PARAM, p) \<and>
    xcom_file_stream_commit P h stream r p = (XCOM_ERR_PARAM, p) \<and>
    xcom_file_stream_abort P h stream r p = (XCOM_ERR_PARAM, p) \<and>
    xcom_file_take_completion P h ptrs p = ((XCOM_ERR_PARAM, None), p) \<and>
    xcom_test_inject_rx P wakes h data p = (Some XCOM_ERR_PARAM, p) \<and>
    xcom_test_inject_line_errors P h f1 f2 f3 f4 p = (XCOM_ERR_PARAM, p) \<and> xcom_destroy P h p = Some p"
  using assms
  by (simp add: xcom_open_def xcom_open_async_def xcom_take_open_result_def xcom_close_def xcom_send_def
      xcom_set_auto_template_def xcom_set_options_def xcom_set_lines_def xcom_drain_display_def xcom_drain_display_ts_def
      xcom_get_snapshot_def xcom_take_error_def xcom_log_open_def xcom_log_append_def xcom_log_flush_def xcom_log_close_def
      xcom_file_submit_atomic_def xcom_file_submit_atomic_borrowed_def xcom_file_stream_begin_def
      xcom_file_stream_append_borrowed_def xcom_file_stream_commit_def xcom_file_stream_abort_def
      xcom_file_take_completion_def xcom_test_inject_rx_def xcom_test_inject_line_errors_def xcom_destroy_def
      split: option.split)

theorem bad_handle_no_effect_witness:
  "xcom_send platform_ok (HandleOther 5) (Some [1]) process_init = (XCOM_ERR_PARAM, process_init)"
proof -
  have "\<not> xcom_handle_valid (HandleOther 5) process_init" by (simp add: xcom_handle_valid_def)
  then show ?thesis
    by (rule bad_handle_no_effect [THEN conjunct2, THEN conjunct2, THEN conjunct2, THEN conjunct2, THEN conjunct1])
qed

text \<open>The process under its clients' calls: creating, destroying, and calls that change the session in any way.\<close>

inductive process_reach :: "platform \<Rightarrow> process \<Rightarrow> bool" for P where
  ps_init: "process_reach P process_init"
| ps_create: "\<lbrakk>process_reach P p; xcom_create P A options p = Some (h, p')\<rbrakk> \<Longrightarrow> process_reach P p'"
| ps_call: "\<lbrakk>process_reach P p; pr_core p = Some s\<rbrakk> \<Longrightarrow> process_reach P (p\<lparr>pr_core := Some s'\<rparr>)"
| ps_destroy: "\<lbrakk>process_reach P p; xcom_destroy P h p = Some p'\<rbrakk> \<Longrightarrow> process_reach P p'"

definition process_ok :: "process \<Rightarrow> bool" where
  "process_ok p \<longleftrightarrow> (pr_core p = None \<longleftrightarrow> pr_handle p = None) \<and> (pr_handle p \<noteq> None \<longrightarrow> handle_live p)"

lemma destroy_empties:
  assumes "process_ok p" "xcom_handle_destroy P p = Some p'" "pr_core p \<noteq> None"
  shows "p' = process_init"
  using assms by (cases p) (auto simp: process_ok_def xcom_handle_destroy_def process_init_def)

lemma process_ok_init: "process_ok process_init"
  by (simp add: process_ok_def process_init_def)

text \<open>Creation: refused with no change while a session exists, otherwise a live session or none.\<close>

lemma create_occupied:
  assumes "process_ok p" "pr_core p \<noteq> None"
  shows "xcom_create P A options p = Some (HandleNull, p)"
  using assms by (auto simp: xcom_create_def xcom_handle_create_def slot_emplace_def split: option.split)

lemma create_empty:
  assumes "process_ok p" "pr_core p = None" "xcom_create P A options p = Some (h, p')"
  shows "process_ok p' \<and> (if h = HandleNull then pr_core p' = None else h = HandleSlot \<and> pr_core p' \<noteq> None)"
proof -
  let ?p1 = "p\<lparr>pr_core := Some core_state_init, pr_handle := Some \<lparr>hd_generation = 0, hd_magic = kHandleMagic\<rparr>\<rparr>"
  have h: "xcom_handle_create p = (HandleSlot, ?p1)"
    using assms(1,2) by (simp add: xcom_handle_create_def slot_emplace_def process_ok_def)
  obtain ok s where b: "boot A core_state_init = (ok, s)" by (meson surj_pair)
  have boot: "xcom_handle_boot A ?p1 = (if ok then XCOM_OK else XCOM_ERR_IO, ?p1\<lparr>pr_core := Some s\<rparr>)"
    using b by (simp add: xcom_handle_boot_def handle_live_def)
  have ok2: "process_ok (?p1\<lparr>pr_core := Some s\<rparr>)" by (simp add: process_ok_def handle_live_def)
  have "xcom_handle_destroy P (?p1\<lparr>pr_core := Some s\<rparr>) = Some p' \<Longrightarrow> p' = process_init"
    using destroy_empties [OF ok2] by simp
  then show ?thesis
    using assms h boot ok2 process_ok_init
    by (auto simp: xcom_create_def process_init_def split: if_splits option.splits)
qed

lemma process_reach_ok: "process_reach P p \<Longrightarrow> process_ok p"
proof (induction rule: process_reach.induct)
  case ps_init
  then show ?case by (rule process_ok_init)
next
  case (ps_create p A options h p')
  show ?case
  proof (cases "pr_core p = None")
    case True
    from create_empty [OF ps_create.IH True ps_create.hyps(2)] show ?thesis by blast
  next
    case False
    from create_occupied [OF ps_create.IH this] ps_create.hyps(2) have "p' = p" by (simp only: option.inject prod.inject)
    then show ?thesis using ps_create.IH by (simp only:)
  qed
next
  case (ps_call p s s')
  then show ?case by (auto simp: process_ok_def handle_live_def)
next
  case (ps_destroy p h p')
  then show ?case
    using destroy_empties [of p P p'] process_ok_init
    by (auto simp: xcom_destroy_def xcom_handle_valid_def process_ok_def split: if_splits)
qed

text \<open>
  In every process state that the ABI reaches there is at most one session, and the handle
  is valid exactly while it exists. Creating a second one returns null and changes nothing; creating
  one in an empty process returns either a valid handle or null with nothing left behind; destroying the
  live handle returns the process to its initial state, so the handle is stale from then on.
\<close>

theorem single_session:
  assumes "process_reach P p"
  shows "(xcom_handle_valid HandleSlot p \<longleftrightarrow> pr_core p \<noteq> None) \<and>
    (pr_core p \<noteq> None \<longrightarrow> xcom_create P A options p = Some (HandleNull, p)) \<and>
    (\<forall>h p'. pr_core p = None \<longrightarrow> xcom_create P A options p = Some (h, p') \<longrightarrow>
       (if h = HandleNull then pr_core p' = None \<and> pr_handle p' = None else xcom_handle_valid h p')) \<and>
    (\<forall>h p'. xcom_handle_valid h p \<longrightarrow> xcom_destroy P h p = Some p' \<longrightarrow> p' = process_init)"
proof -
  note ok = process_reach_ok [OF assms]
  have "p' = process_init" if "xcom_handle_valid h p" "xcom_destroy P h p = Some p'" for h p'
    using that destroy_empties [OF ok] ok by (auto simp: xcom_destroy_def xcom_handle_valid_def process_ok_def)
  moreover have "if h = HandleNull then pr_core p' = None \<and> pr_handle p' = None else xcom_handle_valid h p'"
    if "pr_core p = None" "xcom_create P A options p = Some (h, p')" for h p'
    using create_empty [OF ok that] by (auto simp: process_ok_def xcom_handle_valid_def split: if_splits)
  moreover have "xcom_handle_valid HandleSlot p \<longleftrightarrow> pr_core p \<noteq> None"
    using ok by (simp add: xcom_handle_valid_def process_ok_def)
  moreover note create_occupied [OF ok, of P A options]
  ultimately show ?thesis by blast
qed

definition boot_ok :: boot_answers where
  "boot_ok = \<lparr>ba_binds = replicate 5 True, ba_rx_pool = True, ba_getenv = (\<lambda>_ _. (0, [])), ba_control_pool = True, ba_initialize = True, ba_start = True\<rparr>"

theorem single_session_witness:
  "\<exists>p. process_reach platform_ok p \<and> pr_core p \<noteq> None \<and> xcom_create platform_ok boot_ok None p = Some (HandleNull, p)"
proof -
  obtain p where c: "xcom_create platform_ok boot_ok None process_init = Some (HandleSlot, p)" "pr_core p \<noteq> None"
    by (simp add: xcom_create_def xcom_handle_create_def slot_emplace_def process_init_def xcom_handle_boot_def handle_live_def
        boot_def boot_ok_def diag_start_effect_def diag_disabled_def diag_note_path_def Let_def numeral_eq_Suc)
  have "process_reach platform_ok p" by (rule ps_create [OF ps_init c(1)])
  then show ?thesis using single_session c(2) by blast
qed

section \<open>Transmit blocks\<close>

lemma fill_fresh_block:
  assumes "tx_inv p" "tx_try_alloc p = Some (b, q)" "length data \<le> kTxBlockBytes"
  shows "unat b \<notin> fpool.used p" "tx_inv (fixed_pool_write q (unat b) data)"
    "fpool.used (fixed_pool_write q (unat b) data) = insert (unat b) (fpool.used p)"
    "fixed_pool_read (fixed_pool_write q (unat b) data) (unat b) 0 (length data) = data"
proof -
  note I = tx_invD [OF assms(1)]
  obtain i where a: "fixed_pool_allocate p = Some (i, q)" and b: "b = of_nat i"
    using assms(2) by (auto simp: tx_try_alloc_def)
  note f = fpool.alloc_fresh [OF I(1) a] and s = fpool.alloc_Some [OF I(1) a]
  have i: "i < 32" using f I(2) by simp
  then have u: "unat b = i" using b by (simp add: unat_of_nat_u16)
  have q: "fp_inv q" "fp_count q = 32" "\<And>c. fp_bytes q c = fp_bytes p c" using s I(2) by auto
  have used: "i \<in> fpool.used q" using f by simp
  have len: "length data \<le> fp_bytes q i" using assms(3) I(3) [OF i] q(3) by simp
  have nf: "i \<notin> fp_free q" using used by (simp add: fpool.used_def)
  note w = fpool.write_used [OF q(1) used len] and wl = fpool.write_law [OF q(1) _ nf len]
  show "unat b \<notin> fpool.used p" using f u by simp
  show "tx_inv (fixed_pool_write q (unat b) data)"
    using w wl i q I u by (simp add: tx_inv_def)
  show "fpool.used (fixed_pool_write q (unat b) data) = insert (unat b) (fpool.used p)"
    using w f u by simp
  show "fixed_pool_read (fixed_pool_write q (unat b) data) (unat b) 0 (length data) = data"
    using fpool.read_write [of i q data 0 "length data"] i q(2) u by simp
qed

lemma give_back_spec:
  assumes "tx_inv (c_tx s)" "unat b \<in> fpool.used (c_tx s)"
  shows "tx_inv (c_tx (give_back_block b s))" "fpool.used (c_tx (give_back_block b s)) = fpool.used (c_tx s) - {unat b}"
    "k_posted (give_back_block b s) = k_posted s" "k_aborted (give_back_block b s) = k_aborted s"
proof -
  obtain q where "tx_release b (c_tx s) = Some q" "tx_inv q" "fpool.used q = fpool.used (c_tx s) - {unat b}"
    using tx_release_used [OF assms] by blast
  moreover from this(1) have "give_back_block b s = s\<lparr>c_tx := q\<rparr>" by (simp add: give_back_block_def core_tx_release_def)
  ultimately show "tx_inv (c_tx (give_back_block b s))" "fpool.used (c_tx (give_back_block b s)) = fpool.used (c_tx s) - {unat b}"
    "k_posted (give_back_block b s) = k_posted s" "k_aborted (give_back_block b s) = k_aborted s"
    by simp_all
qed

lemma submit_write_spec:
  assumes "submit_write (core_sink P) d s = (st, s')" "\<And>s e c. pf_submit P s e c \<noteq> SdMerged"
  shows "c_tx s' = c_tx s \<and> k_posted s' = k_posted s @ (if st = XCOM_OK then [PostSend d] else [])"
  using assms(1) assms(2) [of s "PostSend d" False]
  by (cases "pf_submit P s (PostSend d) False")
    (auto simp: submit_write_def sink_submit_write_def post_def disposition_accepted_def Let_def split: if_splits)

text \<open>
  A send copies the caller's bytes into a fresh transmit block. If it reports
  OK for a non-empty payload, exactly that block is newly in use, it holds the bytes, and exactly one
  descriptor with it, the length and the current generation has been handed to the Dispatcher, which owns
  it from then on. In every other case (nothing to send, too long, port not open, pool empty, refused
  by the Dispatcher) no block stays in use and nothing was handed over.
\<close>

theorem send_block_has_one_owner:
  assumes "tx_inv (c_tx s)" "\<And>s e c. pf_submit P s e c \<noteq> SdMerged" "send_bytes P data s = (st, s')"
  shows "tx_inv (c_tx s') \<and>
    (if st = XCOM_OK \<and> data \<noteq> [] then
       \<exists>b. unat b \<notin> fpool.used (c_tx s) \<and> fpool.used (c_tx s') = insert (unat b) (fpool.used (c_tx s)) \<and>
         fixed_pool_read (c_tx s') (unat b) 0 (length data) = data \<and>
         k_posted s' = k_posted s @
           [PostSend \<lparr>td_block = b, td_length = of_nat (length data), td_generation = c_generation s\<rparr>]
     else fpool.used (c_tx s') = fpool.used (c_tx s) \<and> k_posted s' = k_posted s)"
proof -
  have rej: "c_tx (count_tx_rejected x) = c_tx x" "k_posted (count_tx_rejected x) = k_posted x"
      "c_tx (on_metrics f x) = c_tx x" "k_posted (on_metrics f x) = k_posted x" for x :: core_state and f
    by (simp_all add: count_tx_rejected_def)
  consider "data = []" | "data \<noteq> []" "length data > kTxBlockBytes \<or> c_port_state s \<noteq> PORT_OPEN \<or> tx_try_alloc (c_tx s) = None"
    | b q where "data \<noteq> []" "\<not> length data > kTxBlockBytes" "c_port_state s = PORT_OPEN" "tx_try_alloc (c_tx s) = Some (b, q)"
    by (cases "tx_try_alloc (c_tx s)") auto
  then show ?thesis
  proof cases
    case 3
    define s1 where "s1 = tx_fill b data (s\<lparr>c_tx := q\<rparr>)"
    let ?d = "\<lparr>td_block = b, td_length = of_nat (length data), td_generation = c_generation s\<rparr>"
    have "length data \<le> kTxBlockBytes" using 3 by simp
    note fill = fill_fresh_block [OF assms(1) 3(4) this]
    have t: "c_tx s1 = fixed_pool_write q (unat b) data" "k_posted s1 = k_posted s" "c_generation s1 = c_generation s"
      by (simp_all add: s1_def tx_fill_def)
    obtain st2 s2 where w: "submit_write (core_sink P) ?d s1 = (st2, s2)" by (meson surj_pair)
    note sub = submit_write_spec [OF w assms(2)]
    have s2: "tx_inv (c_tx s2)" "unat b \<in> fpool.used (c_tx s2)" using sub fill t by auto
    have r: "(st, s') = (if st2 \<noteq> XCOM_OK
        then (st2, if st2 = XCOM_ERR_BUSY
                   then on_metrics (\<lambda>m. m\<lparr>m_tx_rejected_overload := m_tx_rejected_overload m + 1\<rparr>)
                          (count_tx_rejected (give_back_block b s2))
                   else count_tx_rejected (give_back_block b s2))
        else (XCOM_OK, s2))"
      using assms(3) 3 w by (auto simp: send_bytes_def s1_def [symmetric] t(3) Let_def simp del: on_metrics_def)
    show ?thesis
    proof (cases "st2 = XCOM_OK")
      case True
      then have "st = XCOM_OK" "s' = s2" using r by simp_all
      then show ?thesis using sub fill t True 3(1) by auto
    next
      case False
      have e: "st = st2" "c_tx s' = c_tx (give_back_block b s2)" "k_posted s' = k_posted (give_back_block b s2)"
        using r False by (simp_all add: rej del: on_metrics_def split: if_splits)
      show ?thesis using e False give_back_spec [OF s2] sub fill t by auto
    qed
  next
    case 2
    then show ?thesis using assms(1,3) by (auto simp: send_bytes_def rej split: if_splits)
  next
    case 1
    then show ?thesis using assms(1,3) by (simp add: send_bytes_def)
  qed
qed

theorem send_block_has_one_owner_witness:
  "\<exists>b. fixed_pool_read (c_tx (snd (send_bytes platform_ok [7, 8] (state_com3\<lparr>c_port_state := PORT_OPEN\<rparr>)))) b 0 2 = [7, 8]"
proof -
  let ?s = "state_com3\<lparr>c_port_state := PORT_OPEN\<rparr>"
  obtain st s' where r: "send_bytes platform_ok [7, 8] ?s = (st, s')" by (meson surj_pair)
  have tx: "c_tx ?s = tx_pool_init"
    by (simp add: state_com3_def core_state_init_def core.extend_def core_init_def)
  have "tx_try_alloc tx_pool_init \<noteq> None"
    using fpool.alloc_None [OF tx_invD(1) [OF tx_inv_init(1)]] fpool.card_split [OF tx_invD(1) [OF tx_inv_init(1)]]
      tx_inv_init(2) tx_invD(2) [OF tx_inv_init(1)] by (auto simp: tx_try_alloc_def)
  then have "st = XCOM_OK"
    using r by (auto simp: send_bytes_def tx submit_write_def sink_submit_write_def post_def platform_ok_def tx_fill_def Let_def)
  moreover have "tx_inv (c_tx ?s)" using tx tx_inv_init(1) by simp
  moreover have "pf_submit platform_ok s e c \<noteq> SdMerged" for s e c by (simp add: platform_ok_def)
  ultimately obtain b :: u16 where "fixed_pool_read (c_tx s') (unat b) 0 (length [7, 8 :: u8]) = [7, 8]"
    using send_block_has_one_owner [of ?s platform_ok "[7, 8]" st s'] r by auto
  then show ?thesis using r by (intro exI [of _ "unat b"]) (simp add: numeral_2_eq_2)
qed

section \<open>An accepted open request is resolved\<close>

text \<open>Native error codes are not negative, as Win32's are.\<close>

definition native_codes_ok :: "platform \<Rightarrow> bool" where
  "native_codes_ok P \<longleftrightarrow> (\<forall>s opts b. 0 \<le> fst (snd (backend_open (pf_open P s) opts b)))"

lemma owner_parts_result: "owner_parts a = owner_parts b \<Longrightarrow> c_last_open_result a = c_last_open_result b"
  by (simp add: owner_parts_def)

lemma start_writer_result: "c_last_open_result (start_session_writer P s) \<noteq> XCOM_ERR_BUSY"
  by (simp add: start_session_writer_def Let_def split: prod.split)

lemma owner_open_resolves:
  assumes "native_codes_ok P"
  shows "c_last_open_result (sink_owner_open P s) \<noteq> XCOM_ERR_BUSY"
proof -
  let ?s0 = "s\<lparr>c_heartbeats := (c_heartbeats s)\<lparr>hb_serial_read_ms := pf_now P\<rparr>\<rparr>"
  let ?s1 = "on_metrics (\<lambda>m. m\<lparr>m_modem_lines := 0\<rparr>) ?s0"
  obtain ok e ws b where o: "backend_open (pf_open P ?s1) (session_options ?s1) (k_backend ?s1) = (ok, e, ws, b)"
    by (metis prod_cases4)
  have "0 \<le> fst (snd (backend_open (pf_open P ?s1) (session_options ?s1) (k_backend ?s1)))"
    using assms by (simp only: native_codes_ok_def)
  then have "write_error_code e \<noteq> XCOM_ERR_BUSY" unfolding o by (auto simp: write_error_code_def)
  then show ?thesis
    unfolding sink_owner_open_def Let_def o prod.case using start_writer_result [of P] by simp
qed

lemma owner_close_result: "c_last_open_result (sink_owner_close P s) = c_last_open_result s"
proof -
  let ?p = "close_prologue P s"
  let ?o = "other_steps P (pf_during_close P ?p) ?p"
  have "c_last_open_result ?p = c_last_open_result s"
    by (simp add: close_prologue_def release_deferred_def release_deferred_rx_def autosend_set_impl_def
      count_deferred_display_loss_def count_rejected_rx_def Let_def split: option.split)
  moreover have "c_last_open_result ?o = c_last_open_result ?p" by (rule owner_parts_result) simp
  moreover have "c_last_open_result (stop_session_writer ?o) = c_last_open_result ?o"
    by (rule owner_parts_result) (rule stop_session_writer_result(2))
  moreover have "c_last_open_result (close_epilogue x) =
      (if sw_active (k_writer x) then c_last_open_result (stop_session_writer x) else c_last_open_result x)" for x
    by (simp add: close_epilogue_def push_error_def Let_def)
  ultimately show ?thesis by (simp add: owner_close_split)
qed

lemma transition_keeps_result:
  assumes "ev \<noteq> EvOpen"
  shows "c_last_open_result (snd (serial_transition (core_sink P) R ev (st, c))) = c_last_open_result c"
proof -
  have reset: "c_last_open_result (reset_display_at_commit R x) = c_last_open_result x" for x :: core_state
    by (simp add: reset_display_at_commit_def reset_display_committed_def count_rejected_rx_def Let_def split: prod.split)
  have control: "c_last_open_result (snd (submit_control (core_sink P) sg w crit x)) = c_last_open_result x" for sg w crit x
    by (simp add: submit_control_def sink_submit_control_def post_def Let_def)
  have act: "c_last_open_result (snd (serial_run_action (core_sink P) R a t x)) = c_last_open_result x" if "a \<noteq> ActOwnerOpen" for a t x
    using that
  proof (cases a)
    case ActCancelClose
    obtain ok y where y: "submit_control (core_sink P) SigClose 0 True x = (ok, y)" by (meson surj_pair)
    then have "c_last_open_result y = c_last_open_result x" using control [of SigClose 0 True x] by simp
    then show ?thesis
      using ActCancelClose y owner_close_result by (cases ok) (simp_all add: call_owner_close_def push_error_def)
  qed (simp_all add: call_owner_close_def owner_close_result core_diag_emit_def sink_diag_emit_def reset Let_def)
  show ?thesis
  proof (cases "serial_find_edge ev (st, c)")
    case (Some e)
    have ne: "se_action e \<noteq> ActOwnerOpen"
      using Some assms by (cases ev) (auto split: if_splits)
    obtain o1 d1 where a1: "serial_run_action (core_sink P) R (se_action e) (se_to e) (c\<lparr>c_port_state := se_to e\<rparr>) = (o1, d1)"
      by (meson surj_pair)
    obtain o2 d2 where a2: "serial_run_action (core_sink P) R (se_action e) (se_to e) c = (o2, d2)" by (meson surj_pair)
    show ?thesis
      using Some act [OF ne, of "se_to e" "c\<lparr>c_port_state := se_to e\<rparr>"] act [OF ne, of "se_to e" c] a1 a2
      by (simp add: serial_transition_def serial_publish_def Let_def)
  qed (simp add: serial_transition_def)
qed

lemma queue_open_accepts:
  assumes "queue_open P config s = (XCOM_OK, s1)"
  shows "c_last_open_result s1 = XCOM_ERR_BUSY" "\<not> c_cancel_open s1" "c_port_state s1 = PORT_CLOSED \<or> c_port_state s1 = PORT_FAULT"
    "serial_same s s1" "c_cfg s1 = or_cfg (the config)"
proof -
  have r: "open_refusal s config = None" using assms
    by (auto simp: queue_open_def open_refusal_def port_name_from_config_def split: option.splits if_splits prod.splits)
  let ?name = "snd (port_name_from_config config)"
  obtain b x where n: "sync_port_name (Some ?name) s = (b, x)" by (meson surj_pair)
  let ?s4 = "push_error 0 0 ''open requested'' ((x\<lparr>c_virtual_port := is_virtual_port ?name, c_cfg := or_cfg (the config)\<rparr>)
      \<lparr>c_last_open_result := XCOM_ERR_BUSY, c_cancel_open := False\<rparr>)"
  obtain ok s5 where c: "submit_control (core_sink P) SigOpen 0 False ?s4 = (ok, s5)" by (meson surj_pair)
  have b: "b" "ok" "s1 = s5"
    using assms r n c by (auto simp: queue_open_def Let_def split: bool.splits)
  have x: "\<exists>nm. x = s\<lparr>c_port_name := nm\<rparr>" using n by (auto simp: sync_port_name_def split: if_splits)
  have k: "s5 = ?s4 \<or> (\<exists>q. s5 = ?s4\<lparr>k_posted := q\<rparr>)"
    using c by (auto simp: submit_control_def sink_submit_control_def post_def Let_def split: if_splits)
  have st: "c_port_state s = PORT_CLOSED \<or> c_port_state s = PORT_FAULT"
    using r by (auto simp: open_refusal_def split: prod.splits if_splits)
  show "c_last_open_result s1 = XCOM_ERR_BUSY" "\<not> c_cancel_open s1" "c_port_state s1 = PORT_CLOSED \<or> c_port_state s1 = PORT_FAULT"
    "serial_same s s1" "c_cfg s1 = or_cfg (the config)"
    using k x b(3) st by (auto simp: serial_same_def push_error_def)
qed

lemma open_from_resolves:
  assumes "native_codes_ok P" "st = PORT_CLOSED \<or> st = PORT_FAULT"
  shows "c_last_open_result (snd (serial_open_from (core_sink P) R (st, c))) \<noteq> XCOM_ERR_BUSY"
proof -
  let ?c = "sink_owner_open P (c\<lparr>c_port_state := PORT_OPENING\<rparr>)"
  have o: "serial_transition (core_sink P) R EvOpen (st, c) = (PORT_OPENING, ?c)"
    using assms(2) by (simp add: lifecycle.open_transition call_owner_open_def)
  have "c_last_open_result ?c \<noteq> XCOM_ERR_BUSY" by (rule owner_open_resolves [OF assms(1)])
  moreover have "c_last_open_result (?c\<lparr>c_cancel_open := b\<rparr>) = c_last_open_result ?c" for b by simp
  ultimately show ?thesis
    using transition_keeps_result [of EvOpenDone P R PORT_OPENING] transition_keeps_result [of EvCancel P R PORT_OPENING]
    by (simp add: serial_open_from_def o Let_def del: XCOM_ERR_BUSY_def)
qed

lemma reconcile_idle_or_fault:
  assumes "lifecycle_inv (st, s)" "c_port_state s = PORT_CLOSED \<or> c_port_state s = PORT_FAULT"
    "serial_reconcile_pending_fault (core_sink P) R (st, s) = (st', s')"
  shows "st' = PORT_CLOSED \<or> st' = PORT_FAULT"
proof (cases "c_fault_pending s \<and> st \<noteq> PORT_CLOSED \<and> st \<noteq> PORT_FAULT")
  case True
  then show ?thesis
    using assms(3) by (cases st) (auto simp: serial_reconcile_pending_fault_def lifecycle.fault_transition Let_def)
next
  case False
  then have i: "\<not> c_fault_pending s \<or> st = PORT_CLOSED \<or> st = PORT_FAULT" by blast
  then have "st' = st" using assms(3) by (simp add: lifecycle.reconcile_idle [OF i])
  then show ?thesis using lifecycle_invD(1) [OF assms(1)] assms(2) False by auto
qed

lemma failure_status_terminal:
  "open_failure_status c < 0 \<and> open_failure_status c \<noteq> XCOM_ERR_BUSY"
  by (auto simp: open_failure_status_def open_failure_status_from_result_def)

lemma configure_honest_codes:
  "cr_error (configure (configure_honest a) b) = Some e \<Longrightarrow> 0 \<le> e"
  by (auto simp: configure_def configure_honest_def configure_fails_def Let_def split: if_splits prod.splits)

lemma platform_ok_codes: "native_codes_ok platform_ok"
proof -
  have "validate_serial_options opts = Some e \<Longrightarrow> 0 \<le> e" for opts e
    by (auto simp: validate_serial_options_def split: if_splits)
  then show ?thesis
    by (auto simp: native_codes_ok_def platform_ok_def open_answers_ok_def backend_open_def Let_def
        dest: configure_honest_codes split: option.split)
qed

text \<open>
  C10 (open_request_resolved). An open request that was accepted leaves the client polling BUSY, and the next run
  of the open handler, in whatever state of the lifecycle it finds the owner, ends the wait: the pending
  mark is gone, the owner is not left in OPENING, and the poll answers OK exactly when the port is OPEN
  and a definite negative failure, never BUSY, otherwise.
\<close>

theorem open_request_resolved:
  assumes "native_codes_ok P" "quiet_when_closed P" "lifecycle_inv (st, s)" "queue_open P config s = (XCOM_OK, s1)"
    "serial_do_open (core_sink P) R now (st, s1) = (st', s2)"
  shows "take_open_result s1 = XCOM_ERR_BUSY \<and> c_last_open_result s2 \<noteq> XCOM_ERR_BUSY \<and> st' \<noteq> PORT_OPENING \<and>
    (take_open_result s2 = XCOM_OK \<longleftrightarrow> c_port_state s2 = PORT_OPEN) \<and> take_open_result s2 \<noteq> XCOM_ERR_BUSY"
proof -
  note q = queue_open_accepts [OF assms(4)]
  have i1: "lifecycle_inv (st, s1)" by (rule inv_same [OF assms(3) q(4)])
  let ?b = "beat_dispatcher now s1"
  have ib: "lifecycle_inv (st, ?b)" by (rule inv_same [OF i1]) (simp add: serial_same_def)
  obtain st3 s3 where r: "serial_reconcile_pending_fault (core_sink P) R (st, ?b) = (st3, s3)" by (meson surj_pair)
  have "st3 = PORT_CLOSED \<or> st3 = PORT_FAULT" by (rule reconcile_idle_or_fault [OF ib _ r]) (use q(3) in simp)
  from open_from_resolves [OF assms(1) this, of R s3] have res: "c_last_open_result s2 \<noteq> XCOM_ERR_BUSY"
    using assms(5) r by (simp add: serial_do_open_def)
  have "lifecycle_inv (st', s2)" using open_keeps_inv [OF i1 assms(2), of R now] assms(5) by simp
  note i2 = lifecycle_invD [OF this]
  have "c_port_state s2 \<noteq> PORT_OPENING" using i2(1,2) by auto
  then show ?thesis
    using res i2(2) q(1,3) failure_status_terminal [of s2] by (auto simp: take_open_result_def)
qed

theorem open_request_resolved_witness:
  "take_open_result (snd (serial_do_open (core_sink platform_ok) display_ring_list 1
     (PORT_CLOSED, snd (queue_open platform_ok
        (Some \<lparr>or_struct_size = 32, or_port = Some ''TEST'', or_cfg = \<lparr>cfg_baud = 9600, cfg_data_bits = 8, cfg_stop_bits = 0,
           cfg_parity = 0, cfg_flow_control = 0, cfg_dtr_enable = 0, cfg_rts_enable = 0\<rparr>\<rparr>) core_state_init)))) \<noteq> XCOM_ERR_BUSY"
proof -
  let ?g = "Some \<lparr>or_struct_size = 32, or_port = Some ''TEST'', or_cfg = \<lparr>cfg_baud = 9600, cfg_data_bits = 8, cfg_stop_bits = 0,
           cfg_parity = 0, cfg_flow_control = 0, cfg_dtr_enable = 0, cfg_rts_enable = 0\<rparr>\<rparr>"
  obtain s1 where q: "queue_open platform_ok ?g core_state_init = (XCOM_OK, s1)"
    by (simp add: queue_open_def open_refusal_def port_name_from_config_def config_in_range_def copy_text_def sync_port_name_def
        submit_control_def sink_submit_control_def post_def platform_ok_def control_target_def disposition_accepted_def Let_def
        core_state_init_def core.extend_def core_init_def)
  have "native_codes_ok platform_ok" by (rule platform_ok_codes)
  moreover have "lifecycle_inv (PORT_CLOSED, core_state_init)" using reach_inv [OF lifecycle_reach.start platform_ok_quiet] .
  ultimately show ?thesis
    using open_request_resolved [OF _ platform_ok_quiet _ q surjective_pairing] q by simp
qed

text \<open>
  C40 (open_timeout_race). The owner looks at the cancel mark once, before it commits the open. A caller whose
  deadline expires after that look is told TIMEOUT and sets the mark, and yet the commit publishes OPEN:
  the mark stays behind unread, and the session the caller was told had timed out is live.
\<close>

theorem open_timeout_race:
  assumes "serial_transition (core_sink P) R EvOpen o1 = (PORT_OPENING, s)" "c_last_open_result s = XCOM_OK"
    "\<not> c_cancel_open s" "poll_open 0 turns s = (r, s1)" "serial_transition (core_sink P) R EvOpenDone (PORT_OPENING, s1) = (st, s2)"
  shows "serial_open_from (core_sink P) R o1 = serial_transition (core_sink P) R EvOpenDone (PORT_OPENING, s) \<and>
    r = XCOM_ERR_TIMEOUT \<and> st = PORT_OPEN \<and> c_port_state s2 = PORT_OPEN \<and> c_cancel_open s2 \<and> take_open_result s2 = XCOM_OK"
proof -
  have reset: "c_cancel_open (reset_display_at_commit R x) = c_cancel_open x" for x :: core_state
    by (simp add: reset_display_at_commit_def reset_display_committed_def count_rejected_rx_def Let_def split: prod.split)
  have same: "s\<lparr>c_cancel_open := False\<rparr> = s" using assms(3) by simp
  have s1: "r = XCOM_ERR_TIMEOUT" "s1 = s\<lparr>c_cancel_open := True\<rparr>" using assms(4) by auto
  have uninterrupted: "serial_open_from (core_sink P) R o1 = serial_transition (core_sink P) R EvOpenDone (PORT_OPENING, s\<lparr>c_cancel_open := False\<rparr>)"
    using assms(1-3) by (simp add: serial_open_from_def Let_def)
  have "st = PORT_OPEN \<and> c_port_state s2 = PORT_OPEN \<and> c_cancel_open s2"
    using assms(2,5) s1(2)
    by (auto simp: serial_transition_def serial_publish_def serial_open_succeeded_def core_diag_emit_def
        sink_diag_emit_def reset Let_def)
  then show ?thesis using uninterrupted [unfolded same] s1(1) by (simp add: take_open_result_def)
qed

theorem open_timeout_race_witness:
  "c_port_state (snd (serial_transition (core_sink platform_ok) display_ring_list EvOpenDone
     (PORT_OPENING, snd (poll_open 0 [] (snd (serial_transition (core_sink platform_ok) display_ring_list EvOpen
        (PORT_CLOSED, state_virtual))))))) = PORT_OPEN"
proof -
  let ?s = "snd (serial_transition (core_sink platform_ok) display_ring_list EvOpen (PORT_CLOSED, state_virtual))"
  have o: "serial_transition (core_sink platform_ok) display_ring_list EvOpen (PORT_CLOSED, state_virtual) =
      (PORT_OPENING, ?s)" by (simp add: lifecycle.open_transition)
  have v: "c_last_open_result ?s = XCOM_OK" "\<not> c_cancel_open ?s"
    by (simp_all add: lifecycle.open_transition call_owner_open_def sink_owner_open_def start_session_writer_def
        state_virtual_def platform_ok_def sw_start_def other_steps_def Let_def)
  show ?thesis
    using open_timeout_race [OF o v surjective_pairing surjective_pairing] by blast
qed

section \<open>Structures of the caller\<close>

text \<open>
  A snapshot is refused exactly below the 84-byte floor; otherwise the call writes exactly the
  size it reports, never more than the caller gave, and the modem word exactly when the caller has room
  for it.
\<close>

theorem snapshot_fits:
  assumes "xcom_handle_valid h p" "xcom_handle_core p = Some s" "xcom_get_snapshot clk h (Some n) p = ((st, out), p')"
  shows "(st = XCOM_ERR_PARAM \<longleftrightarrow> n < 84) \<and>
    (case out of None \<Rightarrow> n < 84
     | Some sn \<Rightarrow> snapshot_bytes sn = sn_struct_size sn \<and> snapshot_bytes sn \<le> n \<and> (sn_modem_lines sn \<noteq> None \<longleftrightarrow> 88 \<le> n))"
  using assms
  by (auto simp: xcom_get_snapshot_def on_core_def xcom_handle_core_def snapshot_of_def snapshot_bytes_def Let_def
      split: if_splits option.splits)

definition process_live :: process where
  "process_live = \<lparr>pr_core = Some core_state_init, pr_handle = Some \<lparr>hd_generation = 0, hd_magic = kHandleMagic\<rparr>\<rparr>"

theorem snapshot_fits_witness:
  "fst (fst (xcom_get_snapshot (\<lambda>_. 0) HandleSlot (Some 84) process_live)) \<noteq> XCOM_ERR_PARAM"
proof -
  have h: "xcom_handle_valid HandleSlot process_live" "xcom_handle_core process_live = Some core_state_init"
    by (simp_all add: process_live_def xcom_handle_valid_def xcom_handle_core_def handle_live_def)
  obtain st out p' where r: "xcom_get_snapshot (\<lambda>_. 0) HandleSlot (Some 84) process_live = ((st, out), p')"
    by (metis surj_pair)
  show ?thesis using snapshot_fits [OF h r] r by simp
qed

section \<open>Line control\<close>

text \<open>
  While RTS/CTS flow control owns the RTS pin a request to set the lines is
  never reported as done, and on a real port UNSUPPORTED means that DTR was driven as requested: any
  failure of the DTR half, or of the RTS half for another reason than ownership, has its own code.
\<close>

theorem set_lines_never_ok_under_handshake:
  assumes "cfg_flow_control (c_cfg s) = 1" "c_port_state s = PORT_OPEN" "set_lines P dtr rts s = (r, s')"
  shows "s' = s \<and> r \<noteq> XCOM_OK \<and>
    (r = XCOM_ERR_UNSUPPORTED \<longleftrightarrow> c_virtual_port s \<or>
       sb_open (k_backend s) \<and> set_dtr (pf_escape P) (dtr \<noteq> 0) (k_backend s) = LineApplied \<and>
       set_rts (pf_escape P) (rts \<noteq> 0) (k_backend s) \<in> {LineApplied, LineDriverOwned})"
  using assms
  by (auto simp: set_lines_def sink_owner_set_lines_def set_dtr_def set_rts_def Let_def
      split: line_apply_result.splits if_splits option.splits)

theorem set_lines_never_ok_under_handshake_witness:
  "fst (set_lines platform_ok 1 0 (core_state_init\<lparr>c_port_state := PORT_OPEN, c_virtual_port := True,
      c_cfg := (c_cfg core_state_init)\<lparr>cfg_flow_control := 1\<rparr>\<rparr>)) \<noteq> XCOM_OK"
proof -
  let ?s = "core_state_init\<lparr>c_port_state := PORT_OPEN, c_virtual_port := True,
      c_cfg := (c_cfg core_state_init)\<lparr>cfg_flow_control := 1\<rparr>\<rparr>"
  have "cfg_flow_control (c_cfg ?s) = 1" "c_port_state ?s = PORT_OPEN" by simp_all
  from set_lines_never_ok_under_handshake [OF this surjective_pairing] show ?thesis by blast
qed

section \<open>A batch that outlives its session\<close>

text \<open>
  When the batch a client was reading belongs to an ended session, the next drain
  returns its buffer and delivers nothing, but neither the count of pending batches nor the loss ledger
  moves: the batch stays counted as pending with no batch left, and its bytes are charged nowhere.
\<close>

theorem stale_batch_keeps_pending:
  assumes "dl_consumer_active (c_display s)" "dd_gen (dl_consumer_desc (c_display s)) \<noteq> c_generation s"
    "dl_ready (c_display s) = []" "dr_pop R [] = None" "drain_step P R capacity s = (r, s')" "capacity \<noteq> 0"
  shows "\<not> dn_more r \<and> dl_owned (c_display s') = [] \<and> c_metrics s' = c_metrics s"
proof -
  let ?l = "(dl_release_buf (dd_buf (dl_consumer_desc (c_display s))) (c_display s))\<lparr>dl_consumer_active := False\<rparr>"
  have "dl_ready ?l = []" using assms(3) by (simp add: dl_release_buf_def)
  then have "dl_search (Suc n) R (c_generation s) ?l = (False, ?l)" for n using assms(4) by simp
  then have "dl_drain_into R capacity (c_generation s) (c_display s) = (dl_nothing, ?l)"
    using assms(1,2,6) by (simp add: dl_drain_into_def dl_select_def Let_def del: dl_search.simps kDisplayBatchCount_def)
  then have "r = dl_nothing \<and> s' = s\<lparr>c_display := ?l\<rparr>"
    using assms(5) by (simp add: drain_step_def dl_nothing_def Let_def)
  then show ?thesis using \<open>dl_ready ?l = []\<close> by (simp add: dl_nothing_def dl_owned_def)
qed

theorem stale_batch_keeps_pending_witness:
  "c_metrics (snd (drain_step platform_ok display_ring_list 64
     (core_state_init\<lparr>c_generation := 1, c_display := display_lane_init\<lparr>dl_consumer_active := True\<rparr>\<rparr>))) =
   c_metrics core_state_init"
proof -
  let ?s = "core_state_init\<lparr>c_generation := 1, c_display := display_lane_init\<lparr>dl_consumer_active := True\<rparr>\<rparr>"
  have "dl_consumer_active (c_display ?s)" "dd_gen (dl_consumer_desc (c_display ?s)) \<noteq> c_generation ?s"
    "dl_ready (c_display ?s) = []" "dr_pop display_ring_list [] = None" "(64::u32) \<noteq> 0"
    by (simp_all add: display_lane_init_def display_ring_list_def)
  from stale_batch_keeps_pending [OF this(1-4) surjective_pairing this(5)] show ?thesis by simp
qed

end
