(* ===== verification/Selection.thy ===== *)
theory Selection
  imports Prelude
begin

text \<open>
  The double-click geometry of the receive log (\<open>native/xcom_imgui/receive_selection.hpp\<close>): which bytes of a
  row make up the word under the caret, the laws of that choice on well-formed text, and what it does
  on a stray continuation byte.
\<close>

section \<open>The word under the caret\<close>

definition ascii_word_byte :: "u8 \<Rightarrow> bool" where
  "ascii_word_byte c \<longleftrightarrow> (c \<ge> 0x30 \<and> c \<le> 0x39) \<or> (c \<ge> 0x41 \<and> c \<le> 0x5A) \<or> (c \<ge> 0x61 \<and> c \<le> 0x7A) \<or> c = 0x5F"

definition utf8_sequence_length :: "u8 \<Rightarrow> nat" where
  "utf8_sequence_length lead = (if lead \<ge> 0xF0 then 4 else if lead \<ge> 0xE0 then 3 else if lead \<ge> 0xC0 then 2 else 1)"

abbreviation continuation :: "u8 \<Rightarrow> bool" where
  "continuation b \<equiv> b AND 0xC0 = 0x80"

text \<open>The three walks of \<open>word_bounds\<close>: back over continuation bytes, and to the two ends of a word.\<close>

fun walk_back :: "u8 list \<Rightarrow> nat \<Rightarrow> nat" where
  "walk_back line 0 = 0"
| "walk_back line (Suc p) = (if continuation (line ! Suc p) then walk_back line p else Suc p)"

fun word_begin :: "u8 list \<Rightarrow> nat \<Rightarrow> nat" where
  "word_begin line 0 = 0"
| "word_begin line (Suc b) = (if ascii_word_byte (line ! b) then word_begin line b else Suc b)"

function word_end :: "u8 list \<Rightarrow> nat \<Rightarrow> nat" where
  "word_end line e = (if e < length line \<and> ascii_word_byte (line ! e) then word_end line (e + 1) else e)"
  by pat_completeness auto
termination by (relation "measure (\<lambda>(line, e). length line - e)") auto

declare word_end.simps [simp del]

text \<open>\<open>line\<close> is \<open>None\<close> for a null pointer; the range is the half-open interval.\<close>

definition word_bounds :: "u8 list option \<Rightarrow> nat \<Rightarrow> nat \<times> nat" where
  "word_bounds text offset0 =
     (case text of
        None \<Rightarrow> (0, 0)
      | Some line \<Rightarrow>
          if length line = 0 then (0, 0)
          else let offset = (if offset0 > length line then length line else offset0);
                   probe = (if offset < length line then offset else if offset > 0 then offset - 1 else 0);
                   lead = line ! probe
               in if lead AND 0x80 \<noteq> 0
                  then let start = walk_back line probe;
                           n = utf8_sequence_length (line ! start);
                           sequence = (if n > length line - start then 1 else n)
                       in (start, start + sequence)
                  else if \<not> ascii_word_byte (line ! probe) then (probe, probe + 1)
                  else (word_begin line probe, word_end line probe))"

section \<open>Words\<close>

lemma walk_back_step:
  "0 < p \<Longrightarrow> walk_back line p = (if continuation (line ! p) then walk_back line (p - 1) else p)"
  by (cases p) simp_all

lemma walk_back_le: "walk_back line p \<le> p"
  by (induction p) auto

lemma word_begin_spec:
  "word_begin line p \<le> p \<and> (\<forall>i. word_begin line p \<le> i \<longrightarrow> i < p \<longrightarrow> ascii_word_byte (line ! i)) \<and>
   (word_begin line p = 0 \<or> \<not> ascii_word_byte (line ! (word_begin line p - 1)))"
  by (induction p) (auto simp: less_Suc_eq)

lemma word_end_spec:
  "e \<le> length line \<Longrightarrow> e \<le> word_end line e \<and> word_end line e \<le> length line \<and>
   (\<forall>i. e \<le> i \<longrightarrow> i < word_end line e \<longrightarrow> ascii_word_byte (line ! i)) \<and>
   (word_end line e = length line \<or> \<not> ascii_word_byte (line ! word_end line e))"
proof (induction line e rule: word_end.induct)
  case (1 line e)
  show ?case
  proof (cases "e < length line \<and> ascii_word_byte (line ! e)")
    case True
    then have u: "word_end line e = word_end line (e + 1)" by (subst word_end.simps) simp
    have "e + 1 \<le> length line" using True by simp
    from "1.IH" [OF True this] show ?thesis
      unfolding u using True by (metis Suc_eq_plus1 Suc_leI le_SucI le_neq_implies_less le_trans nat_le_linear not_less_eq_eq)
  next
    case False
    then have "word_end line e = e" by (subst word_end.simps) auto
    then show ?thesis using False "1.prems" by auto
  qed
qed

lemma word_end_more: "e < length line \<Longrightarrow> ascii_word_byte (line ! e) \<Longrightarrow> e < word_end line e"
  using word_end_spec [of "e + 1" line] by (subst word_end.simps) auto

lemma utf8_sequence_length_pos: "1 \<le> utf8_sequence_length b"
  by (simp add: utf8_sequence_length_def)

text \<open>
  The selection is a non-empty range inside the row, for every offset; and when the byte it
  looks at is part of an identifier, the range is the maximal run of identifier bytes around it.
\<close>

theorem word_bounds_spec:
  assumes "line \<noteq> []" "word_bounds (Some line) offset = (b, e)"
  defines "probe \<equiv> min offset (length line - 1)"
  shows "b < e \<and> e \<le> length line \<and>
    (line ! probe AND 0x80 = 0 \<and> ascii_word_byte (line ! probe) \<longrightarrow>
       b \<le> probe \<and> probe < e \<and> (\<forall>i. b \<le> i \<longrightarrow> i < e \<longrightarrow> ascii_word_byte (line ! i)) \<and>
       (b = 0 \<or> \<not> ascii_word_byte (line ! (b - 1))) \<and> (e = length line \<or> \<not> ascii_word_byte (line ! e)))"
proof -
  let ?o = "if offset > length line then length line else offset"
  have n: "0 < length line" using assms(1) by simp
  have p: "(if ?o < length line then ?o else if ?o > 0 then ?o - 1 else 0) = probe" "probe < length line"
    unfolding probe_def min_def using n by (cases line; auto)+
  have w: "word_bounds (Some line) offset =
      (if line ! probe AND 0x80 \<noteq> 0
       then (walk_back line probe, walk_back line probe +
               (if utf8_sequence_length (line ! walk_back line probe) > length line - walk_back line probe then 1
                else utf8_sequence_length (line ! walk_back line probe)))
       else if \<not> ascii_word_byte (line ! probe) then (probe, probe + 1)
       else (word_begin line probe, word_end line probe))"
    using assms(1) by (simp only: word_bounds_def option.case Let_def p(1) length_0_conv if_False)
  consider (high) "line ! probe AND 0x80 \<noteq> 0" | (other) "line ! probe AND 0x80 = 0" "\<not> ascii_word_byte (line ! probe)"
    | (ident) "line ! probe AND 0x80 = 0" "ascii_word_byte (line ! probe)" by blast
  then show ?thesis
  proof cases
    case high
    have "walk_back line probe < length line" using walk_back_le [of line probe] p(2) by linarith
    then show ?thesis
      using high assms(2) w utf8_sequence_length_pos [of "line ! walk_back line probe"] by (auto split: if_splits)
  next
    case other
    then show ?thesis using assms(2) w p(2) by auto
  next
    case ident
    then have be: "b = word_begin line probe" "e = word_end line probe" using assms(2) w by auto
    have all: "ascii_word_byte (line ! i)" if "b \<le> i" "i < e" for i
      using word_begin_spec [of line probe] word_end_spec [of probe line] that p(2) unfolding be
      by (cases "i < probe") auto
    show ?thesis
      using word_begin_spec [of line probe] word_end_spec [of probe line] word_end_more [OF p(2) ident(2)] p(2) all
      unfolding be by (meson le_less_trans less_imp_le)
  qed
qed

theorem word_bounds_spec_witness:
  "word_bounds (Some [0x61, 0x5F, 0x20]) 1 = (0, 2) \<and> (case word_bounds (Some [0x61, 0x5F, 0x20]) 1 of (b, e) \<Rightarrow> b < e)"
proof -
  obtain b e where w: "word_bounds (Some [0x61, 0x5F, 0x20]) 1 = (b, e)" by (meson surj_pair)
  have "word_bounds (Some [0x61, 0x5F, 0x20]) 1 = (0, 2)"
    by (simp add: word_bounds_def ascii_word_byte_def word_end.simps)
  moreover have "b < e" using word_bounds_spec [OF _ w] by simp
  ultimately show ?thesis using w by simp
qed

section \<open>Glyphs\<close>

text \<open>A multi-byte glyph: a lead byte that announces the length, then continuation bytes.\<close>

definition glyph_ok :: "u8 list \<Rightarrow> bool" where
  "glyph_ok g \<longleftrightarrow> length g > 1 \<and> g ! 0 AND 0xC0 = 0xC0 \<and> utf8_sequence_length (g ! 0) = length g \<and>
     (\<forall>i. 0 < i \<longrightarrow> i < length g \<longrightarrow> continuation (g ! i))"

lemma high_bit: "(b :: u8) AND 0xC0 = 0x80 \<or> b AND 0xC0 = 0xC0 \<Longrightarrow> b AND 0x80 \<noteq> 0"
proof -
  have "b AND 0x80 = (b AND 0xC0) AND 0x80" by (simp add: and.assoc)
  then show "b AND 0xC0 = 0x80 \<or> b AND 0xC0 = 0xC0 \<Longrightarrow> b AND 0x80 \<noteq> 0" by auto
qed

lemma walk_back_glyph:
  assumes "glyph_ok g"
  shows "i < length g \<Longrightarrow> walk_back (pre @ g @ post) (length pre + i) = length pre"
proof (induction i)
  case 0
  have "\<not> continuation (g ! 0)" using assms by (simp add: glyph_ok_def)
  then show ?case using 0 by (cases "length pre") (simp_all add: nth_append)
next
  case (Suc i)
  have "continuation ((pre @ g @ post) ! Suc (length pre + i))"
    using assms Suc.prems by (simp add: glyph_ok_def nth_append)
  then show ?case using Suc by simp
qed

text \<open>
  A caret anywhere in a multi-byte glyph selects that glyph, whole and alone,
  whatever surrounds it.
\<close>

theorem selection_takes_whole_glyph:
  assumes "glyph_ok g" "i < length g"
  shows "word_bounds (Some (pre @ g @ post)) (length pre + i) = (length pre, length pre + length g)"
proof -
  have "continuation (g ! i) \<or> g ! i AND 0xC0 = 0xC0" using assms by (cases i) (auto simp: glyph_ok_def)
  then have "g ! i AND 0x80 \<noteq> 0" by (rule high_bit)
  moreover have "utf8_sequence_length (g ! 0) = length g" "0 < length g" using assms by (auto simp: glyph_ok_def)
  ultimately show ?thesis
    using assms(2) walk_back_glyph [OF assms, of pre post] by (simp add: word_bounds_def nth_append Let_def)
qed

theorem selection_takes_whole_glyph_witness:
  "word_bounds (Some ([0x41] @ [0xE4, 0xB8, 0xAD] @ [0x42])) (length [0x41 :: u8] + 2) = (1, 4)"
proof -
  have "glyph_ok [0xE4, 0xB8, 0xAD]"
    by (auto simp: glyph_ok_def utf8_sequence_length_def nth_Cons less_Suc_eq split: nat.split)
  then show ?thesis using selection_takes_whole_glyph [of "[0xE4, 0xB8, 0xAD]" 2 "[0x41]" "[0x42]"] by simp
qed

text \<open>
  A continuation byte with no lead byte, after an ASCII character, selects
  that character and not itself: the walk back does not stop at a byte that starts no sequence, so the
  range need not contain the byte that was pointed at.
\<close>

theorem stray_continuation_selects_neighbour:
  assumes "continuation c" "a < 0x80"
  shows "word_bounds (Some (pre @ [a, c] @ post)) (length pre + 1) = (length pre, length pre + 1)"
proof -
  have a: "\<not> continuation a" using assms(2) word_and_le2 [of a "0xC0"] by (metis leD)
  have "\<not> 0xC0 \<le> a" "\<not> 0xE0 \<le> a" "\<not> 0xF0 \<le> a"
    using assms(2) by (simp_all add: word_less_nat_alt word_le_nat_alt)
  then have "utf8_sequence_length a = 1" by (simp add: utf8_sequence_length_def)
  moreover have "walk_back (pre @ [a, c] @ post) (length pre) = length pre"
    using a by (cases "length pre") (simp_all add: nth_append)
  ultimately show ?thesis
    using assms(1) high_bit [of c] by (simp add: word_bounds_def nth_append Let_def)
qed

theorem stray_continuation_selects_neighbour_witness:
  "word_bounds (Some ([0x20] @ [0x41, 0x80] @ [])) (length [0x20 :: u8] + 1) = (1, 2)"
  using stray_continuation_selects_neighbour [of "0x80" "0x41" "[0x20]" "[]"] by simp

end
