(* ===== verification/Receive_View.thy ===== *)
theory Receive_View
  imports Selection
begin

text \<open>
  The receive log of the window (\<open>native/xcom_imgui/xcom_imgui_bridge.cpp\<close>): the retained tail of the stream
  with its index of line starts, the selection in absolute stream bytes, and the part of a frame that
  changes them. What the GUI library reports in a frame (clicks, keys, the row hits) is an input; the
  scroll positions are the GUI's and are not modelled. Every exported function does nothing unless the
  bridge is initialised and called on its owner thread (\<open>ready\<close>).
\<close>

section \<open>State\<close>

datatype sel_anchor = NoAnchor | Dragging

record receive_view =
  rv_text :: "u8 list"
  rv_offsets :: "nat list"
  rv_base :: nat
  rv_limit :: nat
  rv_follow :: bool
  rv_anchor :: sel_anchor
  rv_sel_begin :: nat
  rv_sel_end :: nat
  rv_drag_origin :: nat
  rv_drag_hit :: bool
  rv_copy :: "u8 list"

definition kReceiveLimit :: nat where [simp]: "kReceiveLimit = 64 * 1024 - 1"
definition kWindowMin :: nat where [simp]: "kWindowMin = 16 * 1024"
definition kWindowMax :: nat where [simp]: "kWindowMax = 1024 * 1024"
definition kDragTrimSlack :: nat where [simp]: "kDragTrimSlack = 256 * 1024"

text \<open>The members as the process starts.\<close>

definition receive_view_init :: receive_view where
  "receive_view_init = \<lparr>rv_text = [], rv_offsets = [0], rv_base = 0, rv_limit = kReceiveLimit, rv_follow = True,
     rv_anchor = NoAnchor, rv_sel_begin = 0, rv_sel_end = 0, rv_drag_origin = 0, rv_drag_hit = False, rv_copy = []\<rparr>"

text \<open>What \<open>xcom_imgui_init\<close> resets: the configured window survives a restart of the bridge.\<close>

definition receive_view_reset :: "receive_view \<Rightarrow> receive_view" where
  "receive_view_reset v = v\<lparr>rv_text := [], rv_copy := [], rv_offsets := [0], rv_base := 0, rv_anchor := NoAnchor,
     rv_sel_begin := 0, rv_sel_end := 0, rv_drag_origin := 0, rv_drag_hit := False\<rparr>"

section \<open>The index of line starts\<close>

text \<open>The scan for newlines from position \<open>i\<close>, and the trim that every path shares.\<close>

fun scan_lines :: "nat \<Rightarrow> u8 list \<Rightarrow> nat list" where
  "scan_lines i [] = []"
| "scan_lines i (c # cs) = (if c = 0x0A then (i + 1) # scan_lines (i + 1) cs else scan_lines (i + 1) cs)"

definition trim_offsets :: "nat \<Rightarrow> nat list \<Rightarrow> nat list" where
  "trim_offsets n offsets =
     (let kept = map (\<lambda>off. off - n) (dropWhile (\<lambda>off. off < n) offsets)
      in if kept = [] \<or> hd kept \<noteq> 0 then 0 # kept else kept)"

definition trim_prefix :: "receive_view \<Rightarrow> receive_view" where
  "trim_prefix v =
     (let n = length (rv_text v) - rv_limit v
      in v\<lparr>rv_text := drop n (rv_text v), rv_base := rv_base v + n, rv_offsets := trim_offsets n (rv_offsets v)\<rparr>)"

section \<open>What the client calls\<close>

definition set_receive_window :: "bool \<Rightarrow> nat \<Rightarrow> receive_view \<Rightarrow> receive_view" where
  "set_receive_window ready bytes0 v =
     (if \<not> ready then v
      else let bytes1 = (if bytes0 < kWindowMin then kWindowMin else bytes0);
               bytes = (if bytes1 > kWindowMax then kWindowMax else bytes1);
               v1 = v\<lparr>rv_limit := bytes - 1\<rparr>
           in if length (rv_text v1) > rv_limit v1 then trim_prefix v1 else v1)"

text \<open>The reset of the selection when nothing is left to select.\<close>

definition clear_selection :: "receive_view \<Rightarrow> receive_view" where
  "clear_selection v = v\<lparr>rv_base := 0, rv_anchor := NoAnchor, rv_sel_begin := 0, rv_sel_end := 0, rv_drag_hit := False\<rparr>"

definition set_receive_text :: "bool \<Rightarrow> u8 list option \<Rightarrow> receive_view \<Rightarrow> receive_view" where
  "set_receive_text ready input v =
     (if \<not> ready then v
      else case input of
          None \<Rightarrow> clear_selection (v\<lparr>rv_text := [], rv_offsets := [0], rv_follow := True\<rparr>)
        | Some bytes \<Rightarrow>
            if length bytes = 0 then clear_selection (v\<lparr>rv_text := [], rv_offsets := [0], rv_follow := True\<rparr>)
            else let bounded = take (min (length bytes) (rv_limit v)) bytes
                 in v\<lparr>rv_text := bounded, rv_offsets := 0 # scan_lines 0 bounded\<rparr>)"

definition receive_append :: "bool \<Rightarrow> u8 list option \<Rightarrow> receive_view \<Rightarrow> receive_view" where
  "receive_append ready delta v =
     (if \<not> ready then v
      else case delta of
          None \<Rightarrow> v
        | Some bytes \<Rightarrow>
            if length bytes = 0 then v
            else let v1 = v\<lparr>rv_text := rv_text v @ bytes,
                            rv_offsets := rv_offsets v @ scan_lines (length (rv_text v)) bytes\<rparr>;
                     trim_at = (if rv_anchor v1 = Dragging then rv_limit v1 + kDragTrimSlack else rv_limit v1)
                 in if length (rv_text v1) > trim_at then trim_prefix v1 else v1)"

text \<open>The result, and the bytes written before the null when a buffer of \<open>capacity\<close> is given.\<close>

definition get_receive_text :: "bool \<Rightarrow> nat option \<Rightarrow> receive_view \<Rightarrow> nat \<times> u8 list option \<times> nat option" where
  "get_receive_text ready out v =
     (if \<not> ready then (0, None, None)
      else case out of
          None \<Rightarrow> (length (rv_text v), None, Some (rv_base v))
        | Some capacity \<Rightarrow>
            if capacity > 0
            then let n = min (length (rv_text v)) (capacity - 1) in (n, Some (take n (rv_text v)), Some (rv_base v))
            else (length (rv_text v), None, Some (rv_base v)))"

definition set_receive_base :: "bool \<Rightarrow> nat \<Rightarrow> receive_view \<Rightarrow> receive_view" where
  "set_receive_base ready absolute v = (if ready then v\<lparr>rv_base := absolute\<rparr> else v)"

definition queue_receive_copy :: "nat \<Rightarrow> nat \<Rightarrow> receive_view \<Rightarrow> bool \<times> receive_view" where
  "queue_receive_copy begin_abs end_abs v =
     (let window_end = rv_base v + length (rv_text v);
          from = max begin_abs (rv_base v);
          upto = min end_abs window_end
      in if upto \<le> from then (False, v)
         else (True, v\<lparr>rv_copy := take (upto - from) (drop (from - rv_base v) (rv_text v))\<rparr>))"

definition take_receive_copy :: "bool \<Rightarrow> nat option \<Rightarrow> receive_view \<Rightarrow> u8 list option \<times> receive_view" where
  "take_receive_copy ready out v =
     (case out of
        None \<Rightarrow> (None, v)
      | Some capacity \<Rightarrow>
          if \<not> ready \<or> capacity = 0 \<or> rv_copy v = [] then (None, v)
          else (Some (take (min (length (rv_copy v)) (capacity - 1)) (rv_copy v)), v\<lparr>rv_copy := []\<rparr>))"

definition selection_dragging :: "bool \<Rightarrow> receive_view \<Rightarrow> bool" where
  "selection_dragging ready v \<longleftrightarrow> ready \<and> rv_anchor v = Dragging"

definition get_receive_selection :: "bool \<Rightarrow> receive_view \<Rightarrow> (nat \<times> nat) option" where
  "get_receive_selection ready v = (if ready then Some (rv_sel_begin v, rv_sel_end v) else None)"

section \<open>One frame\<close>

text \<open>
  A row the frame drew: where its line starts in the window and how long it is, and the window offset the
  mouse hits in it, if it does. \<open>fi_menu\<close> is the entry picked in the context menu.
\<close>

record drawn_row =
  dw_off :: nat
  dw_len :: nat
  dw_at :: "nat option"

datatype menu_choice = MenuCopySelection | MenuCopyAll | MenuSelectAll

record frame_input =
  fi_clicks :: nat
  fi_shift :: bool
  fi_mouse_down :: bool
  fi_select_all :: bool
  fi_copy :: bool
  fi_at_bottom :: bool
  fi_rows :: "drawn_row list"
  fi_menu :: "menu_choice option"

definition select_all :: "receive_view \<Rightarrow> receive_view" where
  "select_all v = v\<lparr>rv_sel_begin := rv_base v, rv_sel_end := rv_base v + length (rv_text v)\<rparr>"

definition has_selection :: "receive_view \<Rightarrow> bool" where
  "has_selection v \<longleftrightarrow> rv_sel_end v > rv_sel_begin v"

text \<open>What a press does before the rows are drawn, and the gesture of one row.\<close>

definition press_start :: "frame_input \<Rightarrow> receive_view \<Rightarrow> receive_view" where
  "press_start I v =
     (if fi_clicks I = 1 \<and> fi_shift I \<and> has_selection v
      then v\<lparr>rv_drag_origin := rv_sel_end v, rv_drag_hit := True\<rparr>
      else if fi_clicks I = 1 \<and> (\<not> fi_shift I \<or> \<not> has_selection v)
      then v\<lparr>rv_anchor := Dragging, rv_sel_begin := 0, rv_sel_end := 0, rv_drag_hit := False\<rparr>
      else v)"

definition row_gesture :: "nat \<Rightarrow> nat \<Rightarrow> drawn_row \<Rightarrow> receive_view \<Rightarrow> receive_view" where
  "row_gesture base clicks row v =
     (case dw_at row of
        None \<Rightarrow> v
      | Some at \<Rightarrow>
          if clicks \<ge> 2
          then let (wb, we) = (if clicks = 2
                     then word_bounds (Some (take (dw_len row) (drop (dw_off row) (rv_text v)))) (at - dw_off row)
                     else (0, dw_len row))
               in v\<lparr>rv_sel_begin := base + dw_off row + wb, rv_sel_end := base + dw_off row + we,
                    rv_anchor := NoAnchor, rv_drag_hit := False\<rparr>
          else let here = at + base;
                   v1 = (if \<not> rv_drag_hit v then v\<lparr>rv_drag_origin := here, rv_drag_hit := True\<rparr> else v);
                   origin = rv_drag_origin v1
               in v1\<lparr>rv_sel_begin := (if here < origin then here else origin),
                     rv_sel_end := (if here > origin then here else origin)\<rparr>)"

definition release_drag :: "frame_input \<Rightarrow> receive_view \<Rightarrow> receive_view" where
  "release_drag I v =
     (if rv_anchor v = Dragging \<and> \<not> fi_mouse_down I
      then let v1 = v\<lparr>rv_anchor := NoAnchor\<rparr>;
               v2 = (if \<not> rv_drag_hit v1 then v1\<lparr>rv_sel_begin := 0, rv_sel_end := 0\<rparr> else v1)
           in if length (rv_text v2) > rv_limit v2 then trim_prefix v2 else v2
      else v)"

definition menu_action :: "frame_input \<Rightarrow> receive_view \<Rightarrow> receive_view" where
  "menu_action I v =
     (case fi_menu I of
        None \<Rightarrow> v
      | Some MenuCopySelection \<Rightarrow>
          if has_selection v then snd (queue_receive_copy (rv_sel_begin v) (rv_sel_end v) v) else v
      | Some MenuCopyAll \<Rightarrow>
          if rv_text v \<noteq> [] then snd (queue_receive_copy (rv_base v) (rv_base v + length (rv_text v)) v) else v
      | Some MenuSelectAll \<Rightarrow> if rv_text v \<noteq> [] then select_all v else v)"

definition receive_frame :: "frame_input \<Rightarrow> receive_view \<Rightarrow> receive_view" where
  "receive_frame I v =
     (if rv_text v = [] then clear_selection (v\<lparr>rv_follow := True\<rparr>)
      else let v0 = v\<lparr>rv_follow := fi_at_bottom I\<rparr>;
               extend = (fi_clicks I = 1 \<and> fi_shift I \<and> has_selection v0);
               v1 = press_start I v0;
               dragging = (rv_anchor v1 = Dragging \<and> fi_mouse_down I);
               v2 = (if fi_select_all I then select_all v1 else v1);
               v3 = (if fi_copy I then snd (queue_receive_copy (rv_sel_begin v2) (rv_sel_end v2) v2) else v2);
               base = rv_base v3;
               v4 = (if dragging \<or> extend \<or> fi_clicks I \<ge> 2 then fold (row_gesture base (fi_clicks I)) (fi_rows I) v3 else v3)
           in menu_action I (release_drag I v4))"

section \<open>The byte under the mouse\<close>

text \<open>
  Positions are integers in the GUI's units: \<open>g\<close> is the advance of one glyph of the fixed-width face and
  \<open>W\<close> the measured width of a run of bytes. A row is measured glyph by glyph only when \<open>columns\<close> says so.
\<close>

definition ascii_row :: "u8 list \<Rightarrow> bool" where
  "ascii_row line \<longleftrightarrow> list_all (\<lambda>c. c AND 0x80 = 0) line"

definition measure_columns :: "bool \<Rightarrow> bool \<Rightarrow> bool \<Rightarrow> bool" where
  "measure_columns selected dragging rules \<longleftrightarrow> selected \<or> dragging \<or> rules"

definition glyph_bytes :: "u8 list \<Rightarrow> nat \<Rightarrow> nat" where
  "glyph_bytes line off =
     (let n = utf8_sequence_length (line ! off) in if off + n > length line then 1 else n)"

function measured_hit :: "(u8 list \<Rightarrow> int) \<Rightarrow> int \<Rightarrow> u8 list \<Rightarrow> int \<Rightarrow> nat \<Rightarrow> nat" where
  "measured_hit W x line pen off =
     (if off < length line
      then let n = glyph_bytes line off; w = W (take n (drop off line))
           in if 2 * x < 2 * pen + w then off else measured_hit W x line (pen + w) (off + n)
      else length line)"
  by auto
termination
proof (relation "measure (\<lambda>(W, x, line, pen, off). length line - off)", goal_cases)
  case (2 W x line pen off n w)
  have "0 < n" unfolding 2(2) by (simp add: glyph_bytes_def utf8_sequence_length_def)
  then show ?case using 2(1) by simp
qed simp

declare measured_hit.simps [simp del]

definition hit_offset :: "(u8 list \<Rightarrow> int) \<Rightarrow> int \<Rightarrow> bool \<Rightarrow> int \<Rightarrow> u8 list \<Rightarrow> nat" where
  "hit_offset W g columns x line =
     (if \<not> columns \<or> ascii_row line
      then let col = nat ((2 * x + g) div (2 * g)) in (if col < length line then col else length line)
      else measured_hit W x line 0 0)"

end
