(* ===== verification/Receive_View_Facts.thy ===== *)
theory Receive_View_Facts
  imports Receive_View
begin

text \<open>
  The receive log shows what it says: the retained text is always the tail of the received stream at its
  absolute base, the index is the index of its line starts, a copy is the selected bytes of the stream,
  and a drag never cuts a glyph, where a double-click may miss it.
\<close>

section \<open>Line starts\<close>

lemma scan_lines_bounds: "x \<in> set (scan_lines i t) \<Longrightarrow> i < x \<and> x \<le> i + length t"
  by (induction i t rule: scan_lines.induct) (auto split: if_splits)

lemma scan_lines_append: "scan_lines i (a @ b) = scan_lines i a @ scan_lines (i + length a) b"
  by (induction i a rule: scan_lines.induct) simp_all

lemma scan_lines_shift: "map (\<lambda>x. x - n) (scan_lines (n + i) t) = scan_lines i t"
  by (induction i t rule: scan_lines.induct) simp_all

lemma trim_offsets_line_starts:
  assumes "0 < n" "n \<le> length t"
  shows "trim_offsets n (0 # scan_lines 0 t) = 0 # scan_lines 0 (drop n t)"
proof -
  obtain a c where a: "take n t = a @ [c]" "length a = n - 1"
    using assms by (metis append_butlast_last_id length_butlast length_take less_numeral_extra(3) list.size(3) min.absorb2)
  let ?b = "drop n t"
  have t: "t = a @ [c] @ ?b" using a(1) append_take_drop_id [of n t] by simp
  have n: "length (a @ [c]) = n" using a(2) assms(1) by simp
  have "scan_lines 0 t = scan_lines 0 a @ (if c = 0x0A then [n] else []) @ scan_lines n ?b"
    using a(2) assms(1) by (subst t) (simp add: scan_lines_append)
  moreover have small: "\<And>x. x \<in> set (scan_lines 0 a) \<Longrightarrow> x < n" using scan_lines_bounds [of _ 0 a] a(2) assms(1) by fastforce
  moreover have big: "\<And>x. x \<in> set (scan_lines n ?b) \<Longrightarrow> n < x" using scan_lines_bounds [of _ n ?b] by simp
  ultimately have kept: "dropWhile (\<lambda>off. off < n) (0 # scan_lines 0 t) = (if c = 0x0A then [n] else []) @ scan_lines n ?b"
    using assms(1) by (simp add: dropWhile_append1 dropWhile_append2) (metis dropWhile_eq_self_iff hd_in_set less_asym)
  have shift: "map (\<lambda>off. off - n) (scan_lines n ?b) = scan_lines 0 ?b" using scan_lines_shift [of n 0] by simp
  have "scan_lines 0 ?b = [] \<or> hd (scan_lines 0 ?b) \<noteq> 0"
    using scan_lines_bounds [of _ 0 ?b] hd_in_set by fastforce
  then show ?thesis unfolding trim_offsets_def Let_def kept by (auto simp: shift)
qed

section \<open>The view and the stream\<close>

text \<open>\<open>S\<close> is everything received so far; the second definition adds the bound on what is retained.\<close>

definition tail_of :: "u8 list \<Rightarrow> receive_view \<Rightarrow> bool" where
  "tail_of S v \<longleftrightarrow> rv_offsets v = 0 # scan_lines 0 (rv_text v) \<and> kWindowMin - 1 \<le> rv_limit v \<and> rv_limit v < kWindowMax \<and>
     length S = rv_base v + length (rv_text v) \<and> drop (rv_base v) S = rv_text v \<and> (rv_text v = [] \<longrightarrow> S = [])"

definition shows_tail :: "u8 list \<Rightarrow> receive_view \<Rightarrow> bool" where
  "shows_tail S v \<longleftrightarrow> tail_of S v \<and> length (rv_text v) \<le> rv_limit v + kDragTrimSlack"

inductive view_reach :: "u8 list \<Rightarrow> receive_view \<Rightarrow> bool" where
  vr_init: "view_reach [] receive_view_init"
| vr_reset: "view_reach S v \<Longrightarrow> view_reach [] (receive_view_reset v)"
| vr_append: "view_reach S v \<Longrightarrow> view_reach (S @ d) (receive_append True (Some d) v)"
| vr_window: "view_reach S v \<Longrightarrow> view_reach S (set_receive_window True n v)"
| vr_frame: "view_reach S v \<Longrightarrow> view_reach S (receive_frame I v)"
| vr_take: "view_reach S v \<Longrightarrow> view_reach S (snd (take_receive_copy True out v))"

lemma trim_prefix_tail:
  assumes "tail_of S v" "rv_limit v < length (rv_text v)"
  shows "tail_of S (trim_prefix v) \<and> length (rv_text (trim_prefix v)) = rv_limit v \<and> rv_limit (trim_prefix v) = rv_limit v"
proof -
  let ?n = "length (rv_text v) - rv_limit v"
  have n: "0 < ?n" "?n \<le> length (rv_text v)" using assms(2) by simp_all
  have f: "rv_text (trim_prefix v) = drop ?n (rv_text v)" "rv_base (trim_prefix v) = rv_base v + ?n"
    "rv_offsets (trim_prefix v) = trim_offsets ?n (rv_offsets v)" "rv_limit (trim_prefix v) = rv_limit v"
    by (simp_all add: trim_prefix_def Let_def)
  note a = assms(1) [unfolded tail_of_def]
  have o: "rv_offsets (trim_prefix v) = 0 # scan_lines 0 (rv_text (trim_prefix v))"
    using trim_offsets_line_starts [OF n] a unfolding f by (simp only:)
  have t: "drop (rv_base v + ?n) S = rv_text (trim_prefix v)"
    using a unfolding f(1) by (metis add.commute drop_drop)
  have l: "length (rv_text (trim_prefix v)) = rv_limit v" using assms(2) by (simp add: f)
  have "0 < rv_limit v" using a by simp
  then have "rv_text (trim_prefix v) \<noteq> []" using l by (metis length_0_conv less_irrefl)
  moreover have "length S = rv_base (trim_prefix v) + length (rv_text (trim_prefix v))"
    using a assms(2) unfolding l f(2) by linarith
  ultimately show ?thesis using a o t l unfolding tail_of_def f(2,4) by blast
qed

text \<open>Every path ends in a trim at some threshold between the limit and the limit with its slack.\<close>

lemma trim_at:
  assumes "tail_of S v" "rv_limit v \<le> at" "at \<le> rv_limit v + kDragTrimSlack"
  shows "shows_tail S (if length (rv_text v) > at then trim_prefix v else v)"
proof (cases "length (rv_text v) > at")
  case True
  then have "rv_limit v < length (rv_text v)" using assms(2) by linarith
  from trim_prefix_tail [OF assms(1) this] True show ?thesis by (simp add: shows_tail_def)
next
  case False
  then show ?thesis using assms by (simp add: shows_tail_def)
qed

text \<open>The fields the selection lives in do not matter for the text.\<close>

definition text_part :: "receive_view \<Rightarrow> u8 list \<times> nat list \<times> nat \<times> nat" where
  "text_part v = (rv_text v, rv_offsets v, rv_base v, rv_limit v)"

lemma tail_part: "text_part v = text_part v' \<Longrightarrow> tail_of S v \<longleftrightarrow> tail_of S v'"
  by (simp add: text_part_def tail_of_def)

lemma shows_tail_part: "text_part v = text_part v' \<Longrightarrow> shows_tail S v \<longleftrightarrow> shows_tail S v'"
  by (simp add: text_part_def tail_of_def shows_tail_def)

lemma queue_copy_part [simp]: "text_part (snd (queue_receive_copy b e v)) = text_part v"
  by (simp add: queue_receive_copy_def text_part_def Let_def)

lemma row_gesture_part [simp]: "text_part (row_gesture base n row v) = text_part v"
  by (auto simp: row_gesture_def text_part_def Let_def split: option.split prod.split)

lemma rows_part [simp]: "text_part (fold (row_gesture base n) rows v) = text_part v"
  by (induction rows arbitrary: v) simp_all

lemma select_all_part [simp]: "text_part (select_all v) = text_part v"
  by (simp add: select_all_def text_part_def)

lemma press_start_part [simp]: "text_part (press_start I v) = text_part v"
  by (simp add: press_start_def text_part_def)

lemma menu_part [simp]: "text_part (menu_action I v) = text_part v"
  by (auto simp: menu_action_def split: option.split menu_choice.split)

lemma release_drag_tail:
  assumes "shows_tail S v"
  shows "shows_tail S (release_drag I v)"
proof (cases "rv_anchor v = Dragging \<and> \<not> fi_mouse_down I")
  case True
  define v2 where "v2 = (if \<not> rv_drag_hit (v\<lparr>rv_anchor := NoAnchor\<rparr>)
    then (v\<lparr>rv_anchor := NoAnchor\<rparr>)\<lparr>rv_sel_begin := 0, rv_sel_end := 0\<rparr> else v\<lparr>rv_anchor := NoAnchor\<rparr>)"
  have r: "release_drag I v = (if length (rv_text v2) > rv_limit v2 then trim_prefix v2 else v2)"
    unfolding release_drag_def Let_def if_P [OF True] v2_def by (rule refl)
  have "text_part v2 = text_part v" by (simp add: v2_def text_part_def)
  then have "tail_of S v2" using tail_part assms unfolding shows_tail_def by blast
  then show ?thesis unfolding r by (rule trim_at) simp_all
next
  case False
  then show ?thesis using assms unfolding release_drag_def if_not_P [OF False] by blast
qed

text \<open>A frame over a log that is not empty is some change of the selection, the release and the menu.\<close>

lemma frame_split:
  assumes "rv_text v \<noteq> []"
  obtains v4 where "text_part v4 = text_part v" "receive_frame I v = menu_action I (release_drag I v4)"
proof
  let ?v0 = "v\<lparr>rv_follow := fi_at_bottom I\<rparr>"
  let ?v1 = "press_start I ?v0"
  let ?v2 = "if fi_select_all I then select_all ?v1 else ?v1"
  let ?v3 = "if fi_copy I then snd (queue_receive_copy (rv_sel_begin ?v2) (rv_sel_end ?v2) ?v2) else ?v2"
  let ?v4 = "if (rv_anchor ?v1 = Dragging \<and> fi_mouse_down I) \<or> (fi_clicks I = 1 \<and> fi_shift I \<and> has_selection ?v0) \<or>
      2 \<le> fi_clicks I then fold (row_gesture (rv_base ?v3) (fi_clicks I)) (fi_rows I) ?v3 else ?v3"
  have v0: "text_part ?v0 = text_part v" by (simp add: text_part_def)
  have v2: "text_part ?v2 = text_part ?v1" by (cases "fi_select_all I") simp_all
  have v3: "text_part ?v3 = text_part ?v2" by (cases "fi_copy I") simp_all
  have "text_part ?v4 = text_part ?v3" by (simp only: rows_part if_distrib [of text_part] if_cancel)
  then show "text_part ?v4 = text_part v" using v0 v2 v3 press_start_part [of I ?v0] by (simp only:)
  show "receive_frame I v = menu_action I (release_drag I ?v4)"
    unfolding receive_frame_def Let_def if_not_P [OF assms] by (rule refl)
qed

lemma frame_tail:
  assumes "shows_tail S v"
  shows "shows_tail S (receive_frame I v)"
proof (cases "rv_text v = []")
  case True
  then have "S = []" using assms by (simp add: shows_tail_def tail_of_def)
  then show ?thesis using assms True by (simp add: receive_frame_def clear_selection_def shows_tail_def tail_of_def)
next
  case False
  from frame_split [OF this] obtain v4 where v4: "text_part v4 = text_part v"
    "receive_frame I v = menu_action I (release_drag I v4)" .
  have "shows_tail S v4" using shows_tail_part v4(1) assms by blast
  then have "shows_tail S (release_drag I v4)" by (rule release_drag_tail)
  then show ?thesis unfolding v4(2) using shows_tail_part menu_part by blast
qed

lemma append_tail:
  assumes "shows_tail S v"
  shows "shows_tail (S @ d) (receive_append True (Some d) v)"
proof (cases "length d = 0")
  case True
  then show ?thesis using assms by (simp add: receive_append_def)
next
  case False
  let ?v1 = "v\<lparr>rv_text := rv_text v @ d, rv_offsets := rv_offsets v @ scan_lines (length (rv_text v)) d\<rparr>"
  have "tail_of S v" using assms by (simp add: shows_tail_def)
  then have "tail_of (S @ d) ?v1" using False by (simp add: tail_of_def scan_lines_append)
  then have "shows_tail (S @ d) (if length (rv_text ?v1) > (if rv_anchor ?v1 = Dragging then rv_limit ?v1 + kDragTrimSlack else rv_limit ?v1)
      then trim_prefix ?v1 else ?v1)" by (rule trim_at) simp_all
  then show ?thesis unfolding receive_append_def Let_def using False by (simp only: option.case not_True_eq_False if_False)
qed

lemma limit_tail: "tail_of S v \<Longrightarrow> kWindowMin \<le> b \<Longrightarrow> b \<le> kWindowMax \<Longrightarrow> tail_of S (v\<lparr>rv_limit := b - 1\<rparr>)"
  by (auto simp: tail_of_def)

lemma window_tail:
  assumes "shows_tail S v"
  shows "shows_tail S (set_receive_window True n v)"
proof -
  let ?b1 = "if n < kWindowMin then kWindowMin else n"
  let ?b = "if ?b1 > kWindowMax then kWindowMax else ?b1"
  have "kWindowMin \<le> ?b" "?b \<le> kWindowMax" by simp_all
  with assms have "tail_of S (v\<lparr>rv_limit := ?b - 1\<rparr>)" unfolding shows_tail_def by (blast intro: limit_tail)
  then have "shows_tail S (if length (rv_text (v\<lparr>rv_limit := ?b - 1\<rparr>)) > rv_limit (v\<lparr>rv_limit := ?b - 1\<rparr>)
      then trim_prefix (v\<lparr>rv_limit := ?b - 1\<rparr>) else v\<lparr>rv_limit := ?b - 1\<rparr>)" by (rule trim_at) simp_all
  then show ?thesis unfolding set_receive_window_def Let_def by (simp only: not_True_eq_False if_False)
qed

lemma view_reach_tail: "view_reach S v \<Longrightarrow> shows_tail S v"
proof (induction rule: view_reach.induct)
  case vr_init
  show ?case by (simp add: shows_tail_def tail_of_def receive_view_init_def)
next
  case (vr_reset S v)
  then show ?case by (simp add: shows_tail_def tail_of_def receive_view_reset_def)
next
  case (vr_take S v out)
  have "text_part (snd (take_receive_copy True out v)) = text_part v"
    by (simp add: take_receive_copy_def text_part_def split: option.split)
  then show ?case using shows_tail_part vr_take.IH by blast
qed (simp_all only: append_tail window_tail frame_tail)

text \<open>
  C15 (receive_view_is_stream_tail). After any sequence of restarts, appends, window changes, frames and copies, the log holds
  exactly the received stream from its absolute base on, its index lists exactly the starts of its lines,
  and it never grows past the configured window by more than the slack of a drag.
\<close>

theorem receive_view_is_stream_tail:
  assumes "view_reach S v"
  shows "drop (rv_base v) S = rv_text v \<and> length S = rv_base v + length (rv_text v) \<and>
    rv_offsets v = 0 # scan_lines 0 (rv_text v) \<and> length (rv_text v) \<le> rv_limit v + kDragTrimSlack"
  using view_reach_tail [OF assms] unfolding shows_tail_def tail_of_def by blast

theorem receive_view_is_stream_tail_witness:
  "rv_offsets (receive_append True (Some [0x41, 0x0A, 0x42]) receive_view_init) = [0, 2] \<and>
   length (rv_text (receive_append True (Some [0x41, 0x0A, 0x42]) receive_view_init)) \<le> kReceiveLimit + kDragTrimSlack"
proof -
  have r: "view_reach ([] @ [0x41, 0x0A, 0x42]) (receive_append True (Some [0x41, 0x0A, 0x42]) receive_view_init)"
    by (rule vr_append [OF vr_init])
  show ?thesis using receive_view_is_stream_tail [OF r] by (simp add: receive_append_def receive_view_init_def)
qed

section \<open>Copying and dragging\<close>

text \<open>
  A copy of an absolute range yields exactly the bytes of the received stream at those
  positions that the log still holds, however far the window has slid since they were selected, and
  queues nothing exactly when none of them is held.
\<close>

theorem copy_is_stream_bytes:
  assumes "view_reach S v" "queue_receive_copy b e v = (queued, v')"
  shows "(queued \<longleftrightarrow> max b (rv_base v) < min e (length S)) \<and>
    (queued \<longrightarrow> rv_copy v' = take (min e (length S) - max b (rv_base v)) (drop (max b (rv_base v)) S))"
proof -
  have t: "drop (rv_base v) S = rv_text v" "length S = rv_base v + length (rv_text v)"
    using view_reach_tail [OF assms(1)] unfolding shows_tail_def tail_of_def by blast+
  have "drop (max b (rv_base v) - rv_base v) (rv_text v) = drop (max b (rv_base v)) S"
    unfolding t(1) [symmetric] by simp
  then show ?thesis using assms(2) unfolding t(2) by (auto simp: queue_receive_copy_def Let_def split: if_splits)
qed

theorem copy_is_stream_bytes_witness:
  "rv_copy (snd (queue_receive_copy 1 9 (receive_append True (Some [0x41, 0x42]) receive_view_init))) = [0x42]"
proof -
  let ?v = "receive_append True (Some [0x41, 0x42]) receive_view_init"
  have r: "view_reach ([] @ [0x41, 0x42]) ?v" by (rule vr_append [OF vr_init])
  have b: "rv_base ?v = 0" by (simp add: receive_append_def receive_view_init_def)
  from copy_is_stream_bytes [OF r surjective_pairing, of 1 9] show ?thesis by (simp add: b)
qed

text \<open>
  While the button is held nothing slides under it: an append that keeps the log within the slack leaves the base
  and the retained bytes alone.
\<close>

lemma drag_holds_window:
  assumes "rv_anchor v = Dragging" "length (rv_text v) + length d \<le> rv_limit v + kDragTrimSlack"
  shows "rv_base (receive_append True (Some d) v) = rv_base v \<and> rv_text (receive_append True (Some d) v) = rv_text v @ d"
  using assms by (simp add: receive_append_def Let_def)

section \<open>Hits\<close>

text \<open>A character of a row: one ASCII byte, or a whole multi-byte glyph.\<close>

definition char_ok :: "u8 list \<Rightarrow> bool" where
  "char_ok g \<longleftrightarrow> g \<noteq> [] \<and> utf8_sequence_length (hd g) = length g"

lemma glyph_bytes_char:
  assumes "char_ok g"
  shows "glyph_bytes (pre @ g @ post) (length pre) = length g"
proof -
  have "(pre @ g @ post) ! length pre = hd g" using assms by (simp add: char_ok_def nth_append hd_conv_nth)
  then show ?thesis using assms by (simp add: glyph_bytes_def char_ok_def)
qed

lemma measured_hit_char:
  "list_all char_ok gs \<Longrightarrow>
   \<exists>k \<le> length gs. measured_hit W x (pre @ concat gs) pen (length pre) = length pre + length (concat (take k gs))"
proof (induction gs arbitrary: pre pen)
  case Nil
  then show ?case by (simp add: measured_hit.simps)
next
  case (Cons g gs)
  let ?line = "pre @ concat (g # gs)"
  have g: "glyph_bytes ?line (length pre) = length g" using glyph_bytes_char [of g pre "concat gs"] Cons.prems by simp
  have ne: "length pre < length ?line" using Cons.prems by (simp add: char_ok_def)
  let ?w = "W (take (length g) (drop (length pre) ?line))"
  have m: "measured_hit W x ?line pen (length pre) =
      (if 2 * x < 2 * pen + ?w then length pre else measured_hit W x ?line (pen + ?w) (length pre + length g))"
    using ne g by (subst measured_hit.simps) (simp add: Let_def)
  show ?case
  proof (cases "2 * x < 2 * pen + ?w")
    case True
    then have "measured_hit W x ?line pen (length pre) = length pre + length (concat (take 0 (g # gs)))" using m by simp
    then show ?thesis by blast
  next
    case False
    obtain k where k: "k \<le> length gs" "measured_hit W x ((pre @ g) @ concat gs) (pen + ?w) (length (pre @ g)) =
        length (pre @ g) + length (concat (take k gs))" using Cons.IH [of "pre @ g" "pen + ?w"] Cons.prems by auto
    have "measured_hit W x ?line pen (length pre) = length pre + length (concat (take (Suc k) (g # gs)))"
      using m False k(2) by simp
    then show ?thesis using k(1) by (metis Suc_le_mono length_Cons)
  qed
qed

text \<open>
  When a row is measured, the byte a mouse position maps to is always the start of a
  character or the end of the row: no gesture can cut a glyph in two.
\<close>

theorem drag_never_splits_glyph:
  assumes "list_all char_ok gs" "\<not> ascii_row (concat gs)"
  shows "\<exists>k \<le> length gs. hit_offset W g True x (concat gs) = length (concat (take k gs))"
  using measured_hit_char [OF assms(1), of W x "[]" 0] assms(2) by (simp add: hit_offset_def)

theorem drag_never_splits_glyph_witness:
  "hit_offset (\<lambda>b. if length b = 3 then 2 else 1) 1 True 3 [0xE4, 0xB8, 0xAD, 0xE4, 0xB8, 0xAD] \<in> {0, 3, 6}"
proof -
  let ?gs = "[[0xE4, 0xB8, 0xAD], [0xE4, 0xB8, 0xAD]] :: u8 list list"
  have "list_all char_ok ?gs" "\<not> ascii_row (concat ?gs)"
    by (simp_all add: char_ok_def utf8_sequence_length_def ascii_row_def)
  from drag_never_splits_glyph [OF this, of "\<lambda>b. if length b = 3 then 2 else 1" 1 3]
  obtain k where "k \<le> length ?gs" "hit_offset (\<lambda>b. if length b = 3 then 2 else 1) 1 True 3 (concat ?gs) =
      length (concat (take k ?gs))" by blast
  moreover have "k \<in> {0, 1, 2}" using \<open>k \<le> length ?gs\<close> by auto
  ultimately show ?thesis by auto
qed

text \<open>
  A double-click on a log with no selection and no highlight rule is resolved
  without measuring, as if every byte were one column: on three double-width glyphs, pointing at the
  third one selects the second.
\<close>

theorem double_click_misses_glyph:
  "let g = [0xE4, 0xB8, 0xAD]; row = g @ g @ g; at = hit_offset (\<lambda>b. if length b = 3 then 2 else 1) 1
     (measure_columns False False False) 4 row
   in word_bounds (Some row) at = (3, 6) \<and> hit_offset (\<lambda>b. if length b = 3 then 2 else 1) 1 True 4 row = 6"
  by (simp add: Let_def measure_columns_def hit_offset_def ascii_row_def measured_hit.simps glyph_bytes_def
      utf8_sequence_length_def word_bounds_def walk_back_step [of 4] walk_back_step [of 3])

end
