(* ===== verification/Bridge_Exchange.thy ===== *)
theory Bridge_Exchange
  imports Receive_View
begin

text \<open>
  The exchange between the Lua client and the window (\<open>native/xcom_imgui/xcom_imgui_bridge.cpp\<close>): packed string
  lists, highlight rules, the script console, plugin pages and their events, and the sample rings of the
  oscilloscope. Every exported function does nothing unless the bridge is ready. Strings are bytes; a
  packed list is a buffer of null-terminated strings, and \<open>None\<close> is a read past its end.
\<close>

type_synonym bytes = "u8 list"

section \<open>Packed strings\<close>

text \<open>The string at the cursor, and the cursor behind its null.\<close>

fun c_token :: "bytes \<Rightarrow> (bytes \<times> bytes) option" where
  "c_token [] = None"
| "c_token (c # cs) = (if c = 0 then Some ([], cs) else map_option (\<lambda>(t, rest). (c # t, rest)) (c_token cs))"

fun c_tokens :: "nat \<Rightarrow> bytes \<Rightarrow> bytes list option" where
  "c_tokens 0 cursor = Some []"
| "c_tokens (Suc n) cursor =
     (case c_token cursor of None \<Rightarrow> None | Some (t, rest) \<Rightarrow> map_option (Cons t) (c_tokens n rest))"

text \<open>The walk that stops at an empty string or after \<open>n\<close> strings.\<close>

fun label_tokens :: "nat \<Rightarrow> bytes \<Rightarrow> bytes list option" where
  "label_tokens 0 cursor = (case cursor of [] \<Rightarrow> None | _ \<Rightarrow> Some [])"
| "label_tokens (Suc n) cursor =
     (case cursor of
        [] \<Rightarrow> None
      | c # _ \<Rightarrow>
          if c = 0 then Some []
          else case c_token cursor of None \<Rightarrow> None | Some (t, rest) \<Rightarrow> map_option (Cons t) (label_tokens n rest))"

section \<open>State\<close>

record highlight_rule =
  hr_pattern :: bytes
  hr_color :: u32
  hr_background :: bool

datatype script_event = SeEdit | SeReload | SeOpenFolder | SeClearLog | SeNewScript

fun script_event_code :: "script_event \<Rightarrow> u32" where
  "script_event_code SeEdit = 1"
| "script_event_code SeReload = 2"
| "script_event_code SeOpenFolder = 3"
| "script_event_code SeClearLog = 4"
| "script_event_code SeNewScript = 5"

definition kWidgetsMax :: nat where [simp]: "kWidgetsMax = 32"

record 'd plugin_page =
  pp_id :: bytes
  pp_title :: bytes
  pp_spec :: bytes
  pp_values :: "'d list"               \<comment> \<open>one slot per line of the spec\<close>
  pp_values_ready :: bool
  pp_window_open :: bool
  pp_window_appeared :: bool

record 'd exchange =
  ex_history :: "bytes list"
  ex_history_pos :: int
  ex_rules :: "highlight_rule list"
  ex_names :: "bytes list"
  ex_labels :: "bytes list"
  ex_descs :: "bytes list"
  ex_enabled :: "int list option"      \<comment> \<open>the client's switches, in its storage\<close>
  ex_log :: bytes
  ex_log_lines :: "nat list"
  ex_events :: "u32 list"
  ex_command :: bytes
  ex_command_ready :: bool
  ex_edit_index :: int
  ex_edit_path :: bytes
  ex_edit_buf :: bytes                 \<comment> \<open>ends with its null\<close>
  ex_edit_dirty :: bool
  ex_scripts_visible :: bool
  ex_settings_visible :: bool
  ex_rebuild :: bool                   \<comment> \<open>a font rebuild is pending\<close>
  ex_pages :: "'d plugin_page list"
  ex_plugin_events :: "bytes list"

definition exchange_init :: "'d exchange" where
  "exchange_init = \<lparr>ex_history = [], ex_history_pos = -1, ex_rules = [], ex_names = [], ex_labels = [], ex_descs = [],
     ex_enabled = None, ex_log = [], ex_log_lines = [0], ex_events = [], ex_command = [], ex_command_ready = False, ex_edit_index = -1,
     ex_edit_path = [], ex_edit_buf = [0], ex_edit_dirty = False, ex_scripts_visible = False, ex_settings_visible = False,
     ex_rebuild = False, ex_pages = [], ex_plugin_events = []\<rparr>"

section \<open>Send history\<close>

definition set_send_history :: "bool \<Rightarrow> bytes option \<Rightarrow> int \<Rightarrow> 'd exchange \<Rightarrow> 'd exchange option" where
  "set_send_history ready packed count x =
     (if \<not> ready then Some x
      else let x1 = x\<lparr>ex_history := [], ex_history_pos := -1\<rparr>
           in case packed of
                None \<Rightarrow> Some x1
              | Some buf \<Rightarrow> if count \<le> 0 then Some x1
                  else map_option (\<lambda>es. x1\<lparr>ex_history := es\<rparr>) (c_tokens (nat count) buf))"

section \<open>Highlight rules\<close>

definition hex_nibble :: "u8 \<Rightarrow> u32 option" where
  "hex_nibble c =
     (if c \<ge> 0x30 \<and> c \<le> 0x39 then Some (ucast (c - 0x30))
      else if c \<ge> 0x41 \<and> c \<le> 0x46 then Some (ucast (c - 0x41 + 10))
      else if c \<ge> 0x61 \<and> c \<le> 0x66 then Some (ucast (c - 0x61 + 10))
      else None)"

text \<open>Up to \<open>n\<close> digits from the cursor: the value and where the scan stopped.\<close>

fun rule_hex :: "nat \<Rightarrow> bytes \<Rightarrow> u32 \<Rightarrow> (u32 \<times> bytes) option" where
  "rule_hex n [] v = None"
| "rule_hex n (c # cs) v =
     (if n = 0 \<or> c = 0 then Some (v, c # cs)
      else case hex_nibble c of
          None \<Rightarrow> Some (v, c # cs)
        | Some d \<Rightarrow> rule_hex (n - 1) cs (push_bit 4 v OR d))"

definition im_col32 :: "u32 \<Rightarrow> u32 \<Rightarrow> u32 \<Rightarrow> u32 \<Rightarrow> u32" where
  "im_col32 r g b a = push_bit 24 a OR push_bit 16 b OR push_bit 8 g OR r"

definition style_bg :: bytes where [simp]: "style_bg = [0x62, 0x67]"

definition rule_color :: "bool \<Rightarrow> u32 \<Rightarrow> u32" where
  "rule_color background v =
     im_col32 (drop_bit 16 v AND 0xFF) (drop_bit 8 v AND 0xFF) (v AND 0xFF) (if background then 90 else 255)"

definition parse_rule :: "bytes \<Rightarrow> (highlight_rule \<times> bytes) option" where
  "parse_rule cursor =
     (case c_token cursor of None \<Rightarrow> None | Some (pattern, cur1) \<Rightarrow>
      case rule_hex 6 cur1 0 of None \<Rightarrow> None | Some (v, cur2) \<Rightarrow>
      case c_token cur2 of None \<Rightarrow> None | Some (_, cur3) \<Rightarrow>
      case c_token cur3 of None \<Rightarrow> None | Some (style, cur4) \<Rightarrow>
        Some (\<lparr>hr_pattern = pattern, hr_color = rule_color (style = style_bg) v, hr_background = (style = style_bg)\<rparr>, cur4))"

fun parse_rules :: "nat \<Rightarrow> bytes \<Rightarrow> highlight_rule list option" where
  "parse_rules 0 cursor = Some []"
| "parse_rules (Suc n) cursor =
     (case parse_rule cursor of None \<Rightarrow> None | Some (r, rest) \<Rightarrow> map_option (Cons r) (parse_rules n rest))"

definition set_highlight_rules :: "bool \<Rightarrow> bytes option \<Rightarrow> int \<Rightarrow> 'd exchange \<Rightarrow> 'd exchange option" where
  "set_highlight_rules ready packed count x =
     (if \<not> ready then Some x
      else let x1 = x\<lparr>ex_rules := []\<rparr>
           in case packed of
                None \<Rightarrow> Some x1
              | Some buf \<Rightarrow> if count \<le> 0 then Some x1
                  else map_option (\<lambda>rs. x1\<lparr>ex_rules := rs\<rparr>) (parse_rules (nat (if count > 32 then 32 else count)) buf))"

section \<open>Scripts\<close>

definition set_scripts :: "bool \<Rightarrow> bytes option \<Rightarrow> int list option \<Rightarrow> int \<Rightarrow> 'd exchange \<Rightarrow> 'd exchange option" where
  "set_scripts ready packed enabled count x =
     (if \<not> ready then Some x
      else let x1 = x\<lparr>ex_names := [], ex_labels := [], ex_descs := []\<rparr>
           in case packed of
                None \<Rightarrow> Some (x1\<lparr>ex_enabled := None\<rparr>)
              | Some buf \<Rightarrow> if count \<le> 0 then Some (x1\<lparr>ex_enabled := None\<rparr>)
                  else map_option (\<lambda>ns. x1\<lparr>ex_names := ns, ex_enabled := enabled\<rparr>) (c_tokens (nat count) buf))"

definition set_script_labels :: "bool \<Rightarrow> bytes option \<Rightarrow> 'd exchange \<Rightarrow> 'd exchange option" where
  "set_script_labels ready packed x =
     (if \<not> ready then Some x
      else map_option (\<lambda>labels.
             let next = (if labels \<noteq> [] \<and> length labels \<noteq> length (ex_names x) then [] else labels)
             in if next = ex_labels x then x else x\<lparr>ex_labels := next, ex_rebuild := True\<rparr>)
           (case packed of None \<Rightarrow> Some [] | Some buf \<Rightarrow> label_tokens (length (ex_names x)) buf))"

definition set_script_descs :: "bool \<Rightarrow> bytes option \<Rightarrow> int \<Rightarrow> 'd exchange \<Rightarrow> 'd exchange option" where
  "set_script_descs ready packed count x =
     (if \<not> ready then Some x
      else map_option (\<lambda>next. if next = ex_descs x then x else x\<lparr>ex_descs := next, ex_rebuild := True\<rparr>)
        (case packed of None \<Rightarrow> Some []
         | Some buf \<Rightarrow> if count > 0 \<and> count = int (length (ex_names x)) then c_tokens (nat count) buf else Some []))"

definition kLogLimit :: nat where [simp]: "kLogLimit = 128 * 1024"

definition set_script_log :: "bool \<Rightarrow> bytes option \<Rightarrow> 'd exchange \<Rightarrow> 'd exchange" where
  "set_script_log ready input x =
     (if \<not> ready then x
      else case input of
          None \<Rightarrow> x\<lparr>ex_log := [], ex_log_lines := [0]\<rparr>
        | Some t \<Rightarrow>
            if length t = 0 then x\<lparr>ex_log := [], ex_log_lines := [0]\<rparr>
            else let kept = (if length t > kLogLimit then drop (length t - kLogLimit) t else t)
                 in x\<lparr>ex_log := kept, ex_log_lines := 0 # scan_lines 0 kept\<rparr>)"

definition set_scripts_visible :: "bool \<Rightarrow> int \<Rightarrow> 'd exchange \<Rightarrow> 'd exchange" where
  "set_scripts_visible ready visible x = (if ready then x\<lparr>ex_scripts_visible := (visible \<noteq> 0)\<rparr> else x)"

text \<open>The console's events: a toolbar button, a pick in the list, and the save shortcut.\<close>

definition script_pick :: "nat \<Rightarrow> 'd exchange \<Rightarrow> 'd exchange" where
  "script_pick index x = x\<lparr>ex_events := ex_events x @ [push_bit 8 (script_event_code SeEdit) OR of_nat index]\<rparr>"

definition script_button :: "script_event \<Rightarrow> 'd exchange \<Rightarrow> 'd exchange" where
  "script_button e x =
     x\<lparr>ex_events := ex_events x @
         [push_bit 8 (script_event_code e) OR
          (if e = SeReload \<and> ex_edit_index x \<ge> 0 then of_int (ex_edit_index x) else 0)]\<rparr>"

definition script_save_key :: "'d exchange \<Rightarrow> 'd exchange" where
  "script_save_key x = x\<lparr>ex_events := ex_events x @ [push_bit 8 (script_event_code SeEdit) OR 0x40]\<rparr>"

definition take_script_events :: "bool \<Rightarrow> int option \<Rightarrow> 'd exchange \<Rightarrow> u32 list \<times> 'd exchange" where
  "take_script_events ready out x =
     (case out of
        None \<Rightarrow> ([], x)
      | Some capacity \<Rightarrow>
          if \<not> ready \<or> capacity \<le> 0 then ([], x)
          else let moved = (if length (ex_events x) < nat capacity then length (ex_events x) else nat capacity)
               in (take moved (ex_events x), x\<lparr>ex_events := drop moved (ex_events x)\<rparr>))"

definition script_take_command :: "bool \<Rightarrow> int option \<Rightarrow> 'd exchange \<Rightarrow> bytes option \<times> 'd exchange" where
  "script_take_command ready out x =
     (case out of
        None \<Rightarrow> (None, x)
      | Some capacity \<Rightarrow>
          if \<not> ready \<or> capacity \<le> 0 \<or> \<not> ex_command_ready x then (None, x)
          else let n = length (ex_command x); copied = (if int n < capacity then n else nat (capacity - 1))
               in (Some (take copied (ex_command x)), x\<lparr>ex_command_ready := False, ex_command := []\<rparr>))"

definition script_load_editor :: "bool \<Rightarrow> bytes option \<Rightarrow> bytes option \<Rightarrow> 'd exchange \<Rightarrow> 'd exchange" where
  "script_load_editor ready path content x =
     (if \<not> ready then x
      else let buf = (case content of None \<Rightarrow> [] | Some t \<Rightarrow> t)
           in x\<lparr>ex_edit_path := (case path of None \<Rightarrow> [] | Some p \<Rightarrow> p),
                ex_edit_buf := (if buf = [] \<or> last buf \<noteq> 0 then buf @ [0] else buf), ex_edit_dirty := False\<rparr>)"

definition script_select :: "bool \<Rightarrow> int \<Rightarrow> 'd exchange \<Rightarrow> 'd exchange" where
  "script_select ready index x =
     (if \<not> ready then x
      else let x1 = x\<lparr>ex_edit_index := index\<rparr>
           in if index < 0 then x1\<lparr>ex_edit_path := [], ex_edit_buf := [0], ex_edit_dirty := False\<rparr> else x1)"

definition is_save_event :: "u32 \<Rightarrow> bool" where
  "is_save_event ev \<longleftrightarrow> drop_bit 8 ev = script_event_code SeEdit \<and> ev AND 0x40 \<noteq> 0"

text \<open>The path and the text handed out, for buffers of the two capacities.\<close>

definition script_take_editor_save ::
  "bool \<Rightarrow> (int \<times> int) option \<Rightarrow> 'd exchange \<Rightarrow> (bytes \<times> bytes) option \<times> 'd exchange" where
  "script_take_editor_save ready out x =
     (case out of
        None \<Rightarrow> (None, x)
      | Some (path_cap, text_cap) \<Rightarrow>
          if \<not> ready \<or> path_cap \<le> 0 \<or> text_cap \<le> 0 then (None, x)
          else case dropWhile (\<lambda>ev. \<not> is_save_event ev) (ex_events x) of
              [] \<Rightarrow> (None, x)
            | _ # later \<Rightarrow>
                let cut = (\<lambda>b cap. take (if int (length b) < cap then length b else nat (cap - 1)) b)
                in (Some (cut (ex_edit_path x) path_cap, cut (ex_edit_buf x) text_cap),
                    x\<lparr>ex_events := takeWhile (\<lambda>ev. \<not> is_save_event ev) (ex_events x) @ later, ex_edit_dirty := False\<rparr>))"

section \<open>Plugin pages\<close>

definition kMaxQueued :: nat where [simp]: "kMaxQueued = 256"

definition spec_field :: "bytes \<Rightarrow> u8 \<Rightarrow> bytes \<times> bytes" where
  "spec_field line delimiter =
     (takeWhile (\<lambda>c. c \<noteq> delimiter) line, drop 1 (dropWhile (\<lambda>c. c \<noteq> delimiter) line))"

text \<open>\<open>page:kind:id[:value]\<close>\<close>

definition event_text :: "bytes \<Rightarrow> bytes \<Rightarrow> bytes \<Rightarrow> bytes \<Rightarrow> bytes" where
  "event_text page kind wid val =
     page @ [0x3A] @ kind @ [0x3A] @ wid @ (if val \<noteq> [] then [0x3A] @ val else [])"

definition spec_event :: "'d plugin_page \<Rightarrow> bytes \<Rightarrow> bytes \<Rightarrow> bytes \<Rightarrow> 'd exchange \<Rightarrow> 'd exchange" where
  "spec_event page kind wid val x =
     (let queued = (if length (ex_plugin_events x) \<ge> kMaxQueued then drop 1 (ex_plugin_events x) else ex_plugin_events x)
      in x\<lparr>ex_plugin_events := queued @ [event_text (pp_id page) kind wid val]\<rparr>)"

definition set_settings_visible :: "bool \<Rightarrow> int \<Rightarrow> 'd exchange \<Rightarrow> 'd exchange" where
  "set_settings_visible ready visible x = (if ready then x\<lparr>ex_settings_visible := (visible \<noteq> 0)\<rparr> else x)"

fun upsert_page :: "bytes \<Rightarrow> bytes option \<Rightarrow> bytes option \<Rightarrow> ('d::zero) plugin_page list \<Rightarrow> 'd plugin_page list" where
  "upsert_page i title spec [] =
     (case spec of None \<Rightarrow> [] | Some s \<Rightarrow>
        if s = [] then []
        else [\<lparr>pp_id = i, pp_title = (case title of None \<Rightarrow> i | Some t \<Rightarrow> t), pp_spec = s,
               pp_values = replicate kWidgetsMax 0, pp_values_ready = False, pp_window_open = True, pp_window_appeared = False\<rparr>])"
| "upsert_page i title spec (p # ps) =
     (if pp_id p = i
      then (case spec of None \<Rightarrow> ps | Some s \<Rightarrow>
              if s = [] then ps
              else p\<lparr>pp_title := (case title of None \<Rightarrow> i | Some t \<Rightarrow> t), pp_spec := s,
                     pp_values_ready := False, pp_values := replicate kWidgetsMax 0\<rparr> # ps)
      else p # upsert_page i title spec ps)"

definition set_plugin_page :: "bool \<Rightarrow> bytes option \<Rightarrow> bytes option \<Rightarrow> bytes option \<Rightarrow> ('d::zero) exchange \<Rightarrow> 'd exchange" where
  "set_plugin_page ready page title spec x =
     (case page of
        None \<Rightarrow> x
      | Some i \<Rightarrow> if \<not> ready \<or> i = [] then x else x\<lparr>ex_pages := upsert_page i title spec (ex_pages x)\<rparr>)"

text \<open>The events that still fit: how many are consumed, and what is written.\<close>

fun plugin_drain :: "int \<Rightarrow> int \<Rightarrow> bytes list \<Rightarrow> nat \<times> bytes" where
  "plugin_drain written capacity [] = (0, [])"
| "plugin_drain written capacity (e # es) =
     (let need = int (length e) + 1
      in if written + need > capacity then (0, [])
         else case plugin_drain (written + need) capacity es of (n, out) \<Rightarrow> (Suc n, e @ [0] @ out))"

definition take_plugin_events :: "bool \<Rightarrow> int option \<Rightarrow> 'd exchange \<Rightarrow> bytes \<times> 'd exchange" where
  "take_plugin_events ready out x =
     (case out of
        None \<Rightarrow> ([], x)
      | Some capacity \<Rightarrow>
          if \<not> ready \<or> capacity \<le> 0 then ([], x)
          else case plugin_drain 0 capacity (ex_plugin_events x) of
              (n, written) \<Rightarrow> (written, x\<lparr>ex_plugin_events := drop n (ex_plugin_events x)\<rparr>))"

section \<open>The oscilloscope\<close>

definition kScopeChannelsMax :: nat where [simp]: "kScopeChannelsMax = 4"
definition kScopePointsMax :: nat where [simp]: "kScopePointsMax = 20000"

record 'f scope_channel =
  sc_xs :: "'f list"
  sc_ys :: "'f list"
  sc_offset :: nat
  sc_count :: nat
  sc_visible :: bool

record ('d, 'f) scope =
  sp_channels :: "'f scope_channel list"
  sp_has_data :: bool
  sp_last_x :: 'd
  sp_visible :: bool

definition scope_init :: "'d \<Rightarrow> 'f \<Rightarrow> ('d, 'f) scope" where
  "scope_init zero fzero = \<lparr>sp_channels = replicate kScopeChannelsMax
       \<lparr>sc_xs = replicate kScopePointsMax fzero, sc_ys = replicate kScopePointsMax fzero,
        sc_offset = 0, sc_count = 0, sc_visible = True\<rparr>,
     sp_has_data = False, sp_last_x = zero, sp_visible = False\<rparr>"

definition scope_store :: "'f \<Rightarrow> 'f \<Rightarrow> 'f scope_channel \<Rightarrow> 'f scope_channel" where
  "scope_store fx fy c =
     (let slot = (sc_offset c + sc_count c) mod kScopePointsMax;
          c1 = c\<lparr>sc_xs := (sc_xs c)[slot := fx], sc_ys := (sc_ys c)[slot := fy]\<rparr>
      in if sc_count c < kScopePointsMax then c1\<lparr>sc_count := sc_count c + 1\<rparr>
         else c1\<lparr>sc_offset := (sc_offset c + 1) mod kScopePointsMax\<rparr>)"

text \<open>\<open>narrow\<close> is the conversion of a double to a float.\<close>

definition scope_push :: "('d::linorder \<Rightarrow> 'f) \<Rightarrow> bool \<Rightarrow> int \<Rightarrow> 'd \<Rightarrow> 'd \<Rightarrow> ('d, 'f) scope \<Rightarrow> bool \<times> ('d, 'f) scope" where
  "scope_push narrow ready channel x y s =
     (let index = channel - 1
      in if \<not> ready \<or> index < 0 \<or> index \<ge> int kScopeChannelsMax then (False, s)
         else (True, s\<lparr>sp_channels := (sp_channels s)[nat index := scope_store (narrow x) (narrow y) (sp_channels s ! nat index)],
                sp_has_data := True, sp_last_x := (if x > sp_last_x s then x else sp_last_x s)\<rparr>))"

definition scope_clear :: "bool \<Rightarrow> 'd \<Rightarrow> ('d, 'f) scope \<Rightarrow> ('d, 'f) scope" where
  "scope_clear ready zero s =
     (if \<not> ready then s
      else s\<lparr>sp_channels := map (\<lambda>c. c\<lparr>sc_offset := 0, sc_count := 0\<rparr>) (sp_channels s), sp_has_data := False, sp_last_x := zero\<rparr>)"

definition scope_configure :: "bool \<Rightarrow> int \<Rightarrow> int \<Rightarrow> ('d, 'f) scope \<Rightarrow> ('d, 'f) scope" where
  "scope_configure ready channel visible s =
     (let index = channel - 1
      in if \<not> ready \<or> \<not> (index \<ge> 0 \<and> index < int kScopeChannelsMax) then s
         else s\<lparr>sp_channels := (sp_channels s)[nat index := (sp_channels s ! nat index)\<lparr>sc_visible := (visible \<noteq> 0)\<rparr>]\<rparr>)"

definition scope_set_visible :: "bool \<Rightarrow> int \<Rightarrow> ('d, 'f) scope \<Rightarrow> ('d, 'f) scope" where
  "scope_set_visible ready visible s = (if ready then s\<lparr>sp_visible := (visible \<noteq> 0)\<rparr> else s)"

end
