(* ===== verification/Receive_Row.thy ===== *)
theory Receive_Row
  imports Bridge_Exchange
begin

text \<open>
  How a row of the receive log is drawn (\<open>xcom_imgui_bridge.cpp\<close>, \<open>ReceiveContent\<close>): the keyword hits of the
  highlight rules, the runs of text a highlighted row is drawn in, the shaded part of the selection, and the
  rows that get a colour of their own. A run is a range of the row's bytes with its colour; where it lands on
  the screen is the pen, which advances by the run's width whatever the run's place in the row.
\<close>

section \<open>Keyword hits\<close>

record hit =
  hit_offset_in :: nat
  hit_length :: nat
  hit_rule :: highlight_rule

text \<open>\<open>std::search\<close> from the scan position: the distance to the first occurrence.\<close>

fun search_bytes :: "bytes \<Rightarrow> bytes \<Rightarrow> nat option" where
  "search_bytes [] p = (if p = [] then Some 0 else None)"
| "search_bytes (c # cs) p = (if take (length p) (c # cs) = p then Some 0 else map_option Suc (search_bytes cs p))"

definition kHitsMax :: nat where [simp]: "kHitsMax = 64"

text \<open>The hits of one rule from a scan position, with room for so many.\<close>

fun rule_hits :: "highlight_rule \<Rightarrow> bytes \<Rightarrow> nat \<Rightarrow> nat \<Rightarrow> hit list" where
  "rule_hits r line 0 scan = []"
| "rule_hits r line (Suc room) scan =
     (if scan + length (hr_pattern r) \<le> length line
      then case search_bytes (drop scan line) (hr_pattern r) of
          None \<Rightarrow> []
        | Some k \<Rightarrow> \<lparr>hit_offset_in = scan + k, hit_length = length (hr_pattern r), hit_rule = r\<rparr> #
                    rule_hits r line room (scan + k + length (hr_pattern r))
      else [])"

fun row_hits :: "highlight_rule list \<Rightarrow> bytes \<Rightarrow> nat \<Rightarrow> hit list" where
  "row_hits [] line room = []"
| "row_hits (r # rs) line room =
     (if hr_pattern r = [] then row_hits rs line room
      else let hs = rule_hits r line room 0 in hs @ row_hits rs line (room - length hs))"

section \<open>Runs\<close>

type_synonym run = "nat \<times> nat \<times> u32 option"    \<comment> \<open>from, to, colour of the rule\<close>

fun text_runs :: "nat \<Rightarrow> hit list \<Rightarrow> nat \<Rightarrow> run list" where
  "text_runs len [] cursor = (if cursor < len then [(cursor, len, None)] else [])"
| "text_runs len (h # hs) cursor =
     (if hit_offset_in h \<ge> len then (if cursor < len then [(cursor, len, None)] else [])
      else (if hit_offset_in h > cursor then [(cursor, hit_offset_in h, None)] else []) @
           (hit_offset_in h, hit_offset_in h + hit_length h, Some (hr_color (hit_rule h))) #
           text_runs len hs (hit_offset_in h + hit_length h))"

text \<open>From the first hit of a text rule on; without one the row is drawn in one piece.\<close>

definition draw_row :: "highlight_rule list \<Rightarrow> bytes \<Rightarrow> run list" where
  "draw_row rules line =
     (case dropWhile (\<lambda>h. hr_background (hit_rule h)) (row_hits rules line kHitsMax) of
        [] \<Rightarrow> [(0, length line, None)]
      | hs \<Rightarrow> text_runs (length line) hs 0)"

definition background_rects :: "highlight_rule list \<Rightarrow> bytes \<Rightarrow> run list" where
  "background_rects rules line =
     map (\<lambda>h. (hit_offset_in h, hit_offset_in h + hit_length h, Some (hr_color (hit_rule h))))
       (filter (\<lambda>h. hr_background (hit_rule h)) (row_hits rules line kHitsMax))"

text \<open>The glyphs on the screen, left to right.\<close>

definition shown :: "bytes \<Rightarrow> run list \<Rightarrow> bytes" where
  "shown line rs = concat (map (\<lambda>(a, b, _). take (b - a) (drop a line)) rs)"

section \<open>Shading and colours\<close>

definition row_shade :: "nat \<Rightarrow> nat \<Rightarrow> nat \<Rightarrow> nat \<Rightarrow> nat \<Rightarrow> (nat \<times> nat) option" where
  "row_shade base sel_begin sel_end line_off line_len =
     (let sel_b = (if sel_begin > base then sel_begin - base else 0);
          sel_e = (if sel_end > base then sel_end - base else 0)
      in if sel_e > sel_b \<and> line_off < sel_e \<and> line_off + line_len > sel_b
         then Some (if sel_b > line_off then sel_b - line_off else 0,
                    if sel_e < line_off + line_len then sel_e - line_off else line_len)
         else None)"

definition tx_row :: "bytes \<Rightarrow> bool" where
  "tx_row line \<longleftrightarrow> length line \<ge> 4 \<and> take 4 line = [0x54, 0x58, 0x3A, 0x20]"

definition timestamp_row :: "bool \<Rightarrow> bytes \<Rightarrow> bool" where
  "timestamp_row enabled line \<longleftrightarrow> enabled \<and> length line \<ge> 15 \<and> line ! 0 = 0x5B \<and> line ! 3 = 0x3A \<and> line ! 6 = 0x3A \<and>
     line ! 9 = 0x2E \<and> line ! 13 = 0x5D \<and> line ! 14 = 0x20"

section \<open>Hits lie in the row\<close>

lemma search_bytes_occurs:
  "search_bytes t p = Some k \<Longrightarrow> k + length p \<le> length t \<and> take (length p) (drop k t) = p"
proof (induction t arbitrary: k)
  case (Cons c cs)
  show ?case
  proof (cases "take (length p) (c # cs) = p")
    case True
    then have "length p \<le> length (c # cs)" by (metis length_take min.cobounded1 min.commute)
    then show ?thesis using Cons.prems True by auto
  next
    case False
    then show ?thesis using Cons by auto
  qed
qed (simp split: if_splits)

text \<open>Hits of a rule in order from a scan position: occurrences of its pattern, one behind the other.\<close>

fun hits_from :: "bytes \<Rightarrow> nat \<Rightarrow> hit list \<Rightarrow> bool" where
  "hits_from line scan [] = True"
| "hits_from line scan (h # hs) \<longleftrightarrow>
     scan \<le> hit_offset_in h \<and> 0 < hit_length h \<and> hit_offset_in h + hit_length h \<le> length line \<and>
     take (hit_length h) (drop (hit_offset_in h) line) = hr_pattern (hit_rule h) \<and>
     hits_from line (hit_offset_in h + hit_length h) hs"

lemma rule_hits_from: "hr_pattern r \<noteq> [] \<Longrightarrow> hits_from line scan (rule_hits r line room scan)"
proof (induction r line room scan rule: rule_hits.induct)
  case (2 r line room scan)
  show ?case
  proof (cases "search_bytes (drop scan line) (hr_pattern r)")
    case (Some k)
    then have "k + length (hr_pattern r) \<le> length line - scan \<and> take (length (hr_pattern r)) (drop (scan + k) line) = hr_pattern r"
      using search_bytes_occurs by (fastforce simp: add.commute)
    then show ?thesis using Some 2 by (auto simp: Let_def)
  qed simp
qed simp

lemma rule_hits_rule: "list_all (\<lambda>h. hit_rule h = r) (rule_hits r line room scan)"
  by (induction r line room scan rule: rule_hits.induct) (auto split: option.split)

lemma rule_hits_room: "length (rule_hits r line room scan) \<le> room"
  by (induction r line room scan rule: rule_hits.induct) (auto split: option.split)

definition hit_ok :: "bytes \<Rightarrow> hit \<Rightarrow> bool" where
  "hit_ok line h \<longleftrightarrow> 0 < hit_length h \<and> hit_offset_in h + hit_length h \<le> length line \<and>
     take (hit_length h) (drop (hit_offset_in h) line) = hr_pattern (hit_rule h)"

lemma hits_from_ok: "hits_from line scan hs \<Longrightarrow> h \<in> set hs \<Longrightarrow> hit_ok line h"
  by (induction line scan hs rule: hits_from.induct) (auto simp: hit_ok_def)

lemma row_hits_ok: "h \<in> set (row_hits rs line room) \<Longrightarrow> hit_ok line h \<and> hit_rule h \<in> set rs"
proof (induction rs line room rule: row_hits.induct)
  case (2 r rs line room)
  then show ?case
    using hits_from_ok [OF rule_hits_from] rule_hits_rule by (fastforce simp: Let_def list_all_iff split: if_splits)
qed simp

lemma row_hits_room: "length (row_hits rs line room) \<le> room"
proof (induction rs line room rule: row_hits.induct)
  case (2 r rs line room)
  then show ?case using rule_hits_room [of r line room 0] by (auto simp: Let_def)
qed simp

section \<open>What a highlighted row shows\<close>

lemma text_runs_bounds:
  "\<forall>h\<in>set hs. hit_ok line h \<Longrightarrow> cursor \<le> length line \<Longrightarrow> (a, b, c) \<in> set (text_runs (length line) hs cursor) \<Longrightarrow>
   a < b \<and> b \<le> length line"
proof (induction hs arbitrary: cursor)
  case (Cons h hs)
  then show ?case by (auto simp: hit_ok_def split: if_splits)
qed (auto split: if_splits)

text \<open>
  However many rules match, at most 64 hits are kept and every range of bytes the row
  is drawn from, text or background, lies inside the row and shows an occurrence of its rule's pattern.
\<close>

theorem highlight_stays_in_row:
  assumes "(a, b, Some colour) \<in> set (draw_row rules line) \<union> set (background_rects rules line)"
  shows "length (row_hits rules line kHitsMax) \<le> 64 \<and> a < b \<and> b \<le> length line \<and>
    (\<exists>r\<in>set rules. hr_color r = colour \<and> take (b - a) (drop a line) = hr_pattern r)"
proof -
  let ?hs = "dropWhile (\<lambda>h. hr_background (hit_rule h)) (row_hits rules line kHitsMax)"
  have coloured: "\<exists>h\<in>set hs. a = hit_offset_in h \<and> b = hit_offset_in h + hit_length h \<and> colour = hr_color (hit_rule h)"
    if "(a, b, Some colour) \<in> set (text_runs n hs cursor)" for n hs cursor
    using that by (induction hs arbitrary: cursor) (auto split: if_splits)
  have "\<exists>h\<in>set (row_hits rules line kHitsMax). a = hit_offset_in h \<and> b = hit_offset_in h + hit_length h \<and> colour = hr_color (hit_rule h)"
  proof (cases "(a, b, Some colour) \<in> set (draw_row rules line)")
    case True
    then have "(a, b, Some colour) \<in> set (text_runs (length line) ?hs 0)"
      by (cases ?hs) (simp_all add: draw_row_def del: text_runs.simps kHitsMax_def)
    from coloured [OF this] show ?thesis by (blast dest: set_dropWhileD)
  next
    case False
    then show ?thesis using assms by (auto simp: background_rects_def simp del: kHitsMax_def)
  qed
  then obtain h where h: "h \<in> set (row_hits rules line kHitsMax)" "a = hit_offset_in h" "b = hit_offset_in h + hit_length h"
    "colour = hr_color (hit_rule h)" by blast
  show ?thesis
    using row_hits_ok [OF h(1)] row_hits_room [of rules line kHitsMax] h(2-) by (auto simp: hit_ok_def)
qed

theorem highlight_stays_in_row_witness:
  "(1, 2, Some 7) \<in> set (draw_row [\<lparr>hr_pattern = [0x42], hr_color = 7, hr_background = False\<rparr>] [0x41, 0x42]) \<and> (2::nat) \<le> 2"
proof -
  let ?rs = "[\<lparr>hr_pattern = [0x42], hr_color = 7, hr_background = False\<rparr>]" and ?line = "[0x41, 0x42 :: u8]"
  have run: "(1, 2, Some 7) \<in> set (draw_row ?rs ?line)" by (simp add: draw_row_def numeral_eq_Suc)
  then have "(2::nat) \<le> length ?line" using highlight_stays_in_row [of 1 2 7 ?rs ?line] by blast
  then show ?thesis using run by simp
qed

lemma take_then_drop: "a \<le> b \<Longrightarrow> take (b - a) (drop a xs) @ drop b xs = drop a xs"
  using append_take_drop_id [of "b - a" "drop a xs"] by simp

lemma shown_runs:
  "hits_from line cursor hs \<Longrightarrow> cursor \<le> length line \<Longrightarrow> shown line (text_runs (length line) hs cursor) = drop cursor line"
proof (induction line cursor hs rule: hits_from.induct)
  case (2 line cursor h hs)
  let ?a = "hit_offset_in h" and ?b = "hit_offset_in h + hit_length h"
  have h: "cursor \<le> ?a" "?a < length line" "?b \<le> length line" and IH: "shown line (text_runs (length line) hs ?b) = drop ?b line"
    using 2 by auto
  have "shown line (text_runs (length line) (h # hs) cursor) = take (?a - cursor) (drop cursor line) @ take (?b - ?a) (drop ?a line) @ drop ?b line"
    using h IH by (auto simp: shown_def)
  also have "take (?b - ?a) (drop ?a line) @ drop ?b line = drop ?a line" by (rule take_then_drop) simp
  also have "take (?a - cursor) (drop cursor line) @ drop ?a line = drop cursor line" by (rule take_then_drop) (rule h)
  finally show ?case .
qed (auto simp: shown_def)

lemma background_hits:
  assumes "list_all hr_background rs"
  shows "dropWhile (\<lambda>h. hr_background (hit_rule h)) (row_hits rs line room @ hs) = dropWhile (\<lambda>h. hr_background (hit_rule h)) hs"
proof (rule dropWhile_append2)
  fix h assume "h \<in> set (row_hits rs line room)"
  then show "hr_background (hit_rule h)" using row_hits_ok assms by (auto simp: list_all_iff)
qed

lemma row_hits_append: "row_hits (rs @ rs') line room = row_hits rs line room @ row_hits rs' line (room - length (row_hits rs line room))"
proof (induction rs line room rule: row_hits.induct)
  case (2 r rs line room)
  then show ?case using rule_hits_room [of r line room 0] by (simp add: Let_def diff_diff_add)
qed simp

text \<open>
  With background rules only, or with one text rule behind them, a row shows each of
  its bytes once and in order, whatever matches.
\<close>

theorem one_text_rule_shows_row:
  assumes "list_all hr_background marks"
  shows "shown line (draw_row marks line) = line \<and> shown line (draw_row (marks @ [r]) line) = line"
proof -
  let ?bg = "\<lambda>h. hr_background (hit_rule h)"
  have all: "shown line [(0, length line, None)] = line" by (simp add: shown_def)
  have 1: "dropWhile ?bg (row_hits marks line kHitsMax) = []" using background_hits [OF assms, of line kHitsMax "[]"] by simp
  let ?room = "kHitsMax - length (row_hits marks line kHitsMax)"
  have 2: "dropWhile ?bg (row_hits (marks @ [r]) line kHitsMax) = dropWhile ?bg (row_hits [r] line ?room)"
    unfolding row_hits_append by (rule background_hits [OF assms])
  show ?thesis
  proof (cases "hr_background r \<or> hr_pattern r = []")
    case True
    then have "dropWhile ?bg (row_hits [r] line ?room) = []"
      using background_hits [of "[r]" line ?room "[]"] by (auto simp del: kHitsMax_def)
    then have "dropWhile ?bg (row_hits (marks @ [r]) line kHitsMax) = []" unfolding 2 .
    then show ?thesis by (simp only: draw_row_def 1 all list.case simp_thms)
  next
    case False
    let ?hs = "rule_hits r line ?room 0"
    have "row_hits [r] line ?room = ?hs" using False by (simp add: Let_def del: kHitsMax_def)
    moreover have "dropWhile ?bg ?hs = ?hs"
      using rule_hits_rule [of r line ?room 0] False by (cases ?hs) (simp_all del: kHitsMax_def)
    ultimately have 3: "dropWhile ?bg (row_hits (marks @ [r]) line kHitsMax) = ?hs" using 2 by simp
    have "hits_from line 0 ?hs" using rule_hits_from False by blast
    then have "shown line (text_runs (length line) ?hs 0) = line" using shown_runs [of line 0 ?hs] by simp
    then show ?thesis
      unfolding draw_row_def 1 3 by (cases ?hs) (simp_all add: all del: kHitsMax_def text_runs.simps)
  qed
qed

theorem one_text_rule_shows_row_witness:
  "shown [0x41, 0x42] (draw_row [\<lparr>hr_pattern = [0x41], hr_color = 1, hr_background = True\<rparr>,
     \<lparr>hr_pattern = [0x42], hr_color = 2, hr_background = False\<rparr>] [0x41, 0x42]) = [0x41, 0x42]"
  using one_text_rule_shows_row [of "[\<lparr>hr_pattern = [0x41], hr_color = 1, hr_background = True\<rparr>]"] by simp

text \<open>
  The hits are kept rule by rule, not from left to right, and the runs are drawn in that
  order: with a rule for B and then a rule for A the row AB shows ABAB. A background rule behind a text rule
  is drawn as a run of text as well: the same row with the second rule a background one shows the same.
\<close>

theorem second_rule_garbles_row:
  "shown [0x41, 0x42] (draw_row [\<lparr>hr_pattern = [0x42], hr_color = c, hr_background = False\<rparr>,
     \<lparr>hr_pattern = [0x41], hr_color = d, hr_background = bg\<rparr>] [0x41, 0x42]) = [0x41, 0x42, 0x41, 0x42]"
  by (simp add: draw_row_def shown_def numeral_eq_Suc)

section \<open>Shading\<close>

text \<open>
  The shaded part of a row is exactly its share of the selection: a byte of the row is shaded if
  and only if its absolute position in the stream is selected, whatever part of the selection has left the
  window.
\<close>

theorem shade_is_selection:
  assumes "i < line_len"
  shows "(\<exists>f t. row_shade base sel_begin sel_end line_off line_len = Some (f, t) \<and> f \<le> i \<and> i < t) \<longleftrightarrow>
    sel_begin \<le> base + line_off + i \<and> base + line_off + i < sel_end"
  using assms by (auto simp: row_shade_def Let_def)

theorem shade_is_selection_witness: "row_shade 100 90 104 2 5 = Some (0, 2) \<and> (\<exists>f t. row_shade 100 90 104 2 5 = Some (f, t) \<and> f \<le> 1 \<and> 1 < t)"
  using shade_is_selection [of 1 5 100 90 104 2] by (simp add: row_shade_def)

end
