(* ===== verification/Bridge_Facts.thy ===== *)
theory Bridge_Facts
  imports Bridge_Exchange
begin

text \<open>
  The exchange is faithful: what the client packs is what the window reads, events leave in order and
  within the buffer, the oscilloscope shows the latest samples, and two places where the protocol is not:
  an event that fits no buffer blocks the queue, and a pick in a long script list reads as a save.
\<close>

section \<open>Packed lists\<close>

definition pack :: "bytes list \<Rightarrow> bytes" where
  "pack es = concat (map (\<lambda>e. e @ [0]) es)"

lemma c_token_pack: "0 \<notin> set e \<Longrightarrow> c_token (e @ 0 # rest) = Some (e, rest)"
  by (induction e) auto

lemma c_tokens_pack: "list_all (\<lambda>e. 0 \<notin> set e) es \<Longrightarrow> c_tokens (length es) (pack es @ rest) = Some es"
  by (induction es) (simp_all add: pack_def c_token_pack)

text \<open>
  A list of commands without null bytes that the client packs and counts is read back as
  it is, newest first, and the cursor is back at the command being typed.
\<close>

theorem packed_list_roundtrip:
  assumes "list_all (\<lambda>e. 0 \<notin> set e) es"
  shows "set_send_history True (Some (pack es @ rest)) (int (length es)) x = Some (x\<lparr>ex_history := es, ex_history_pos := -1\<rparr>)"
  using c_tokens_pack [OF assms, of rest] by (cases "es = []") (simp_all add: set_send_history_def Let_def)

theorem packed_list_roundtrip_witness:
  "map_option ex_history (set_send_history True (Some (pack [[0x41], []] @ [])) (int (length [[0x41], [] :: u8 list])) (exchange_init :: int exchange)) =
   Some [[0x41], []]"
  by (subst packed_list_roundtrip) simp_all

section \<open>Highlight rules\<close>

definition hex_char :: "nat \<Rightarrow> u8" where
  "hex_char d = (if d < 10 then of_nat (0x30 + d) else of_nat (0x41 + (d - 10)))"

lemma hex_char_nibble:
  assumes "d < 16"
  shows "hex_nibble (hex_char d) = Some (of_nat d) \<and> hex_char d \<noteq> 0"
proof -
  have "list_all (\<lambda>d. hex_nibble (hex_char d) = Some (of_nat d) \<and> hex_char d \<noteq> 0) [0..<16]" by code_simp
  then show ?thesis using assms by (simp add: list_all_iff)
qed

text \<open>The value of a digit string, and the rule as the client writes it.\<close>

definition hex_number :: "nat list \<Rightarrow> u32" where
  "hex_number ds = fold (\<lambda>d v. push_bit 4 v OR of_nat d) ds 0"

lemma rule_hex_digits:
  "list_all (\<lambda>d. d < 16) ds \<Longrightarrow> length ds \<le> n \<Longrightarrow>
   rule_hex n (map hex_char ds @ 0 # rest) v = Some (fold (\<lambda>d v. push_bit 4 v OR of_nat d) ds v, 0 # rest)"
proof (induction ds arbitrary: n v)
  case Nil
  then show ?case by (cases n) simp_all
next
  case (Cons d ds)
  then obtain m where "n = Suc m" by (cases n) auto
  then show ?case using Cons hex_char_nibble [of d] by simp
qed

type_synonym client_rule = "bytes \<times> nat list \<times> bytes"

definition client_rule_ok :: "client_rule \<Rightarrow> bool" where
  "client_rule_ok r \<longleftrightarrow> (case r of (pattern, ds, style) \<Rightarrow>
     0 \<notin> set pattern \<and> length ds = 6 \<and> list_all (\<lambda>d. d < 16) ds \<and> 0 \<notin> set style)"

definition pack_rule :: "client_rule \<Rightarrow> bytes" where
  "pack_rule r = (case r of (pattern, ds, style) \<Rightarrow> pattern @ [0] @ map hex_char ds @ [0] @ style @ [0])"

definition read_rule :: "client_rule \<Rightarrow> highlight_rule" where
  "read_rule r = (case r of (pattern, ds, style) \<Rightarrow>
     \<lparr>hr_pattern = pattern, hr_color = rule_color (style = style_bg) (hex_number ds), hr_background = (style = style_bg)\<rparr>)"

lemma parse_rule_pack: "client_rule_ok r \<Longrightarrow> parse_rule (pack_rule r @ rest) = Some (read_rule r, rest)"
  by (cases r) (simp add: client_rule_ok_def pack_rule_def read_rule_def parse_rule_def c_token_pack rule_hex_digits
      hex_number_def)

lemma parse_rules_pack:
  "list_all client_rule_ok rs \<Longrightarrow> parse_rules (length rs) (concat (map pack_rule rs) @ rest) = Some (map read_rule rs)"
  by (induction rs) (simp_all add: parse_rule_pack)

text \<open>
  A list of at most 32 rules that the client packs is read back rule by rule:
  the pattern, the colour of its six digits in the GUI's byte order, and the style.
\<close>

theorem highlight_rules_roundtrip:
  assumes "list_all client_rule_ok rs" "length rs \<le> 32"
  shows "set_highlight_rules True (Some (concat (map pack_rule rs) @ rest)) (int (length rs)) x =
    Some (x\<lparr>ex_rules := map read_rule rs\<rparr>)"
  using parse_rules_pack [OF assms(1), of rest] assms(2)
  by (cases "rs = []") (simp_all add: set_highlight_rules_def Let_def)

theorem highlight_rules_roundtrip_witness:
  "map_option (map hr_color \<circ> ex_rules) (set_highlight_rules True
     (Some (concat (map pack_rule [([0x45], [15, 15, 8, 0, 0, 0], [])]) @ [])) (int (length [([0x45 :: u8], [15 :: nat, 15, 8, 0, 0, 0], [] :: u8 list)])) (exchange_init :: int exchange)) =
   Some [0xFF0080FF]"
proof -
  have "list_all client_rule_ok [([0x45], [15, 15, 8, 0, 0, 0], [])]" by (simp add: client_rule_ok_def)
  from highlight_rules_roundtrip [OF this, of "[]" "exchange_init :: int exchange"] show ?thesis
    by (simp add: read_rule_def hex_number_def rule_color_def im_col32_def)
qed

section \<open>Script events\<close>

lemma pick_word:
  assumes "i < 256"
  shows "drop_bit 8 (push_bit 8 1 OR of_nat i :: u32) = 1" "(push_bit 8 1 OR of_nat i :: u32) AND 0x40 \<noteq> 0 \<longleftrightarrow> odd (i div 64)"
proof -
  have "drop_bit 8 (of_nat i :: u32) = of_nat (i div 256)"
    using assms by (simp add: drop_bit_eq_div word_arith_nat_div unat_of_nat take_bit_nat_eq_self)
  then show "drop_bit 8 (push_bit 8 1 OR of_nat i :: u32) = 1" using assms by simp
  have "((push_bit 8 1 OR of_nat i :: u32) AND 0x40 \<noteq> 0) = bit (push_bit 8 1 OR of_nat i :: u32) 6"
    using and_exp_eq_0_iff_not_bit [of "push_bit 8 1 OR of_nat i :: u32" 6] by simp
  also have "\<dots> = bit (of_nat i :: u32) 6" by (simp add: bit_or_iff bit_push_bit_iff)
  also have "\<dots> = bit i 6" by (simp add: bit_of_nat_iff)
  also have "\<dots> = odd (i div 64)" by (simp add: bit_iff_odd)
  finally show "(push_bit 8 1 OR of_nat i :: u32) AND 0x40 \<noteq> 0 \<longleftrightarrow> odd (i div 64)" .
qed

text \<open>
  The save event is an edit event with bit six set in the place of the script
  index, so picking any script whose index has that bit (the 65th to the 128th of the list) is consumed by
  the save request as if the user had pressed the save key: the editor's text is handed out to be written,
  and the pick is lost.
\<close>

theorem long_list_pick_reads_as_save:
  assumes "i < 256" "ex_events x = []" "0 < path_cap" "0 < text_cap"
    "script_take_editor_save True (Some (path_cap, text_cap)) (script_pick i x) = (saved, x')"
  shows "(saved \<noteq> None \<longleftrightarrow> odd (i div 64)) \<and> (odd (i div 64) \<longrightarrow> ex_events x' = [])"
  using assms pick_word [OF assms(1)]
  by (auto simp: script_take_editor_save_def script_pick_def is_save_event_def Let_def)

theorem long_list_pick_reads_as_save_witness:
  "fst (script_take_editor_save True (Some (512, 65536)) (script_pick 64 (exchange_init :: int exchange))) \<noteq> None"
proof -
  have "ex_events (exchange_init :: int exchange) = []" "(0::int) < 512" "(0::int) < 65536" "(64::nat) < 256" by (simp_all add: exchange_init_def)
  from long_list_pick_reads_as_save [OF this(4,1-3) surjective_pairing] show ?thesis by simp
qed

section \<open>Plugin events\<close>

lemma plugin_drain_spec:
  "plugin_drain w cap es = (n, out) \<Longrightarrow>
   n \<le> length es \<and> out = pack (take n es) \<and> (n = 0 \<longrightarrow> es = [] \<or> w + int (length (hd es)) + 1 > cap) \<and>
   (n > 0 \<longrightarrow> w + int (length out) \<le> cap)"
proof (induction es arbitrary: w n out)
  case Nil
  then show ?case by (simp add: pack_def)
next
  case (Cons e es)
  let ?w = "w + (int (length e) + 1)"
  show ?case
  proof (cases "?w > cap")
    case True
    then show ?thesis using Cons.prems by (simp add: pack_def)
  next
    case False
    obtain m o' where r: "plugin_drain ?w cap es = (m, o')" by (meson surj_pair)
    have n: "n = Suc m" "out = e @ [0] @ o'" using Cons.prems False r by simp_all
    from Cons.IH [OF r] show ?thesis
      using False n by (cases "m = 0") (auto simp: pack_def)
  qed
qed

text \<open>
  The events of the plugin pages leave the queue in order, as many whole records as fit the
  buffer, and nothing is lost: what stays is what was not handed out. Nothing leaves exactly when the queue
  is empty or its first record does not fit, and then no later drain of that size moves it either.
\<close>

theorem plugin_events_in_order:
  assumes "take_plugin_events True (Some cap) x = (out, x')" "0 < cap"
  shows "\<exists>n. ex_plugin_events x = take n (ex_plugin_events x) @ ex_plugin_events x' \<and> out = pack (take n (ex_plugin_events x)) \<and>
    int (length out) \<le> cap \<and>
    (x' = x \<longleftrightarrow> ex_plugin_events x = [] \<or> int (length (hd (ex_plugin_events x))) + 1 > cap)"
proof -
  obtain n o' where r: "plugin_drain 0 cap (ex_plugin_events x) = (n, o')" by (meson surj_pair)
  note d = plugin_drain_spec [OF r]
  have x: "out = o'" "x' = x\<lparr>ex_plugin_events := drop n (ex_plugin_events x)\<rparr>"
    using assms r by (simp_all add: take_plugin_events_def)
  have len: "int (length out) \<le> cap" proof (cases "n = 0")
    case True
    then have "out = []" using d x(1) by (simp add: pack_def)
    then show ?thesis using assms(2) by simp
  next
    case False
    have "0 < n \<longrightarrow> 0 + int (length o') \<le> cap" using d by blast
    then have "int (length o') \<le> cap" using False by simp
    then show ?thesis unfolding x(1) .
  qed
  have same: "x' = x \<longleftrightarrow> n = 0"
  proof
    assume "x' = x"
    then have "ex_plugin_events x' = ex_plugin_events x" by simp
    then have "length (drop n (ex_plugin_events x)) = length (ex_plugin_events x)" using x(2) by simp
    then show "n = 0" using d by auto
  qed (simp add: x(2))
  have "n > 0 \<Longrightarrow> ex_plugin_events x \<noteq> [] \<and> int (length (hd (ex_plugin_events x))) + 1 \<le> cap"
    using r by (cases "ex_plugin_events x") (auto simp: Let_def split: if_splits)
  then have "n = 0 \<longleftrightarrow> ex_plugin_events x = [] \<or> int (length (hd (ex_plugin_events x))) + 1 > cap"
    using d by fastforce
  then show ?thesis using d x len same by (intro exI [of _ n]) simp
qed

theorem plugin_events_in_order_witness:
  "fst (take_plugin_events True (Some 3) ((exchange_init :: int exchange)\<lparr>ex_plugin_events := [[0x41], [0x42, 0x43]]\<rparr>)) = [0x41, 0]"
proof -
  let ?x = "(exchange_init :: int exchange)\<lparr>ex_plugin_events := [[0x41], [0x42, 0x43]]\<rparr>"
  obtain out x' where r: "take_plugin_events True (Some 3) ?x = (out, x')" by (meson surj_pair)
  then have "out = [0x41, 0]" by (simp add: take_plugin_events_def)
  moreover have "int (length out) \<le> 3" using plugin_events_in_order [OF r] by auto
  ultimately show ?thesis using r by simp
qed

section \<open>The oscilloscope\<close>

definition scope_contents :: "'f scope_channel \<Rightarrow> ('f \<times> 'f) list" where
  "scope_contents c = map (\<lambda>k. (sc_xs c ! ((sc_offset c + k) mod kScopePointsMax), sc_ys c ! ((sc_offset c + k) mod kScopePointsMax)))
     [0..<sc_count c]"

definition scope_ok :: "'f scope_channel \<Rightarrow> bool" where
  "scope_ok c \<longleftrightarrow> length (sc_xs c) = kScopePointsMax \<and> length (sc_ys c) = kScopePointsMax \<and>
     sc_offset c < kScopePointsMax \<and> sc_count c \<le> kScopePointsMax"

text \<open>The latest samples of a stream, as many as the ring holds.\<close>

definition latest :: "'a list \<Rightarrow> 'a list" where
  "latest zs = drop (length zs - kScopePointsMax) zs"

lemma scope_points_pos: "0 < kScopePointsMax"
  by simp

lemma scope_store_spec:
  assumes "scope_ok c"
  shows "scope_ok (scope_store fx fy c) \<and>
    scope_contents (scope_store fx fy c) =
      (if sc_count c < kScopePointsMax then scope_contents c else tl (scope_contents c)) @ [(fx, fy)]"
proof -
  let ?N = kScopePointsMax and ?o = "sc_offset c" and ?n = "sc_count c"
  let ?slot = "(?o + ?n) mod ?N"
  have ok: "length (sc_xs c) = ?N" "length (sc_ys c) = ?N" "?o < ?N" "?n \<le> ?N" using assms by (simp_all add: scope_ok_def)
  have slot: "?slot < ?N" using scope_points_pos by (rule mod_less_divisor)
  have other: "(?o + k) mod ?N \<noteq> ?slot" if "k < ?n" "?n < ?N \<or> 0 < k" for k
  proof (cases "?n < ?N")
    case True
    show ?thesis
    proof
      assume "(?o + k) mod ?N = ?slot"
      then have "k = ?n" by (rule mod_add_inject) (use that True in simp_all)
      then show False using that by simp
    qed
  next
    case False
    then have "?n = ?N" using ok by simp
    then have "?slot = (?o + 0) mod ?N" by (simp only: mod_add_self2 add_0_right)
    show ?thesis
    proof
      assume "(?o + k) mod ?N = ?slot"
      then have "(?o + k) mod ?N = (?o + 0) mod ?N" using \<open>?slot = (?o + 0) mod ?N\<close> by simp
      then have "k = 0" by (rule mod_add_inject) (use that \<open>?n = ?N\<close> scope_points_pos in simp_all)
      then show False using that \<open>?n = ?N\<close> by simp
    qed
  qed
  show ?thesis
  proof (cases "?n < ?N")
    case True
    have "scope_store fx fy c = c\<lparr>sc_xs := (sc_xs c)[?slot := fx], sc_ys := (sc_ys c)[?slot := fy], sc_count := ?n + 1\<rparr>"
      using True by (simp add: scope_store_def Let_def del: kScopePointsMax_def)
    then show ?thesis
      using True ok slot other other [THEN not_sym]
      by (simp add: scope_ok_def scope_contents_def nth_list_update del: kScopePointsMax_def)
  next
    case False
    then have n: "?n = ?N" using ok by simp
    have st: "scope_store fx fy c = c\<lparr>sc_xs := (sc_xs c)[?slot := fx], sc_ys := (sc_ys c)[?slot := fy],
        sc_offset := (?o + 1) mod ?N\<rparr>"
      using False by (simp add: scope_store_def Let_def del: kScopePointsMax_def)
    obtain m where m: "?N = Suc m" using scope_points_pos gr0_implies_Suc by blast
    have idx: "((?o + 1) mod ?N + k) mod ?N = (?o + Suc k) mod ?N" for k by (simp only: mod_add_left_eq) simp
    have last: "(?o + Suc m) mod ?N = ?slot" using n m by simp
    have "[0..<?n] = 0 # map Suc [0..<m]" using n m by (simp add: map_Suc_upt upt_conv_Cons del: kScopePointsMax_def upt_Suc)
    then have tl: "tl (scope_contents c) = map (\<lambda>k. (sc_xs c ! ((?o + Suc k) mod ?N), sc_ys c ! ((?o + Suc k) mod ?N))) [0..<m]"
      by (simp add: scope_contents_def del: kScopePointsMax_def)
    have upt: "[0..<?n] = [0..<m] @ [m]" unfolding n m by simp
    have keep: "(?o + Suc k) mod ?N \<noteq> ?slot" if "k < m" for k using other [of "Suc k"] that n m by simp
    have "scope_contents (scope_store fx fy c) = tl (scope_contents c) @ [(fx, fy)]"
      unfolding tl st unfolding scope_contents_def
      using upt idx last keep keep [THEN not_sym] ok slot by (simp add: nth_list_update del: kScopePointsMax_def)
    moreover have "scope_ok (scope_store fx fy c)"
      using ok scope_points_pos unfolding st by (simp add: scope_ok_def del: kScopePointsMax_def)
    ultimately show ?thesis using False by simp
  qed
qed

text \<open>The samples a channel was given: the calls that name it, in order.\<close>

definition samples_of :: "('d \<Rightarrow> 'f) \<Rightarrow> nat \<Rightarrow> (int \<times> 'd \<times> 'd) list \<Rightarrow> ('f \<times> 'f) list" where
  "samples_of narrow k calls = map (\<lambda>(c, x, y). (narrow x, narrow y)) (filter (\<lambda>(c, x, y). c = int k + 1) calls)"

definition scope_run :: "('d::linorder \<Rightarrow> 'f) \<Rightarrow> (int \<times> 'd \<times> 'd) list \<Rightarrow> ('d, 'f) scope \<Rightarrow> ('d, 'f) scope" where
  "scope_run narrow calls s = fold (\<lambda>(c, x, y) s. snd (scope_push narrow True c x y s)) calls s"

definition shows_latest :: "('f \<times> 'f) list \<Rightarrow> 'f scope_channel \<Rightarrow> bool" where
  "shows_latest zs c \<longleftrightarrow> scope_ok c \<and> scope_contents c = latest zs"

lemma length_latest: "length (latest zs) = min (length zs) kScopePointsMax"
  by (simp add: latest_def)

lemma shows_latest_store:
  assumes "shows_latest zs c"
  shows "shows_latest (zs @ [(fx, fy)]) (scope_store fx fy c)"
proof -
  have ok: "scope_ok c" and z: "scope_contents c = latest zs" using assms by (simp_all add: shows_latest_def)
  have n: "sc_count c = min (length zs) kScopePointsMax"
    using arg_cong [OF z, of length] by (simp add: scope_contents_def length_latest del: kScopePointsMax_def)
  have "latest (zs @ [(fx, fy)]) = (if length zs < kScopePointsMax then latest zs else tl (latest zs)) @ [(fx, fy)]"
    using scope_points_pos by (simp add: latest_def tl_drop Suc_diff_le drop_Suc [symmetric] drop_tl del: kScopePointsMax_def)
  then show ?thesis using scope_store_spec [OF ok, of fx fy] n by (simp add: shows_latest_def z del: kScopePointsMax_def)
qed

definition scope_shows :: "('d \<Rightarrow> 'f) \<Rightarrow> (int \<times> 'd \<times> 'd) list \<Rightarrow> ('d, 'f) scope \<Rightarrow> bool" where
  "scope_shows narrow calls s \<longleftrightarrow> length (sp_channels s) = kScopeChannelsMax \<and>
     (\<forall>k<kScopeChannelsMax. shows_latest (samples_of narrow k calls) (sp_channels s ! k))"

lemma samples_of_snoc:
  "samples_of narrow k (calls @ [(c, x, y)]) = samples_of narrow k calls @ (if c = int k + 1 then [(narrow x, narrow y)] else [])"
  by (simp add: samples_of_def)

lemma scope_push_shows:
  assumes "scope_shows narrow calls s"
  shows "scope_shows narrow (calls @ [(c, x, y)]) (snd (scope_push narrow True c x y s))"
proof (cases "c - 1 < 0 \<or> c - 1 \<ge> int kScopeChannelsMax")
  case True
  then have "c \<noteq> int k + 1" if "k < kScopeChannelsMax" for k using that by auto
  then show ?thesis using assms True by (simp add: scope_shows_def scope_push_def samples_of_snoc del: kScopeChannelsMax_def)
next
  case False
  then have k: "nat (c - 1) < kScopeChannelsMax" and c: "c = int (nat (c - 1)) + 1"
    by (auto simp: nat_less_iff)
  have idx: "c = int k + 1 \<longleftrightarrow> k = nat (c - 1)" for k using c by auto
  show ?thesis
    using assms False k
    by (auto simp: scope_shows_def scope_push_def samples_of_snoc idx nth_list_update shows_latest_store Let_def
        simp del: kScopeChannelsMax_def)
qed

lemma scope_init_shows: "scope_shows narrow [] (scope_init zero fzero)"
  by (simp add: scope_shows_def scope_init_def shows_latest_def scope_ok_def scope_contents_def latest_def samples_of_def
      del: kScopePointsMax_def kScopeChannelsMax_def add: scope_points_pos)

lemma scope_run_shows: "scope_shows narrow calls (scope_run narrow calls (scope_init zero fzero))"
proof (induction calls rule: rev_induct)
  case Nil
  then show ?case using scope_init_shows by (simp add: scope_run_def)
next
  case (snoc call calls)
  obtain c x y where "call = (c, x, y)" by (cases call)
  then show ?case using scope_push_shows [OF snoc] by (simp add: scope_run_def)
qed

text \<open>
  C27 (scope_keeps_latest). Whatever samples the plugins push, to whatever channels, a channel of the oscilloscope
  shows the latest samples pushed to it, oldest first and as many as its ring holds; a sample of another
  channel or of a channel that does not exist changes nothing.
\<close>

theorem scope_keeps_latest:
  assumes "k < kScopeChannelsMax"
  shows "scope_contents (sp_channels (scope_run narrow calls (scope_init zero fzero)) ! k) = latest (samples_of narrow k calls)"
  using scope_run_shows [of narrow calls zero fzero] assms
  by (simp add: scope_shows_def shows_latest_def del: kScopeChannelsMax_def)

theorem scope_keeps_latest_witness:
  "scope_contents (sp_channels (scope_run (\<lambda>d :: int. d) [(1, 5, 6), (2, 7, 8), (9, 0, 0), (1, 3, 4)] (scope_init 0 0)) ! 0) = [(5, 6), (3, 4)]"
  by (subst scope_keeps_latest) (simp_all add: samples_of_def latest_def)

end
