(* ===== verification/Layout_Config.thy ===== *)
theory Layout_Config
  imports Complex_Main Prelude
begin

text \<open>
  The layout file (\<open>native/xcom_imgui/xcom_imgui_bridge.cpp\<close>, \<open>load_layout_config\<close>): sections, comments, the ten
  numeric knobs with their ranges, the text colours, the language and the font switch. The file's text is an
  input (\<open>None\<close> when it cannot be opened); \<open>strtof\<close> is the C library's conversion, whose value is a rational, or
  \<open>None\<close> for an infinity or a NaN (which pass no range test).
\<close>

section \<open>The configuration\<close>

text \<open>The knobs in the order of the table of entries.\<close>

definition kLayoutEntries :: "(string \<times> rat \<times> rat) list" where
  "kLayoutEntries =
     [(''sidebar_width'', 150, 320), (''compact_threshold'', 600, 1200), (''receive_height'', 0, 600),
      (''send_height'', 100, 360), (''header_height'', 24, 72), (''panel_gap'', 0, 24), (''window_padding'', 0, 24),
      (''item_spacing'', 2, 16), (''frame_padding_y'', 2, 10), (''section_gap'', 2, 12)]"

definition kLayoutDefaults :: "rat list" where
  "kLayoutDefaults = [180, 760, 0, 196, 30, 0, 1, 7, 4, 4]"

record layout_config =
  lc_knobs :: "rat list"
  lc_text_body :: u32
  lc_text_muted :: u32
  lc_timestamp :: u32
  lc_tx_echo :: u32
  lc_selection :: u32

definition layout_default :: layout_config where
  "layout_default = \<lparr>lc_knobs = kLayoutDefaults, lc_text_body = 0x1B1B1B, lc_text_muted = 0x6A6A6A, lc_timestamp = 0x9C6000,
     lc_tx_echo = 0xD04138, lc_selection = 0x005A98\<rparr>"

record ui_config =
  ui_layout :: layout_config
  ui_lang_zh :: bool
  ui_mono_cjk :: bool

section \<open>Scanning\<close>

definition is_space :: "char \<Rightarrow> bool" where
  "is_space c \<longleftrightarrow> c \<in> {CHR '' '', CHR 0x09, CHR 0x0D, CHR 0x0A}"

definition trim_view :: "string \<Rightarrow> string" where
  "trim_view s = rev (dropWhile is_space (rev (dropWhile is_space s)))"

text \<open>The text before and behind the first equals sign.\<close>

definition split_equals :: "string \<Rightarrow> (string \<times> string) option" where
  "split_equals s =
     (if CHR ''='' \<in> set s
      then Some (trim_view (takeWhile (\<lambda>c. c \<noteq> CHR ''='') s), trim_view (drop 1 (dropWhile (\<lambda>c. c \<noteq> CHR ''='') s)))
      else None)"

definition unquote :: "string \<Rightarrow> string" where
  "unquote raw = (if length raw \<ge> 2 \<and> (hd raw = CHR 0x22 \<or> hd raw = CHR 0x27) then take (length raw - 2) (drop 1 raw) else raw)"

section \<open>Colours\<close>

definition kColourInvalid :: u32 where [simp]: "kColourInvalid = 0xFFFFFFFF"

definition colour_digit :: "char \<Rightarrow> nat option" where
  "colour_digit c =
     (let v = of_char c :: nat
      in if 0x30 \<le> v \<and> v \<le> 0x39 then Some (v - 0x30)
         else if 0x61 \<le> v \<and> v \<le> 0x66 then Some (v - 0x61 + 10)
         else if 0x41 \<le> v \<and> v \<le> 0x46 then Some (v - 0x41 + 10)
         else None)"

fun colour_digits :: "string \<Rightarrow> u32 \<Rightarrow> u32" where
  "colour_digits [] v = v"
| "colour_digits (c # cs) v =
     (case colour_digit c of None \<Rightarrow> kColourInvalid | Some d \<Rightarrow> colour_digits cs (push_bit 4 v OR of_nat d))"

definition parse_colour :: "string \<Rightarrow> u32" where
  "parse_colour raw =
     (let body = (if raw \<noteq> [] \<and> hd raw = CHR 0x23 then drop 1 raw
                  else if length raw > 2 \<and> raw ! 0 = CHR ''0'' \<and> (raw ! 1 = CHR ''x'' \<or> raw ! 1 = CHR ''X'') then drop 2 raw
                  else raw)
      in if length body \<noteq> 6 then kColourInvalid else colour_digits body 0)"

section \<open>One line\<close>

definition section_of :: "string \<Rightarrow> nat" where
  "section_of s = (if s = ''[layout]'' then 1 else if s = ''[font]'' then 2 else if s = ''[ui]'' then 3
     else if s = ''[colors]'' then 4 else 0)"

definition set_colour :: "string \<Rightarrow> u32 \<Rightarrow> layout_config \<Rightarrow> layout_config" where
  "set_colour key v c =
     (if key = ''text_body'' then c\<lparr>lc_text_body := v\<rparr>
      else if key = ''text_muted'' then c\<lparr>lc_text_muted := v\<rparr>
      else if key = ''timestamp'' then c\<lparr>lc_timestamp := v\<rparr>
      else if key = ''tx_echo'' then c\<lparr>lc_tx_echo := v\<rparr>
      else if key = ''selection'' then c\<lparr>lc_selection := v\<rparr>
      else c)"

text \<open>The first entry of the table with the key takes the value if it is in its range.\<close>

fun set_knob :: "string \<Rightarrow> rat option \<Rightarrow> (string \<times> rat \<times> rat) list \<Rightarrow> rat list \<Rightarrow> rat list" where
  "set_knob key val ((k, lo, hi) # es) (v # vs) =
     (if key = k
      then (case val of None \<Rightarrow> v | Some x \<Rightarrow> if x \<ge> lo \<and> x \<le> hi then x else v) # vs
      else v # set_knob key val es vs)"
| "set_knob key val es vs = vs"

definition config_line :: "(string \<Rightarrow> rat option) \<Rightarrow> string \<Rightarrow> nat \<times> ui_config \<Rightarrow> nat \<times> ui_config" where
  "config_line strtof line s =
     (let (sec, u) = s; trimmed = trim_view (takeWhile (\<lambda>c. c \<noteq> CHR 0x23) line)
      in if trimmed = [] then s
         else if hd trimmed = CHR ''['' then (section_of trimmed, u)
         else case split_equals trimmed of
             None \<Rightarrow> s
           | Some (key, raw) \<Rightarrow>
               if sec = 4
               then let parsed = parse_colour (unquote raw)
                    in if parsed = kColourInvalid then s else (sec, u\<lparr>ui_layout := set_colour key parsed (ui_layout u)\<rparr>)
               else if sec = 3
               then let v = unquote raw
                    in if key = ''language'' then (sec, u\<lparr>ui_lang_zh := \<not> (v = ''en'' \<or> v = ''English'')\<rparr>) else s
               else if sec = 2
               then if key = ''show_chinese_in_receive''
                    then (sec, u\<lparr>ui_mono_cjk := (raw \<noteq> ''false'' \<and> raw \<noteq> ''off'' \<and> raw \<noteq> ''0'')\<rparr>) else s
               else if sec \<noteq> 1 then s
               else if raw = [] then s
               else (sec, u\<lparr>ui_layout := (ui_layout u)\<lparr>lc_knobs := set_knob key (strtof raw) kLayoutEntries (lc_knobs (ui_layout u))\<rparr>\<rparr>))"

function file_lines :: "string \<Rightarrow> string list" where
  "file_lines [] = []"
| "file_lines (c # cs) =
     takeWhile (\<lambda>c. c \<noteq> CHR 0x0A) (c # cs) # file_lines (drop 1 (dropWhile (\<lambda>c. c \<noteq> CHR 0x0A) (c # cs)))"
  by pat_completeness auto
termination
proof (relation "measure length", goal_cases)
  case (2 c cs)
  have "length (dropWhile (\<lambda>c. c \<noteq> CHR 0x0A) (c # cs)) \<le> length (c # cs)" by (rule length_dropWhile_le)
  then show ?case by (auto simp: less_Suc_eq_le)
qed simp

definition load_layout_config :: "(string \<Rightarrow> rat option) \<Rightarrow> string option \<Rightarrow> ui_config \<Rightarrow> ui_config" where
  "load_layout_config strtof input u =
     (let u1 = u\<lparr>ui_layout := layout_default\<rparr>
      in case input of None \<Rightarrow> u1 | Some text \<Rightarrow> snd (fold (config_line strtof) (file_lines text) (0, u1)))"

section \<open>Whatever the file says\<close>

definition knob_ok :: "(string \<times> rat \<times> rat) \<Rightarrow> rat \<Rightarrow> bool" where
  "knob_ok e v \<longleftrightarrow> fst (snd e) \<le> v \<and> v \<le> snd (snd e)"

definition layout_ok :: "layout_config \<Rightarrow> bool" where
  "layout_ok c \<longleftrightarrow> list_all2 knob_ok kLayoutEntries (lc_knobs c) \<and>
     list_all (\<lambda>v. v < 0x1000000) [lc_text_body c, lc_text_muted c, lc_timestamp c, lc_tx_echo c, lc_selection c]"

lemma set_knob_ok: "list_all2 knob_ok es vs \<Longrightarrow> list_all2 knob_ok es (set_knob key val es vs)"
  by (induction key val es vs rule: set_knob.induct) (auto simp: knob_ok_def split: option.split)

text \<open>A colour of \<open>n\<close> digits has \<open>4 * n\<close> bits; the sentinel is no colour.\<close>

lemma colour_digit_bits:
  assumes "colour_digit c = Some d"
  shows "take_bit 4 (of_nat d :: u32) = of_nat d"
proof -
  have "d < 16" using assms by (auto simp: colour_digit_def Let_def split: if_splits)
  then show ?thesis by (simp add: take_bit_of_nat take_bit_nat_eq_self)
qed

lemma push_digit_bits: "take_bit k (v :: u32) = v \<Longrightarrow> take_bit 4 d = d \<Longrightarrow> take_bit (k + 4) (push_bit 4 v OR d) = push_bit 4 v OR d"
proof -
  assume v: "take_bit k v = v" and d: "take_bit 4 d = d"
  have "take_bit (k + 4) d = take_bit (k + 4) (take_bit 4 d)" using d by simp
  also have "\<dots> = d" by (simp only: take_bit_take_bit) (simp add: d)
  finally show ?thesis using v by (simp add: take_bit_push_bit)
qed

lemma colour_digits_bits:
  "take_bit k v = v \<Longrightarrow> colour_digits cs v = kColourInvalid \<or> take_bit (k + 4 * length cs) (colour_digits cs v) = colour_digits cs v"
proof (induction cs arbitrary: k v)
  case (Cons c cs)
  show ?case
  proof (cases "colour_digit c")
    case (Some d)
    from Cons.IH [OF push_digit_bits [OF Cons.prems colour_digit_bits [OF Some]]] show ?thesis
      using Some by (simp add: add.assoc del: kColourInvalid_def)
  qed simp
qed simp

lemma parse_colour_24: "parse_colour raw \<noteq> kColourInvalid \<Longrightarrow> parse_colour raw < 0x1000000"
proof -
  assume p: "parse_colour raw \<noteq> kColourInvalid"
  then obtain body where b: "length body = 6" "parse_colour raw = colour_digits body 0"
    by (auto simp: parse_colour_def Let_def split: if_splits)
  then have "take_bit (0 + 4 * 6) (colour_digits body 0) = colour_digits body 0"
    using colour_digits_bits [of 0 0 body] p by (auto simp del: kColourInvalid_def)
  then have "unat (colour_digits body 0) = take_bit 24 (unat (colour_digits body 0))"
    using unsigned_take_bit_eq [of 24 "colour_digits body 0"] by simp
  then have "unat (colour_digits body 0) < 2 ^ 24" by (metis take_bit_nat_less_exp)
  then show ?thesis using b by (simp add: word_less_nat_alt)
qed

lemma set_colour_ok: "layout_ok c \<Longrightarrow> v < 0x1000000 \<Longrightarrow> layout_ok (set_colour key v c)"
  by (simp add: layout_ok_def set_colour_def)

lemma layout_default_ok: "layout_ok layout_default"
  by (simp add: layout_ok_def layout_default_def kLayoutEntries_def kLayoutDefaults_def knob_ok_def)

lemma config_line_ok: "layout_ok (ui_layout (snd s)) \<Longrightarrow> layout_ok (ui_layout (snd (config_line strtof line s)))"
proof -
  assume ok: "layout_ok (ui_layout (snd s))"
  have knobs: "layout_ok (c\<lparr>lc_knobs := set_knob key val kLayoutEntries (lc_knobs c)\<rparr>)" if "layout_ok c" for c key val
    using that by (simp add: layout_ok_def set_knob_ok)
  show ?thesis
    using ok knobs set_colour_ok parse_colour_24
    by (cases s) (auto simp: config_line_def Let_def simp del: kColourInvalid_def split: option.split)
qed

lemma config_lines_ok: "layout_ok (ui_layout (snd s)) \<Longrightarrow> layout_ok (ui_layout (snd (fold (config_line strtof) ls s)))"
  by (induction ls arbitrary: s) (simp_all add: config_line_ok)

text \<open>
  C34 (layout_always_in_range). Whatever the layout file holds, also when it is missing or garbage and whatever the
  number conversion answers, every knob the window is laid out with lies in its declared range and every text
  colour is a 24-bit colour.
\<close>

theorem layout_always_in_range:
  "let c = ui_layout (load_layout_config strtof input u) in
     list_all2 knob_ok kLayoutEntries (lc_knobs c) \<and>
     list_all (\<lambda>v. v < 0x1000000) [lc_text_body c, lc_text_muted c, lc_timestamp c, lc_tx_echo c, lc_selection c]"
proof -
  have "layout_ok (ui_layout (load_layout_config strtof input u))"
    using config_lines_ok [of "(0, u\<lparr>ui_layout := layout_default\<rparr>)"] layout_default_ok
    by (simp add: load_layout_config_def Let_def split: option.split)
  then show ?thesis by (simp add: layout_ok_def Let_def)
qed

text \<open>
  The boolean switch is the one value whose quotes are not stripped: a quoted false turns it on.
\<close>

lemma quoted_false_is_true:
  "ui_mono_cjk (snd (config_line strtof (''show_chinese_in_receive = '' @ [CHR 0x22] @ ''false'' @ [CHR 0x22]) (2, u)))"
  by (simp add: config_line_def trim_view_def is_space_def split_equals_def)

end
