(* ===== verification/Plugin_Spec.thy ===== *)
theory Plugin_Spec
  imports Complex_Main Bridge_Exchange
begin

text \<open>
  The pages of the plugins (\<open>xcom_imgui_bridge.cpp\<close>, the spec grammar): the defaults of a page, one frame of
  its widgets, and the events they queue. Doubles and floats are rationals; the C library's conversions
  (\<open>atoi\<close>, \<open>strtod\<close>, the two formats of \<open>sprintf\<close>) and the rounding of a double to a float are parameters. What
  the user does to the widget of a line is an input.
\<close>

section \<open>The spec of a page\<close>

definition ascii :: "string \<Rightarrow> bytes" where
  "ascii s = map of_char s"

definition colon :: u8 where [simp]: "colon = 0x3A"

function spec_rows :: "bytes \<Rightarrow> bytes list" where
  "spec_rows [] = []"
| "spec_rows (c # cs) = takeWhile (\<lambda>c. c \<noteq> 0x0A) (c # cs) # spec_rows (drop 1 (dropWhile (\<lambda>c. c \<noteq> 0x0A) (c # cs)))"
  by pat_completeness auto
termination
proof (relation "measure length", goal_cases)
  case (2 c cs)
  have "length (dropWhile (\<lambda>c. c \<noteq> 0x0A) (c # cs)) \<le> length (c # cs)" by (rule length_dropWhile_le)
  then show ?case by (auto simp: less_Suc_eq_le)
qed simp

definition skip_field :: "bytes \<Rightarrow> bytes" where
  "skip_field row = snd (spec_field row colon)"

text \<open>A line of the spec that declares nothing.\<close>

definition blank_row :: "bytes \<Rightarrow> bool" where
  "blank_row row \<longleftrightarrow> row = [] \<or> hd row = 0x23"

definition default_row :: "(bytes \<Rightarrow> int) \<Rightarrow> (bytes \<Rightarrow> rat) \<Rightarrow> nat \<Rightarrow> bytes \<Rightarrow> rat list \<Rightarrow> rat list" where
  "default_row atoi strtod n row vs =
     (if blank_row row then vs
      else let (kind, r1) = spec_field row colon
           in if kind = ascii ''check'' \<or> kind = ascii ''combo''
              then vs[n := of_int (atoi (fst (spec_field (skip_field (skip_field r1)) colon)))]
              else if kind = ascii ''slider''
              then vs[n := strtod (skip_field (skip_field (skip_field (skip_field r1))))]
              else vs)"

fun default_rows :: "(bytes \<Rightarrow> int) \<Rightarrow> (bytes \<Rightarrow> rat) \<Rightarrow> nat \<Rightarrow> bytes list \<Rightarrow> rat list \<Rightarrow> rat list" where
  "default_rows atoi strtod n [] vs = vs"
| "default_rows atoi strtod n (row # rows) vs =
     (if n \<ge> kWidgetsMax then vs else default_rows atoi strtod (n + 1) rows (default_row atoi strtod n row vs))"

definition load_plugin_defaults :: "(bytes \<Rightarrow> int) \<Rightarrow> (bytes \<Rightarrow> rat) \<Rightarrow> rat plugin_page \<Rightarrow> rat plugin_page" where
  "load_plugin_defaults atoi strtod p =
     p\<lparr>pp_values := default_rows atoi strtod 0 (spec_rows (pp_spec p)) (pp_values p), pp_values_ready := True\<rparr>"

section \<open>One frame of a page\<close>

record page_gui =
  pg_click :: "nat \<Rightarrow> bool"                 \<comment> \<open>a chip or a button of the line\<close>
  pg_slide :: "nat \<Rightarrow> rat option"           \<comment> \<open>where a slider was dragged\<close>
  pg_pick :: "nat \<Rightarrow> int option"            \<comment> \<open>the item picked\<close>

definition trunc :: "rat \<Rightarrow> int" where
  "trunc x = (if x \<ge> 0 then \<lfloor>x\<rfloor> else \<lceil>x\<rceil>)"

text \<open>\<open>fmt_g\<close> and \<open>fmt_d\<close> are the two formats, \<open>narrow\<close> the conversion to a float.\<close>

record formats =
  fm_g :: "rat \<Rightarrow> bytes"
  fm_d :: "int \<Rightarrow> bytes"
  fm_narrow :: "rat \<Rightarrow> rat"

definition render_row ::
  "formats \<Rightarrow> page_gui \<Rightarrow> rat plugin_page \<Rightarrow> nat \<Rightarrow> bytes \<Rightarrow> rat list \<times> rat exchange \<Rightarrow> rat list \<times> rat exchange" where
  "render_row F g p n row s =
     (let (vs, x) = s; (kind, r1) = spec_field row colon
      in if blank_row row then s
         else if kind = ascii ''title'' then s
         else let (wid, r2) = spec_field r1 colon
              in if kind = ascii ''check''
                 then if pg_click g n
                      then let v = trunc (vs ! n); v' = (if v = 0 then 1 else 0)
                           in (vs[n := of_int v'], spec_event p (ascii ''check'') wid (if v' = 0 then ascii ''0'' else ascii ''1'') x)
                      else s
                 else if kind = ascii ''button''
                 then if pg_click g n then (vs, spec_event p (ascii ''click'') wid [] x) else s
                 else if kind = ascii ''slider''
                 then case pg_slide g n of None \<Rightarrow> s
                      | Some v \<Rightarrow> (vs[n := fm_narrow F v], spec_event p (ascii ''slider'') wid (fm_g F (fm_narrow F v)) x)
                 else if kind = ascii ''combo''
                 then case pg_pick g n of None \<Rightarrow> s
                      | Some k \<Rightarrow> if k = trunc (vs ! n) then s
                                  else (vs[n := of_int k], spec_event p (ascii ''combo'') wid (fm_d F k) x)
                 else s)"

fun render_rows ::
  "formats \<Rightarrow> page_gui \<Rightarrow> rat plugin_page \<Rightarrow> nat \<Rightarrow> bytes list \<Rightarrow> rat list \<times> rat exchange \<Rightarrow> rat list \<times> rat exchange" where
  "render_rows F g p n [] s = s"
| "render_rows F g p n (row # rows) s =
     (if n \<ge> kWidgetsMax then s else render_rows F g p (n + 1) rows (render_row F g p n row s))"

definition render_plugin_spec ::
  "(bytes \<Rightarrow> int) \<Rightarrow> (bytes \<Rightarrow> rat) \<Rightarrow> formats \<Rightarrow> page_gui \<Rightarrow> rat plugin_page \<Rightarrow> rat exchange \<Rightarrow> rat plugin_page \<times> rat exchange" where
  "render_plugin_spec atoi strtod F g p x =
     (let p1 = (if pp_values_ready p then p else load_plugin_defaults atoi strtod p);
          (vs, x') = render_rows F g p1 0 (spec_rows (pp_spec p1)) (pp_values p1, x)
      in (p1\<lparr>pp_values := vs\<rparr>, x'))"

section \<open>What the events say\<close>

lemma default_rows_length [simp]: "length (default_rows atoi strtod n rows vs) = length vs"
  by (induction atoi strtod n rows vs rule: default_rows.induct) (simp_all add: default_row_def Let_def case_prod_unfold)

text \<open>
  An event of page \<open>p\<close>: its id, a known kind, a widget id without a colon, and a value: none, a flag, or a
  formatted number.
\<close>

definition event_kinds :: "bytes set" where
  "event_kinds = {ascii ''check'', ascii ''click'', ascii ''slider'', ascii ''combo''}"

definition event_values :: "formats \<Rightarrow> bytes set" where
  "event_values F = {[], ascii ''0'', ascii ''1''} \<union> range (fm_g F) \<union> range (fm_d F)"

definition event_of_page :: "formats \<Rightarrow> rat plugin_page \<Rightarrow> bytes \<Rightarrow> bool" where
  "event_of_page F p e \<longleftrightarrow> (\<exists>kind wid val. e = event_text (pp_id p) kind wid val \<and>
     kind \<in> event_kinds \<and> colon \<notin> set wid \<and> val \<in> event_values F)"

lemma spec_field_no_delimiter: "d \<notin> set (fst (spec_field row d))"
  by (auto simp: spec_field_def dest: set_takeWhileD)

text \<open>
  A frame of page \<open>p\<close> takes the queue \<open>q\<close> to \<open>q'\<close>: only events of the page are added, behind the others, and only
  the oldest are dropped, so that a queue within its bound stays within it.
\<close>

definition page_frame :: "formats \<Rightarrow> rat plugin_page \<Rightarrow> bytes list \<Rightarrow> bytes list \<Rightarrow> bool" where
  "page_frame F p q q' \<longleftrightarrow>
     (\<exists>es n. q' = drop n (q @ es) \<and> list_all (event_of_page F p) es) \<and> (length q \<le> kMaxQueued \<longrightarrow> length q' \<le> kMaxQueued)"

lemma page_frame_refl [simp, intro]: "page_frame F p q q"
  unfolding page_frame_def by (rule conjI, rule exI [of _ "[]"], rule exI [of _ 0]) simp_all

lemma page_frame_trans:
  assumes "page_frame F p q q'" "page_frame F p q' q''"
  shows "page_frame F p q q''"
proof -
  obtain es n es' n' where q: "q' = drop n (q @ es)" "q'' = drop n' (q' @ es')" "list_all (event_of_page F p) es" "list_all (event_of_page F p) es'"
    using assms unfolding page_frame_def by blast
  obtain k where k: "k \<le> length (q @ es)" "q' = drop k (q @ es)"
  proof (cases "n \<le> length (q @ es)")
    case False
    then show thesis using that [of "length (q @ es)"] q(1) by simp
  qed (use q(1) in \<open>blast intro: that\<close>)
  have "q' @ es' = drop k ((q @ es) @ es')" unfolding k(2) drop_append [of k "q @ es"] using k(1) by (simp del: append_assoc)
  then have "q'' = drop (n' + k) (q @ (es @ es'))" unfolding q(2) by (simp only: drop_drop append_assoc)
  moreover have "list_all (event_of_page F p) (es @ es')" using q(3,4) by simp
  ultimately show ?thesis using assms unfolding page_frame_def by blast
qed

lemma spec_event_frame:
  assumes "kind \<in> event_kinds" "colon \<notin> set wid" "val \<in> event_values F"
  shows "page_frame F p (ex_plugin_events x) (ex_plugin_events (spec_event p kind wid val x))"
proof -
  let ?e = "event_text (pp_id p) kind wid val" and ?q = "ex_plugin_events x"
  have e: "list_all (event_of_page F p) [?e]" using assms unfolding event_of_page_def by auto
  let ?n = "if length ?q \<ge> kMaxQueued then 1 else 0 :: nat"
  have "ex_plugin_events (spec_event p kind wid val x) = drop ?n (?q @ [?e])"
    by (cases ?q) (simp_all add: spec_event_def Let_def)
  moreover have "length ?q \<le> kMaxQueued \<longrightarrow> length (drop ?n (?q @ [?e])) \<le> kMaxQueued" by auto
  ultimately show ?thesis unfolding page_frame_def using e by metis
qed

lemma render_row_frame:
  "page_frame F p (ex_plugin_events (snd s)) (ex_plugin_events (snd (render_row F g p n row s))) \<and>
   length (fst (render_row F g p n row s)) = length (fst s)"
proof -
  have wid: "colon \<notin> set (fst (spec_field r colon))" for r by (rule spec_field_no_delimiter)
  have kinds: "ascii ''check'' \<in> event_kinds" "ascii ''click'' \<in> event_kinds" "ascii ''slider'' \<in> event_kinds"
    "ascii ''combo'' \<in> event_kinds" by (simp_all add: event_kinds_def)
  have vals: "[] \<in> event_values F" "ascii ''0'' \<in> event_values F" "ascii ''1'' \<in> event_values F"
    "fm_g F v \<in> event_values F" "fm_d F k \<in> event_values F" for v k by (simp_all add: event_values_def)
  show ?thesis
    unfolding render_row_def Let_def case_prod_unfold
    by (auto simp del: colon_def simp: wid kinds vals intro!: spec_event_frame split: option.split)
qed

lemma render_rows_frame:
  "page_frame F p (ex_plugin_events (snd s)) (ex_plugin_events (snd (render_rows F g p n rows s))) \<and>
   length (fst (render_rows F g p n rows s)) = length (fst s)"
proof (induction rows arbitrary: n s)
  case (Cons row rows)
  show ?case
    using render_row_frame [of F p s g n row] Cons.IH [of "render_row F g p n row s" "n + 1"]
    by (auto intro: page_frame_trans)
qed simp

lemma render_spec_frame:
  "\<exists>p1. event_of_page F p1 = event_of_page F p \<and>
     page_frame F p1 (ex_plugin_events x) (ex_plugin_events (snd (render_plugin_spec atoi strtod F g p x)))"
  "length (pp_values (fst (render_plugin_spec atoi strtod F g p x))) = length (pp_values p)"
proof -
  define p1 where "p1 = (if pp_values_ready p then p else load_plugin_defaults atoi strtod p)"
  have p1: "event_of_page F p1 = event_of_page F p" "length (pp_values p1) = length (pp_values p)"
    by (simp_all add: p1_def load_plugin_defaults_def event_of_page_def fun_eq_iff)
  note f = render_rows_frame [of F p1 "(pp_values p1, x)" g 0 "spec_rows (pp_spec p1)"]
  show "length (pp_values (fst (render_plugin_spec atoi strtod F g p x))) = length (pp_values p)"
    using f p1(2) by (auto simp: render_plugin_spec_def Let_def p1_def [symmetric] split: prod.splits)
  have "page_frame F p1 (ex_plugin_events x) (ex_plugin_events (snd (render_plugin_spec atoi strtod F g p x)))"
    using f by (auto simp: render_plugin_spec_def Let_def p1_def [symmetric] split: prod.splits)
  with p1(1) show "\<exists>p1. event_of_page F p1 = event_of_page F p \<and>
     page_frame F p1 (ex_plugin_events x) (ex_plugin_events (snd (render_plugin_spec atoi strtod F g p x)))" by blast
qed

text \<open>What \<open>printf\<close> writes for a number has no colon.\<close>

definition formats_documented :: "formats \<Rightarrow> bool" where
  "formats_documented F \<longleftrightarrow> (\<forall>v. colon \<notin> set (fm_g F v)) \<and> (\<forall>k. colon \<notin> set (fm_d F k))"

lemma split_at_colon: "c \<notin> set a \<Longrightarrow> c \<notin> set b \<Longrightarrow> a @ c # x = b @ c # y \<longleftrightarrow> a = b \<and> x = y"
  by (induction a arbitrary: b) (case_tac b; auto)+

lemma event_text_unambiguous:
  assumes "event_text page k w v = event_text page k' w' v'" "colon \<notin> set (k @ w @ v)" "colon \<notin> set (k' @ w' @ v')"
  shows "(k, w, v) = (k', w', v')"
proof -
  have e: "k @ colon # w @ (if v \<noteq> [] then colon # v else []) = k' @ colon # w' @ (if v' \<noteq> [] then colon # v' else [])"
    using assms(1) by (auto simp: event_text_def split: if_splits)
  have k: "k = k'" and r: "w @ (if v \<noteq> [] then colon # v else []) = w' @ (if v' \<noteq> [] then colon # v' else [])"
    using e split_at_colon [of colon k k'] assms(2,3) by auto
  have n: "colon \<notin> set w" "colon \<notin> set w'" using assms(2,3) by auto
  show ?thesis
  proof (cases "v = [] \<longleftrightarrow> v' = []")
    case True
    then show ?thesis using k r split_at_colon [OF n, of v v'] by (auto split: if_splits)
  next
    case False
    then have "colon \<in> set w \<or> colon \<in> set w'" using r by (auto split: if_splits)
    then show ?thesis using n by blast
  qed
qed


definition page_check :: "rat plugin_page" where
  "page_check = \<lparr>pp_id = [0x61, 0x3A, 0x78], pp_title = [], pp_spec = ascii ''check:w:L:1'', pp_values = [0], pp_values_ready = False,
     pp_window_open = True, pp_window_appeared = False\<rparr>"

definition click_all :: page_gui where
  "click_all = \<lparr>pg_click = (\<lambda>_. True), pg_slide = (\<lambda>_. None), pg_pick = (\<lambda>_. None)\<rparr>"

definition formats_none :: formats where
  "formats_none = \<lparr>fm_g = (\<lambda>_. []), fm_d = (\<lambda>_. []), fm_narrow = (\<lambda>v. v)\<rparr>"

lemma ascii_examples:
  "ascii ''check'' = [0x63, 0x68, 0x65, 0x63, 0x6B]" "ascii ''title'' = [0x74, 0x69, 0x74, 0x6C, 0x65]"
  "ascii ''check:w:L:1'' = [0x63, 0x68, 0x65, 0x63, 0x6B, 0x3A, 0x77, 0x3A, 0x4C, 0x3A, 0x31]"
  by (simp_all add: ascii_def)

lemma check_row:
  "spec_rows (ascii ''check:w:L:1'') = [ascii ''check:w:L:1'']" "\<not> blank_row (ascii ''check:w:L:1'')"
  "spec_field (ascii ''check:w:L:1'') 0x3A = (ascii ''check'', [0x77, 0x3A, 0x4C, 0x3A, 0x31])"
  "spec_field [0x77, 0x3A, 0x4C, 0x3A, 0x31] 0x3A = ([0x77], [0x4C, 0x3A, 0x31])"
  "ascii ''check'' \<noteq> ascii ''title''"
  unfolding ascii_examples by (simp_all add: blank_row_def spec_field_def)

lemma page_check_event:
  "ex_plugin_events (snd (render_plugin_spec (\<lambda>_. 1) (\<lambda>_. 0) formats_none click_all page_check exchange_init)) =
   [event_text [0x61, 0x3A, 0x78] (ascii ''check'') [0x77] (ascii ''0'')]"
  unfolding render_plugin_spec_def load_plugin_defaults_def page_check_def Let_def
  by (simp add: check_row default_row_def render_row_def click_all_def trunc_def spec_event_def exchange_init_def)

lemma exchange_init_queue: "ex_plugin_events (exchange_init :: rat exchange) = []"
  by (simp add: exchange_init_def)


end
