(* ===== verification/Console_Panels.thy ===== *)
theory Console_Panels
  imports Bridge_Exchange Serial_Backend
begin

text \<open>
  The panels of the window (\<open>native/xcom_imgui/xcom_imgui_bridge.cpp\<close>): what one frame does to the values the
  client lent it and which action bits it reports. Drawing, layout and hit testing are the GUI library's: what
  the user did to each widget in the frame is an input, a function of the widget's id. A widget inside a disabled
  section reports nothing, and one disabled section in the stack disables all it encloses.
\<close>

section \<open>Actions\<close>

datatype action =
  ActionOpen | ActionClose | ActionClear | ActionSend | ActionSaveLog | ActionSendEnabled | ActionRefreshPorts
| ActionSyncSettings | ActionSyncDisplay | ActionPreviousPage | ActionNextPage | ActionAddPage | ActionRemovePage
| ActionSyncMultiAuto | ActionSyncAutoSave | ActionChooseLogPath | ActionMinimizeWindow | ActionMaximizeWindow
| ActionCloseWindow | ActionSendSlot nat | ActionToggleScripts | ActionRunSequence | ActionToggleScope
| ActionToggleSettings

fun action_bit :: "action \<Rightarrow> nat" where
  "action_bit ActionOpen = 0"
| "action_bit ActionClose = 1"
| "action_bit ActionClear = 2"
| "action_bit ActionSend = 3"
| "action_bit ActionSaveLog = 4"
| "action_bit ActionSendEnabled = 5"
| "action_bit ActionRefreshPorts = 6"
| "action_bit ActionSyncSettings = 7"
| "action_bit ActionSyncDisplay = 8"
| "action_bit ActionPreviousPage = 9"
| "action_bit ActionNextPage = 10"
| "action_bit ActionAddPage = 11"
| "action_bit ActionRemovePage = 12"
| "action_bit ActionSyncMultiAuto = 13"
| "action_bit ActionSyncAutoSave = 14"
| "action_bit ActionChooseLogPath = 15"
| "action_bit ActionMinimizeWindow = 16"
| "action_bit ActionMaximizeWindow = 17"
| "action_bit ActionCloseWindow = 18"
| "action_bit (ActionSendSlot n) = 19 + n"
| "action_bit ActionToggleScripts = 27"
| "action_bit ActionRunSequence = 28"
| "action_bit ActionToggleScope = 29"
| "action_bit ActionToggleSettings = 30"

definition action_mask :: "action \<Rightarrow> u32" where
  "action_mask a = push_bit (action_bit a) 1"

text \<open>\<open>Command<a>::Execute\<close>, and the \<open>if (...) actions |= a\<close> of the panels.\<close>

definition command :: "action \<Rightarrow> bool \<Rightarrow> u32" where
  "command a pressed = (if pressed then action_mask a else 0)"

section \<open>Widgets\<close>

record gui =
  gu_shows :: "string \<Rightarrow> bool"               \<comment> \<open>a table, tab, popup or window is open\<close>
  gu_click :: "string \<Rightarrow> bool"               \<comment> \<open>a button, menu entry or key fires\<close>
  gu_pick :: "string \<Rightarrow> nat option"          \<comment> \<open>the entry clicked in an open list\<close>
  gu_int :: "string \<Rightarrow> int option"           \<comment> \<open>the number typed\<close>
  gu_text :: "string \<Rightarrow> bytes option"        \<comment> \<open>the text after an edit\<close>

definition gui_idle :: gui where
  "gui_idle = \<lparr>gu_shows = (\<lambda>_. True), gu_click = (\<lambda>_. False), gu_pick = (\<lambda>_. None), gu_int = (\<lambda>_. None), gu_text = (\<lambda>_. None)\<rparr>"

definition button :: "bool \<Rightarrow> string \<Rightarrow> gui \<Rightarrow> bool" where
  "button disabled i g \<longleftrightarrow> \<not> disabled \<and> gu_click g i"

definition toggle :: "bool \<Rightarrow> string \<Rightarrow> int \<Rightarrow> gui \<Rightarrow> bool \<times> int" where
  "toggle disabled i v g = (let changed = button disabled i g in (changed, if changed then (if v = 0 then 1 else 0) else v))"

definition combo :: "bool \<Rightarrow> string \<Rightarrow> nat \<Rightarrow> int \<Rightarrow> gui \<Rightarrow> bool \<times> int" where
  "combo disabled i n v g =
     (case gu_pick g i of
        None \<Rightarrow> (False, v)
      | Some k \<Rightarrow> if \<not> disabled \<and> k < n \<and> int k \<noteq> v then (True, int k) else (False, v))"

definition input_int :: "string \<Rightarrow> int \<Rightarrow> gui \<Rightarrow> bool \<times> int" where
  "input_int i v g = (case gu_int g i of None \<Rightarrow> (False, v) | Some k \<Rightarrow> if k \<noteq> v then (True, k) else (False, v))"

text \<open>An edit of a buffer of \<open>cap\<close> bytes keeps room for the null.\<close>

definition input_text :: "string \<Rightarrow> nat \<Rightarrow> bytes \<Rightarrow> gui \<Rightarrow> bool \<times> bytes" where
  "input_text i cap t g =
     (case gu_text g i of None \<Rightarrow> (False, t) | Some t' \<Rightarrow> (take (cap - 1) t' \<noteq> t, take (cap - 1) t'))"

text \<open>A row of switches: label, enabled, value, and what a flip reports.\<close>

fun render_toggles :: "gui \<Rightarrow> (string \<times> bool \<times> int \<times> action) list \<Rightarrow> u32 \<times> int list" where
  "render_toggles g [] = (0, [])"
| "render_toggles g ((i, enabled, v, a) # specs) =
     (case toggle (\<not> enabled) i v g of (changed, v') \<Rightarrow>
      case render_toggles g specs of (acts, vs) \<Rightarrow> (command a changed OR acts, v' # vs))"

text \<open>
  The context menu of a text field: select all leaves the text alone, copy puts the selection or the whole text
  on the clipboard, paste replaces the text by the clipboard.
\<close>

definition text_context_menu ::
  "gui \<Rightarrow> string \<Rightarrow> (nat \<times> nat) option \<Rightarrow> nat \<Rightarrow> bytes \<times> bytes option \<Rightarrow> bytes \<times> bytes option" where
  "text_context_menu g i selection cap s =
     (if \<not> gu_shows g i then s
      else let (buffer, clip) = s;
               copied = (if buffer \<noteq> [] \<and> gu_click g (i @ ''/copy'')
                         then let (b, e) = (case selection of None \<Rightarrow> (0, length buffer) | Some r \<Rightarrow> r)
                              in if e > b then Some (take (e - b) (drop b buffer)) else clip
                         else clip)
           in if copied \<noteq> None \<and> gu_click g (i @ ''/paste'') \<and> cap > 0
              then (take (min (length (the copied)) (cap - 1)) (the copied), copied)
              else (buffer, copied))"

section \<open>The header\<close>

definition header_content :: "gui \<Rightarrow> 'd exchange \<Rightarrow> u32 \<times> 'd exchange" where
  "header_content g x =
     (let lua = button False ''##lua_console'' g;
          x1 = (if lua then x\<lparr>ex_scripts_visible := \<not> ex_scripts_visible x\<rparr> else x);
          set = button False ''##settings_toggle'' g;
          x2 = (if set then x1\<lparr>ex_settings_visible := \<not> ex_settings_visible x1\<rparr> else x1)
      in (command ActionToggleScripts lua OR command ActionToggleSettings set OR
          command ActionMinimizeWindow (button False ''##window_minimize'' g) OR
          command ActionMaximizeWindow (button False ''##window_maximize'' g) OR
          command ActionCloseWindow (button False ''##window_close'' g), x2))"

section \<open>Receive options\<close>

record panel_options =
  do_hex :: int
  do_timestamp :: int
  do_pause :: int
  do_auto_clear :: int
  do_auto_clear_bytes :: int
  do_auto_save :: int
  do_charset :: "int option"              \<comment> \<open>registered by the client\<close>
  do_frame_gap :: "(int \<times> int) option"    \<comment> \<open>switch and milliseconds, both registered\<close>

definition kCharsets :: nat where [simp]: "kCharsets = 6"

definition charset_row :: "gui \<Rightarrow> panel_options \<Rightarrow> u32 \<times> panel_options" where
  "charset_row g d =
     (case do_charset d of
        None \<Rightarrow> (0, d)
      | Some v \<Rightarrow> (case combo False ''##charset'' kCharsets v g of
          (changed, v') \<Rightarrow> (command ActionSyncDisplay changed, d\<lparr>do_charset := Some v'\<rparr>)))"

definition frame_gap_row :: "gui \<Rightarrow> panel_options \<Rightarrow> u32 \<times> panel_options" where
  "frame_gap_row g d =
     (case do_frame_gap d of
        None \<Rightarrow> (0, d)
      | Some (en, ms) \<Rightarrow>
          (case toggle False ''frame_gap'' en g of (flipped, en') \<Rightarrow>
           case input_int ''##frame_gap_ms'' ms g of (typed, ms') \<Rightarrow>
             (command ActionSyncDisplay flipped OR command ActionSyncDisplay typed, d\<lparr>do_frame_gap := Some (en', ms')\<rparr>)))"

definition receive_toolbar :: "gui \<Rightarrow> panel_options \<Rightarrow> u32 \<times> panel_options" where
  "receive_toolbar g d =
     (if \<not> gu_shows g ''##display_grid'' then (0, d)
      else let (c1, hex) = toggle False ''hex_display'' (do_hex d) g;
               (c2, ts) = toggle False ''timestamp'' (do_timestamp d) g;
               (c3, pause) = toggle False ''pause'' (do_pause d) g;
               (c4, clear) = toggle False ''auto_clear'' (do_auto_clear d) g;
               (c5, bytes) = input_int ''##clear_bytes'' (do_auto_clear_bytes d) g;
               (c6, save) = toggle False ''save_to_file'' (do_auto_save d) g;
               d1 = d\<lparr>do_hex := hex, do_timestamp := ts, do_pause := pause, do_auto_clear := clear,
                      do_auto_clear_bytes := bytes, do_auto_save := save\<rparr>;
               (a7, d2) = charset_row g d1;
               (a8, d3) = frame_gap_row g d2
           in (command ActionSyncDisplay c1 OR command ActionSyncDisplay c2 OR command ActionSyncDisplay c3 OR
               command ActionSyncDisplay c4 OR command ActionSyncDisplay c5 OR command ActionSyncAutoSave c6 OR a7 OR a8, d3))"

text \<open>The three icons above the log, and the switches of its context menu (every pointer is lent).\<close>

definition receive_icons :: "gui \<Rightarrow> u32" where
  "receive_icons g =
     command ActionClear (button False ''##clear_log'' g) OR command ActionSaveLog (button False ''##save_log'' g) OR
     command ActionChooseLogPath (button False ''##choose_log_path'' g)"

definition flip :: "bool \<Rightarrow> int \<Rightarrow> int" where
  "flip picked v = (if picked then (if v \<noteq> 0 then 0 else 1) else v)"

definition receive_menu :: "gui \<Rightarrow> bool \<Rightarrow> panel_options \<Rightarrow> u32 \<times> panel_options" where
  "receive_menu g has_text d =
     (if \<not> gu_shows g ''##receive_context'' then (0, d)
      else let hex = button False ''menu/hex'' g; ts = button False ''menu/timestamp'' g; pause = button False ''menu/pause'' g
           in (command ActionSyncDisplay hex OR command ActionSyncDisplay ts OR command ActionSyncDisplay pause OR
               command ActionSaveLog (button False ''menu/save'' g) OR
               command ActionClear (button (\<not> has_text) ''menu/clear'' g),
               d\<lparr>do_hex := flip hex (do_hex d), do_timestamp := flip ts (do_timestamp d), do_pause := flip pause (do_pause d)\<rparr>))"

section \<open>Sending\<close>

record transmit =
  tx_hex :: int
  tx_crlf :: int
  tx_auto :: int
  tx_period :: int
  tx_text :: bytes
  tx_capacity :: nat
  mt_hex :: int
  mt_crlf :: int
  mt_enabled :: "int list"
  mt_texts :: "bytes list"
  mt_capacity :: nat                      \<comment> \<open>of one slot\<close>
  mt_auto :: int
  mt_period :: int
  mt_gap :: "int option"                  \<comment> \<open>registered by the client\<close>
  tx_clipboard :: "bytes option"

text \<open>The single tab: the send box. Only the send button is disabled while nothing can be sent.\<close>

definition single_tab :: "gui \<Rightarrow> bytes list \<Rightarrow> (nat \<times> nat) option \<Rightarrow> bool \<Rightarrow> transmit \<Rightarrow> u32 \<times> transmit" where
  "single_tab g history selection send_ok m =
     (let (a1, vs) = render_toggles g [(''send_hex'', True, tx_hex m, ActionSyncSettings),
            (''send_newline'', True, tx_crlf m, ActionSyncSettings), (''send_auto'', True, tx_auto m, ActionSyncSettings)];
          (typed, period) = input_int ''##send_period'' (tx_period m) g;
          picked = (if history \<noteq> [] \<and> gu_shows g ''##send_history'' then gu_pick g ''##send_history'' else None);
          text1 = (case picked of None \<Rightarrow> tx_text m
                   | Some k \<Rightarrow> if k < length history then take (tx_capacity m - 1) (history ! k) else tx_text m);
          text2 = snd (input_text ''##send'' (tx_capacity m) text1 g);
          enter = gu_click g ''##send'';
          (text3, clip) = text_context_menu g ''##send_context'' selection (tx_capacity m) (text2, tx_clipboard m);
          send = button (\<not> send_ok) ''send'' g
      in (a1 OR command ActionSyncSettings typed OR command ActionSend enter OR command ActionSend send,
          m\<lparr>tx_hex := vs ! 0, tx_crlf := vs ! 1, tx_auto := vs ! 2, tx_period := period, tx_text := text3, tx_clipboard := clip\<rparr>))"

definition slot_id :: "string \<Rightarrow> nat \<Rightarrow> string" where
  "slot_id name k = name @ [''01234567'' ! k]"

definition multi_slot :: "gui \<Rightarrow> (nat \<times> nat) option \<Rightarrow> bool \<Rightarrow> nat \<Rightarrow> u32 \<times> transmit \<Rightarrow> u32 \<times> transmit" where
  "multi_slot g selection send_ok k s =
     (let (acts, m) = s;
          (flipped, en) = toggle False (slot_id ''##enabled'' k) (mt_enabled m ! k) g;
          (edited, t1) = input_text (slot_id ''##multi'' k) (mt_capacity m) (mt_texts m ! k) g;
          (t2, clip) = text_context_menu g (slot_id ''##multi_context'' k) selection (mt_capacity m) (t1, tx_clipboard m);
          send = button (\<not> send_ok) (slot_id ''send_slot'' k) g
      in (acts OR command ActionSyncSettings flipped OR command ActionSyncSettings edited OR command (ActionSendSlot k) send,
          m\<lparr>mt_enabled := (mt_enabled m)[k := en], mt_texts := (mt_texts m)[k := t2], tx_clipboard := clip\<rparr>))"

text \<open>Two columns of four rows, drawn row by row.\<close>

definition slot_order :: "nat list" where
  "slot_order = [0, 4, 1, 5, 2, 6, 3, 7]"

definition multi_tab :: "gui \<Rightarrow> (nat \<times> nat) option \<Rightarrow> bool \<Rightarrow> transmit \<Rightarrow> u32 \<times> transmit" where
  "multi_tab g selection send_ok m =
     (let (a1, vs) = render_toggles g [(''multi_hex'', True, mt_hex m, ActionSyncSettings),
            (''multi_newline'', True, mt_crlf m, ActionSyncSettings)];
          m1 = m\<lparr>mt_hex := vs ! 0, mt_crlf := vs ! 1\<rparr>;
          (a2, m2) = (if gu_shows g ''##multi_grid'' then fold (multi_slot g selection send_ok) slot_order (a1, m1) else (a1, m1));
          a3 = command ActionPreviousPage (button False ''<'' g) OR command ActionNextPage (button False ''>'' g) OR
               command ActionAddPage (button False ''+'' g) OR command ActionRemovePage (button False ''-'' g);
          (a4, vs4) = render_toggles g [(''loop'', True, mt_auto m2, ActionSyncMultiAuto)];
          (typed, period) = input_int ''##multi_period'' (mt_period m2) g;
          gap = (case mt_gap m2 of None \<Rightarrow> None | Some v \<Rightarrow> Some (snd (input_int ''##multi_gap'' v g)));
          run = mt_gap m2 \<noteq> None \<and> button (\<not> send_ok) ''run'' g;
          send = button (\<not> send_ok) ''send_enabled'' g
      in (a2 OR a3 OR a4 OR command ActionSyncMultiAuto typed OR command ActionRunSequence run OR command ActionSendEnabled send,
          m2\<lparr>mt_auto := vs4 ! 0, mt_period := period, mt_gap := gap\<rparr>))"

definition transmit_content ::
  "gui \<Rightarrow> bytes list \<Rightarrow> (nat \<times> nat) option \<Rightarrow> bool \<Rightarrow> transmit \<Rightarrow> u32 \<times> transmit" where
  "transmit_content g history selection send_ok m =
     (if \<not> gu_shows g ''##transmit_tabs'' then (0, m)
      else let (a1, m1) = (if gu_shows g ''tab_single'' then single_tab g history selection send_ok m else (0, m));
               (a2, m2) = (if gu_shows g ''tab_multi'' then multi_tab g selection send_ok m1 else (0, m1))
           in (a1 OR a2, m2))"

section \<open>The port panel\<close>

record connection =
  co_port :: bytes
  co_port_capacity :: nat
  co_baud :: int                          \<comment> \<open>the five fields are indices into their lists\<close>
  co_data :: int
  co_stop :: int
  co_parity :: int
  co_flow :: int
  co_dtr :: int
  co_rts :: int
  co_dtr_open :: "int option"             \<comment> \<open>the two line preferences, registered by the client\<close>
  co_rts_open :: "int option"

definition kBaudItems :: nat where [simp]: "kBaudItems = 14"
definition kDataItems :: nat where [simp]: "kDataItems = 4"
definition kStopItems :: nat where [simp]: "kStopItems = 3"
definition kParityItems :: nat where [simp]: "kParityItems = 5"
definition kFlowItems :: nat where [simp]: "kFlowItems = 3"

text \<open>A listed port is a name, optionally followed by a tab and a label.\<close>

definition port_key :: "bytes \<Rightarrow> bytes" where
  "port_key candidate = takeWhile (\<lambda>c. c \<noteq> 0x09) candidate"

text \<open>\<open>None\<close>: the name does not fit the client's buffer and \<open>strcpy_s\<close> stops the process.\<close>

definition port_combo :: "gui \<Rightarrow> bytes list \<Rightarrow> bool \<Rightarrow> connection \<Rightarrow> (u32 \<times> connection) option" where
  "port_combo g ports disabled p =
     (if \<not> gu_shows g ''##port_combo'' then Some (0, p)
      else case gu_pick g ''##port_combo'' of
          None \<Rightarrow> Some (0, p)
        | Some k \<Rightarrow>
            if disabled \<or> \<not> k < length ports then Some (0, p)
            else let key = port_key (ports ! k)
                 in if length key < co_port_capacity p
                    then Some (action_mask ActionSyncSettings, p\<lparr>co_port := key\<rparr>)
                    else None)"

definition line_item_count :: "bool \<Rightarrow> nat" where
  "line_item_count connected = (if connected then 2 else 3)"

definition dtr_row :: "gui \<Rightarrow> bool \<Rightarrow> bool \<Rightarrow> connection \<Rightarrow> u32 \<times> connection" where
  "dtr_row g disabled connected p =
     (case co_dtr_open p of
        None \<Rightarrow> (0, p)
      | Some v \<Rightarrow>
          (case combo disabled ''##dtr_line'' (line_item_count connected) v g of (changed, v') \<Rightarrow>
             if changed then (action_mask ActionSyncSettings, p\<lparr>co_dtr_open := Some v', co_dtr := (if v' \<noteq> 0 then 1 else 0)\<rparr>)
             else (0, p)))"

definition rts_row :: "gui \<Rightarrow> bool \<Rightarrow> bool \<Rightarrow> connection \<Rightarrow> u32 \<times> connection" where
  "rts_row g disabled connected p =
     (case co_rts_open p of
        None \<Rightarrow> (0, p)
      | Some v \<Rightarrow>
          (case combo (disabled \<or> co_flow p = 1) ''##rts_line'' (line_item_count connected) v g of (changed, v') \<Rightarrow>
             if changed then (action_mask ActionSyncSettings, p\<lparr>co_rts_open := Some v', co_rts := (if v' \<noteq> 0 then 1 else 0)\<rparr>)
             else (0, p)))"

definition stop_rule :: "connection \<Rightarrow> u32 \<times> connection" where
  "stop_rule p = (if co_stop p = 1 \<and> co_data p \<noteq> 0 then (action_mask ActionSyncSettings, p\<lparr>co_stop := 0\<rparr>) else (0, p))"

text \<open>The grid, in the scope of one \<open>BeginDisabled(connected)\<close>.\<close>

definition serial_grid :: "gui \<Rightarrow> bool \<Rightarrow> connection \<Rightarrow> u32 \<times> connection" where
  "serial_grid g connected p =
     (if \<not> gu_shows g ''##serial_grid'' then (0, p)
      else let (c1, baud) = combo connected ''##baud'' kBaudItems (co_baud p) g;
               (c2, data) = combo connected ''##data_bits'' kDataItems (co_data p) g;
               (c3, stop) = combo connected ''##stop_bits'' kStopItems (co_stop p) g;
               (c4, parity) = combo connected ''##parity'' kParityItems (co_parity p) g;
               (c5, flow) = combo connected ''##flow'' kFlowItems (co_flow p) g;
               p1 = p\<lparr>co_baud := baud, co_data := data, co_stop := stop, co_parity := parity, co_flow := flow\<rparr>;
               (a6, p2) = dtr_row g connected connected p1;
               (a7, p3) = rts_row g connected connected p2;
               (a8, p4) = stop_rule p3
           in (command ActionSyncSettings (c1 \<or> c2 \<or> c3 \<or> c4 \<or> c5) OR a6 OR a7 OR a8, p4))"

definition connection_content ::
  "gui \<Rightarrow> bytes list \<Rightarrow> bool \<Rightarrow> connection \<Rightarrow> panel_options \<Rightarrow> (u32 \<times> connection \<times> panel_options) option" where
  "connection_content g ports connected p d =
     (case port_combo g ports connected p of
        None \<Rightarrow> None
      | Some (a1, p1) \<Rightarrow>
          let a2 = command ActionRefreshPorts (button False ''##refresh_ports'' g);
              a3 = (if connected then command ActionClose (button False ''close'' g) else command ActionOpen (button False ''open'' g));
              (a4, p2) = serial_grid g connected p1;
              (a5, d') = receive_toolbar g d
          in Some (a1 OR a2 OR a3 OR a4 OR a5, p2, d'))"

end
