(* ===== verification/Console_Facts.thy ===== *)
theory Console_Facts
  imports Console_Panels
begin

text \<open>
  What a frame of the panels can and cannot do: a line format the core accepts, no overrun of a lent buffer,
  no send while nothing can be sent, and a line control that no click can reach while the port is open.
\<close>

section \<open>Action bits\<close>

lemma bit_command: "bit (command a pressed) n \<longleftrightarrow> pressed \<and> n = action_bit a \<and> n < 32"
  by (auto simp: command_def action_mask_def bit_exp_iff)

lemma bit_action_mask: "bit (action_mask a) n \<longleftrightarrow> n = action_bit a \<and> n < 32"
  by (auto simp: action_mask_def bit_exp_iff)

text \<open>The actions a mask reports all satisfy \<open>P\<close>.\<close>

definition only_bits :: "(nat \<Rightarrow> bool) \<Rightarrow> u32 \<Rightarrow> bool" where
  "only_bits P w \<longleftrightarrow> (\<forall>n<32. bit w n \<longrightarrow> P n)"

named_theorems only_bits_intros

lemma only_bits_0 [only_bits_intros]: "only_bits P 0"
  by (simp add: only_bits_def)

lemma only_bits_or [only_bits_intros]: "only_bits P a \<Longrightarrow> only_bits P b \<Longrightarrow> only_bits P (a OR b)"
  by (auto simp: only_bits_def bit_or_iff)

lemma only_bits_command: "(pressed \<Longrightarrow> P (action_bit a)) \<Longrightarrow> only_bits P (command a pressed)"
  by (auto simp: only_bits_def bit_command)

lemma only_bits_toggles:
  "\<forall>(i, enabled, v, a) \<in> set specs. P (action_bit a) \<Longrightarrow> only_bits P (fst (render_toggles g specs))"
proof (induction g specs rule: render_toggles.induct)
  case (2 g i enabled v a specs)
  then show ?case by (auto split: prod.split intro!: only_bits_intros only_bits_command)
qed (simp add: only_bits_intros)

section \<open>The send gate\<close>

text \<open>The actions that send: the box, the enabled slots, one slot, the sequence.\<close>

definition sends :: "nat \<Rightarrow> bool" where
  "sends n \<longleftrightarrow> n = 3 \<or> n = 5 \<or> 19 \<le> n \<and> n \<le> 26 \<or> n = 28"

lemma not_sends [simp]: "\<not> sends 7" "\<not> sends 9" "\<not> sends 10" "\<not> sends 11" "\<not> sends 12" "\<not> sends 13"
  by (simp_all add: sends_def)

lemma single_tab_gate: "only_bits (\<lambda>n. sends n \<longrightarrow> n = 3 \<and> gu_click g ''##send'') (fst (single_tab g history sel False m))"
  using only_bits_toggles [of "[(''send_hex'', True, tx_hex m, ActionSyncSettings),
            (''send_newline'', True, tx_crlf m, ActionSyncSettings), (''send_auto'', True, tx_auto m, ActionSyncSettings)]"
      "\<lambda>n. sends n \<longrightarrow> n = 3 \<and> gu_click g ''##send''" g]
  by (auto simp: single_tab_def Let_def sends_def button_def split: prod.split intro!: only_bits_intros only_bits_command)

lemma multi_slot_gate:
  "only_bits (\<lambda>n. \<not> sends n) (fst s) \<Longrightarrow> only_bits (\<lambda>n. \<not> sends n) (fst (multi_slot g sel False k s))"
  by (auto simp: multi_slot_def Let_def sends_def button_def split: prod.split intro!: only_bits_intros only_bits_command)

lemma multi_slots_gate:
  "only_bits (\<lambda>n. \<not> sends n) (fst s) \<Longrightarrow> only_bits (\<lambda>n. \<not> sends n) (fst (fold (multi_slot g sel False) ks s))"
  by (induction ks arbitrary: s) (simp_all add: multi_slot_gate)

lemma multi_tab_gate: "only_bits (\<lambda>n. \<not> sends n) (fst (multi_tab g sel False m))"
proof -
  have 1: "only_bits (\<lambda>n. \<not> sends n) (fst (render_toggles g [(''multi_hex'', True, v, ActionSyncSettings),
      (''multi_newline'', True, v', ActionSyncSettings)]))" for v v'
    by (rule only_bits_toggles) (simp add: sends_def)
  have 2: "only_bits (\<lambda>n. \<not> sends n) (fst (fold (multi_slot g sel False) slot_order s))"
    if "only_bits (\<lambda>n. \<not> sends n) (fst s)" for s
    by (rule multi_slots_gate [OF that])
  have 4: "only_bits (\<lambda>n. \<not> sends n) (fst (render_toggles g [(''loop'', True, v, ActionSyncMultiAuto)]))" for v
    by (rule only_bits_toggles) (simp add: sends_def)
  show ?thesis
    unfolding multi_tab_def Let_def case_prod_unfold fst_conv button_def
    by (intro only_bits_or only_bits_command 4; cases "gu_shows g ''##multi_grid''")
      (simp_all add: 1 2 del: render_toggles.simps)
qed

lemma transmit_gate: "only_bits (\<lambda>n. sends n \<longrightarrow> n = 3 \<and> gu_click g ''##send'') (fst (transmit_content g history sel False m))"
  unfolding transmit_content_def Let_def case_prod_unfold
  using single_tab_gate multi_tab_gate by (auto simp: only_bits_def bit_or_iff)

text \<open>The other panels report no action that sends.\<close>

lemma not_sends_more [simp]: "\<not> sends 0" "\<not> sends (Suc 0)" "\<not> sends 1" "\<not> sends 2" "\<not> sends 4" "\<not> sends 6" "\<not> sends 8" "\<not> sends 14" "\<not> sends 15" "\<not> sends 16"
  "\<not> sends 17" "\<not> sends 18" "\<not> sends 27" "\<not> sends 29" "\<not> sends 30"
  by (simp_all add: sends_def)

lemma only_bits_mask: "P (action_bit a) \<Longrightarrow> only_bits P (action_mask a)"
  by (auto simp: only_bits_def bit_action_mask)

lemma header_gate: "only_bits (\<lambda>n. \<not> sends n) (fst (header_content g x))"
  unfolding header_content_def Let_def fst_conv by (intro only_bits_or only_bits_command) simp_all

lemma icons_gate: "only_bits (\<lambda>n. \<not> sends n) (receive_icons g)"
  unfolding receive_icons_def by (intro only_bits_or only_bits_command) simp_all

lemma menu_gate: "only_bits (\<lambda>n. \<not> sends n) (fst (receive_menu g t d))"
  unfolding receive_menu_def Let_def by (auto intro!: only_bits_or only_bits_command only_bits_0)

lemma toolbar_gate: "only_bits (\<lambda>n. \<not> sends n) (fst (receive_toolbar g d))"
proof -
  have "only_bits (\<lambda>n. \<not> sends n) (fst (charset_row g d))" for d
    by (auto simp: charset_row_def split: option.split prod.split intro!: only_bits_command only_bits_0)
  moreover have "only_bits (\<lambda>n. \<not> sends n) (fst (frame_gap_row g d))" for d
    by (auto simp: frame_gap_row_def split: option.split prod.split intro!: only_bits_or only_bits_command only_bits_0)
  ultimately show ?thesis
    unfolding receive_toolbar_def Let_def case_prod_unfold
    by (auto intro!: only_bits_or only_bits_command only_bits_0)
qed

lemma grid_gate: "only_bits (\<lambda>n. \<not> sends n) (fst (serial_grid g c p))"
proof -
  have "only_bits (\<lambda>n. \<not> sends n) (fst (dtr_row g dis c p))" "only_bits (\<lambda>n. \<not> sends n) (fst (rts_row g dis c p))"
    "only_bits (\<lambda>n. \<not> sends n) (fst (stop_rule p))" for dis p
    by (auto simp: dtr_row_def rts_row_def stop_rule_def split: option.split prod.split intro!: only_bits_mask only_bits_0)
  then show ?thesis
    unfolding serial_grid_def Let_def case_prod_unfold by (auto intro!: only_bits_or only_bits_command only_bits_0)
qed

lemma port_gate:
  assumes "connection_content g ports c p d = Some (acts, r)"
  shows "only_bits (\<lambda>n. \<not> sends n) acts"
proof -
  obtain a1 p1 where 1: "port_combo g ports c p = Some (a1, p1)"
    and acts: "acts = a1 OR command ActionRefreshPorts (button False ''##refresh_ports'' g) OR
      (if c then command ActionClose (button False ''close'' g) else command ActionOpen (button False ''open'' g)) OR
      fst (serial_grid g c p1) OR fst (receive_toolbar g d)"
    using assms by (auto simp: connection_content_def Let_def case_prod_unfold or.assoc split: option.splits)
  have "only_bits (\<lambda>n. \<not> sends n) a1"
    using 1 by (auto simp: port_combo_def Let_def intro!: only_bits_mask only_bits_0 split: if_splits option.splits)
  then show ?thesis
    unfolding acts by (intro only_bits_or grid_gate toolbar_gate) (auto intro!: only_bits_command)
qed

section \<open>No overrun of the lent buffers\<close>

definition texts_fit :: "transmit \<Rightarrow> bool" where
  "texts_fit m \<longleftrightarrow> length (tx_text m) < tx_capacity m \<and> 0 < mt_capacity m \<and> length (mt_enabled m) = 8 \<and>
     length (mt_texts m) = 8 \<and> list_all (\<lambda>t. length t < mt_capacity m) (mt_texts m)"

lemma input_text_fits: "length t < cap \<Longrightarrow> length (snd (input_text i cap t g)) < cap"
  by (auto simp: input_text_def min_less_iff_disj split: option.split)

lemma context_menu_fits: "length (fst s) < cap \<Longrightarrow> length (fst (text_context_menu g i sel cap s)) < cap"
  by (auto simp: text_context_menu_def Let_def case_prod_unfold min_less_iff_disj)

lemma single_tab_fits: "texts_fit m \<Longrightarrow> texts_fit (snd (single_tab g history sel ok m))"
proof -
  assume m: "texts_fit m"
  then have t: "length (tx_text m) < tx_capacity m" by (simp add: texts_fit_def)
  define t1 where "t1 = (case if history \<noteq> [] \<and> gu_shows g ''##send_history'' then gu_pick g ''##send_history'' else None of
      None \<Rightarrow> tx_text m | Some k \<Rightarrow> if k < length history then take (tx_capacity m - 1) (history ! k) else tx_text m)"
  have "length t1 < tx_capacity m" using t unfolding t1_def by (auto simp: min_less_iff_disj split: option.split)
  then have "length (fst (text_context_menu g ''##send_context'' sel (tx_capacity m)
      (snd (input_text ''##send'' (tx_capacity m) t1 g), tx_clipboard m))) < tx_capacity m"
    by (intro context_menu_fits) (simp add: input_text_fits)
  then show ?thesis
    using m unfolding single_tab_def Let_def case_prod_unfold t1_def [symmetric] by (simp add: texts_fit_def)
qed

lemma multi_slot_fits:
  assumes "texts_fit (snd s)" "k < 8"
  shows "texts_fit (snd (multi_slot g sel ok k s))"
proof -
  let ?m = "snd s"
  have "length (mt_texts ?m ! k) < mt_capacity ?m" using assms by (simp add: texts_fit_def list_all_length)
  then have "length (fst (text_context_menu g (slot_id ''##multi_context'' k) sel (mt_capacity ?m)
      (snd (input_text (slot_id ''##multi'' k) (mt_capacity ?m) (mt_texts ?m ! k) g), tx_clipboard ?m))) < mt_capacity ?m"
    by (intro context_menu_fits) (simp add: input_text_fits)
  then show ?thesis
    using assms unfolding multi_slot_def Let_def case_prod_unfold
    by (simp add: texts_fit_def list_all_length nth_list_update)
qed

lemma multi_slots_fit: "texts_fit (snd s) \<Longrightarrow> \<forall>k\<in>set ks. k < 8 \<Longrightarrow> texts_fit (snd (fold (multi_slot g sel ok) ks s))"
  by (induction ks arbitrary: s) (simp_all add: multi_slot_fits)

lemma multi_tab_fits:
  assumes "texts_fit m"
  shows "texts_fit (snd (multi_tab g sel ok m))"
proof -
  have slots: "texts_fit (snd (fold (multi_slot g sel ok) slot_order (a, m\<lparr>mt_hex := v, mt_crlf := w\<rparr>)))" for a v w
    by (rule multi_slots_fit) (use assms in \<open>simp_all add: texts_fit_def slot_order_def\<close>)
  have other: "texts_fit (n\<lparr>mt_auto := v, mt_period := w, mt_gap := u\<rparr>) = texts_fit n" for n v w u by (simp add: texts_fit_def)
  have base: "texts_fit (m\<lparr>mt_hex := v, mt_crlf := w\<rparr>)" for v w using assms by (simp add: texts_fit_def)
  show ?thesis
    unfolding multi_tab_def Let_def case_prod_unfold snd_conv other
    by (cases "gu_shows g ''##multi_grid''") (simp_all add: slots base)
qed

text \<open>
  A frame of the transmit panel never writes past a buffer the client lent: after any picks,
  edits and pastes every text still ends below its capacity, whatever the length of a history entry or of the
  clipboard.
\<close>

theorem panel_never_overruns:
  assumes "texts_fit m"
  shows "texts_fit (snd (transmit_content g history sel ok m))"
  unfolding transmit_content_def Let_def case_prod_unfold
  using assms by (simp add: single_tab_fits multi_tab_fits)

theorem panel_never_overruns_witness:
  "texts_fit (snd (transmit_content (gui_idle\<lparr>gu_pick := (\<lambda>_. Some 0)\<rparr>) [[1, 2, 3, 4, 5]] None True
      \<lparr>tx_hex = 0, tx_crlf = 0, tx_auto = 0, tx_period = 0, tx_text = [], tx_capacity = 4, mt_hex = 0, mt_crlf = 0,
       mt_enabled = replicate 8 0, mt_texts = replicate 8 [], mt_capacity = 8, mt_auto = 0, mt_period = 0, mt_gap = Some 0,
       tx_clipboard = None\<rparr>))"
  by (rule panel_never_overruns) (simp add: texts_fit_def list_all_length)

section \<open>The line format\<close>

definition format_in_lists :: "connection \<Rightarrow> bool" where
  "format_in_lists p \<longleftrightarrow> 0 \<le> co_data p \<and> co_data p < int kDataItems \<and> 0 \<le> co_stop p \<and> co_stop p < int kStopItems \<and>
     0 \<le> co_parity p \<and> co_parity p < int kParityItems \<and> 0 \<le> co_flow p \<and> co_flow p < int kFlowItems \<and>
     (\<forall>v\<in>set_option (co_dtr_open p) \<union> set_option (co_rts_open p). 0 \<le> v \<and> v < 3)"

text \<open>The request the client opens with: five to eight data bits, the other fields by their index.\<close>

definition requests :: "connection \<Rightarrow> serial_options \<Rightarrow> bool" where
  "requests p s \<longleftrightarrow> so_baud s \<noteq> 0 \<and> so_data_bits s = of_int (5 + co_data p) \<and> so_stop_bits s = of_int (co_stop p) \<and>
     so_parity s = of_int (co_parity p) \<and> so_flow_control s = of_int (co_flow p) \<and>
     Some (so_dtr_drive s) = map_option of_int (co_dtr_open p) \<and> Some (so_rts_drive s) = map_option of_int (co_rts_open p)"

lemma combo_range: "0 \<le> v \<Longrightarrow> v < int n \<Longrightarrow> 0 \<le> snd (combo dis i n v g) \<and> snd (combo dis i n v g) < int n"
  by (simp add: combo_def split: option.split)

lemma combos_in_lists:
  assumes "format_in_lists p"
  shows "format_in_lists (p\<lparr>co_baud := b, co_data := snd (combo dis i kDataItems (co_data p) g),
    co_stop := snd (combo dis i' kStopItems (co_stop p) g), co_parity := snd (combo dis i'' kParityItems (co_parity p) g),
    co_flow := snd (combo dis j kFlowItems (co_flow p) g)\<rparr>)"
  using assms combo_range [of "co_data p" kDataItems dis i g] combo_range [of "co_stop p" kStopItems dis i' g]
    combo_range [of "co_parity p" kParityItems dis i'' g] combo_range [of "co_flow p" kFlowItems dis j g]
  unfolding format_in_lists_def by simp

lemma line_range: "0 \<le> v \<Longrightarrow> v < 3 \<Longrightarrow> 0 \<le> snd (combo dis i (line_item_count c) v g) \<and> snd (combo dis i (line_item_count c) v g) < 3"
  by (auto simp: combo_def line_item_count_def split: option.split)

lemma rows_in_lists:
  "format_in_lists p \<Longrightarrow> format_in_lists (snd (dtr_row g dis c p))"
  "format_in_lists p \<Longrightarrow> format_in_lists (snd (rts_row g dis c p))"
  "format_in_lists p \<Longrightarrow> format_in_lists (snd (stop_rule p))"
  using line_range [of "the (co_dtr_open p)" dis "''##dtr_line''" c g]
    line_range [of "the (co_rts_open p)" "dis \<or> co_flow p = 1" "''##rts_line''" c g]
  by (auto simp: dtr_row_def rts_row_def stop_rule_def format_in_lists_def split: option.splits prod.splits)

lemma grid_in_lists: "format_in_lists p \<Longrightarrow> format_in_lists (snd (serial_grid g c p))"
  unfolding serial_grid_def Let_def case_prod_unfold
  by (simp add: rows_in_lists combos_in_lists del: kDataItems_def kStopItems_def kParityItems_def kFlowItems_def)

lemma grid_stop_rule:
  "gu_shows g ''##serial_grid'' \<Longrightarrow> \<not> (co_stop (snd (serial_grid g c p)) = 1 \<and> co_data (snd (serial_grid g c p)) \<noteq> 0)"
  by (simp add: serial_grid_def Let_def case_prod_unfold stop_rule_def)

lemma format_accepted:
  assumes "format_in_lists p" "\<not> (co_stop p = 1 \<and> co_data p \<noteq> 0)" "requests p s"
  shows "validate_serial_options s = None"
proof -
  have cases: "co_data p \<in> {0, 1, 2, 3}" "co_stop p \<in> {0, 1, 2}" "co_parity p \<in> {0, 1, 2, 3, 4}" "co_flow p \<in> {0, 1, 2}"
    using assms(1) by (auto simp: format_in_lists_def)
  have drive: "valid_line_drive (of_int v)" if "0 \<le> v" "v < 3" for v
  proof -
    have "v \<in> {0, 1, 2}" using that by auto
    then show ?thesis by (auto simp: valid_line_drive_def line_drive_of_code_def)
  qed
  obtain v w where vw: "co_dtr_open p = Some v" "co_rts_open p = Some w" "so_dtr_drive s = of_int v" "so_rts_drive s = of_int w"
    using assms(3) by (cases "co_dtr_open p"; cases "co_rts_open p") (auto simp: requests_def)
  then have "valid_line_drive (so_dtr_drive s)" "valid_line_drive (so_rts_drive s)"
    using assms(1) drive by (auto simp: format_in_lists_def)
  moreover have "valid_line_format (so_data_bits s) (so_stop_bits s)"
    using cases(1,2) assms(2,3) by (auto simp: valid_line_format_def requests_def)
  moreover have "\<not> so_parity s > 4" "\<not> so_flow_control s > 2" "so_baud s \<noteq> 0"
    using cases(3,4) assms(3) by (auto simp: requests_def)
  ultimately show ?thesis by (simp add: validate_serial_options_def)
qed

text \<open>
  C18 (panel_format_accepted). Once the serial grid has been drawn, whatever the user picked in it, the line format the
  panel holds is one the core's validation accepts: the panel's own rule keeps 1.5 stop bits to five data bits.
\<close>

theorem panel_format_accepted:
  assumes "format_in_lists p" "gu_shows g ''##serial_grid''" "connection_content g ports connected p d = Some (acts, p', d')"
    "requests p' s"
  shows "validate_serial_options s = None"
proof -
  obtain a1 p1 where 1: "port_combo g ports connected p = Some (a1, p1)" and p': "p' = snd (serial_grid g connected p1)"
    using assms(3) by (auto simp: connection_content_def Let_def case_prod_unfold split: option.splits)
  have "format_in_lists p1" using assms(1) 1
    by (auto simp: port_combo_def Let_def format_in_lists_def split: if_splits option.splits)
  then show ?thesis
    using format_accepted [OF grid_in_lists grid_stop_rule [OF assms(2)]] assms(4) unfolding p' by blast
qed

text \<open>
  C35 (open_port_lines_dead). While the port is open, whatever the user does, a frame of the panel leaves everything the
  panel holds about the port as it is, in particular both modem lines, with one exception that no click causes: the
  rule that 1.5 stop bits go only with five data bits sets the stop bits from 1.5 to 1. So the two-state DTR and RTS
  controls that are built for an open port, and that the comments above them say stay enabled, cannot be used: they
  stand inside the section that is disabled for an open port.
\<close>

theorem open_port_lines_dead:
  assumes "connection_content g ports True p d = Some (acts, p', d')"
  shows "p' = p \<or> co_stop p = 1 \<and> co_data p \<noteq> 0 \<and> p' = p\<lparr>co_stop := 0\<rparr>"
proof -
  have c: "combo True i n v g = (False, v)" for i n v by (simp add: combo_def split: option.split)
  have port: "port_combo g ports True p = Some (0, p)" by (simp add: port_combo_def split: option.split)
  have "dtr_row g True True p = (0, p)" "rts_row g True True p = (0, p)" by (simp_all add: dtr_row_def rts_row_def c split: option.split)
  then have "snd (serial_grid g True p) = p \<or> co_stop p = 1 \<and> co_data p \<noteq> 0 \<and> snd (serial_grid g True p) = p\<lparr>co_stop := 0\<rparr>"
    by (simp add: serial_grid_def c stop_rule_def)
  then show ?thesis using assms by (auto simp: connection_content_def port Let_def case_prod_unfold)
qed

text \<open>A panel with 8N1.5 in it, and the switches around it.\<close>

definition panel_8n15 :: connection where
  "panel_8n15 = \<lparr>co_port = [0x43], co_port_capacity = 128, co_baud = 7, co_data = 3, co_stop = 1, co_parity = 0, co_flow = 0,
     co_dtr = 0, co_rts = 0, co_dtr_open = Some 0, co_rts_open = Some 2\<rparr>"

definition options_off :: panel_options where
  "options_off = \<lparr>do_hex = 0, do_timestamp = 0, do_pause = 0, do_auto_clear = 0, do_auto_clear_bytes = 0, do_auto_save = 0,
     do_charset = None, do_frame_gap = None\<rparr>"

definition request_8n1 :: serial_options where
  "request_8n1 = \<lparr>so_port_name = ''C'', so_baud = 115200, so_data_bits = 8, so_stop_bits = 0, so_parity = 0, so_flow_control = 0,
     so_dtr_drive = 0, so_rts_drive = 2\<rparr>"

lemma idle_frame: "connection_content gui_idle [] False panel_8n15 options_off = Some (128, panel_8n15\<lparr>co_stop := 0\<rparr>, options_off)"
  by (simp add: connection_content_def port_combo_def gui_idle_def serial_grid_def combo_def dtr_row_def rts_row_def stop_rule_def
      panel_8n15_def options_off_def receive_toolbar_def toggle_def button_def input_int_def charset_row_def frame_gap_row_def
      command_def action_mask_def Let_def)

theorem panel_format_accepted_witness: "validate_serial_options request_8n1 = None"
  by (rule panel_format_accepted [OF _ _ idle_frame])
    (simp_all add: format_in_lists_def panel_8n15_def requests_def request_8n1_def gui_idle_def)

text \<open>The user tries to release the DTR line of an open port.\<close>

theorem open_port_lines_dead_witness:
  "map_option (co_dtr \<circ> fst \<circ> snd) (connection_content (gui_idle\<lparr>gu_pick := (\<lambda>_. Some 1)\<rparr>) [[0x43]] True panel_8n15 options_off) = Some 0"
proof -
  have "port_combo (gui_idle\<lparr>gu_pick := (\<lambda>_. Some 1)\<rparr>) [[0x43]] True panel_8n15 = Some (0, panel_8n15)"
    by (simp add: port_combo_def gui_idle_def)
  then obtain acts p' d' where f: "connection_content (gui_idle\<lparr>gu_pick := (\<lambda>_. Some 1)\<rparr>) [[0x43]] True panel_8n15 options_off = Some (acts, p', d')"
    by (simp add: connection_content_def case_prod_unfold Let_def)
  from open_port_lines_dead [OF this] have "co_dtr p' = 0" by (auto simp: panel_8n15_def)
  then show ?thesis using f by simp
qed

end
