(* ===== verification/Bridge_Frame.thy ===== *)
theory Bridge_Frame
  imports Layout_Config Receive_View Bridge_Exchange
begin

text \<open>
  The life of the window bridge (\<open>xcom_imgui_bridge.cpp\<close>): start, frames, resizes, the font atlas and the
  shutdown. The answers of Windows, Direct3D and the font loader are inputs; a resource is a flag saying whether
  the bridge holds it. The calls whose order the GUI library restricts are recorded in a trace.
\<close>

section \<open>State\<close>

datatype gui_call =
  CreateContext | LoadFonts | BackendInit | NewFrame | Draw | RenderFrame | EndFrame | DestroyContext

record bridge =
  br_swap :: bool
  br_device :: bool
  br_context :: bool
  br_target :: bool
  br_hwnd :: bool
  br_owner :: nat                          \<comment> \<open>thread, 0 for none\<close>
  br_initialized :: bool
  br_frame_active :: bool
  br_body_fonts :: "bool list"             \<comment> \<open>the three faces that could be loaded\<close>
  br_heading :: bool
  br_mono :: bool
  br_font_default :: "nat option"
  br_body_index :: int
  br_rebuild :: bool
  br_status :: bytes
  br_ui :: ui_config
  br_pref_body :: "int option"             \<comment> \<open>the client's preferences, when registered\<close>
  br_pref_cjk :: "int option"
  br_ports :: "bytes list"
  br_view :: receive_view
  br_plots :: nat                          \<comment> \<open>plot contexts that are alive\<close>
  br_calls :: "gui_call list"

definition call :: "gui_call \<Rightarrow> bridge \<Rightarrow> bridge" where
  "call c b = b\<lparr>br_calls := br_calls b @ [c]\<rparr>"

text \<open>\<open>initialized_\<close> and on the owner's thread.\<close>

definition extension_ready :: "nat \<Rightarrow> bridge \<Rightarrow> bool" where
  "extension_ready tid b \<longleftrightarrow> br_initialized b \<and> tid = br_owner b"

section \<open>Resources\<close>

definition create_render_target :: "bool \<Rightarrow> bridge \<Rightarrow> bool \<times> bridge" where
  "create_render_target made b =
     (if \<not> br_swap b \<or> \<not> br_device b then (False, b)
      else if made then (True, b\<lparr>br_target := True\<rparr>) else (False, b))"

definition cleanup_render_target :: "bridge \<Rightarrow> bridge" where
  "cleanup_render_target b = b\<lparr>br_target := False\<rparr>"

definition release_dx_resources :: "bridge \<Rightarrow> bridge" where
  "release_dx_resources b =
     (cleanup_render_target b)\<lparr>br_swap := False, br_context := False, br_device := False, br_hwnd := False\<rparr>"

section \<open>Fonts\<close>

record faces =
  fc_body :: "bool list"                   \<comment> \<open>from the asset or from the system font\<close>
  fc_heading :: bool
  fc_mono :: bool

definition kBodyDefaultIndex :: nat where [simp]: "kBodyDefaultIndex = 1"

text \<open>The face of the size in use, when it was loaded.\<close>

definition restore_default :: "bool list \<Rightarrow> int \<Rightarrow> nat option \<Rightarrow> nat option" where
  [simp]: "restore_default fonts i fallback = (if i \<ge> 0 \<and> i < 3 \<and> fonts ! nat i then Some (nat i) else fallback)"

definition rebuild_fonts :: "faces \<Rightarrow> bridge \<Rightarrow> bridge" where
  "rebuild_fonts f b =
     (let fallback = (if fc_body f ! kBodyDefaultIndex then Some kBodyDefaultIndex else None);
          default = restore_default (fc_body f) (br_body_index b) fallback
      in call LoadFonts (b\<lparr>br_body_fonts := fc_body f, br_heading := fc_heading f, br_mono := fc_mono f, br_font_default := default\<rparr>))"

section \<open>Start\<close>

record init_answers =
  ia_window :: bool                        \<comment> \<open>the handle names a window\<close>
  ia_thread :: nat
  ia_pin_warp :: bool
  ia_hardware :: bool
  ia_warp :: bool
  ia_target :: bool
  ia_config :: "string option"
  ia_strtof :: "string \<Rightarrow> rat option"
  ia_faces :: faces
  ia_win32 :: bool
  ia_dx11 :: bool

definition destroy_context :: "bridge \<Rightarrow> bridge" where
  "destroy_context b = call DestroyContext b"

text \<open>A failure after the devices exist: nothing is owned, and the caller may try again.\<close>

definition init_failed :: "bridge \<Rightarrow> bridge" where
  "init_failed b = (release_dx_resources b)\<lparr>br_owner := 0\<rparr>"

text \<open>The hardware device unless it is pinned away, the software device otherwise, and the render target.\<close>

definition init_devices :: "init_answers \<Rightarrow> bridge \<Rightarrow> bool \<times> bridge" where
  "init_devices A b =
     (if \<not> ia_pin_warp A \<and> ia_hardware A \<or> ia_warp A
      then create_render_target (ia_target A) (b\<lparr>br_swap := True, br_device := True, br_context := True\<rparr>)
      else (False, b))"

text \<open>The contexts of the GUI and of the plots, the configuration, the fonts, the two backends, two warm-up frames.\<close>

definition warm_up :: "bridge \<Rightarrow> bridge" where
  "warm_up b = call RenderFrame (call NewFrame b)"

definition init_gui :: "init_answers \<Rightarrow> bridge \<Rightarrow> bool \<times> bridge" where
  "init_gui A b =
     (let b1 = (call CreateContext b)\<lparr>br_plots := br_plots b + 1\<rparr>;
          b2 = b1\<lparr>br_ui := load_layout_config (ia_strtof A) (ia_config A) (br_ui b1)\<rparr>;
          b3 = rebuild_fonts (ia_faces A) b2
      in if \<not> ia_win32 A then (False, init_failed (destroy_context b3))
         else if \<not> ia_dx11 A then (False, init_failed (destroy_context b3))
         else (True, warm_up (warm_up ((call BackendInit b3)\<lparr>br_initialized := True\<rparr>))))"

definition xcom_imgui_init :: "init_answers \<Rightarrow> bridge \<Rightarrow> bool \<times> bridge" where
  "xcom_imgui_init A b =
     (if \<not> ia_window A \<or> br_initialized b then (False, b)
      else case init_devices A (b\<lparr>br_view := receive_view_reset (br_view b), br_hwnd := True, br_owner := ia_thread A\<rparr>) of
          (target, b1) \<Rightarrow> if \<not> target then (False, init_failed b1) else init_gui A b1)"

definition xcom_imgui_shutdown :: "bridge \<Rightarrow> bridge" where
  "xcom_imgui_shutdown b =
     (if \<not> br_initialized b then b
      else let b1 = (if br_frame_active b then call EndFrame b else b);
               b2 = destroy_context (b1\<lparr>br_plots := br_plots b1 - 1\<rparr>)
           in (release_dx_resources b2)\<lparr>br_owner := 0, br_initialized := False, br_frame_active := False,
                br_heading := False, br_mono := False, br_view := (br_view b2)\<lparr>rv_text := []\<rparr>\<rparr>)"

section \<open>Frames\<close>

definition apply_font_prefs :: "bridge \<Rightarrow> bridge" where
  "apply_font_prefs b =
     (let b1 = (case br_pref_body b of
                  None \<Rightarrow> b
                | Some w \<Rightarrow> if w \<ge> 0 \<and> w < 3 \<and> w \<noteq> br_body_index b \<and> br_body_fonts b ! nat w
                            then b\<lparr>br_body_index := w, br_font_default := Some (nat w)\<rparr> else b)
      in case br_pref_cjk b1 of
           None \<Rightarrow> b1
         | Some v \<Rightarrow> if (v \<noteq> 0) \<noteq> ui_mono_cjk (br_ui b1)
                     then b1\<lparr>br_ui := (br_ui b1)\<lparr>ui_mono_cjk := (v \<noteq> 0)\<rparr>, br_rebuild := True\<rparr> else b1)"

definition xcom_imgui_new_frame :: "nat \<Rightarrow> bool \<Rightarrow> faces \<Rightarrow> bridge \<Rightarrow> bool \<times> bridge" where
  "xcom_imgui_new_frame tid is_window f b =
     (if \<not> br_initialized b \<or> br_frame_active b \<or> tid \<noteq> br_owner b \<or> \<not> is_window \<or> \<not> br_device b \<or> \<not> br_context b
      then (False, b)
      else let b1 = apply_font_prefs b;
               b2 = (if br_rebuild b1 then rebuild_fonts f (b1\<lparr>br_rebuild := False\<rparr>) else b1)
           in (True, (call NewFrame b2)\<lparr>br_frame_active := True\<rparr>))"

text \<open>The guard of the console: what it draws is modelled with the panels.\<close>

definition draw_guard :: "nat \<Rightarrow> bridge \<Rightarrow> bool" where
  "draw_guard tid b \<longleftrightarrow> br_initialized b \<and> br_frame_active b \<and> tid = br_owner b"

definition xcom_imgui_render :: "nat \<Rightarrow> bridge \<Rightarrow> bool \<times> bridge" where
  "xcom_imgui_render tid b =
     (if \<not> br_initialized b \<or> \<not> br_frame_active b \<or> tid \<noteq> br_owner b \<or> \<not> br_swap b \<or> \<not> br_target b \<or> \<not> br_context b
      then (False, b)
      else (True, (call RenderFrame b)\<lparr>br_frame_active := False\<rparr>))"

record wnd_message =
  wm_own :: bool                           \<comment> \<open>the message is for the bridge's window\<close>
  wm_thread :: nat
  wm_size :: "(nat \<times> nat) option"         \<comment> \<open>a size that is not a minimise\<close>
  wm_resized :: bool
  wm_target :: bool

definition xcom_imgui_wndproc :: "wnd_message \<Rightarrow> bridge \<Rightarrow> bridge" where
  "xcom_imgui_wndproc m b =
     (if \<not> br_initialized b \<or> \<not> wm_own m \<or> wm_thread m \<noteq> br_owner b then b
      else case wm_size m of
          None \<Rightarrow> b
        | Some (w, h) \<Rightarrow>
            if br_swap b \<and> w > 0 \<and> h > 0
            then let b1 = cleanup_render_target b
                 in if wm_resized m then snd (create_render_target (wm_target m) b1) else b1
            else b)"

section \<open>The client's setters\<close>

text \<open>A null name and an empty one are skipped.\<close>

definition xcom_imgui_set_ports :: "bytes option list option \<Rightarrow> int \<Rightarrow> bridge \<Rightarrow> bridge" where
  "xcom_imgui_set_ports names count b =
     (if \<not> br_initialized b \<or> count < 0 \<or> (count > 0 \<and> names = None) then b
      else b\<lparr>br_ports := (case names of None \<Rightarrow> []
               | Some ns \<Rightarrow> filter (\<lambda>n. n \<noteq> []) (map (\<lambda>n. case n of None \<Rightarrow> [] | Some t \<Rightarrow> t) (take (nat count) ns)))\<rparr>)"

definition xcom_imgui_set_font_prefs :: "nat \<Rightarrow> int option \<Rightarrow> int option \<Rightarrow> bridge \<Rightarrow> bridge" where
  "xcom_imgui_set_font_prefs tid body cjk b =
     (if extension_ready tid b then b\<lparr>br_pref_body := body, br_pref_cjk := cjk\<rparr> else b)"

definition xcom_imgui_get_font_prefs :: "nat \<Rightarrow> bridge \<Rightarrow> (int \<times> int) option" where
  "xcom_imgui_get_font_prefs tid b =
     (if extension_ready tid b then Some (br_body_index b, if ui_mono_cjk (br_ui b) then 1 else 0) else None)"

section \<open>The status line\<close>

definition kStatusLimit :: nat where [simp]: "kStatusLimit = 160"

definition lead_length :: "u8 \<Rightarrow> nat" where
  "lead_length lead = (if lead \<ge> 0xF0 then 4 else if lead \<ge> 0xE0 then 3 else if lead \<ge> 0xC0 then 2 else 1)"

definition lead_bits :: "u8 \<Rightarrow> u32" where
  "lead_bits lead =
     ucast (if lead \<ge> 0xF0 then lead AND 0x07 else if lead \<ge> 0xE0 then lead AND 0x0F
            else if lead \<ge> 0xC0 then lead AND 0x1F else lead)"

definition code_point :: "bytes \<Rightarrow> u32" where
  "code_point bs = foldl (\<lambda>cp b. push_bit 6 cp OR ucast (b AND 0x3F)) (lead_bits (hd bs)) (tl bs)"

text \<open>The code points of a line, up to a truncated tail.\<close>

function code_points :: "bytes \<Rightarrow> u32 list" where
  "code_points [] = []"
| "code_points (lead # bs) =
     (let n = lead_length lead
      in if n > length (lead # bs) then []
         else code_point (take n (lead # bs)) # code_points (drop n (lead # bs)))"
  by pat_completeness auto
termination
proof (relation "measure length", goal_cases)
  case (2 lead bs n)
  then show ?case by (simp add: lead_length_def split: if_splits)
qed simp

text \<open>\<open>glyph i c\<close>: body face \<open>i\<close> has the 16-bit character \<open>c\<close>.\<close>

definition point_missing :: "(nat \<Rightarrow> u16 \<Rightarrow> bool) \<Rightarrow> bool list \<Rightarrow> u32 \<Rightarrow> bool" where
  "point_missing glyph fonts cp \<longleftrightarrow>
     \<not> cp < 0x80 \<and> list_ex (\<lambda>i. fonts ! i \<and> \<not> glyph i (ucast cp)) [0..<length fonts]"

definition xcom_imgui_set_status :: "nat \<Rightarrow> (nat \<Rightarrow> u16 \<Rightarrow> bool) \<Rightarrow> bytes option \<Rightarrow> bridge \<Rightarrow> bridge" where
  "xcom_imgui_set_status tid glyph text b =
     (if \<not> extension_ready tid b then b
      else case text of
          None \<Rightarrow> b\<lparr>br_status := []\<rparr>
        | Some t \<Rightarrow>
            if t = [] then b\<lparr>br_status := []\<rparr>
            else let next = take (if length t < kStatusLimit then length t else kStatusLimit) t
                 in if next = br_status b then b
                    else let b1 = b\<lparr>br_status := next\<rparr>
                         in if br_body_fonts b1 ! 1
                            then if list_ex (point_missing glyph (br_body_fonts b1)) (code_points next)
                                 then b1\<lparr>br_rebuild := True\<rparr> else b1
                            else b1\<lparr>br_rebuild := True\<rparr>)"

section \<open>The process starts\<close>

definition bridge_fresh :: bridge where
  "bridge_fresh = \<lparr>br_swap = False, br_device = False, br_context = False, br_target = False, br_hwnd = False, br_owner = 0,
     br_initialized = False, br_frame_active = False, br_body_fonts = [False, False, False], br_heading = False, br_mono = False,
     br_font_default = None, br_body_index = 1, br_rebuild = False, br_status = [],
     br_ui = \<lparr>ui_layout = layout_default, ui_lang_zh = True, ui_mono_cjk = False\<rparr>,
     br_pref_body = None, br_pref_cjk = None, br_ports = [], br_view = receive_view_init, br_plots = 0, br_calls = []\<rparr>"

end
