(* ===== verification/Frame_Facts.thy ===== *)
theory Frame_Facts
  imports Bridge_Frame
begin

text \<open>
  The bridge drives the GUI library within its protocol, holds no device resource while it is down, keeps the
  status line drawable; and two things it does not do: give back the plot context of a failed start, and draw
  again once the render target was lost.
\<close>

section \<open>The protocol of the GUI library\<close>

datatype phase = Outside | Setup | Idle | InFrame

fun gui_step :: "phase \<Rightarrow> gui_call \<Rightarrow> phase option" where
  "gui_step Outside CreateContext = Some Setup"
| "gui_step Setup LoadFonts = Some Setup"
| "gui_step Setup BackendInit = Some Idle"
| "gui_step Setup DestroyContext = Some Outside"
| "gui_step Idle LoadFonts = Some Idle"
| "gui_step Idle NewFrame = Some InFrame"
| "gui_step Idle DestroyContext = Some Outside"
| "gui_step InFrame Draw = Some InFrame"
| "gui_step InFrame RenderFrame = Some Idle"
| "gui_step InFrame EndFrame = Some Idle"
| "gui_step _ _ = None"

fun gui_run :: "phase \<Rightarrow> gui_call list \<Rightarrow> phase option" where
  "gui_run p [] = Some p"
| "gui_run p (c # cs) = (case gui_step p c of None \<Rightarrow> None | Some p' \<Rightarrow> gui_run p' cs)"

lemma gui_run_append: "gui_run p (cs @ ds) = (case gui_run p cs of None \<Rightarrow> None | Some p' \<Rightarrow> gui_run p' ds)"
  by (induction cs arbitrary: p) (auto split: option.split)

definition phase_of :: "bridge \<Rightarrow> phase" where
  "phase_of b = (if \<not> br_initialized b then Outside else if br_frame_active b then InFrame else Idle)"

datatype bridge_op =
  OpInit init_answers
| OpShutdown
| OpNewFrame nat bool faces
| OpDraw nat
| OpRender nat
| OpWindow wnd_message
| OpStatus nat "nat \<Rightarrow> u16 \<Rightarrow> bool" "bytes option"
| OpPrefs nat "int option" "int option"
| OpPorts "bytes option list option" int

text \<open>The console draws between the two frame calls.\<close>

fun bridge_apply :: "bridge_op \<Rightarrow> bridge \<Rightarrow> bridge" where
  "bridge_apply (OpInit A) b = snd (xcom_imgui_init A b)"
| "bridge_apply OpShutdown b = xcom_imgui_shutdown b"
| "bridge_apply (OpNewFrame tid w f) b = snd (xcom_imgui_new_frame tid w f b)"
| "bridge_apply (OpDraw tid) b = (if draw_guard tid b then call Draw b else b)"
| "bridge_apply (OpRender tid) b = snd (xcom_imgui_render tid b)"
| "bridge_apply (OpWindow m) b = xcom_imgui_wndproc m b"
| "bridge_apply (OpStatus tid g t) b = xcom_imgui_set_status tid g t b"
| "bridge_apply (OpPrefs tid v w) b = xcom_imgui_set_font_prefs tid v w b"
| "bridge_apply (OpPorts ns n) b = xcom_imgui_set_ports ns n b"

text \<open>No device resource while it is down; all of them while it is up.\<close>

definition resources_ok :: "bridge \<Rightarrow> bool" where
  "resources_ok b \<longleftrightarrow>
     (if br_initialized b then br_swap b \<and> br_device b \<and> br_context b \<and> br_hwnd b
      else \<not> br_swap b \<and> \<not> br_device b \<and> \<not> br_context b \<and> \<not> br_target b \<and> \<not> br_hwnd b \<and> \<not> br_frame_active b \<and> br_owner b = 0)"

definition steps_ok :: "bridge \<Rightarrow> bridge \<Rightarrow> bool" where
  "steps_ok b b' \<longleftrightarrow> resources_ok b' \<and> (\<exists>cs. br_calls b' = br_calls b @ cs \<and> gui_run (phase_of b) cs = Some (phase_of b'))"

lemma steps_refl: "resources_ok b \<Longrightarrow> steps_ok b b"
  by (simp add: steps_ok_def)

lemma steps_trans: "steps_ok b b' \<Longrightarrow> steps_ok b' b'' \<Longrightarrow> steps_ok b b''"
  by (auto simp: steps_ok_def gui_run_append)

text \<open>The bookkeeping that the protocol does not see.\<close>

definition same_window :: "bridge \<Rightarrow> bridge \<Rightarrow> bool" where
  "same_window b b' \<longleftrightarrow> br_calls b' = br_calls b \<and> br_initialized b' = br_initialized b \<and> br_frame_active b' = br_frame_active b \<and>
     br_swap b' = br_swap b \<and> br_device b' = br_device b \<and> br_context b' = br_context b \<and> br_hwnd b' = br_hwnd b \<and>
     br_owner b' = br_owner b \<and> (\<not> br_initialized b \<longrightarrow> br_target b' = br_target b)"

lemma same_window_steps: "same_window b b' \<Longrightarrow> resources_ok b \<Longrightarrow> steps_ok b b'"
  by (auto simp: same_window_def steps_ok_def resources_ok_def phase_of_def split: if_splits)

lemma setters_same_window:
  "same_window b (xcom_imgui_set_status tid g t b)" "same_window b (xcom_imgui_set_font_prefs tid v w b)"
  "same_window b (xcom_imgui_set_ports ns n b)" "same_window b (xcom_imgui_wndproc m b)" "same_window b (apply_font_prefs b)"
  by (auto simp: same_window_def xcom_imgui_set_status_def xcom_imgui_set_font_prefs_def xcom_imgui_set_ports_def
      xcom_imgui_wndproc_def apply_font_prefs_def create_render_target_def cleanup_render_target_def Let_def
      split: option.split prod.split)

text \<open>What the two halves of the start leave of the state the protocol is about.\<close>

lemma init_devices_frame:
  assumes "init_devices A b = (target, b')"
  shows "br_calls b' = br_calls b \<and> br_initialized b' = br_initialized b \<and> br_frame_active b' = br_frame_active b \<and>
    br_hwnd b' = br_hwnd b \<and> br_plots b' = br_plots b \<and>
    (target \<longrightarrow> br_swap b' \<and> br_device b' \<and> br_context b')"
  using assms by (auto simp: init_devices_def create_render_target_def split: if_splits)

lemma init_failed_frame:
  "br_calls (init_failed b) = br_calls b" "br_initialized (init_failed b) = br_initialized b"
  "br_frame_active (init_failed b) = br_frame_active b" "br_plots (init_failed b) = br_plots b"
  "\<not> br_swap (init_failed b)" "\<not> br_device (init_failed b)" "\<not> br_context (init_failed b)" "\<not> br_target (init_failed b)"
  "\<not> br_hwnd (init_failed b)" "br_owner (init_failed b) = 0"
  by (simp_all add: init_failed_def release_dx_resources_def cleanup_render_target_def)

lemma rebuild_fonts_frame [simp]:
  "br_calls (rebuild_fonts f b) = br_calls b @ [LoadFonts]" "br_initialized (rebuild_fonts f b) = br_initialized b"
  "br_frame_active (rebuild_fonts f b) = br_frame_active b" "br_plots (rebuild_fonts f b) = br_plots b"
  "br_swap (rebuild_fonts f b) = br_swap b" "br_device (rebuild_fonts f b) = br_device b"
  "br_context (rebuild_fonts f b) = br_context b" "br_hwnd (rebuild_fonts f b) = br_hwnd b"
  "br_owner (rebuild_fonts f b) = br_owner b" "br_target (rebuild_fonts f b) = br_target b"
  "br_rebuild (rebuild_fonts f b) = br_rebuild b" "br_status (rebuild_fonts f b) = br_status b"
  by (simp_all add: rebuild_fonts_def call_def Let_def)

lemma init_gui_failed:
  assumes "init_gui A b = (False, b')"
  shows "\<exists>b3. b' = init_failed b3 \<and> br_calls b3 = br_calls b @ [CreateContext, LoadFonts, DestroyContext] \<and>
    br_initialized b3 = br_initialized b \<and> br_frame_active b3 = br_frame_active b \<and> br_plots b3 = br_plots b + 1"
  using assms
  by (intro exI [of _ "destroy_context (rebuild_fonts (ia_faces A) ((call CreateContext b)\<lparr>br_plots := br_plots b + 1,
      br_ui := load_layout_config (ia_strtof A) (ia_config A) (br_ui b)\<rparr>))"])
    (auto simp: init_gui_def Let_def call_def destroy_context_def split: if_splits)

lemma init_gui_started:
  assumes "init_gui A b = (True, b')"
  shows "br_calls b' = br_calls b @ [CreateContext, LoadFonts, BackendInit, NewFrame, RenderFrame, NewFrame, RenderFrame] \<and>
    br_initialized b' \<and> br_frame_active b' = br_frame_active b \<and> br_swap b' = br_swap b \<and> br_device b' = br_device b \<and>
    br_context b' = br_context b \<and> br_hwnd b' = br_hwnd b"
  using assms by (auto simp: init_gui_def Let_def call_def warm_up_def split: if_splits)

lemma init_steps:
  assumes "resources_ok b"
  shows "steps_ok b (snd (xcom_imgui_init A b))"
proof (cases "\<not> ia_window A \<or> br_initialized b")
  case True
  then show ?thesis using assms by (simp add: xcom_imgui_init_def steps_refl)
next
  case up: False
  let ?b = "b\<lparr>br_view := receive_view_reset (br_view b), br_hwnd := True, br_owner := ia_thread A\<rparr>"
  obtain target b1 where d: "init_devices A ?b = (target, b1)" by (meson surj_pair)
  note f = init_devices_frame [OF d, simplified]
  obtain ok b2 where g: "init_gui A b1 = (ok, b2)" by (meson surj_pair)
  have down: "\<not> br_initialized b" "\<not> br_frame_active b" using up assms by (simp_all add: resources_ok_def)
  have r: "snd (xcom_imgui_init A b) = (if target then b2 else init_failed b1)" using up by (simp add: xcom_imgui_init_def d g)
  show ?thesis
  proof (cases target)
    case False
    then show ?thesis using f down by (simp add: r steps_ok_def resources_ok_def phase_of_def init_failed_frame)
  next
    case target: True
    show ?thesis
    proof (cases ok)
      case True
      then show ?thesis using init_gui_started [of A b1 b2] g f down target by (simp add: r steps_ok_def resources_ok_def phase_of_def)
    next
      case False
      then show ?thesis using init_gui_failed [of A b1 b2] g f down target
        by (auto simp: r steps_ok_def resources_ok_def phase_of_def init_failed_frame)
    qed
  qed
qed

lemma shutdown_steps: "resources_ok b \<Longrightarrow> steps_ok b (xcom_imgui_shutdown b)"
  by (auto simp: xcom_imgui_shutdown_def Let_def release_dx_resources_def cleanup_render_target_def destroy_context_def call_def
      steps_ok_def resources_ok_def phase_of_def)

lemma new_frame_steps:
  assumes "resources_ok b"
  shows "steps_ok b (snd (xcom_imgui_new_frame tid w f b))"
proof (cases "\<not> br_initialized b \<or> br_frame_active b \<or> tid \<noteq> br_owner b \<or> \<not> w \<or> \<not> br_device b \<or> \<not> br_context b")
  case True
  then have "snd (xcom_imgui_new_frame tid w f b) = b" unfolding xcom_imgui_new_frame_def if_P [OF True] by simp
  then show ?thesis using assms by (simp add: steps_refl)
next
  case False
  then have up: "br_initialized b" "\<not> br_frame_active b" by simp_all
  have r: "snd (xcom_imgui_new_frame tid w f b) = (call NewFrame (if br_rebuild (apply_font_prefs b)
      then rebuild_fonts f ((apply_font_prefs b)\<lparr>br_rebuild := False\<rparr>) else apply_font_prefs b))\<lparr>br_frame_active := True\<rparr>"
    unfolding xcom_imgui_new_frame_def if_not_P [OF False] by (simp add: Let_def)
  show ?thesis
    using setters_same_window(5) [of b] up assms unfolding r
    by (simp add: steps_ok_def resources_ok_def phase_of_def same_window_def call_def)
qed

lemma draw_steps: "resources_ok b \<Longrightarrow> steps_ok b (if draw_guard tid b then call Draw b else b)"
  by (simp add: draw_guard_def call_def steps_ok_def phase_of_def resources_ok_def)

lemma render_steps: "resources_ok b \<Longrightarrow> steps_ok b (snd (xcom_imgui_render tid b))"
  by (auto simp: xcom_imgui_render_def call_def steps_ok_def phase_of_def resources_ok_def)

lemma apply_steps: "resources_ok b \<Longrightarrow> steps_ok b (bridge_apply o' b)"
  by (cases o') (simp_all only: bridge_apply.simps init_steps shutdown_steps new_frame_steps draw_steps render_steps
      same_window_steps [OF setters_same_window(1)] same_window_steps [OF setters_same_window(2)]
      same_window_steps [OF setters_same_window(3)] same_window_steps [OF setters_same_window(4)])

lemma applies_steps: "resources_ok b \<Longrightarrow> steps_ok b (fold bridge_apply ops b)"
proof (induction ops arbitrary: b)
  case (Cons o' ops)
  have s: "steps_ok b (bridge_apply o' b)" by (rule apply_steps [OF Cons.prems])
  then have "steps_ok (bridge_apply o' b) (fold bridge_apply ops (bridge_apply o' b))" by (intro Cons.IH) (simp add: steps_ok_def)
  then show ?case using steps_trans [OF s] by simp
qed (simp add: steps_refl)

text \<open>
  C17 (frames_follow_protocol). Whatever the client calls, in any order, from any thread and with any answers of the
  system, the calls the bridge makes into the GUI library follow its protocol: fonts are rebuilt only between
  frames, every frame is opened once and closed once, nothing is drawn outside one, and nothing is called before
  the context exists or after it is gone; and while the bridge is down it holds no device resource.
\<close>

theorem frames_follow_protocol:
  "gui_run Outside (br_calls (fold bridge_apply ops bridge_fresh)) = Some (phase_of (fold bridge_apply ops bridge_fresh)) \<and>
   resources_ok (fold bridge_apply ops bridge_fresh)"
proof -
  have "resources_ok bridge_fresh" by (simp add: resources_ok_def bridge_fresh_def)
  from applies_steps [OF this, of ops] show ?thesis by (simp add: steps_ok_def phase_of_def bridge_fresh_def)
qed

section \<open>A failed start\<close>

text \<open>
  A start that fails gives back every device resource and the thread, so that it can be
  tried again; but one that fails in a backend of the GUI leaves its plot context alive, one more for each attempt.
\<close>

theorem failed_start_leaks_plots:
  assumes "resources_ok b" "\<not> br_initialized b" "xcom_imgui_init A b = (False, b')"
  shows "resources_ok b' \<and> \<not> br_initialized b' \<and>
    br_plots b' = br_plots b + (if ia_window A \<and> (\<not> ia_pin_warp A \<and> ia_hardware A \<or> ia_warp A) \<and> ia_target A then 1 else 0)"
proof (cases "ia_window A")
  case False
  then have "b' = b" using assms(3) by (simp add: xcom_imgui_init_def)
  then show ?thesis using assms False by simp
next
  case True
  let ?b = "b\<lparr>br_view := receive_view_reset (br_view b), br_hwnd := True, br_owner := ia_thread A\<rparr>"
  obtain target b1 where d: "init_devices A ?b = (target, b1)" by (meson surj_pair)
  note f = init_devices_frame [OF d, simplified]
  have t: "target \<longleftrightarrow> (\<not> ia_pin_warp A \<and> ia_hardware A \<or> ia_warp A) \<and> ia_target A"
    using d by (auto simp: init_devices_def create_render_target_def split: if_splits)
  have r: "(if target then init_gui A b1 else (False, init_failed b1)) = (False, b')"
    using assms(2,3) True by (simp add: xcom_imgui_init_def d split: if_splits)
  show ?thesis
  proof (cases target)
    case False
    then show ?thesis using r f assms t True by (auto simp: init_failed_frame resources_ok_def)
  next
    case t': True
    then show ?thesis using init_gui_failed [of A b1 b'] r f assms t True by (auto simp: init_failed_frame resources_ok_def)
  qed
qed

definition init_backend_fails :: init_answers where
  "init_backend_fails = \<lparr>ia_window = True, ia_thread = 7, ia_pin_warp = False, ia_hardware = True, ia_warp = True, ia_target = True,
     ia_config = None, ia_strtof = (\<lambda>_. None), ia_faces = \<lparr>fc_body = [True, True, True], fc_heading = True, fc_mono = True\<rparr>,
     ia_win32 = False, ia_dx11 = True\<rparr>"

lemma bridge_fresh_ok: "resources_ok bridge_fresh" "\<not> br_initialized bridge_fresh"
  by (simp_all add: resources_ok_def bridge_fresh_def)

theorem failed_start_leaks_plots_witness: "br_plots (snd (xcom_imgui_init init_backend_fails bridge_fresh)) = 1"
proof -
  obtain ok b' where i: "xcom_imgui_init init_backend_fails bridge_fresh = (ok, b')" by (meson surj_pair)
  then have "\<not> ok" by (auto simp: xcom_imgui_init_def init_gui_def init_backend_fails_def Let_def split: prod.splits if_splits)
  then have "xcom_imgui_init init_backend_fails bridge_fresh = (False, b')" using i by simp
  from failed_start_leaks_plots [OF bridge_fresh_ok this] i show ?thesis
    by (simp add: init_backend_fails_def bridge_fresh_def)
qed

section \<open>A lost render target\<close>

text \<open>The client's poll: it renders exactly the frames it could open.\<close>

definition client_poll :: "nat \<Rightarrow> bool \<Rightarrow> faces \<Rightarrow> bridge \<Rightarrow> bool \<times> bridge" where
  "client_poll tid w f b =
     (case xcom_imgui_new_frame tid w f b of
        (started, b1) \<Rightarrow> if \<not> started then (False, b1)
                         else xcom_imgui_render tid (if draw_guard tid b1 then call Draw b1 else b1))"

datatype window_event = Poll nat bool faces | Message wnd_message

text \<open>Whether a frame was presented.\<close>

fun window_event_step :: "window_event \<Rightarrow> bridge \<Rightarrow> bool \<times> bridge" where
  "window_event_step (Poll tid w f) b = client_poll tid w f b"
| "window_event_step (Message m) b = (False, xcom_imgui_wndproc m b)"

fun window_events :: "window_event list \<Rightarrow> bridge \<Rightarrow> bool list \<times> bridge" where
  "window_events [] b = ([], b)"
| "window_events (e # es) b =
     (case window_event_step e b of (shown, b') \<Rightarrow> case window_events es b' of (rest, b'') \<Rightarrow> (shown # rest, b''))"

definition stuck :: "bridge \<Rightarrow> bool" where
  "stuck b \<longleftrightarrow> br_initialized b \<and> br_frame_active b"

lemma stuck_event: "stuck b \<Longrightarrow> fst (window_event_step e b) = False \<and> stuck (snd (window_event_step e b))"
  using setters_same_window(4) [of b]
  by (cases e) (auto simp: stuck_def client_poll_def xcom_imgui_new_frame_def same_window_def)

lemma stuck_events: "stuck b \<Longrightarrow> list_all Not (fst (window_events es b))"
proof (induction es arbitrary: b)
  case (Cons e es)
  obtain shown b' where s: "window_event_step e b = (shown, b')" by (meson surj_pair)
  with stuck_event [OF Cons.prems, of e] have "\<not> shown" "stuck b'" by simp_all
  with Cons.IH [of b'] show ?case by (simp add: s case_prod_unfold)
qed simp

text \<open>
  C26 (lost_target_freezes_window). After a resize that could not make a render target, the frame the next poll opens is
  never closed: the render call refuses it without ending it, every later poll is refused because a frame is
  open, and no poll ever presents anything again, not even after a later resize made a new target.
\<close>

theorem lost_target_freezes_window:
  assumes "resources_ok b" "br_initialized b" "\<not> br_frame_active b" "\<not> br_target b" "client_poll (br_owner b) True f b = (shown, b')"
  shows "\<not> shown \<and> list_all Not (fst (window_events es b'))"
proof -
  have ok: "br_device b" "br_context b" using assms(1,2) by (simp_all add: resources_ok_def)
  obtain b1 where n: "xcom_imgui_new_frame (br_owner b) True f b = (True, b1)" "br_initialized b1" "br_frame_active b1" "br_target b1 = br_target b"
    using assms(2,3) ok setters_same_window(5) [of b]
    by (auto simp: xcom_imgui_new_frame_def Let_def call_def same_window_def apply_font_prefs_def split: option.splits)
  have "client_poll (br_owner b) True f b = (False, if draw_guard (br_owner b) b1 then call Draw b1 else b1)"
    using n assms(4) by (simp add: client_poll_def xcom_imgui_render_def call_def)
  then have "shown = False" "stuck b'" using assms(5) n by (auto simp: stuck_def call_def)
  then show ?thesis using stuck_events by simp
qed

end
