(* ===== verification/Console_Frame.thy ===== *)
theory Console_Frame
  imports Console_Panels Plugin_Spec Bridge_Frame
begin

text \<open>
  The floating windows (\<open>xcom_imgui_bridge.cpp\<close>: script console, oscilloscope, settings, plugin windows) and
  the whole frame of the console, \<open>xcom_imgui_draw_console\<close>, which draws the panels and the windows in order
  and reports the union of their actions. An entry picked in a list of rows is an input by its index.
\<close>

section \<open>The script console\<close>

text \<open>The colour of a log line by its level tag.\<close>

definition log_line_color :: "bytes \<Rightarrow> u32 option" where
  "log_line_color line =
     (if length line > 6 \<and> hd line = 0x5B
      then if take 6 line = ascii ''[ERROR'' \<or> take 6 line = ascii ''[FATAL'' then Some 0xC50500
           else if take 6 line = ascii ''[WARN '' then Some 0xB36B00
           else if take 6 line = ascii ''[INFO '' then Some 0x1B7F3B
           else None
      else None)"

definition log_line :: "'d exchange \<Rightarrow> nat \<Rightarrow> bytes" where
  "log_line x i =
     (let b = ex_log_lines x ! i;
          e = (if i + 1 < length (ex_log_lines x) then ex_log_lines x ! (i + 1) - 1 else length (ex_log x))
      in take (e - b) (drop b (ex_log x)))"

text \<open>The label shown for a script: its name unless every script has a label.\<close>

definition script_shown :: "'d exchange \<Rightarrow> nat \<Rightarrow> bytes" where
  "script_shown x i = (if length (ex_labels x) = length (ex_names x) then ex_labels x ! i else ex_names x ! i)"

definition script_tooltip :: "'d exchange \<Rightarrow> nat \<Rightarrow> bytes option" where
  "script_tooltip x i = (if i < length (ex_descs x) \<and> ex_descs x ! i \<noteq> [] then Some (ex_descs x ! i) else None)"

definition script_row :: "gui \<Rightarrow> nat \<Rightarrow> 'd exchange \<Rightarrow> 'd exchange" where
  "script_row g i x =
     (let x1 = (case ex_enabled x of
                  None \<Rightarrow> x
                | Some en \<Rightarrow> if gu_pick g ''##en'' = Some i then x\<lparr>ex_enabled := Some (en[i := (if en ! i \<noteq> 0 then 0 else 1)])\<rparr> else x)
      in if gu_pick g ''##script_list'' = Some i then script_pick i x1 else x1)"

text \<open>The editor's buffer after an edit: it only grows, and keeps what was behind the new end.\<close>

definition script_editor_resize :: "bytes \<Rightarrow> bytes \<Rightarrow> bytes" where
  "script_editor_resize buf t =
     (let n = max (length buf) (length t + 1) in t @ 0 # drop (length t + 1) (buf @ replicate (n - length buf) 0))"

definition kCommandMax :: nat where [simp]: "kCommandMax = 512"

definition script_toolbar :: "gui \<Rightarrow> 'd exchange \<Rightarrow> 'd exchange" where
  "script_toolbar g x =
     (let x1 = (if button False ''script_new'' g then script_button SeNewScript x else x);
          x2 = (if button False ''script_open_folder'' g then script_button SeOpenFolder x1 else x1);
          x3 = (if button False ''script_reload'' g then script_button SeReload x2 else x2);
          x4 = (if button False ''script_clear_log'' g then script_button SeClearLog x3 else x3)
      in if gu_click g ''Ctrl+S'' then script_save_key x4 else x4)"

definition script_body :: "gui \<Rightarrow> 'd exchange \<Rightarrow> 'd exchange" where
  "script_body g x =
     (let x1 = (if gu_shows g ''##script_list'' then fold (script_row g) [0..<length (ex_names x)] x else x)
      in if gu_shows g ''##script_editor'' \<and> \<not> ex_edit_index x1 < 0
         then case gu_text g ''##script_edit'' of
                None \<Rightarrow> x1
              | Some t \<Rightarrow> x1\<lparr>ex_edit_buf := script_editor_resize (ex_edit_buf x1) t, ex_edit_dirty := True\<rparr>
         else x1)"

definition script_repl :: "gui \<Rightarrow> 'd exchange \<Rightarrow> 'd exchange" where
  "script_repl g x =
     (let x1 = x\<lparr>ex_command := snd (input_text ''##repl'' kCommandMax (ex_command x) g)\<rparr>
      in if gu_click g ''##repl'' then x1\<lparr>ex_command_ready := True\<rparr> else x1)"

text \<open>\<open>script_body_fits\<close>: the window is high enough for the list and the editor.\<close>

definition script_console_content :: "gui \<Rightarrow> 'd exchange \<Rightarrow> u32 \<times> 'd exchange" where
  "script_console_content g x =
     (if \<not> ex_scripts_visible x then (0, x)
      else let x1 = (if gu_shows g ''###scripts''
                     then let y = script_toolbar g x; z = (if gu_shows g ''script_body_fits'' then script_body g y else y)
                          in script_repl g z
                     else x)
           in if gu_click g ''scripts/close'' then (action_mask ActionToggleScripts, x1\<lparr>ex_scripts_visible := False\<rparr>) else (0, x1))"

section \<open>The oscilloscope window\<close>

record scope_window =
  sw_history :: rat
  sw_follow :: bool
  sw_y_fit :: bool
  sw_cursor_a :: rat
  sw_cursor_b :: rat

record scope_gui =
  sg_history :: "rat option"               \<comment> \<open>where the history slider was dragged\<close>
  sg_follow :: bool                        \<comment> \<open>the follow switch was clicked\<close>
  sg_plot :: bool
  sg_view_max :: rat                       \<comment> \<open>the right end of the plot's view\<close>
  sg_cursor_a :: "rat option"
  sg_cursor_b :: "rat option"

text \<open>The time axis a following plot is locked to, and the channels that are plotted.\<close>

definition scope_limits :: "rat \<Rightarrow> scope_window \<Rightarrow> (rat \<times> rat) option" where
  "scope_limits latest w = (if sw_follow w then Some (latest - sw_history w, latest) else None)"

definition scope_plotted :: "('d, 'f) scope \<Rightarrow> nat list" where
  "scope_plotted s = filter (\<lambda>k. \<not> (sc_count (sp_channels s ! k) < 2 \<or> \<not> sc_visible (sp_channels s ! k))) [0..<kScopeChannelsMax]"

definition scope_body :: "scope_gui \<Rightarrow> (rat, 'f) scope \<Rightarrow> scope_window \<Rightarrow> scope_window" where
  "scope_body g s w =
     (let w1 = (case sg_history g of None \<Rightarrow> w | Some h \<Rightarrow> w\<lparr>sw_history := h\<rparr>);
          w2 = (if sg_follow g then w1\<lparr>sw_follow := \<not> sw_follow w1\<rparr> else w1)
      in if \<not> sp_has_data s \<or> \<not> sg_plot g then w2
         else let w3 = (if \<not> sw_follow w2 \<and> sg_view_max g \<ge> sp_last_x s - 5 / 100 then w2\<lparr>sw_follow := True\<rparr> else w2);
                  w4 = w3\<lparr>sw_y_fit := True\<rparr>;
                  w5 = (case sg_cursor_a g of None \<Rightarrow> w4 | Some c \<Rightarrow> w4\<lparr>sw_cursor_a := c\<rparr>)
              in case sg_cursor_b g of None \<Rightarrow> w5 | Some c \<Rightarrow> w5\<lparr>sw_cursor_b := c\<rparr>)"

definition scope_content ::
  "gui \<Rightarrow> scope_gui \<Rightarrow> (rat, 'f) scope \<Rightarrow> scope_window \<Rightarrow> u32 \<times> (rat, 'f) scope \<times> scope_window" where
  "scope_content g sg s w =
     (if \<not> sp_visible s then (0, s, w)
      else let w1 = (if gu_shows g ''###scope'' then scope_body sg s w else w)
           in if gu_click g ''scope/close'' then (action_mask ActionToggleScope, s\<lparr>sp_visible := False\<rparr>, w1) else (0, s, w1))"

section \<open>Settings\<close>

definition font_choice :: "gui \<Rightarrow> bridge \<Rightarrow> bridge" where
  "font_choice g b =
     (case gu_pick g ''font_size'' of
        None \<Rightarrow> b
      | Some i \<Rightarrow>
          if \<not> i < 3 then b
          else if br_pref_body b \<noteq> None \<and> br_pref_cjk b \<noteq> None then b\<lparr>br_pref_body := Some (int i)\<rparr>
          else if br_body_fonts b ! i then b\<lparr>br_body_index := int i, br_font_default := Some i\<rparr>
          else b)"

definition cjk_choice :: "gui \<Rightarrow> bridge \<Rightarrow> bridge" where
  "cjk_choice g b =
     (if \<not> button False ''mono_cjk'' g then b
      else case (br_pref_body b, br_pref_cjk b) of
          (Some _, Some v) \<Rightarrow> b\<lparr>br_pref_cjk := Some (if v = 0 then 1 else 0)\<rparr>
        | _ \<Rightarrow> b\<lparr>br_ui := (br_ui b)\<lparr>ui_mono_cjk := \<not> ui_mono_cjk (br_ui b)\<rparr>, br_rebuild := True\<rparr>)"

definition page_toggle :: "gui \<Rightarrow> nat \<Rightarrow> 'd plugin_page \<Rightarrow> 'd plugin_page" where
  "page_toggle g i p =
     (if gu_pick g ''plugin_pages'' = Some i
      then if pp_window_open p then p\<lparr>pp_window_open := False\<rparr>
           else p\<lparr>pp_window_open := True, pp_window_appeared := False\<rparr>
      else p)"

definition settings_content :: "gui \<Rightarrow> bridge \<Rightarrow> 'd exchange \<Rightarrow> u32 \<times> bridge \<times> 'd exchange" where
  "settings_content g b x =
     (if \<not> ex_settings_visible x then (0, b, x)
      else let shown = gu_shows g ''###settings'' \<and> gu_shows g ''##settings_tabs'';
               b1 = (if shown \<and> gu_shows g ''general_tab'' then cjk_choice g (font_choice g b) else b);
               x1 = (if shown then x\<lparr>ex_pages := map (\<lambda>(i, p). page_toggle g i p) (enumerate 0 (ex_pages x))\<rparr> else x)
           in if gu_click g ''settings/close'' then (action_mask ActionToggleSettings, b1, x1\<lparr>ex_settings_visible := False\<rparr>)
              else (0, b1, x1))"

section \<open>Plugin windows\<close>

record plugin_gui =
  pw_shown :: bool
  pw_closed :: bool
  pw_widgets :: page_gui

definition plugin_window ::
  "(bytes \<Rightarrow> int) \<Rightarrow> (bytes \<Rightarrow> rat) \<Rightarrow> formats \<Rightarrow> plugin_gui \<Rightarrow> rat plugin_page \<Rightarrow> rat exchange \<Rightarrow> rat plugin_page \<times> rat exchange" where
  "plugin_window atoi strtod F g p x =
     (if \<not> pp_window_open p then (p, x)
      else let p1 = p\<lparr>pp_window_appeared := True\<rparr>;
               (p2, x') = (if pw_shown g then render_plugin_spec atoi strtod F (pw_widgets g) p1 x else (p1, x))
           in (p2\<lparr>pp_window_open := \<not> pw_closed g\<rparr>, x'))"

fun plugin_windows ::
  "(bytes \<Rightarrow> int) \<Rightarrow> (bytes \<Rightarrow> rat) \<Rightarrow> formats \<Rightarrow> (nat \<Rightarrow> plugin_gui) \<Rightarrow> nat \<Rightarrow> rat plugin_page list \<Rightarrow> rat exchange \<Rightarrow>
   rat plugin_page list \<times> rat exchange" where
  "plugin_windows atoi strtod F g i [] x = ([], x)"
| "plugin_windows atoi strtod F g i (p # ps) x =
     (case plugin_window atoi strtod F (g i) p x of (p', x1) \<Rightarrow>
      case plugin_windows atoi strtod F g (i + 1) ps x1 of (ps', x2) \<Rightarrow> (p' # ps', x2))"

definition plugin_windows_content ::
  "(bytes \<Rightarrow> int) \<Rightarrow> (bytes \<Rightarrow> rat) \<Rightarrow> formats \<Rightarrow> (nat \<Rightarrow> plugin_gui) \<Rightarrow> rat exchange \<Rightarrow> rat exchange" where
  "plugin_windows_content atoi strtod F g x =
     (case plugin_windows atoi strtod F g 0 (ex_pages x) x of (ps, x') \<Rightarrow> x'\<lparr>ex_pages := ps\<rparr>)"

section \<open>The whole frame\<close>

record 'f console =
  cs_bridge :: bridge
  cs_exchange :: "rat exchange"
  cs_display :: panel_options
  cs_transmit :: transmit
  cs_connection :: connection
  cs_scope :: "(rat, 'f) scope"
  cs_window :: scope_window

record console_input =
  ci_gui :: gui
  ci_receive :: frame_input
  ci_selection :: "(nat \<times> nat) option"    \<comment> \<open>in the text field whose menu is open\<close>
  ci_scope :: scope_gui
  ci_plugins :: "nat \<Rightarrow> plugin_gui"
  ci_atoi :: "bytes \<Rightarrow> int"
  ci_strtod :: "bytes \<Rightarrow> rat"
  ci_formats :: formats

text \<open>The receive panel: its icons, the log, and the log's context menu (not drawn for an empty log).\<close>

definition receive_content :: "console_input \<Rightarrow> 'f console \<Rightarrow> u32 \<times> 'f console" where
  "receive_content I s =
     (let v = br_view (cs_bridge s);
          s1 = s\<lparr>cs_bridge := (cs_bridge s)\<lparr>br_view := receive_frame (ci_receive I) v\<rparr>\<rparr>
      in if rv_text v = [] then (receive_icons (ci_gui I), s1)
         else case receive_menu (ci_gui I) (rv_text (br_view (cs_bridge s1)) \<noteq> []) (cs_display s1) of
             (acts, d) \<Rightarrow> (receive_icons (ci_gui I) OR acts, s1\<lparr>cs_display := d\<rparr>))"

definition monitor_column :: "console_input \<Rightarrow> bool \<Rightarrow> 'f console \<Rightarrow> u32 \<times> 'f console" where
  "monitor_column I online s =
     (if \<not> gu_shows (ci_gui I) ''##monitor_column'' then (0, s)
      else let (a1, s1) = receive_content I s;
               (a2, m) = transmit_content (ci_gui I) (ex_history (cs_exchange s1)) (ci_selection I) online (cs_transmit s1)
           in (a1 OR a2, s1\<lparr>cs_transmit := m\<rparr>))"

definition dashboard :: "console_input \<Rightarrow> bool \<Rightarrow> 'f console \<Rightarrow> (u32 \<times> 'f console) option" where
  "dashboard I online s =
     (if \<not> gu_shows (ci_gui I) ''##xcom_dashboard'' then Some (0, s)
      else let (a1, x) = header_content (ci_gui I) (cs_exchange s);
               (a2, s1) = monitor_column I online (s\<lparr>cs_exchange := x\<rparr>)
           in map_option (\<lambda>(a3, p, d). (a1 OR a2 OR a3, s1\<lparr>cs_connection := p, cs_display := d\<rparr>))
                (connection_content (ci_gui I) (br_ports (cs_bridge s1)) online (cs_connection s1) (cs_display s1)))"

definition floating_windows :: "console_input \<Rightarrow> 'f console \<Rightarrow> u32 \<times> 'f console" where
  "floating_windows I s =
     (let (a1, x1) = script_console_content (ci_gui I) (cs_exchange s);
          (a2, sp, w) = scope_content (ci_gui I) (ci_scope I) (cs_scope s) (cs_window s);
          (a3, b, x2) = settings_content (ci_gui I) (cs_bridge s) x1;
          x3 = plugin_windows_content (ci_atoi I) (ci_strtod I) (ci_formats I) (ci_plugins I) x2
      in (a1 OR a2 OR a3, s\<lparr>cs_bridge := b, cs_exchange := x3, cs_scope := sp, cs_window := w\<rparr>))"

section \<open>What the client lends\<close>

text \<open>The optional values of the panels, present once the client registered them (a null takes one away).\<close>

definition xcom_imgui_set_open_lines :: "nat \<Rightarrow> int option \<Rightarrow> int option \<Rightarrow> 'f console \<Rightarrow> 'f console" where
  "xcom_imgui_set_open_lines tid dtr rts s =
     (if extension_ready tid (cs_bridge s)
      then s\<lparr>cs_connection := (cs_connection s)\<lparr>co_dtr_open := dtr, co_rts_open := rts\<rparr>\<rparr> else s)"

definition xcom_imgui_set_multi_extra :: "nat \<Rightarrow> int option \<Rightarrow> 'f console \<Rightarrow> 'f console" where
  "xcom_imgui_set_multi_extra tid gap s =
     (if extension_ready tid (cs_bridge s) then s\<lparr>cs_transmit := (cs_transmit s)\<lparr>mt_gap := gap\<rparr>\<rparr> else s)"

definition xcom_imgui_set_charset :: "nat \<Rightarrow> int option \<Rightarrow> 'f console \<Rightarrow> 'f console" where
  "xcom_imgui_set_charset tid index s =
     (if extension_ready tid (cs_bridge s) then s\<lparr>cs_display := (cs_display s)\<lparr>do_charset := index\<rparr>\<rparr> else s)"

definition xcom_imgui_set_frame_gap :: "nat \<Rightarrow> int option \<Rightarrow> int option \<Rightarrow> 'f console \<Rightarrow> 'f console" where
  "xcom_imgui_set_frame_gap tid enabled ms s =
     (if extension_ready tid (cs_bridge s)
      then s\<lparr>cs_display := (cs_display s)\<lparr>do_frame_gap := (case (enabled, ms) of (Some e, Some m) \<Rightarrow> Some (e, m) | _ \<Rightarrow> None)\<rparr>\<rparr>
      else s)"

text \<open>
  The top of a frame. The one flag that asks for a rebuild of the fonts is shared: \<open>ex_rebuild\<close> is what the script
  lists asked for, \<open>br_rebuild\<close> the rest, and a frame that opens serves and clears both.
\<close>

definition console_new_frame :: "nat \<Rightarrow> bool \<Rightarrow> faces \<Rightarrow> 'f console \<Rightarrow> bool \<times> 'f console" where
  "console_new_frame tid is_window f s =
     (case xcom_imgui_new_frame tid is_window f
             ((cs_bridge s)\<lparr>br_rebuild := br_rebuild (cs_bridge s) \<or> ex_rebuild (cs_exchange s)\<rparr>) of
        (started, b) \<Rightarrow>
          if started then (True, s\<lparr>cs_bridge := b, cs_exchange := (cs_exchange s)\<lparr>ex_rebuild := False\<rparr>\<rparr>) else (False, s))"

definition xcom_imgui_draw_console :: "nat \<Rightarrow> console_input \<Rightarrow> int \<Rightarrow> 'f console \<Rightarrow> (u32 \<times> 'f console) option" where
  "xcom_imgui_draw_console tid I online s =
     (if \<not> draw_guard tid (cs_bridge s) then Some (0, s)
      else map_option (\<lambda>(a1, s1). case floating_windows I s1 of (a2, s2) \<Rightarrow> (a1 OR a2, s2)) (dashboard I (online \<noteq> 0) s))"

end
