(* ===== verification/Window_Facts.thy ===== *)
theory Window_Facts
  imports Console_Frame Console_Facts Frame_Facts
begin

text \<open>
  Properties of a whole frame of the console: what it can report while nothing can be sent, and the way of a
  script from the editor to the client.
\<close>

section \<open>The send gate of the whole frame\<close>

lemma gate_weaken: "only_bits (\<lambda>n. \<not> sends n) w \<Longrightarrow> only_bits (\<lambda>n. sends n \<longrightarrow> Q n) w"
  by (auto simp: only_bits_def)

lemma windows_gate:
  "only_bits (\<lambda>n. \<not> sends n) (fst (script_console_content g x))"
  "only_bits (\<lambda>n. \<not> sends n) (fst (scope_content g sg sp w))"
  "only_bits (\<lambda>n. \<not> sends n) (fst (settings_content g b x))"
  by (auto simp: script_console_content_def scope_content_def settings_content_def Let_def intro!: only_bits_mask only_bits_0)

lemma floating_gate: "only_bits (\<lambda>n. \<not> sends n) (fst (floating_windows I s))"
  unfolding floating_windows_def Let_def case_prod_unfold fst_conv by (intro only_bits_or windows_gate)

lemma receive_gate: "only_bits (\<lambda>n. \<not> sends n) (fst (receive_content I s))"
  unfolding receive_content_def Let_def case_prod_unfold
  by (auto intro!: only_bits_or icons_gate menu_gate)

lemma monitor_gate:
  "only_bits (\<lambda>n. sends n \<longrightarrow> n = 3 \<and> gu_click (ci_gui I) ''##send'') (fst (monitor_column I False s))"
proof -
  have "only_bits (\<lambda>n. sends n \<longrightarrow> n = 3 \<and> gu_click (ci_gui I) ''##send'') (fst (receive_content I s))"
    by (rule gate_weaken [OF receive_gate])
  then show ?thesis
    unfolding monitor_column_def Let_def case_prod_unfold by (auto intro!: only_bits_or transmit_gate only_bits_0)
qed

lemma dashboard_gate:
  assumes "dashboard I False s = Some (acts, s')"
  shows "only_bits (\<lambda>n. sends n \<longrightarrow> n = 3 \<and> gu_click (ci_gui I) ''##send'') acts"
proof (cases "gu_shows (ci_gui I) ''##xcom_dashboard''")
  case False
  then show ?thesis using assms by (simp add: dashboard_def only_bits_0)
next
  case True
  obtain a1 x where h: "header_content (ci_gui I) (cs_exchange s) = (a1, x)" by (meson surj_pair)
  obtain a2 s1 where m: "monitor_column I False (s\<lparr>cs_exchange := x\<rparr>) = (a2, s1)" by (meson surj_pair)
  obtain a3 r where c: "connection_content (ci_gui I) (br_ports (cs_bridge s1)) False (cs_connection s1) (cs_display s1) = Some (a3, r)"
    and acts: "acts = a1 OR a2 OR a3"
    using assms True by (auto simp: dashboard_def h m or.assoc)
  show ?thesis
    unfolding acts
    using header_gate [of "ci_gui I" "cs_exchange s"] monitor_gate [of I "s\<lparr>cs_exchange := x\<rparr>"] port_gate [OF c]
    by (intro only_bits_or) (simp_all add: h m gate_weaken)
qed

text \<open>
  C7 (closed_port_sends_nothing). While the client says that nothing can be sent, a frame of the console reports no action
  that sends, whatever the user does to any widget of any window, with one exception: the enter key of the send
  box, which is not gated.
\<close>

theorem closed_port_sends_nothing:
  assumes "xcom_imgui_draw_console tid I 0 s = Some (acts, s')" "sends n" "bit acts n"
  shows "n = 3 \<and> gu_click (ci_gui I) ''##send''"
proof -
  have "only_bits (\<lambda>n. sends n \<longrightarrow> n = 3 \<and> gu_click (ci_gui I) ''##send'') acts"
  proof (cases "draw_guard tid (cs_bridge s)")
    case False
    then show ?thesis using assms(1) by (simp add: xcom_imgui_draw_console_def only_bits_0)
  next
    case True
    then obtain a1 s1 where d1: "dashboard I False s = Some (a1, s1)"
      using assms(1) by (auto simp: xcom_imgui_draw_console_def)
    obtain a2 s2 where d2: "floating_windows I s1 = (a2, s2)" by (meson surj_pair)
    have "acts = a1 OR a2" using assms(1) True by (simp add: xcom_imgui_draw_console_def d1 d2)
    note d = d1 d2 this
    show ?thesis
      unfolding d(3) using dashboard_gate [OF d(1)] floating_gate [of I s1] d(2) by (intro only_bits_or) (simp_all add: gate_weaken)
  qed
  then show ?thesis using assms(2,3) bit_imp_le_length [OF assms(3)] by (auto simp: only_bits_def)
qed

text \<open>The enter key is pressed in the send box of a console whose port is closed.\<close>

definition enter_gui :: gui where
  "enter_gui = \<lparr>gu_shows = (\<lambda>i. i \<in> {''##xcom_dashboard'', ''##monitor_column'', ''##transmit_tabs'', ''tab_single''}),
     gu_click = (\<lambda>i. i = ''##send''), gu_pick = (\<lambda>_. None), gu_int = (\<lambda>_. None), gu_text = (\<lambda>_. None)\<rparr>"

definition enter_input :: console_input where
  "enter_input = \<lparr>ci_gui = enter_gui,
     ci_receive = \<lparr>fi_clicks = 0, fi_shift = False, fi_mouse_down = False, fi_select_all = False, fi_copy = False, fi_at_bottom = True,
       fi_rows = [], fi_menu = None\<rparr>,
     ci_selection = None, ci_scope = \<lparr>sg_history = None, sg_follow = False, sg_plot = False, sg_view_max = 0, sg_cursor_a = None, sg_cursor_b = None\<rparr>,
     ci_plugins = (\<lambda>_. \<lparr>pw_shown = False, pw_closed = False, pw_widgets = \<lparr>pg_click = (\<lambda>_. False), pg_slide = (\<lambda>_. None), pg_pick = (\<lambda>_. None)\<rparr>\<rparr>),
     ci_atoi = (\<lambda>_. 0), ci_strtod = (\<lambda>_. 0), ci_formats = \<lparr>fm_g = (\<lambda>_. []), fm_d = (\<lambda>_. []), fm_narrow = (\<lambda>v. v)\<rparr>\<rparr>"

definition enter_console :: "rat console" where
  "enter_console = \<lparr>cs_bridge = bridge_fresh\<lparr>br_initialized := True, br_frame_active := True, br_owner := 7\<rparr>, cs_exchange = exchange_init,
     cs_display = options_off,
     cs_transmit = \<lparr>tx_hex = 0, tx_crlf = 0, tx_auto = 0, tx_period = 0, tx_text = [0x41], tx_capacity = 4, mt_hex = 0, mt_crlf = 0,
       mt_enabled = replicate 8 0, mt_texts = replicate 8 [], mt_capacity = 8, mt_auto = 0, mt_period = 0, mt_gap = Some 0, tx_clipboard = None\<rparr>,
     cs_connection = panel_8n15, cs_scope = scope_init 0 0,
     cs_window = \<lparr>sw_history = 10, sw_follow = True, sw_y_fit = False, sw_cursor_a = 0, sw_cursor_b = 0\<rparr>\<rparr>"

lemma enter_parts:
  "fst (receive_content enter_input s) = 0"
  "transmit_content enter_gui h sel False (cs_transmit enter_console) = (8, cs_transmit enter_console)"
  "connection_content enter_gui ports False p d = Some (0, p, d)"
  "header_content enter_gui x = (0, x)"
  "fst (floating_windows enter_input s) = 0"
  by (simp_all add: receive_content_def enter_input_def enter_gui_def enter_console_def receive_icons_def receive_menu_def transmit_content_def single_tab_def toggle_def button_def command_def action_mask_def input_int_def input_text_def
      text_context_menu_def connection_content_def port_combo_def serial_grid_def receive_toolbar_def header_content_def
      floating_windows_def script_console_content_def scope_content_def settings_content_def Let_def case_prod_unfold)

lemma enter_unchanged:
  "cs_transmit (snd (receive_content I s)) = cs_transmit s" "cs_exchange (snd (receive_content I s)) = cs_exchange s"
  by (simp_all add: receive_content_def Let_def case_prod_unfold)

lemma enter_frame: "\<exists>s'. xcom_imgui_draw_console 7 enter_input 0 enter_console = Some (8, s')"
proof -
  have g: "ci_gui enter_input = enter_gui" "ci_selection enter_input = None" by (simp_all add: enter_input_def)
  have "\<exists>s'. dashboard enter_input False enter_console = Some (8, s')"
    by (simp add: dashboard_def monitor_column_def g enter_parts enter_unchanged case_prod_unfold Let_def)
      (simp add: enter_gui_def)
  then show ?thesis
    by (auto simp: xcom_imgui_draw_console_def draw_guard_def enter_console_def bridge_fresh_def case_prod_unfold enter_parts)
qed

theorem closed_port_sends_nothing_witness:
  "(\<exists>s'. xcom_imgui_draw_console 7 enter_input 0 enter_console = Some (8, s')) \<and> gu_click (ci_gui enter_input) ''##send''"
proof -
  obtain s' where f: "xcom_imgui_draw_console 7 enter_input 0 enter_console = Some (8, s')" using enter_frame by blast
  have "sends 3" "bit (8 :: u32) 3" by (simp_all add: sends_def)
  from closed_port_sends_nothing [OF f this] f show ?thesis by blast
qed

section \<open>From the editor to the client\<close>

lemma text_before_null: "0 \<notin> set t \<Longrightarrow> takeWhile (\<lambda>c. c \<noteq> 0) (t @ 0 # r) = (t :: bytes)"
  by (induction t) auto

lemma resize_text: "\<exists>r. script_editor_resize buf t = t @ 0 # r \<and> length (t @ 0 # r) = max (length buf) (length t + 1)"
  by (auto simp: script_editor_resize_def Let_def max_def)

text \<open>
  A script that is edited and saved reaches the client as it stands in the editor: when the
  client's buffer holds the editor's, the text up to its null is the text typed, even after an edit that made
  it shorter, and the save consumes its own event and no other.
\<close>

theorem editor_save_roundtrip:
  assumes "0 \<notin> set t" "list_all (\<lambda>e. \<not> is_save_event e) (ex_events x)" "0 < path_cap"
    "int (max (length (ex_edit_buf x)) (length t + 1)) < cap"
    "script_take_editor_save True (Some (path_cap, cap))
       (script_save_key (x\<lparr>ex_edit_buf := script_editor_resize (ex_edit_buf x) t\<rparr>)) = (saved, x')"
  shows "(\<exists>path text. saved = Some (path, text) \<and> takeWhile (\<lambda>c. c \<noteq> 0) text = t) \<and> ex_events x' = ex_events x"
proof -
  obtain r where r: "script_editor_resize (ex_edit_buf x) t = t @ 0 # r"
    "length (t @ 0 # r) = max (length (ex_edit_buf x)) (length t + 1)" using resize_text by blast
  let ?save = "push_bit 8 (script_event_code SeEdit) OR 0x40"
  have s: "is_save_event ?save" by (simp add: is_save_event_def)
  have d: "dropWhile (\<lambda>e. \<not> is_save_event e) (ex_events x @ [?save]) = [?save]"
    "takeWhile (\<lambda>e. \<not> is_save_event e) (ex_events x @ [?save]) = ex_events x"
    using assms(2) s by (simp_all add: list_all_iff dropWhile_append2 takeWhile_append2)
  have fits: "int (length (t @ 0 # r)) < cap" using assms(4) r(2) by simp
  have cap: "0 < cap" using fits by linarith
  show ?thesis
    using assms(3,5) fits cap text_before_null [OF assms(1)] d
    by (auto simp: script_take_editor_save_def script_save_key_def r(1) Let_def simp del: script_event_code.simps)
qed

theorem editor_save_roundtrip_witness:
  "map_option (takeWhile (\<lambda>c. c \<noteq> 0) \<circ> snd) (fst (script_take_editor_save True (Some (64, 64))
     (script_save_key ((exchange_init :: int exchange)\<lparr>ex_edit_buf := script_editor_resize [] [0x41]\<rparr>)))) = Some [0x41]"
proof -
  let ?x = "(exchange_init :: int exchange)\<lparr>ex_edit_buf := []\<rparr>"
  obtain saved x' where t: "script_take_editor_save True (Some (64, 64)) (script_save_key (?x\<lparr>ex_edit_buf := script_editor_resize (ex_edit_buf ?x) [0x41]\<rparr>)) = (saved, x')"
    by (meson surj_pair)
  have "(0::u8) \<notin> set [0x41]" "list_all (\<lambda>e. \<not> is_save_event e) (ex_events ?x)" "(0::int) < 64"
    "int (max (length (ex_edit_buf ?x)) (length [0x41 :: u8] + 1)) < 64" by (simp_all add: exchange_init_def)
  from editor_save_roundtrip [OF this t] show ?thesis using t by auto
qed

section \<open>A lost render target\<close>

definition init_works :: init_answers where
  "init_works = init_backend_fails\<lparr>ia_win32 := True\<rparr>"

definition bridge_lost_target :: bridge where
  "bridge_lost_target = xcom_imgui_wndproc \<lparr>wm_own = True, wm_thread = 7, wm_size = Some (800, 600), wm_resized = False, wm_target = False\<rparr>
     (snd (xcom_imgui_init init_works bridge_fresh))"

lemma bridge_lost: "resources_ok bridge_lost_target" "br_initialized bridge_lost_target" "\<not> br_frame_active bridge_lost_target"
  "\<not> br_target bridge_lost_target"
  by (simp_all add: bridge_lost_target_def xcom_imgui_init_def init_works_def init_backend_fails_def bridge_fresh_def init_devices_def
      create_render_target_def init_gui_def call_def warm_up_def rebuild_fonts_def Let_def xcom_imgui_wndproc_def
      cleanup_render_target_def resources_ok_def)

text \<open>The next resize makes a target again, and still no frame is shown.\<close>

theorem lost_target_freezes_window_witness:
  "list_all Not (fst (window_events
     [Message \<lparr>wm_own = True, wm_thread = 7, wm_size = Some (900, 700), wm_resized = True, wm_target = True\<rparr>,
      Poll 7 True (ia_faces init_works), Poll 7 True (ia_faces init_works)]
     (snd (client_poll (br_owner bridge_lost_target) True (ia_faces init_works) bridge_lost_target))))"
  using lost_target_freezes_window [OF bridge_lost surjective_pairing] by blast

end
