(* ===== verification/Console_Types.thy ===== *)
theory Console_Types
  imports Receive_View_Facts Bridge_Facts Window_Facts
begin

text \<open>
  The well-formedness of the console: what every function of the client and every frame keeps of the state they
  share, so that no index of a frame is out of range, no text outgrows its buffer and every buffer that is read
  as a C string has its null.
\<close>

section \<open>The receive log\<close>

definition log_view_ok :: "receive_view \<Rightarrow> bool" where
  "log_view_ok v \<longleftrightarrow> rv_offsets v = 0 # scan_lines 0 (rv_text v) \<and> kWindowMin - 1 \<le> rv_limit v \<and> rv_limit v < kWindowMax \<and>
     length (rv_text v) \<le> rv_limit v + kDragTrimSlack"

lemma view_ok_part: "text_part v = text_part v' \<Longrightarrow> log_view_ok v \<longleftrightarrow> log_view_ok v'"
  by (simp add: text_part_def log_view_ok_def)

lemma trim_view_ok:
  assumes "rv_offsets v = 0 # scan_lines 0 (rv_text v)" "kWindowMin - 1 \<le> rv_limit v" "rv_limit v < kWindowMax"
    "rv_limit v < length (rv_text v)"
  shows "log_view_ok (trim_prefix v)"
  using assms trim_offsets_line_starts [of "length (rv_text v) - rv_limit v" "rv_text v"]
  by (simp add: log_view_ok_def trim_prefix_def Let_def)

lemma release_drag_ok:
  assumes "log_view_ok v"
  shows "log_view_ok (release_drag I v)"
proof -
  let ?v2 = "if \<not> rv_drag_hit (v\<lparr>rv_anchor := NoAnchor\<rparr>)
    then (v\<lparr>rv_anchor := NoAnchor\<rparr>)\<lparr>rv_sel_begin := 0, rv_sel_end := 0\<rparr> else v\<lparr>rv_anchor := NoAnchor\<rparr>"
  have "text_part ?v2 = text_part v" by (simp add: text_part_def)
  then have 2: "log_view_ok ?v2" using assms view_ok_part by blast
  then have "log_view_ok (if length (rv_text ?v2) > rv_limit ?v2 then trim_prefix ?v2 else ?v2)"
    using trim_view_ok [of ?v2] unfolding log_view_ok_def by auto
  then show ?thesis using assms by (simp add: release_drag_def Let_def)
qed

lemma frame_view_ok: "log_view_ok v \<Longrightarrow> log_view_ok (receive_frame I v)"
proof (cases "rv_text v = []")
  case False
  assume v: "log_view_ok v"
  obtain v4 where 4: "text_part v4 = text_part v" "receive_frame I v = menu_action I (release_drag I v4)"
    using frame_split [OF False] by blast
  have "log_view_ok (release_drag I v4)" using v view_ok_part [OF 4(1)] release_drag_ok by blast
  then show ?thesis unfolding 4(2) using view_ok_part [OF menu_part] by blast
qed (simp add: log_view_ok_def receive_frame_def clear_selection_def)

lemma append_view_ok:
  assumes "log_view_ok v"
  shows "log_view_ok (receive_append ready delta v)"
proof (cases delta)
  case (Some d)
  let ?v1 = "v\<lparr>rv_text := rv_text v @ d, rv_offsets := rv_offsets v @ scan_lines (length (rv_text v)) d\<rparr>"
  have o: "rv_offsets ?v1 = 0 # scan_lines 0 (rv_text ?v1)" using assms by (simp add: log_view_ok_def scan_lines_append)
  then show ?thesis
    using assms Some trim_view_ok [of ?v1]
    by (auto simp: receive_append_def Let_def log_view_ok_def)
qed (use assms in \<open>simp add: receive_append_def\<close>)

lemma window_view_ok:
  assumes "log_view_ok v"
  shows "log_view_ok (set_receive_window ready n v)"
proof -
  let ?b1 = "if n < kWindowMin then kWindowMin else n"
  let ?b = "if ?b1 > kWindowMax then kWindowMax else ?b1"
  let ?v1 = "v\<lparr>rv_limit := ?b - 1\<rparr>"
  have o: "rv_offsets ?v1 = 0 # scan_lines 0 (rv_text ?v1)" "kWindowMin - 1 \<le> rv_limit ?v1" "rv_limit ?v1 < kWindowMax"
    using assms by (auto simp: log_view_ok_def)
  have "log_view_ok (if length (rv_text ?v1) > rv_limit ?v1 then trim_prefix ?v1 else ?v1)"
    using trim_view_ok [OF o] o unfolding log_view_ok_def by auto
  then show ?thesis
    using assms unfolding set_receive_window_def Let_def
    by (cases ready) (simp_all only: not_True_eq_False not_False_eq_True if_True if_False)
qed

lemma text_view_ok: "log_view_ok v \<Longrightarrow> log_view_ok (set_receive_text ready input v)"
  by (auto simp: set_receive_text_def clear_selection_def log_view_ok_def Let_def split: option.split)

section \<open>The exchange\<close>

text \<open>
  Labels, descriptions and switches are as long as the list of scripts, or absent; a log has its index; the
  command line, the queue of plugin events and the values of a page keep to their capacities; the editor's
  text has its null.
\<close>

definition exchange_ok :: "'d exchange \<Rightarrow> bool" where
  "exchange_ok x \<longleftrightarrow>
     (\<forall>ls\<in>{ex_labels x, ex_descs x}. ls = [] \<or> length ls = length (ex_names x)) \<and>
     pred_option (\<lambda>en. length en = length (ex_names x)) (ex_enabled x) \<and>
     ex_log_lines x = 0 # scan_lines 0 (ex_log x) \<and> length (ex_log x) \<le> kLogLimit \<and>
     length (ex_command x) < kCommandMax \<and> 0 \<in> set (ex_edit_buf x) \<and>
     length (ex_plugin_events x) \<le> kMaxQueued \<and> length (ex_rules x) \<le> 32 \<and>
     list_all (\<lambda>p. length (pp_values p) = kWidgetsMax) (ex_pages x)"

text \<open>What the client calls between frames; it lends one switch for each script of the list.\<close>

inductive exchange_step :: "('d :: zero) exchange \<Rightarrow> 'd exchange \<Rightarrow> bool" where
  es_history: "set_send_history ready packed count x = Some x' \<Longrightarrow> exchange_step x x'"
| es_rules: "set_highlight_rules ready packed count x = Some x' \<Longrightarrow> exchange_step x x'"
| es_scripts: "set_scripts ready packed enabled count x = Some x' \<Longrightarrow> pred_option (\<lambda>en. length en = nat count) enabled \<Longrightarrow> exchange_step x x'"
| es_labels: "set_script_labels ready packed x = Some x' \<Longrightarrow> exchange_step x x'"
| es_descs: "set_script_descs ready packed count x = Some x' \<Longrightarrow> exchange_step x x'"
| es_log: "exchange_step x (set_script_log ready input x)"
| es_visible: "exchange_step x (set_scripts_visible ready v x)"
| es_settings: "exchange_step x (set_settings_visible ready v x)"
| es_events: "exchange_step x (snd (take_script_events ready out x))"
| es_command: "exchange_step x (snd (script_take_command ready out x))"
| es_load: "exchange_step x (script_load_editor ready path content x)"
| es_select: "exchange_step x (script_select ready index x)"
| es_save: "exchange_step x (snd (script_take_editor_save ready caps x))"
| es_page: "exchange_step x (set_plugin_page ready page title spec x)"
| es_plugin: "exchange_step x (snd (take_plugin_events ready out x))"

declare kWidgetsMax_def [simp del] kLogLimit_def [simp del] kCommandMax_def [simp del] kMaxQueued_def [simp del]

lemma c_tokens_length: "c_tokens n buf = Some ts \<Longrightarrow> length ts = n"
  by (induction n arbitrary: buf ts) (auto split: option.splits)

lemma parse_rules_length: "parse_rules n buf = Some rs \<Longrightarrow> length rs = n"
  by (induction n arbitrary: buf rs) (auto split: option.splits)

lemma upsert_values:
  "list_all (\<lambda>p. length (pp_values p) = kWidgetsMax) ps \<Longrightarrow>
   list_all (\<lambda>p. length (pp_values p) = kWidgetsMax) (upsert_page i title spec ps)"
  by (induction ps) (simp_all split: option.split)

lemma rules_only:
  assumes "set_highlight_rules ready packed count x = Some x'" "length (ex_rules x) \<le> 32"
  shows "\<exists>rs. x' = x\<lparr>ex_rules := rs\<rparr> \<and> length rs \<le> 32"
proof -
  have none: "length [] \<le> (32 :: nat)" "x = x\<lparr>ex_rules := ex_rules x\<rparr>" by simp_all
  let ?n = "nat (if count > 32 then 32 else count)"
  consider "x' = x" | "x' = x\<lparr>ex_rules := []\<rparr>" | buf rs where "parse_rules ?n buf = Some rs" "x' = x\<lparr>ex_rules := rs\<rparr>"
    using assms(1) unfolding set_highlight_rules_def Let_def by (auto simp: map_option_eq_Some split: if_splits option.splits)
  then show ?thesis
  proof cases
    case (3 buf rs)
    then have "length rs \<le> 32" using parse_rules_length [OF 3(1)] by (cases "32 < count") simp_all
    then show ?thesis using 3(2) by blast
  qed (use none assms(2) in metis)+
qed

lemma descs_only:
  assumes "set_script_descs ready packed count x = Some x'"
  shows "x' = x \<or> (\<exists>ds. (ds = [] \<or> length ds = length (ex_names x)) \<and> x' = x\<lparr>ex_descs := ds, ex_rebuild := True\<rparr>)"
proof (cases ready)
  case True
  let ?take = "\<lambda>buf. if count > 0 \<and> count = int (length (ex_names x)) then c_tokens (nat count) buf else Some []"
  obtain ds where ds: "(case packed of None \<Rightarrow> Some [] | Some buf \<Rightarrow> ?take buf) = Some ds"
    and x': "x' = (if ds = ex_descs x then x else x\<lparr>ex_descs := ds, ex_rebuild := True\<rparr>)"
    using assms True unfolding set_script_descs_def by (auto simp only: map_option_eq_Some not_True_eq_False if_False)
  have "ds = [] \<or> length ds = length (ex_names x)"
  proof (cases "packed = None \<or> \<not> (count > 0 \<and> count = int (length (ex_names x)))")
    case False
    then obtain buf where buf: "packed = Some buf" and n: "count > 0 \<and> count = int (length (ex_names x))" by auto
    have "c_tokens (nat count) buf = Some ds" using ds unfolding buf option.case if_P [OF n] .
    from c_tokens_length [OF this] show ?thesis using False by simp
  qed (use ds in \<open>auto split: option.splits\<close>)
  then show ?thesis unfolding x' by (cases "ds = ex_descs x") auto
qed (use assms in \<open>simp add: set_script_descs_def\<close>)

lemma null_added: "0 \<in> set (if buf = [] \<or> last buf \<noteq> 0 then buf @ [0] else buf :: bytes)"
  by (cases buf rule: rev_cases) simp_all

lemma exchange_ok_edit: "exchange_ok x \<Longrightarrow> 0 \<in> set b \<Longrightarrow> exchange_ok (x\<lparr>ex_edit_path := p, ex_edit_buf := b, ex_edit_dirty := d\<rparr>)"
  by (simp add: exchange_ok_def)

lemma labels_only:
  assumes "set_script_labels ready packed x = Some x'"
  shows "x' = x \<or> (\<exists>ls. (ls = [] \<or> length ls = length (ex_names x)) \<and> x' = x\<lparr>ex_labels := ls, ex_rebuild := True\<rparr>)"
proof (cases ready)
  case True
  obtain ts where x': "x' = (let ls = (if ts \<noteq> [] \<and> length ts \<noteq> length (ex_names x) then [] else ts)
      in if ls = ex_labels x then x else x\<lparr>ex_labels := ls, ex_rebuild := True\<rparr>)"
    using assms True unfolding set_script_labels_def by (auto simp only: map_option_eq_Some not_True_eq_False if_False)
  define ls where "ls = (if ts \<noteq> [] \<and> length ts \<noteq> length (ex_names x) then [] else ts)"
  have "ls = [] \<or> length ls = length (ex_names x)" by (simp add: ls_def)
  then show ?thesis unfolding x' Let_def ls_def [symmetric] by (cases "ls = ex_labels x") auto
qed (use assms in \<open>simp add: set_script_labels_def\<close>)

lemma exchange_step_ok: "exchange_step x x' \<Longrightarrow> exchange_ok x \<Longrightarrow> exchange_ok x'"
proof (induction rule: exchange_step.induct)
  case (es_rules ready packed count x x')
  have "length (ex_rules x) \<le> 32" using es_rules(2) by (simp add: exchange_ok_def)
  with rules_only [OF es_rules(1)] show ?case using es_rules(2) by (auto simp: exchange_ok_def)
next
  case (es_scripts ready packed enabled count x x')
  then show ?case
    by (auto simp: set_scripts_def exchange_ok_def Let_def dest!: c_tokens_length split: if_splits option.splits)
next
  case (es_descs ready packed count x x')
  then show ?case using descs_only [OF es_descs(1)] by (auto simp: exchange_ok_def)
next
  case (es_page x ready page title spec)
  then show ?case
    by (auto simp: set_plugin_page_def exchange_ok_def upsert_values split: option.split)
next
  case (es_history ready packed count x x')
  then show ?case by (auto simp: set_send_history_def exchange_ok_def Let_def split: if_splits option.splits)
next
  case (es_labels ready packed x x')
  then show ?case using labels_only [OF es_labels(1)] by (auto simp: exchange_ok_def)
next
  case (es_log x ready input)
  then show ?case by (auto simp: set_script_log_def exchange_ok_def Let_def split: option.split)
next
  case (es_visible x ready v)
  then show ?case by (simp add: set_scripts_visible_def exchange_ok_def)
next
  case (es_settings x ready v)
  then show ?case by (simp add: set_settings_visible_def exchange_ok_def)
next
  case (es_events x ready out)
  then show ?case by (simp add: take_script_events_def exchange_ok_def Let_def split: option.split)
next
  case (es_command x ready out)
  then show ?case by (simp add: script_take_command_def exchange_ok_def Let_def split: option.split)
next
  case (es_load x ready path content)
  then show ?case
    unfolding script_load_editor_def Let_def
    by (cases ready) (simp_all only: exchange_ok_edit [OF _ null_added] not_True_eq_False not_False_eq_True if_True if_False)
next
  case (es_select x ready index)
  then show ?case by (simp add: script_select_def exchange_ok_def Let_def)
next
  case (es_save x ready caps)
  then show ?case by (auto simp: script_take_editor_save_def exchange_ok_def Let_def split: option.split list.split)
next
  case (es_plugin x ready out)
  then show ?case by (auto simp: take_plugin_events_def exchange_ok_def split: option.split prod.split)
qed

section \<open>A frame of the exchange\<close>

lemma header_ok: "exchange_ok x \<Longrightarrow> exchange_ok (snd (header_content g x))"
  by (simp add: header_content_def exchange_ok_def Let_def)

lemma events_ok: "exchange_ok x \<Longrightarrow> exchange_ok (script_button e x)" "exchange_ok x \<Longrightarrow> exchange_ok (script_pick i x)"
  "exchange_ok x \<Longrightarrow> exchange_ok (script_save_key x)"
  by (simp_all add: script_button_def script_pick_def script_save_key_def exchange_ok_def)

lemma toolbar_ok: "exchange_ok x \<Longrightarrow> exchange_ok (script_toolbar g x)"
  by (simp add: script_toolbar_def Let_def events_ok)

lemma row_ok: "exchange_ok x \<Longrightarrow> exchange_ok (script_row g i x)"
proof -
  assume x: "exchange_ok x"
  then have "exchange_ok (x\<lparr>ex_enabled := Some (en[i := v])\<rparr>)" if "ex_enabled x = Some en" for en v
    using that by (simp add: exchange_ok_def)
  then show ?thesis using x by (auto simp: script_row_def Let_def events_ok split: option.split)
qed

lemma rows_ok: "exchange_ok x \<Longrightarrow> exchange_ok (fold (script_row g) is x)"
  by (induction "is" arbitrary: x) (simp_all add: row_ok)

lemma edit_ok: "exchange_ok x \<Longrightarrow> exchange_ok (x\<lparr>ex_edit_buf := script_editor_resize b t, ex_edit_dirty := True\<rparr>)"
  by (simp add: exchange_ok_def script_editor_resize_def Let_def)

lemma body_ok: "exchange_ok x \<Longrightarrow> exchange_ok (script_body g x)"
  by (auto simp: script_body_def Let_def rows_ok edit_ok split: option.split)

lemma repl_ok:
  assumes "exchange_ok x"
  shows "exchange_ok (script_repl g x)"
proof -
  have "length (snd (input_text ''##repl'' kCommandMax (ex_command x) g)) < kCommandMax"
    using assms input_text_fits by (simp add: exchange_ok_def)
  then show ?thesis using assms by (simp add: script_repl_def exchange_ok_def Let_def)
qed

lemma closed_ok: "exchange_ok x \<Longrightarrow> exchange_ok (x\<lparr>ex_scripts_visible := v\<rparr>)" "exchange_ok x \<Longrightarrow> exchange_ok (x\<lparr>ex_settings_visible := v\<rparr>)"
  by (simp_all add: exchange_ok_def)

lemma scripts_ok: "exchange_ok x \<Longrightarrow> exchange_ok (snd (script_console_content g x))"
  by (auto simp: script_console_content_def Let_def toolbar_ok body_ok repl_ok closed_ok)

lemma pages_ok:
  "exchange_ok x \<Longrightarrow> map (\<lambda>p. length (pp_values p)) ps = map (\<lambda>p. length (pp_values p)) (ex_pages x) \<Longrightarrow>
   length q \<le> kMaxQueued \<Longrightarrow> exchange_ok (x\<lparr>ex_plugin_events := q, ex_pages := ps\<rparr>)"
  by (simp add: exchange_ok_def list_all_length map_equality_iff)

lemma settings_ok: "exchange_ok x \<Longrightarrow> exchange_ok (snd (snd (settings_content g b x)))"
proof -
  assume x: "exchange_ok x"
  have "map (\<lambda>p. length (pp_values p)) (map (\<lambda>(i, p). page_toggle g i p) (enumerate 0 (ex_pages x))) = map (\<lambda>p. length (pp_values p)) (ex_pages x)"
    by (rule nth_equalityI) (simp_all add: nth_enumerate_eq page_toggle_def)
  from pages_ok [OF x this, of "ex_plugin_events x"] have "exchange_ok (x\<lparr>ex_pages := map (\<lambda>(i, p). page_toggle g i p) (enumerate 0 (ex_pages x))\<rparr>)"
    using x by (simp add: exchange_ok_def)
  then show ?thesis using x by (simp add: settings_content_def Let_def closed_ok)
qed

text \<open>A page touches nothing of the exchange but the queue of its events.\<close>

definition queues :: "'d exchange \<Rightarrow> 'd exchange \<Rightarrow> bool" where
  "queues x x' \<longleftrightarrow> (\<exists>q. x' = x\<lparr>ex_plugin_events := q\<rparr>)"

lemma queues_refl [simp, intro]: "queues x x"
  unfolding queues_def by (rule exI [of _ "ex_plugin_events x"]) simp

lemma queues_trans: "queues x x' \<Longrightarrow> queues x' x'' \<Longrightarrow> queues x x''"
  by (auto simp: queues_def)

lemma spec_event_queues [simp, intro]: "queues x (spec_event p kind wid val x)"
  by (auto simp: queues_def spec_event_def Let_def)

lemma render_row_queues: "queues (snd s) (snd (render_row F g p n row s))"
  unfolding render_row_def Let_def case_prod_unfold by (auto split: option.split)

lemma render_rows_queues: "queues (snd s) (snd (render_rows F g p n rows s))"
proof (induction rows arbitrary: n s)
  case (Cons row rows)
  show ?case using queues_trans [OF render_row_queues Cons.IH] by simp
qed simp

lemma render_spec_queues: "queues x (snd (render_plugin_spec atoi strtod F g p x))"
  using render_rows_queues [of "(pp_values (if pp_values_ready p then p else load_plugin_defaults atoi strtod p), x)" F g
      "if pp_values_ready p then p else load_plugin_defaults atoi strtod p" 0
      "spec_rows (pp_spec (if pp_values_ready p then p else load_plugin_defaults atoi strtod p))"]
  by (simp add: render_plugin_spec_def Let_def case_prod_unfold)

lemma render_spec_bound:
  "length (ex_plugin_events x) \<le> kMaxQueued \<Longrightarrow>
   length (ex_plugin_events (snd (render_plugin_spec atoi strtod F g p x))) \<le> kMaxQueued"
  using render_spec_frame(1) [of F p x atoi strtod g] unfolding page_frame_def by blast

lemma plugin_window_ok:
  "length (pp_values (fst (plugin_window atoi strtod F g p x))) = length (pp_values p)"
  "length (ex_plugin_events x) \<le> kMaxQueued \<Longrightarrow> length (ex_plugin_events (snd (plugin_window atoi strtod F g p x))) \<le> kMaxQueued"
  "queues x (snd (plugin_window atoi strtod F g p x))"
  unfolding plugin_window_def Let_def case_prod_unfold
  by (simp_all add: render_spec_frame(2) render_spec_bound render_spec_queues)

lemma plugin_windows_ok:
  "map (\<lambda>p. length (pp_values p)) (fst (plugin_windows atoi strtod F g i ps x)) = map (\<lambda>p. length (pp_values p)) ps \<and>
   (length (ex_plugin_events x) \<le> kMaxQueued \<longrightarrow> length (ex_plugin_events (snd (plugin_windows atoi strtod F g i ps x))) \<le> kMaxQueued) \<and>
   queues x (snd (plugin_windows atoi strtod F g i ps x))"
proof (induction ps arbitrary: i x)
  case (Cons p ps)
  obtain p' x1 where w: "plugin_window atoi strtod F (g i) p x = (p', x1)" by (meson surj_pair)
  show ?case
    using Cons.IH [of "i + 1" x1] plugin_window_ok [where atoi = atoi and strtod = strtod and F = F and g = "g i" and p = p and x = x] by (auto simp: w case_prod_unfold intro: queues_trans)
qed simp

lemma plugins_ok:
  assumes "exchange_ok x"
  shows "exchange_ok (plugin_windows_content atoi strtod F g x)"
proof -
  obtain ps x' where w: "plugin_windows atoi strtod F g 0 (ex_pages x) x = (ps, x')" by (meson surj_pair)
  note f = plugin_windows_ok [of atoi strtod F g 0 "ex_pages x" x, unfolded w fst_conv snd_conv]
  obtain q where q: "x' = x\<lparr>ex_plugin_events := q\<rparr>" using f unfolding queues_def by blast
  have b: "length (ex_plugin_events x) \<le> kMaxQueued" using assms by (simp add: exchange_ok_def)
  have "length q \<le> kMaxQueued" using f b q by simp
  from pages_ok [OF assms _ this, of ps] f have "exchange_ok (x\<lparr>ex_plugin_events := q, ex_pages := ps\<rparr>)" by blast
  then show ?thesis by (simp add: plugin_windows_content_def w q)
qed

section \<open>The console\<close>

text \<open>The three body faces, the index of the one in use, and a default that is a loaded face.\<close>

definition fonts_ok :: "bridge \<Rightarrow> bool" where
  "fonts_ok b \<longleftrightarrow> length (br_body_fonts b) = 3 \<and> 0 \<le> br_body_index b \<and> br_body_index b < 3 \<and>
     pred_option (\<lambda>i. i < 3 \<and> br_body_fonts b ! i) (br_font_default b)"

text \<open>The log is shut down half-cleared; the next start clears the rest before it is read.\<close>

definition bridge_ok :: "bridge \<Rightarrow> bool" where
  "bridge_ok b \<longleftrightarrow> fonts_ok b \<and> kWindowMin - 1 \<le> rv_limit (br_view b) \<and> rv_limit (br_view b) < kWindowMax \<and>
     (br_initialized b \<longrightarrow> log_view_ok (br_view b))"

definition connection_ok :: "connection \<Rightarrow> bool" where
  "connection_ok p \<longleftrightarrow> format_in_lists p \<and> length (co_port p) < co_port_capacity p"

definition scopes_ok :: "('d, 'f) scope \<Rightarrow> bool" where
  "scopes_ok s \<longleftrightarrow> length (sp_channels s) = kScopeChannelsMax \<and> list_all scope_ok (sp_channels s)"

definition console_ok :: "'f console \<Rightarrow> bool" where
  "console_ok s \<longleftrightarrow> bridge_ok (cs_bridge s) \<and> exchange_ok (cs_exchange s) \<and> texts_fit (cs_transmit s) \<and>
     connection_ok (cs_connection s) \<and> scopes_ok (cs_scope s)"

lemma connection_frame_ok:
  assumes "connection_content g ports online p d = Some (acts, p', d')" "connection_ok p"
  shows "connection_ok p'"
proof -
  obtain a1 p1 where 1: "port_combo g ports online p = Some (a1, p1)" and p': "p' = snd (serial_grid g online p1)"
    using assms(1) by (auto simp: connection_content_def Let_def case_prod_unfold split: option.splits)
  have "format_in_lists p1 \<and> length (co_port p1) < co_port_capacity p1" using assms(2) 1
    by (auto simp: port_combo_def Let_def connection_ok_def format_in_lists_def split: if_splits option.splits)
  moreover have "co_port (snd (serial_grid g online p1)) = co_port p1 \<and> co_port_capacity (snd (serial_grid g online p1)) = co_port_capacity p1"
    by (auto simp: serial_grid_def Let_def case_prod_unfold dtr_row_def rts_row_def stop_rule_def split: option.split)
  ultimately show ?thesis using grid_in_lists [of p1 g online] by (simp add: connection_ok_def p')
qed

lemma scope_frame: "sp_channels (fst (snd (scope_content g sg sp w))) = sp_channels sp"
  by (simp add: scope_content_def Let_def)

lemma settings_frame:
  "fonts_ok b \<Longrightarrow> fonts_ok (fst (snd (settings_content g b x)))"
  "br_view (fst (snd (settings_content g b x))) = br_view b" "br_initialized (fst (snd (settings_content g b x))) = br_initialized b"
  by (auto simp: settings_content_def cjk_choice_def font_choice_def fonts_ok_def Let_def split: option.split)

lemma floating_ok:
  assumes "console_ok s"
  shows "console_ok (snd (floating_windows I s))"
proof -
  let ?x1 = "snd (script_console_content (ci_gui I) (cs_exchange s))"
  have "exchange_ok ?x1" using assms by (simp add: console_ok_def scripts_ok)
  then have x: "exchange_ok (plugin_windows_content (ci_atoi I) (ci_strtod I) (ci_formats I) (ci_plugins I)
      (snd (snd (settings_content (ci_gui I) (cs_bridge s) ?x1))))" by (intro plugins_ok settings_ok)
  have b: "bridge_ok (fst (snd (settings_content (ci_gui I) (cs_bridge s) ?x1)))"
    using assms by (simp add: console_ok_def bridge_ok_def settings_frame)
  show ?thesis
    using assms x b unfolding floating_windows_def Let_def case_prod_unfold
    by (simp add: console_ok_def scopes_ok_def scope_frame)
qed

lemma receive_content_ok:
  assumes "console_ok s" "br_initialized (cs_bridge s)"
  shows "console_ok (snd (receive_content I s))"
proof -
  have v: "log_view_ok (br_view (cs_bridge s))" using assms by (simp add: console_ok_def bridge_ok_def)
  then have "log_view_ok (receive_frame (ci_receive I) (br_view (cs_bridge s)))" by (rule frame_view_ok)
  moreover from this have "kWindowMin - 1 \<le> rv_limit (receive_frame (ci_receive I) (br_view (cs_bridge s)))"
    "rv_limit (receive_frame (ci_receive I) (br_view (cs_bridge s))) < kWindowMax" by (simp_all only: log_view_ok_def)
  ultimately have "bridge_ok ((cs_bridge s)\<lparr>br_view := receive_frame (ci_receive I) (br_view (cs_bridge s))\<rparr>)"
    using assms by (simp add: console_ok_def bridge_ok_def fonts_ok_def)
  then show ?thesis
    using assms by (auto simp: receive_content_def console_ok_def Let_def case_prod_unfold)
qed

lemma monitor_ok:
  assumes "console_ok s" "br_initialized (cs_bridge s)"
  shows "console_ok (snd (monitor_column I online s))"
proof -
  let ?s1 = "snd (receive_content I s)"
  have "console_ok ?s1" by (rule receive_content_ok [OF assms])
  then have "console_ok (?s1\<lparr>cs_transmit := snd (transmit_content (ci_gui I) (ex_history (cs_exchange ?s1)) (ci_selection I) online (cs_transmit ?s1))\<rparr>)"
    by (simp add: console_ok_def panel_never_overruns)
  then show ?thesis using assms by (simp add: monitor_column_def Let_def case_prod_unfold)
qed

lemma dashboard_ok:
  assumes "console_ok s" "br_initialized (cs_bridge s)" "dashboard I online s = Some (acts, s')"
  shows "console_ok s'"
proof (cases "gu_shows (ci_gui I) ''##xcom_dashboard''")
  case True
  let ?s0 = "s\<lparr>cs_exchange := snd (header_content (ci_gui I) (cs_exchange s))\<rparr>"
  let ?s1 = "snd (monitor_column I online ?s0)"
  have "console_ok ?s0" using assms(1) by (simp add: console_ok_def header_ok)
  then have 1: "console_ok ?s1" using assms(2) by (intro monitor_ok) simp_all
  obtain a3 p d where "connection_content (ci_gui I) (br_ports (cs_bridge ?s1)) online (cs_connection ?s1) (cs_display ?s1) = Some (a3, p, d)"
    and s': "s' = ?s1\<lparr>cs_connection := p, cs_display := d\<rparr>"
    using assms(3) True by (auto simp: dashboard_def Let_def case_prod_unfold)
  from connection_frame_ok [OF this(1)] 1 show ?thesis by (simp add: s' console_ok_def)
qed (use assms in \<open>simp add: dashboard_def\<close>)

lemma draw_ok:
  assumes "console_ok s" "xcom_imgui_draw_console tid I online s = Some (acts, s')"
  shows "console_ok s'"
proof (cases "draw_guard tid (cs_bridge s)")
  case True
  then obtain a1 s1 where 1: "dashboard I (online \<noteq> 0) s = Some (a1, s1)" and s': "s' = snd (floating_windows I s1)"
    using assms(2) by (auto simp: xcom_imgui_draw_console_def case_prod_unfold)
  have "br_initialized (cs_bridge s)" using True by (simp add: draw_guard_def)
  from dashboard_ok [OF assms(1) this 1] show ?thesis unfolding s' by (rule floating_ok)
qed (use assms in \<open>simp add: xcom_imgui_draw_console_def\<close>)

section \<open>What the client calls\<close>

text \<open>Loaders that answer for the three faces.\<close>

fun faces_three :: "bridge_op \<Rightarrow> bool" where
  "faces_three (OpInit A) = (length (fc_body (ia_faces A)) = 3)"
| "faces_three (OpNewFrame tid w f) = (length (fc_body f) = 3)"
| "faces_three _ = True"

inductive view_step :: "bool \<Rightarrow> receive_view \<Rightarrow> receive_view \<Rightarrow> bool" for ready where
  vs_text: "view_step ready v (set_receive_text ready input v)"
| vs_append: "view_step ready v (receive_append ready delta v)"
| vs_window: "view_step ready v (set_receive_window ready n v)"
| vs_base: "view_step ready v (set_receive_base ready n v)"
| vs_take: "view_step ready v (snd (take_receive_copy ready out v))"

inductive scope_step :: "('d::linorder, 'f) scope \<Rightarrow> ('d, 'f) scope \<Rightarrow> bool" where
  ss_push: "scope_step s (snd (scope_push narrow ready channel x y s))"
| ss_clear: "scope_step s (scope_clear ready zero s)"
| ss_configure: "scope_step s (scope_configure ready channel visible s)"
| ss_visible: "scope_step s (scope_set_visible ready visible s)"

inductive console_step :: "'f console \<Rightarrow> 'f console \<Rightarrow> bool" where
  cs_bridge: "faces_three b \<Longrightarrow> console_step s (s\<lparr>cs_bridge := bridge_apply b (cs_bridge s)\<rparr>)"
| cs_view: "view_step (extension_ready tid (cs_bridge s)) (br_view (cs_bridge s)) v \<Longrightarrow>
    console_step s (s\<lparr>cs_bridge := (cs_bridge s)\<lparr>br_view := v\<rparr>\<rparr>)"
| cs_exchange: "exchange_step (cs_exchange s) x \<Longrightarrow> console_step s (s\<lparr>cs_exchange := x\<rparr>)"
| cs_scope: "scope_step (cs_scope s) p \<Longrightarrow> console_step s (s\<lparr>cs_scope := p\<rparr>)"
| cs_new_frame: "length (fc_body f) = 3 \<Longrightarrow> console_step s (snd (console_new_frame tid w f s))"
| cs_lines: "list_all (pred_option (\<lambda>v. 0 \<le> v \<and> v < 3)) [dtr, rts] \<Longrightarrow> console_step s (xcom_imgui_set_open_lines tid dtr rts s)"
| cs_gap: "console_step s (xcom_imgui_set_multi_extra tid gap s)"
| cs_charset: "console_step s (xcom_imgui_set_charset tid index s)"
| cs_frame_gap: "console_step s (xcom_imgui_set_frame_gap tid enabled ms s)"
| cs_draw: "xcom_imgui_draw_console tid I online s = Some (acts, s') \<Longrightarrow> console_step s s'"

lemma lent_ok:
  "console_ok s \<Longrightarrow> list_all (pred_option (\<lambda>v. 0 \<le> v \<and> v < 3)) [dtr, rts] \<Longrightarrow> console_ok (xcom_imgui_set_open_lines tid dtr rts s)"
  "console_ok s \<Longrightarrow> console_ok (xcom_imgui_set_multi_extra tid gap s)"
  "console_ok s \<Longrightarrow> console_ok (xcom_imgui_set_charset tid index s)"
  "console_ok s \<Longrightarrow> console_ok (xcom_imgui_set_frame_gap tid enabled ms s)"
  by (cases dtr; cases rts)
    (auto simp: console_ok_def xcom_imgui_set_open_lines_def xcom_imgui_set_multi_extra_def xcom_imgui_set_charset_def
      xcom_imgui_set_frame_gap_def connection_ok_def format_in_lists_def texts_fit_def)

lemma scope_step_ok: "scope_step s s' \<Longrightarrow> scopes_ok s \<Longrightarrow> scopes_ok s'"
proof (induction rule: scope_step.induct)
  case (ss_push s narrow ready channel x y)
  then show ?case
    by (auto simp: scope_store_spec [THEN conjunct1] scope_push_def Let_def scopes_ok_def list_all_length nth_list_update simp del: kScopePointsMax_def)
qed (auto simp: scopes_ok_def scope_ok_def scope_clear_def scope_configure_def scope_set_visible_def Let_def list_all_length
    nth_list_update simp del: kScopePointsMax_def)

lemma view_step_ok: "view_step True v v' \<Longrightarrow> log_view_ok v \<Longrightarrow> log_view_ok v'"
proof (induction rule: view_step.induct)
  case (vs_base v n)
  then show ?case by (simp add: set_receive_base_def log_view_ok_def)
next
  case (vs_take v out)
  then show ?case by (auto simp: take_receive_copy_def log_view_ok_def Let_def split: option.split)
qed (simp_all add: text_view_ok append_view_ok window_view_ok)

lemma view_step_unready: "view_step False v v' \<Longrightarrow> v' = v"
  by (induction rule: view_step.induct)
    (auto simp: set_receive_text_def receive_append_def set_receive_window_def set_receive_base_def take_receive_copy_def split: option.split)

lemma rebuild_fonts_ok: "length (fc_body f) = 3 \<Longrightarrow> fonts_ok b \<Longrightarrow> fonts_ok (rebuild_fonts f b)"
  by (auto simp: rebuild_fonts_def fonts_ok_def call_def Let_def)

lemma bridge_frame_view:
  "br_view (rebuild_fonts f b) = br_view b" "br_view (call c b) = br_view b" "br_view (apply_font_prefs b) = br_view b"
  by (auto simp: rebuild_fonts_def call_def Let_def apply_font_prefs_def split: option.split)

lemma prefs_fonts_ok: "fonts_ok b \<Longrightarrow> fonts_ok (apply_font_prefs b)"
  by (auto simp: apply_font_prefs_def fonts_ok_def Let_def split: option.split)

lemma new_frame_ok:
  assumes "bridge_ok b" "length (fc_body f) = 3"
  shows "bridge_ok (snd (xcom_imgui_new_frame tid w f b))"
proof -
  let ?b1 = "apply_font_prefs b"
  let ?b2 = "if br_rebuild ?b1 then rebuild_fonts f (?b1\<lparr>br_rebuild := False\<rparr>) else ?b1"
  have "fonts_ok b" using assms(1) by (simp add: bridge_ok_def)
  then have "fonts_ok ?b1" "fonts_ok (?b1\<lparr>br_rebuild := False\<rparr>)" using prefs_fonts_ok [of b] by (simp_all add: fonts_ok_def)
  then have "fonts_ok ?b2" using assms(2) rebuild_fonts_ok by simp
  then have "bridge_ok ((call NewFrame ?b2)\<lparr>br_frame_active := True\<rparr>)" if "br_initialized b"
    using assms(1) that by (simp add: bridge_ok_def fonts_ok_def bridge_frame_view call_def)
  then show ?thesis using assms(1) by (simp add: xcom_imgui_new_frame_def Let_def)
qed

lemma init_ok:
  assumes "bridge_ok b" "length (fc_body (ia_faces A)) = 3"
  shows "bridge_ok (snd (xcom_imgui_init A b))"
proof (cases "\<not> ia_window A \<or> br_initialized b")
  case False
  let ?b = "b\<lparr>br_view := receive_view_reset (br_view b), br_hwnd := True, br_owner := ia_thread A\<rparr>"
  have b0: "bridge_ok (?b\<lparr>br_swap := u, br_device := v, br_context := w, br_target := t\<rparr>)" for u v w t
    using assms(1) by (simp add: bridge_ok_def fonts_ok_def receive_view_reset_def log_view_ok_def)
  obtain target b1 where d: "init_devices A ?b = (target, b1)" by (meson surj_pair)
  have 1: "bridge_ok b1 \<and> log_view_ok (br_view b1)"
    using d b0 [of "br_swap b" "br_device b" "br_context b" "br_target b"] b0 [of True True True "br_target b"] b0 [of True True True True] assms(1)
    by (auto simp: init_devices_def create_render_target_def bridge_ok_def fonts_ok_def receive_view_reset_def log_view_ok_def split: if_splits)
  have failed: "bridge_ok (init_failed c)" if "bridge_ok c" for c
    using that by (simp add: init_failed_def release_dx_resources_def cleanup_render_target_def bridge_ok_def fonts_ok_def)
  let ?b3 = "rebuild_fonts (ia_faces A) ((call CreateContext b1)\<lparr>br_plots := br_plots b1 + 1,
      br_ui := load_layout_config (ia_strtof A) (ia_config A) (br_ui b1)\<rparr>)"
  have "fonts_ok ?b3" using 1 assms(2) by (intro rebuild_fonts_ok) (simp_all add: bridge_ok_def fonts_ok_def call_def)
  then have 3: "bridge_ok ?b3" "log_view_ok (br_view ?b3)" using 1 by (simp_all add: bridge_ok_def bridge_frame_view call_def)
  have up: "bridge_ok (warm_up (warm_up ((call BackendInit ?b3)\<lparr>br_initialized := True\<rparr>)))"
    using 3 by (simp add: warm_up_def call_def bridge_ok_def fonts_ok_def)
  have drop: "bridge_ok (init_failed (destroy_context ?b3))"
    using 3 by (intro failed) (simp add: destroy_context_def call_def bridge_ok_def fonts_ok_def)
  have g: "bridge_ok (snd (init_gui A b1))" using up drop by (simp add: init_gui_def Let_def call_def)
  then show ?thesis using False failed 1 by (simp add: xcom_imgui_init_def d)
qed (use assms in \<open>auto simp: xcom_imgui_init_def\<close>)

lemma bridge_apply_ok: "faces_three o' \<Longrightarrow> bridge_ok b \<Longrightarrow> bridge_ok (bridge_apply o' b)"
proof (cases o')
  case (OpWindow m)
  assume "bridge_ok b"
  then show ?thesis
    by (auto simp: OpWindow xcom_imgui_wndproc_def create_render_target_def cleanup_render_target_def bridge_ok_def fonts_ok_def Let_def
        split: option.split)
next
  case (OpStatus tid g t)
  assume "bridge_ok b"
  then show ?thesis
    by (auto simp: OpStatus xcom_imgui_set_status_def bridge_ok_def fonts_ok_def Let_def split: option.split)
qed (simp_all add: init_ok new_frame_ok, simp_all add: xcom_imgui_shutdown_def release_dx_resources_def cleanup_render_target_def
    destroy_context_def call_def xcom_imgui_render_def xcom_imgui_set_font_prefs_def xcom_imgui_set_ports_def bridge_ok_def fonts_ok_def Let_def)

lemma view_ok_limit: "log_view_ok v \<Longrightarrow> kWindowMin - 1 \<le> rv_limit v \<and> rv_limit v < kWindowMax"
  by (simp add: log_view_ok_def)

lemma view_of_bridge_ok:
  assumes "view_step (extension_ready tid b) (br_view b) v" "bridge_ok b"
  shows "bridge_ok (b\<lparr>br_view := v\<rparr>)"
proof (cases "extension_ready tid b")
  case True
  then have i: "br_initialized b" by (simp add: extension_ready_def)
  then have "log_view_ok v" using assms view_step_ok [of "br_view b" v] True by (simp add: bridge_ok_def)
  then show ?thesis using assms(2) view_ok_limit i by (simp add: bridge_ok_def fonts_ok_def)
next
  case False
  then have "v = br_view b" using assms(1) view_step_unready by simp
  then show ?thesis using assms(2) by simp
qed

text \<open>
  C8 (console_stays_well_formed). The state that the client and the window share is well formed after any sequence of
  calls of the client (from any thread) and of frames, whatever the user does in them: the index of the log is the
  index of its text, no text outgrows the buffer that was lent for it, the format is in its lists, the lists of
  the script console keep one length, the editor has its null, every queue and ring keeps its bound, and the
  font in use is one that was loaded.
\<close>

theorem console_stays_well_formed:
  assumes "console_step\<^sup>*\<^sup>* s s'" "console_ok s"
  shows "console_ok s'"
  using assms
proof (induction rule: rtranclp_induct)
  case (step s1 s2)
  from step.hyps(2) step.IH [OF step.prems] show ?case
  proof (cases rule: console_step.cases)
    case (cs_new_frame f tid w)
    let ?b = "(cs_bridge s1)\<lparr>br_rebuild := br_rebuild (cs_bridge s1) \<or> ex_rebuild (cs_exchange s1)\<rparr>"
    assume ok: "console_ok s1"
    then have "bridge_ok ?b" by (simp add: console_ok_def bridge_ok_def fonts_ok_def)
    then have "bridge_ok (snd (xcom_imgui_new_frame tid w f ?b))" using cs_new_frame(2) by (rule new_frame_ok)
    moreover have "exchange_ok ((cs_exchange s1)\<lparr>ex_rebuild := False\<rparr>)" using ok by (simp add: console_ok_def exchange_ok_def)
    ultimately show ?thesis using ok cs_new_frame(1) by (auto simp: console_new_frame_def console_ok_def split: prod.split)
  next
    case (cs_draw tid I online acts)
    assume "console_ok s1"
    then show ?thesis using draw_ok cs_draw by blast
  next
    case (cs_lines dtr rts tid)
    assume "console_ok s1"
    then show ?thesis using lent_ok(1) cs_lines by blast
  qed (auto simp: lent_ok, auto simp: console_ok_def bridge_apply_ok view_of_bridge_ok exchange_step_ok scope_step_ok)
qed

theorem console_stays_well_formed_witness:
  "console_ok (enter_console\<lparr>cs_exchange := set_script_log True (Some [0x41]) (cs_exchange enter_console)\<rparr>)"
proof (rule console_stays_well_formed)
  show "console_step\<^sup>*\<^sup>* enter_console (enter_console\<lparr>cs_exchange := set_script_log True (Some [0x41]) (cs_exchange enter_console)\<rparr>)"
    by (intro r_into_rtranclp cs_exchange es_log)
  show "console_ok enter_console"
    by (simp add: console_ok_def enter_console_def bridge_ok_def fonts_ok_def bridge_fresh_def log_view_ok_def receive_view_init_def
        exchange_ok_def exchange_init_def texts_fit_def connection_ok_def format_in_lists_def panel_8n15_def scopes_ok_def scope_init_def
        scope_ok_def kLogLimit_def kCommandMax_def kMaxQueued_def list_all_length kWidgetsMax_def)
qed

end
