(* ===== verification/Dispatch.thy ===== *)
theory Dispatch
  imports Session_Lifecycle Xcom_Abi
begin

text \<open>
  The Dispatcher's side of the core as one system: the signals, the five active objects with their transition
  tables, traits and targets (\<open>runtime/xcom_config.hpp\<close>, \<open>ao/xcom_ao.hpp\<close>, the tables and the constructor of
  \<open>runtime/xcom_core.cpp\<close>), and the dispatch of one pending event to the handler its table names. Which pending event
  runs next is the coordinator's choice and the argument of a step; how a table of one root state is searched is
  coact's code and the parameter \<open>hsm\<close>.
\<close>

section \<open>Signals and active objects\<close>

fun to_signal :: "signal \<Rightarrow> u16" where
  "to_signal SigRxKick = 1"
| "to_signal SigSend = 2"
| "to_signal SigAutosend = 3"
| "to_signal SigOpen = 4"
| "to_signal SigClose = 5"
| "to_signal SigOpenDone = 6"
| "to_signal SigCloseDone = 7"
| "to_signal SigAutosendConfig = 8"
| "to_signal SigFault = 10"
| "to_signal SigDiag = 11"
| "to_signal SigRxBlock = 12"

lemma to_signal_inject [simp]: "to_signal a = to_signal b \<longleftrightarrow> a = b"
  by (cases a; cases b) simp_all

datatype logical_priority = LpSerial | LpSend | LpReceive | LpAutosend | LpDiag

fun to_priority :: "logical_priority \<Rightarrow> u8" where
  "to_priority LpSerial = 40"
| "to_priority LpSend = 31"
| "to_priority LpReceive = 30"
| "to_priority LpAutosend = 20"
| "to_priority LpDiag = 10"

datatype target = TgSerial | TgReceive | TgSend | TgDiag | TgAutoSend

fun target_id :: "target \<Rightarrow> u8" where
  "target_id TgSerial = 1"
| "target_id TgReceive = 2"
| "target_id TgSend = 3"
| "target_id TgDiag = 4"
| "target_id TgAutoSend = 5"

datatype priority_class = PcHigh | PcNormal | PcLow

record ao_traits =
  tr_rtc_budget_ns :: u64
  tr_logical_prio :: u8
  tr_class :: priority_class
  tr_direct_eligible :: bool
  tr_isr_direct_safe :: bool

definition RxTraits :: ao_traits where
  "RxTraits = \<lparr>tr_rtc_budget_ns = 500000, tr_logical_prio = to_priority LpReceive, tr_class = PcHigh,
     tr_direct_eligible = False, tr_isr_direct_safe = True\<rparr>"

definition SendTraits :: ao_traits where
  "SendTraits = \<lparr>tr_rtc_budget_ns = 500000, tr_logical_prio = to_priority LpSend, tr_class = PcNormal,
     tr_direct_eligible = False, tr_isr_direct_safe = False\<rparr>"

definition AutoSendTraits :: ao_traits where
  "AutoSendTraits = \<lparr>tr_rtc_budget_ns = 500000, tr_logical_prio = to_priority LpAutosend, tr_class = PcLow,
     tr_direct_eligible = False, tr_isr_direct_safe = False\<rparr>"

definition DiagTraits :: ao_traits where
  "DiagTraits = \<lparr>tr_rtc_budget_ns = 200000, tr_logical_prio = to_priority LpDiag, tr_class = PcLow,
     tr_direct_eligible = False, tr_isr_direct_safe = False\<rparr>"

definition SerialTraits :: ao_traits where
  "SerialTraits = \<lparr>tr_rtc_budget_ns = 5000000000, tr_logical_prio = to_priority LpSerial, tr_class = PcHigh,
     tr_direct_eligible = False, tr_isr_direct_safe = False\<rparr>"

text \<open>The functions the tables name.\<close>

datatype ao_action = RunRxKick | RunSendUser | RunSendAutosend | RunAutosendConfig | RunDiagTick
  | RunOpen | RunClose | RunFault

datatype transition_kind = TkInternal

record ao_transition =
  tn_source :: int
  tn_signal :: u16
  tn_destination :: int
  tn_kind :: transition_kind
  tn_action :: ao_action

abbreviation internal :: "signal \<Rightarrow> ao_action \<Rightarrow> ao_transition" where
  "internal sig a \<equiv> \<lparr>tn_source = 0, tn_signal = to_signal sig, tn_destination = 0, tn_kind = TkInternal, tn_action = a\<rparr>"

definition kRxTransitions :: "ao_transition list" where
  "kRxTransitions = [internal SigRxKick RunRxKick]"

definition kSendTransitions :: "ao_transition list" where
  "kSendTransitions = [internal SigSend RunSendUser]"

definition kAutoSendTransitions :: "ao_transition list" where
  "kAutoSendTransitions = [internal SigAutosend RunSendAutosend, internal SigAutosendConfig RunAutosendConfig]"

definition kDiagTransitions :: "ao_transition list" where
  "kDiagTransitions = [internal SigDiag RunDiagTick]"

definition kSerialTransitions :: "ao_transition list" where
  "kSerialTransitions = [internal SigOpen RunOpen, internal SigClose RunClose, internal SigFault RunFault]"

text \<open>Which table the constructor gives the active object bound to a target.\<close>

fun ao_table :: "target \<Rightarrow> ao_transition list" where
  "ao_table TgSerial = kSerialTransitions"
| "ao_table TgReceive = kRxTransitions"
| "ao_table TgSend = kSendTransitions"
| "ao_table TgDiag = kDiagTransitions"
| "ao_table TgAutoSend = kAutoSendTransitions"

fun ao_traits_of :: "target \<Rightarrow> ao_traits" where
  "ao_traits_of TgSerial = SerialTraits"
| "ao_traits_of TgReceive = RxTraits"
| "ao_traits_of TgSend = SendTraits"
| "ao_traits_of TgDiag = DiagTraits"
| "ao_traits_of TgAutoSend = AutoSendTraits"

lemmas ao_tables = kRxTransitions_def kSendTransitions_def kAutoSendTransitions_def kDiagTransitions_def kSerialTransitions_def

section \<open>Events\<close>

text \<open>The target each submitting function names, and the signal of the event it builds.\<close>

fun control_ao :: "signal \<Rightarrow> target option" where
  "control_ao sig =
     (if sig \<in> {SigOpen, SigClose, SigFault} then Some TgSerial
      else if sig = SigAutosend then Some TgAutoSend
      else if sig = SigDiag then Some TgDiag
      else None)"

lemma control_target_ao: "control_target sig \<longleftrightarrow> control_ao sig \<noteq> None"
  by (cases sig) (simp_all add: control_target_def)

fun event_target :: "posted \<Rightarrow> target option" where
  "event_target PostKick = Some TgReceive"
| "event_target (PostControl sig) = control_ao sig"
| "event_target (PostSend d) = Some TgSend"
| "event_target (PostConfig d) = Some TgAutoSend"

fun event_signal :: "posted \<Rightarrow> signal" where
  "event_signal PostKick = SigRxKick"
| "event_signal (PostControl sig) = sig"
| "event_signal (PostSend d) = SigSend"
| "event_signal (PostConfig d) = SigAutosendConfig"

text \<open>
  A handler reads its event as the layout it expects: a descriptor for a send, a template for a configuration.
  \<open>None\<close> is a read of an event of another layout, or a failed assertion of the handler.
\<close>

fun run_action :: "platform \<Rightarrow> display_ring \<Rightarrow> u32 \<Rightarrow> ao_action \<Rightarrow> posted \<Rightarrow> owner \<Rightarrow> owner option" where
  "run_action P R now RunRxKick e x =
     (case rx_kick_action (core_sink P) \<lparr>ra_rx = pf_rx P, ra_ring = R, ra_now_ms = now\<rparr> (k_deferred (snd x)) (snd x) of
        (d, s) \<Rightarrow> Some (fst x, s\<lparr>k_deferred := d\<rparr>))"
| "run_action P R now RunSendUser (PostSend d) x = map_option (Pair (fst x)) (send_user_action (core_sink P) now d (snd x))"
| "run_action P R now RunSendAutosend e x =
     map_option (Pair (fst x)) (send_autosend_action (core_sink P) now (k_send (snd x)) (snd x))"
| "run_action P R now RunAutosendConfig (PostConfig d) x =
     map_option (\<lambda>(ctx, s). (fst x, s\<lparr>k_send := ctx\<rparr>)) (autosend_config_action (core_sink P) now d (k_send (snd x)) (snd x))"
| "run_action P R now RunDiagTick e x = Some (fst x, diag_tick_action (core_sink P) now (snd x))"
| "run_action P R now RunOpen e x = Some (serial_do_open (core_sink P) R now x)"
| "run_action P R now RunClose e x = Some (serial_do_close (core_sink P) R now x)"
| "run_action P R now RunFault e x = Some (serial_do_fault (core_sink P) R now x)"
| "run_action P R now _ e x = None"

text \<open>The Dispatcher takes the \<open>i\<close>-th pending event; an event no transition matches has no effect.\<close>

definition take_event :: "nat \<Rightarrow> core_state \<Rightarrow> core_state" where
  "take_event i s = s\<lparr>k_posted := take i (k_posted s) @ drop (Suc i) (k_posted s)\<rparr>"

definition event_action :: "(ao_transition list \<Rightarrow> u16 \<Rightarrow> ao_action option) \<Rightarrow> posted \<Rightarrow> ao_action option" where
  "event_action hsm e =
     (case event_target e of None \<Rightarrow> None | Some t \<Rightarrow> hsm (ao_table t) (to_signal (event_signal e)))"

definition dispatch ::
  "platform \<Rightarrow> (ao_transition list \<Rightarrow> u16 \<Rightarrow> ao_action option) \<Rightarrow> display_ring \<Rightarrow> u32 \<Rightarrow> nat \<Rightarrow> owner \<Rightarrow> owner option" where
  "dispatch P hsm R now i x =
     (let e = k_posted (snd x) ! i; x1 = (fst x, take_event i (snd x))
      in case event_action hsm e of None \<Rightarrow> Some x1 | Some a \<Rightarrow> run_action P R now a e x1)"

text \<open>coact's documented search: the transition of the root state with the event's signal.\<close>

definition hsm_documented :: "(ao_transition list \<Rightarrow> u16 \<Rightarrow> ao_action option) \<Rightarrow> bool" where
  "hsm_documented hsm \<longleftrightarrow> (\<forall>ts sig. hsm ts sig = map_option tn_action (find (\<lambda>t. tn_signal t = sig) ts))"

section \<open>The writer thread's turn\<close>

text \<open>One job of the session writer, taken from the ring and executed.\<close>

definition writer_job :: "platform \<Rightarrow> core_state \<Rightarrow> core_state option" where
  "writer_job P s =
     (case sw_try_pop (k_writer s) of
        None \<Rightarrow> Some s
      | Some (j, w) \<Rightarrow> sw_execute (core_sink P) j (s\<lparr>k_writer := w\<rparr>))"

end
