(* ===== verification/Dispatch_Facts.thy ===== *)
theory Dispatch_Facts
  imports Dispatch Abi_Facts "HOL-Library.Multiset"
begin

text \<open>
  The whole send path as one system: every transmit block in use has exactly one holder among the pending
  events, the job ring and the auto-send template, whatever order the Dispatcher, the writer thread, the
  timer and the clients of the ABI run in, so no block is lost, none is given back twice and no assertion on
  a block fails. The claims on blocks are a multiset; a handler's contract says which claims it consumes.
\<close>

section \<open>Claims\<close>

fun event_claims :: "posted \<Rightarrow> nat multiset" where
  "event_claims (PostSend d) = {#unat (td_block d)#}"
| "event_claims (PostConfig d) = (if at_interval_ms d = 0 then {#} else {#unat (at_block d)#})"
| "event_claims _ = {#}"

definition posted_claims :: "posted list \<Rightarrow> nat multiset" where
  "posted_claims es = \<Sum>\<^sub># (image_mset event_claims (mset es))"

definition template_claims :: "send_ctx \<Rightarrow> nat multiset" where
  "template_claims c = (if sx_autosend_block c = no_block then {#} else {#unat (sx_autosend_block c)#})"

definition writer_claims :: "session_writer \<Rightarrow> nat multiset" where
  "writer_claims w = mset (map (unat \<circ> wj_block) (sw_items w))"

text \<open>An event that some active object's table is searched for.\<close>

definition routed :: "posted \<Rightarrow> bool" where
  "routed e \<longleftrightarrow> event_target e \<noteq> None"

text \<open>\<open>held X s\<close>: the blocks in use are those claimed by events and template, and those in \<open>X\<close>.\<close>

definition held :: "nat multiset \<Rightarrow> core_state \<Rightarrow> bool" where
  "held X s \<longleftrightarrow> tx_inv (c_tx s) \<and>
     posted_claims (k_posted s) + template_claims (k_send s) + X = mset_set (fpool.used (c_tx s)) \<and>
     list_all routed (k_posted s) \<and> \<not> k_aborted s"

definition sw_ok :: "session_writer \<Rightarrow> bool" where
  "sw_ok w \<longleftrightarrow> sw_inv w \<and> (\<not> sw_active w \<longrightarrow> sw_items w = [])"

definition tx_owned_by :: "nat multiset \<Rightarrow> core_state \<Rightarrow> bool" where
  "tx_owned_by X s \<longleftrightarrow> held (writer_claims (k_writer s) + X) s \<and> sw_ok (k_writer s)"

text \<open>What a function that has no business with transmit blocks leaves alone.\<close>

definition tx_same :: "core_state \<Rightarrow> core_state \<Rightarrow> bool" where
  "tx_same s s' \<longleftrightarrow> c_tx s' = c_tx s \<and> k_writer s' = k_writer s \<and> k_send s' = k_send s \<and>
     k_aborted s' = k_aborted s \<and> posted_claims (k_posted s') = posted_claims (k_posted s) \<and>
     (list_all routed (k_posted s) \<longrightarrow> list_all routed (k_posted s'))"

lemma posted_claims_simps [simp]:
  "posted_claims [] = {#}" "posted_claims (e # es) = event_claims e + posted_claims es"
  "posted_claims (es @ fs) = posted_claims es + posted_claims fs"
  by (simp_all add: posted_claims_def)

lemma tx_same_refl [simp]: "tx_same s s"
  by (simp add: tx_same_def)

lemma tx_same_trans [trans]: "tx_same a b \<Longrightarrow> tx_same b c \<Longrightarrow> tx_same a c"
  by (simp add: tx_same_def)

lemma tx_sameI:
  assumes "c_tx s' = c_tx s" "k_writer s' = k_writer s" "k_send s' = k_send s" "k_aborted s' = k_aborted s"
    "k_posted s' = k_posted s"
  shows "tx_same s s'"
  using assms by (simp add: tx_same_def)

lemma held_same: "held X s \<Longrightarrow> tx_same s s' \<Longrightarrow> held X s'"
  by (simp add: held_def tx_same_def)

lemma owned_same: "tx_owned_by X s \<Longrightarrow> tx_same s s' \<Longrightarrow> tx_owned_by X s'"
  by (auto simp: tx_owned_by_def tx_same_def held_def)

lemma used_bound: "tx_inv p \<Longrightarrow> b \<in> fpool.used p \<Longrightarrow> b < 32"
  using tx_invD(2) [of p] by (auto simp: fpool.used_def)

lemma held_used: "held X s \<Longrightarrow> b \<in># X \<Longrightarrow> b \<in> fpool.used (c_tx s)"
proof -
  assume h: "held X s" "b \<in># X"
  then have "b \<in># mset_set (fpool.used (c_tx s))"
    using h(1) unfolding held_def by (metis union_iff)
  then show ?thesis by simp
qed

text \<open>Giving back a claimed block consumes the claim.\<close>

lemma release_held:
  assumes "held (add_mset (unat b) X) s"
  shows "\<exists>s'. core_tx_release b s = Some s' \<and> held X s' \<and> (\<exists>p. s' = s\<lparr>c_tx := p\<rparr>)"
proof -
  note u = held_used [OF assms, of "unat b"]
  have h: "tx_inv (c_tx s)" "posted_claims (k_posted s) + template_claims (k_send s) + add_mset (unat b) X = mset_set (fpool.used (c_tx s))"
    "\<not> k_aborted s" "list_all routed (k_posted s)" using assms by (simp_all add: held_def)
  obtain q where q: "tx_release b (c_tx s) = Some q" "tx_inv q" "fpool.used q = fpool.used (c_tx s) - {unat b}"
    using tx_release_used [OF h(1), of b] u by auto
  have "mset_set (fpool.used q) = mset_set (fpool.used (c_tx s)) - {#unat b#}"
    using q(3) u by (simp add: mset_set_Diff)
  also have "\<dots> = posted_claims (k_posted s) + template_claims (k_send s) + X"
    by (simp flip: h(2))
  finally have "held X (s\<lparr>c_tx := q\<rparr>)" using q h by (simp add: held_def)
  then show ?thesis using q(1) by (auto simp: core_tx_release_def)
qed

text \<open>Filling a fresh block makes one claim.\<close>

lemma fill_held:
  assumes "held X s" "tx_try_alloc (c_tx s) = Some (b, q)" "length data \<le> kTxBlockBytes"
  shows "held (add_mset (unat b) X) (s\<lparr>c_tx := fixed_pool_write q (unat b) data\<rparr>)" "b \<noteq> no_block"
proof -
  have h: "tx_inv (c_tx s)" using assms(1) by (simp add: held_def)
  note f = fill_fresh_block [OF h assms(2,3)]
  show "held (add_mset (unat b) X) (s\<lparr>c_tx := fixed_pool_write q (unat b) data\<rparr>)"
    using assms(1) f by (simp add: held_def flip: union_assoc)
  have "unat b \<in> fpool.used (fixed_pool_write q (unat b) data)" using f(3) by simp
  then have "unat b < 32" using used_bound [OF f(2)] by blast
  then show "b \<noteq> no_block" by (auto simp: no_block_def)
qed


section \<open>Functions that leave the blocks alone\<close>

lemma push_error_parts [simp]:
  "c_tx (push_error e k m s) = c_tx s" "k_writer (push_error e k m s) = k_writer s"
  "k_send (push_error e k m s) = k_send s" "k_aborted (push_error e k m s) = k_aborted s"
  "k_posted (push_error e k m s) = k_posted s" "k_deferred (push_error e k m s) = k_deferred s"
  by (simp_all add: push_error_def)

lemma control_same: "tx_same s (snd (sink_submit_control P sig w crit s))"
  by (simp add: tx_same_def sink_submit_control_def post_def routed_def control_target_ao Let_def del: control_ao.simps)

lemma push_error_same [simp]: "tx_same s (push_error e k m s)"
  by (rule tx_sameI) simp_all

lemma metrics_same [simp]: "tx_same s (on_metrics f s)"
  by (rule tx_sameI) simp_all

lemma latch_same: "tx_same s (latch_fault m s)"
  by (rule tx_sameI) (simp_all add: latch_fault_def)

lemma control_or_latch_same:
  "tx_same s (case sink_submit_control P sig w crit s of (True, s') \<Rightarrow> s' | (False, s') \<Rightarrow> latch_fault m s')"
proof -
  obtain ok s1 where c: "sink_submit_control P sig w crit s = (ok, s1)" by (meson surj_pair)
  have "tx_same s s1" using control_same [of s P sig w crit] c by simp
  then show ?thesis using c latch_same [of s1 m] tx_same_trans by (cases ok) auto
qed

lemma write_failed_same: "tx_same s (write_failed P r len s)"
proof -
  have r: "tx_same s (record_write_failure P r len s)"
    by (rule tx_sameI) (simp_all add: record_write_failure_def Let_def)
  then show ?thesis
    using tx_same_trans [OF r control_or_latch_same] by (simp add: write_failed_def Let_def)
qed

lemma owner_write_same:
  assumes "unat b < 32"
  shows "tx_same s (snd (sink_owner_write P b n s))"
proof -
  have "tx_same s (on_metrics f (s\<lparr>c_tx_fail_streak := 0\<rparr>))" "tx_same s (on_metrics f s)" for f
    by (auto intro: tx_sameI)
  then show ?thesis
    using assms by (auto simp: sink_owner_write_def Let_def write_failed_same tx_block_def split: option.split)
qed

text \<open>The write thread transmits blocks of the pool.\<close>

definition write_ok :: "other_step \<Rightarrow> bool" where
  "write_ok y \<longleftrightarrow> (case y of OsWrite b n \<Rightarrow> unat b < 32 | _ \<Rightarrow> True)"

definition writes_in_pool :: "platform \<Rightarrow> bool" where
  "writes_in_pool P \<longleftrightarrow> (\<forall>s. list_all write_ok (pf_during_open P s) \<and> list_all write_ok (pf_during_close P s))"

lemma fault_callback_same: "tx_same s (serial_fault_callback P e s)"
  unfolding serial_fault_callback_def
  using tx_same_trans [OF push_error_same control_or_latch_same] by simp

lemma line_callback_same: "tx_same s (line_callback st s)"
  by (rule tx_sameI)
    (simp_all add: line_callback_def line_status_ingress_def core_diag_emit_def quiet_sink_def sink_diag_emit_def Let_def)

lemma other_step_same: "write_ok y \<Longrightarrow> tx_same s (other_step_effect P y s)"
  by (cases y) (auto intro: tx_sameI fault_callback_same line_callback_same owner_write_same simp: write_ok_def)

lemma other_steps_same: "list_all write_ok ys \<Longrightarrow> tx_same s (other_steps P ys s)"
proof (induction ys arbitrary: s)
  case (Cons y ys)
  then show ?case
    using tx_same_trans [OF other_step_same Cons.IH] by (simp add: other_steps_def)
qed (simp add: other_steps_def)

lemma pin_warnings_same: "tx_same s (report_pin_warnings P ws s)"
proof (induction ws arbitrary: s)
  case (Cons w ws)
  then show ?case
    using tx_same_trans [OF push_error_same Cons.IH] by (simp add: report_pin_warnings_def)
qed (simp add: report_pin_warnings_def)

lemma autosend_set_same: "tx_same s (autosend_set_impl P n s)"
  by (rule tx_sameI) (simp_all add: autosend_set_impl_def split: prod.split bool.split)

lemma autosend_tick_same: "tx_same s (autosend_tick P s)"
proof (cases "c_port_state s \<noteq> PORT_OPEN \<or> c_autosend_armed s")
  case True
  then show ?thesis by (auto simp: autosend_tick_def intro: tx_sameI)
next
  case False
  obtain ok s1 where c: "sink_submit_control P SigAutosend 0 False (s\<lparr>c_autosend_armed := True\<rparr>) = (ok, s1)"
    by (meson surj_pair)
  then have "tx_same (s\<lparr>c_autosend_armed := True\<rparr>) s1" using control_same by (metis snd_conv)
  then show ?thesis using c False by (cases ok) (simp_all add: autosend_tick_def tx_same_def)
qed

lemma close_prologue_tx: "tx_same s (close_prologue P s)"
proof -
  have "tx_same s ((autosend_set_impl P 0 (on_metrics (\<lambda>m. m\<lparr>m_modem_lines := 0\<rparr>) s))\<lparr>c_callback_admission := False\<rparr>)"
    (is "tx_same s ?a")
    using tx_same_trans [OF metrics_same autosend_set_same] by (simp add: tx_same_def)
  also have "tx_same ?a (release_deferred P ?a)"
    by (rule tx_sameI) (simp_all add: release_deferred_def release_deferred_rx_def count_deferred_display_loss_def
      count_rejected_rx_def Let_def split: option.split)
  finally show ?thesis unfolding close_prologue_def .
qed

section \<open>The session writer's part of open and close\<close>

lemma pop_claims:
  assumes "sw_inv w" "sw_try_pop w = Some (j, w')"
  shows "sw_inv w'" "writer_claims w = add_mset (unat (wj_block j)) (writer_claims w')"
    "length (sw_items w) = Suc (length (sw_items w'))" "sw_active w' = sw_active w" "sw_items w = j # sw_items w'"
  using sw_pop_spec [OF assms(1)] assms(2)
  by (auto simp: writer_claims_def sw_try_pop_def split: if_splits)

lemma no_claims: "sw_items w = [] \<Longrightarrow> writer_claims w = {#}"
  by (simp add: writer_claims_def)

lemma leftover_job_held:
  assumes "held (add_mset (unat (wj_block j)) X) s"
  shows "\<exists>s'. sw_leftover_job j (Some s) = Some s' \<and> held X s' \<and> k_writer s' = k_writer s"
proof -
  obtain p where r: "core_tx_release (wj_block j) s = Some (s\<lparr>c_tx := p\<rparr>)" "held X (s\<lparr>c_tx := p\<rparr>)"
    using release_held [OF assms] by blast
  let ?s = "count_tx_rejected (if wj_auto_send j then s\<lparr>c_tx := p, c_autosend_armed := False\<rparr> else s\<lparr>c_tx := p\<rparr>)"
  have "tx_same (s\<lparr>c_tx := p\<rparr>) ?s" by (rule tx_sameI) (simp_all add: count_tx_rejected_def)
  then show ?thesis using r held_same [OF r(2)] by (auto simp: sw_leftover_job_def count_tx_rejected_def)
qed

lemma leftover_loop_held:
  assumes "sw_inv w" "length (sw_items w) < n" "held (writer_claims w + X) s"
  shows "\<exists>w' s'. pop_loop n sw_try_pop sw_leftover_job w (Some s) = (w', Some s') \<and> held X s' \<and>
    sw_items w' = [] \<and> sw_inv w' \<and> sw_active w' = sw_active w"
  using assms
proof (induction n arbitrary: w s)
  case (Suc n)
  show ?case
  proof (cases "sw_try_pop w")
    case None
    then have "sw_items w = []" using sw_pop_spec [OF Suc.prems(1)] by simp
    then show ?thesis using Suc.prems None by (simp add: no_claims)
  next
    case (Some r)
    then obtain j w1 where p: "sw_try_pop w = Some (j, w1)" by (cases r) simp
    note c = pop_claims [OF Suc.prems(1) p]
    obtain s1 where j: "sw_leftover_job j (Some s) = Some s1" "held (writer_claims w1 + X) s1"
      using leftover_job_held [of j "writer_claims w1 + X" s] Suc.prems(3) c(2) by auto
    show ?thesis
      using Suc.IH [OF c(1) _ j(2)] Suc.prems(2) c(3,4) p j(1) by auto
  qed
qed simp

lemma items_bound: "sw_inv w \<Longrightarrow> length (sw_items w) \<le> kMaxJobs"
  by (simp add: sw_items_def sw_inv_def)

lemma leftover_held:
  assumes "sw_inv w" "held (writer_claims w + X) s"
  shows "\<exists>w' s'. sw_release_leftover_jobs w s = (w', Some s') \<and> held X s' \<and>
    sw_items w' = [] \<and> sw_inv w' \<and> sw_active w' = sw_active w"
  unfolding sw_release_leftover_jobs_def
  by (rule leftover_loop_held [OF assms(1) _ assms(2)]) (use items_bound [OF assms(1)] in simp)

lemma inv_stop [simp]:
  "sw_items (w\<lparr>sw_stop := b\<rparr>) = sw_items w" "sw_inv (w\<lparr>sw_stop := b\<rparr>) = sw_inv w"
  "sw_items (w\<lparr>sw_active := b\<rparr>) = sw_items w" "sw_inv (w\<lparr>sw_active := b\<rparr>) = sw_inv w"
  "writer_claims (w\<lparr>sw_stop := b\<rparr>) = writer_claims w" "writer_claims (w\<lparr>sw_active := b\<rparr>) = writer_claims w"
  by (simp_all add: sw_items_def sw_inv_def writer_claims_def)

lemma held_writer [simp]: "held X (s\<lparr>k_writer := w\<rparr>) = held X s"
  by (simp add: held_def)

lemma join_held:
  assumes "tx_owned_by X s"
  shows "\<exists>w s'. sw_stop_and_join (k_writer s) s = (w, Some s') \<and> held X s' \<and> sw_items w = [] \<and> sw_inv w \<and> \<not> sw_active w"
proof (cases "sw_active (k_writer s)")
  case True
  let ?w = "sw_request_stop (k_writer s)"
  have "sw_inv ?w" "held (writer_claims ?w + X) s"
    using assms by (simp_all add: tx_owned_by_def sw_ok_def sw_request_stop_def)
  then obtain w' s' where "sw_release_leftover_jobs ?w s = (w', Some s')" "held X s'" "sw_items w' = []" "sw_inv w'"
    using leftover_held by blast
  moreover have "sw_active ?w" using True by (simp add: sw_request_stop_def)
  ultimately show ?thesis by (simp add: sw_stop_and_join_def Let_def)
next
  case False
  then show ?thesis
    using assms no_claims [of "k_writer s"] by (auto simp: sw_stop_and_join_def sw_request_stop_def Let_def tx_owned_by_def sw_ok_def)
qed

lemma stop_writer_owned:
  assumes "tx_owned_by X s"
  shows "tx_owned_by X (stop_session_writer s)"
proof -
  obtain w s1 where j: "sw_stop_and_join (k_writer s) s = (w, Some s1)" "held X s1" "sw_items w = []" "sw_inv w" "\<not> sw_active w"
    using join_held [OF assms] by blast
  then obtain w' s2 where "sw_release_leftover_jobs w s1 = (w', Some s2)" "held X s2" "sw_items w' = []" "sw_inv w'"
    using leftover_held [OF j(4), of X s1] by (auto simp: no_claims)
  then show ?thesis using j(1) by (simp add: stop_session_writer_def tx_owned_by_def sw_ok_def no_claims)
qed

lemma start_writer_owned:
  assumes "tx_owned_by X s"
  shows "tx_owned_by X (start_session_writer P s)"
proof -
  have o: "tx_owned_by X (s\<lparr>k_writer := snd (if sw_active (k_writer s) then (True, k_writer s)
      else sw_start (pf_spawn_writer P s) (k_writer s))\<rparr>)"
    using assms by (auto simp: tx_owned_by_def sw_ok_def sw_start_def Let_def sw_inv_def sw_items_def writer_claims_def)
  show ?thesis
    by (rule owned_same [OF o], rule tx_sameI) (auto simp: start_session_writer_def Let_def split: prod.split)
qed


lemma owner_open_owned:
  assumes "tx_owned_by X s" "writes_in_pool P"
  shows "tx_owned_by X (sink_owner_open P s)"
proof -
  let ?s0 = "s\<lparr>c_heartbeats := (c_heartbeats s)\<lparr>hb_serial_read_ms := pf_now P\<rparr>\<rparr>"
  let ?s1 = "on_metrics (\<lambda>m. m\<lparr>m_modem_lines := 0\<rparr>) ?s0"
  have w: "list_all write_ok (pf_during_open P x)" for x using assms(2) by (simp add: writes_in_pool_def)
  obtain ok e ws b where o: "backend_open (pf_open P ?s1) (session_options ?s1) (k_backend ?s1) = (ok, e, ws, b)"
    by (metis prod_cases4)
  let ?s2 = "other_steps P (pf_during_open P ?s1) (report_pin_warnings P ws (?s1\<lparr>k_backend := b\<rparr>))"
  have v: "tx_same s (other_steps P (pf_during_open P ?s0) (?s0\<lparr>c_last_open_result := XCOM_OK\<rparr>))"
    by (rule tx_same_trans [OF tx_sameI other_steps_same [OF w]]) simp_all
  have p: "tx_same s ?s2"
    by (rule tx_same_trans [OF tx_same_trans [OF tx_sameI pin_warnings_same] other_steps_same [OF w]]) simp_all
  have f: "tx_same s ((push_error (write_error_code e) 2 m ?s2)\<lparr>c_last_open_result := r\<rparr>)" for m r
    using tx_same_trans [OF p tx_sameI] by simp
  show ?thesis
    unfolding sink_owner_open_def Let_def o prod.case
    using start_writer_owned [OF owned_same [OF assms(1) v]] start_writer_owned [OF owned_same [OF assms(1) p]]
      owned_same [OF assms(1) f] by simp
qed

lemma owner_close_owned:
  assumes "tx_owned_by X s" "writes_in_pool P"
  shows "tx_owned_by X (sink_owner_close P s)"
proof -
  let ?p = "close_prologue P s" let ?q = "other_steps P (pf_during_close P ?p) ?p"
  have "list_all write_ok (pf_during_close P ?p)" using assms(2) by (simp add: writes_in_pool_def)
  then have q: "tx_owned_by X ?q"
    using assms(1) owned_same close_prologue_tx other_steps_same by blast
  let ?r = "if sw_active (k_writer ?q) then stop_session_writer ?q else ?q"
  have r: "tx_owned_by X ?r" using q stop_writer_owned by simp
  have "tx_same ?r (close_epilogue ?q)"
    by (rule tx_sameI) (simp_all add: close_epilogue_def Let_def)
  then show ?thesis unfolding owner_close_split using owned_same [OF r] by blast
qed

section \<open>The handlers of the port\<close>

lemma display_reset_same: "tx_same s (reset_display_at_commit R s)"
  by (rule tx_sameI) (simp_all add: reset_display_at_commit_def reset_display_committed_def count_rejected_rx_def Let_def
      split: prod.split)

lemma diag_same [simp]: "tx_same s (core_diag_emit (core_sink P) src ev a b c d s)"
  by (rule tx_sameI) (simp_all add: core_diag_emit_def sink_diag_emit_def)

lemma commit_same:
  assumes "tx_same s s'"
  shows "tx_same s (core_diag_emit (core_sink P) src ev a b c d (reset_display_at_commit R s'))"
  by (rule tx_same_trans [OF assms tx_same_trans [OF display_reset_same diag_same]])

lemma serial_action_owned:
  assumes "tx_owned_by X s" "writes_in_pool P"
  shows "tx_owned_by X (snd (serial_run_action (core_sink P) R a st s))"
proof (cases a)
  case ActCancelClose
  obtain ok s1 where c: "sink_submit_control P SigClose 0 True s = (ok, s1)" by (meson surj_pair)
  have s1: "tx_owned_by X s1" using owned_same [OF assms(1)] control_same [of s P SigClose 0 True] c by simp
  then have "tx_owned_by X (push_error e k m (sink_owner_close P s1))" for e k m
    using owned_same [OF owner_close_owned [OF s1 assms(2)]] by simp
  then show ?thesis using ActCancelClose c s1 by (cases ok) (simp_all add: submit_control_def)
next
  case ActOpenCommit
  let ?s = "s\<lparr>c_open_generation := c_open_generation s + 1, c_generation := c_open_generation s + 1, c_text := text_state_init\<rparr>"
  have "tx_same s ?s" by (rule tx_sameI) simp_all
  then show ?thesis using ActOpenCommit owned_same [OF assms(1) commit_same] by (simp add: Let_def)
next
  case ActCloseCommit
  let ?s = "s\<lparr>c_generation := c_generation s + 1, c_text := text_state_init\<rparr>"
  have "tx_same s ?s" by (rule tx_sameI) simp_all
  then show ?thesis using ActCloseCommit owned_same [OF assms(1) commit_same] by (simp add: Let_def)
next
  case ActOpenFail
  then show ?thesis using owned_same [OF assms(1) diag_same] by simp
qed (use assms owner_open_owned owner_close_owned in auto)

lemma publish_owned: "tx_owned_by X s \<Longrightarrow> tx_owned_by X (snd (serial_publish st (st', s)))"
  by (erule owned_same, rule tx_sameI) (simp_all add: serial_publish_def)

lemma serial_transition_owned:
  assumes "tx_owned_by X (snd x)" "writes_in_pool P"
  shows "tx_owned_by X (snd (serial_transition (core_sink P) R ev x))"
proof (cases "serial_find_edge ev x")
  case None
  then show ?thesis using assms by (simp add: serial_transition_def)
next
  case (Some e)
  have p: "tx_owned_by X (snd (serial_publish st x))" for st
    using publish_owned [OF assms(1), of st "fst x"] by simp
  obtain o1 c1 where a1: "serial_run_action (core_sink P) R (se_action e) (se_to e) (snd (serial_publish (se_to e) x)) = (o1, c1)"
    by (meson surj_pair)
  obtain o2 c2 where a2: "serial_run_action (core_sink P) R (se_action e) (se_to e) (snd x) = (o2, c2)" by (meson surj_pair)
  have "tx_owned_by X c1" "tx_owned_by X c2"
    using serial_action_owned [OF p assms(2), of R "se_action e" "se_to e" "se_to e"]
      serial_action_owned [OF assms, of R "se_action e" "se_to e"] a1 a2 by simp_all
  then show ?thesis
    using Some a1 a2 by (auto simp: serial_transition_def Let_def publish_owned)
qed

lemma beat_same [simp]: "tx_same s (beat_dispatcher now s)"
  by (rule tx_sameI) (simp_all add: beat_dispatcher_def)

lemma serial_handlers_owned:
  assumes "tx_owned_by X (snd x)" "writes_in_pool P"
  shows "tx_owned_by X (snd (serial_do_open (core_sink P) R now x))"
    "tx_owned_by X (snd (serial_do_close (core_sink P) R now x))"
    "tx_owned_by X (snd (serial_do_fault (core_sink P) R now x))"
proof -
  note T = serial_transition_owned [OF _ assms(2)]
  have U: "tx_owned_by X (snd (fst y, f (snd y)))" if "tx_owned_by X (snd y)" "tx_same (snd y) (f (snd y))" for f and y :: owner
    using owned_same that by simp
  have b: "tx_owned_by X (beat_dispatcher now (snd x))" using owned_same [OF assms(1)] by simp
  have s: "tx_same y (y\<lparr>c_fault_pending := b\<rparr>)" "tx_same y (y\<lparr>c_cancel_open := b\<rparr>)" for y b by (auto intro: tx_sameI)
  have r: "tx_owned_by X (snd (serial_reconcile_pending_fault (core_sink P) R (st, y)))" if "tx_owned_by X y" for st y
    using T [of X "(st, y\<lparr>c_fault_pending := False\<rparr>)" R EvFault] owned_same [OF that s(1) [of y False]]
    by (simp add: serial_reconcile_pending_fault_def Let_def)
  have "tx_owned_by X (snd (serial_open_from (core_sink P) R y))" if "tx_owned_by X (snd y)" for y
    using T [OF T [OF that]] T [of X "(_, _\<lparr>c_cancel_open := False\<rparr>)"] owned_same [OF T [OF that] s(2)]
    by (simp add: serial_open_from_def Let_def)
  then show "tx_owned_by X (snd (serial_do_open (core_sink P) R now x))" using r [OF b] by (simp add: serial_do_open_def)
  show "tx_owned_by X (snd (serial_do_close (core_sink P) R now x))"
    using owned_same [OF T [OF T] s(1)] b by (simp add: serial_do_close_def Let_def)
  have "tx_owned_by X (snd (serial_transition (core_sink P) R EvFault (fst x, (beat_dispatcher now (snd x))\<lparr>c_fault_pending := False\<rparr>)))"
    using T owned_same [OF b s(1)] by simp
  then show "tx_owned_by X (snd (serial_do_fault (core_sink P) R now x))"
    using assms(1) by (auto simp: serial_do_fault_def Let_def intro!: owned_same [OF _ tx_same_trans [OF push_error_same diag_same]])
qed


section \<open>The handlers of the send path\<close>

definition writer_young :: "core_state \<Rightarrow> bool" where
  "writer_young s \<longleftrightarrow> unat (sw_write (k_writer s)) < 2 ^ 32 - 1"

lemma release_owned:
  assumes "tx_owned_by (add_mset (unat b) X) s"
  shows "\<exists>p. core_tx_release b s = Some (s\<lparr>c_tx := p\<rparr>) \<and> tx_release b (c_tx s) = Some p \<and> tx_owned_by X (s\<lparr>c_tx := p\<rparr>)"
  using release_held [of b "writer_claims (k_writer s) + X" s] assms
  by (auto simp: tx_owned_by_def core_tx_release_def)

lemma claim_in_pool: "tx_owned_by (add_mset (unat b) X) s \<Longrightarrow> unat b < 32 \<and> b \<noteq> no_block"
proof -
  assume "tx_owned_by (add_mset (unat b) X) s"
  then have "held (writer_claims (k_writer s) + add_mset (unat b) X) s" by (simp add: tx_owned_by_def)
  note held_used [OF this, of "unat b"] and this
  then have "unat b < 32" using used_bound [of "c_tx s" "unat b"] by (simp add: held_def)
  then show ?thesis by (auto simp: no_block_def)
qed

lemma fill_owned:
  assumes "tx_owned_by X s" "tx_try_alloc (c_tx s) = Some (b, q)" "length data \<le> kTxBlockBytes"
  shows "tx_owned_by (add_mset (unat b) X) (s\<lparr>c_tx := fixed_pool_write q (unat b) data\<rparr>)"
  using fill_held [of "writer_claims (k_writer s) + X" s b q data] assms by (simp add: tx_owned_by_def)

lemma enqueue_owned:
  assumes "tx_owned_by (add_mset (unat b) X) s" "writer_young s"
    "enqueue_write (core_sink P) b len gen auto_send s = (ok, s')"
  shows "if ok then tx_owned_by X s' else s' = s"
proof (cases "sw_active (k_writer s)")
  case False
  then show ?thesis using assms(3) by (simp add: enqueue_write_def core_sink_def sink_enqueue_write_def)
next
  case True
  let ?j = "\<lparr>wj_block = b, wj_len = len, wj_gen = gen, wj_auto_send = auto_send\<rparr>"
  have inv: "sw_inv (k_writer s)" using assms(1) by (simp add: tx_owned_by_def sw_ok_def)
  note e = sw_enqueue_spec [OF inv, of ?j]
  show ?thesis
  proof (cases "sw_try_enqueue (k_writer s) ?j")
    case None
    then show ?thesis using True assms(3) by (simp add: enqueue_write_def core_sink_def sink_enqueue_write_def)
  next
    case (Some w)
    have w: "sw_inv w" "sw_items w = sw_items (k_writer s) @ [?j]" "sw_active w"
      using e Some assms(2) True by (auto simp: writer_young_def sw_try_enqueue_def split: if_splits)
    then have "writer_claims w = add_mset (unat b) (writer_claims (k_writer s))" by (simp add: writer_claims_def)
    then have "tx_owned_by X (s\<lparr>k_writer := w\<rparr>)" using assms(1) w by (simp add: tx_owned_by_def sw_ok_def)
    then show ?thesis using Some True assms(3) by (auto simp: enqueue_write_def core_sink_def sink_enqueue_write_def)
  qed
qed

lemma beat_fields [simp]:
  "c_tx (beat_dispatcher now s) = c_tx s" "k_writer (beat_dispatcher now s) = k_writer s" "k_send (beat_dispatcher now s) = k_send s"
  by (simp_all add: beat_dispatcher_def)

lemma rejected_same [simp]: "tx_same s (count_tx_rejected s)"
  by (simp add: count_tx_rejected_def del: on_metrics_def)

lemma send_user_owned:
  assumes "tx_owned_by {#unat (td_block d)#} s" "writer_young s"
  shows "\<exists>s'. send_user_action (core_sink P) now d s = Some s' \<and> tx_owned_by {#} s'"
proof -
  let ?s = "beat_dispatcher now s"
  have o: "tx_owned_by {#unat (td_block d)#} ?s" using owned_same [OF assms(1)] by simp
  have y: "writer_young ?s" using assms(2) by (simp add: writer_young_def)
  obtain ok s1 where e: "enqueue_write (core_sink P) (td_block d) (td_length d) (td_generation d) False ?s = (ok, s1)"
    by (meson surj_pair)
  obtain p where r: "core_tx_release (td_block d) ?s = Some (?s\<lparr>c_tx := p\<rparr>)" "tx_owned_by {#} (?s\<lparr>c_tx := p\<rparr>)"
    using release_owned [of "td_block d" "{#}" ?s] o by auto
  have "tx_owned_by {#} (push_error e k m (count_tx_rejected (?s\<lparr>c_tx := p\<rparr>)))" for e k m
    using owned_same [OF r(2) tx_same_trans [OF rejected_same push_error_same]] .
  then show ?thesis
    using enqueue_owned [of "td_block d" "{#}" ?s P "td_length d" "td_generation d" False ok s1] o y e r
    by (auto simp: send_user_action_def Let_def)
qed

lemma gate_same [simp]: "tx_same s (s\<lparr>c_autosend_armed := b\<rparr>)"
  by (rule tx_sameI) simp_all

lemma template_in_pool:
  assumes "tx_owned_by X s" "sx_autosend_block (k_send s) \<noteq> no_block"
  shows "unat (sx_autosend_block (k_send s)) < 32"
proof -
  let ?C = "posted_claims (k_posted s) + template_claims (k_send s) + (writer_claims (k_writer s) + X)"
  have e: "?C = mset_set (fpool.used (c_tx s))" "tx_inv (c_tx s)" using assms(1) by (simp_all add: tx_owned_by_def held_def)
  have "unat (sx_autosend_block (k_send s)) \<in># ?C" using assms(2) by (simp add: template_claims_def)
  then have "unat (sx_autosend_block (k_send s)) \<in> fpool.used (c_tx s)" by (simp only: e) simp
  then show ?thesis using e(2) used_bound [of "c_tx s"] by simp
qed

lemma alloc_inv:
  assumes "tx_inv p" "tx_try_alloc p = Some (b, q)"
  shows "tx_inv q"
  using fpool.alloc_Some [OF tx_invD(1) [OF assms(1)]] tx_invD [OF assms(1)] assms(2)
  by (auto simp: tx_try_alloc_def tx_inv_def)

lemma send_autosend_owned:
  assumes "tx_owned_by {#} s" "writer_young s"
  shows "\<exists>s'. send_autosend_action (core_sink P) now (k_send s) s = Some s' \<and> tx_owned_by {#} s'"
proof -
  let ?s = "beat_dispatcher now s" let ?b = "sx_autosend_block (k_send s)" let ?n = "unat (sx_autosend_length (k_send s))"
  have o: "tx_owned_by {#} ?s" using owned_same [OF assms(1)] by simp
  have y: "writer_young ?s" using assms(2) by (simp add: writer_young_def)
  have g: "tx_owned_by {#} (?s\<lparr>c_autosend_armed := False\<rparr>)"
    "tx_owned_by {#} ((count_tx_rejected ?s)\<lparr>c_autosend_armed := False\<rparr>)"
    using owned_same [OF o gate_same] owned_same [OF o tx_same_trans [OF rejected_same gate_same]] .
  show ?thesis
  proof (cases "c_port_state ?s \<noteq> PORT_OPEN \<or> ?b = no_block \<or> ?n = 0 \<or> tx_try_alloc (c_tx ?s) = None")
    case True
    then show ?thesis using g by (auto simp: send_autosend_action_def Let_def simp del: beat_fields)
  next
    case False
    then obtain bid p where a: "tx_try_alloc (c_tx ?s) = Some (bid, p)" by auto
    have b: "unat ?b < 32" using template_in_pool [OF assms(1)] False by blast
    define data where "data = fixed_pool_read p (unat ?b) 0 ?n"
    have d: "tx_block p ?b ?n = Some data" using b by (simp add: tx_block_def data_def)
    have "tx_inv p" using alloc_inv [OF _ a] o by (simp add: tx_owned_by_def held_def)
    then have "length data \<le> kTxBlockBytes" using tx_invD(3) [of p "unat ?b"] b by (simp add: data_def fixed_pool_read_def fp_bytes_def)
    then have f: "tx_owned_by {#unat bid#} (?s\<lparr>c_tx := fixed_pool_write p (unat bid) data\<rparr>)" (is "tx_owned_by _ ?f")
      using fill_owned [OF o a] by simp
    have yf: "writer_young ?f" using y by (simp add: writer_young_def)
    obtain ok s1 where e: "enqueue_write (core_sink P) bid (of_nat ?n) (c_generation ?f) True ?f = (ok, s1)" by (meson surj_pair)
    obtain q where r: "core_tx_release bid ?f = Some (?f\<lparr>c_tx := q\<rparr>)" "tx_owned_by {#} (?f\<lparr>c_tx := q\<rparr>)"
      using release_owned [of bid "{#}" ?f] f by auto
    have "tx_owned_by {#} ((count_tx_rejected (?f\<lparr>c_tx := q\<rparr>))\<lparr>c_autosend_armed := False\<rparr>)"
      using owned_same [OF r(2) tx_same_trans [OF rejected_same gate_same]] .
    note rej = this
    have n: "?n \<noteq> 0" "c_port_state ?s = PORT_OPEN" "?b \<noteq> no_block" using False by auto
    have "send_autosend_action (core_sink P) now (k_send s) s =
        (if ok then Some s1 else core_tx_release bid s1 \<bind> (\<lambda>c3. Some ((count_tx_rejected c3)\<lparr>c_autosend_armed := False\<rparr>)))"
      unfolding send_autosend_action_def Let_def a option.case prod.case d bind.bind_lunit e using n by simp
    moreover have "if ok then tx_owned_by {#} s1 else s1 = ?f" using enqueue_owned [OF _ yf e] f by simp
    ultimately show ?thesis using r(1) rej by (cases ok) simp_all
  qed
qed


lemma template_release:
  assumes "tx_owned_by X c"
  shows "\<exists>c2. (if sx_autosend_block (k_send c) \<noteq> no_block then core_tx_release (sx_autosend_block (k_send c)) c else Some c) = Some c2 \<and>
    tx_owned_by X (c2\<lparr>k_send := send_ctx_init\<rparr>)"
proof (cases "sx_autosend_block (k_send c) = no_block")
  case True
  then show ?thesis using assms by (simp add: tx_owned_by_def held_def template_claims_def send_ctx_init_def)
next
  case False
  then have "tx_owned_by (add_mset (unat (sx_autosend_block (k_send c))) X) (c\<lparr>k_send := send_ctx_init\<rparr>)"
    using assms by (simp add: tx_owned_by_def held_def template_claims_def send_ctx_init_def)
  then obtain p where p: "tx_release (sx_autosend_block (k_send c)) (c_tx c) = Some p"
    "tx_owned_by X (c\<lparr>k_send := send_ctx_init, c_tx := p\<rparr>)" using release_owned by fastforce
  have "tx_owned_by X (c\<lparr>c_tx := p, k_send := send_ctx_init\<rparr>)" by (rule owned_same [OF p(2)], rule tx_sameI) simp_all
  then show ?thesis using False p(1) by (simp add: core_tx_release_def)
qed

lemma template_install:
  assumes "tx_owned_by {#unat b#} (c\<lparr>k_send := send_ctx_init\<rparr>)"
  shows "tx_owned_by {#} (c\<lparr>k_send := \<lparr>sx_autosend_block = b, sx_autosend_length = n, sx_autosend_interval_ms = i\<rparr>\<rparr>)"
proof -
  have "b \<noteq> no_block" using claim_in_pool [of b "{#}"] assms by simp
  then show ?thesis using assms by (simp add: tx_owned_by_def held_def template_claims_def send_ctx_init_def)
qed

lemma autosend_config_owned:
  assumes "tx_owned_by (event_claims (PostConfig d)) s"
  shows "\<exists>ctx s'. autosend_config_action (core_sink P) now d (k_send s) s = Some (ctx, s') \<and> tx_owned_by {#} (s'\<lparr>k_send := ctx\<rparr>)"
proof -
  let ?s = "beat_dispatcher now s" let ?enable = "at_interval_ms d \<noteq> 0"
  let ?valid = "\<not> ?enable \<or> (at_block d \<noteq> no_block \<and> at_length d \<noteq> 0 \<and> unat (at_length d) \<le> kTxBlockBytes)"
  have o: "tx_owned_by (event_claims (PostConfig d)) ?s" using owned_same [OF assms] by simp
  have set: "call_autosend_set (core_sink P) n c = autosend_set_impl P n c" for n c
    by (simp add: call_autosend_set_def core_sink_def)
  show ?thesis
  proof (cases ?valid)
    case False
    then have c: "tx_owned_by {#unat (at_block d)#} ?s" "at_block d \<noteq> no_block"
      using o claim_in_pool [of "at_block d" "{#}" ?s] by auto
    obtain p where r: "core_tx_release (at_block d) ?s = Some (?s\<lparr>c_tx := p\<rparr>)" "tx_owned_by {#} (?s\<lparr>c_tx := p\<rparr>)"
      using release_owned [of "at_block d" "{#}" ?s] c by auto
    let ?e = "push_error XCOM_ERR_PARAM 0 ''invalid auto-send template'' (?s\<lparr>c_tx := p\<rparr>)"
    have "autosend_config_action (core_sink P) now d (k_send s) s = Some (k_send s, ?e)"
      using False c(2) r(1) by (simp add: autosend_config_action_def Let_def)
    moreover have "tx_owned_by {#} (?e\<lparr>k_send := k_send s\<rparr>)"
      by (rule owned_same [OF r(2)], rule tx_sameI) simp_all
    ultimately show ?thesis by blast
  next
    case True
    let ?c1 = "autosend_set_impl P 0 ?s"
    have c1: "tx_owned_by (event_claims (PostConfig d)) ?c1" "k_send ?c1 = k_send s"
      using owned_same [OF o autosend_set_same] autosend_set_same [of ?s P 0] by (simp_all add: tx_same_def)
    obtain c2 where c2: "(if sx_autosend_block (k_send s) \<noteq> no_block then core_tx_release (sx_autosend_block (k_send s)) ?c1 else Some ?c1) = Some c2"
      "tx_owned_by (event_claims (PostConfig d)) (c2\<lparr>k_send := send_ctx_init\<rparr>)"
      using template_release [OF c1(1)] unfolding c1(2) by blast
    let ?c3 = "c2\<lparr>c_autosend_armed := False\<rparr>"
    have c3: "tx_owned_by (event_claims (PostConfig d)) (?c3\<lparr>k_send := send_ctx_init\<rparr>)"
      by (rule owned_same [OF c2(2)], rule tx_sameI) simp_all
    let ?new = "\<lparr>sx_autosend_block = at_block d, sx_autosend_length = at_length d, sx_autosend_interval_ms = at_interval_ms d\<rparr>"
    have r: "autosend_config_action (core_sink P) now d (k_send s) s =
        Some (if \<not> ?enable then (send_ctx_init, ?c3) else (?new, autosend_set_impl P (at_interval_ms d) ?c3))"
      unfolding autosend_config_action_def Let_def set c2(1) bind.bind_lunit using True by simp
    show ?thesis
    proof (cases ?enable)
      case False
      then show ?thesis using r c3 by simp
    next
      case en: True
      let ?c4 = "autosend_set_impl P (at_interval_ms d) ?c3"
      have "tx_same (?c3\<lparr>k_send := send_ctx_init\<rparr>) (?c4\<lparr>k_send := send_ctx_init\<rparr>)"
        using autosend_set_same [of ?c3 P "at_interval_ms d"] by (simp add: tx_same_def)
      then have "tx_owned_by {#unat (at_block d)#} (?c4\<lparr>k_send := send_ctx_init\<rparr>)"
        using owned_same [OF c3] en by simp
      then show ?thesis using r en template_install by simp
    qed
  qed
qed

section \<open>The other handlers\<close>

lemma format_block_same: "tx_same s (snd (rx_format_block R bytes ms unlogged s))"
  by (rule tx_sameI) (simp_all add: rx_format_block_def Let_def split: option.split prod.split)

lemma kick_loop_same: "tx_same s (snd (rx_kick_loop n A d s))"
proof (induction n arbitrary: d s)
  case (Suc n)
  define got where "got = (case d of Some d \<Rightarrow> Some (d, s)
    | None \<Rightarrow> map_option (\<lambda>(d, l). (d, s\<lparr>c_rx := l\<rparr>)) (rx_pop_display (ra_rx A) (c_rx s)))"
  show ?case
  proof (cases got)
    case None
    then show ?thesis by (simp add: got_def)
  next
    case (Some r)
    obtain e s1 where r: "r = (e, s1)" by (meson surj_pair)
    have s1: "tx_same s s1" using Some r by (auto simp: got_def intro: tx_sameI split: option.splits)
    let ?bytes = "take (rx_payload_len e) (rl_payload (c_rx s1) ! rr_event e)" let ?u = "rr_len e AND kDisplayUnloggedBit \<noteq> 0"
    obtain ok s2 where f: "rx_format_block (ra_ring A) ?bytes (rr_ingress_ms e) ?u s1 = (ok, s2)" by (meson surj_pair)
    have s2: "tx_same s s2" using tx_same_trans [OF s1] format_block_same [of s1] f by (metis snd_conv)
    let ?s3 = "resume_rx (s2\<lparr>c_rx := rx_release (ra_rx A) (rr_event e) (c_rx s2)\<rparr>)"
    have "tx_same s ?s3" by (rule tx_same_trans [OF s2 tx_sameI]) (simp_all add: resume_rx_def)
    then show ?thesis
      using Some r f s2 tx_same_trans [OF _ Suc.IH] by (cases ok) (simp_all add: got_def [symmetric])
  qed
qed simp

lemma submit_kick_same: "tx_same s (snd (submit_rx_kick (core_sink P) s))"
  by (simp add: submit_rx_kick_def sink_submit_rx_kick_def post_def kick_disarm_def tx_same_def routed_def Let_def split: prod.split)

lemma kick_action_same: "tx_same s (snd (rx_kick_action (core_sink P) A d s))"
proof -
  obtain d' s1 where l: "rx_kick_loop 4 A d (beat_dispatcher (ra_now_ms A) s) = (d', s1)" by (meson surj_pair)
  have s1: "tx_same s s1"
    using tx_same_trans [OF beat_same kick_loop_same] l by (metis snd_conv)
  have "tx_same s (kick_disarm s1)" "tx_same s ((kick_disarm s1)\<lparr>c_kick := True\<rparr>)"
    by (rule tx_same_trans [OF s1 tx_sameI], simp_all add: kick_disarm_def)+
  then show ?thesis
    using tx_same_trans [OF _ submit_kick_same [of "(kick_disarm s1)\<lparr>c_kick := True\<rparr>" P]] l
    by (auto simp: rx_kick_action_def Let_def kick_try_arm_def simp del: rx_kick_loop.simps split: prod.splits if_splits)
qed

lemma diag_tick_same: "tx_same s (diag_tick_action (core_sink P) now s)"
  using tx_same_trans [OF beat_same diag_same] by (simp add: diag_tick_action_def Let_def)

lemma writer_job_owned:
  assumes "tx_owned_by {#} s"
  shows "\<exists>s'. writer_job P s = Some s' \<and> tx_owned_by {#} s'"
proof (cases "sw_try_pop (k_writer s)")
  case None
  then show ?thesis using assms by (simp add: writer_job_def)
next
  case (Some r)
  then obtain j w where p: "sw_try_pop (k_writer s) = Some (j, w)" by (cases r) simp
  have inv: "sw_inv (k_writer s)" using assms by (simp add: tx_owned_by_def sw_ok_def)
  note c = pop_claims [OF inv p]
  let ?s = "s\<lparr>k_writer := w\<rparr>"
  have s: "tx_owned_by {#unat (wj_block j)#} ?s"
    using assms c by (auto simp: tx_owned_by_def sw_ok_def)
  define out where "out = (if wj_gen j = c_generation ?s \<and> c_port_state ?s = PORT_OPEN
    then sink_owner_write P (wj_block j) (wj_len j) ?s else (XCOM_ERR_NOT_OPEN, ?s))"
  obtain st s1 where o: "out = (st, s1)" by (meson surj_pair)
  have "unat (wj_block j) < 32" using claim_in_pool [of "wj_block j" "{#}" ?s] s by simp
  then have "tx_same ?s (snd out)" using owner_write_same by (simp add: out_def)
  then have s1: "tx_owned_by {#unat (wj_block j)#} s1" using owned_same [OF s] o by simp
  obtain q where r: "core_tx_release (wj_block j) s1 = Some (s1\<lparr>c_tx := q\<rparr>)" "tx_owned_by {#} (s1\<lparr>c_tx := q\<rparr>)"
    using release_owned [of "wj_block j" "{#}" s1] s1 by auto
  let ?s3 = "if wj_auto_send j then s1\<lparr>c_tx := q, c_autosend_armed := False\<rparr> else s1\<lparr>c_tx := q\<rparr>"
  have s3: "tx_owned_by {#} ?s3" using r(2) owned_same [OF r(2) gate_same, of False] by simp
  have "writer_job P s = Some (if st \<noteq> XCOM_OK \<and> wj_gen j = c_generation ?s
      then core_diag_emit (core_sink P) 0 DgWriteFail (of_int st) (c_generation (push_error st 0 ''serial write failed'' ?s3)) 0 0
             (push_error st 0 ''serial write failed'' ?s3)
      else ?s3)"
  proof -
    have "(if wj_gen j = c_generation ?s \<and> c_port_state ?s = PORT_OPEN then
             (case sk_owner_write (core_sink P) of Some f \<Rightarrow> f (wj_block j) (wj_len j) ?s
              | None \<Rightarrow> (XCOM_OK, on_metrics (\<lambda>m. m\<lparr>m_tx_bytes := m_tx_bytes m + ucast (wj_len j)\<rparr>) ?s))
           else (XCOM_ERR_NOT_OPEN, ?s)) = (st, s1)"
      using o by (auto simp: out_def)
    then show ?thesis
      unfolding writer_job_def p option.case prod.case sw_execute_def Let_def
      by (simp only: prod.case r(1) bind.bind_lunit)
  qed
  then show ?thesis
    using s3 owned_same [OF s3 tx_same_trans [OF push_error_same diag_same]] by auto
qed


section \<open>The clients and the reader\<close>

lemma give_back_owned:
  assumes "tx_owned_by {#unat b#} s"
  shows "tx_owned_by {#} (give_back_block b s)"
  using release_owned [of b "{#}" s] assms by (auto simp: give_back_block_def)

text \<open>No event is mergeable, so the coordinator merges none.\<close>

definition never_merged :: "platform \<Rightarrow> bool" where
  "never_merged P \<longleftrightarrow> (\<forall>s e c. pf_submit P s e c \<noteq> SdMerged)"

lemma post_claim:
  assumes "tx_owned_by (event_claims e + X) s" "routed e"
  shows "tx_owned_by X (s\<lparr>k_posted := k_posted s @ [e]\<rparr>)"
  using assms by (simp add: tx_owned_by_def held_def ac_simps)

lemma submit_write_owned:
  assumes "tx_owned_by {#unat (td_block d)#} s" "never_merged P" "submit_write (core_sink P) d s = (st, s')"
  shows "if st = XCOM_OK then tx_owned_by {#} s' else tx_owned_by {#unat (td_block d)#} s'"
proof -
  have "tx_owned_by {#} (s\<lparr>k_posted := k_posted s @ [PostSend d]\<rparr>)"
    using post_claim [of "PostSend d" "{#}" s] assms(1) by (simp add: routed_def)
  moreover have "pf_submit P s (PostSend d) False \<noteq> SdMerged" using assms(2) by (simp add: never_merged_def)
  ultimately show ?thesis
    using assms(1,3)
    by (cases "pf_submit P s (PostSend d) False")
      (auto simp: submit_write_def sink_submit_write_def post_def disposition_accepted_def Let_def split: if_splits)
qed

lemma submit_config_owned:
  assumes "tx_owned_by (event_claims (PostConfig d)) s" "submit_autosend_config (core_sink P) d s = (ok, s')"
  shows "if ok then tx_owned_by {#} s' else s' = s"
proof -
  have "tx_owned_by {#} (s\<lparr>k_posted := k_posted s @ [PostConfig d]\<rparr>)"
    using post_claim [of "PostConfig d" "{#}" s] assms(1) by (simp add: routed_def)
  then show ?thesis
    using assms(2)
    by (auto simp: submit_autosend_config_def sink_submit_autosend_config_def post_def Let_def split: if_splits)
qed

lemma send_bytes_owned:
  assumes "tx_owned_by {#} s" "never_merged P"
  shows "tx_owned_by {#} (snd (send_bytes P data s))"
proof (cases "data = [] \<or> length data > kTxBlockBytes \<or> c_port_state s \<noteq> PORT_OPEN \<or> tx_try_alloc (c_tx s) = None")
  case True
  then show ?thesis using assms(1) owned_same [OF assms(1) rejected_same] by (auto simp: send_bytes_def)
next
  case False
  then obtain b q where a: "tx_try_alloc (c_tx s) = Some (b, q)" by auto
  let ?s1 = "tx_fill b data (s\<lparr>c_tx := q\<rparr>)"
  let ?d = "\<lparr>td_block = b, td_length = of_nat (length data), td_generation = c_generation ?s1\<rparr>"
  have "tx_owned_by {#unat b#} (s\<lparr>c_tx := fixed_pool_write q (unat b) data\<rparr>)"
    using fill_owned [OF assms(1) a, of data] False by simp
  then have s1: "tx_owned_by {#unat (td_block ?d)#} ?s1" by (simp add: tx_fill_def)
  obtain st s2 where w: "submit_write (core_sink P) ?d ?s1 = (st, s2)" by (meson surj_pair)
  note s2 = submit_write_owned [OF s1 assms(2) w]
  show ?thesis
  proof (cases "st = XCOM_OK")
    case True
    then show ?thesis using False a w s2 by (simp add: send_bytes_def Let_def)
  next
    case n: False
    have g: "tx_owned_by {#} (count_tx_rejected (give_back_block b s2))"
      using owned_same [OF give_back_owned rejected_same] s2 n by simp
    show ?thesis using False a w n g owned_same [OF g metrics_same] by (simp add: send_bytes_def Let_def)
  qed
qed

lemma set_auto_owned:
  assumes "tx_owned_by {#} s"
  shows "tx_owned_by {#} (snd (set_auto_template P data n interval s))"
proof -
  note rej = owned_same [OF _ rejected_same]
  consider "interval \<noteq> 0 \<and> data = None \<or> n > kTxBlockBytes \<or> interval \<noteq> 0 \<and> tx_try_alloc (c_tx s) = None"
    | "n \<le> kTxBlockBytes" "interval = 0"
    | b q where "n \<le> kTxBlockBytes" "interval \<noteq> 0" "data \<noteq> None" "tx_try_alloc (c_tx s) = Some (b, q)"
    using linorder_le_less_linear [of n kTxBlockBytes] by (cases "tx_try_alloc (c_tx s)"; cases "interval = 0"; cases data) force+
  then show ?thesis
  proof cases
    case 1
    then show ?thesis using assms rej [OF assms] by (auto simp: set_auto_template_def)
  next
    case 2
    let ?d = "\<lparr>at_block = 0xFFFF, at_length = 0, at_interval_ms = 0\<rparr>"
    obtain ok s1 where w: "submit_autosend_config (core_sink P) ?d s = (ok, s1)" by (meson surj_pair)
    have "if ok then tx_owned_by {#} s1 else s1 = s" using submit_config_owned [OF _ w] assms by simp
    then show ?thesis using 2 w assms rej [OF assms] by (cases ok) (simp_all add: set_auto_template_def)
  next
    case 3
    let ?s1 = "tx_fill b (take n (the data)) (s\<lparr>c_tx := q\<rparr>)"
    let ?d = "\<lparr>at_block = b, at_length = of_nat n, at_interval_ms = interval\<rparr>"
    have "length (take n (the data)) \<le> kTxBlockBytes" using 3(1) by simp
    from fill_owned [OF assms 3(4) this] have s1: "tx_owned_by (event_claims (PostConfig ?d)) ?s1"
      using 3(2) by (simp add: tx_fill_def)
    obtain ok s2 where w: "submit_autosend_config (core_sink P) ?d ?s1 = (ok, s2)" by (meson surj_pair)
    note s2 = submit_config_owned [OF s1 w]
    show ?thesis
    proof (cases ok)
      case True
      then show ?thesis using 3 w s2 by (auto simp: set_auto_template_def Let_def)
    next
      case False
      then have "tx_owned_by {#} (count_tx_rejected (give_back_block b s2))"
        using rej [OF give_back_owned] s1 s2 3(2) by simp
      then show ?thesis using 3 w False by (auto simp: set_auto_template_def Let_def)
    qed
  qed
qed

lemma submit_control_same: "tx_same s (snd (submit_control (core_sink P) sig w crit s))"
  using control_same by (simp add: submit_control_def)

lemma queue_open_same: "tx_same s (snd (queue_open P config s))"
proof (cases "open_refusal s config")
  case (Some e)
  then show ?thesis by (simp add: queue_open_def)
next
  case None
  let ?name = "snd (port_name_from_config config)"
  obtain named s1 where n: "sync_port_name (Some ?name) s = (named, s1)" by (meson surj_pair)
  have s1: "tx_same s s1" using n by (auto simp: sync_port_name_def tx_same_def split: if_splits)
  let ?s4 = "push_error 0 0 ''open requested''
      (s1\<lparr>c_virtual_port := is_virtual_port ?name, c_cfg := or_cfg (the config), c_last_open_result := XCOM_ERR_BUSY, c_cancel_open := False\<rparr>)"
  have s4: "tx_same s ?s4" by (rule tx_same_trans [OF s1], rule tx_sameI) simp_all
  obtain ok s5 where c: "submit_control (core_sink P) SigOpen 0 False ?s4 = (ok, s5)" by (meson surj_pair)
  have s5: "tx_same s s5" using tx_same_trans [OF s4 submit_control_same] c by (metis snd_conv)
  have "tx_same s (push_error e k m (s5\<lparr>c_last_open_result := r\<rparr>))" for e k m r
    by (rule tx_same_trans [OF s5], rule tx_sameI) simp_all
  then show ?thesis
    using None n s5 c tx_same_trans [OF s1 push_error_same]
    by (cases named; cases ok) (simp_all add: queue_open_def Let_def)
qed

lemma close_request_same: "tx_same s (snd (close_session P [] s))"
proof -
  let ?s1 = "if c_port_state s = PORT_OPENING \<or> c_last_open_result s = XCOM_ERR_BUSY then s\<lparr>c_cancel_open := True\<rparr> else s"
  have s1: "tx_same s ?s1" by (auto intro: tx_sameI)
  obtain ok s2 where c: "submit_control (core_sink P) SigClose 0 True ?s1 = (ok, s2)" by (meson surj_pair)
  have "tx_same s s2" using tx_same_trans [OF s1 submit_control_same] c by (metis snd_conv)
  then show ?thesis
    using c tx_same_trans [OF _ push_error_same] by (cases ok) (auto simp: close_session_def Let_def)
qed

lemma kick_if_same: "tx_same s (kick_if P b s)"
proof (cases "b \<and> \<not> c_kick s")
  case True
  have "tx_same s (s\<lparr>c_kick := True\<rparr>)" by (rule tx_sameI) simp_all
  then show ?thesis using True tx_same_trans [OF _ submit_kick_same] by (simp add: kick_if_def kick_try_arm_def)
qed (auto simp: kick_if_def kick_try_arm_def)

lemma set_options_same: "tx_same s (snd (set_options P d s))"
proof -
  let ?s1 = "s\<lparr>c_hex_view := flag (do_hex_view d), c_timestamp := flag (do_timestamp d), c_pause_display := flag (do_pause_display d)\<rparr>"
  have "tx_same s ?s1" by (rule tx_sameI) simp_all
  then show ?thesis using tx_same_trans [OF _ kick_if_same] by (simp add: set_options_def Let_def)
qed

lemma set_lines_same: "tx_same s (snd (set_lines P dtr rts s))"
  by (auto simp: set_lines_def sink_owner_set_lines_def Let_def split: prod.splits)

lemma drain_same: "tx_same s (snd (drain_step P R capacity s))"
proof -
  obtain r l where d: "dl_drain_into R capacity (c_generation s) (c_display s) = (r, l)" by (meson surj_pair)
  have s1: "tx_same s (s\<lparr>c_display := l\<rparr>)" by (rule tx_sameI) simp_all
  show ?thesis
    using d s1 tx_same_trans [OF s1 kick_if_same] tx_same_trans [OF tx_same_trans [OF s1 metrics_same] kick_if_same]
    by (simp add: drain_step_def Let_def del: on_metrics_def)
qed


text \<open>The reader's callback, when it need not wait.\<close>

lemma ingress_loop_same:
  "rx_ingress_loop (core_ingress_env P) fl [] p b u e s = InDone s' r b' u' e' \<Longrightarrow> tx_same s s'"
proof (induction "length p" arbitrary: p b u e s rule: less_induct)
  case less
  note step = less.prems [unfolded rx_ingress_loop.simps [of "core_ingress_env P" fl "[]" p]]
  have stall: "tx_same s (rx_note_stall s)"
    by (rule tx_sameI) (simp_all add: rx_note_stall_def Let_def)
  show ?case
  proof (cases "p = [] \<or> rx_try_alloc (ie_rx (core_ingress_env P)) fl (c_rx s) = None")
    case True
    then show ?thesis using step stall by (auto simp: Let_def split: if_splits)
  next
    case False
    then obtain ev ok l1 where a: "rx_try_alloc (ie_rx (core_ingress_env P)) fl (c_rx s) = Some (ev, ok, l1)" by auto
    define n where "n = (if length p > kRxBlockBytes then kRxBlockBytes else length p)"
    have n: "0 < n" using False by (auto simp: n_def)
    note step1 = step [unfolded if_not_P [OF conjunct1 [OF False [unfolded de_Morgan_disj]]] a option.case prod.case Let_def, folded n_def]
    obtain shown l2 where q: "rx_publish (ie_rx (core_ingress_env P)) (rx_segment_ref (ie_now_ms (core_ingress_env P)) ev n s) fl ok
        (rx_copy_in ev (take n p) l1) = Some (shown, l2)"
      using step1 by (auto split: option.splits)
    define s4 where "s4 = on_metrics (\<lambda>m. m\<lparr>m_rx_bytes := m_rx_bytes m + of_nat n\<rparr>)
        ((on_metrics (\<lambda>m. m\<lparr>m_rx_seq := m_rx_seq m + 1\<rparr>) s)\<lparr>c_rx := l2\<rparr>)"
    have s4: "tx_same s s4" by (rule tx_sameI) (simp_all add: s4_def)
    have "rx_ingress_loop (core_ingress_env P) fl [] (drop n p) (if shown then b else b + of_nat n) u e s4 = InDone s' r b' u' e'"
    proof -
      have "(if fl then ie_wake_rx (core_ingress_env P) x else x) = x" for x by (simp add: core_ingress_env_def)
      then show ?thesis using step1 [unfolded q option.case prod.case] unfolding s4_def by (simp only:)
    qed
    from less.hyps [OF _ this] n False have "tx_same s4 s'" by simp
    then show ?thesis using tx_same_trans [OF s4] by blast
  qed
qed

lemma reject_same: "tx_same s (rx_ingress_reject (core_sink P) n s)"
proof -
  have "tx_same s (count_rejected_rx n s)" by (rule tx_sameI) (simp_all add: count_rejected_rx_def)
  then show ?thesis using tx_same_trans [OF _ diag_same] by (simp add: rx_ingress_reject_def Let_def)
qed

lemma account_same: "tx_same s (snd (rx_ingress_account (core_sink P) (core_ingress_env P) fl n r b u e s))"
proof -
  define c1 where "c1 = (if e then on_metrics (\<lambda>m. m\<lparr>m_rx_file_blocked_ms := m_rx_file_blocked_ms m + ie_elapsed_ms (core_ingress_env P)\<rparr>) s else s)"
  define c' where "c' = on_metrics (\<lambda>m. m\<lparr>m_rx_pool_exhausted_bytes := m_rx_pool_exhausted_bytes m + b, m_rx_loss_offset := m_rx_bytes m\<rparr>) c1"
  define c2 where "c2 = (if b \<noteq> 0 then core_diag_emit (core_sink P) 0 DgRxDrop b (m_rx_pool_exhausted_bytes (c_metrics c')) 0 0 c' else c1)"
  define c3 where "c3 = (if u \<noteq> 0 then rx_ingress_reject (core_sink P) u c2 else c2)"
  define c4 where "c4 = (if n - length r \<noteq> 0
    then (case kick_try_arm c3 of (True, c') \<Rightarrow> snd (submit_rx_kick (core_sink P) c') | (False, c') \<Rightarrow> c') else c3)"
  have 1: "tx_same s c1" by (simp add: c1_def del: on_metrics_def)
  have "tx_same c1 c'" by (simp add: c'_def del: on_metrics_def)
  then have 2: "tx_same c1 c2" using tx_same_trans [OF _ diag_same] by (simp add: c2_def)
  have 3: "tx_same c2 c3" by (simp add: c3_def reject_same)
  have k: "tx_same x (x\<lparr>c_kick := True\<rparr>)" for x by (rule tx_sameI) simp_all
  have 4: "tx_same c3 c4"
    using tx_same_trans [OF k submit_kick_same] by (simp add: c4_def kick_try_arm_def)
  have "tx_same c4 (if fl then ie_release_lease (core_ingress_env P) c4 else c4)"
    by (rule tx_sameI) (simp_all add: core_ingress_env_def)
  then have "tx_same s (if fl then ie_release_lease (core_ingress_env P) c4 else c4)"
    using 1 2 3 4 tx_same_trans by blast
  then show ?thesis
    unfolding rx_ingress_account_def c1_def c'_def c2_def c3_def c4_def Let_def snd_conv .
qed

lemma ingress_same:
  assumes "rx_ingress (core_sink P) (core_ingress_env P) [] data s = Returned res s'"
  shows "tx_same s s'"
proof -
  let ?c1 = "on_metrics (\<lambda>m. m\<lparr>m_callback_count := m_callback_count m + 1\<rparr>) s"
  obtain fl c2 where l: "ie_acquire_lease (core_ingress_env P) ?c1 = (fl, c2)" by (meson surj_pair)
  have c2: "tx_same s c2"
    using l by (intro tx_sameI) (auto simp: core_ingress_env_def split: if_splits option.splits)
  show ?thesis
  proof (cases "data = [] \<or> c_port_state s \<noteq> PORT_OPEN")
    case True
    then show ?thesis using assms reject_same by (auto simp: rx_ingress_def split: if_splits)
  next
    case False
    then obtain c3 rest b u e c4 r where
      "rx_ingress_loop (core_ingress_env P) fl [] data 0 0 False c2 = InDone c3 rest b u e"
      "rx_ingress_account (core_sink P) (core_ingress_env P) fl (length data) rest b u e c3 = (r, c4)" "s' = c4"
      using assms l by (auto simp: rx_ingress_def Let_def split: ingress_end.splits prod.splits)
    then show ?thesis
      using tx_same_trans [OF tx_same_trans [OF c2 ingress_loop_same] account_same] by (metis snd_conv)
  qed
qed

lemma read_callback_same:
  assumes "serial_read_callback (core_sink P) (core_ingress_env P) [] data s = Returned res s'"
  shows "tx_same s s'"
proof (cases "data = []")
  case True
  then show ?thesis using assms by (simp add: serial_read_callback_def)
next
  case False
  let ?c1 = "s\<lparr>c_in_callback := c_in_callback s + 1\<rparr>"
  have c1: "tx_same s ?c1" by (rule tx_sameI) simp_all
  have leave: "tx_same x (x\<lparr>c_in_callback := n\<rparr>)" for x n by (rule tx_sameI) simp_all
  show ?thesis
  proof (cases "c_callback_admission ?c1")
    case True
    then obtain c2 r where i: "rx_ingress (core_sink P) (core_ingress_env P) [] data ?c1 = Returned r c2" "s' = c2\<lparr>c_in_callback := c_in_callback c2 - 1\<rparr>"
      using assms False by (auto simp: serial_read_callback_def Let_def split: ingress_outcome.splits)
    show ?thesis using tx_same_trans [OF tx_same_trans [OF c1 ingress_same [OF i(1)]] leave] i(2) by simp
  next
    case n: False
    then show ?thesis
      using assms False tx_same_trans [OF tx_same_trans [OF c1 reject_same] leave] by (auto simp: serial_read_callback_def Let_def)
  qed
qed


section \<open>Runs of the whole core\<close>

lemma table_routes:
  assumes "hsm_documented hsm" "event_target e \<noteq> None"
  shows "event_action hsm e =
    Some (case e of PostKick \<Rightarrow> RunRxKick | PostSend d \<Rightarrow> RunSendUser | PostConfig d \<Rightarrow> RunAutosendConfig
          | PostControl sig \<Rightarrow> (if sig = SigOpen then RunOpen else if sig = SigClose then RunClose
              else if sig = SigFault then RunFault else if sig = SigAutosend then RunSendAutosend else RunDiagTick))"
proof (cases e)
  case (PostControl sig)
  then show ?thesis using assms by (cases sig) (simp_all add: event_action_def hsm_documented_def ao_tables)
qed (use assms in \<open>simp_all add: event_action_def hsm_documented_def ao_tables\<close>)

lemma claims_without:
  assumes "i < length es"
  shows "posted_claims es = event_claims (es ! i) + posted_claims (take i es @ drop (Suc i) es)"
proof -
  have "posted_claims es = posted_claims (take i es @ es ! i # drop (Suc i) es)"
    by (simp add: id_take_nth_drop [OF assms, symmetric])
  then show ?thesis by (simp add: ac_simps)
qed

lemma take_event_owned:
  assumes "tx_owned_by {#} s" "i < length (k_posted s)"
  shows "tx_owned_by (event_claims (k_posted s ! i)) (take_event i s)" "routed (k_posted s ! i)"
proof -
  have all: "list_all routed (k_posted s)" using assms(1) by (simp add: tx_owned_by_def held_def)
  then have "list_all routed (take i (k_posted s) @ drop (Suc i) (k_posted s))"
    by (auto simp: list_all_iff dest: in_set_takeD in_set_dropD)
  then show "tx_owned_by (event_claims (k_posted s ! i)) (take_event i s)"
    using assms(1) claims_without [OF assms(2)] by (auto simp: tx_owned_by_def held_def take_event_def ac_simps)
  show "routed (k_posted s ! i)" using all assms(2) by (simp add: list_all_length)
qed

lemma dispatch_owned:
  assumes "tx_owned_by {#} (snd x)" "writer_young (snd x)" "i < length (k_posted (snd x))" "hsm_documented hsm" "writes_in_pool P"
  shows "\<exists>y. dispatch P hsm R now i x = Some y \<and> tx_owned_by {#} (snd y)"
proof -
  let ?e = "k_posted (snd x) ! i" let ?s = "take_event i (snd x)" let ?x = "(fst x, ?s)"
  note t = take_event_owned [OF assms(1,3)]
  have y: "writer_young ?s" using assms(2) by (simp add: writer_young_def take_event_def)
  note r = table_routes [OF assms(4) t(2) [unfolded routed_def]]
  have d: "dispatch P hsm R now i x = (case event_action hsm ?e of None \<Rightarrow> Some ?x | Some a \<Rightarrow> run_action P R now a ?e ?x)"
    by (simp add: dispatch_def Let_def)
  show ?thesis
  proof (cases ?e)
    case PostKick
    let ?k = "rx_kick_action (core_sink P) \<lparr>ra_rx = pf_rx P, ra_ring = R, ra_now_ms = now\<rparr> (k_deferred ?s) ?s"
    have "tx_same ?s ((snd ?k)\<lparr>k_deferred := fst ?k\<rparr>)"
      by (rule tx_same_trans [OF kick_action_same tx_sameI]) simp_all
    then show ?thesis using d r t(1) PostKick owned_same by (simp add: case_prod_beta)
  next
    case (PostSend td)
    then show ?thesis using d r t(1) send_user_owned [of td ?s P now] y by auto
  next
    case (PostConfig at)
    then show ?thesis using d r t(1) autosend_config_owned [of at ?s P now] by fastforce
  next
    case (PostControl sig)
    have o: "tx_owned_by {#} (snd ?x)" using t(1) PostControl by simp
    note h = serial_handlers_owned [OF o assms(5), of R now]
    have "\<exists>z. send_autosend_action (core_sink P) now (k_send ?s) ?s = Some z \<and> tx_owned_by {#} z"
      using send_autosend_owned [of ?s P now] o y by simp
    moreover have "tx_owned_by {#} (diag_tick_action (core_sink P) now ?s)" using owned_same [OF _ diag_tick_same] o by simp
    ultimately show ?thesis using d r h PostControl by (auto simp del: split_paired_Ex)
  qed
qed

text \<open>A call of a client, by the function behind the ABI's handle check.\<close>

datatype client_call = ClSend "u8 list" | ClAutoSend "u8 list option" nat u32 | ClOpen "open_request option" | ClClose
  | ClOptions display_options | ClLines u8 u8 | ClDrain u32

fun client_effect :: "platform \<Rightarrow> display_ring \<Rightarrow> client_call \<Rightarrow> core_state \<Rightarrow> core_state" where
  "client_effect P R (ClSend data) s = snd (send_bytes P data s)"
| "client_effect P R (ClAutoSend data n interval) s = snd (set_auto_template P data n interval s)"
| "client_effect P R (ClOpen config) s = snd (queue_open P config s)"
| "client_effect P R ClClose s = snd (close_session P [] s)"
| "client_effect P R (ClOptions d) s = snd (set_options P d s)"
| "client_effect P R (ClLines dtr rts) s = snd (set_lines P dtr rts s)"
| "client_effect P R (ClDrain capacity) s = snd (drain_step P R capacity s)"

text \<open>
  Steps: the Dispatcher takes any pending event, the writer thread executes a job, a client calls, the timer
  ticks, the reader delivers bytes, and the session's threads report faults and line states. The job
  ring's counters have not wrapped (\<open>writer_young\<close>), which a new session resets.
\<close>

inductive core_step ::
  "platform \<Rightarrow> (ao_transition list \<Rightarrow> u16 \<Rightarrow> ao_action option) \<Rightarrow> display_ring \<Rightarrow> owner \<Rightarrow> owner \<Rightarrow> bool"
  for P hsm R where
  cs_dispatch: "\<lbrakk>i < length (k_posted (snd x)); dispatch P hsm R now i x = Some y\<rbrakk> \<Longrightarrow> core_step P hsm R x y"
| cs_writer: "writer_job P (snd x) = Some s \<Longrightarrow> core_step P hsm R x (fst x, s)"
| cs_client: "core_step P hsm R x (fst x, client_effect P R c (snd x))"
| cs_timer: "core_step P hsm R x (fst x, autosend_tick P (snd x))"
| cs_reader: "serial_read_callback (core_sink P) (core_ingress_env P) [] data (snd x) = Returned res s \<Longrightarrow> core_step P hsm R x (fst x, s)"
| cs_other: "write_ok y \<Longrightarrow> core_step P hsm R x (fst x, other_step_effect P y (snd x))"

inductive core_run ::
  "platform \<Rightarrow> (ao_transition list \<Rightarrow> u16 \<Rightarrow> ao_action option) \<Rightarrow> display_ring \<Rightarrow> owner \<Rightarrow> bool"
  for P hsm R where
  cr_start: "core_run P hsm R (PORT_CLOSED, core_state_init)"
| cr_step: "\<lbrakk>core_run P hsm R x; core_step P hsm R x y; writer_young (snd y)\<rbrakk> \<Longrightarrow> core_run P hsm R y"

lemma client_owned:
  assumes "tx_owned_by {#} s" "never_merged P"
  shows "tx_owned_by {#} (client_effect P R c s)"
  by (cases c) (use assms in \<open>simp_all add: send_bytes_owned set_auto_owned owned_same [OF _ queue_open_same]
      owned_same [OF _ close_request_same] owned_same [OF _ set_options_same] owned_same [OF _ set_lines_same]
      owned_same [OF _ drain_same]\<close>)

lemma core_run_owned:
  assumes "core_run P hsm R x" "hsm_documented hsm" "writes_in_pool P" "never_merged P"
  shows "tx_owned_by {#} (snd x) \<and> writer_young (snd x)"
  using assms(1)
proof induction
  case cr_start
  have "c_tx core_state_init = tx_pool_init" "k_send core_state_init = send_ctx_init" "k_writer core_state_init = session_writer_init"
    "k_posted core_state_init = []" "\<not> k_aborted core_state_init"
    by (simp_all add: core_state_init_def core.extend_def core_init_def)
  then show ?case
    using tx_inv_init
    by (simp add: tx_owned_by_def held_def template_claims_def send_ctx_init_def sw_ok_def sw_inv_def session_writer_init_def
      no_claims sw_items_def writer_young_def writer_claims_def)
next
  case (cr_step x y)
  from cr_step.hyps(2) cr_step.IH have "tx_owned_by {#} (snd y)"
  proof cases
    case (cs_dispatch i now)
    then show ?thesis using dispatch_owned [of x i hsm P R now] cr_step.IH assms(2,3) by auto
  next
    case (cs_writer s)
    then show ?thesis using writer_job_owned [of "snd x" P] cr_step.IH by auto
  next
    case (cs_client c)
    then show ?thesis using client_owned cr_step.IH assms(4) by simp
  next
    case cs_timer
    then show ?thesis using owned_same [OF _ autosend_tick_same] cr_step.IH by simp
  next
    case (cs_reader data res s)
    then show ?thesis using owned_same [OF _ read_callback_same] cr_step.IH by auto
  next
    case (cs_other y)
    then show ?thesis using owned_same [OF _ other_step_same] cr_step.IH by simp
  qed
  then show ?case using cr_step.hyps(3) by blast
qed


section \<open>Property\<close>

definition block_claims :: "core_state \<Rightarrow> nat multiset" where
  "block_claims s = posted_claims (k_posted s) + template_claims (k_send s) + writer_claims (k_writer s)"

text \<open>
  C3 (send_path_owns_blocks_once). In every run of the core (the Dispatcher taking pending events in any order, the writer
  thread, the timer, the reader and any client calls between them) the transmit blocks in use are exactly
  those of the pending send and configuration events, the queued jobs and the auto-send template, each
  with one holder. Every pending event has an action in the table of its target, no handler and no job can
  fail an assertion, and when nothing is pending, queued or set the pool is whole again.
\<close>

theorem send_path_owns_blocks_once:
  assumes "core_run P hsm R (st, s)" "hsm_documented hsm" "writes_in_pool P" "never_merged P"
  shows "tx_inv (c_tx s) \<and> block_claims s = mset_set (fpool.used (c_tx s)) \<and>
    (\<forall>i < length (k_posted s). event_action hsm (k_posted s ! i) \<noteq> None \<and> dispatch P hsm R now i (st, s) \<noteq> None) \<and>
    writer_job P s \<noteq> None \<and> \<not> k_aborted s \<and> (block_claims s = {#} \<longrightarrow> card (fp_free (c_tx s)) = 32)"
proof -
  have o: "tx_owned_by {#} s" "writer_young s" using core_run_owned [OF assms] by simp_all
  then have h: "tx_inv (c_tx s)" "block_claims s = mset_set (fpool.used (c_tx s))" "\<not> k_aborted s"
    by (simp_all add: tx_owned_by_def held_def block_claims_def)
  have e: "event_action hsm (k_posted s ! i) \<noteq> None \<and> dispatch P hsm R now i (st, s) \<noteq> None" if "i < length (k_posted s)" for i
    using dispatch_owned [of "(st, s)" i hsm P R now] o that assms(2,3) take_event_owned(2) [OF o(1) that]
      table_routes [OF assms(2), of "k_posted s ! i"] by (auto simp: routed_def)
  have "card (fp_free (c_tx s)) = 32" if "block_claims s = {#}"
  proof -
    have "fpool.used (c_tx s) = {}" using that h(2) by (simp add: mset_set_empty_iff)
    then show ?thesis using fpool.card_split [OF tx_invD(1) [OF h(1)]] tx_invD(2) [OF h(1)] by simp
  qed
  then show ?thesis using h e writer_job_owned [OF o(1), of P] by auto
qed

text \<open>A client sets an auto-send template: its block is held by the pending configuration event.\<close>

definition hsm_find :: "ao_transition list \<Rightarrow> u16 \<Rightarrow> ao_action option" where
  "hsm_find ts sig = map_option tn_action (find (\<lambda>t. tn_signal t = sig) ts)"

theorem send_path_owns_blocks_once_witness:
  "\<exists>s b. core_run platform_ok hsm_find display_ring_list (PORT_CLOSED, s) \<and>
     k_posted s = [PostConfig \<lparr>at_block = b, at_length = 2, at_interval_ms = 500\<rparr>] \<and> fpool.used (c_tx s) = {unat b}"
proof -
  let ?s0 = core_state_init
  have i: "c_tx ?s0 = tx_pool_init" "k_send ?s0 = send_ctx_init" "k_writer ?s0 = session_writer_init" "k_posted ?s0 = []"
    by (simp_all add: core_state_init_def core.extend_def core_init_def)
  have "tx_try_alloc tx_pool_init \<noteq> None"
    using fpool.alloc_None [OF tx_invD(1) [OF tx_inv_init(1)]] fpool.card_split [OF tx_invD(1) [OF tx_inv_init(1)]]
      tx_inv_init(2) tx_invD(2) [OF tx_inv_init(1)] by (auto simp: tx_try_alloc_def)
  then obtain b q where a: "tx_try_alloc tx_pool_init = Some (b, q)" by auto
  let ?s = "client_effect platform_ok display_ring_list (ClAutoSend (Some [7, 8]) 2 500) ?s0"
  let ?d = "\<lparr>at_block = b, at_length = 2, at_interval_ms = 500\<rparr>"
  have s: "k_posted ?s = [PostConfig ?d]" "k_send ?s = send_ctx_init" "k_writer ?s = session_writer_init"
    using a i by (simp_all add: set_auto_template_def tx_fill_def submit_autosend_config_def sink_submit_autosend_config_def
      post_def platform_ok_def disposition_accepted_def Let_def)
  have r: "core_run platform_ok hsm_find display_ring_list (PORT_CLOSED, ?s)"
    using cr_step [OF cr_start cs_client] s(3) by (simp add: writer_young_def session_writer_init_def del: client_effect.simps)
  have "hsm_documented hsm_find" "writes_in_pool platform_ok" "never_merged platform_ok"
    by (simp_all add: hsm_documented_def hsm_find_def writes_in_pool_def never_merged_def platform_ok_def)
  from send_path_owns_blocks_once [OF r this] have "block_claims ?s = mset_set (fpool.used (c_tx ?s))" by blast
  moreover have "block_claims ?s = {#unat b#}"
    using s by (simp add: block_claims_def template_claims_def send_ctx_init_def writer_claims_def sw_items_def session_writer_init_def
      del: client_effect.simps)
  ultimately have "set_mset (mset_set (fpool.used (c_tx ?s))) = {unat b}" by (metis set_mset_single)
  then show ?thesis using r s(1) by (intro exI [of _ ?s] exI [of _ b]) simp
qed

end
