(* ===== verification/Fixed_Containers.thy ===== *)
theory Fixed_Containers
  imports Prelude
begin

text \<open>
  The two containers of \<open>foundation\<close> that hold objects in raw storage: \<open>FixedVector\<close> (\<open>fixed_vector.hpp\<close>) and
  \<open>FixedFunction\<close> (\<open>fixed_function.hpp\<close>), the callback of the timer and of the serial adapter. Storage that holds
  a live object is \<open>Some\<close>; constructing over a live object, destroying or reading raw storage, and a call
  through a null pointer are \<open>None\<close>. The vector refines a list of bounded length; a program over any number
  of functions refines a map from functions to callables, so each callable lives in exactly one of them.
\<close>

section \<open>Raw storage\<close>

definition construct_at :: "nat \<Rightarrow> 'a \<Rightarrow> 'a option list \<Rightarrow> ('a option list) option" where
  "construct_at i x cells = (if i < length cells \<and> cells ! i = None then Some (cells[i := Some x]) else None)"

definition destroy_at :: "nat \<Rightarrow> 'a option list \<Rightarrow> ('a option list) option" where
  "destroy_at i cells = (if i < length cells \<and> cells ! i \<noteq> None then Some (cells[i := None]) else None)"

section \<open>\<open>FixedVector\<close>\<close>

record 'a fixed_vector =
  fv_storage :: "'a option list"
  fv_size :: u32

definition fixed_vector_new :: "nat \<Rightarrow> 'a fixed_vector" where
  "fixed_vector_new capacity = \<lparr>fv_storage = replicate capacity None, fv_size = 0\<rparr>"

definition fv_capacity :: "'a fixed_vector \<Rightarrow> u32" where
  "fv_capacity v = of_nat (length (fv_storage v))"

definition fv_empty :: "'a fixed_vector \<Rightarrow> bool" where
  "fv_empty v \<longleftrightarrow> fv_size v = 0"

definition fv_full :: "'a fixed_vector \<Rightarrow> bool" where
  "fv_full v \<longleftrightarrow> fv_size v = fv_capacity v"

text \<open>The unchecked \<open>operator[]\<close>.\<close>

definition fv_at :: "'a fixed_vector \<Rightarrow> u32 \<Rightarrow> 'a option" where
  "fv_at v i = (if unat i < length (fv_storage v) then fv_storage v ! unat i else None)"

definition try_emplace_back :: "'a \<Rightarrow> 'a fixed_vector \<Rightarrow> (bool \<times> 'a fixed_vector) option" where
  "try_emplace_back x v =
     (if fv_full v then Some (False, v)
      else map_option (\<lambda>cells. (True, v\<lparr>fv_storage := cells, fv_size := fv_size v + 1\<rparr>))
             (construct_at (unat (fv_size v)) x (fv_storage v)))"

definition try_push_back :: "'a \<Rightarrow> 'a fixed_vector \<Rightarrow> (bool \<times> 'a fixed_vector) option" where
  "try_push_back x v = try_emplace_back x v"

definition pop_back :: "'a fixed_vector \<Rightarrow> (bool \<times> 'a fixed_vector) option" where
  "pop_back v =
     (if fv_empty v then Some (False, v)
      else let n = fv_size v - 1
           in map_option (\<lambda>cells. (True, v\<lparr>fv_storage := cells, fv_size := n\<rparr>)) (destroy_at (unat n) (fv_storage v)))"

lemma pop_back_smaller: "pop_back v = Some (True, v') \<Longrightarrow> unat (fv_size v') < unat (fv_size v)"
  by (auto simp: pop_back_def fv_empty_def Let_def unat_minus_one unat_gt_0 split: if_splits)

function fv_clear :: "'a fixed_vector \<Rightarrow> 'a fixed_vector option" where
  "fv_clear v = (case pop_back v of None \<Rightarrow> None | Some (popped, v') \<Rightarrow> if popped then fv_clear v' else Some v')"
  by auto
termination
  by (relation "measure (\<lambda>v. unat (fv_size v))") (auto intro: pop_back_smaller)

declare fv_clear.simps [simp del]

text \<open>The destructor.\<close>

definition fixed_vector_end :: "'a fixed_vector \<Rightarrow> 'a fixed_vector option" where
  "fixed_vector_end v = fv_clear v"

section \<open>A stack of bounded depth\<close>

datatype 'a stack_op = StPush 'a | StPop

text \<open>What a client relies on: pushes and pops act on a list of at most \<open>cap\<close> items and never fail.\<close>

locale bounded_stack =
  fixes push :: "'a \<Rightarrow> 'v \<Rightarrow> (bool \<times> 'v) option"
    and pop :: "'v \<Rightarrow> (bool \<times> 'v) option"
    and items :: "'v \<Rightarrow> 'a list"
    and cap :: nat
    and ok :: "'v \<Rightarrow> bool"
  assumes bound: "ok v \<Longrightarrow> length (items v) \<le> cap"
    and push_room: "ok v \<Longrightarrow> length (items v) < cap \<Longrightarrow> \<exists>v'. push x v = Some (True, v') \<and> ok v' \<and> items v' = items v @ [x]"
    and push_full: "ok v \<Longrightarrow> length (items v) = cap \<Longrightarrow> push x v = Some (False, v)"
    and pop_some: "ok v \<Longrightarrow> items v \<noteq> [] \<Longrightarrow> \<exists>v'. pop v = Some (True, v') \<and> ok v' \<and> items v' = butlast (items v)"
    and pop_none: "ok v \<Longrightarrow> items v = [] \<Longrightarrow> pop v = Some (False, v)"
begin

fun run_stack :: "'a stack_op list \<Rightarrow> 'v \<Rightarrow> (bool list \<times> 'v) option" where
  "run_stack [] v = Some ([], v)"
| "run_stack (a # as) v =
     (case (case a of StPush x \<Rightarrow> push x v | StPop \<Rightarrow> pop v) of
        None \<Rightarrow> None
      | Some (r, v') \<Rightarrow> map_option (\<lambda>(rs, w). (r # rs, w)) (run_stack as v'))"

fun run_list :: "'a stack_op list \<Rightarrow> 'a list \<Rightarrow> bool list \<times> 'a list" where
  "run_list [] xs = ([], xs)"
| "run_list (StPush x # as) xs =
     (let r = length xs < cap; (rs, ys) = run_list as (if r then xs @ [x] else xs) in (r # rs, ys))"
| "run_list (StPop # as) xs = (let (rs, ys) = run_list as (butlast xs) in ((xs \<noteq> []) # rs, ys))"

lemma step_refines:
  assumes "ok v"
  shows "\<exists>r v'. (case a of StPush x \<Rightarrow> push x v | StPop \<Rightarrow> pop v) = Some (r, v') \<and> ok v' \<and>
    (case a of StPush x \<Rightarrow> r = (length (items v) < cap) \<and> items v' = (if r then items v @ [x] else items v)
             | StPop \<Rightarrow> r = (items v \<noteq> []) \<and> items v' = butlast (items v))"
proof (cases a)
  case (StPush x)
  show ?thesis
  proof (cases "length (items v) < cap")
    case True
    then obtain v' where "push x v = Some (True, v')" "ok v'" "items v' = items v @ [x]" using push_room [OF assms] by blast
    then show ?thesis using StPush True by (intro exI [of _ True] exI [of _ v']) simp
  next
    case False
    then have "push x v = Some (False, v)" using push_full [OF assms] bound [OF assms] by simp
    then show ?thesis using StPush False assms by (intro exI [of _ False] exI [of _ v]) simp
  qed
next
  case StPop
  show ?thesis
  proof (cases "items v = []")
    case True
    then show ?thesis using StPop pop_none [OF assms] assms by (intro exI [of _ False] exI [of _ v]) simp
  next
    case False
    then obtain v' where "pop v = Some (True, v')" "ok v'" "items v' = butlast (items v)" using pop_some [OF assms] by blast
    then show ?thesis using StPop False by (intro exI [of _ True] exI [of _ v']) simp
  qed
qed

lemma run_refines:
  "ok v \<Longrightarrow> \<exists>w. run_stack as v = Some (fst (run_list as (items v)), w) \<and> ok w \<and> items w = snd (run_list as (items v))"
proof (induction as arbitrary: v)
  case (Cons a as)
  obtain r v' where s: "(case a of StPush x \<Rightarrow> push x v | StPop \<Rightarrow> pop v) = Some (r, v')" "ok v'"
    "case a of StPush x \<Rightarrow> r = (length (items v) < cap) \<and> items v' = (if r then items v @ [x] else items v)
             | StPop \<Rightarrow> r = (items v \<noteq> []) \<and> items v' = butlast (items v)"
    using step_refines [OF Cons.prems] by blast
  from Cons.IH [OF s(2)] s show ?case by (cases a) (auto simp: Let_def split: prod.splits)
qed simp

end

section \<open>The vector is one\<close>

definition fv_items :: "'a fixed_vector \<Rightarrow> 'a list" where
  "fv_items v = map the (take (unat (fv_size v)) (fv_storage v))"

text \<open>Exactly the first \<open>size\<close> cells are live; the capacity fits the size type.\<close>

definition fv_ok :: "nat \<Rightarrow> 'a fixed_vector \<Rightarrow> bool" where
  "fv_ok cap v \<longleftrightarrow> length (fv_storage v) = cap \<and> cap < 2 ^ 32 \<and> unat (fv_size v) \<le> cap \<and>
     (\<forall>i < cap. fv_storage v ! i \<noteq> None \<longleftrightarrow> i < unat (fv_size v))"

lemma fv_items_length: "fv_ok cap v \<Longrightarrow> length (fv_items v) = unat (fv_size v)"
  by (simp add: fv_items_def fv_ok_def)

lemma fv_full_iff: "fv_ok cap v \<Longrightarrow> fv_full v \<longleftrightarrow> unat (fv_size v) = cap"
proof -
  assume ok: "fv_ok cap v"
  then have "unat (of_nat cap :: u32) = cap" by (intro unat_of_nat_u32) (simp add: fv_ok_def)
  then show ?thesis using ok by (simp add: fv_capacity_def fv_full_def fv_ok_def word_unat_eq_iff)
qed

lemma fv_push_room:
  assumes "fv_ok cap v" "length (fv_items v) < cap"
  shows "\<exists>v'. try_push_back x v = Some (True, v') \<and> fv_ok cap v' \<and> fv_items v' = fv_items v @ [x]"
proof -
  let ?n = "unat (fv_size v)"
  have n: "?n < cap" "length (fv_storage v) = cap" "cap < 2 ^ 32" using assms fv_items_length [OF assms(1)] by (auto simp: fv_ok_def)
  have raw: "fv_storage v ! ?n = None" using assms(1) n unfolding fv_ok_def by (metis less_irrefl)
  have s: "unat (fv_size v + 1) = ?n + 1" using n by (simp add: unat_word_ariths)
  let ?v = "v\<lparr>fv_storage := (fv_storage v)[?n := Some x], fv_size := fv_size v + 1\<rparr>"
  have "try_push_back x v = Some (True, ?v)"
    using fv_full_iff [OF assms(1)] n raw by (simp add: try_push_back_def try_emplace_back_def construct_at_def)
  moreover have "fv_ok cap ?v" using assms(1) n s by (auto simp: fv_ok_def nth_list_update)
  moreover have "fv_items ?v = fv_items v @ [x]" using n s by (simp add: fv_items_def take_Suc_conv_app_nth)
  ultimately show ?thesis by blast
qed

lemma fv_pop_some:
  assumes "fv_ok cap v" "fv_items v \<noteq> []"
  shows "\<exists>v'. pop_back v = Some (True, v') \<and> fv_ok cap v' \<and> fv_items v' = butlast (fv_items v)"
proof -
  have n: "0 < unat (fv_size v)" using assms(2) unfolding fv_items_length [OF assms(1), symmetric] by simp
  let ?n = "unat (fv_size v) - 1"
  have ne: "fv_size v \<noteq> 0" using n by auto
  then have s: "unat (fv_size v - 1) = ?n" by (simp add: unat_minus_one)
  have b: "?n < length (fv_storage v)" using assms(1) n unfolding fv_ok_def by linarith
  have live: "fv_storage v ! ?n \<noteq> None" using assms(1) n by (auto simp: fv_ok_def)
  let ?v = "v\<lparr>fv_storage := (fv_storage v)[?n := None], fv_size := fv_size v - 1\<rparr>"
  have "pop_back v = Some (True, ?v)"
    using ne s b live by (simp add: pop_back_def fv_empty_def Let_def destroy_at_def)
  moreover have "fv_ok cap ?v"
    using assms(1) s n by (fastforce simp: fv_ok_def nth_list_update split: if_splits)
  moreover have "fv_items ?v = butlast (fv_items v)"
    using s b n by (simp add: fv_items_def map_butlast [symmetric] butlast_take)
  ultimately show ?thesis by blast
qed

interpretation fvec: bounded_stack try_push_back pop_back fv_items cap "fv_ok cap" for cap
proof unfold_locales
  show "fv_ok cap v \<Longrightarrow> length (fv_items v) \<le> cap" for v :: "'a fixed_vector"
    using fv_items_length [of cap v] by (simp add: fv_ok_def)
  show "fv_ok cap v \<Longrightarrow> length (fv_items v) = cap \<Longrightarrow> try_push_back x v = Some (False, v)" for v :: "'a fixed_vector" and x
    using fv_full_iff [of cap v] fv_items_length [of cap v] by (simp add: try_push_back_def try_emplace_back_def)
  show "fv_ok cap v \<Longrightarrow> fv_items v = [] \<Longrightarrow> pop_back v = Some (False, v)" for v :: "'a fixed_vector"
    using fv_items_length [of cap v] by (simp add: pop_back_def fv_empty_def unat_eq_0)
qed (fact fv_push_room, fact fv_pop_some)

lemma fv_new_ok: "cap < 2 ^ 32 \<Longrightarrow> fv_ok cap (fixed_vector_new cap :: 'a fixed_vector) \<and> fv_items (fixed_vector_new cap :: 'a fixed_vector) = []"
  by (simp add: fv_ok_def fixed_vector_new_def fv_items_def)

lemma fv_clear_all:
  "fv_ok cap v \<Longrightarrow> \<exists>w. fv_clear v = Some w \<and> fv_ok cap w \<and> fv_items w = []"
proof (induction v rule: fv_clear.induct)
  case (1 v)
  show ?case
  proof (cases "fv_items v = []")
    case True
    then show ?thesis using fvec.pop_none [OF "1.prems"] "1.prems" by (simp add: fv_clear.simps [of v])
  next
    case False
    then obtain v' where v': "pop_back v = Some (True, v')" "fv_ok cap v'" using fvec.pop_some [OF "1.prems"] by blast
    show ?thesis using "1.IH" [OF v'(1) refl _ v'(2)] v'(1) by (simp add: fv_clear.simps [of v])
  qed
qed


section \<open>\<open>FixedFunction\<close>\<close>

text \<open>
  The storage, and the three pointers, each the instance of a lambda for one type of callable. The
  compile-time bounds on size and alignment are not modelled.
\<close>

record ('k, 'v) fixed_function =
  ff_storage :: "('k \<times> 'v) option"
  ff_invoke :: "'k option"
  ff_move :: "'k option"
  ff_destroy :: "'k option"

definition ff_new :: "('k, 'v) fixed_function" where
  "ff_new = \<lparr>ff_storage = None, ff_invoke = None, ff_move = None, ff_destroy = None\<rparr>"

definition ff_of :: "'k \<Rightarrow> 'v \<Rightarrow> ('k, 'v) fixed_function" where
  "ff_of k v = \<lparr>ff_storage = Some (k, v), ff_invoke = Some k, ff_move = Some k, ff_destroy = Some k\<rparr>"

text \<open>The lambdas: they take the storage to hold a callable of their own type.\<close>

definition destroy_callable :: "'k \<Rightarrow> ('k, 'v) fixed_function \<Rightarrow> ('k, 'v) fixed_function option" where
  "destroy_callable k f =
     (case ff_storage f of Some (k', v) \<Rightarrow> if k' = k then Some (f\<lparr>ff_storage := None\<rparr>) else None | None \<Rightarrow> None)"

definition move_callable ::
  "'k \<Rightarrow> ('k, 'v) fixed_function \<Rightarrow> ('k, 'v) fixed_function \<Rightarrow> (('k, 'v) fixed_function \<times> ('k, 'v) fixed_function) option" where
  "move_callable k dst src =
     (case (ff_storage dst, ff_storage src) of
        (None, Some (k', v)) \<Rightarrow>
          if k' = k then Some (dst\<lparr>ff_storage := Some (k, v)\<rparr>, src\<lparr>ff_storage := None\<rparr>) else None
      | _ \<Rightarrow> None)"

definition ff_clear :: "('k, 'v) fixed_function \<Rightarrow> ('k, 'v) fixed_function" where
  "ff_clear f = f\<lparr>ff_invoke := None, ff_move := None, ff_destroy := None\<rparr>"

definition ff_reset :: "('k, 'v) fixed_function \<Rightarrow> ('k, 'v) fixed_function option" where
  "ff_reset f = map_option ff_clear (case ff_destroy f of Some k \<Rightarrow> destroy_callable k f | None \<Rightarrow> Some f)"

text \<open>What the move constructor and the move assignment share: take over the pointers, then the callable.\<close>

definition ff_take ::
  "('k, 'v) fixed_function \<Rightarrow> ('k, 'v) fixed_function \<Rightarrow> (('k, 'v) fixed_function \<times> ('k, 'v) fixed_function) option" where
  "ff_take f other =
     (let f1 = f\<lparr>ff_invoke := ff_invoke other, ff_move := ff_move other, ff_destroy := ff_destroy other\<rparr>
      in case ff_move other of
           None \<Rightarrow> Some (f1, other)
         | Some k \<Rightarrow> map_option (\<lambda>(d, s). (d, ff_clear s)) (move_callable k f1 other))"

definition ff_move_construct ::
  "('k, 'v) fixed_function \<Rightarrow> (('k, 'v) fixed_function \<times> ('k, 'v) fixed_function) option" where
  "ff_move_construct other = ff_take ff_new other"

definition ff_has :: "('k, 'v) fixed_function \<Rightarrow> bool" where
  "ff_has f \<longleftrightarrow> ff_invoke f \<noteq> None"

text \<open>The call; the storage is mutable, so the callable may change.\<close>

definition ff_call ::
  "('k \<Rightarrow> 'v \<Rightarrow> 'a \<Rightarrow> 'r \<times> 'v) \<Rightarrow> 'a \<Rightarrow> ('k, 'v) fixed_function \<Rightarrow> ('r \<times> ('k, 'v) fixed_function) option" where
  "ff_call app a f =
     (case (ff_invoke f, ff_storage f) of
        (Some k, Some (k', v)) \<Rightarrow>
          if k' = k then (case app k v a of (r, v') \<Rightarrow> Some (r, f\<lparr>ff_storage := Some (k, v')\<rparr>)) else None
      | _ \<Rightarrow> None)"

section \<open>Programs over functions\<close>

text \<open>
  The functions of a program by their addresses. An operation names live functions and constructs on dead
  addresses only, as C++ scoping ensures, and a client tests a function before it calls it.
\<close>

type_synonym ('k, 'v) function_store = "nat \<Rightarrow> ('k, 'v) fixed_function option"

datatype ('k, 'v, 'a) fn_op = FnNew nat | FnOf nat 'k 'v | FnMoveNew nat nat | FnAssign nat nat | FnEnd nat | FnCall nat 'a

text \<open>\<open>operator=\<close> on two addresses, which may be one and the same.\<close>

definition ff_assign :: "nat \<Rightarrow> nat \<Rightarrow> ('k, 'v) function_store \<Rightarrow> ('k, 'v) function_store option" where
  "ff_assign i j s =
     (if i = j then Some s
      else case (s i, s j) of
          (Some f, Some g) \<Rightarrow>
            (case ff_reset f of
               None \<Rightarrow> None
             | Some f1 \<Rightarrow> map_option (\<lambda>(d, src). s(i \<mapsto> d, j \<mapsto> src)) (ff_take f1 g))
        | _ \<Rightarrow> None)"

fun fn_step ::
  "('k \<Rightarrow> 'v \<Rightarrow> 'a \<Rightarrow> 'r \<times> 'v) \<Rightarrow> ('k, 'v, 'a) fn_op \<Rightarrow> ('k, 'v) function_store \<Rightarrow> ('r option \<times> ('k, 'v) function_store) option" where
  "fn_step app (FnNew i) s = Some (None, s(i \<mapsto> ff_new))"
| "fn_step app (FnOf i k v) s = Some (None, s(i \<mapsto> ff_of k v))"
| "fn_step app (FnMoveNew i j) s =
     (case s j of None \<Rightarrow> None | Some g \<Rightarrow> map_option (\<lambda>(d, src). (None, s(i \<mapsto> d, j \<mapsto> src))) (ff_move_construct g))"
| "fn_step app (FnAssign i j) s = map_option (Pair None) (ff_assign i j s)"
| "fn_step app (FnEnd i) s = (case s i of None \<Rightarrow> None | Some f \<Rightarrow> map_option (\<lambda>_. (None, s(i := None))) (ff_reset f))"
| "fn_step app (FnCall i a) s =
     (case s i of None \<Rightarrow> None | Some f \<Rightarrow> map_option (\<lambda>(r, f'). (Some r, s(i \<mapsto> f'))) (ff_call app a f))"

text \<open>The specification: a map from the live addresses to what they hold, if anything.\<close>

type_synonym ('k, 'v) held_callables = "nat \<Rightarrow> ('k \<times> 'v) option option"

fun spec_step ::
  "('k \<Rightarrow> 'v \<Rightarrow> 'a \<Rightarrow> 'r \<times> 'v) \<Rightarrow> ('k, 'v, 'a) fn_op \<Rightarrow> ('k, 'v) held_callables \<Rightarrow> 'r option \<times> ('k, 'v) held_callables" where
  "spec_step app (FnNew i) h = (None, h(i \<mapsto> None))"
| "spec_step app (FnOf i k v) h = (None, h(i \<mapsto> Some (k, v)))"
| "spec_step app (FnMoveNew i j) h = (None, h(i := h j, j \<mapsto> None))"
| "spec_step app (FnAssign i j) h = (None, if i = j then h else h(i := h j, j \<mapsto> None))"
| "spec_step app (FnEnd i) h = (None, h(i := None))"
| "spec_step app (FnCall i a) h =
     (case h i of Some (Some (k, v)) \<Rightarrow> (case app k v a of (r, v') \<Rightarrow> (Some r, h(i \<mapsto> Some (k, v')))) | _ \<Rightarrow> (None, h))"

fun fn_scoped :: "('k, 'v, 'a) fn_op \<Rightarrow> ('k, 'v) held_callables \<Rightarrow> bool" where
  "fn_scoped (FnNew i) h \<longleftrightarrow> h i = None"
| "fn_scoped (FnOf i k v) h \<longleftrightarrow> h i = None"
| "fn_scoped (FnMoveNew i j) h \<longleftrightarrow> h i = None \<and> h j \<noteq> None"
| "fn_scoped (FnAssign i j) h \<longleftrightarrow> h i \<noteq> None \<and> h j \<noteq> None"
| "fn_scoped (FnEnd i) h \<longleftrightarrow> h i \<noteq> None"
| "fn_scoped (FnCall i a) h \<longleftrightarrow> (\<exists>c. h i = Some (Some c))"

definition ff_ok :: "('k, 'v) fixed_function \<Rightarrow> bool" where
  "ff_ok f \<longleftrightarrow> ff_invoke f = map_option fst (ff_storage f) \<and> ff_move f = map_option fst (ff_storage f) \<and>
     ff_destroy f = map_option fst (ff_storage f)"

definition fns_ok :: "('k, 'v) function_store \<Rightarrow> bool" where
  "fns_ok s \<longleftrightarrow> (\<forall>i f. s i = Some f \<longrightarrow> ff_ok f)"

definition fns_held :: "('k, 'v) function_store \<Rightarrow> ('k, 'v) held_callables" where
  "fns_held s = (\<lambda>i. map_option ff_storage (s i))"

lemma ff_take_ok:
  assumes "ff_ok g" "ff_storage f = None"
  shows "\<exists>d src. ff_take f g = Some (d, src) \<and> ff_ok d \<and> ff_ok src \<and> ff_storage d = ff_storage g \<and> ff_storage src = None"
  using assms by (cases "ff_storage g") (auto simp: ff_take_def ff_ok_def move_callable_def ff_clear_def Let_def)

lemma ff_reset_ok:
  assumes "ff_ok f"
  shows "\<exists>f'. ff_reset f = Some f' \<and> ff_ok f' \<and> ff_storage f' = None"
  using assms by (cases "ff_storage f") (auto simp: ff_reset_def ff_ok_def destroy_callable_def ff_clear_def)

lemma fns_held_upd [simp]: "fns_held (s(i \<mapsto> f)) = (fns_held s)(i \<mapsto> ff_storage f)" "fns_held (s(i := None)) = (fns_held s)(i := None)"
  by (auto simp: fns_held_def)

lemma fns_ok_upd [simp]: "fns_ok s \<Longrightarrow> ff_ok f \<Longrightarrow> fns_ok (s(i \<mapsto> f))" "fns_ok s \<Longrightarrow> fns_ok (s(i := None))"
  by (auto simp: fns_ok_def)

lemma held_live: "fns_held s i \<noteq> None \<Longrightarrow> fns_ok s \<Longrightarrow> \<exists>f. s i = Some f \<and> ff_ok f \<and> fns_held s i = Some (ff_storage f)"
  by (auto simp: fns_held_def fns_ok_def)

lemma fn_step_refines:
  assumes "fns_ok s" "fn_scoped op (fns_held s)"
  shows "\<exists>r s'. fn_step app op s = Some (r, s') \<and> fns_ok s' \<and> spec_step app op (fns_held s) = (r, fns_held s')"
proof (cases op)
  case (FnMoveNew i j)
  then obtain g where g: "s j = Some g" "ff_ok g" "fns_held s j = Some (ff_storage g)" using assms held_live [of s j] by auto
  obtain d src where "ff_take ff_new g = Some (d, src)" "ff_ok d" "ff_ok src" "ff_storage d = ff_storage g" "ff_storage src = None"
    using ff_take_ok [OF g(2), of ff_new] by (auto simp: ff_new_def)
  then show ?thesis using FnMoveNew assms g by (simp add: ff_move_construct_def)
next
  case (FnAssign i j)
  show ?thesis
  proof (cases "i = j")
    case True
    then show ?thesis using FnAssign assms by (simp add: ff_assign_def)
  next
    case False
    obtain f where f: "s i = Some f" "ff_ok f" using FnAssign assms held_live [of s i] by auto
    obtain g where g: "s j = Some g" "ff_ok g" "fns_held s j = Some (ff_storage g)" using FnAssign assms held_live [of s j] by auto
    obtain f1 where r: "ff_reset f = Some f1" "ff_storage f1 = None" using ff_reset_ok [OF f(2)] by blast
    obtain d src where "ff_take f1 g = Some (d, src)" "ff_ok d" "ff_ok src" "ff_storage d = ff_storage g" "ff_storage src = None"
      using ff_take_ok [OF g(2) r(2)] by blast
    then show ?thesis using FnAssign False assms f g r by (simp add: ff_assign_def)
  qed
next
  case (FnEnd i)
  then obtain f where f: "s i = Some f" "ff_ok f" using assms held_live [of s i] by auto
  obtain f1 where "ff_reset f = Some f1" using ff_reset_ok [OF f(2)] by blast
  then show ?thesis using FnEnd assms f by simp
next
  case (FnCall i a)
  then obtain k v where kv: "fns_held s i = Some (Some (k, v))" using assms(2) by auto
  then obtain f where f: "s i = Some f" "ff_ok f" "ff_storage f = Some (k, v)" using assms(1) held_live [of s i] by auto
  obtain r v' where "app k v a = (r, v')" by (meson surj_pair)
  then show ?thesis using FnCall assms f kv by (simp add: ff_call_def ff_ok_def)
qed (use assms in \<open>simp_all add: ff_ok_def ff_new_def ff_of_def\<close>)

fun fn_run ::
  "('k \<Rightarrow> 'v \<Rightarrow> 'a \<Rightarrow> 'r \<times> 'v) \<Rightarrow> ('k, 'v, 'a) fn_op list \<Rightarrow> ('k, 'v) function_store \<Rightarrow> ('r option list \<times> ('k, 'v) function_store) option" where
  "fn_run app [] s = Some ([], s)"
| "fn_run app (op # ops) s =
     (case fn_step app op s of
        None \<Rightarrow> None
      | Some (r, s') \<Rightarrow> map_option (\<lambda>(rs, t). (r # rs, t)) (fn_run app ops s'))"

fun spec_run ::
  "('k \<Rightarrow> 'v \<Rightarrow> 'a \<Rightarrow> 'r \<times> 'v) \<Rightarrow> ('k, 'v, 'a) fn_op list \<Rightarrow> ('k, 'v) held_callables \<Rightarrow> 'r option list \<times> ('k, 'v) held_callables" where
  "spec_run app [] h = ([], h)"
| "spec_run app (op # ops) h = (case spec_step app op h of (r, h') \<Rightarrow> case spec_run app ops h' of (rs, t) \<Rightarrow> (r # rs, t))"

fun ops_scoped :: "('k \<Rightarrow> 'v \<Rightarrow> 'a \<Rightarrow> 'r \<times> 'v) \<Rightarrow> ('k, 'v, 'a) fn_op list \<Rightarrow> ('k, 'v) held_callables \<Rightarrow> bool" where
  "ops_scoped app [] h \<longleftrightarrow> True"
| "ops_scoped app (op # ops) h \<longleftrightarrow> fn_scoped op h \<and> ops_scoped app ops (snd (spec_step app op h))"

lemma fn_run_refines:
  "fns_ok s \<Longrightarrow> ops_scoped app ops (fns_held s) \<Longrightarrow>
   \<exists>rs s'. fn_run app ops s = Some (rs, s') \<and> fns_ok s' \<and> spec_run app ops (fns_held s) = (rs, fns_held s')"
proof (induction ops arbitrary: s)
  case (Cons op ops)
  obtain r s1 where s1: "fn_step app op s = Some (r, s1)" "fns_ok s1" "spec_step app op (fns_held s) = (r, fns_held s1)"
    using fn_step_refines [of s op app] Cons.prems by auto
  then have "ops_scoped app ops (fns_held s1)" using Cons.prems(2) by simp
  from Cons.IH [OF s1(2) this] s1 show ?case by auto
qed simp

section \<open>Properties\<close>

text \<open>
  Any sequence of pushes and pops on a fresh vector answers as a list of
  bounded length does and leaves that list in its cells; no push constructs over a live object, no pop
  destroys raw storage, and the destructor destroys every object that is left, each once.
\<close>

theorem fixed_vector_is_bounded_list:
  fixes ops :: "'a stack_op list"
  assumes "cap < 2 ^ 32"
  shows "\<exists>v w. fvec.run_stack ops (fixed_vector_new cap) = Some (fst (fvec.run_list cap ops []), v) \<and>
    fv_items v = snd (fvec.run_list cap ops []) \<and> length (fv_items v) \<le> cap \<and>
    (\<forall>i < length (fv_items v). fv_at v (of_nat i) = Some (fv_items v ! i)) \<and>
    fixed_vector_end v = Some w \<and> (\<forall>c \<in> set (fv_storage w). c = None)"
proof -
  note n = fv_new_ok [OF assms, where ?'a = 'a]
  obtain v where v: "fvec.run_stack ops (fixed_vector_new cap) = Some (fst (fvec.run_list cap ops []), v)" "fv_ok cap v"
    "fv_items v = snd (fvec.run_list cap ops [])"
    using fvec.run_refines [OF conjunct1 [OF n], of ops] conjunct2 [OF n] by auto
  obtain w where w: "fv_clear v = Some w" "fv_ok cap w" "fv_items w = []" using fv_clear_all [OF v(2)] by blast
  have "fv_size w = 0" using fv_items_length [OF w(2)] w(3) by (simp add: unat_eq_0)
  then have "\<forall>c \<in> set (fv_storage w). c = None" using w(2) by (auto simp: fv_ok_def in_set_conv_nth)
  moreover have "fv_at v (of_nat i) = Some (fv_items v ! i)" if "i < length (fv_items v)" for i
  proof -
    have i: "i < unat (fv_size v)" "i < cap" using that v(2) fv_items_length [OF v(2)] by (auto simp: fv_ok_def)
    then have u: "unat (of_nat i :: u32) = i" using v(2) by (intro unat_of_nat_u32) (simp add: fv_ok_def)
    have "fv_storage v ! i \<noteq> None" using v(2) i by (simp add: fv_ok_def)
    then show ?thesis using u i v(2) by (auto simp: fv_at_def fv_items_def fv_ok_def)
  qed
  ultimately show ?thesis using v w fvec.bound [OF v(2)] by (auto simp: fixed_vector_end_def)
qed

theorem fixed_vector_is_bounded_list_witness:
  "\<exists>v. fvec.run_stack [StPush (7 :: nat), StPush 8, StPush 9, StPop] (fixed_vector_new 2) = Some ([True, True, False, True], v) \<and> fv_items v = [7]"
proof -
  have "(2 :: nat) < 2 ^ 32" by simp
  from fixed_vector_is_bounded_list [OF this, of "[StPush (7 :: nat), StPush 8, StPush 9, StPop]"]
  show ?thesis by (simp add: Let_def) blast
qed

text \<open>
  Any well-scoped program that builds, moves, assigns (also to itself), calls and
  ends callbacks runs without touching raw storage, answers what the held callables answer and
  ends with them where the specification has them: a move leaves its source empty, an assignment destroys what it
  replaces, and every callable is in exactly one function until that function ends.
\<close>

theorem fixed_functions_hold_callables:
  assumes "ops_scoped app ops (\<lambda>_. None)"
  shows "\<exists>rs s. fn_run app ops (\<lambda>_. None) = Some (rs, s) \<and> spec_run app ops (\<lambda>_. None) = (rs, fns_held s) \<and>
    (\<forall>i f. s i = Some f \<longrightarrow> ff_has f = (fns_held s i \<noteq> Some None))"
proof -
  have e: "fns_held (\<lambda>_. None) = (\<lambda>_. None)" by (simp add: fns_held_def)
  have "fns_ok (\<lambda>_. None :: ('a, 'b) fixed_function option)" by (simp add: fns_ok_def)
  then obtain rs s where r: "fn_run app ops (\<lambda>_. None) = Some (rs, s)" "fns_ok s" "spec_run app ops (\<lambda>_. None) = (rs, fns_held s)"
    using fn_run_refines [of "\<lambda>_. None" app ops] assms unfolding e by blast
  have "ff_has f = (fns_held s i \<noteq> Some None)" if "s i = Some f" for i f
    using r(2) that by (auto simp: fns_ok_def ff_ok_def ff_has_def fns_held_def)
  then show ?thesis using r by blast
qed

theorem fixed_functions_hold_callables_witness:
  "\<exists>s. fn_run (\<lambda>k v a. (v + a, v + (1 :: nat))) [FnOf 0 (3 :: nat) 5, FnNew 1, FnAssign 1 0, FnCall 1 10, FnAssign 1 1, FnCall 1 10, FnEnd 0] (\<lambda>_. None) =
     Some ([None, None, None, Some 15, None, Some 16, None], s)"
proof -
  let ?ops = "[FnOf 0 (3 :: nat) 5, FnNew 1, FnAssign 1 0, FnCall 1 10, FnAssign 1 1, FnCall 1 10, FnEnd 0] :: (nat, nat, nat) fn_op list"
  let ?app = "\<lambda>(k :: nat) (v :: nat) a. (v + a, v + 1)"
  have "ops_scoped ?app ?ops (\<lambda>_. None)" by simp
  then obtain rs s where r: "fn_run ?app ?ops (\<lambda>_. None) = Some (rs, s)" "spec_run ?app ?ops (\<lambda>_. None) = (rs, fns_held s)"
    using fixed_functions_hold_callables by blast
  have "fst (spec_run ?app ?ops (\<lambda>_. None)) = [None, None, None, Some 15, None, Some 16, None]" by simp
  then show ?thesis using r by auto
qed

end
