(* ===== verification/Unique_Handle.thy ===== *)
theory Unique_Handle
  imports Prelude
begin

text \<open>
  The owner of a kernel handle (\<open>UniqueHandle\<close>, \<open>foundation/unique_handle.hpp\<close> and \<open>.cpp\<close>), which the serial backend
  and the platform layer use for every handle they keep. Objects are named by numbers; the calls of \<open>CloseHandle\<close> are a
  trace. That the trace closes every adopted handle once is the property.
\<close>

section \<open>The class\<close>

type_synonym win_handle = u64

definition INVALID_HANDLE_VALUE :: win_handle where
  "INVALID_HANDLE_VALUE = - 1"

definition uh_valid :: "win_handle \<Rightarrow> bool" where
  "uh_valid h \<longleftrightarrow> h \<noteq> 0 \<and> h \<noteq> INVALID_HANDLE_VALUE"

record handle_world =
  hw_objects :: "nat \<Rightarrow> win_handle option"
  hw_closed :: "win_handle list"

definition uh_new :: "nat \<Rightarrow> win_handle \<Rightarrow> handle_world \<Rightarrow> handle_world" where
  "uh_new i h w = w\<lparr>hw_objects := (hw_objects w)(i \<mapsto> h)\<rparr>"

definition uh_reset :: "nat \<Rightarrow> win_handle \<Rightarrow> handle_world \<Rightarrow> handle_world option" where
  "uh_reset i h w =
     (case hw_objects w i of
        None \<Rightarrow> None
      | Some c \<Rightarrow> Some (w\<lparr>hw_closed := hw_closed w @ (if uh_valid c then [c] else []), hw_objects := (hw_objects w)(i \<mapsto> h)\<rparr>))"

text \<open>\<open>std::exchange(other.handle_, nullptr)\<close>.\<close>

definition uh_take :: "nat \<Rightarrow> handle_world \<Rightarrow> (win_handle \<times> handle_world) option" where
  "uh_take j w = map_option (\<lambda>h. (h, w\<lparr>hw_objects := (hw_objects w)(j \<mapsto> 0)\<rparr>)) (hw_objects w j)"

definition uh_move_new :: "nat \<Rightarrow> nat \<Rightarrow> handle_world \<Rightarrow> handle_world option" where
  "uh_move_new i j w = map_option (\<lambda>(h, w1). uh_new i h w1) (uh_take j w)"

definition uh_assign :: "nat \<Rightarrow> nat \<Rightarrow> handle_world \<Rightarrow> handle_world option" where
  "uh_assign i j w =
     (if i = j then Some w
      else case uh_take j w of None \<Rightarrow> None | Some (h, w1) \<Rightarrow> uh_reset i h w1)"

definition uh_end :: "nat \<Rightarrow> handle_world \<Rightarrow> handle_world option" where
  "uh_end i w = map_option (\<lambda>w1. w1\<lparr>hw_objects := (hw_objects w1)(i := None)\<rparr>) (uh_reset i 0 w)"

section \<open>Programs over handles\<close>

datatype uh_op = UhNew nat win_handle | UhReset nat win_handle | UhMoveNew nat nat | UhAssign nat nat | UhEnd nat

fun uh_step :: "uh_op \<Rightarrow> handle_world \<Rightarrow> handle_world option" where
  "uh_step (UhNew i h) w = Some (uh_new i h w)"
| "uh_step (UhReset i h) w = uh_reset i h w"
| "uh_step (UhMoveNew i j) w = uh_move_new i j w"
| "uh_step (UhAssign i j) w = uh_assign i j w"
| "uh_step (UhEnd i) w = uh_end i w"

text \<open>Objects are built once and used while they live; a move builds from another object.\<close>

fun uh_scoped :: "uh_op \<Rightarrow> handle_world \<Rightarrow> bool" where
  "uh_scoped (UhNew i h) w \<longleftrightarrow> hw_objects w i = None"
| "uh_scoped (UhReset i h) w \<longleftrightarrow> hw_objects w i \<noteq> None"
| "uh_scoped (UhMoveNew i j) w \<longleftrightarrow> hw_objects w i = None \<and> hw_objects w j \<noteq> None"
| "uh_scoped (UhAssign i j) w \<longleftrightarrow> hw_objects w i \<noteq> None \<and> hw_objects w j \<noteq> None"
| "uh_scoped (UhEnd i) w \<longleftrightarrow> hw_objects w i \<noteq> None"

fun uh_run :: "uh_op list \<Rightarrow> handle_world \<Rightarrow> handle_world option" where
  "uh_run [] w = Some w"
| "uh_run (p # ps) w =
     (if uh_scoped p w then (case uh_step p w of None \<Rightarrow> None | Some w1 \<Rightarrow> uh_run ps w1) else None)"

text \<open>The handles given to the objects.\<close>

fun uh_adopted :: "uh_op \<Rightarrow> win_handle list" where
  "uh_adopted (UhNew i h) = [h]"
| "uh_adopted (UhReset i h) = [h]"
| "uh_adopted _ = []"

definition uh_empty :: handle_world where
  "uh_empty = \<lparr>hw_objects = (\<lambda>_. None), hw_closed = []\<rparr>"

section \<open>Every handle has one owner\<close>

definition holders :: "(nat \<Rightarrow> 'a option) \<Rightarrow> 'a \<Rightarrow> nat" where
  "holders m h = card {i. m i = Some h}"

lemma holders_upd:
  assumes "finite (dom m)"
  shows "holders (m(i := x)) h + (if m i = Some h then 1 else 0) = holders m h + (if x = Some h then 1 else 0)"
proof -
  let ?K = "{k. k \<noteq> i \<and> m k = Some h}"
  have f: "finite ?K" by (rule finite_subset [OF _ assms]) auto
  have "{k. (m(i := x)) k = Some h} = (if x = Some h then insert i ?K else ?K)" by auto
  moreover have "{k. m k = Some h} = (if m i = Some h then insert i ?K else ?K)" by auto
  ultimately show ?thesis using f by (simp add: holders_def)
qed

lemma holders_none: "(\<And>i. m i = None) \<Longrightarrow> holders m h = 0"
  by (simp add: holders_def)

text \<open>What was closed, with what is held, is what was adopted.\<close>

definition handle_balance :: "handle_world \<Rightarrow> win_handle \<Rightarrow> nat" where
  "handle_balance w h = count_list (hw_closed w) h + holders (hw_objects w) h"

lemma uh_reset_balance:
  assumes "finite (dom (hw_objects w))" "uh_valid h" "hw_objects w i \<noteq> None"
  shows "\<exists>w'. uh_reset i g w = Some w' \<and> dom (hw_objects w') = dom (hw_objects w)
    \<and> handle_balance w' h = handle_balance w h + (if g = h then 1 else 0)"
  using assms holders_upd [of "hw_objects w" i "Some g" h]
  by (auto simp: uh_reset_def handle_balance_def split: if_splits)

lemma uh_take_balance:
  assumes "finite (dom (hw_objects w))" "uh_valid h" "hw_objects w j = Some c"
  shows "uh_take j w = Some (c, w\<lparr>hw_objects := (hw_objects w)(j \<mapsto> 0)\<rparr>)"
    "handle_balance (w\<lparr>hw_objects := (hw_objects w)(j \<mapsto> 0)\<rparr>) h + (if c = h then 1 else 0) = handle_balance w h"
  using assms holders_upd [of "hw_objects w" j "Some 0" h]
  by (auto simp: uh_take_def handle_balance_def uh_valid_def split: if_splits)

lemma uh_new_balance:
  assumes "finite (dom (hw_objects w))" "hw_objects w i = None"
  shows "handle_balance (uh_new i g w) h = handle_balance w h + (if g = h then 1 else 0)"
  using holders_upd [OF assms(1), of i "Some g" h] assms(2) by (simp add: uh_new_def handle_balance_def)

lemma uh_end_balance:
  assumes "finite (dom (hw_objects w))" "uh_valid h" "hw_objects w i \<noteq> None"
  shows "\<exists>w'. uh_end i w = Some w' \<and> finite (dom (hw_objects w')) \<and> handle_balance w' h = handle_balance w h"
proof -
  obtain w1 where w1: "uh_reset i 0 w = Some w1" "dom (hw_objects w1) = dom (hw_objects w)" "handle_balance w1 h = handle_balance w h"
    using uh_reset_balance [OF assms, of 0] assms(2) by (auto simp: uh_valid_def)
  have z: "hw_objects w1 i = Some 0" using w1(1) by (auto simp: uh_reset_def split: option.splits)
  show ?thesis
    using w1 assms(1,2) z holders_upd [of "hw_objects w1" i None h]
    by (auto simp: uh_end_def handle_balance_def uh_valid_def)
qed

lemma uh_step_balance:
  assumes "finite (dom (hw_objects w))" "uh_valid h" "uh_scoped p w"
  shows "\<exists>w'. uh_step p w = Some w' \<and> finite (dom (hw_objects w'))
    \<and> handle_balance w' h = handle_balance w h + count_list (uh_adopted p) h"
proof (cases p)
  case (UhNew i g)
  then show ?thesis using assms uh_new_balance [of w i g h] by (auto simp: uh_new_def)
next
  case (UhReset i g)
  then show ?thesis using assms uh_reset_balance [of w h i g] by auto
next
  case (UhMoveNew i j)
  then obtain c where c: "hw_objects w j = Some c" "hw_objects w i = None" using assms(3) by auto
  then have "i \<noteq> j" by auto
  let ?w = "w\<lparr>hw_objects := (hw_objects w)(j \<mapsto> 0)\<rparr>"
  have "handle_balance (uh_new i c ?w) h = handle_balance ?w h + (if c = h then 1 else 0)"
    using c \<open>i \<noteq> j\<close> assms(1) by (intro uh_new_balance) auto
  then show ?thesis
    using UhMoveNew c assms(1) uh_take_balance [OF assms(1,2) c(1)] by (auto simp: uh_move_new_def uh_new_def)
next
  case (UhAssign i j)
  show ?thesis
  proof (cases "i = j")
    case True
    then show ?thesis using UhAssign assms by (simp add: uh_assign_def)
  next
    case False
    obtain c where c: "hw_objects w j = Some c" using UhAssign assms(3) by auto
    let ?w = "w\<lparr>hw_objects := (hw_objects w)(j \<mapsto> 0)\<rparr>"
    obtain w' where "uh_reset i c ?w = Some w'" "dom (hw_objects w') = dom (hw_objects ?w)"
      "handle_balance w' h = handle_balance ?w h + (if c = h then 1 else 0)"
      using uh_reset_balance [of ?w h i c] assms UhAssign False by auto
    then show ?thesis
      using UhAssign False assms(1) uh_take_balance [OF assms(1,2) c] by (auto simp: uh_assign_def)
  qed
next
  case (UhEnd i)
  then show ?thesis using assms uh_end_balance [of w h i] by auto
qed

lemma uh_run_balance:
  "finite (dom (hw_objects w)) \<Longrightarrow> uh_valid h \<Longrightarrow> uh_run ps w = Some w' \<Longrightarrow>
    finite (dom (hw_objects w')) \<and> handle_balance w' h = handle_balance w h + count_list (concat (map uh_adopted ps)) h"
proof (induction ps arbitrary: w)
  case (Cons p ps)
  have sc: "uh_scoped p w" using Cons.prems(3) by (auto split: if_splits)
  obtain w1 where w1: "uh_step p w = Some w1" "finite (dom (hw_objects w1))"
    "handle_balance w1 h = handle_balance w h + count_list (uh_adopted p) h"
    using uh_step_balance [OF Cons.prems(1,2) sc] by blast
  then have "uh_run ps w1 = Some w'" using Cons.prems(3) sc by simp
  with Cons.IH [OF w1(2) Cons.prems(2)] w1(3) show ?case by simp
qed simp

lemma closed_valid:
  "\<forall>c\<in>set (hw_closed w). uh_valid c \<Longrightarrow> uh_run ps w = Some w' \<Longrightarrow> \<forall>c\<in>set (hw_closed w'). uh_valid c"
proof (induction ps arbitrary: w)
  case (Cons p ps)
  obtain w1 where w1: "uh_step p w = Some w1" "uh_run ps w1 = Some w'"
    using Cons.prems(2) by (auto split: if_splits option.splits)
  have "\<forall>c\<in>set (hw_closed w1). uh_valid c"
    using w1(1) Cons.prems(1)
    by (cases p) (auto simp: uh_new_def uh_reset_def uh_take_def uh_move_new_def uh_assign_def uh_end_def split: option.splits if_splits)
  then show ?case using Cons.IH w1(2) by blast
qed simp

text \<open>A reset to the handle the object already holds closes it and keeps it.\<close>

lemma reset_to_own_handle:
  "hw_objects w i = Some h \<Longrightarrow> uh_valid h \<Longrightarrow>
   \<exists>w'. uh_reset i h w = Some w' \<and> h \<in> set (hw_closed w') \<and> hw_objects w' i = Some h"
  by (simp add: uh_reset_def)

text \<open>
  In any well-scoped program that builds, moves, assigns (also to itself), resets and ends
  handle owners, every adopted handle is closed at most as often as it was adopted, what is not closed is held by
  an object, the two sentinels are never closed, and once every object has ended each adopted handle has
  been closed exactly as often as it was adopted.
\<close>

theorem handles_closed_once:
  assumes "uh_run ps uh_empty = Some w"
  shows "(\<forall>h. uh_valid h \<longrightarrow> count_list (concat (map uh_adopted ps)) h = count_list (hw_closed w) h + holders (hw_objects w) h)
    \<and> (\<forall>c\<in>set (hw_closed w). uh_valid c)
    \<and> ((\<forall>i. hw_objects w i = None) \<longrightarrow>
        (\<forall>h. uh_valid h \<longrightarrow> count_list (hw_closed w) h = count_list (concat (map uh_adopted ps)) h))"
  using uh_run_balance [of uh_empty _ ps w] closed_valid [of uh_empty ps w] assms
  by (auto simp: uh_empty_def handle_balance_def holders_none)

theorem handles_closed_once_witness:
  "\<exists>w. uh_run [UhNew 0 7, UhNew 1 9, UhAssign 1 0, UhAssign 1 1, UhMoveNew 2 1, UhEnd 0, UhEnd 1, UhEnd 2] uh_empty = Some w
    \<and> hw_closed w = [9, 7] \<and> count_list (hw_closed w) 7 = 1"
proof -
  let ?ps = "[UhNew 0 7, UhNew 1 9, UhAssign 1 0, UhAssign 1 1, UhMoveNew 2 1, UhEnd 0, UhEnd 1, UhEnd 2]"
  obtain w where w: "uh_run ?ps uh_empty = Some w" "hw_closed w = [9, 7]" "\<forall>i. hw_objects w i = None"
    by (simp add: uh_empty_def uh_new_def uh_assign_def uh_take_def uh_reset_def uh_move_new_def uh_end_def uh_valid_def
        INVALID_HANDLE_VALUE_def)
  have "uh_valid 7" by (simp add: uh_valid_def INVALID_HANDLE_VALUE_def)
  then have "count_list (hw_closed w) 7 = count_list (concat (map uh_adopted ?ps)) 7"
    using handles_closed_once [OF w(1)] w(3) by blast
  then show ?thesis using w by simp
qed

end
