(* ===== verification/Atomic_Stream.thy ===== *)
theory Atomic_Stream
  imports Unique_Handle "HOL-Library.Multiset"
begin

text \<open>
  The stream of an atomic save (\<open>LogWriter::Impl::AtomicStream\<close>, \<open>io/log_writer.cpp\<close>): a temporary file with its handle, which
  becomes the target on commit and is deleted otherwise, also when the object is moved from place to place as the
  worker does. Stream \<open>i\<close> owns its handle as object \<open>i\<close> of \<open>Unique_Handle\<close>. What the three file calls answer at a
  commit is an input.
\<close>

section \<open>The class\<close>

record save_stream =
  ss_id :: u64
  ss_active :: bool
  ss_destination :: string
  ss_temporary :: string

datatype stream_effect = DeleteTemporary string | MoveTemporary string string

record stream_world =
  aw_streams :: "nat \<Rightarrow> save_stream option"
  aw_handles :: handle_world
  aw_effects :: "stream_effect list"

definition on_handles :: "(handle_world \<Rightarrow> handle_world option) \<Rightarrow> stream_world \<Rightarrow> stream_world option" where
  "on_handles f w = map_option (\<lambda>h. w\<lparr>aw_handles := h\<rparr>) (f (aw_handles w))"

definition set_stream :: "nat \<Rightarrow> save_stream option \<Rightarrow> stream_world \<Rightarrow> stream_world" where
  "set_stream i x w = w\<lparr>aw_streams := (aw_streams w)(i := x)\<rparr>"

text \<open>A stream over a temporary file that was just created; the handle is taken from the object \<open>i\<close> it was opened into.\<close>

definition as_create :: "nat \<Rightarrow> u64 \<Rightarrow> string \<Rightarrow> string \<Rightarrow> win_handle \<Rightarrow> stream_world \<Rightarrow> stream_world" where
  "as_create i sid target temp h w =
     set_stream i (Some \<lparr>ss_id = sid, ss_active = True, ss_destination = target, ss_temporary = temp\<rparr>)
       (w\<lparr>aw_handles := uh_new i h (aw_handles w)\<rparr>)"

text \<open>\<open>std::exchange\<close> of the id and the flag; the arrays are copied.\<close>

definition as_left :: "save_stream \<Rightarrow> save_stream" where
  "as_left x = x\<lparr>ss_id := 0, ss_active := False\<rparr>"

definition as_move_new :: "nat \<Rightarrow> nat \<Rightarrow> stream_world \<Rightarrow> stream_world option" where
  "as_move_new i j w =
     (case aw_streams w j of
        None \<Rightarrow> None
      | Some x \<Rightarrow> on_handles (uh_move_new i j) (set_stream i (Some x) (set_stream j (Some (as_left x)) w)))"

text \<open>The handle goes first; then the temporary file of a stream that was not committed.\<close>

definition as_abort :: "nat \<Rightarrow> stream_world \<Rightarrow> stream_world option" where
  "as_abort i w =
     (case aw_streams w i of
        None \<Rightarrow> None
      | Some x \<Rightarrow>
          map_option (\<lambda>w1. set_stream i (Some (x\<lparr>ss_active := False\<rparr>))
              (w1\<lparr>aw_effects := aw_effects w1 @
                 (if ss_active x \<and> ss_temporary x \<noteq> [] then [DeleteTemporary (ss_temporary x)] else [])\<rparr>))
            (on_handles (uh_reset i 0) w))"

definition as_assign :: "nat \<Rightarrow> nat \<Rightarrow> stream_world \<Rightarrow> stream_world option" where
  "as_assign i j w =
     (if i = j then Some w
      else case as_abort i w of
          None \<Rightarrow> None
        | Some w1 \<Rightarrow>
            (case aw_streams w1 j of
               None \<Rightarrow> None
             | Some x \<Rightarrow> on_handles (uh_assign i j) (set_stream i (Some x) (set_stream j (Some (as_left x)) w1))))"

definition as_end :: "nat \<Rightarrow> stream_world \<Rightarrow> stream_world option" where
  "as_end i w =
     (case as_abort i w of
        None \<Rightarrow> None
      | Some w1 \<Rightarrow> on_handles (uh_end i) (set_stream i None w1))"

text \<open>\<open>flush\<close> and \<open>move\<close> are the answers of the two calls; a stream without a handle does not flush.\<close>

definition as_commit :: "bool \<Rightarrow> bool \<Rightarrow> nat \<Rightarrow> stream_world \<Rightarrow> (i32 \<times> stream_world) option" where
  "as_commit flush move i w =
     (case (aw_streams w i, hw_objects (aw_handles w) i) of
        (Some x, Some h) \<Rightarrow>
          map_option (\<lambda>w1.
              if \<not> (uh_valid h \<and> flush) \<or> \<not> move then (XCOM_ERR_IO, w1)
              else (XCOM_OK, set_stream i (Some (x\<lparr>ss_active := False\<rparr>))
                (w1\<lparr>aw_effects := aw_effects w1 @ [MoveTemporary (ss_temporary x) (ss_destination x)]\<rparr>)))
            (on_handles (uh_reset i 0) w)
      | _ \<Rightarrow> None)"

section \<open>Programs over streams\<close>

datatype stream_op =
    AsCreate nat u64 string string win_handle | AsMoveNew nat nat | AsAssign nat nat | AsAbort nat
  | AsCommit nat bool bool | AsEnd nat

fun as_step :: "stream_op \<Rightarrow> stream_world \<Rightarrow> stream_world option" where
  "as_step (AsCreate i sid target temp h) w = Some (as_create i sid target temp h w)"
| "as_step (AsMoveNew i j) w = as_move_new i j w"
| "as_step (AsAssign i j) w = as_assign i j w"
| "as_step (AsAbort i) w = as_abort i w"
| "as_step (AsCommit i flush move) w = map_option snd (as_commit flush move i w)"
| "as_step (AsEnd i) w = as_end i w"

text \<open>Objects are built once and used while they live; a commit is asked of an active stream.\<close>

fun as_scoped :: "stream_op \<Rightarrow> stream_world \<Rightarrow> bool" where
  "as_scoped (AsCreate i sid target temp h) w \<longleftrightarrow> aw_streams w i = None \<and> temp \<noteq> []"
| "as_scoped (AsMoveNew i j) w \<longleftrightarrow> aw_streams w i = None \<and> aw_streams w j \<noteq> None"
| "as_scoped (AsAssign i j) w \<longleftrightarrow> aw_streams w i \<noteq> None \<and> aw_streams w j \<noteq> None"
| "as_scoped (AsAbort i) w \<longleftrightarrow> aw_streams w i \<noteq> None"
| "as_scoped (AsCommit i flush move) w \<longleftrightarrow> (\<exists>x. aw_streams w i = Some x \<and> ss_active x)"
| "as_scoped (AsEnd i) w \<longleftrightarrow> aw_streams w i \<noteq> None"

fun as_run :: "stream_op list \<Rightarrow> stream_world \<Rightarrow> stream_world option" where
  "as_run [] w = Some w"
| "as_run (p # ps) w =
     (if as_scoped p w then (case as_step p w of None \<Rightarrow> None | Some w1 \<Rightarrow> as_run ps w1) else None)"

definition as_empty :: stream_world where
  "as_empty = \<lparr>aw_streams = (\<lambda>_. None), aw_handles = uh_empty, aw_effects = []\<rparr>"

fun created_temporary :: "stream_op \<Rightarrow> string list" where
  "created_temporary (AsCreate i sid target temp h) = [temp]"
| "created_temporary _ = []"

fun created_handle :: "stream_op \<Rightarrow> win_handle list" where
  "created_handle (AsCreate i sid target temp h) = [h]"
| "created_handle _ = []"

fun settled :: "stream_effect \<Rightarrow> string" where
  "settled (DeleteTemporary t) = t"
| "settled (MoveTemporary t d) = t"

section \<open>The handles\<close>

text \<open>What a program over streams does to the handles is a program over their owners.\<close>

fun handle_ops :: "stream_op \<Rightarrow> uh_op list" where
  "handle_ops (AsCreate i sid target temp h) = [UhNew i h]"
| "handle_ops (AsMoveNew i j) = [UhMoveNew i j]"
| "handle_ops (AsAssign i j) = (if i = j then [] else [UhReset i 0, UhAssign i j])"
| "handle_ops (AsAbort i) = [UhReset i 0]"
| "handle_ops (AsCommit i flush move) = [UhReset i 0]"
| "handle_ops (AsEnd i) = [UhReset i 0, UhEnd i]"

definition same_owners :: "stream_world \<Rightarrow> bool" where
  "same_owners w \<longleftrightarrow> (\<forall>i. aw_streams w i = None \<longleftrightarrow> hw_objects (aw_handles w) i = None)"

lemma set_stream_simps [simp]:
  "aw_streams (set_stream i x w) = (aw_streams w)(i := x)" "aw_handles (set_stream i x w) = aw_handles w"
  "aw_effects (set_stream i x w) = aw_effects w"
  by (simp_all add: set_stream_def)

lemma on_handles_Some:
  "on_handles f w = Some w1 \<longleftrightarrow> (\<exists>h. f (aw_handles w) = Some h \<and> w1 = w\<lparr>aw_handles := h\<rparr>)"
  by (auto simp: on_handles_def)

lemmas uh_defs = uh_new_def uh_reset_def uh_take_def uh_move_new_def uh_assign_def uh_end_def
lemmas as_defs = as_create_def as_move_new_def as_abort_def as_assign_def as_end_def as_commit_def on_handles_def

lemma owners_live: "same_owners w \<Longrightarrow> aw_streams w i = Some x \<Longrightarrow> \<exists>h. hw_objects (aw_handles w) i = Some h"
  by (metis option.exhaust same_owners_def option.distinct(1))

lemma as_step_handles:
  assumes "same_owners w" "as_scoped p w"
  shows "\<exists>w'. as_step p w = Some w' \<and> same_owners w' \<and> uh_run (handle_ops p) (aw_handles w) = Some (aw_handles w')"
proof -
  note own = assms(1) [unfolded same_owners_def]
  show ?thesis
  proof (cases p)
    case (AsMoveNew i j)
    then obtain x where x: "aw_streams w j = Some x" "aw_streams w i = None" using assms(2) by auto
    then obtain h where "hw_objects (aw_handles w) j = Some h" "hw_objects (aw_handles w) i = None" "i \<noteq> j"
      using owners_live [OF assms(1)] own by force
    then show ?thesis using AsMoveNew x own by (auto simp: as_defs uh_defs same_owners_def)
  next
    case (AsAssign i j)
    show ?thesis
    proof (cases "i = j")
      case True
      then show ?thesis using AsAssign assms by (simp add: as_assign_def)
    next
      case False
      obtain x y where x: "aw_streams w i = Some x" "aw_streams w j = Some y" using AsAssign assms(2) by auto
      then obtain g h where "hw_objects (aw_handles w) i = Some g" "hw_objects (aw_handles w) j = Some h"
        using owners_live [OF assms(1)] by blast
      then show ?thesis using AsAssign False x own by (auto simp: as_defs uh_defs same_owners_def)
    qed
  next
    case (AsCommit i flush move)
    then obtain x where x: "aw_streams w i = Some x" using assms(2) by auto
    then obtain g where "hw_objects (aw_handles w) i = Some g" using owners_live [OF assms(1)] by blast
    then show ?thesis using AsCommit x own by (auto simp: as_defs uh_defs same_owners_def)
  next
    case (AsEnd i)
    then obtain x where x: "aw_streams w i = Some x" using assms(2) by auto
    then obtain g where "hw_objects (aw_handles w) i = Some g" using owners_live [OF assms(1)] by blast
    then show ?thesis using AsEnd x own by (auto simp: as_defs uh_defs same_owners_def)
  next
    case (AsAbort i)
    then obtain x where x: "aw_streams w i = Some x" using assms(2) by auto
    then obtain g where "hw_objects (aw_handles w) i = Some g" using owners_live [OF assms(1)] by blast
    then show ?thesis using AsAbort x own by (auto simp: as_defs uh_defs same_owners_def)
  qed (use own assms(2) in \<open>auto simp: as_defs uh_defs same_owners_def\<close>)
qed

section \<open>The temporary files\<close>

definition active_of :: "save_stream option \<Rightarrow> string option" where
  "active_of x = (case x of Some x \<Rightarrow> if ss_active x then Some (ss_temporary x) else None | None \<Rightarrow> None)"

text \<open>The temporary file a stream still has to settle.\<close>

definition active_temporary :: "stream_world \<Rightarrow> nat \<Rightarrow> string option" where
  "active_temporary w i = active_of (aw_streams w i)"

definition streams_ok :: "stream_world \<Rightarrow> bool" where
  "streams_ok w \<longleftrightarrow> finite (dom (aw_streams w)) \<and> (\<forall>i. active_temporary w i \<noteq> Some [])"

definition temporary_balance :: "stream_world \<Rightarrow> string \<Rightarrow> nat" where
  "temporary_balance w t = count_list (map settled (aw_effects w)) t + holders (active_temporary w) t"

lemma active_temporary_set [simp]: "active_temporary (set_stream i x w) = (active_temporary w)(i := active_of x)"
  by (auto simp: active_temporary_def)

lemma active_temporary_other [simp]:
  "active_temporary (w\<lparr>aw_handles := h\<rparr>) = active_temporary w" "active_temporary (w\<lparr>aw_effects := e\<rparr>) = active_temporary w"
  by (auto simp: active_temporary_def)

lemma active_of_simps [simp]:
  "active_of None = None" "active_of (Some (as_left x)) = None"
  "active_of (Some (x\<lparr>ss_active := False\<rparr>)) = None"
  by (simp_all add: active_of_def as_left_def)

lemma active_finite: "finite (dom (aw_streams w)) \<Longrightarrow> finite (dom (active_temporary w))"
  by (rule finite_subset) (auto simp: active_temporary_def active_of_def split: option.splits)

lemma count_append_one: "count_list (xs @ [y]) t = count_list xs t + (if y = t then 1 else 0)"
  by simp

text \<open>An abort settles what the stream holds and leaves it inactive.\<close>

lemma as_abort_balance:
  assumes "streams_ok w" "as_abort i w = Some w1"
  shows "streams_ok w1" "temporary_balance w1 t = temporary_balance w t" "active_temporary w1 = (active_temporary w)(i := None)"
    "dom (aw_streams w1) = dom (aw_streams w)" "aw_streams w1 = (aw_streams w)(i := map_option (\<lambda>x. x\<lparr>ss_active := False\<rparr>) (aw_streams w i))"
proof -
  obtain x h where x: "aw_streams w i = Some x" "uh_reset i 0 (aw_handles w) = Some h"
    and w1: "w1 = set_stream i (Some (x\<lparr>ss_active := False\<rparr>)) (w\<lparr>aw_handles := h, aw_effects := aw_effects w @
      (if ss_active x \<and> ss_temporary x \<noteq> [] then [DeleteTemporary (ss_temporary x)] else [])\<rparr>)"
    using assms(2) by (auto simp: as_abort_def on_handles_def split: option.splits)
  show a: "active_temporary w1 = (active_temporary w)(i := None)" by (simp add: w1)
  show "dom (aw_streams w1) = dom (aw_streams w)" using x by (auto simp: w1)
  then show "streams_ok w1" using assms(1) a by (simp add: streams_ok_def)
  show "aw_streams w1 = (aw_streams w)(i := map_option (\<lambda>x. x\<lparr>ss_active := False\<rparr>) (aw_streams w i))" using x by (simp add: w1)
  have "active_temporary w i = (if ss_active x then Some (ss_temporary x) else None)" using x by (simp add: active_temporary_def active_of_def)
  moreover have "finite (dom (active_temporary w))" using assms(1) active_finite by (simp add: streams_ok_def)
  moreover have "ss_temporary x \<noteq> []" if "ss_active x"
  proof -
    have "active_temporary w i = Some (ss_temporary x)" using x(1) that by (simp add: active_temporary_def active_of_def)
    then show ?thesis using assms(1) unfolding streams_ok_def by metis
  qed
  ultimately show "temporary_balance w1 t = temporary_balance w t"
    using holders_upd [of "active_temporary w" i None t] unfolding temporary_balance_def a
    by (auto simp: w1 split: if_splits)
qed

text \<open>A move hands over what is to be settled.\<close>

lemma as_move_balance:
  assumes "streams_ok w" "aw_streams w j = Some x" "active_temporary w i = None" "i \<noteq> j"
  defines "w1 \<equiv> set_stream i (Some x) (set_stream j (Some (as_left x)) w)"
  shows "streams_ok w1" "temporary_balance w1 t = temporary_balance w t"
proof -
  have f: "finite (dom (active_temporary w))" using assms(1) active_finite by (simp add: streams_ok_def)
  have a: "active_temporary w j = active_of (Some x)" using assms(2) by (simp add: active_temporary_def)
  show "streams_ok w1" using assms(1) a by (auto simp: w1_def streams_ok_def)
  have "holders ((active_temporary w)(j := None)) t + (if active_of (Some x) = Some t then 1 else 0) = holders (active_temporary w) t"
    using holders_upd [OF f, of j None t] a by simp
  moreover have "finite (dom ((active_temporary w)(j := None)))" using f by simp
  from holders_upd [OF this, of i "active_of (Some x)" t]
  have "holders ((active_temporary w)(j := None, i := active_of (Some x))) t =
      holders ((active_temporary w)(j := None)) t + (if active_of (Some x) = Some t then 1 else 0)"
    using assms(3,4) by simp
  ultimately show "temporary_balance w1 t = temporary_balance w t" by (simp add: w1_def temporary_balance_def)
qed

lemma streams_ok_handles [simp]: "streams_ok (w\<lparr>aw_handles := h\<rparr>) = streams_ok w"
  "temporary_balance (w\<lparr>aw_handles := h\<rparr>) t = temporary_balance w t"
  by (simp_all add: streams_ok_def temporary_balance_def)

lemma as_step_balance:
  assumes ok: "streams_ok w" and sc: "as_scoped p w" and st: "as_step p w = Some w'"
  shows "streams_ok w' \<and> temporary_balance w' t = temporary_balance w t + count_list (created_temporary p) t"
proof -
  have f: "finite (dom (active_temporary w))" using ok active_finite by (simp add: streams_ok_def)
  have none: "aw_streams w i = None \<Longrightarrow> active_temporary w i = None" for i by (simp add: active_temporary_def)
  show ?thesis
  proof (cases p)
    case (AsCreate i sid target temp h)
    then have "active_temporary w i = None" "temp \<noteq> []" using sc none by auto
    then show ?thesis using AsCreate st ok holders_upd [OF f, of i "Some temp" t]
      by (auto simp: as_create_def streams_ok_def temporary_balance_def active_of_def split: if_splits)
  next
    case (AsMoveNew i j)
    then obtain x h where x: "aw_streams w j = Some x" "aw_streams w i = None"
      "w' = (set_stream i (Some x) (set_stream j (Some (as_left x)) w))\<lparr>aw_handles := h\<rparr>"
      using sc st by (auto simp: as_move_new_def on_handles_def)
    then have "i \<noteq> j" by auto
    then show ?thesis using as_move_balance [OF ok x(1) none [OF x(2)]] x(3) AsMoveNew by simp
  next
    case (AsAssign i j)
    show ?thesis
    proof (cases "i = j")
      case True
      then show ?thesis using AsAssign st ok by (simp add: as_assign_def)
    next
      case False
      then obtain w1 where w1: "as_abort i w = Some w1" using AsAssign st by (auto simp: as_assign_def split: option.splits)
      obtain x h where x: "aw_streams w1 j = Some x"
        "w' = (set_stream i (Some x) (set_stream j (Some (as_left x)) w1))\<lparr>aw_handles := h\<rparr>"
        using AsAssign st False w1 by (auto simp: as_assign_def on_handles_def split: option.splits)
      have "active_temporary w1 i = None" using as_abort_balance(3) [OF ok w1] by simp
      then show ?thesis
        using as_move_balance [OF as_abort_balance(1) [OF ok w1] x(1) _ False] as_abort_balance(2) [OF ok w1] x(2) AsAssign by simp
    qed
  next
    case (AsAbort i)
    then show ?thesis using as_abort_balance [OF ok] st by simp
  next
    case (AsCommit i flush move)
    then obtain x where x: "aw_streams w i = Some x" "ss_active x" using sc by auto
    then have a: "active_temporary w i = Some (ss_temporary x)" by (simp add: active_temporary_def active_of_def)
    show ?thesis
      using AsCommit st x(1) ok holders_upd [OF f, of i None t] a
      by (auto simp: as_commit_def on_handles_def streams_ok_def temporary_balance_def split: option.splits if_splits)
  next
    case (AsEnd i)
    then obtain w1 h where w1: "as_abort i w = Some w1" "w' = (set_stream i None w1)\<lparr>aw_handles := h\<rparr>"
      using st by (auto simp: as_end_def on_handles_def split: option.splits)
    have "(active_temporary w1)(i := None) = active_temporary w1" using as_abort_balance(3) [OF ok w1(1)] by simp
    then show ?thesis
      using as_abort_balance [OF ok w1(1)] w1(2) AsEnd by (auto simp: streams_ok_def temporary_balance_def)
  qed
qed

section \<open>Whole programs\<close>

definition as_inv :: "stream_world \<Rightarrow> bool" where
  "as_inv w \<longleftrightarrow> same_owners w \<and> streams_ok w"

lemma as_inv_empty: "as_inv as_empty"
  by (simp add: as_inv_def as_empty_def uh_empty_def same_owners_def streams_ok_def active_temporary_def active_of_def)

lemma as_step_inv:
  assumes "as_inv w" "as_scoped p w"
  shows "\<exists>w'. as_step p w = Some w' \<and> as_inv w'"
proof -
  obtain w' where "as_step p w = Some w'" "same_owners w'"
    using as_step_handles assms unfolding as_inv_def by blast
  then show ?thesis using as_step_balance assms unfolding as_inv_def by blast
qed

lemma uh_run_append: "uh_run (ps @ qs) w = (case uh_run ps w of None \<Rightarrow> None | Some w1 \<Rightarrow> uh_run qs w1)"
  by (induction ps arbitrary: w) (auto split: option.splits)

lemma as_run_all:
  "as_inv w \<Longrightarrow> as_run ps w = Some w' \<Longrightarrow>
   as_inv w' \<and> uh_run (concat (map handle_ops ps)) (aw_handles w) = Some (aw_handles w') \<and>
   temporary_balance w' t = temporary_balance w t + count_list (concat (map created_temporary ps)) t"
proof (induction ps arbitrary: w)
  case (Cons p ps)
  have sc: "as_scoped p w" using Cons.prems(2) by (auto split: if_splits)
  obtain w1 where w1: "as_step p w = Some w1" "as_inv w1" using as_step_inv [OF Cons.prems(1) sc] by blast
  then have r: "as_run ps w1 = Some w'" using Cons.prems(2) sc by simp
  have "uh_run (handle_ops p) (aw_handles w) = Some (aw_handles w1)"
    using as_step_handles [OF _ sc] Cons.prems(1) w1(1) unfolding as_inv_def by force
  moreover have "temporary_balance w1 t = temporary_balance w t + count_list (created_temporary p) t"
    using as_step_balance [OF _ sc w1(1)] Cons.prems(1) unfolding as_inv_def by blast
  ultimately show ?case using Cons.IH [OF w1(2) r] by (simp add: uh_run_append)
qed simp

lemma adopted_handles:
  "uh_valid h \<Longrightarrow> count_list (concat (map uh_adopted (concat (map handle_ops ps)))) h = count_list (concat (map created_handle ps)) h"
proof (induction ps)
  case (Cons p ps)
  then show ?case by (cases p) (auto simp: uh_valid_def)
qed simp

text \<open>
  C24 (streams_settle_temporaries). In any program that creates, moves, assigns (also to itself), aborts, commits and ends
  save streams, every use the scopes allow is defined, every temporary file that was created is deleted, or
  renamed, or still to be settled by exactly one stream, and every handle is closed, or still owned by exactly one
  stream; so once all streams have ended each temporary has been settled as often as created and each handle has
  been closed.
\<close>

theorem streams_settle_temporaries:
  assumes "as_run ps as_empty = Some w"
  shows "(\<forall>p. as_scoped p w \<longrightarrow> as_step p w \<noteq> None)
    \<and> (\<forall>t. count_list (concat (map created_temporary ps)) t
          = count_list (map settled (aw_effects w)) t + holders (active_temporary w) t)
    \<and> (\<forall>h. uh_valid h \<longrightarrow> count_list (concat (map created_handle ps)) h
          = count_list (hw_closed (aw_handles w)) h + holders (hw_objects (aw_handles w)) h)
    \<and> ((\<forall>i. aw_streams w i = None) \<longrightarrow>
         mset (map settled (aw_effects w)) = mset (concat (map created_temporary ps))
         \<and> (\<forall>h. uh_valid h \<longrightarrow> count_list (hw_closed (aw_handles w)) h = count_list (concat (map created_handle ps)) h))"
proof -
  have e: "temporary_balance as_empty t = 0" "aw_handles as_empty = uh_empty" for t
    by (simp_all add: temporary_balance_def as_empty_def active_temporary_def active_of_def holders_none)
  note all = as_run_all [OF as_inv_empty assms, unfolded e]
  have t: "count_list (concat (map created_temporary ps)) t = count_list (map settled (aw_effects w)) t + holders (active_temporary w) t" for t
    using all [of t] by (simp add: temporary_balance_def)
  have h: "count_list (concat (map created_handle ps)) h = count_list (hw_closed (aw_handles w)) h + holders (hw_objects (aw_handles w)) h"
    if "uh_valid h" for h
    using handles_closed_once [of "concat (map handle_ops ps)" "aw_handles w"] all [of "[]"] adopted_handles [OF that, of ps] that by simp
  have gone: "active_temporary w i = None" "hw_objects (aw_handles w) i = None" if "\<forall>i. aw_streams w i = None" for i
    using that all [of "[]"] by (simp_all add: active_temporary_def active_of_def as_inv_def same_owners_def)
  have m: "mset (map settled (aw_effects w)) = mset (concat (map created_temporary ps))" if "\<forall>i. aw_streams w i = None"
  proof (rule multiset_eqI)
    have c: "count (mset xs) x = count_list xs x" for xs :: "string list" and x by (induction xs) auto
    show "count (mset (map settled (aw_effects w))) x = count (mset (concat (map created_temporary ps))) x" for x
      using t [of x] gone(1) [OF that] unfolding c by (simp add: holders_none)
  qed
  have "as_step p w \<noteq> None" if "as_scoped p w" for p
    using as_step_inv [OF conjunct1 [OF all [of "[]"]] that] by auto
  then show ?thesis using t h m gone by (auto simp: holders_none)
qed

text \<open>A stream is created, moved into another place, refused by the disk at its commit and ended; a second one is committed.\<close>

lemma streams_settle_temporaries_witness:
  "\<exists>w. as_run [AsCreate 0 5 ''log'' ''log.tmp'' 77, AsMoveNew 1 0, AsAssign 0 1, AsCommit 0 True False, AsEnd 0, AsEnd 1,
        AsCreate 2 6 ''log'' ''log.tmp2'' 78, AsCommit 2 True True, AsEnd 2] as_empty = Some w
     \<and> aw_effects w = [DeleteTemporary ''log.tmp'', MoveTemporary ''log.tmp2'' ''log'']
     \<and> count_list (hw_closed (aw_handles w)) 77 = 1"
proof -
  let ?ps = "[AsCreate 0 5 ''log'' ''log.tmp'' 77, AsMoveNew 1 0, AsAssign 0 1, AsCommit 0 True False, AsEnd 0, AsEnd 1,
        AsCreate 2 6 ''log'' ''log.tmp2'' 78, AsCommit 2 True True, AsEnd 2]"
  obtain w where w: "as_run ?ps as_empty = Some w"
    "aw_effects w = [DeleteTemporary ''log.tmp'', MoveTemporary ''log.tmp2'' ''log'']" "\<forall>i. aw_streams w i = None"
    by (simp add: as_empty_def as_defs uh_defs as_left_def uh_empty_def uh_valid_def INVALID_HANDLE_VALUE_def)
  have "uh_valid 77" by (simp add: uh_valid_def INVALID_HANDLE_VALUE_def)
  then have "count_list (hw_closed (aw_handles w)) 77 = count_list (concat (map created_handle ?ps)) 77"
    using streams_settle_temporaries [OF w(1)] w(3) by blast
  then show ?thesis using w by simp
qed

end
