(* ===== verification/Module_Paths.thy ===== *)
theory Module_Paths
  imports Prelude
begin

text \<open>
  Where the program looks for its files: the launcher (\<open>native/launcher/xcom_launcher.cpp\<close>), which starts the Lua host
  beside itself, and the resource lookup of the window bridge (\<open>module_directory\<close>, \<open>module_resource_path\<close>,
  \<open>module_asset_path\<close>, \<open>system_font_path\<close> of \<open>xcom_imgui_bridge.cpp\<close>). The Win32 calls are answers given to the
  definitions. Path characters are those of the string; a wide string is the string of its characters.
\<close>

section \<open>Separators\<close>

definition is_slash :: "char \<Rightarrow> bool" where
  "is_slash c \<longleftrightarrow> c = CHR 0x5C \<or> c = CHR ''/''"

text \<open>\<open>find_last_of\<close> with both separators; \<open>None\<close> is \<open>npos\<close>.\<close>

fun last_slash :: "string \<Rightarrow> nat option" where
  "last_slash [] = None"
| "last_slash (c # cs) =
     (case last_slash cs of Some i \<Rightarrow> Some (Suc i) | None \<Rightarrow> if is_slash c then Some 0 else None)"

definition plain_name :: "string \<Rightarrow> bool" where
  "plain_name s \<longleftrightarrow> (\<forall>c \<in> set s. \<not> is_slash c)"

lemma last_slash_plain: "plain_name s \<Longrightarrow> last_slash s = None"
  by (induction s) (auto simp: plain_name_def)

lemma last_slash_name: "plain_name s \<Longrightarrow> is_slash c \<Longrightarrow> last_slash (dir @ c # s) = Some (length dir)"
  by (induction dir) (simp_all add: last_slash_plain)

lemma last_slash_Some:
  "last_slash s = Some i \<Longrightarrow> i < length s \<and> is_slash (s ! i) \<and> plain_name (drop (Suc i) s)"
proof (induction s arbitrary: i)
  case (Cons c cs)
  show ?case
  proof (cases "last_slash cs")
    case None
    have "plain_name cs"
      using None
    proof (induction cs)
      case (Cons d ds)
      then show ?case by (auto simp: plain_name_def split: option.splits if_splits)
    qed (simp add: plain_name_def)
    then show ?thesis using Cons.prems None by (auto split: if_splits)
  next
    case (Some j)
    then show ?thesis using Cons by auto
  qed
qed simp

definition backslash :: char where
  "backslash = CHR 0x5C"

lemma backslash_slash [simp]: "is_slash backslash"
  by (simp add: is_slash_def backslash_def)

definition MAX_PATH :: u32 where [simp]: "MAX_PATH = 260"

section \<open>The launcher\<close>

text \<open>
  What the launcher's calls answer: the length and the buffer of its own path, the existence of a file, the error of a
  refused process creation, and the exit code of the process.
\<close>

record launcher_os =
  lo_module_length :: u32
  lo_module_path :: string
  lo_exists :: "string \<Rightarrow> bool"
  lo_create :: "string \<Rightarrow> string \<Rightarrow> string \<Rightarrow> u32 option"
  lo_exit_code :: u32

datatype launch_op = LaCreate string string string | LaCloseThread | LaWait | LaCloseProcess

definition EXIT_BUFFER_OVERFLOW :: int where [simp]: "EXIT_BUFFER_OVERFLOW = 111"
definition EXIT_PATH_NOT_FOUND :: int where [simp]: "EXIT_PATH_NOT_FOUND = 3"

definition quoted :: "string \<Rightarrow> string" where
  "quoted s = CHR 0x22 # s @ [CHR 0x22]"

definition launcher_entry :: "launcher_os \<Rightarrow> string \<Rightarrow> string" where
  "launcher_entry L root =
     (let bytecode = root @ backslash # ''main.ljbc''
      in if lo_exists L bytecode then bytecode else root @ backslash # ''main.lua'')"

text \<open>The exit code and the calls made; the code of a failed creation is its error.\<close>

definition wWinMain :: "launcher_os \<Rightarrow> int \<times> launch_op list" where
  "wWinMain L =
     (let n = lo_module_length L
      in if n = 0 \<or> n \<ge> MAX_PATH then (EXIT_BUFFER_OVERFLOW, [])
         else let path = take (unat n) (lo_module_path L)
              in case last_slash path of
                   None \<Rightarrow> (EXIT_PATH_NOT_FOUND, [])
                 | Some slash \<Rightarrow>
                     let runtime_dir = take slash path
                     in case last_slash runtime_dir of
                          None \<Rightarrow> (EXIT_PATH_NOT_FOUND, [])
                        | Some parent \<Rightarrow>
                            let app_root = take parent runtime_dir;
                                child = runtime_dir @ backslash # ''luvjit.exe'';
                                command = quoted child @ '' '' @ quoted (launcher_entry L app_root)
                            in case lo_create L child command app_root of
                                 Some e \<Rightarrow> (sint e, [LaCreate child command app_root])
                               | None \<Rightarrow> (sint (lo_exit_code L),
                                   [LaCreate child command app_root, LaCloseThread, LaWait, LaCloseProcess]))"

text \<open>
  In an installation (\<open>root\runtime\exe\<close>) the host beside the launcher is started in the root with the bytecode entry when
  there is one and the source entry otherwise, and its exit code is the launcher's own.
\<close>

lemma launcher_starts_host:
  assumes "lo_module_path L = root @ backslash # rt @ backslash # exe" "plain_name rt" "plain_name exe"
    "unat (lo_module_length L) = length (lo_module_path L)" "lo_module_length L < MAX_PATH"
    "\<And>child cmd dir. lo_create L child cmd dir = None"
  shows "wWinMain L = (sint (lo_exit_code L),
    [LaCreate (root @ backslash # rt @ backslash # ''luvjit.exe'')
       (quoted (root @ backslash # rt @ backslash # ''luvjit.exe'') @ '' '' @ quoted (launcher_entry L root)) root,
     LaCloseThread, LaWait, LaCloseProcess])"
proof -
  have n: "lo_module_length L \<noteq> 0" "\<not> lo_module_length L \<ge> MAX_PATH" using assms(1,4,5) by auto
  have p: "take (unat (lo_module_length L)) (lo_module_path L) = (root @ backslash # rt) @ backslash # exe"
    using assms(1,4) by simp
  show ?thesis
    using n assms(2,3,6)
    by (simp add: wWinMain_def Let_def p last_slash_name [of exe backslash "root @ backslash # rt", simplified] last_slash_name)
qed

text \<open>A path without two separators, or one that does not fit the buffer, starts nothing.\<close>

lemma launcher_refuses:
  assumes "lo_module_length L = 0 \<or> lo_module_length L \<ge> MAX_PATH \<or> plain_name (take (unat (lo_module_length L)) (lo_module_path L))"
  shows "snd (wWinMain L) = [] \<and> fst (wWinMain L) \<noteq> 0"
  using assms by (auto simp: wWinMain_def Let_def last_slash_plain split: option.split)

text \<open>Both handles of a created process are closed, each once, and the wait comes before the process handle's end.\<close>

lemma launcher_closes_handles:
  "snd (wWinMain L) = [] \<or> (\<exists>c cmd d e. snd (wWinMain L) = [LaCreate c cmd d] \<and> lo_create L c cmd d = Some e) \<or>
   (\<exists>c cmd d. snd (wWinMain L) = [LaCreate c cmd d, LaCloseThread, LaWait, LaCloseProcess] \<and> lo_create L c cmd d = None)"
  by (auto simp: wWinMain_def Let_def split: option.split)

section \<open>Resources of the window\<close>

text \<open>
  The path of the library's own module (empty when the lookup fails), the path of the program, the existence of a file, and
  the Windows directory with its conversion to UTF-8 (\<open>None\<close>: either call fails).
\<close>

record resource_os =
  ro_dll_path :: string
  ro_exe_length :: u32
  ro_exe_path :: string
  ro_exists :: "string \<Rightarrow> bool"
  ro_windows :: "string option"

definition module_directory :: "resource_os \<Rightarrow> string" where
  "module_directory R =
     (let exe = take (unat (ro_exe_length R)) (ro_exe_path R);
          path = (if ro_dll_path R \<noteq> [] then ro_dll_path R else exe)
      in if ro_dll_path R = [] \<and> (ro_exe_length R = 0 \<or> ro_exe_length R \<ge> MAX_PATH) then []
         else case last_slash path of None \<Rightarrow> [] | Some slash \<Rightarrow> take (slash + 1) path)"

definition exe_directory :: "resource_os \<Rightarrow> string option" where
  "exe_directory R =
     (if ro_exe_length R > 0 \<and> ro_exe_length R < MAX_PATH
      then (let exe = take (unat (ro_exe_length R)) (ro_exe_path R)
            in map_option (\<lambda>slash. take (slash + 1) exe) (last_slash exe))
      else None)"

definition parent_directory :: "string \<Rightarrow> string option" where
  "parent_directory base =
     (if length base > 1 then map_option (\<lambda>cut. take (cut + 1) base) (last_slash (butlast base)) else None)"

definition module_resource_path :: "resource_os \<Rightarrow> string \<Rightarrow> string" where
  "module_resource_path R name =
     (let base = module_directory R
      in if base = [] then []
         else if ro_exists R (base @ name) then base @ name
         else case parent_directory base of
             Some up \<Rightarrow> if ro_exists R (up @ name) then up @ name
               else (case exe_directory R of Some d \<Rightarrow> if ro_exists R (d @ name) then d @ name else base @ name | None \<Rightarrow> base @ name)
           | None \<Rightarrow> (case exe_directory R of Some d \<Rightarrow> if ro_exists R (d @ name) then d @ name else base @ name | None \<Rightarrow> base @ name))"

definition module_asset_path :: "resource_os \<Rightarrow> string \<Rightarrow> string" where
  "module_asset_path R name = module_resource_path R (''assets'' @ backslash # ''fonts'' @ backslash # name)"

definition system_font_path :: "resource_os \<Rightarrow> string \<Rightarrow> string" where
  "system_font_path R name =
     (let dir = (case ro_windows R of Some w \<Rightarrow> w @ backslash # ''Fonts'' | None \<Rightarrow> ''C:'' @ backslash # ''Windows'')
      in dir @ backslash # name)"

text \<open>The directories probed, in order; the result is the first hit, and the first candidate when there is none.\<close>

definition resource_dirs :: "resource_os \<Rightarrow> string list" where
  "resource_dirs R =
     (let base = module_directory R
      in base # (case parent_directory base of Some up \<Rightarrow> [up] | None \<Rightarrow> [])
           @ (case exe_directory R of Some d \<Rightarrow> [d] | None \<Rightarrow> []))"

lemma resource_path_first_hit:
  assumes "module_directory R \<noteq> []"
  shows "module_resource_path R name =
    (case find (\<lambda>d. ro_exists R (d @ name)) (resource_dirs R) of Some d \<Rightarrow> d | None \<Rightarrow> module_directory R) @ name"
  using assms by (auto simp: module_resource_path_def resource_dirs_def Let_def split: option.split)

lemma module_directory_slash:
  assumes "module_directory R \<noteq> []"
  shows "is_slash (last (module_directory R))"
proof -
  obtain path i where p: "last_slash path = Some i" "module_directory R = take (i + 1) path"
    using assms by (auto simp: module_directory_def Let_def split: if_splits option.splits)
  note s = last_slash_Some [OF p(1)]
  then have "take (i + 1) path = take i path @ [path ! i]" by (simp add: take_Suc_conv_app_nth)
  then show ?thesis using p(2) s by simp
qed

text \<open>The bundle: the library in \<open>root\runtime\<close>, the assets one level up.\<close>

lemma bundle_asset_found:
  assumes "ro_dll_path R = root @ backslash # rt @ backslash # dll" "plain_name rt" "plain_name dll"
    "\<not> ro_exists R (root @ backslash # rt @ backslash # name)" "ro_exists R (root @ backslash # name)"
  shows "module_resource_path R name = root @ backslash # name"
proof -
  have d: "module_directory R = root @ backslash # rt @ [backslash]"
    using last_slash_name [OF assms(3) backslash_slash, of "root @ backslash # rt"] assms(1)
    by (simp add: module_directory_def)
  have "butlast (root @ backslash # rt @ [backslash]) = root @ backslash # rt"
    using butlast_snoc [of "root @ backslash # rt" backslash] by simp
  then have "parent_directory (root @ backslash # rt @ [backslash]) = Some (root @ [backslash])"
    by (simp add: parent_directory_def last_slash_name [OF assms(2) backslash_slash])
  then show ?thesis using d assms(4,5) by (simp add: module_resource_path_def)
qed

text \<open>Without the Windows directory a system font is looked for beside the \<open>Fonts\<close> directory, not in it.\<close>

lemma font_fallback_outside_fonts:
  "ro_windows R = None \<Longrightarrow> system_font_path R name = ''C:'' @ backslash # ''Windows'' @ backslash # name"
  by (simp add: system_font_path_def)

end
