(* ===== verification/Receive_Scroll.thy ===== *)
theory Receive_Scroll
  imports Complex_Main Prelude
begin

text \<open>
  How the receive log scrolls (\<open>ArrowScrollbar\<close> and the scroll part of \<open>ReceiveContent\<close>, \<open>xcom_imgui_bridge.cpp\<close>): the
  bar with arrow buttons, the latch that follows the tail, the edge scroll of a drag. Lengths and positions are
  rationals; a position that is not finite is \<open>None\<close>. The GUI library clamps a scroll target when the next frame
  begins, which is the parameter \<open>begin_scroll\<close>; the mouse and the item states are inputs. Painting is not modelled.
\<close>

section \<open>The bar\<close>

definition im_clamp :: "rat \<Rightarrow> rat \<Rightarrow> rat \<Rightarrow> rat" where
  "im_clamp v lo hi = (if v < lo then lo else if v > hi then hi else v)"

definition im_saturate :: "rat \<Rightarrow> rat" where
  "im_saturate f = (if f < 0 then 0 else if f > 1 then 1 else f)"

text \<open>The column and the sizes a frame works with.\<close>

record bar_frame =
  bf_top :: rat
  bf_bottom :: rat
  bf_width :: rat
  bf_row_h :: rat
  bf_visible :: rat
  bf_scroll_max :: rat
  bf_grab_min :: rat

definition arrow_h :: "bar_frame \<Rightarrow> rat" where
  "arrow_h B = min (bf_width B) (min 14 ((bf_bottom B - bf_top B) * (1 / 4)))"

definition track_top :: "bar_frame \<Rightarrow> rat" where
  "track_top B = bf_top B + arrow_h B"

definition track_bottom :: "bar_frame \<Rightarrow> rat" where
  "track_bottom B = bf_bottom B - arrow_h B"

definition track_h :: "bar_frame \<Rightarrow> rat" where
  "track_h B = track_bottom B - track_top B"

definition grab_h :: "bar_frame \<Rightarrow> rat" where
  "grab_h B =
     (let content = max (bf_scroll_max B + bf_visible B) 1
      in im_clamp (track_h B * bf_visible B / content) (min (track_h B) (bf_grab_min B)) (track_h B))"

definition grab_top :: "bar_frame \<Rightarrow> rat \<Rightarrow> rat" where
  "grab_top B scroll = track_top B + scroll / bf_scroll_max B * (track_h B - grab_h B)"

text \<open>The item's state: pressed includes the repeat ticks of a held button.\<close>

record bar_mouse =
  bm_y :: rat
  bm_pressed :: bool
  bm_held :: bool
  bm_activated :: bool

record bar_latch =
  bl_delta :: rat
  bl_seek :: int

datatype scroll_write = KeepScroll | TailTarget | WriteScroll rat

definition mouse_norm :: "bar_frame \<Rightarrow> bar_mouse \<Rightarrow> rat" where
  "mouse_norm B M = im_saturate ((bm_y M - track_top B) / track_h B)"

definition grab_norm :: "bar_frame \<Rightarrow> rat \<Rightarrow> rat" where
  "grab_norm B scroll = (grab_top B scroll - track_top B) / track_h B"

definition grab_ratio :: "bar_frame \<Rightarrow> rat" where
  "grab_ratio B = grab_h B / track_h B"

text \<open>The region is chosen on the activation frame: an arrow, the track on either side of the grab, or the grab.\<close>

definition latch_region :: "bar_frame \<Rightarrow> rat \<Rightarrow> bar_mouse \<Rightarrow> bar_latch \<Rightarrow> bar_latch" where
  "latch_region B scroll M L =
     (if \<not> bm_activated M then L
      else if bm_y M < track_top B then L\<lparr>bl_seek := -2\<rparr>
      else if bm_y M \<ge> track_bottom B then L\<lparr>bl_seek := 2\<rparr>
      else if mouse_norm B M < grab_norm B scroll \<or> mouse_norm B M > grab_norm B scroll + grab_ratio B
      then L\<lparr>bl_seek := (if mouse_norm B M < grab_norm B scroll then -1 else 1)\<rparr>
      else L\<lparr>bl_seek := 0, bl_delta := mouse_norm B M - grab_norm B scroll - grab_ratio B / 2\<rparr>)"

definition seek_step :: "bar_frame \<Rightarrow> bar_mouse \<Rightarrow> bar_latch \<Rightarrow> rat \<Rightarrow> rat" where
  "seek_step B M L scroll =
     (if bm_pressed M \<and> bl_seek L \<noteq> 0
      then (let unit = (if bl_seek L = -2 \<or> bl_seek L = 2 then bf_row_h B else max (bf_visible B - bf_row_h B) (bf_row_h B))
            in if bl_seek L > 0 then scroll + unit else scroll - unit)
      else scroll)"

definition drag_seek :: "bar_frame \<Rightarrow> bar_mouse \<Rightarrow> bar_latch \<Rightarrow> rat \<Rightarrow> rat" where
  "drag_seek B M L scroll =
     (let range = 1 - grab_ratio B
      in if bm_held M \<and> bl_seek L = 0 \<and> range > 0
         then im_saturate ((mouse_norm B M - bl_delta L - grab_ratio B / 2) / range) * bf_scroll_max B
         else scroll)"

text \<open>At the very bottom a held bar asks for the tail target; otherwise a changed position is written at once.\<close>

definition bar_write :: "bar_frame \<Rightarrow> bar_mouse \<Rightarrow> rat option \<Rightarrow> rat \<Rightarrow> scroll_write" where
  "bar_write B M y scroll =
     (let moved = im_clamp scroll 0 (bf_scroll_max B)
      in if bm_held M \<and> moved \<ge> bf_scroll_max B then TailTarget
         else if Some moved \<noteq> y then WriteScroll moved
         else KeepScroll)"

definition arrow_scrollbar :: "bar_frame \<Rightarrow> bar_mouse \<Rightarrow> rat option \<Rightarrow> bar_latch \<Rightarrow> scroll_write \<times> bar_latch" where
  "arrow_scrollbar B M y L =
     (if bf_scroll_max B \<le> 0 \<or> track_h B \<le> 2 then (KeepScroll, L)
      else let scroll = (case y of None \<Rightarrow> bf_scroll_max B | Some v \<Rightarrow> v);
               L1 = latch_region B scroll M L
           in (bar_write B M y (drag_seek B M L1 (seek_step B M L1 scroll)), L1))"

section \<open>A frame of the log\<close>

text \<open>
  What is kept between frames: the position, the target the next frame applies, the follow latch, the bar's latch, the row
  metrics and the published values.
\<close>

record log_scroll =
  ls_y :: "rat option"
  ls_target :: "rat option"
  ls_follow :: bool
  ls_latch :: bar_latch
  ls_rows_top :: rat
  ls_row_h :: rat
  ls_out_y :: rat
  ls_out_max :: rat

text \<open>
  What a frame meets: a wheel target set before it, the number of lines, the height the library measured by itself (used while
  there is at most one line or no row metric), the log's height, the row metrics it measures, the mouse button, the drag's
  position against the rows (-1 above, 1 below) and the bar.
\<close>

record scroll_frame =
  sf_wheel :: "rat option"
  sf_rows :: nat
  sf_empty :: bool
  sf_auto_content :: rat
  sf_height :: rat
  sf_rows_top :: rat
  sf_line_h :: rat
  sf_button :: bool
  sf_edge :: int
  sf_bar :: bar_frame
  sf_mouse :: bar_mouse

definition kFollowTailTargetY :: rat where
  "kFollowTailTargetY = 1000000000"

definition content_height :: "scroll_frame \<Rightarrow> log_scroll \<Rightarrow> rat" where
  "content_height F s =
     (if sf_rows F > 1 \<and> ls_row_h s > 0 then ls_rows_top s + of_nat (sf_rows F) * ls_row_h s else sf_auto_content F)"

definition scroll_max_of :: "scroll_frame \<Rightarrow> log_scroll \<Rightarrow> rat" where
  "scroll_max_of F s = max 0 (content_height F s - sf_height F)"

text \<open>A position that is not finite is recovered to the bottom; the latch compares it with the bottom.\<close>

definition recovered_y :: "rat \<Rightarrow> rat option \<Rightarrow> rat" where
  "recovered_y limit y = (case y of None \<Rightarrow> limit | Some v \<Rightarrow> v)"

definition at_bottom :: "rat \<Rightarrow> rat \<Rightarrow> bool" where
  "at_bottom limit y \<longleftrightarrow> y \<ge> limit"

definition edge_target :: "scroll_frame \<Rightarrow> rat \<Rightarrow> rat option" where
  "edge_target F y =
     (if sf_edge F < 0 then Some (y - sf_line_h F)
      else if sf_edge F > 0 then Some (y + sf_line_h F) else None)"

definition pin_target :: "scroll_frame \<Rightarrow> bool \<Rightarrow> rat option \<Rightarrow> rat option" where
  "pin_target F follow t = (if follow \<and> \<not> sf_button F then Some kFollowTailTargetY else t)"

definition empty_log :: "rat option \<Rightarrow> log_scroll \<Rightarrow> log_scroll" where
  "empty_log y s = s\<lparr>ls_y := y, ls_target := None, ls_follow := True, ls_out_y := 0, ls_out_max := 0\<rparr>"

definition receive_scroll_frame ::
  "(rat option \<Rightarrow> rat option \<Rightarrow> rat \<Rightarrow> rat option) \<Rightarrow> scroll_frame \<Rightarrow> log_scroll \<Rightarrow> log_scroll" where
  "receive_scroll_frame begin_scroll F s =
     (let top = scroll_max_of F s;
          target = (case sf_wheel F of None \<Rightarrow> ls_target s | w \<Rightarrow> w);
          y0 = begin_scroll target (ls_y s) top
      in if sf_empty F then empty_log y0 s
         else let y1 = recovered_y top y0;
                  follow = at_bottom top y1;
                  t = pin_target F follow (edge_target F y1);
                  (w, L) = arrow_scrollbar ((sf_bar F)\<lparr>bf_scroll_max := top, bf_row_h := sf_line_h F\<rparr>) (sf_mouse F) (Some y1) (ls_latch s);
                  y2 = (case w of WriteScroll v \<Rightarrow> v | _ \<Rightarrow> y1)
              in s\<lparr>ls_y := Some y2, ls_target := (if w = TailTarget then Some kFollowTailTargetY else t),
                   ls_follow := follow, ls_latch := L,
                   ls_rows_top := sf_rows_top F, ls_row_h := sf_line_h F, ls_out_y := y2, ls_out_max := top\<rparr>)"

text \<open>
  The library's documented start of a frame: the target, or else the position, rounded to a whole pixel and clamped to the
  range.
\<close>

definition begin_clamp :: "rat \<Rightarrow> rat \<Rightarrow> rat" where
  "begin_clamp v m = min (of_int (round (max v 0))) m"

definition begin_documented :: "(rat option \<Rightarrow> rat option \<Rightarrow> rat \<Rightarrow> rat option) \<Rightarrow> bool" where
  "begin_documented f \<longleftrightarrow> (\<forall>t y m. 0 \<le> m \<longrightarrow>
     f t y m = (case t of Some v \<Rightarrow> Some (begin_clamp v m) | None \<Rightarrow> map_option (\<lambda>v. begin_clamp v m) y))"

lemma begin_clamp_bounds: "0 \<le> m \<Longrightarrow> 0 \<le> begin_clamp v m \<and> begin_clamp v m \<le> m"
proof -
  have "0 \<le> round (max v 0)" using round_mono [of 0 "max v 0"] by simp
  then show "0 \<le> m \<Longrightarrow> ?thesis" by (simp add: begin_clamp_def)
qed

lemma begin_clamp_pixel: "0 \<le> k \<Longrightarrow> of_int k \<le> m \<Longrightarrow> begin_clamp (of_int k) m = of_int k"
  by (simp add: begin_clamp_def max_def)

lemma begin_clamp_tail: "m \<le> kFollowTailTargetY \<Longrightarrow> begin_clamp kFollowTailTargetY m = m"
proof -
  have "round (max kFollowTailTargetY 0) = 1000000000"
    using round_of_int [where ?'a = rat, of 1000000000] by (simp add: kFollowTailTargetY_def)
  then show "m \<le> kFollowTailTargetY \<Longrightarrow> ?thesis" by (simp add: begin_clamp_def kFollowTailTargetY_def)
qed

lemmas scroll_parts = recovered_y_def at_bottom_def edge_target_def pin_target_def empty_log_def

section \<open>The bar's arithmetic\<close>

lemma im_clamp_bounds: "lo \<le> hi \<Longrightarrow> lo \<le> im_clamp v lo hi \<and> im_clamp v lo hi \<le> hi"
  by (simp add: im_clamp_def)

lemma im_clamp_id: "lo \<le> v \<Longrightarrow> v \<le> hi \<Longrightarrow> im_clamp v lo hi = v"
  by (simp add: im_clamp_def)

lemma im_saturate_id: "0 \<le> f \<Longrightarrow> f \<le> 1 \<Longrightarrow> im_saturate f = f"
  by (simp add: im_saturate_def)

lemma im_saturate_ends: "1 \<le> f \<Longrightarrow> im_saturate f = 1" "f \<le> 0 \<Longrightarrow> im_saturate f = 0"
  by (auto simp: im_saturate_def)

text \<open>A usable bar and a position in its range.\<close>

definition bar_ok :: "bar_frame \<Rightarrow> bool" where
  "bar_ok B \<longleftrightarrow> 0 < bf_scroll_max B \<and> 2 < track_h B \<and> 0 < bf_visible B \<and> 0 < bf_row_h B \<and> 0 < bf_grab_min B"

lemma grab_bounds:
  assumes "bar_ok B"
  shows "0 < grab_h B \<and> grab_h B \<le> track_h B"
proof -
  have "0 < min (track_h B) (bf_grab_min B)" "min (track_h B) (bf_grab_min B) \<le> track_h B"
    using assms by (auto simp: bar_ok_def)
  then show ?thesis
    using im_clamp_bounds [of "min (track_h B) (bf_grab_min B)" "track_h B"]
    unfolding grab_h_def Let_def by (meson less_le_trans)
qed

lemma grab_ratio_bounds: "bar_ok B \<Longrightarrow> 0 < grab_ratio B \<and> grab_ratio B \<le> 1"
  using grab_bounds [of B] by (simp add: grab_ratio_def bar_ok_def)

lemma grab_norm_eq: "bar_ok B \<Longrightarrow> grab_norm B s = s / bf_scroll_max B * (1 - grab_ratio B)"
  by (simp add: grab_norm_def grab_top_def grab_ratio_def bar_ok_def field_simps)

lemma write_in_range: "arrow_scrollbar B M y L = (WriteScroll v, L') \<Longrightarrow> 0 \<le> v \<and> v \<le> bf_scroll_max B"
  using im_clamp_bounds [of 0 "bf_scroll_max B"]
  by (auto simp: arrow_scrollbar_def bar_write_def Let_def split: if_splits)

text \<open>A bar nobody touches writes nothing.\<close>

lemma idle_bar_keeps:
  assumes "\<not> bm_pressed M" "\<not> bm_held M" "\<not> bm_activated M" "0 \<le> v" "v \<le> bf_scroll_max B"
  shows "arrow_scrollbar B M (Some v) L = (KeepScroll, L)"
  using assms
  by (simp add: arrow_scrollbar_def bar_write_def Let_def latch_region_def seek_step_def drag_seek_def im_clamp_id)

text \<open>A latched grab: the button went down inside the grab.\<close>

definition grab_latched :: "bar_frame \<Rightarrow> bar_latch \<Rightarrow> bool" where
  "grab_latched B L \<longleftrightarrow> bl_seek L = 0 \<and> \<bar>bl_delta L\<bar> \<le> grab_ratio B / 2"

lemma grab_press_latches:
  assumes "bm_activated M" "track_top B \<le> bm_y M" "bm_y M < track_bottom B"
    and "grab_norm B s \<le> mouse_norm B M" "mouse_norm B M \<le> grab_norm B s + grab_ratio B"
  shows "grab_latched B (latch_region B s M L)"
  using assms by (simp add: latch_region_def grab_latched_def abs_if)

text \<open>Pressing the grab does not move it.\<close>

lemma grab_press_stays:
  assumes "bar_ok B" "grab_ratio B < 1" "0 \<le> s" "s \<le> bf_scroll_max B"
    and "bm_activated M" "track_top B \<le> bm_y M" "bm_y M < track_bottom B"
    and "grab_norm B s \<le> mouse_norm B M" "mouse_norm B M \<le> grab_norm B s + grab_ratio B"
  shows "drag_seek B M (latch_region B s M L) (seek_step B M (latch_region B s M L) s) = s"
proof -
  have m: "0 < bf_scroll_max B" using assms(1) by (simp add: bar_ok_def)
  have L: "bl_seek (latch_region B s M L) = 0"
    "mouse_norm B M - bl_delta (latch_region B s M L) - grab_ratio B / 2 = s / bf_scroll_max B * (1 - grab_ratio B)"
    using assms by (auto simp: latch_region_def grab_norm_eq)
  have "im_saturate (s / bf_scroll_max B) = s / bf_scroll_max B"
    using assms(3,4) m by (intro im_saturate_id) auto
  then show ?thesis
    using L m assms(2) by (simp add: drag_seek_def seek_step_def)
qed

text \<open>A latched grab dragged to an end of the track reaches that end of the log.\<close>

lemma drag_reaches_ends:
  assumes "bar_ok B" "grab_ratio B < 1" "grab_latched B L" "bm_held M"
  shows "track_bottom B \<le> bm_y M \<Longrightarrow> drag_seek B M L s = bf_scroll_max B"
    and "bm_y M \<le> track_top B \<Longrightarrow> drag_seek B M L s = 0"
proof -
  have t: "0 < track_h B" using assms(1) by (simp add: bar_ok_def)
  have d: "bl_delta L \<le> grab_ratio B / 2" "- bl_delta L \<le> grab_ratio B / 2" "bl_seek L = 0"
    using assms(3) by (auto simp: grab_latched_def abs_le_iff)
  {
    assume "track_bottom B \<le> bm_y M"
    then have "1 \<le> (bm_y M - track_top B) / track_h B" using t by (simp add: track_h_def)
    then have "mouse_norm B M = 1" by (simp add: mouse_norm_def im_saturate_def)
    then have "1 \<le> (mouse_norm B M - bl_delta L - grab_ratio B / 2) / (1 - grab_ratio B)"
      using d assms(2) by (simp add: le_divide_eq)
    from im_saturate_ends(1) [OF this] show "drag_seek B M L s = bf_scroll_max B"
      using assms(2,4) d(3) by (simp add: drag_seek_def Let_def)
  }
  assume "bm_y M \<le> track_top B"
  then have "(bm_y M - track_top B) / track_h B \<le> 0" using t by (simp add: divide_le_0_iff)
  then have "mouse_norm B M = 0" by (auto simp: mouse_norm_def im_saturate_def)
  then have "(mouse_norm B M - bl_delta L - grab_ratio B / 2) / (1 - grab_ratio B) \<le> 0"
    using d assms(2) by (simp add: divide_le_0_iff)
  from im_saturate_ends(2) [OF this] show "drag_seek B M L s = 0"
    using assms(2,4) d(3) by (simp add: drag_seek_def Let_def)
qed

section \<open>Following the tail\<close>

text \<open>A frame in which the user does nothing; its content fits under the tail target.\<close>

definition quiet_frame :: "scroll_frame \<Rightarrow> bool" where
  "quiet_frame F \<longleftrightarrow> sf_wheel F = None \<and> \<not> sf_empty F \<and> \<not> sf_button F \<and> sf_edge F = 0
     \<and> \<not> bm_pressed (sf_mouse F) \<and> \<not> bm_held (sf_mouse F) \<and> \<not> bm_activated (sf_mouse F)"

definition scroll_frames ::
  "(rat option \<Rightarrow> rat option \<Rightarrow> rat \<Rightarrow> rat option) \<Rightarrow> scroll_frame list \<Rightarrow> log_scroll \<Rightarrow> log_scroll" where
  "scroll_frames bs Fs s = fold (receive_scroll_frame bs) Fs s"

lemma scroll_max_nonneg: "0 \<le> scroll_max_of F s"
  by (simp add: scroll_max_of_def)

text \<open>Where a frame puts the view when the user does nothing.\<close>

lemma quiet_frame_view:
  assumes b: "begin_documented bs" and F: "quiet_frame F"
    and y: "(case ls_target s of Some v \<Rightarrow> Some v | None \<Rightarrow> ls_y s) = Some v"
  defines "hi \<equiv> scroll_max_of F s" and "w \<equiv> begin_clamp v (scroll_max_of F s)"
  shows "ls_y (receive_scroll_frame bs F s) = Some w \<and> ls_out_y (receive_scroll_frame bs F s) = w
    \<and> ls_out_max (receive_scroll_frame bs F s) = hi \<and> ls_follow (receive_scroll_frame bs F s) = (w \<ge> hi)
    \<and> ls_target (receive_scroll_frame bs F s) = (if w \<ge> hi then Some kFollowTailTargetY else None)"
proof -
  have "bs (ls_target s) (ls_y s) hi = Some w"
    using b y scroll_max_nonneg [of F s]
    by (auto simp: begin_documented_def hi_def w_def split: option.splits)
  moreover have "0 \<le> w" "w \<le> hi"
    using begin_clamp_bounds [of hi v] scroll_max_nonneg [of F s] by (auto simp: w_def hi_def)
  ultimately show ?thesis
    using F idle_bar_keeps [of "sf_mouse F" w "(sf_bar F)\<lparr>bf_scroll_max := hi, bf_row_h := sf_line_h F\<rparr>" "ls_latch s"]
    by (simp add: receive_scroll_frame_def scroll_parts Let_def quiet_frame_def hi_def)
qed

text \<open>The view is bound for the tail: the next frame starts there.\<close>

definition tail_bound :: "log_scroll \<Rightarrow> bool" where
  "tail_bound s \<longleftrightarrow> ls_target s = Some kFollowTailTargetY"

lemma tail_frame:
  assumes "begin_documented bs" "quiet_frame F" "tail_bound s" "scroll_max_of F s \<le> kFollowTailTargetY"
  shows "tail_bound (receive_scroll_frame bs F s)" "ls_follow (receive_scroll_frame bs F s)"
    "ls_out_y (receive_scroll_frame bs F s) = scroll_max_of F s"
    "ls_out_max (receive_scroll_frame bs F s) = scroll_max_of F s"
proof -
  have "begin_clamp kFollowTailTargetY (scroll_max_of F s) = scroll_max_of F s"
    using assms(4) by (rule begin_clamp_tail)
  then show "tail_bound (receive_scroll_frame bs F s)" "ls_follow (receive_scroll_frame bs F s)"
    "ls_out_y (receive_scroll_frame bs F s) = scroll_max_of F s"
    "ls_out_max (receive_scroll_frame bs F s) = scroll_max_of F s"
    using quiet_frame_view [OF assms(1,2), of s kFollowTailTargetY] assms(3)
    by (simp_all add: tail_bound_def)
qed

text \<open>The frames keep a bound when every one of them meets it in the state it starts from.\<close>

fun along :: "(scroll_frame \<Rightarrow> log_scroll \<Rightarrow> bool) \<Rightarrow> (rat option \<Rightarrow> rat option \<Rightarrow> rat \<Rightarrow> rat option)
    \<Rightarrow> scroll_frame list \<Rightarrow> log_scroll \<Rightarrow> bool" where
  "along Q bs [] s \<longleftrightarrow> True"
| "along Q bs (F # Fs) s \<longleftrightarrow> Q F s \<and> along Q bs Fs (receive_scroll_frame bs F s)"

lemma tail_frames:
  assumes "begin_documented bs"
  shows "tail_bound s \<Longrightarrow> \<forall>F\<in>set Fs. quiet_frame F \<Longrightarrow>
    along (\<lambda>F s. scroll_max_of F s \<le> kFollowTailTargetY) bs Fs s \<Longrightarrow>
    along (\<lambda>F s. ls_follow (receive_scroll_frame bs F s)
      \<and> ls_out_y (receive_scroll_frame bs F s) = scroll_max_of F s
      \<and> ls_out_max (receive_scroll_frame bs F s) = scroll_max_of F s) bs Fs s
    \<and> tail_bound (scroll_frames bs Fs s)"
  by (induction Fs arbitrary: s) (simp_all add: scroll_frames_def tail_frame [OF assms])

lemma parked_frames:
  assumes "begin_documented bs"
  shows "ls_target s = None \<Longrightarrow> ls_y s = Some (of_int k) \<Longrightarrow> 0 \<le> k \<Longrightarrow> \<forall>F\<in>set Fs. quiet_frame F \<Longrightarrow>
    along (\<lambda>F s. of_int k < scroll_max_of F s) bs Fs s \<Longrightarrow>
    along (\<lambda>F s. \<not> ls_follow (receive_scroll_frame bs F s) \<and> ls_out_y (receive_scroll_frame bs F s) = of_int k) bs Fs s
    \<and> ls_y (scroll_frames bs Fs s) = Some (of_int k)"
proof (induction Fs arbitrary: s)
  case (Cons F Fs)
  have "begin_clamp (of_int k) (scroll_max_of F s) = of_int k" using Cons.prems by (simp add: begin_clamp_pixel)
  then show ?case
    using quiet_frame_view [OF assms, of F s "of_int k"] Cons by (simp add: scroll_frames_def)
qed (simp add: scroll_frames_def)

text \<open>The bar as the frame draws it, and a frame in which the grab is dragged to the end of the track.\<close>

definition frame_bar :: "scroll_frame \<Rightarrow> log_scroll \<Rightarrow> bar_frame" where
  "frame_bar F s = (sf_bar F)\<lparr>bf_scroll_max := scroll_max_of F s, bf_row_h := sf_line_h F\<rparr>"

definition dragged_to_end :: "scroll_frame \<Rightarrow> log_scroll \<Rightarrow> bool" where
  "dragged_to_end F s \<longleftrightarrow> \<not> sf_empty F \<and> bar_ok (frame_bar F s) \<and> grab_ratio (frame_bar F s) < 1
     \<and> bm_held (sf_mouse F) \<and> \<not> bm_activated (sf_mouse F)
     \<and> grab_latched (frame_bar F s) (ls_latch s) \<and> track_bottom (frame_bar F s) \<le> bm_y (sf_mouse F)"

lemma dragged_to_end_binds:
  assumes "dragged_to_end F s"
  shows "tail_bound (receive_scroll_frame bs F s)"
proof -
  let ?B = "frame_bar F s" and ?M = "sf_mouse F"
  have seek: "bl_seek (ls_latch s) = 0" using assms by (simp add: dragged_to_end_def grab_latched_def)
  have "arrow_scrollbar ?B ?M (Some y) (ls_latch s) = (TailTarget, ls_latch s)" for y
  proof -
    have "drag_seek ?B ?M (ls_latch s) y = bf_scroll_max ?B"
      using assms by (intro drag_reaches_ends(1)) (auto simp: dragged_to_end_def)
    then show ?thesis
      using assms seek by (simp add: arrow_scrollbar_def bar_write_def Let_def latch_region_def seek_step_def im_clamp_def
          dragged_to_end_def bar_ok_def)
  qed
  then show ?thesis
    using assms by (simp add: receive_scroll_frame_def scroll_parts Let_def tail_bound_def dragged_to_end_def frame_bar_def)
qed

text \<open>
  C16 (log_follows_tail). The receive log follows its tail exactly as long as the user leaves it there. When the scroll bar's
  grab is dragged to the end of its track, the view is on the last line in every later frame in which the user does nothing,
  however many lines each frame finds appended: the follow latch is set and the published position is that frame's own
  maximum. A view parked above the tail (on a whole pixel, as the library leaves it), in contrast, is not moved by any such frame: the latch is off and the position stays,
  whatever is appended.
\<close>

theorem log_follows_tail:
  assumes "begin_documented bs" "\<forall>F\<in>set Fs. quiet_frame F"
    and "dragged_to_end G s"
    and "along (\<lambda>F s. scroll_max_of F s \<le> kFollowTailTargetY) bs Fs (receive_scroll_frame bs G s)"
    and "ls_target p = None" "ls_y p = Some (of_int k)" "0 \<le> k" "along (\<lambda>F s. of_int k < scroll_max_of F s) bs Fs p"
  shows "along (\<lambda>F s. ls_follow (receive_scroll_frame bs F s)
      \<and> ls_out_y (receive_scroll_frame bs F s) = scroll_max_of F s
      \<and> ls_out_max (receive_scroll_frame bs F s) = scroll_max_of F s) bs Fs (receive_scroll_frame bs G s)
    \<and> along (\<lambda>F s. \<not> ls_follow (receive_scroll_frame bs F s) \<and> ls_out_y (receive_scroll_frame bs F s) = of_int k) bs Fs p
    \<and> ls_y (scroll_frames bs Fs p) = Some (of_int k)"
  using tail_frames [OF assms(1) dragged_to_end_binds [OF assms(3)] assms(2,4)]
    parked_frames [OF assms(1,5-7,2,8)] by simp

text \<open>The documented start of a frame, a log of twenty rows of ten in a panel of a hundred, and one and then five rows more.\<close>

definition begin_scroll_model :: "rat option \<Rightarrow> rat option \<Rightarrow> rat \<Rightarrow> rat option" where
  "begin_scroll_model t y m =
     (case t of Some v \<Rightarrow> Some (begin_clamp v m) | None \<Rightarrow> map_option (\<lambda>v. begin_clamp v m) y)"

definition sample_frame :: "nat \<Rightarrow> rat \<Rightarrow> bool \<Rightarrow> scroll_frame" where
  "sample_frame n y held = \<lparr>sf_wheel = None, sf_rows = n, sf_empty = False, sf_auto_content = 0, sf_height = 100,
     sf_rows_top = 0, sf_line_h = 10, sf_button = held, sf_edge = 0,
     sf_bar = \<lparr>bf_top = 0, bf_bottom = 100, bf_width = 10, bf_row_h = 10, bf_visible = 100, bf_scroll_max = 0, bf_grab_min = 12\<rparr>,
     sf_mouse = \<lparr>bm_y = y, bm_pressed = False, bm_held = held, bm_activated = False\<rparr>\<rparr>"

definition sample_log :: "rat \<Rightarrow> log_scroll" where
  "sample_log y = \<lparr>ls_y = Some y, ls_target = None, ls_follow = False, ls_latch = \<lparr>bl_delta = 0, bl_seek = 0\<rparr>,
     ls_rows_top = 0, ls_row_h = 10, ls_out_y = y, ls_out_max = 100\<rparr>"

lemmas sample_scroll_simps = sample_frame_def sample_log_def begin_scroll_model_def receive_scroll_frame_def scroll_parts Let_def
  scroll_max_of_def content_height_def begin_clamp_def round_def im_clamp_def im_saturate_def arrow_scrollbar_def bar_write_def latch_region_def seek_step_def
  drag_seek_def track_h_def track_top_def track_bottom_def arrow_h_def kFollowTailTargetY_def

lemma log_follows_tail_witness:
  "ls_out_y (scroll_frames begin_scroll_model [sample_frame 21 0 False, sample_frame 26 0 False]
      (receive_scroll_frame begin_scroll_model (sample_frame 20 95 True) (sample_log 50))) = 160
    \<and> ls_y (scroll_frames begin_scroll_model [sample_frame 21 0 False, sample_frame 26 0 False] (sample_log 30)) = Some 30"
proof -
  let ?Fs = "[sample_frame 21 0 False, sample_frame 26 0 False]"
  let ?s = "receive_scroll_frame begin_scroll_model (sample_frame 20 95 True) (sample_log 50)"
  have h: "begin_documented begin_scroll_model"
    by (auto simp: begin_documented_def begin_scroll_model_def)
  have i: "\<forall>F\<in>set ?Fs. quiet_frame F" by (simp add: quiet_frame_def sample_frame_def)
  have g: "dragged_to_end (sample_frame 20 95 True) (sample_log 50)"
    by (simp add: dragged_to_end_def frame_bar_def bar_ok_def grab_ratio_def grab_h_def grab_latched_def
        sample_scroll_simps)
  have t: "along (\<lambda>F s. scroll_max_of F s \<le> kFollowTailTargetY) begin_scroll_model ?Fs ?s"
    by (simp add: sample_scroll_simps)
  have p: "along (\<lambda>F s. of_int 30 < scroll_max_of F s) begin_scroll_model ?Fs (sample_log 30)"
    by (simp add: sample_scroll_simps)
  have m: "scroll_max_of (sample_frame 26 0 False) (receive_scroll_frame begin_scroll_model (sample_frame 21 0 False) ?s) = 160"
    by (simp add: sample_scroll_simps)
  show ?thesis
    using log_follows_tail [OF h i g t _ _ _ p] m by (simp add: sample_log_def scroll_frames_def)
qed

end
