(* ===== verification/Footer.thy ===== *)
theory Footer
  imports Complex_Main Bridge_Frame
begin

text \<open>
  The status footer (\<open>Footer\<close>, \<open>xcom_imgui_bridge.cpp\<close>) and the width caches it and the header keep: what is written
  where, and how a status message that does not fit is cut. Lengths are rationals, positions are relative to the footer's
  left edge. The width of a text in a font is the GUI library's and the parameter \<open>measure\<close>. Fills and colours are not
  modelled.
\<close>

section \<open>Width caches\<close>

text \<open>
  The header's title cache, keyed by font and size. \<open>None\<close> is the null font; a negative width is not a measured one.
\<close>

record 'f title_cache =
  tc_font :: "'f option"
  tc_size :: rat
  tc_width :: rat

definition title_fresh :: "'f title_cache" where
  "title_fresh = \<lparr>tc_font = None, tc_size = 0, tc_width = -1\<rparr>"

definition title_width :: "('f \<Rightarrow> rat \<Rightarrow> rat) \<Rightarrow> 'f \<times> rat \<Rightarrow> 'f title_cache \<Rightarrow> rat \<times> 'f title_cache" where
  "title_width m k c =
     (let c1 = (if tc_font c \<noteq> Some (fst k) \<or> tc_size c \<noteq> snd k \<or> tc_width c < 0
                then \<lparr>tc_font = Some (fst k), tc_size = snd k, tc_width = m (fst k) (snd k)\<rparr> else c)
      in (tc_width c1, c1))"

text \<open>The cache of two fixed texts, the one for a closed and the one for an open port, keyed by font.\<close>

record 'f slot_cache =
  sc_font :: "'f option"
  sc_widths :: "rat list"

definition slot_fresh :: "'f slot_cache" where
  "slot_fresh = \<lparr>sc_font = None, sc_widths = [-1, -1]\<rparr>"

definition slot_width ::
  "('f \<Rightarrow> bytes \<Rightarrow> rat) \<Rightarrow> (bool \<Rightarrow> bytes) \<Rightarrow> 'f \<times> bool \<Rightarrow> 'f slot_cache \<Rightarrow> rat \<times> 'f slot_cache" where
  "slot_width m text k c =
     (let idx = (if snd k then 1 else 0);
          c1 = (if sc_font c \<noteq> Some (fst k) then \<lparr>sc_font = Some (fst k), sc_widths = [-1, -1]\<rparr> else c);
          c2 = (if sc_widths c1 ! idx < 0 then c1\<lparr>sc_widths := (sc_widths c1)[idx := m (fst k) (text (snd k))]\<rparr> else c1)
      in (sc_widths c2 ! idx, c2))"

text \<open>The cache of the counters, keyed by font and text.\<close>

record 'f counters_cache =
  cc_font :: "'f option"
  cc_text :: bytes
  cc_width :: rat

definition counters_fresh :: "'f counters_cache" where
  "counters_fresh = \<lparr>cc_font = None, cc_text = [], cc_width = -1\<rparr>"

definition counters_width :: "('f \<Rightarrow> bytes \<Rightarrow> rat) \<Rightarrow> 'f \<times> bytes \<Rightarrow> 'f counters_cache \<Rightarrow> rat \<times> 'f counters_cache" where
  "counters_width m k c =
     (let c1 = (if cc_font c \<noteq> Some (fst k) then \<lparr>cc_font = Some (fst k), cc_text = [], cc_width = -1\<rparr> else c);
          c2 = (if cc_width c1 < 0 \<or> cc_text c1 \<noteq> snd k
                then c1\<lparr>cc_width := m (fst k) (snd k), cc_text := snd k\<rparr> else c1)
      in (cc_width c2, c2))"

text \<open>What the callers rely on: whatever was asked before, the answer is the measure of what is asked.\<close>

locale keyed_width =
  fixes get :: "'k \<Rightarrow> 'c \<Rightarrow> rat \<times> 'c" and width_of :: "'k \<Rightarrow> rat" and fresh :: 'c and ok :: "'c \<Rightarrow> bool"
  assumes fresh_ok: "ok fresh"
    and get_width: "ok c \<Longrightarrow> fst (get k c) = width_of k"
    and get_ok: "ok c \<Longrightarrow> ok (snd (get k c))"
begin

fun answers :: "'k list \<Rightarrow> 'c \<Rightarrow> rat list \<times> 'c" where
  "answers [] c = ([], c)"
| "answers (k # ks) c = (case get k c of (w, c1) \<Rightarrow> case answers ks c1 of (ws, c2) \<Rightarrow> (w # ws, c2))"

lemma answers_exact: "ok c \<Longrightarrow> fst (answers ks c) = map width_of ks \<and> ok (snd (answers ks c))"
proof (induction ks arbitrary: c)
  case (Cons k ks)
  obtain w c1 where g: "get k c = (w, c1)" by (meson surj_pair)
  obtain ws c2 where a: "answers ks c1 = (ws, c2)" by (meson surj_pair)
  have "ok c1" "w = width_of k" using get_ok [OF Cons.prems, of k] get_width [OF Cons.prems, of k] g by simp_all
  then show ?case using Cons.IH [of c1] g a by simp
qed simp

lemma answers_fresh: "fst (answers ks fresh) = map width_of ks"
  using answers_exact [OF fresh_ok] by blast

end

definition title_ok :: "('f \<Rightarrow> rat \<Rightarrow> rat) \<Rightarrow> 'f title_cache \<Rightarrow> bool" where
  "title_ok m c \<longleftrightarrow> (\<forall>f. tc_font c = Some f \<longrightarrow> tc_width c \<ge> 0 \<longrightarrow> tc_width c = m f (tc_size c))"

interpretation title: keyed_width "title_width m" "\<lambda>k. m (fst k) (snd k)" title_fresh "title_ok m" for m
proof unfold_locales
  show "title_ok m title_fresh" by (simp add: title_ok_def title_fresh_def)
  fix c :: "'a title_cache" and k :: "'a \<times> rat"
  assume ok: "title_ok m c"
  consider "tc_font c = Some (fst k)" "tc_size c = snd k" "\<not> tc_width c < 0"
    | "tc_font c \<noteq> Some (fst k) \<or> tc_size c \<noteq> snd k \<or> tc_width c < 0" by blast
  then show "fst (title_width m k c) = m (fst k) (snd k)" "title_ok m (snd (title_width m k c))"
    by (cases; use ok in \<open>simp add: title_width_def title_ok_def Let_def\<close>)+
qed

definition slot_ok :: "('f \<Rightarrow> bytes \<Rightarrow> rat) \<Rightarrow> (bool \<Rightarrow> bytes) \<Rightarrow> 'f slot_cache \<Rightarrow> bool" where
  "slot_ok m text c \<longleftrightarrow> length (sc_widths c) = 2 \<and>
     (\<forall>f b. sc_font c = Some f \<longrightarrow> sc_widths c ! (if b then 1 else 0) \<ge> 0 \<longrightarrow>
        sc_widths c ! (if b then 1 else 0) = m f (text b))"

interpretation slots: keyed_width "slot_width m label" "\<lambda>k. m (fst k) (label (snd k))" slot_fresh "slot_ok m label" for m label
proof unfold_locales
  show "slot_ok m label slot_fresh" by (simp add: slot_ok_def slot_fresh_def)
  fix c :: "'a slot_cache" and k :: "'a \<times> bool"
  assume ok: "slot_ok m label c"
  obtain f b where k: "k = (f, b)" by (meson surj_pair)
  obtain v w where l: "sc_widths c = [v, w]" using ok by (auto simp: slot_ok_def length_Suc_conv numeral_2_eq_2)
  have v: "sc_font c = Some f \<Longrightarrow> v \<ge> 0 \<Longrightarrow> v = m f (label False)" "sc_font c = Some f \<Longrightarrow> w \<ge> 0 \<Longrightarrow> w = m f (label True)" for f
    using ok l unfolding slot_ok_def by (force, force)
  show "fst (slot_width m label k c) = m (fst k) (label (snd k))"
    using v [of f] by (cases b; cases "sc_font c = Some f") (simp_all add: slot_width_def Let_def k l)
  show "slot_ok m label (snd (slot_width m label k c))"
    using v [of f] by (cases b; cases "sc_font c = Some f") (simp_all add: slot_width_def slot_ok_def Let_def k l all_bool_eq)
qed

definition counters_ok :: "('f \<Rightarrow> bytes \<Rightarrow> rat) \<Rightarrow> 'f counters_cache \<Rightarrow> bool" where
  "counters_ok m c \<longleftrightarrow> (\<forall>f. cc_font c = Some f \<longrightarrow> cc_width c \<ge> 0 \<longrightarrow> cc_width c = m f (cc_text c))"

interpretation counters: keyed_width "counters_width m" "\<lambda>k. m (fst k) (snd k)" counters_fresh "counters_ok m" for m
proof unfold_locales
  show "counters_ok m counters_fresh" by (simp add: counters_ok_def counters_fresh_def)
  fix c :: "'a counters_cache" and k :: "'a \<times> bytes"
  assume ok: "counters_ok m c"
  consider "cc_font c = Some (fst k)" "cc_text c = snd k" "\<not> cc_width c < 0"
    | "cc_font c = Some (fst k)" "cc_text c \<noteq> snd k \<or> cc_width c < 0"
    | "cc_font c \<noteq> Some (fst k)" by blast
  then show "fst (counters_width m k c) = m (fst k) (snd k)" "counters_ok m (snd (counters_width m k c))"
    by (cases; use ok in \<open>auto simp: counters_width_def counters_ok_def Let_def\<close>)+
qed

section \<open>The footer\<close>

definition kFooterHeight :: rat where "kFooterHeight = 22"

definition bytes_of :: "string \<Rightarrow> bytes" where
  "bytes_of s = map of_char s"

definition show_i32 :: "i32 \<Rightarrow> string" where
  "show_i32 x = (if x < 0 then CHR ''-'' # show_nat (nat (- x)) else show_nat (nat x))"

definition counters_text :: "bool \<Rightarrow> i32 \<Rightarrow> i32 \<Rightarrow> bytes" where
  "counters_text on rx tx =
     bytes_of (if on then ''RX '' @ show_i32 rx @ ''   TX '' @ show_i32 tx else ''RX --   TX --'')"

text \<open>The length a byte announces; any other byte counts as four.\<close>

definition footer_char_len :: "u8 \<Rightarrow> nat" where
  "footer_char_len b =
     (if b AND 0x80 = 0 then 1 else if b AND 0xE0 = 0xC0 then 2 else if b AND 0xF0 = 0xE0 then 3 else 4)"

lemma footer_char_len_pos: "0 < footer_char_len b"
  by (simp add: footer_char_len_def)

text \<open>
  The walk over the characters of a text, which ends with its null: the cut and the width up to it. \<open>None\<close> is a
  character that runs past the null.
\<close>

function elide :: "(bytes \<Rightarrow> rat) \<Rightarrow> rat \<Rightarrow> bytes \<Rightarrow> nat \<Rightarrow> rat \<Rightarrow> (nat \<times> rat) option" where
  "elide w budget t i width =
     (if i > length t then None
      else if (t @ [0]) ! i = 0 then Some (i, width)
      else let n = footer_char_len (t ! i)
           in if i + n > length t + 1 then None
              else let piece = take n (drop i (t @ [0]))
                   in if width + w piece > budget then Some (i, width)
                      else elide w budget t (i + n) (width + w piece))"
  by pat_completeness auto
termination
proof (relation "measure (\<lambda>(w, budget, t, i, width). length t + 1 - i)", goal_cases)
  case (2 w budget t i width n piece)
  then show ?case using footer_char_len_pos [of "t ! i"] by simp
qed simp

declare elide.simps [simp del]

record footer_labels =
  fl_online :: bytes
  fl_offline :: bytes
  fl_ready :: bytes
  fl_open_a_port :: bytes

text \<open>A frame: whether the panel is visible, the current font, the port and its counters, the sizes and the message.\<close>

record 'f footer_frame =
  fo_visible :: bool
  fo_font :: 'f
  fo_connected :: bool
  fo_rx :: i32
  fo_tx :: i32
  fo_width :: rat
  fo_sidebar :: rat
  fo_status :: bytes

record 'f footer_caches =
  fc_counters :: "'f counters_cache"
  fc_hints :: "'f slot_cache"

datatype footer_draw = CountersAt rat bytes | MessageAt rat bytes | EllipsisAt rat | HintAt rat bytes

definition kEllipsis :: bytes where
  "kEllipsis = bytes_of ''...''"

definition content_boundary :: "'f footer_frame \<Rightarrow> rat" where
  "content_boundary F = max 180 (fo_width F - fo_sidebar F)"

definition state_label :: "footer_labels \<Rightarrow> 'f footer_frame \<Rightarrow> bytes" where
  "state_label L F = (if fo_connected F then fl_online L else fl_offline L)"

definition badge_right :: "('f \<Rightarrow> bytes \<Rightarrow> rat) \<Rightarrow> footer_labels \<Rightarrow> 'f footer_frame \<Rightarrow> rat" where
  "badge_right m L F = 10 + m (fo_font F) (state_label L F) + 24"

definition counter_x :: "('f \<Rightarrow> bytes \<Rightarrow> rat) \<Rightarrow> footer_labels \<Rightarrow> 'f footer_frame \<Rightarrow> rat \<Rightarrow> rat" where
  "counter_x m L F w = max (content_boundary F - w - 18) (badge_right m L F + 24)"

definition hint_text :: "footer_labels \<Rightarrow> bool \<Rightarrow> bytes" where
  "hint_text L on = (if on then fl_ready L else fl_open_a_port L)"

definition hint_x :: "'f footer_frame \<Rightarrow> rat \<Rightarrow> rat" where
  "hint_x F w = max (fo_width F - w - 14) (content_boundary F + 8)"

text \<open>The message: from the badge to the edge, whole or cut.\<close>

definition footer_message :: "('f \<Rightarrow> bytes \<Rightarrow> rat) \<Rightarrow> footer_labels \<Rightarrow> 'f footer_frame \<Rightarrow> footer_draw list option" where
  "footer_message m L F =
     (let w = m (fo_font F); text_left = badge_right m L F + 12; text_right = fo_width F - 8; avail = text_right - text_left
      in if \<not> text_right > text_left then Some []
         else if w (fo_status F) \<le> avail then Some [MessageAt text_left (fo_status F)]
         else map_option (\<lambda>(cut, width). [MessageAt text_left (take cut (fo_status F)), EllipsisAt (text_left + width)])
                (elide w (avail - w kEllipsis) (fo_status F) 0 0))"

definition footer ::
  "('f \<Rightarrow> bytes \<Rightarrow> rat) \<Rightarrow> footer_labels \<Rightarrow> 'f footer_frame \<Rightarrow> 'f footer_caches \<Rightarrow> (footer_draw list \<times> 'f footer_caches) option" where
  "footer m L F c =
     (if \<not> fo_visible F then Some ([], c)
      else let counters = counters_text (fo_connected F) (fo_rx F) (fo_tx F);
               (cw, c1) = counters_width m (fo_font F, counters) (fc_counters c);
               (hw, c2) = slot_width m (hint_text L) (fo_font F, fo_connected F) (fc_hints c);
               c' = c\<lparr>fc_counters := c1, fc_hints := c2\<rparr>
           in if fo_status F = []
              then Some ([CountersAt (counter_x m L F cw) counters, HintAt (hint_x F hw) (hint_text L (fo_connected F))], c')
              else map_option (\<lambda>ds. (ds, c')) (footer_message m L F))"

section \<open>Cutting at characters\<close>

definition utf8_char :: "bytes \<Rightarrow> bool" where
  "utf8_char g \<longleftrightarrow> g \<noteq> [] \<and> 0 \<notin> set g \<and> length g = footer_char_len (hd g) \<and> hd g AND 0xC0 \<noteq> 0x80 \<and>
     (\<forall>b\<in>set (tl g). b AND 0xC0 = 0x80)"

lemma utf8_char_split: "utf8_char g \<Longrightarrow> \<exists>b bs. g = b # bs \<and> b \<noteq> 0 \<and> footer_char_len b = length g"
  by (cases g) (auto simp: utf8_char_def)

text \<open>
  What \<open>set_status\<close> leaves of a text of whole characters: whole characters, and perhaps the head of one
  that the limit of 160 bytes cut.
\<close>

definition cut_character :: "bytes \<Rightarrow> bool" where
  "cut_character tail \<longleftrightarrow> tail = [] \<or> (\<exists>g k. utf8_char g \<and> 0 < k \<and> k < length g \<and> tail = take k g)"

lemma cut_status:
  assumes "\<forall>g\<in>set gs. utf8_char g"
  shows "\<exists>n tail. n \<le> length gs \<and> take k (concat gs) = concat (take n gs) @ tail \<and> cut_character tail"
  using assms
proof (induction gs arbitrary: k)
  case (Cons g gs)
  show ?case
  proof (cases "length g \<le> k")
    case True
    from Cons.IH [of "k - length g"] Cons.prems obtain n tail where
      "n \<le> length gs" "take (k - length g) (concat gs) = concat (take n gs) @ tail" "cut_character tail" by auto
    then show ?thesis using True by (intro exI [of _ "Suc n"] exI [of _ tail]) simp
  next
    case False
    have "utf8_char g" using Cons.prems by simp
    then have "cut_character (take k g)"
      using False unfolding cut_character_def by (cases "k = 0") (simp, blast intro: not_less [THEN iffD1] neq0_conv [THEN iffD1])
    then show ?thesis using False by (intro exI [of _ 0] exI [of _ "take k g"]) simp
  qed
qed (simp add: cut_character_def)

lemma cut_character_head:
  assumes "cut_character tail" "tail \<noteq> []"
  shows "hd tail \<noteq> 0" "length tail < footer_char_len (hd tail)"
proof -
  obtain g k where g: "utf8_char g" "0 < k" "k < length g" "tail = take k g"
    using assms unfolding cut_character_def by auto
  then have h: "hd tail = hd g" "hd g \<in> set g" "0 \<notin> set g" by (simp_all add: utf8_char_def hd_take)
  then show "hd tail \<noteq> 0" by metis
  show "length tail < footer_char_len (hd tail)" using g h(1) by (simp add: utf8_char_def)
qed

text \<open>
  Whether the walk, having taken every whole character, leaves the text at a cut one: it asks for the
  width of bytes behind the null, or takes the null itself for part of the character and goes on behind it.
\<close>

definition leaves_text :: "(bytes \<Rightarrow> rat) \<Rightarrow> rat \<Rightarrow> bytes list \<Rightarrow> bytes \<Rightarrow> bool" where
  "leaves_text w budget cs tail \<longleftrightarrow> tail \<noteq> [] \<and> (cs = [] \<or> sum_list (map w cs) \<le> budget) \<and>
     (length tail + 1 < footer_char_len (hd tail) \<or> sum_list (map w cs) + w (tail @ [0]) \<le> budget)"

lemma elide_tail:
  assumes "cut_character tail"
  shows "elide w budget (pre @ tail) (length pre) width =
    (if tail \<noteq> [] \<and> (length tail + 1 < footer_char_len (hd tail) \<or> width + w (tail @ [0]) \<le> budget) then None
     else Some (length pre, width))"
proof (cases "tail = []")
  case False
  note h = cut_character_head [OF assms False]
  have at: "((pre @ tail) @ [0]) ! length pre = hd tail" "(pre @ tail) ! length pre = hd tail"
    using False by (simp_all add: nth_append hd_conv_nth)
  have over: "elide w budget (pre @ tail) (Suc (length (pre @ tail))) v = None" for v
    by (simp add: elide.simps)
  show ?thesis
  proof (cases "length tail + 1 < footer_char_len (hd tail)")
    case True
    then show ?thesis using False h at by (subst elide.simps) (simp add: Let_def)
  next
    case short: False
    then have n: "footer_char_len (hd tail) = Suc (length tail)" using h(2) by simp
    have "elide w budget (pre @ tail) (length pre) width =
        (if width + w (tail @ [0]) > budget then Some (length pre, width)
         else elide w budget (pre @ tail) (Suc (length (pre @ tail))) (width + w (tail @ [0])))"
      using False h(1) at by (subst elide.simps) (simp add: Let_def n)
    then show ?thesis using False n over by (simp add: not_less)
  qed
qed (simp add: elide.simps)

text \<open>Whole characters are walked one by one; the walk stops where the next one does not fit.\<close>

lemma elide_chars:
  assumes "\<forall>g\<in>set cs. utf8_char g"
  shows "(\<exists>n < length cs.
      elide w budget (pre @ concat cs @ tail) (length pre) width =
        Some (length pre + length (concat (take n cs)), width + sum_list (map w (take n cs))) \<and>
      (n = 0 \<or> width + sum_list (map w (take n cs)) \<le> budget) \<and>
      budget < width + sum_list (map w (take (Suc n) cs))) \<or>
    ((cs = [] \<or> width + sum_list (map w cs) \<le> budget) \<and>
     elide w budget (pre @ concat cs @ tail) (length pre) width =
       elide w budget ((pre @ concat cs) @ tail) (length (pre @ concat cs)) (width + sum_list (map w cs)))"
  using assms
proof (induction cs arbitrary: pre width)
  case (Cons g cs)
  obtain b bs where g: "g = b # bs" "b \<noteq> 0" "footer_char_len b = length g"
    using Cons.prems utf8_char_split [of g] by auto
  let ?t = "pre @ concat (g # cs) @ tail"
  have piece: "take (length g) (drop (length pre) (?t @ [0])) = g" by simp
  have at: "(?t @ [0]) ! length pre = b" "?t ! length pre = b" using g(1) by (simp_all add: nth_append)
  have step: "elide w budget ?t (length pre) width =
    (if width + w g > budget then Some (length pre, width) else elide w budget ?t (length (pre @ g)) (width + w g))"
    using at g(2,3) piece by (subst elide.simps) (simp add: Let_def)
  show ?case
  proof (cases "width + w g > budget")
    case True
    then show ?thesis unfolding step by (intro disjI1 exI [of _ 0]) simp
  next
    case False
    have t: "?t = (pre @ g) @ concat cs @ tail" by simp
    have "\<forall>a\<in>set cs. utf8_char a" using Cons.prems by simp
    from Cons.IH [OF this, of "pre @ g" "width + w g"] show ?thesis
    proof (elim disjE)
      assume "\<exists>n<length cs. elide w budget ((pre @ g) @ concat cs @ tail) (length (pre @ g)) (width + w g) =
          Some (length (pre @ g) + length (concat (take n cs)), width + w g + sum_list (map w (take n cs))) \<and>
        (n = 0 \<or> width + w g + sum_list (map w (take n cs)) \<le> budget) \<and>
        budget < width + w g + sum_list (map w (take (Suc n) cs))"
      then obtain n where "n < length cs" "elide w budget ?t (length (pre @ g)) (width + w g) =
          Some (length (pre @ g) + length (concat (take n cs)), width + w g + sum_list (map w (take n cs)))"
        "n = 0 \<or> width + w g + sum_list (map w (take n cs)) \<le> budget"
        "budget < width + w g + sum_list (map w (take (Suc n) cs))" unfolding t by blast
      then show ?thesis using False unfolding step by (intro disjI1 exI [of _ "Suc n"]) (auto simp: add.assoc)
    next
      assume "(cs = [] \<or> width + w g + sum_list (map w cs) \<le> budget) \<and>
        elide w budget ((pre @ g) @ concat cs @ tail) (length (pre @ g)) (width + w g) =
        elide w budget (((pre @ g) @ concat cs) @ tail) (length ((pre @ g) @ concat cs)) (width + w g + sum_list (map w cs))"
      moreover have "elide w budget ?t (length pre) width = elide w budget ?t (length (pre @ g)) (width + w g)"
        using step False by (simp only: if_False not_less)
      ultimately show ?thesis using False by (intro disjI2) (auto simp: add.assoc)
    qed
  qed
qed simp

text \<open>
  The library's documented measure: nothing has no width, no width is negative, and a text is no wider than its parts (widths
  are rounded up to a pixel).
\<close>

definition measure_documented :: "('f \<Rightarrow> bytes \<Rightarrow> rat) \<Rightarrow> bool" where
  "measure_documented m \<longleftrightarrow> (\<forall>f. m f [] = 0 \<and> (\<forall>t. 0 \<le> m f t) \<and>
     (\<forall>xs ys. (\<forall>g\<in>set (xs @ ys). utf8_char g) \<longrightarrow> m f (concat (xs @ ys)) \<le> m f (concat xs) + m f (concat ys)))"

lemma measure_parts:
  assumes "measure_documented m" "\<forall>g\<in>set cs. utf8_char g"
  shows "m f (concat cs) \<le> sum_list (map (m f) cs)"
  using assms(2)
proof (induction cs)
  case Nil
  then show ?case using assms(1) by (simp add: measure_documented_def)
next
  case (Cons g cs)
  have "m f (concat ([g] @ cs)) \<le> m f (concat [g]) + m f (concat cs)"
    using assms(1) Cons.prems unfolding measure_documented_def by (metis append_Cons append_Nil)
  then show ?case using Cons by simp
qed

section \<open>The counters\<close>

definition i32_range :: "int \<Rightarrow> bool" where
  "i32_range x \<longleftrightarrow> - (2 ^ 31) \<le> x \<and> x < 2 ^ 31"

lemma show_i32_length: "i32_range x \<Longrightarrow> length (show_i32 x) \<le> 11"
proof (cases "x < 0")
  case True
  moreover assume "i32_range x"
  ultimately have "nat (- x) < 10 ^ Suc 9" by (simp add: i32_range_def)
  from show_nat_length [OF this] show ?thesis using True by (simp add: show_i32_def)
next
  case False
  moreover assume "i32_range x"
  ultimately have "nat x < 10 ^ Suc 9" by (simp add: i32_range_def)
  from show_nat_length [OF this] show ?thesis using False by (simp add: show_i32_def)
qed

text \<open>The 48 bytes of the buffer hold every pair of counters with the null.\<close>

lemma counters_text_fits: "i32_range rx \<Longrightarrow> i32_range tx \<Longrightarrow> length (counters_text c rx tx) < 48"
  using show_i32_length [of rx] show_i32_length [of tx] by (simp add: counters_text_def bytes_of_def)

definition footer_caches_ok :: "('f \<Rightarrow> bytes \<Rightarrow> rat) \<Rightarrow> footer_labels \<Rightarrow> 'f footer_caches \<Rightarrow> bool" where
  "footer_caches_ok m L c \<longleftrightarrow> counters_ok m (fc_counters c) \<and> slot_ok m (hint_text L) (fc_hints c)"

text \<open>A frame with its caches replaced by fresh measures.\<close>

lemma footer_measured:
  assumes "footer_caches_ok m L c" "fo_visible F"
  shows "\<exists>c'. footer_caches_ok m L c' \<and> footer m L F c =
    (if fo_status F = []
     then Some ([CountersAt (counter_x m L F (m (fo_font F) (counters_text (fo_connected F) (fo_rx F) (fo_tx F))))
                   (counters_text (fo_connected F) (fo_rx F) (fo_tx F)),
                 HintAt (hint_x F (m (fo_font F) (hint_text L (fo_connected F)))) (hint_text L (fo_connected F))], c')
     else map_option (\<lambda>ds. (ds, c')) (footer_message m L F))"
proof -
  let ?t = "counters_text (fo_connected F) (fo_rx F) (fo_tx F)"
  obtain cw c1 where a: "counters_width m (fo_font F, ?t) (fc_counters c) = (cw, c1)" by (meson surj_pair)
  obtain hw c2 where b: "slot_width m (hint_text L) (fo_font F, fo_connected F) (fc_hints c) = (hw, c2)" by (meson surj_pair)
  have "cw = m (fo_font F) ?t" "counters_ok m c1"
    using counters.get_width [of m "fc_counters c" "(fo_font F, ?t)"] counters.get_ok [of m "fc_counters c" "(fo_font F, ?t)"]
      assms(1) a by (simp_all add: footer_caches_ok_def)
  moreover have "hw = m (fo_font F) (hint_text L (fo_connected F))" "slot_ok m (hint_text L) c2"
    using slots.get_width [of m "hint_text L" "fc_hints c" "(fo_font F, fo_connected F)"]
      slots.get_ok [of m "hint_text L" "fc_hints c" "(fo_font F, fo_connected F)"] assms(1) b
    by (simp_all add: footer_caches_ok_def)
  ultimately show ?thesis
    using assms(2) a b
    by (intro exI [of _ "c\<lparr>fc_counters := c1, fc_hints := c2\<rparr>"]) (simp add: footer_def Let_def footer_caches_ok_def)
qed

section \<open>What the footer shows\<close>

text \<open>
  A message \<open>concat cs @ tail\<close> between \<open>l\<close> and \<open>r\<close>: nothing without room, the whole message when it fits, and
  otherwise its longest head of whole characters that leaves room for the ellipsis behind it.
\<close>

definition message_fits :: "(bytes \<Rightarrow> rat) \<Rightarrow> rat \<Rightarrow> rat \<Rightarrow> bytes list \<Rightarrow> bytes \<Rightarrow> footer_draw list \<Rightarrow> bool" where
  "message_fits w l r cs tail ds \<longleftrightarrow>
     (if \<not> l < r then ds = []
      else if w (concat cs @ tail) \<le> r - l then ds = [MessageAt l (concat cs @ tail)]
      else \<exists>n \<le> length cs. ds = [MessageAt l (concat (take n cs)), EllipsisAt (l + sum_list (map w (take n cs)))] \<and>
        (n = length cs \<longrightarrow> tail \<noteq> []) \<and>
        w (concat (take n cs)) \<le> sum_list (map w (take n cs)) \<and>
        (n = 0 \<or> l + sum_list (map w (take n cs)) + w kEllipsis \<le> r) \<and>
        r < l + sum_list (map w (if n < length cs then take (Suc n) cs else cs @ [tail @ [0]])) + w kEllipsis)"

lemma message_fits_cut:
  "message_fits w l r cs [] ds \<Longrightarrow> l < r \<Longrightarrow> \<not> w (concat cs) \<le> r - l \<Longrightarrow>
   \<exists>n < length cs. ds = [MessageAt l (concat (take n cs)), EllipsisAt (l + sum_list (map w (take n cs)))] \<and>
     (n = 0 \<or> l + sum_list (map w (take n cs)) + w kEllipsis \<le> r) \<and>
     r < l + sum_list (map w (take (Suc n) cs)) + w kEllipsis"
  unfolding message_fits_def by (auto simp: le_less)

lemma take_whole: "take (length (concat (take n cs))) (concat cs @ tail) = concat (take n cs)"
  by (metis append.assoc append_eq_conv_conj append_take_drop_id concat_append)

lemma sum_prefix:
  fixes w :: "bytes \<Rightarrow> rat"
  assumes "\<forall>t. 0 \<le> w t"
  shows "sum_list (map w (take n cs)) \<le> sum_list (map w cs)"
proof -
  have "0 \<le> sum_list (map w (drop n cs))" using assms by (intro sum_list_nonneg) auto
  moreover have "sum_list (map w cs) = sum_list (map w (take n cs)) + sum_list (map w (drop n cs))"
    by (metis append_take_drop_id map_append sum_list_append)
  ultimately show ?thesis by simp
qed

lemma footer_message_spec:
  assumes m: "measure_documented m" and st: "fo_status F = concat cs @ tail" "\<forall>g\<in>set cs. utf8_char g" "cut_character tail"
    and ne: "cs \<noteq> [] \<or> tail \<noteq> []"
    and l: "l = badge_right m L F + 12" and r: "r = fo_width F - 8" and w: "w = m (fo_font F)"
  shows "if l < r \<and> \<not> w (fo_status F) \<le> r - l \<and> leaves_text w (r - l - w kEllipsis) cs tail
    then footer_message m L F = None
    else \<exists>ds. footer_message m L F = Some ds \<and> message_fits w l r cs tail ds"
proof (cases "l < r \<and> \<not> w (fo_status F) \<le> r - l")
  case False
  then show ?thesis
    using st(1) by (auto simp: footer_message_def message_fits_def Let_def l [symmetric] r [symmetric] w [symmetric])
next
  case True
  let ?b = "r - l - w kEllipsis"
  have nn: "\<forall>t. 0 \<le> w t" using m w by (simp add: measure_documented_def)
  have msg: "footer_message m L F = map_option (\<lambda>(cut, width). [MessageAt l (take cut (fo_status F)), EllipsisAt (l + width)])
      (elide w ?b (concat cs @ tail) 0 0)"
    using True st(1) by (simp add: footer_message_def Let_def l w r)
  have parts: "w (concat (take n cs)) \<le> sum_list (map w (take n cs))" for n
    using measure_parts [OF m] st(2) unfolding w by (meson in_set_takeD)
  from elide_chars [OF st(2), of w ?b "[]" tail 0] show ?thesis
  proof (elim disjE)
    assume "\<exists>n<length cs. elide w ?b ([] @ concat cs @ tail) (length []) 0 =
        Some (length [] + length (concat (take n cs)), 0 + sum_list (map w (take n cs))) \<and>
      (n = 0 \<or> 0 + sum_list (map w (take n cs)) \<le> ?b) \<and> ?b < 0 + sum_list (map w (take (Suc n) cs))"
    then obtain n where n: "n < length cs"
        "elide w ?b (concat cs @ tail) 0 0 = Some (length (concat (take n cs)), sum_list (map w (take n cs)))"
        "n = 0 \<or> sum_list (map w (take n cs)) \<le> ?b" "?b < sum_list (map w (take (Suc n) cs))" by auto
    have "\<not> leaves_text w ?b cs tail"
      using sum_prefix [OF nn, of "Suc n" cs] n(1,4) by (auto simp: leaves_text_def)
    moreover have "message_fits w l r cs tail [MessageAt l (concat (take n cs)), EllipsisAt (l + sum_list (map w (take n cs)))]"
      using True n parts [of n] st(1) unfolding message_fits_def by (auto intro!: exI [of _ n])
    ultimately show ?thesis using True msg n(2) st(1) take_whole [of n cs tail] by simp
  next
    assume "(cs = [] \<or> 0 + sum_list (map w cs) \<le> ?b) \<and>
      elide w ?b ([] @ concat cs @ tail) (length []) 0 =
        elide w ?b (([] @ concat cs) @ tail) (length ([] @ concat cs)) (0 + sum_list (map w cs))"
    then have all: "cs = [] \<or> sum_list (map w cs) \<le> ?b"
      and e: "elide w ?b (concat cs @ tail) 0 0 = (if leaves_text w ?b cs tail then None else Some (length (concat cs), sum_list (map w cs)))"
      using elide_tail [OF st(3), of w ?b "concat cs" "sum_list (map w cs)"] by (auto simp: leaves_text_def)
    have "tail \<noteq> []"
    proof
      assume t: "tail = []"
      then have "sum_list (map w cs) \<le> ?b" using all ne by blast
      moreover have "w (concat cs) \<le> sum_list (map w cs)" using parts [of "length cs"] by simp
      ultimately show False using True st(1) t nn [rule_format, of kEllipsis] by simp
    qed
    have "message_fits w l r cs tail [MessageAt l (concat cs), EllipsisAt (l + sum_list (map w cs))]"
      if "\<not> leaves_text w ?b cs tail"
      using that True all \<open>tail \<noteq> []\<close> parts [of "length cs"] st(1) unfolding message_fits_def leaves_text_def
      by (auto intro!: exI [of _ "length cs"])
    then show ?thesis using True msg e st(1) by simp
  qed
qed

text \<open>
  C19 (footer_message_fits). The footer, for any status that \<open>set_status\<close> can leave of a text of whole
  characters: whole characters, and perhaps the head of one more that the limit of 160 bytes cut. Whatever was
  drawn before, without a message the counters start behind the badge, fit their buffer and, when there is room
  beside the badge, end before the hint. With a message neither is drawn and the message stands between the badge
  and the right edge: whole if it fits, and else cut between two characters, as late as the ellipsis behind it
  allows. The one exception is exact: a message too wide for its room, all of whose whole characters fit before
  the ellipsis and which ends in a cut character, makes the walk read behind the null (when two or more bytes of
  that character are missing, or when its bytes and the null fit as well).
\<close>

theorem footer_message_fits:
  assumes "measure_documented m" "footer_caches_ok m L c" "fo_visible F" "i32_range (fo_rx F)" "i32_range (fo_tx F)"
    and "fo_status F = concat cs @ tail" "\<forall>g\<in>set cs. utf8_char g" "cut_character tail"
    and "w = m (fo_font F)" "l = badge_right m L F + 12" "r = fo_width F - 8"
  shows "if l < r \<and> \<not> w (fo_status F) \<le> r - l \<and> leaves_text w (r - l - w kEllipsis) cs tail
    then footer m L F c = None
    else \<exists>ds c'. footer m L F c = Some (ds, c') \<and> footer_caches_ok m L c' \<and>
      (if fo_status F = []
       then \<exists>x t y h. ds = [CountersAt x t, HintAt y h] \<and> length t < 48 \<and> badge_right m L F + 24 \<le> x \<and>
         (badge_right m L F + 24 \<le> content_boundary F - w t - 18 \<longrightarrow> x + w t < y)
       else message_fits w l r cs tail ds)"
proof (cases "fo_status F = []")
  case True
  then have "\<not> leaves_text w (r - l - w kEllipsis) cs tail" using assms(6) by (simp add: leaves_text_def)
  then show ?thesis
    using footer_measured [OF assms(2,3)] True counters_text_fits [OF assms(4,5), of "fo_connected F"] assms(9)
    by (auto simp: counter_x_def hint_x_def max_def)
next
  case False
  then have "cs \<noteq> [] \<or> tail \<noteq> []" using assms(6) by auto
  from footer_message_spec [OF assms(1,6-8) this assms(10,11,9)] footer_measured [OF assms(2,3)] False
  show ?thesis by (auto split: if_splits)
qed

text \<open>A font of eight pixels a character, and a message of three characters in a narrow window.\<close>

definition fixed_measure :: "unit \<Rightarrow> bytes \<Rightarrow> rat" where
  "fixed_measure f t = of_nat (8 * length (filter (\<lambda>b. b AND 0xC0 \<noteq> 0x80) t))"

definition sample_footer :: "unit footer_frame" where
  "sample_footer = \<lparr>fo_visible = True, fo_font = (), fo_connected = False, fo_rx = 0, fo_tx = 0, fo_width = 90,
     fo_sidebar = 0, fo_status = [0xE7, 0xAB, 0xAF, 0x41, 0xE5, 0x8F, 0xA3, 0x42, 0x43]\<rparr>"

lemma footer_message_fits_witness:
  "\<exists>c'. footer fixed_measure \<lparr>fl_online = [], fl_offline = [], fl_ready = [], fl_open_a_port = []\<rparr> sample_footer
      \<lparr>fc_counters = counters_fresh, fc_hints = slot_fresh\<rparr> = Some ([MessageAt 46 [0xE7, 0xAB, 0xAF], EllipsisAt 54], c')"
proof -
  let ?L = "\<lparr>fl_online = [], fl_offline = [], fl_ready = [], fl_open_a_port = []\<rparr>"
  let ?c = "\<lparr>fc_counters = counters_fresh, fc_hints = slot_fresh\<rparr> :: unit footer_caches"
  let ?cs = "[[0xE7, 0xAB, 0xAF], [0x41], [0xE5, 0x8F, 0xA3], [0x42], [0x43]] :: bytes list"
  have m: "measure_documented fixed_measure" by (simp add: measure_documented_def fixed_measure_def)
  have c: "footer_caches_ok fixed_measure ?L ?c"
    using counters.fresh_ok [of fixed_measure] slots.fresh_ok [of fixed_measure "hint_text ?L"] by (simp add: footer_caches_ok_def)
  have f: "fo_visible sample_footer" "i32_range (fo_rx sample_footer)" "i32_range (fo_tx sample_footer)"
    "fo_status sample_footer = concat ?cs" by (simp_all add: sample_footer_def i32_range_def)
  have u: "\<forall>g\<in>set ?cs. utf8_char g" by (simp add: utf8_char_def footer_char_len_def)
  have b: "badge_right fixed_measure ?L sample_footer = 34" by (simp add: badge_right_def fixed_measure_def state_label_def sample_footer_def)
  have f': "fo_status sample_footer = concat ?cs @ []" "fo_font sample_footer = ()" "fo_width sample_footer = 90"
    "fo_status sample_footer \<noteq> []" by (simp_all add: sample_footer_def)
  have t: "cut_character []" "\<not> leaves_text v b ?cs []" for v b by (simp_all add: cut_character_def leaves_text_def)
  obtain ds c' where ds: "footer fixed_measure ?L sample_footer ?c = Some (ds, c')"
    "message_fits (fixed_measure ()) 46 82 ?cs [] ds"
    using footer_message_fits [OF m c f(1-3) f'(1) u t(1) refl refl refl] b t(2) f'(2-4) by auto
  have e: "fixed_measure () kEllipsis = 24" by (simp add: fixed_measure_def kEllipsis_def bytes_of_def)
  have "\<not> fixed_measure () (concat ?cs) \<le> 82 - 46" by (simp add: fixed_measure_def)
  then obtain n where n: "n < length ?cs"
    "ds = [MessageAt 46 (concat (take n ?cs)), EllipsisAt (46 + sum_list (map (fixed_measure ()) (take n ?cs)))]"
    "n = 0 \<or> 46 + sum_list (map (fixed_measure ()) (take n ?cs)) + 24 \<le> 82"
    "82 < 46 + sum_list (map (fixed_measure ()) (take (Suc n) ?cs)) + 24"
    using message_fits_cut [OF ds(2)] unfolding e by force
  have "n \<in> {0, 1, 2, 3, 4}" using n(1) by auto
  then have "n = 1" using n(3,4) by (auto simp: fixed_measure_def)
  then show ?thesis using ds(1) n(2) by (simp add: fixed_measure_def)
qed

text \<open>The 160 bytes kept of a status are cut inside a character: 54 characters of three bytes end in a lone lead byte.\<close>

lemma status_cut_inside_character:
  "length (take kStatusLimit (concat (replicate 54 [0xE7, 0xAB, 0xAF :: u8]))) = 160 \<and>
   last (take kStatusLimit (concat (replicate 54 [0xE7, 0xAB, 0xAF :: u8]))) = 0xE7"
  by (simp add: numeral_eq_Suc)

end
