(* ===== verification/Widget_Style.thy ===== *)
theory Widget_Style
  imports Layout_Config
begin

text \<open>
  The look of the window as far as it is data, and the stacks its drawing code uses (\<open>xcom_imgui_bridge.cpp\<close>): colours
  from 24 bits, the table of style colours and \<open>apply_style\<close>, and the calls by which the widgets, the header, the
  receive options and the receive log push and pop colours, style variables, fonts and clip rectangles and open and close
  panels. The GUI library rejects a pop of an empty stack and a scope closed while something pushed inside it is still there.
  Shapes and texts are not modelled.
\<close>

section \<open>Colours\<close>

record rgba =
  cr_r :: rat
  cr_g :: rat
  cr_b :: rat
  cr_a :: rat

definition rgb :: "u32 \<Rightarrow> rat \<Rightarrow> rgba" where
  "rgb v alpha =
     \<lparr>cr_r = of_nat (unat (drop_bit 16 v AND 0xFF)) / 255, cr_g = of_nat (unat (drop_bit 8 v AND 0xFF)) / 255,
      cr_b = of_nat (unat (v AND 0xFF)) / 255, cr_a = alpha\<rparr>"

datatype col =
    ColText | ColTextDisabled | ColWindowBg | ColChildBg | ColPopupBg | ColBorder | ColBorderShadow | ColFrameBg
  | ColFrameBgHovered | ColFrameBgActive | ColSeparator | ColButton | ColButtonHovered | ColButtonActive | ColHeader
  | ColHeaderHovered | ColHeaderActive | ColCheckMark | ColSliderGrab | ColSliderGrabActive | ColTab | ColTabHovered
  | ColTabActive | ColTabUnfocused | ColTabUnfocusedActive | ColTabSelectedOverline | ColTabDimmedSelectedOverline
  | ColScrollbarBg | ColScrollbarGrab | ColScrollbarGrabHovered | ColScrollbarGrabActive | ColTextSelectedBg
  | ColOther nat

definition kStyleColors :: "(col \<times> u32 \<times> rat) list" where
  "kStyleColors =
     [(ColWindowBg, 0xFBFCFD, 1), (ColChildBg, 0xFBFCFD, 1), (ColPopupBg, 0xFFFFFF, 1), (ColBorder, 0x8A8A8A, 1),
      (ColBorderShadow, 0xFFFFFF, 0), (ColSeparator, 0xDEDEDE, 1), (ColFrameBg, 0xFFFFFF, 1),
      (ColFrameBgHovered, 0xE8F3F8, 1), (ColFrameBgActive, 0xD6EAF3, 1), (ColButton, 0xF8F8F8, 1),
      (ColButtonHovered, 0xE3F0FB, 1), (ColButtonActive, 0xD4E7F7, 1), (ColHeader, 0xE3F0FB, 1),
      (ColHeaderHovered, 0xD4E7F7, 1), (ColHeaderActive, 0xD4E7F7, 1), (ColCheckMark, 0x005A98, 1),
      (ColSliderGrab, 0x005A98, 1), (ColSliderGrabActive, 0x004270, 1), (ColTab, 0xFBFCFD, 1),
      (ColTabHovered, 0xE3F0FB, 1), (ColTabActive, 0xC9E2F5, 1), (ColTabUnfocused, 0xFBFCFD, 1),
      (ColTabUnfocusedActive, 0xC9E2F5, 1), (ColTabSelectedOverline, 0x005A98, 1),
      (ColTabDimmedSelectedOverline, 0x005A98, 1), (ColScrollbarBg, 0xE8EAEC, 1), (ColScrollbarGrab, 0xC4C8CC, 1),
      (ColScrollbarGrabHovered, 0xAEB4BA, 1), (ColScrollbarGrabActive, 0x005A98, 1)]"

record gui_style =
  st_window_rounding :: rat
  st_child_rounding :: rat
  st_frame_rounding :: rat
  st_popup_rounding :: rat
  st_tab_rounding :: rat
  st_scrollbar_rounding :: rat
  st_window_border :: rat
  st_frame_border :: rat
  st_child_border :: rat
  st_window_padding :: "rat \<times> rat"
  st_frame_padding :: "rat \<times> rat"
  st_item_spacing :: "rat \<times> rat"
  st_item_inner_spacing :: "rat \<times> rat"
  st_scrollbar_size :: rat
  st_colors :: "col \<Rightarrow> rgba"

text \<open>The knobs \<open>item_spacing\<close>, \<open>frame_padding_y\<close> and \<open>section_gap\<close> have the positions 7, 8 and 9.\<close>

definition apply_style :: "layout_config \<Rightarrow> gui_style \<Rightarrow> gui_style" where
  "apply_style c s =
     (let table = fold (\<lambda>(slot, v, alpha) cs. cs(slot := rgb v alpha)) kStyleColors (st_colors s)
      in s\<lparr>st_window_rounding := 0, st_child_rounding := 0, st_frame_rounding := 5 / 2, st_popup_rounding := 6,
           st_tab_rounding := 0, st_scrollbar_rounding := 4, st_window_border := 0, st_frame_border := 1, st_child_border := 1,
           st_window_padding := (0, 0), st_frame_padding := (8, lc_knobs c ! 8),
           st_item_spacing := (lc_knobs c ! 7, lc_knobs c ! 9), st_item_inner_spacing := (6, 4), st_scrollbar_size := 12,
           st_colors := table(ColText := rgb (lc_text_body c) 1, ColTextDisabled := rgb (lc_text_muted c) 1,
             ColTextSelectedBg := rgb (lc_selection c) (35 / 100))\<rparr>)"

section \<open>The stacks of the GUI library\<close>

datatype draw_scope = PanelScope | TableScope | PopupScope | DisabledScope | ItemFlagScope

datatype gui_op =
    PushColor col | PopColor nat
  | PushVar | PopVar nat
  | PushFont nat | PopFont
  | PushClip | PopClip
  | OpenScope draw_scope | CloseScope draw_scope

record gui_stacks =
  gs_colors :: "col list"
  gs_vars :: nat
  gs_fonts :: "nat list"
  gs_clips :: nat
  gs_open :: "(draw_scope \<times> nat \<times> nat \<times> nat) list"

definition gs_depths :: "gui_stacks \<Rightarrow> nat \<times> nat \<times> nat" where
  "gs_depths s = (length (gs_colors s), gs_vars s, length (gs_fonts s))"

fun run_op :: "gui_op \<Rightarrow> gui_stacks \<Rightarrow> gui_stacks option" where
  "run_op (PushColor c) s = Some (s\<lparr>gs_colors := c # gs_colors s\<rparr>)"
| "run_op (PopColor n) s = (if n \<le> length (gs_colors s) then Some (s\<lparr>gs_colors := drop n (gs_colors s)\<rparr>) else None)"
| "run_op PushVar s = Some (s\<lparr>gs_vars := gs_vars s + 1\<rparr>)"
| "run_op (PopVar n) s = (if n \<le> gs_vars s then Some (s\<lparr>gs_vars := gs_vars s - n\<rparr>) else None)"
| "run_op (PushFont f) s = Some (s\<lparr>gs_fonts := f # gs_fonts s\<rparr>)"
| "run_op PopFont s = (if gs_fonts s = [] then None else Some (s\<lparr>gs_fonts := tl (gs_fonts s)\<rparr>))"
| "run_op PushClip s = Some (s\<lparr>gs_clips := gs_clips s + 1\<rparr>)"
| "run_op PopClip s = (if gs_clips s = 0 then None else Some (s\<lparr>gs_clips := gs_clips s - 1\<rparr>))"
| "run_op (OpenScope k) s = Some (s\<lparr>gs_open := (k, gs_depths s) # gs_open s\<rparr>)"
| "run_op (CloseScope k) s =
     (case gs_open s of
        [] \<Rightarrow> None
      | (k', cs, vs, fs) # ts \<Rightarrow>
          if k' = k \<and> length (gs_colors s) \<le> cs \<and> gs_vars s \<le> vs \<and> length (gs_fonts s) \<le> fs
          then Some (s\<lparr>gs_open := ts\<rparr>) else None)"

fun run_ops :: "gui_op list \<Rightarrow> gui_stacks \<Rightarrow> gui_stacks option" where
  "run_ops [] s = Some s"
| "run_ops (p # ps) s = (case run_op p s of None \<Rightarrow> None | Some s1 \<Rightarrow> run_ops ps s1)"

section \<open>The drawing code's calls\<close>

text \<open>The guards: their ends run when the scope is left.\<close>

definition panel_scope :: "gui_op list \<Rightarrow> gui_op list" where
  "panel_scope inside = [PushColor ColChildBg, OpenScope PanelScope, PopColor 1] @ inside @ [CloseScope PanelScope]"

definition with_rounding :: "gui_op list \<Rightarrow> gui_op list" where
  "with_rounding inside = [PushVar] @ inside @ [PopVar 1]"

definition heading_scope :: "nat option \<Rightarrow> gui_op list \<Rightarrow> gui_op list" where
  "heading_scope font inside = (case font of None \<Rightarrow> inside | Some f \<Rightarrow> [PushFont f] @ inside @ [PopFont])"

definition GridComboField :: "gui_op list" where
  "GridComboField = [PushVar, PopVar 1]"

definition button_colors :: "gui_op list" where
  "button_colors = [PushColor ColButton, PushColor ColButtonHovered, PushColor ColButtonActive, PushColor ColText]"

definition PrimaryAction :: "gui_op list" where
  "PrimaryAction = button_colors @ with_rounding [] @ [PopColor 4]"

definition DangerAction :: "gui_op list" where
  "DangerAction = button_colors @ with_rounding [] @ [PopColor 4]"

definition SendAction :: "gui_op list" where
  "SendAction = button_colors @ with_rounding [] @ [PopColor 4]"

definition Header :: "gui_op list \<Rightarrow> gui_op list" where
  "Header inside = [PushColor ColChildBg, OpenScope PanelScope] @ inside @ [CloseScope PanelScope, PopColor 1]"

text \<open>A table that is not shown is not closed either.\<close>

definition ReceiveToolbar :: "bool \<Rightarrow> gui_op list" where
  "ReceiveToolbar shown = [PushVar] @ (if shown then [OpenScope TableScope, CloseScope TableScope] else []) @ [PopVar 1]"

definition RenderToggles :: "nat \<Rightarrow> gui_op list" where
  "RenderToggles count = concat (replicate count [OpenScope DisabledScope, CloseScope DisabledScope])"

definition TextContextMenu :: "bool \<Rightarrow> gui_op list" where
  "TextContextMenu shown = (if shown then [OpenScope PopupScope, CloseScope PopupScope] else [])"

text \<open>A row of the log: a transmitted line has its own colour.\<close>

definition log_row :: "bool \<Rightarrow> gui_op list" where
  "log_row tx_row = (if tx_row then [PushColor ColText] else []) @ (if tx_row then [PopColor 1] else [])"

text \<open>
  The calls of the receive log: the data font ends before the context menu, and the guard at the end of the function pops it
  only if that has not happened (an empty log returns before any of it).
\<close>

definition receive_scopes :: "nat option \<Rightarrow> bool \<Rightarrow> bool \<Rightarrow> bool list \<Rightarrow> bool \<Rightarrow> bool \<Rightarrow> gui_op list" where
  "receive_scopes data_font no_text clip rows bar menu =
     panel_scope
       (if no_text then []
        else (let mono_ok = (data_font \<noteq> None);
                  popped_mono = mono_ok
              in (case data_font of None \<Rightarrow> [] | Some f \<Rightarrow> [PushFont f])
                 @ [PushVar] @ (if clip then [PushClip] else [])
                 @ concat (map log_row rows)
                 @ [PopVar 1] @ (if mono_ok then [PopFont] else [])
                 @ (if clip then [PopClip] else [])
                 @ (if bar then [OpenScope ItemFlagScope, CloseScope ItemFlagScope] else [])
                 @ (if menu then [OpenScope PopupScope, CloseScope PopupScope] else [])
                 @ (if mono_ok \<and> \<not> popped_mono then [PopFont] else [])))"

section \<open>The table\<close>

lemma rgb_range:
  assumes "0 \<le> alpha" "alpha \<le> 1"
  shows "cr_r (rgb v alpha) \<in> {0..1} \<and> cr_g (rgb v alpha) \<in> {0..1} \<and> cr_b (rgb v alpha) \<in> {0..1} \<and> cr_a (rgb v alpha) \<in> {0..1}"
proof -
  have "unat (w AND 0xFF) \<le> unat (0xFF :: u32)" for w :: u32
    by (rule iffD1 [OF word_le_nat_alt]) (rule word_and_le1)
  then have "unat (w AND 0xFF) \<le> 255" for w :: u32 by simp
  moreover have "of_nat n / (255 :: rat) \<in> {0..1}" if "n \<le> 255" for n
    using that of_nat_le_iff [of n 255, where 'a = rat] by simp
  ultimately have "of_nat (unat (w AND 0xFF)) / (255 :: rat) \<in> {0..1}" for w :: u32
    by blast
  then show ?thesis using assms by (simp add: rgb_def)
qed

lemma table_slots: "distinct (map fst kStyleColors) \<and> {ColText, ColTextDisabled, ColTextSelectedBg} \<inter> set (map fst kStyleColors) = {}"
  by (simp add: kStyleColors_def)

lemma fold_table:
  "distinct (map fst es) \<Longrightarrow>
   fold (\<lambda>(slot, v, alpha) cs. cs(slot := rgb v alpha)) es f c =
     (case map_of es c of None \<Rightarrow> f c | Some (v, alpha) \<Rightarrow> rgb v alpha)"
proof (induction es arbitrary: f)
  case (Cons e es)
  obtain slot v alpha where e: "e = (slot, v, alpha)" by (cases e) auto
  show ?case using Cons e by (auto split: option.splits simp: map_of_eq_None_iff) (force dest: map_of_SomeD)
qed simp

lemma style_color:
  "st_colors (apply_style c s) slot =
     (if slot = ColTextSelectedBg then rgb (lc_selection c) (35 / 100)
      else if slot = ColTextDisabled then rgb (lc_text_muted c) 1
      else if slot = ColText then rgb (lc_text_body c) 1
      else case map_of kStyleColors slot of None \<Rightarrow> st_colors s slot | Some (v, alpha) \<Rightarrow> rgb v alpha)"
  by (simp add: apply_style_def Let_def fold_table [OF conjunct1 [OF table_slots]])

section \<open>The stacks\<close>

definition balanced :: "gui_op list \<Rightarrow> bool" where
  "balanced ps \<longleftrightarrow> (\<forall>s. run_ops ps s = Some s)"

lemma run_ops_append: "run_ops (ps @ qs) s = (case run_ops ps s of None \<Rightarrow> None | Some s1 \<Rightarrow> run_ops qs s1)"
  by (induction ps arbitrary: s) (auto split: option.splits)

named_theorems balance

lemma balanced_nil [balance]: "balanced []"
  by (simp add: balanced_def)

lemma balanced_append [balance]: "balanced ps \<Longrightarrow> balanced qs \<Longrightarrow> balanced (ps @ qs)"
  by (simp add: balanced_def run_ops_append)

lemma balanced_concat [balance]: "(\<And>ps. ps \<in> set pss \<Longrightarrow> balanced ps) \<Longrightarrow> balanced (concat pss)"
  by (induction pss) (simp_all add: balanced_nil balanced_append)

lemma balanced_empty_scope [balance]: "balanced [OpenScope k, CloseScope k]"
  by (simp add: balanced_def gs_depths_def)

lemma balanced_panel [balance]: "balanced ps \<Longrightarrow> balanced (panel_scope ps)"
  by (simp add: balanced_def panel_scope_def run_ops_append gs_depths_def)

lemma balanced_rounding [balance]: "balanced ps \<Longrightarrow> balanced (with_rounding ps)"
  by (simp add: balanced_def with_rounding_def run_ops_append)

lemma balanced_heading [balance]: "balanced ps \<Longrightarrow> balanced (heading_scope font ps)"
  by (cases font) (simp_all add: balanced_def heading_scope_def run_ops_append)

lemma balanced_header [balance]: "balanced ps \<Longrightarrow> balanced (Header ps)"
  by (simp add: balanced_def Header_def run_ops_append gs_depths_def)

lemma balanced_buttons [balance]: "balanced PrimaryAction" "balanced DangerAction" "balanced SendAction"
  by (simp_all add: balanced_def PrimaryAction_def DangerAction_def SendAction_def button_colors_def with_rounding_def)

lemma balanced_row [balance]: "balanced (log_row tx)"
  by (simp add: balanced_def log_row_def)

lemma balanced_options [balance]: "balanced GridComboField" "balanced (ReceiveToolbar shown)" "balanced (TextContextMenu shown)"
  by (simp_all add: balanced_def GridComboField_def ReceiveToolbar_def TextContextMenu_def gs_depths_def)

lemma balanced_toggles [balance]: "balanced (RenderToggles n)"
  unfolding RenderToggles_def by (rule balanced_concat) (auto intro: balance simp: in_set_replicate)

lemma receive_scopes_balanced [balance]: "balanced (receive_scopes data_font no_text clip rows bar menu)"
proof -
  have "balanced (concat (map log_row rows))" by (rule balanced_concat) (auto intro: balance)
  then have rows: "run_ops (concat (map log_row rows)) s = Some s" for s by (simp add: balanced_def)
  show ?thesis
    unfolding receive_scopes_def
    by (rule balanced_panel, cases data_font; cases no_text; cases clip; cases bar; cases menu)
      (simp_all add: balanced_def run_ops_append rows gs_depths_def Let_def)
qed

section \<open>Properties\<close>

text \<open>
  Whatever the style was before, after \<open>apply_style\<close> every slot of the table has the colour of
  the table, the two text slots and the text selection have the colours of the layout file, and no other slot has
  changed.
\<close>

theorem apply_style_sets_colours:
  "(\<forall>(slot, v, alpha) \<in> set kStyleColors. st_colors (apply_style c s) slot = rgb v alpha)
   \<and> st_colors (apply_style c s) ColText = rgb (lc_text_body c) 1
   \<and> st_colors (apply_style c s) ColTextDisabled = rgb (lc_text_muted c) 1
   \<and> st_colors (apply_style c s) ColTextSelectedBg = rgb (lc_selection c) (35 / 100)
   \<and> st_colors (apply_style c s) (ColOther k) = st_colors s (ColOther k)"
proof -
  have "st_colors (apply_style c s) slot = rgb v alpha" if "(slot, v, alpha) \<in> set kStyleColors" for slot v alpha
  proof -
    have "slot \<notin> {ColText, ColTextDisabled, ColTextSelectedBg}" using that conjunct2 [OF table_slots] by force
    moreover have "map_of kStyleColors slot = Some (v, alpha)"
      using conjunct1 [OF table_slots] that by (rule map_of_is_SomeI)
    ultimately show ?thesis by (simp add: style_color)
  qed
  moreover have "map_of kStyleColors (ColOther k) = None" by (simp add: kStyleColors_def)
  ultimately show ?thesis by (auto simp: style_color)
qed

text \<open>
  Every widget, the header, the receive options and the receive log leave the stacks of the GUI
  library as they found them, on every path: an empty log, a log with or without a data font, with or without
  a clip rectangle, rows of either colour, the scroll bar and the context menu. No pop meets an empty stack and no scope is
  closed over something pushed inside it.
\<close>

theorem draw_scopes_balanced:
  "run_ops (Header (heading_scope title [] @ RenderToggles n)
      @ receive_scopes data_font no_text clip rows bar menu
      @ ReceiveToolbar shown @ concat (replicate k GridComboField)
      @ PrimaryAction @ DangerAction @ SendAction @ TextContextMenu popup
      @ panel_scope (heading_scope title [])) s = Some s"
proof -
  have "balanced (Header (heading_scope title [] @ RenderToggles n)
      @ receive_scopes data_font no_text clip rows bar menu
      @ ReceiveToolbar shown @ concat (replicate k GridComboField)
      @ PrimaryAction @ DangerAction @ SendAction @ TextContextMenu popup
      @ panel_scope (heading_scope title []))"
    by (intro balance) (auto intro: balance simp: in_set_replicate)
  then show ?thesis by (simp add: balanced_def)
qed

end
