(* ===== verification/Glyphs.thy ===== *)
theory Glyphs
  imports Footer
begin

text \<open>
  The table of the window's texts and the characters the font atlas is built for (\<open>Lang\<close>, \<open>for_each_text\<close> and the glyph
  part of \<open>rebuild_fonts\<close>, \<open>xcom_imgui_bridge.cpp\<close>). Texts are UTF-8 bytes. The GUI library's range builder and its
  constant range tables are parameters. The Chinese table has the same fields and is not written out.
\<close>

section \<open>The texts\<close>

record lang =
  lg_online :: bytes
  lg_offline :: bytes
  lg_chip_lua :: bytes
  lg_chip_scope :: bytes
  lg_chip_set :: bytes
  lg_section_port :: bytes
  lg_select_port :: bytes
  lg_open :: bytes
  lg_close :: bytes
  lg_section_serial :: bytes
  lg_more :: bytes
  lg_custom :: bytes
  lg_section_recv :: bytes
  lg_hex_display :: bytes
  lg_timestamp :: bytes
  lg_pause :: bytes
  lg_auto_clear :: bytes
  lg_save_to_file :: bytes
  lg_charset :: bytes
  lg_frame_gap :: bytes
  lg_ms :: bytes
  lg_tab_single :: bytes
  lg_tab_multi :: bytes
  lg_send_hex :: bytes
  lg_send_newline :: bytes
  lg_send_auto :: bytes
  lg_send :: bytes
  lg_run :: bytes
  lg_loop :: bytes
  lg_gap :: bytes
  lg_history :: bytes
  lg_waiting :: bytes
  lg_ready :: bytes
  lg_open_a_port :: bytes
  lg_refresh_tip :: bytes
  lg_save_tip :: bytes
  lg_clear_tip :: bytes
  lg_path_tip :: bytes
  lg_settings_title :: bytes
  lg_general_tab :: bytes
  lg_appearance :: bytes
  lg_font_size :: bytes
  lg_mono_cjk_label :: bytes
  lg_scope_title :: bytes
  lg_scripts_title :: bytes
  lg_send_slot_tip_prefix :: bytes
  lg_parity_items :: "bytes list"
  lg_flow_items :: "bytes list"
  lg_open_line_label :: bytes
  lg_open_line_items :: "bytes list"
  lg_open_line_open_items :: "bytes list"
  lg_serial_field_labels :: "bytes list"
  lg_subtitle :: bytes
  lg_menu_select_all :: bytes
  lg_menu_copy :: bytes
  lg_menu_paste :: bytes
  lg_menu_copy_sel :: bytes
  lg_menu_copy_all :: bytes
  lg_menu_copy_strip_ts :: bytes
  lg_menu_clear_log :: bytes
  lg_menu_save_log :: bytes
  lg_menu_resume :: bytes
  lg_script_new :: bytes
  lg_script_open_folder :: bytes
  lg_script_reload :: bytes
  lg_script_clear_log :: bytes
  lg_script_empty_title :: bytes
  lg_script_empty_detail :: bytes
  lg_repl_label :: bytes
  lg_plugin_windows :: bytes
  lg_scope_follow :: bytes
  lg_scope_hint :: bytes
  lg_scope_empty_title :: bytes
  lg_scope_empty_detail :: bytes
  lg_scope_axis_x :: bytes
  lg_scope_dt_fmt :: bytes
  lg_serial_label_col :: rat

text \<open>Every text of the table, item lists included, in the order of the code.\<close>

definition for_each_text :: "lang \<Rightarrow> bytes list" where
  "for_each_text L =
     [lg_online L, lg_offline L, lg_chip_lua L, lg_chip_scope L, lg_chip_set L, lg_section_port L, lg_select_port L,
       lg_open L, lg_close L, lg_section_serial L, lg_more L, lg_custom L, lg_section_recv L, lg_hex_display L,
       lg_timestamp L, lg_pause L, lg_auto_clear L, lg_save_to_file L, lg_charset L, lg_frame_gap L, lg_ms L,
       lg_tab_single L, lg_tab_multi L, lg_send_hex L, lg_send_newline L, lg_send_auto L, lg_send L, lg_run L,
       lg_loop L, lg_gap L, lg_history L, lg_waiting L, lg_ready L, lg_open_a_port L, lg_refresh_tip L, lg_save_tip L,
       lg_clear_tip L, lg_path_tip L, lg_settings_title L, lg_general_tab L, lg_appearance L, lg_font_size L,
       lg_mono_cjk_label L, lg_scope_title L, lg_scripts_title L, lg_send_slot_tip_prefix L]
     @ lg_parity_items L
     @ lg_flow_items L
     @ lg_open_line_items L
     @ [lg_open_line_label L, lg_open_line_items L ! 0, lg_open_line_items L ! 1, lg_open_line_items L ! 2,
       lg_open_line_open_items L ! 0, lg_open_line_open_items L ! 1]
     @ lg_serial_field_labels L
     @ [lg_subtitle L, lg_menu_select_all L, lg_menu_copy L, lg_menu_paste L, lg_menu_copy_sel L, lg_menu_copy_all L,
       lg_menu_copy_strip_ts L, lg_menu_clear_log L, lg_menu_save_log L, lg_menu_resume L, lg_script_new L,
       lg_script_open_folder L, lg_script_reload L, lg_script_clear_log L, lg_script_empty_title L,
       lg_script_empty_detail L, lg_repl_label L, lg_plugin_windows L, lg_scope_follow L, lg_scope_hint L,
       lg_scope_empty_title L, lg_scope_empty_detail L, lg_scope_axis_x L, lg_scope_dt_fmt L]"

definition kLangEn :: lang where
  "kLangEn = \<lparr>lg_online = bytes_of ''ONLINE'',
     lg_offline = bytes_of ''OFFLINE'',
     lg_chip_lua = bytes_of ''Lua'',
     lg_chip_scope = bytes_of ''Scope'',
     lg_chip_set = bytes_of ''Set'',
     lg_section_port = bytes_of ''CONNECTION'',
     lg_select_port = bytes_of ''Select a port'',
     lg_open = bytes_of ''Open'',
     lg_close = bytes_of ''Close'',
     lg_section_serial = bytes_of ''SERIAL PROFILE'',
     lg_more = bytes_of ''MORE'',
     lg_custom = bytes_of ''CUSTOM'',
     lg_section_recv = bytes_of ''DISPLAY'',
     lg_hex_display = bytes_of ''HEX'',
     lg_timestamp = bytes_of ''Time'',
     lg_pause = bytes_of ''Pause'',
     lg_auto_clear = bytes_of ''Clear'',
     lg_save_to_file = bytes_of ''Save'',
     lg_charset = bytes_of ''Charset'',
     lg_frame_gap = bytes_of ''Frame Gap'',
     lg_ms = bytes_of ''ms'',
     lg_tab_single = bytes_of ''Single'',
     lg_tab_multi = bytes_of ''Multi'',
     lg_send_hex = bytes_of ''HEX'',
     lg_send_newline = bytes_of ''NEWLINE'',
     lg_send_auto = bytes_of ''AUTO'',
     lg_send = bytes_of ''Send'',
     lg_run = bytes_of ''Run'',
     lg_loop = bytes_of ''Loop'',
     lg_gap = bytes_of ''gap'',
     lg_history = bytes_of ''History'',
     lg_waiting = bytes_of ''WAITING FOR SERIAL DATA'',
     lg_ready = bytes_of ''Ready'',
     lg_open_a_port = bytes_of ''Open a port'',
     lg_refresh_tip = bytes_of ''Refresh ports'',
     lg_save_tip = bytes_of ''Save receive log'',
     lg_clear_tip = bytes_of ''Clear receive log'',
     lg_path_tip = bytes_of ''Choose log path'',
     lg_settings_title = bytes_of ''Settings'',
     lg_general_tab = bytes_of ''General'',
     lg_appearance = bytes_of ''APPEARANCE'',
     lg_font_size = bytes_of ''Font size'',
     lg_mono_cjk_label = bytes_of ''Show Chinese in receive'',
     lg_scope_title = bytes_of ''Scope'',
     lg_scripts_title = bytes_of ''Script Console'',
     lg_send_slot_tip_prefix = bytes_of ''Send slot %d'',
     lg_parity_items = [bytes_of ''None'', bytes_of ''Odd'', bytes_of ''Even'', bytes_of ''Mark'', bytes_of ''Space''],
     lg_flow_items = [bytes_of ''None'', bytes_of ''RTS / CTS'', bytes_of ''XON / XOFF''],
     lg_open_line_label = bytes_of ''OPEN LINES'',
     lg_open_line_items = [bytes_of ''Deassert'', bytes_of ''Assert'', bytes_of ''Leave alone''],
     lg_open_line_open_items = [bytes_of ''Deassert'', bytes_of ''Assert''],
     lg_serial_field_labels = [bytes_of ''BAUD'', bytes_of ''DATA'', bytes_of ''STOP'', bytes_of ''PARITY'', bytes_of ''FLOW''],
     lg_subtitle = bytes_of ''SERIAL CONSOLE'',
     lg_menu_select_all = bytes_of ''Select all'',
     lg_menu_copy = bytes_of ''Copy'',
     lg_menu_paste = bytes_of ''Paste'',
     lg_menu_copy_sel = bytes_of ''Copy selection'',
     lg_menu_copy_all = bytes_of ''Copy all'',
     lg_menu_copy_strip_ts = bytes_of ''Copy without timestamps'',
     lg_menu_clear_log = bytes_of ''Clear log'',
     lg_menu_save_log = bytes_of ''Save log to file...'',
     lg_menu_resume = bytes_of ''Resume display'',
     lg_script_new = bytes_of ''New'',
     lg_script_open_folder = bytes_of ''Open folder'',
     lg_script_reload = bytes_of ''Reload'',
     lg_script_clear_log = bytes_of ''Clear log'',
     lg_script_empty_title = bytes_of ''SELECT A SCRIPT'',
     lg_script_empty_detail = bytes_of ''pick one from the list'',
     lg_repl_label = bytes_of ''REPL'',
     lg_plugin_windows = bytes_of ''PLUGIN WINDOWS'',
     lg_scope_follow = bytes_of ''Follow'',
     lg_scope_hint = bytes_of ''drag: pan  wheel: zoom  dbl-click: fit'',
     lg_scope_empty_title = bytes_of ''NO SCOPE DATA'',
     lg_scope_empty_detail = bytes_of ''wave.push(series, y) from a script feeds this plot'',
     lg_scope_axis_x = bytes_of ''time (s)'',
     lg_scope_dt_fmt = bytes_of ''dt = %.3f s'',
     lg_serial_label_col = 48\<rparr>"

text \<open>The item lists have the lengths the panels index them with.\<close>

definition lang_ok :: "lang \<Rightarrow> bool" where
  "lang_ok L \<longleftrightarrow> length (lg_parity_items L) = 5 \<and> length (lg_flow_items L) = 3 \<and> length (lg_open_line_items L) = 3 \<and>
     length (lg_open_line_open_items L) = 2 \<and> length (lg_serial_field_labels L) = 5"

lemma kLangEn_ok: "lang_ok kLangEn"
  by (simp add: lang_ok_def kLangEn_def)

text \<open>Every text a panel can take from the table: the single texts and the items.\<close>

definition lang_texts :: "lang \<Rightarrow> bytes set" where
  "lang_texts L =
     set [lg_online L, lg_offline L, lg_chip_lua L, lg_chip_scope L, lg_chip_set L, lg_section_port L,
          lg_select_port L, lg_open L, lg_close L, lg_section_serial L, lg_more L, lg_custom L, lg_section_recv L,
          lg_hex_display L, lg_timestamp L, lg_pause L, lg_auto_clear L, lg_save_to_file L, lg_charset L,
          lg_frame_gap L, lg_ms L, lg_tab_single L, lg_tab_multi L, lg_send_hex L, lg_send_newline L, lg_send_auto L,
          lg_send L, lg_run L, lg_loop L, lg_gap L, lg_history L, lg_waiting L, lg_ready L, lg_open_a_port L,
          lg_refresh_tip L, lg_save_tip L, lg_clear_tip L, lg_path_tip L, lg_settings_title L, lg_general_tab L,
          lg_appearance L, lg_font_size L, lg_mono_cjk_label L, lg_scope_title L, lg_scripts_title L,
          lg_send_slot_tip_prefix L, lg_open_line_label L, lg_subtitle L, lg_menu_select_all L, lg_menu_copy L,
          lg_menu_paste L, lg_menu_copy_sel L, lg_menu_copy_all L, lg_menu_copy_strip_ts L, lg_menu_clear_log L,
          lg_menu_save_log L, lg_menu_resume L, lg_script_new L, lg_script_open_folder L, lg_script_reload L,
          lg_script_clear_log L, lg_script_empty_title L, lg_script_empty_detail L, lg_repl_label L,
          lg_plugin_windows L, lg_scope_follow L, lg_scope_hint L, lg_scope_empty_title L, lg_scope_empty_detail L,
          lg_scope_axis_x L, lg_scope_dt_fmt L]
     \<union> set (lg_parity_items L) \<union> set (lg_flow_items L) \<union> set (lg_open_line_items L)
     \<union> set (lg_open_line_open_items L) \<union> set (lg_serial_field_labels L)"

lemma lang_texts_listed: "lang_ok L \<Longrightarrow> lang_texts L \<subseteq> set (for_each_text L)"
proof -
  assume "lang_ok L"
  then obtain a b where "lg_open_line_open_items L = [a, b]"
    by (auto simp: lang_ok_def length_Suc_conv numeral_2_eq_2)
  then show ?thesis by (auto simp: lang_texts_def for_each_text_def)
qed

section \<open>The characters of the atlas\<close>

definition digits_text :: bytes where
  "digits_text = bytes_of ''0123456789''"

definition ui_glyph_texts :: "lang \<Rightarrow> bytes list \<Rightarrow> bytes list \<Rightarrow> bytes \<Rightarrow> bytes list" where
  "ui_glyph_texts L labels descs status =
     for_each_text L @ [digits_text] @ labels @ descs @ (if status \<noteq> [] then [status] else [])"

text \<open>Ranges are pairs of ends, flat and closed by a zero, as the builder leaves them; both ends belong to the range.\<close>

fun in_ranges :: "u16 list \<Rightarrow> u16 \<Rightarrow> bool" where
  "in_ranges (a # b # rs) c \<longleftrightarrow> a \<le> c \<and> c \<le> b \<or> in_ranges rs c"
| "in_ranges _ c \<longleftrightarrow> False"

text \<open>The builder's documented result: the characters of every text that was added are in its ranges.\<close>

definition builder_documented :: "(bytes list \<Rightarrow> u16 list) \<Rightarrow> bool" where
  "builder_documented build \<longleftrightarrow>
     (\<forall>ts. \<forall>t\<in>set ts. \<forall>cp\<in>set (code_points t). cp < 0x10000 \<longrightarrow> in_ranges (build ts) (ucast cp))"

definition ui_glyph_ranges :: "(bytes list \<Rightarrow> u16 list) \<Rightarrow> lang \<Rightarrow> bytes list \<Rightarrow> bytes list \<Rightarrow> bytes \<Rightarrow> u16 list" where
  "ui_glyph_ranges build L labels descs status = build (ui_glyph_texts L labels descs status)"

text \<open>Every text the window draws in the body face has its characters in the atlas.\<close>

lemma drawn_texts_baked:
  assumes "builder_documented build" "lang_ok L"
    and "t \<in> lang_texts L \<union> {digits_text} \<union> set labels \<union> set descs \<union> {status}" "cp \<in> set (code_points t)" "cp < 0x10000"
  shows "in_ranges (ui_glyph_ranges build L labels descs status) (ucast cp)"
proof -
  have "t \<noteq> []" using assms(4) by auto
  then have "t \<in> set (ui_glyph_texts L labels descs status)"
    using assms(3) lang_texts_listed [OF assms(2)] by (auto simp: ui_glyph_texts_def)
  then show ?thesis using assms(1,4,5) by (auto simp: builder_documented_def ui_glyph_ranges_def)
qed

section \<open>The faces\<close>

datatype font_source = Asset string | SystemFont string | CjkData

text \<open>A face that is added, or merged into the face added last; \<open>ok\<close> says whether the library could load it.\<close>

datatype font_call = AddFace font_source rat | MergeFace font_source rat

definition kCjkShrinkPx :: rat where "kCjkShrinkPx = 1"
definition kBodySizes :: "rat list" where "kBodySizes = [13, 15, 17]"
definition kHeading :: rat where "kHeading = 16"
definition kMono :: rat where "kMono = 15"

definition merge_ui_glyphs :: "(font_source \<Rightarrow> bool) \<Rightarrow> bool \<Rightarrow> rat \<Rightarrow> font_call list" where
  "merge_ui_glyphs ok cjk_data px =
     (let n = px - kCjkShrinkPx; system = MergeFace (SystemFont ''simsun.ttc'') n
      in if cjk_data then (if ok CjkData then [MergeFace CjkData n] else [MergeFace CjkData n, system]) else [system])"

text \<open>A face from its first source, or else from the second.\<close>

definition add_face :: "(font_source \<Rightarrow> bool) \<Rightarrow> font_source \<Rightarrow> font_source \<Rightarrow> rat \<Rightarrow> bool \<times> font_call list" where
  "add_face ok first second px =
     (if ok first then (True, [AddFace first px]) else (ok second, [AddFace first px, AddFace second px]))"

definition mono_merge :: "(font_source \<Rightarrow> bool) \<Rightarrow> bool \<Rightarrow> font_call list" where
  "mono_merge ok cjk_data =
     (let n = kMono - kCjkShrinkPx; first = (if cjk_data then CjkData else SystemFont ''simhei.ttf'')
      in MergeFace first n # (if ok first then [] else [MergeFace (SystemFont ''simsun.ttc'') n]))"

definition load_faces :: "(font_source \<Rightarrow> bool) \<Rightarrow> bool \<Rightarrow> bool \<Rightarrow> faces \<times> font_call list" where
  "load_faces ok cjk_data mono_cjk =
     (let body = map (\<lambda>px. (px, add_face ok (Asset ''SiemensSlabRoman.ttf'') (SystemFont ''segoeui.ttf'') px)) kBodySizes;
          heading = add_face ok (Asset ''SiemensSlabBold.TTF'') (SystemFont ''segoeuib.ttf'') kHeading;
          mono = add_face ok (SystemFont ''consola.ttf'') (SystemFont ''cascadiamono.ttf'') kMono
      in (\<lparr>fc_body = map (\<lambda>(px, loaded, calls). loaded) body, fc_heading = fst heading, fc_mono = fst mono\<rparr>,
          concat (map (\<lambda>(px, loaded, calls). calls @ merge_ui_glyphs ok cjk_data px) body)
          @ snd heading @ merge_ui_glyphs ok cjk_data kHeading
          @ snd mono @ (if mono_cjk then mono_merge ok cjk_data else [])))"

text \<open>With the system's own fonts every face is there, whatever is missing from the bundle.\<close>

lemma system_fonts_suffice:
  assumes "ok (SystemFont ''segoeui.ttf'')" "ok (SystemFont ''segoeuib.ttf'')" "ok (SystemFont ''consola.ttf'') \<or> ok (SystemFont ''cascadiamono.ttf'')"
  shows "fst (load_faces ok cjk_data mono_cjk) = \<lparr>fc_body = [True, True, True], fc_heading = True, fc_mono = True\<rparr>"
  using assms by (auto simp: load_faces_def add_face_def kBodySizes_def Let_def)

section \<open>The budget of the data face\<close>

definition kGlyphBudget :: int where "kGlyphBudget = 4200"

text \<open>The count the code makes over a range vector: the differences of the ends.\<close>

fun glyph_count :: "u16 list \<Rightarrow> int" where
  "glyph_count (a # b # rs) = uint b - uint a + glyph_count rs"
| "glyph_count _ = 0"

definition mono_cjk_ranges :: "bool \<Rightarrow> (u16 list list \<Rightarrow> u16 list) \<Rightarrow> u16 list \<Rightarrow> u16 list \<Rightarrow> u16 list" where
  "mono_cjk_ranges on build chinese japanese =
     (if on
      then (let ranges = build [chinese, japanese]
            in if glyph_count ranges > kGlyphBudget then build [chinese] else ranges)
      else [])"

definition flat_ranges :: "(u16 \<times> u16) list \<Rightarrow> u16 list" where
  "flat_ranges rs = concat (map (\<lambda>(a, b). [a, b]) rs) @ [0]"

text \<open>The glyphs of a list of ranges, and what the count makes of them: each range counts one too few.\<close>

definition glyphs_of :: "(u16 \<times> u16) list \<Rightarrow> int" where
  "glyphs_of rs = sum_list (map (\<lambda>(a, b). uint b - uint a + 1) rs)"

lemma glyph_count_short: "glyph_count (flat_ranges rs) = glyphs_of rs - int (length rs)"
  by (induction rs) (auto simp: flat_ranges_def glyphs_of_def)

text \<open>
  So the budget is not kept: scattered glyphs, the usual case of the two Chinese and Japanese tables, count nothing, however many
  they are.
\<close>

lemma scattered_glyphs_pass:
  assumes "build [chinese, japanese] = flat_ranges rs" "\<forall>(a, b)\<in>set rs. a = b"
  shows "mono_cjk_ranges True build chinese japanese = flat_ranges rs \<and> glyphs_of rs = int (length rs)"
proof -
  have "glyphs_of rs = int (length rs)" using assms(2) by (induction rs) (auto simp: glyphs_of_def)
  then show ?thesis using glyph_count_short [of rs] by (simp add: mono_cjk_ranges_def assms(1) kGlyphBudget_def)
qed

end
