(* ===== verification/Log_Account.thy ===== *)
theory Log_Account
  imports Log_Protocol
begin

text \<open>
  The account of the log lanes over whole passes of the file worker: the payloads of the queued append
  jobs and of the queued raw receive blocks leave their queues in order, and each of them is written, as
  a prefix, and charged to the rejected-save counter for the rest.
\<close>

section \<open>Payloads and writes\<close>

definition log_appends :: "log_writer \<Rightarrow> u8 list list" where
  "log_appends w = map (\<lambda>j. drop (fj_offset j) (fj_data j)) (filter (\<lambda>j. fj_kind j = JkAppend) (lw_jobs w))"

definition raw_payload :: "rx_lane \<Rightarrow> rx_ref \<Rightarrow> u8 list" where
  "raw_payload l ref = take (unat (rr_len ref)) (rl_payload l ! rr_event ref)"

definition raw_payloads :: "rx_lane \<Rightarrow> u8 list list" where
  "raw_payloads l = map (raw_payload l) (rl_raw_ready l)"

fun log_writes :: "file_op list \<Rightarrow> u8 list" where
  "log_writes [] = []"
| "log_writes (OpWrite p bs # ops) = bs @ log_writes ops"
| "log_writes (_ # ops) = log_writes ops"

lemma log_writes_append [simp]: "log_writes (xs @ ys) = log_writes xs @ log_writes ys"
  by (induction xs rule: log_writes.induct) auto

lemma log_writes_chunks [simp]: "log_writes (map (OpWrite p) chunks) = concat chunks"
  by (induction chunks) auto

text \<open>Of every payload a prefix was written, in order, and the rest charged.\<close>

definition settled :: "u8 list list \<Rightarrow> u8 list \<Rightarrow> nat \<Rightarrow> bool" where
  "settled pls bs n \<longleftrightarrow> (\<exists>ks. length ks = length pls \<and> bs = concat (map2 take ks pls) \<and>
     n = sum_list (map2 (\<lambda>k p. length p - k) ks pls))"

lemma settled_Nil: "settled [] [] 0"
  by (simp add: settled_def)

lemma settled_one: "settled [p] (take k p) (length p - k)"
  unfolding settled_def by (intro exI [of _ "[k]"]) simp

lemma settled_append:
  assumes "settled a x m" "settled b y n"
  shows "settled (a @ b) (x @ y) (m + n)"
proof -
  obtain ks js where "length ks = length a" "x = concat (map2 take ks a)" "m = sum_list (map2 (\<lambda>k p. length p - k) ks a)"
    "length js = length b" "y = concat (map2 take js b)" "n = sum_list (map2 (\<lambda>k p. length p - k) js b)"
    using assms unfolding settled_def by blast
  then show ?thesis unfolding settled_def by (intro exI [of _ "ks @ js"]) simp
qed

text \<open>A stretch of the worker settles a list of payloads, writing only to \<open>f\<close> and charging \<open>n\<close> bytes.\<close>

definition settles ::
  "string option \<Rightarrow> u8 list list \<Rightarrow> nat \<Rightarrow> log_writer \<Rightarrow> 'x core_scheme \<Rightarrow> log_writer \<Rightarrow> 'x core_scheme \<Rightarrow> bool" where
  "settles f pls n w c w' c' \<longleftrightarrow>
     (\<exists>ops. lw_ops w' = lw_ops w @ ops \<and> settled pls (log_writes ops) n \<and> (\<forall>p bs. OpWrite p bs \<in> set ops \<longrightarrow> f = Some p)) \<and>
     m_save_rejected_bytes (c_metrics c') = m_save_rejected_bytes (c_metrics c) + of_nat n"

lemma settles_trans:
  assumes "settles f a m w c w1 c1" "settles f b n w1 c1 w2 c2"
  shows "settles f (a @ b) (m + n) w c w2 c2"
proof -
  obtain x y where "lw_ops w1 = lw_ops w @ x" "settled a (log_writes x) m" "\<forall>p bs. OpWrite p bs \<in> set x \<longrightarrow> f = Some p"
    "lw_ops w2 = lw_ops w1 @ y" "settled b (log_writes y) n" "\<forall>p bs. OpWrite p bs \<in> set y \<longrightarrow> f = Some p"
    using assms unfolding settles_def by blast
  then show ?thesis
    using assms settled_append [of a _ m b _ n] unfolding settles_def by (intro conjI exI [of _ "x @ y"]) auto
qed

lemma settles_quiet:
  assumes "lw_ops w' = lw_ops w @ ops" "\<forall>p bs. OpWrite p bs \<notin> set ops"
    "m_save_rejected_bytes (c_metrics c') = m_save_rejected_bytes (c_metrics c)"
  shows "settles f [] 0 w c w' c'"
proof -
  have "log_writes ops = []" using assms(2) by (induction ops rule: log_writes.induct) auto
  then show ?thesis using assms settled_Nil unfolding settles_def by (intro conjI exI [of _ ops]) auto
qed

lemma settles_wrote:
  assumes "wrote path data lo hi w w1" "lw_ops w' = lw_ops w1"
    "m_save_rejected_bytes (c_metrics c') = m_save_rejected_bytes (c_metrics c) + of_nat (length data - hi)"
  shows "settles (Some path) [drop lo data] (length data - hi) w c w' c'"
proof -
  obtain chunks where "after_writes path chunks w w1" "concat chunks = take (hi - lo) (drop lo data)" "lo \<le> hi"
    using assms(1) unfolding wrote_def by auto
  then show ?thesis
    using assms(2,3) after_writes_fields(1) [of path chunks w w1] settled_one [of "drop lo data" "hi - lo"]
    unfolding settles_def by (intro conjI exI [of _ "map (OpWrite path) chunks"]) auto
qed

section \<open>No loss without a stop\<close>

definition no_stop :: "file_os \<Rightarrow> log_writer \<Rightarrow> bool" where
  "no_stop Q w \<longleftrightarrow> \<not> lw_stopping w \<and> (\<forall>k. \<not> os_stopping Q k)"

lemma no_stop_seen: "no_stop Q w \<Longrightarrow> \<not> lw_stop_seen Q w"
  by (simp add: no_stop_def lw_stop_seen_def)

lemma no_stop_wrote: "wrote path data lo hi w w' \<Longrightarrow> no_stop Q w' = no_stop Q w"
  by (auto simp: no_stop_def wrote_def dest: after_writes_fields(6))

lemma append_loop_no_stop:
  assumes "append_loop Q path data offset reported w c = Some r" "no_stop Q w"
  shows "fst r = XCOM_OK"
proof -
  let ?P = "\<lambda>Q path data offset (reported :: bool) w c r. no_stop Q w \<longrightarrow> fst r = XCOM_OK"
  have "?P Q path data offset reported w c r"
  proof (rule append_loop.raw_induct [where P = ?P, OF _ assms(1)])
    fix loop Q path data offset reported w and c :: "'a core_scheme" and r
    assume ih: "\<And>Q path data offset reported w c r. loop Q path data offset reported w c = Some r \<Longrightarrow>
        ?P Q path data offset reported w c r"
      and body: "(case write_all Q path data offset w (lw_beat Q w c) of
          (None, off, w1, c1) \<Rightarrow>
            Some (XCOM_OK, off, w1, if reported then push_error XCOM_OK 2 ''storage recovered: log write resumed'' c1 else c1)
        | (Some e, off, w1, c1) \<Rightarrow>
            let c2 = (if reported then c1
                      else push_error e 2 ''storage stalled: log write retrying (disk slow or device gone)'' c1)
            in if lw_stop_seen Q w1 then Some (XCOM_ERR_IO, off, w1, c2) else loop Q path data off True w1 c2) = Some r"
    obtain e off w1 c1 where wr: "write_all Q path data offset w (lw_beat Q w c) = (e, off, w1, c1)"
      by (metis prod_cases4)
    have keep: "no_stop Q w1 = no_stop Q w"
      using write_all_spec [OF wr] no_stop_wrote by blast
    show "?P Q path data offset reported w c r"
    proof (cases e)
      case None
      then show ?thesis using body wr by auto
    next
      case (Some x)
      then show ?thesis
        using body wr keep no_stop_seen [of Q w1] ih [of Q path data off True w1 _ r] by (cases r) (auto simp: Let_def)
    qed
  qed
  then show ?thesis using assms(2) by blast
qed

lemma rx_write_loop_no_stop:
  assumes "rx_write_loop Q path data offset w c = Some r" "no_stop Q w"
  shows "length data \<le> fst r"
proof -
  let ?P = "\<lambda>Q path data offset w c r. no_stop Q w \<longrightarrow> length data \<le> fst r"
  have "?P Q path data offset w c r"
  proof (rule rx_write_loop.raw_induct [where P = ?P, OF _ assms(1)])
    fix loop Q path data offset w and c :: "'a core_scheme" and r
    assume ih: "\<And>Q path data offset w c r. loop Q path data offset w c = Some r \<Longrightarrow> ?P Q path data offset w c r"
      and body: "(if \<not> offset < length data \<or> lw_stop_seen Q w then Some (offset, w, c)
        else let c1 = lw_beat Q w c; chunk = drop offset data
             in case os_write Q (lw_clock w) chunk of
                  Inl e \<Rightarrow> (if lw_stop_seen Q (lw_tick w) then Some (offset, lw_tick w, c1)
                             else loop Q path data offset (lw_tick w) c1)
                | Inr n \<Rightarrow>
                    let got = min n (length chunk)
                    in if got = 0
                       then (if lw_stop_seen Q (lw_tick w) then Some (offset, lw_tick w, c1)
                             else loop Q path data offset (lw_tick w) c1)
                       else loop Q path data (offset + got) (lw_do (OpWrite path (take got chunk)) w) c1) = Some r"
    have keep: "no_stop Q (lw_tick w) = no_stop Q w" "no_stop Q (lw_do x w) = no_stop Q w" for x
      by (simp_all add: no_stop_def lw_tick_def lw_do_def)
    have seen: "no_stop Q w \<Longrightarrow> \<not> lw_stop_seen Q w \<and> \<not> lw_stop_seen Q (lw_tick w)"
      using keep no_stop_seen by blast
    show "?P Q path data offset w c r"
      using body seen ih keep
      by (cases "offset < length data") (auto simp: Let_def split: sum.splits if_splits)
  qed
  then show ?thesis using assms(2) by blast
qed

section \<open>Blocks and jobs\<close>

lemma rx_ref_settles:
  assumes "process_rx_ref Q ref w c = Some (w', c')"
  shows "\<exists>n. settles (lw_log w) [raw_payload (c_rx c) ref] n w c w' c' \<and> (lw_log w \<noteq> None \<and> no_stop Q w \<longrightarrow> n = 0)"
proof -
  let ?d = "raw_payload (c_rx c) ref"
  consider "rr_len ref = 0" | "rr_len ref \<noteq> 0" "lw_log w = None" | path where "rr_len ref \<noteq> 0" "lw_log w = Some path"
    by (cases "lw_log w") auto
  then show ?thesis
  proof cases
    case 1
    then have "settles (lw_log w) [?d] 0 w c w' c'"
      using assms settled_one [of "[]" 0] unfolding settles_def
      by (auto simp: process_rx_ref_def raw_payload_def Let_def)
    then show ?thesis by blast
  next
    case 2
    then have "settles (lw_log w) [?d] (length ?d) w c w' c'"
      using assms settled_one [of ?d 0] unfolding settles_def
      by (auto simp: process_rx_ref_def raw_payload_def Let_def)
    then show ?thesis using 2 by blast
  next
    case 3
    obtain off w1 c1 where l: "rx_write_loop Q path ?d 0 w c = Some (off, w1, c1)"
      using assms 3 by (auto simp: process_rx_ref_def raw_payload_def Let_def)
    have s: "wrote path ?d 0 off w w1" "quiet_core c c1"
      using rx_write_loop_spec [OF l] by (simp_all add: retry_post_def)
    have "w' = w1" "m_save_rejected_bytes (c_metrics c') = m_save_rejected_bytes (c_metrics c) + of_nat (length ?d - off)"
      using assms 3 l s(2) by (auto simp: process_rx_ref_def raw_payload_def Let_def quiet_core_def split: if_splits)
    then have "settles (lw_log w) [?d] (length ?d - off) w c w' c'"
      using settles_wrote [OF s(1), of w' c' c] 3 by simp
    moreover have "no_stop Q w \<Longrightarrow> length ?d - off = 0"
      using rx_write_loop_no_stop [OF l] by simp
    ultimately show ?thesis by blast
  qed
qed

lemma rx_ref_lane: "process_rx_ref Q ref w c = Some (w', c') \<Longrightarrow> c_rx c' = rx_release (os_rx Q) (rr_event ref) (c_rx c)"
  using rx_ref_accounted by blast

lemma no_stop_queues: "same_queues w w' \<Longrightarrow> no_stop Q w' = no_stop Q w"
  by (simp add: same_queues_def no_stop_def)

lemma rx_pop_cases:
  assumes "file_os_ok Q"
  shows "rx_pop_raw (os_rx Q) l = (case rl_raw_ready l of [] \<Rightarrow> None | x # xs \<Rightarrow> Some (x, l\<lparr>rl_raw_ready := xs\<rparr>))"
  using assms spsc_pop [of kRxBlockCount "xe_push (os_rx Q)" "xe_pop (os_rx Q)" "rl_raw_ready l"]
  by (auto simp: rx_pop_raw_def file_os_ok_def rx_env_ok_def split: list.split)

lemma raw_payload_release [simp]:
  "raw_payload (rx_release E b l) ref = raw_payload l ref" "raw_payload (l\<lparr>rl_raw_ready := q\<rparr>) ref = raw_payload l ref"
  by (simp_all add: raw_payload_def rx_release_def)

text \<open>One popped block: its payload leaves the front of the lane's list.\<close>

lemma popped_ref_settles:
  assumes "rl_raw_ready (c_rx c) = ref # rest"
    "process_rx_ref Q ref w (c\<lparr>c_rx := (c_rx c)\<lparr>rl_raw_ready := rest\<rparr>\<rparr>) = Some (w', c')"
  shows "\<exists>n. settles (lw_log w) [raw_payload (c_rx c) ref] n w c w' c' \<and>
    raw_payloads (c_rx c) = raw_payload (c_rx c) ref # raw_payloads (c_rx c') \<and>
    (lw_log w \<noteq> None \<and> no_stop Q w \<longrightarrow> n = 0)"
proof -
  have "map (raw_payload (c_rx c')) rest = map (raw_payload (c_rx c)) rest" "rl_raw_ready (c_rx c') = rest"
    using rx_ref_lane [OF assms(2)] by (auto simp: raw_payload_def rx_release_def)
  then have "raw_payloads (c_rx c) = raw_payload (c_rx c) ref # raw_payloads (c_rx c')"
    using assms(1) by (simp add: raw_payloads_def)
  then show ?thesis using rx_ref_settles [OF assms(2)] by (simp add: settles_def)
qed

lemma drain_rx_settles:
  assumes "file_os_ok Q" "drain_rx k Q w c = Some (w', c')"
  shows "\<exists>r n. settles (lw_log w) r n w c w' c' \<and> raw_payloads (c_rx c) = r @ raw_payloads (c_rx c') \<and>
    (lw_log w \<noteq> None \<and> no_stop Q w \<longrightarrow> n = 0) \<and> same_queues w w' \<and> lw_log w' = lw_log w"
  using assms(2)
proof (induction k arbitrary: w c)
  case 0
  then show ?case by (intro exI [of _ "[]"] exI [of _ 0]) (auto intro: settles_quiet [of _ _ "[]"])
next
  case (Suc k)
  show ?case
  proof (cases "rl_raw_ready (c_rx c)")
    case Nil
    then show ?thesis
      using Suc.prems by (intro exI [of _ "[]"] exI [of _ 0])
        (auto simp: rx_pop_cases [OF assms(1)] intro: settles_quiet [of _ _ "[]"])
  next
    case (Cons ref rest)
    obtain w1 c1 where p: "process_rx_ref Q ref w (c\<lparr>c_rx := (c_rx c)\<lparr>rl_raw_ready := rest\<rparr>\<rparr>) = Some (w1, c1)"
        "drain_rx k Q w1 c1 = Some (w', c')"
      using Suc.prems Cons by (auto simp: rx_pop_cases [OF assms(1)] split: option.splits)
    from popped_ref_settles [OF Cons p(1)] obtain n where
      n: "settles (lw_log w) [raw_payload (c_rx c) ref] n w c w1 c1"
        "raw_payloads (c_rx c) = raw_payload (c_rx c) ref # raw_payloads (c_rx c1)"
        "lw_log w \<noteq> None \<and> no_stop Q w \<longrightarrow> n = 0" by blast
    have k: "same_queues w w1" "lw_log w1 = lw_log w" using process_rx_ref_queues [OF p(1)] by simp_all
    from Suc.IH [OF p(2)] obtain r m where
      m: "settles (lw_log w) r m w1 c1 w' c'" "raw_payloads (c_rx c1) = r @ raw_payloads (c_rx c')"
        "lw_log w \<noteq> None \<and> no_stop Q w \<longrightarrow> m = 0" "same_queues w1 w'" "lw_log w' = lw_log w"
      using k no_stop_queues [OF k(1)] by auto
    show ?thesis
      using settles_trans [OF n(1) m(1)] n m same_queues_trans [OF k(1) m(4)]
      by (intro exI [of _ "raw_payload (c_rx c) ref # r"] exI [of _ "n + m"]) auto
  qed
qed

lemma finish_frame:
  assumes "lw_finish Q j st w c = Some (w', c')"
  shows "lw_jobs w' = lw_jobs w" "c_rx c' = c_rx c" "lw_log w' = lw_log w" "lw_stopping w' = lw_stopping w"
  using assms by (auto simp: lw_finish_def publish_atomic_completion_def push_error_def Let_def
      complete_sync_def release_completion_def lw_release_block_def split: bind_splits if_splits option.splits)

lemma append_job_settles:
  assumes "fj_kind j = JkAppend" "lw_process Q j w c = Some (w', c')"
  shows "\<exists>n. settles (lw_log w) [drop (fj_offset j) (fj_data j)] n w c w' c' \<and> c_rx c' = c_rx c \<and>
    (lw_log w \<noteq> None \<and> no_stop Q w \<longrightarrow> n = 0)"
proof (cases "lw_log w")
  case None
  then have f: "lw_finish Q j XCOM_ERR_NOT_OPEN w c = Some (w', c')"
    using assms by (simp add: lw_process_def run_job_def)
  have "settles None [drop (fj_offset j) (fj_data j)] (length (drop (fj_offset j) (fj_data j))) w c w' c'"
    using lw_finish_spec [OF f] settled_one [of "drop (fj_offset j) (fj_data j)" 0] assms(1)
    unfolding settles_def by (intro conjI exI [of _ "[]"]) auto
  then show ?thesis using None finish_frame(2) [OF f] by auto
next
  case (Some path)
  obtain st off w1 c1 where l: "append_loop Q path (fj_data j) (fj_offset j) False w c = Some (st, off, w1, c1)"
    and f: "lw_finish Q (j\<lparr>fj_offset := off\<rparr>) st w1 c1 = Some (w', c')"
    using assms Some by (auto simp: lw_process_def run_job_def split: option.splits prod.splits)
  have s: "wrote path (fj_data j) (fj_offset j) off w w1" "quiet_core c c1"
      "if st = XCOM_OK then length (fj_data j) \<le> off else off < length (fj_data j)"
    using append_loop_spec [OF l] by (auto simp: retry_post_def split: if_splits)
  have "settles (lw_log w) [drop (fj_offset j) (fj_data j)] (length (fj_data j) - off) w c w' c'"
    using settles_wrote [OF s(1), of w' c' c] lw_finish_spec [OF f] s assms(1) Some
    by (cases "st = XCOM_OK") (auto simp: quiet_core_def)
  moreover have "no_stop Q w \<Longrightarrow> length (fj_data j) - off = 0"
    using append_loop_no_stop [OF l] s(3) by simp
  ultimately show ?thesis using finish_frame(2) [OF f] s(2) by (auto simp: quiet_core_def)
qed

text \<open>The other jobs write nothing to the log, except that a close drains the raw lane first.\<close>

definition extends_trace :: "log_writer \<Rightarrow> log_writer \<Rightarrow> bool" where
  "extends_trace w w' \<longleftrightarrow> (\<exists>ops. lw_ops w' = lw_ops w @ ops)"

lemma extends_trace_simps [simp]:
  "extends_trace w w" "extends_trace w (lw_tick v) = extends_trace w v"
  "extends_trace w (v\<lparr>lw_stream := s\<rparr>) = extends_trace w v"
  by (simp_all add: extends_trace_def lw_tick_def)

lemma extends_trace_do: "extends_trace w v \<Longrightarrow> extends_trace w (lw_do x v)"
  by (auto simp: extends_trace_def lw_do_def)

lemma extends_trace_reset: "extends_trace w v \<Longrightarrow> extends_trace w (stream_reset v)"
  by (auto simp: stream_reset_def extends_trace_do split: option.split)

lemma write_all_save:
  assumes "write_all Q path data offset w c = (e, off, w', c')" "extends_trace v w"
  shows "extends_trace v w' \<and> quiet_core c c'"
proof -
  from write_all_spec [OF assms(1)] obtain chunks where "after_writes path chunks w w'" "quiet_core c c'"
    unfolding wrote_def by blast
  then show ?thesis using assms(2) by (auto simp: extends_trace_def dest: after_writes_fields(1))
qed

lemma save_job_frame:
  assumes "job_reports j" "run_job Q j w c = Some (st, off, w', c')"
  shows "extends_trace w w' \<and> quiet_core c c'"
proof -
  have at: "extends_trace w w' \<and> quiet_core c c'" if "process_atomic Q j w c = (st, off, w', c')"
    using that by (auto simp: process_atomic_def Let_def intro!: extends_trace_do
        split: option.splits prod.splits if_splits dest!: write_all_save [where v = w])
  have sa: "extends_trace w w' \<and> quiet_core c c'" if "process_stream_append Q j w c = (st, off, w', c')"
    using that by (auto simp: process_stream_append_def intro!: extends_trace_reset
        split: option.splits prod.splits if_splits dest!: write_all_save [where v = w])
  have st: "extends_trace w w'"
    if "process_stream_begin Q j w = (st, w') \<or> process_stream_commit Q j w = (st, w') \<or> process_stream_abort j w = (st, w')"
    using that by (auto simp: process_stream_begin_def process_stream_commit_def process_stream_abort_def Let_def
        intro!: extends_trace_do extends_trace_reset split: option.splits if_splits)
  show ?thesis
    using assms at sa st by (auto simp: run_job_def job_reports_def split: job_kind.splits prod.splits)
qed

lemma control_job_settles:
  assumes "file_os_ok Q" "\<not> job_reports j" "fj_kind j \<noteq> JkAppend" "lw_process Q j w c = Some (w', c')"
  shows "\<exists>r n. settles (lw_log w) r n w c w' c' \<and> raw_payloads (c_rx c) = r @ raw_payloads (c_rx c') \<and>
    (lw_log w \<noteq> None \<and> no_stop Q w \<longrightarrow> n = 0)"
proof -
  obtain st off w1 c1 where r: "run_job Q j w c = Some (st, off, w1, c1)"
    and f: "lw_finish Q (j\<lparr>fj_offset := off\<rparr>) st w1 c1 = Some (w', c')"
    using assms(4) by (auto simp: lw_process_def split: option.splits)
  have "\<exists>r n. settles (lw_log w) r n w c w1 c1 \<and> raw_payloads (c_rx c) = r @ raw_payloads (c_rx c1) \<and>
      (lw_log w \<noteq> None \<and> no_stop Q w \<longrightarrow> n = 0)"
  proof (cases "fj_kind j = JkClose")
    case True
    then obtain w2 c2 where d: "flush_rx_before_close Q (w\<lparr>lw_accepting := False\<rparr>) c = Some (w2, c2)"
      and e: "c1 = c2" "lw_ops w1 = lw_ops w2 \<or> (\<exists>p. lw_ops w1 = lw_ops w2 @ [OpFlush p])"
      using r by (auto simp: run_job_def process_close_def lw_do_def lw_tick_def split: option.splits if_splits)
    from e have q: "settles f [] 0 w2 c2 w1 c1" for f by (auto intro: settles_quiet)
    let ?w = "w\<lparr>lw_accepting := False\<rparr>"
    have acc: "settles f r n ?w c x y = settles f r n w c x y" "no_stop Q ?w = no_stop Q w" for f r n x and y :: "'a core_scheme"
      by (simp_all add: settles_def no_stop_def)
    show ?thesis
    proof (cases "lw_log w")
      case None
      then have "w2 = ?w" "c2 = c" using d by (simp_all add: flush_rx_before_close_def)
      then show ?thesis using q [of "lw_log w"] None e(1) by (intro exI [of _ "[]"] exI [of _ 0]) (simp add: acc)
    next
      case (Some p)
      then have "drain_rx (Suc kRxBlockCount) Q ?w c = Some (w2, c2)"
        using d by (simp add: flush_rx_before_close_def del: drain_rx.simps)
      from drain_rx_settles [OF assms(1) this] obtain a n where
        "settles (lw_log w) a n w c w2 c2" "raw_payloads (c_rx c) = a @ raw_payloads (c_rx c2)"
        "lw_log w \<noteq> None \<and> no_stop Q w \<longrightarrow> n = 0" by (auto simp: acc)
      then show ?thesis using settles_trans [OF _ q, of "lw_log w" a n w c] e(1) by (intro exI [of _ a] exI [of _ n]) simp
    qed
  next
    case False
    then have "c1 = c" "\<exists>ops. lw_ops w1 = lw_ops w @ ops \<and> (\<forall>p bs. OpWrite p bs \<notin> set ops)"
      using assms(2,3) r by (auto simp: run_job_def job_reports_def process_open_def lw_do_def lw_tick_def Let_def
          split: job_kind.splits option.splits if_splits)
    then show ?thesis by (intro exI [of _ "[]"] exI [of _ 0]) (auto intro: settles_quiet)
  qed
  moreover have "settles g [] 0 w1 c1 w' c'" for g
    using lw_finish_spec [OF f] assms(3) by (auto intro: settles_quiet [of _ _ "[]"])
  ultimately show ?thesis
    using settles_trans [of "lw_log w" _ _ w c w1 c1 "[]" 0 w' c'] finish_frame(2) [OF f] by fastforce
qed

section \<open>Whole passes\<close>

lemma log_appends_pop:
  "lw_jobs w = j # q \<Longrightarrow> log_appends w = (if fj_kind j = JkAppend then [drop (fj_offset j) (fj_data j)] else []) @
     log_appends (w\<lparr>lw_jobs := q\<rparr>)"
  by (simp add: log_appends_def)

lemma cancel_pending_settles:
  assumes "file_os_ok Q" "cancel_pending k Q w c = Some (w', c')"
  shows "\<exists>a n. settles f a n w c w' c' \<and> log_appends w = a @ log_appends w' \<and> c_rx c' = c_rx c \<and> lw_log w' = lw_log w"
  using assms(2)
proof (induction k arbitrary: w c)
  case 0
  then show ?case by (intro exI [of _ "[]"] exI [of _ 0]) (auto intro: settles_quiet [of _ _ "[]"])
next
  case (Suc k)
  show ?case
  proof (cases "lw_jobs w")
    case Nil
    then show ?thesis using Suc.prems
      by (intro exI [of _ "[]"] exI [of _ 0]) (auto simp: file_os_rings(3) [OF assms(1)] intro: settles_quiet [of _ _ "[]"])
  next
    case (Cons j q)
    let ?w = "w\<lparr>lw_jobs := q\<rparr>" and ?a = "if fj_kind j = JkAppend then [drop (fj_offset j) (fj_data j)] else []"
    obtain w1 c1 where p: "lw_finish Q j XCOM_ERR_TIMEOUT ?w c = Some (w1, c1)" "cancel_pending k Q w1 c1 = Some (w', c')"
      using Suc.prems Cons by (auto simp: file_os_rings(3) [OF assms(1)] split: option.splits)
    have "\<exists>n. settles f ?a n w c w1 c1"
      using lw_finish_spec [OF p(1)] settled_one [of "drop (fj_offset j) (fj_data j)" 0] settled_Nil
      unfolding settles_def by (auto intro!: exI [of _ "[]"])
    then obtain n where n: "settles f ?a n w c w1 c1" by blast
    from Suc.IH [OF p(2)] obtain b m where m: "settles f b m w1 c1 w' c'" "log_appends w1 = b @ log_appends w'"
      "c_rx c' = c_rx c1" "lw_log w' = lw_log w1" by blast
    have "log_appends w1 = log_appends ?w" using finish_frame(1) [OF p(1)] by (simp add: log_appends_def)
    then show ?thesis
      using settles_trans [OF n m(1)] m log_appends_pop [OF Cons] finish_frame [OF p(1)]
      by (intro exI [of _ "?a @ b"] exI [of _ "n + m"]) simp
  qed
qed

text \<open>A pass over a save: an atomic write or a part of a stream, which works on its own temporary file.\<close>

definition saves :: "log_writer \<Rightarrow> bool" where
  "saves w \<longleftrightarrow> \<not> lw_stopping w \<and> (case lw_jobs w of [] \<Rightarrow> False | j # q \<Rightarrow> job_reports j)"

lemma beat_frame [simp]:
  "settles f a n w (lw_beat Q v c) w' c' = settles f a n w c w' c'" "c_rx (lw_beat Q v c) = c_rx c"
  by (simp_all add: settles_def lw_beat_def)

text \<open>What a pass over anything but a save does.\<close>

definition pass_settles :: "file_os \<Rightarrow> log_writer \<Rightarrow> 'x core_scheme \<Rightarrow> log_writer \<Rightarrow> 'x core_scheme \<Rightarrow> bool" where
  "pass_settles Q w c w' c' \<longleftrightarrow>
     (\<exists>a r n. settles (lw_log w) (a @ r) n w c w' c' \<and> log_appends w = a @ log_appends w' \<and>
        raw_payloads (c_rx c) = r @ raw_payloads (c_rx c') \<and> (lw_log w \<noteq> None \<and> no_stop Q w \<longrightarrow> n = 0))"

lemma stopping_pass_settles:
  assumes "file_os_ok Q" "worker_pass Q w c = Some (t, w', c')" "lw_stopping w"
  shows "pass_settles Q w c w' c'"
proof -
  obtain w1 c1 w2 c2 where p: "cancel_pending (Suc kFileJobCapacity) Q w (lw_beat Q w c) = Some (w1, c1)"
      "drain_rx (Suc kRxBlockCount) Q w1 c1 = Some (w2, c2)"
    and e: "w' = stream_reset (w2\<lparr>lw_log := None\<rparr>)" "c' = lw_set_running False c2"
    using assms(2,3)
    by (auto simp: worker_pass_def cancel_pending_rx_def simp del: cancel_pending.simps drain_rx.simps split: bind_splits)
  from cancel_pending_settles [OF assms(1) p(1), of "lw_log w"] obtain a n where
    n: "settles (lw_log w) a n w c w1 c1" "log_appends w = a @ log_appends w1" "c_rx c1 = c_rx c" "lw_log w1 = lw_log w" by auto
  from drain_rx_settles [OF assms(1) p(2)] n obtain r m where
    m: "settles (lw_log w) r m w1 c1 w2 c2" "raw_payloads (c_rx c) = r @ raw_payloads (c_rx c2)" "same_queues w1 w2" by auto
  have "settles (lw_log w) [] 0 w2 c2 w' c'"
    using e by (cases "lw_stream w2") (auto simp: stream_reset_def lw_do_def lw_set_running_def intro!: settles_quiet)
  from settles_trans [OF settles_trans [OF n(1) m(1)] this]
  have "settles (lw_log w) (a @ r) (n + m) w c w' c'" by simp
  moreover have "log_appends w' = log_appends w1" "c_rx c' = c_rx c2"
    using e m(3) by (simp_all add: log_appends_def same_queues_def stream_reset_def lw_do_def lw_set_running_def split: option.split)
  ultimately show ?thesis
    using n(2) m(2) assms(3) unfolding pass_settles_def
    by (intro exI [of _ a] exI [of _ r] exI [of _ "n + m"]) (simp add: no_stop_def)
qed

lemma block_pass_settles:
  assumes "file_os_ok Q" "worker_pass Q w c = Some (t, w', c')" "\<not> lw_stopping w" "lw_jobs w = []"
  shows "pass_settles Q w c w' c'"
proof (cases "rl_raw_ready (c_rx c)")
  case Nil
  then have "w' = w" "c' = lw_set_parked False (lw_set_parked True (lw_beat Q w c))"
    using assms by (auto simp: worker_pass_def file_os_rings(3) rx_pop_cases Let_def)
  then show ?thesis
    using settles_quiet [of w w "[]" c' c "lw_log w"] unfolding pass_settles_def
    by (intro exI [of _ "[]"] exI [of _ "0 :: nat"]) (simp add: lw_set_parked_def lw_beat_def)
next
  case (Cons ref rest)
  let ?c = "lw_beat Q w c"
  have p: "process_rx_ref Q ref w (?c\<lparr>c_rx := (c_rx ?c)\<lparr>rl_raw_ready := rest\<rparr>\<rparr>) = Some (w', c')"
    using assms Cons by (auto simp: worker_pass_def file_os_rings(3) rx_pop_cases Let_def)
  from popped_ref_settles [OF _ p] Cons obtain n where
    "settles (lw_log w) [raw_payload (c_rx c) ref] n w c w' c'"
    "raw_payloads (c_rx c) = raw_payload (c_rx c) ref # raw_payloads (c_rx c')"
    "lw_log w \<noteq> None \<and> no_stop Q w \<longrightarrow> n = 0" by auto
  then show ?thesis
    using process_rx_ref_queues [OF p] unfolding pass_settles_def
    by (intro exI [of _ "[]"] exI [of _ "[raw_payload (c_rx c) ref]"] exI [of _ n]) (simp add: log_appends_def same_queues_def)
qed

text \<open>The pass over a job: the queue behind it stays, and the job is one of the three kinds.\<close>

lemma job_pass:
  assumes "file_os_ok Q" "worker_pass Q w c = Some (t, w', c')" "\<not> lw_stopping w" "lw_jobs w = j # q"
  obtains st off w1 c1 where "lw_process Q j (w\<lparr>lw_jobs := q\<rparr>) (lw_beat Q w c) = Some (w', c')"
    "run_job Q j (w\<lparr>lw_jobs := q\<rparr>) (lw_beat Q w c) = Some (st, off, w1, c1)"
    "lw_finish Q (j\<lparr>fj_offset := off\<rparr>) st w1 c1 = Some (w', c')"
    "log_appends w = (if fj_kind j = JkAppend then [drop (fj_offset j) (fj_data j)] else []) @ log_appends w'"
proof -
  let ?w = "w\<lparr>lw_jobs := q\<rparr>" and ?c = "lw_beat Q w c"
  have p: "lw_process Q j ?w ?c = Some (w', c')"
    using assms by (auto simp: worker_pass_def file_os_rings(3) Let_def)
  obtain st off w1 c1 where r: "run_job Q j ?w ?c = Some (st, off, w1, c1)"
    and f: "lw_finish Q (j\<lparr>fj_offset := off\<rparr>) st w1 c1 = Some (w', c')"
    using p by (auto simp: lw_process_def split: option.splits)
  have "lw_jobs w' = q"
    using run_job_queues [OF r] finish_frame(1) [OF f] by (simp add: same_queues_def)
  then show ?thesis using that [OF p r f] log_appends_pop [OF assms(4)] by (simp add: log_appends_def)
qed

lemma job_pass_settles:
  assumes "file_os_ok Q" "worker_pass Q w c = Some (t, w', c')" "\<not> lw_stopping w" "lw_jobs w = j # q" "\<not> job_reports j"
  shows "pass_settles Q w c w' c'"
proof -
  have frame: "no_stop Q (w\<lparr>lw_jobs := q\<rparr>) = no_stop Q w"
      "settles g a n (w\<lparr>lw_jobs := q\<rparr>) c w' c' = settles g a n w c w' c'" for g a n
    by (simp_all add: no_stop_def settles_def)
  obtain st off w1 c1 where p: "lw_process Q j (w\<lparr>lw_jobs := q\<rparr>) (lw_beat Q w c) = Some (w', c')"
    and app: "log_appends w = (if fj_kind j = JkAppend then [drop (fj_offset j) (fj_data j)] else []) @ log_appends w'"
    using job_pass [OF assms(1-4)] by metis
  show ?thesis
  proof (cases "fj_kind j = JkAppend")
    case True
    from append_job_settles [OF True p] obtain n where
      "settles (lw_log w) [drop (fj_offset j) (fj_data j)] n w c w' c'" "c_rx c' = c_rx c"
      "lw_log w \<noteq> None \<and> no_stop Q w \<longrightarrow> n = 0" by (auto simp: frame)
    then show ?thesis
      using app True unfolding pass_settles_def
      by (intro exI [of _ "[drop (fj_offset j) (fj_data j)]"] exI [of _ "[]"] exI [of _ n]) simp
  next
    case False
    from control_job_settles [OF assms(1,5) False p] obtain r n where
      "settles (lw_log w) r n w c w' c'" "raw_payloads (c_rx c) = r @ raw_payloads (c_rx c')"
      "lw_log w \<noteq> None \<and> no_stop Q w \<longrightarrow> n = 0" by (auto simp: frame)
    then show ?thesis
      using app False unfolding pass_settles_def
      by (intro exI [of _ "[]"] exI [of _ r] exI [of _ n]) simp
  qed
qed

lemma save_pass_frame:
  assumes "file_os_ok Q" "worker_pass Q w c = Some (t, w', c')" "saves w"
  shows "log_appends w' = log_appends w \<and> c_rx c' = c_rx c \<and> extends_trace w w' \<and>
    m_save_rejected_bytes (c_metrics c') = m_save_rejected_bytes (c_metrics c)"
proof -
  obtain j q where j: "\<not> lw_stopping w" "lw_jobs w = j # q" "job_reports j"
    using assms(3) by (auto simp: saves_def split: list.splits)
  then have k: "fj_kind j \<noteq> JkAppend" by (auto simp: job_reports_def)
  obtain st off w1 c1 where "lw_process Q j (w\<lparr>lw_jobs := q\<rparr>) (lw_beat Q w c) = Some (w', c')"
    and r: "run_job Q j (w\<lparr>lw_jobs := q\<rparr>) (lw_beat Q w c) = Some (st, off, w1, c1)"
    and f: "lw_finish Q (j\<lparr>fj_offset := off\<rparr>) st w1 c1 = Some (w', c')"
    and app: "log_appends w = (if fj_kind j = JkAppend then [drop (fj_offset j) (fj_data j)] else []) @ log_appends w'"
    by (rule job_pass [OF assms(1,2) j(1,2)])
  have "extends_trace w w1" "quiet_core c c1"
    using save_job_frame [OF j(3) r] by (simp_all add: extends_trace_def)
  then have "lw_ops w' = lw_ops w1" "c_metrics c1 = c_metrics c" "c_rx c1 = c_rx c"
    "m_save_rejected_bytes (c_metrics c') = m_save_rejected_bytes (c_metrics c1)"
    using lw_finish_spec [OF f] k by (simp_all add: quiet_core_def)
  with app k finish_frame(2) [OF f] \<open>extends_trace w w1\<close> show ?thesis by (simp add: extends_trace_def)
qed

text \<open>
  C6 (log_bytes_written_or_charged). One whole pass of the file worker, over whatever is at the head of its
  queues or over everything at a stop, accounts for every log byte it takes: the payloads of the
  queued append jobs (from their offset) and of the queued raw receive blocks leave the fronts of
  their queues; of each of them the pass writes a prefix to the log file that was open, in order and
  without a gap, and adds exactly the length of the rest to the rejected-save counter. It writes to no
  other file, unless the pass executes a save, which takes no log byte and charges none. Nothing at all
  is charged while a log file is open and no stop is requested.
\<close>

theorem log_bytes_written_or_charged:
  assumes "file_os_ok Q" "worker_pass Q w c = Some (t, w', c')"
  shows "\<exists>a r ops n. log_appends w = a @ log_appends w' \<and> raw_payloads (c_rx c) = r @ raw_payloads (c_rx c') \<and>
    lw_ops w' = lw_ops w @ ops \<and>
    m_save_rejected_bytes (c_metrics c') = m_save_rejected_bytes (c_metrics c) + of_nat n \<and>
    (if saves w then a = [] \<and> r = [] \<and> n = 0
     else settled (a @ r) (log_writes ops) n \<and> (\<forall>p bs. OpWrite p bs \<in> set ops \<longrightarrow> lw_log w = Some p)) \<and>
    (lw_log w \<noteq> None \<and> no_stop Q w \<longrightarrow> n = 0)"
proof (cases "saves w")
  case True
  obtain ops where "lw_ops w' = lw_ops w @ ops"
    using save_pass_frame [OF assms True] unfolding extends_trace_def by blast
  then show ?thesis
    using save_pass_frame [OF assms True] True
    by (intro exI [of _ "[]"] exI [of _ ops] exI [of _ "0 :: nat"]) (simp add: raw_payloads_def)
next
  case False
  have "pass_settles Q w c w' c'"
    using False stopping_pass_settles [OF assms] block_pass_settles [OF assms] job_pass_settles [OF assms]
    by (cases "lw_stopping w"; cases "lw_jobs w") (auto simp: saves_def)
  then show ?thesis
    using False unfolding pass_settles_def settles_def by auto
qed

text \<open>A pass over an append of three bytes with two bytes of progress per call, and the same append with no file open.\<close>

definition demo_appending :: log_writer where
  "demo_appending = log_writer_init\<lparr>lw_present := True, lw_running := True, lw_log := Some ''log'',
     lw_accepting := True, lw_jobs := [(plain_job JkAppend)\<lparr>fj_data := [1, 2, 3]\<rparr>]\<rparr>"

definition calm_os :: file_os where
  "calm_os = demo_os\<lparr>os_stopping := \<lambda>_. False\<rparr>"

lemma demo_pass:
  "\<exists>w' c'. worker_pass calm_os demo_appending core_init = Some (TurnWorked, w', c') \<and> lw_jobs w' = [] \<and> c_rx c' = rx_lane_init"
  by (simp add: worker_pass_def lw_process_def run_job_def plain_job_def demo_appending_def append_loop.simps write_all.simps
      calm_os_def demo_os_def log_writer_init_def lw_do_def lw_beat_def lw_finish_def job_reports_def complete_sync_def
      lw_release_block_def core_init_def Let_def)

lemma demo_pass_no_file:
  "\<exists>w' c'. worker_pass calm_os (demo_appending\<lparr>lw_log := None\<rparr>) core_init = Some (TurnWorked, w', c') \<and> lw_jobs w' = []"
  by (simp add: worker_pass_def lw_process_def run_job_def plain_job_def demo_appending_def
      calm_os_def demo_os_def log_writer_init_def lw_finish_def job_reports_def complete_sync_def
      lw_release_block_def Let_def)

theorem log_bytes_written_or_charged_witness:
  "(\<exists>w' c'. worker_pass calm_os demo_appending core_init = Some (TurnWorked, w', c') \<and> log_writes (lw_ops w') = [1, 2, 3]) \<and>
   (\<exists>w' c'. worker_pass calm_os (demo_appending\<lparr>lw_log := None\<rparr>) core_init = Some (TurnWorked, w', c') \<and>
      log_writes (lw_ops w') = [] \<and> m_save_rejected_bytes (c_metrics c') = 3)"
proof
  have ok: "file_os_ok calm_os" using demo_os_ok by (simp add: calm_os_def file_os_ok_def)
  have facts: "m_save_rejected_bytes (c_metrics core_init) = 0" "\<And>f. lw_ops (demo_appending\<lparr>lw_log := f\<rparr>) = []"
    "\<And>f. log_appends (demo_appending\<lparr>lw_log := f\<rparr>) = [[1, 2, 3]]" "raw_payloads (c_rx core_init) = []"
    "\<And>f. \<not> saves (demo_appending\<lparr>lw_log := f\<rparr>)" "no_stop calm_os demo_appending" "lw_log demo_appending = Some ''log''"
    by (simp_all add: core_init_def metrics_zero_def demo_appending_def log_writer_init_def log_appends_def plain_job_def
        raw_payloads_def rx_lane_init_def saves_def job_reports_def no_stop_def calm_os_def)
  have same: "demo_appending\<lparr>lw_log := Some ''log''\<rparr> = demo_appending" by (simp add: demo_appending_def)
  have left: "log_appends w = []" if "lw_jobs w = []" for w using that by (simp add: log_appends_def)
  obtain w' c' where p: "worker_pass calm_os demo_appending core_init = Some (TurnWorked, w', c')" "lw_jobs w' = []"
    using demo_pass by blast
  from log_bytes_written_or_charged [OF ok p(1)] left [OF p(2)] facts(4,6,7)
    facts(2,3,5) [of "Some ''log''", unfolded same]
  have "settled [[1, 2, 3]] (log_writes (lw_ops w')) 0" by auto
  then show "\<exists>w' c'. worker_pass calm_os demo_appending core_init = Some (TurnWorked, w', c') \<and>
      log_writes (lw_ops w') = [1, 2, 3]"
    using p(1) by (auto simp: settled_def length_Suc_conv)
  let ?w = "demo_appending\<lparr>lw_log := None\<rparr>"
  obtain v d where q: "worker_pass calm_os ?w core_init = Some (TurnWorked, v, d)" "lw_jobs v = []"
    using demo_pass_no_file by blast
  from log_bytes_written_or_charged [OF ok q(1)] facts left [OF q(2)]
  obtain n where n: "settled [[1, 2, 3]] (log_writes (lw_ops v)) n" "\<forall>p bs. OpWrite p bs \<notin> set (lw_ops v)"
    "m_save_rejected_bytes (c_metrics d) = of_nat n" by auto
  have "log_writes ops = []" if "\<forall>p bs. OpWrite p bs \<notin> set ops" for ops
    using that by (induction ops rule: log_writes.induct) auto
  with n have "n = 3" "log_writes (lw_ops v) = []" by (auto simp: settled_def length_Suc_conv)
  then show "\<exists>w' c'. worker_pass calm_os ?w core_init = Some (TurnWorked, w', c') \<and>
      log_writes (lw_ops w') = [] \<and> m_save_rejected_bytes (c_metrics c') = 3"
    using q(1) n(3) by auto
qed

end
