(* ===== verification/File_Lane.thy ===== *)
theory File_Lane
  imports Log_Account Rx_Ingress
begin

text \<open>
  The file lane from end to end: what the reader hands to the ingress while a log is open arrives, in
  order and complete, behind what is queued for the file worker, whatever the other threads do to the
  context while the reader sleeps. The worker's own passes are shown to be among those.
\<close>

section \<open>What the other threads may do\<close>

text \<open>
  They keep the references balanced, and they take payloads only from the front of the raw lane. They
  may do what they like to every counter: the worker charges the losses it finds while the reader
  waits for it.
\<close>

definition reader_rely :: "('x core_scheme \<Rightarrow> 'x core_scheme) \<Rightarrow> bool" where
  "reader_rely w \<longleftrightarrow> lane_kept w \<and> (\<forall>c. \<exists>k. raw_payloads (c_rx (w c)) = drop k (raw_payloads (c_rx c)))"

definition lane_fed :: "rx_lane \<Rightarrow> u8 list \<Rightarrow> rx_lane \<Rightarrow> u8 list \<Rightarrow> bool" where
  "lane_fed l p l' rest \<longleftrightarrow>
     (\<exists>k chunks. p = concat chunks @ rest \<and> raw_payloads l' = drop k (raw_payloads l @ chunks))"

lemma drop_twice: "\<exists>k. drop m (drop n xs @ ys) = drop k (xs @ ys)"
  by (intro exI [of _ "m + min n (length xs)"]) (auto simp: min_def add.commute)

lemma lane_fed_refl: "lane_fed l p l p"
  unfolding lane_fed_def by (intro exI [of _ 0] exI [of _ "[]"]) simp

lemma lane_fed_consumed:
  assumes "raw_payloads l1 = drop n (raw_payloads l)" "lane_fed l1 p l' rest"
  shows "lane_fed l p l' rest"
proof -
  obtain k chunks where "p = concat chunks @ rest" "raw_payloads l' = drop k (raw_payloads l1 @ chunks)"
    using assms(2) unfolding lane_fed_def by blast
  then show ?thesis using assms(1) drop_twice [of k n "raw_payloads l" chunks] unfolding lane_fed_def by metis
qed

lemma lane_fed_chunk:
  assumes "raw_payloads l1 = drop n (raw_payloads l @ [data])" "lane_fed l1 p l' rest"
  shows "lane_fed l (data @ p) l' rest"
proof -
  obtain k chunks where k: "p = concat chunks @ rest" "raw_payloads l' = drop k (raw_payloads l1 @ chunks)"
    using assms(2) unfolding lane_fed_def by blast
  obtain m where "raw_payloads l' = drop m ((raw_payloads l @ [data]) @ chunks)"
    using k(2) assms(1) drop_twice [of k n "raw_payloads l @ [data]" chunks] by metis
  then show ?thesis using k(1) unfolding lane_fed_def by (intro exI [of _ m] exI [of _ "data # chunks"]) simp
qed

text \<open>One segment: its block was free, so no queued payload changes.\<close>

lemma publish_feeds:
  assumes "rx_env_ok E" "rl_inv held l" "rx_try_alloc E True l = Some (b, d, l1)" "rr_event ref = b"
    "unat (rr_len ref) = length data"
    "rx_publish E ref True d (rx_copy_in b data l1) = Some (shown, l2)"
  shows "raw_payloads l2 = raw_payloads l @ [data]"
proof -
  note a = rx_try_alloc_spec [OF assms(1-3)]
  let ?l = "rx_copy_in b data l1"
  have inv: "rl_inv (held(b := 1)) ?l" and ring: "rl_raw_ready ?l = rl_raw_ready l" "rl_display_ready ?l = rl_display_ready l"
    using a(5,6) by (auto simp: rx_copy_in_def rl_inv_def)
  have pay: "rl_payload ?l = (rl_payload l)[b := overwrite (rl_payload l ! b) data]"
    using a(6) by (simp add: rx_copy_in_def)
  obtain l3 where "rx_publish E ref True d ?l = Some (d, l3)" "rl_payload l3 = rl_payload ?l"
    "rl_raw_ready l3 = rl_raw_ready ?l @ [ref]"
    using rx_publish_spec [OF assms(1) inv, of b ref True d] a(1-4) assms(4) ring by auto
  then have p: "rl_payload l2 = rl_payload ?l" "rl_raw_ready l2 = rl_raw_ready l @ [ref]"
    using assms(6) ring by simp_all
  have "raw_payload l2 r = raw_payload l r" if "r \<in> set (rl_raw_ready l)" for r
  proof -
    have "rr_event r \<noteq> b" using that a(3) by (auto simp: ring_refs_zero)
    then show ?thesis using p(1) pay by (simp add: raw_payload_def)
  qed
  moreover have "raw_payload l2 ref = data"
    using a(1) p(1) pay assms(2,4,5) by (simp add: raw_payload_def rl_inv_def)
  ultimately show ?thesis using p(2) by (simp add: raw_payloads_def)
qed

section \<open>The segment loop\<close>

lemma file_lane_loop:
  "rx_env_ok (ie_rx I) \<Longrightarrow> reader_rely (ie_wake_rx I) \<Longrightarrow> file_lane \<Longrightarrow> \<forall>w \<in> set wakes. reader_rely w \<Longrightarrow>
   rl_inv held (c_rx c) \<Longrightarrow>
   case rx_ingress_loop I file_lane wakes p backlog unowned episode c of
      InAssert \<Rightarrow> False
    | InBlocked c' \<Rightarrow> True
    | InDone c' rest backlog' unowned' episode' \<Rightarrow>
        lane_fed (c_rx c) p (c_rx c') rest \<and> unowned' = unowned + of_nat (length rest) \<and>
        (rest \<noteq> [] \<longrightarrow> \<not> c_callback_admission c' \<or> c_port_state c' \<noteq> PORT_OPEN)"
proof (induction I file_lane wakes p backlog unowned episode c rule: rx_ingress_loop.induct)
  case (1 I file_lane wakes p backlog unowned episode c)
  note E = \<open>rx_env_ok (ie_rx I)\<close> and wk = \<open>reader_rely (ie_wake_rx I)\<close> and fl = \<open>file_lane\<close>
    and ws = \<open>\<forall>w \<in> set wakes. reader_rely w\<close> and inv = \<open>rl_inv held (c_rx c)\<close>
  show ?case
  proof (cases "p = []")
    case True
    then show ?thesis using lane_fed_refl [of "c_rx c" "[]"] by (simp add: rx_ingress_loop.simps)
  next
    case ne: False
    show ?thesis
    proof (cases "rx_try_alloc (ie_rx I) file_lane (c_rx c)")
      case None
      define c1 where "c1 = (if \<not> episode then rx_note_stall c else c)"
      have rx1: "c_rx c1 = c_rx c" by (simp add: c1_def)
      consider "\<not> (c_callback_admission c1 \<and> c_port_state c1 = PORT_OPEN)"
        | "c_callback_admission c1 \<and> c_port_state c1 = PORT_OPEN" "wakes = []"
        | w v where "c_callback_admission c1 \<and> c_port_state c1 = PORT_OPEN" "wakes = w # v"
        by (cases wakes) auto
      then show ?thesis
      proof cases
        case 1
        then show ?thesis
          using ne None fl rx1 lane_fed_refl [of "c_rx c" p] by (subst rx_ingress_loop.simps) (simp add: Let_def flip: c1_def)
      next
        case 2
        then show ?thesis using ne None fl by (subst rx_ingress_loop.simps) (simp add: Let_def flip: c1_def)
      next
        case 3
        have w: "reader_rely w" "\<forall>w \<in> set v. reader_rely w" using ws 3(2) by auto
        have "rl_inv held (c_rx (w c1))"
          using w(1) inv rx1 by (simp add: reader_rely_def lane_kept_def)
        note IH = 1(1) [OF ne None fl c1_def _ 3(2) E wk fl w(2) this]
        obtain k where k: "raw_payloads (c_rx (w c1)) = drop k (raw_payloads (c_rx c))"
          using w(1) rx1 unfolding reader_rely_def by metis
        have eq: "rx_ingress_loop I file_lane wakes p backlog unowned episode c =
            rx_ingress_loop I file_lane v p backlog unowned True (w c1)"
          using ne None fl 3 by (subst rx_ingress_loop.simps) (simp add: Let_def flip: c1_def)
        show ?thesis
          unfolding eq using IH 3(1) lane_fed_consumed [OF k] by (auto split: ingress_end.splits)
      qed
    next
      case (Some a)
      then obtain ev display_ok l1 where a: "rx_try_alloc (ie_rx I) file_lane (c_rx c) = Some (ev, display_ok, l1)"
        by (metis prod_cases3)
      define n where "n = (if length p > kRxBlockBytes then kRxBlockBytes else length p)"
      let ?ref = "rx_segment_ref (ie_now_ms I) ev n c"
      have ref: "rr_event ?ref = ev" "unat (rr_len ?ref) = length (take n p)"
        by (simp_all add: rx_segment_ref_def n_def unat_of_nat)
      from rx_claim_publish [OF E inv a ref(1), of "take n p"]
      obtain l2 where pub: "rx_publish (ie_rx I) ?ref file_lane display_ok (rx_copy_in ev (take n p) l1) = Some (display_ok, l2)"
        and inv2: "rl_inv held l2" by blast
      have fed: "raw_payloads l2 = raw_payloads (c_rx c) @ [take n p]"
        using publish_feeds [OF E inv _ ref] a pub fl by simp
      define c1 where "c1 = on_metrics (\<lambda>m. m\<lparr>m_rx_seq := m_rx_seq m + 1\<rparr>) c"
      define c3 where "c3 = (if file_lane then ie_wake_rx I (c1\<lparr>c_rx := l2\<rparr>) else c1\<lparr>c_rx := l2\<rparr>)"
      define c4 where "c4 = on_metrics (\<lambda>m. m\<lparr>m_rx_bytes := m_rx_bytes m + of_nat n\<rparr>) c3"
      have inv4: "rl_inv held (c_rx c4)"
        using wk inv2 fl by (simp add: c4_def c3_def reader_rely_def lane_kept_def)
      obtain k where k: "raw_payloads (c_rx c4) = drop k (raw_payloads (c_rx c) @ [take n p])"
      proof -
        obtain k where "raw_payloads (c_rx (ie_wake_rx I (c1\<lparr>c_rx := l2\<rparr>))) = drop k (raw_payloads (c_rx (c1\<lparr>c_rx := l2\<rparr>)))"
          using wk unfolding reader_rely_def by metis
        then show ?thesis using that fed fl by (simp add: c4_def c3_def)
      qed
      have eq: "rx_ingress_loop I file_lane wakes p backlog unowned episode c =
          rx_ingress_loop I file_lane wakes (drop n p)
            (if display_ok then backlog else backlog + of_nat n) unowned episode c4"
        using ne a pub unfolding n_def c4_def c3_def c1_def
        by (subst rx_ingress_loop.simps) (simp add: Let_def del: on_metrics_def kRxBlockBytes_def)
      note IH = 1(2) [OF ne a refl refl n_def c1_def pub refl refl c3_def c4_def E wk fl ws inv4]
      show ?thesis
        unfolding eq using IH lane_fed_chunk [OF k, of "drop n p"]
        by (cases "rx_ingress_loop I file_lane wakes (drop n p)
            (if display_ok then backlog else backlog + of_nat n) unowned episode c4") simp_all
    qed
  qed
qed

section \<open>The worker is one of the other threads\<close>

lemma process_rx_ref_lane:
  assumes "file_os_ok Q" "rl_inv held (c_rx c)" "rl_raw_ready (c_rx c) = ref # rest"
    "process_rx_ref Q ref w (c\<lparr>c_rx := (c_rx c)\<lparr>rl_raw_ready := rest\<rparr>\<rparr>) = Some (w', c')"
  shows "rl_inv held (c_rx c')"
proof -
  have E: "rx_env_ok (os_rx Q)" using assms(1) by (simp add: file_os_ok_def)
  let ?h = "held(rr_event ref := held (rr_event ref) + 1)" and ?l = "(c_rx c)\<lparr>rl_raw_ready := rest\<rparr>"
  have "rx_pop_raw (os_rx Q) (c_rx c) = Some (ref, ?l)"
    using assms(3) by (simp add: rx_pop_cases [OF assms(1)])
  note pop = rx_pop_raw_spec [OF E assms(2) this]
  have "rl_inv (?h(rr_event ref := ?h (rr_event ref) - 1)) (rx_release (os_rx Q) (rr_event ref) ?l)"
    by (rule rx_release_spec [OF E pop(1) _ pop(3)]) simp
  moreover have "?h(rr_event ref := ?h (rr_event ref) - 1) = held" by auto
  ultimately show ?thesis using rx_ref_lane [OF assms(4)] by simp
qed

lemma drain_rx_inv:
  assumes "file_os_ok Q" "rl_inv held (c_rx c)" "drain_rx n Q w c = Some (w', c')"
  shows "rl_inv held (c_rx c')"
  using assms(2,3)
proof (induction n arbitrary: w c)
  case (Suc n)
  show ?case
  proof (cases "rl_raw_ready (c_rx c)")
    case (Cons ref rest)
    then obtain w1 c1 where p: "process_rx_ref Q ref w (c\<lparr>c_rx := (c_rx c)\<lparr>rl_raw_ready := rest\<rparr>\<rparr>) = Some (w1, c1)"
        "drain_rx n Q w1 c1 = Some (w', c')"
      using Suc.prems(2) by (auto simp: rx_pop_cases [OF assms(1)] split: option.splits)
    show ?thesis using Suc.IH [OF process_rx_ref_lane [OF assms(1) Suc.prems(1) Cons p(1)] p(2)] .
  qed (use Suc.prems in \<open>simp add: rx_pop_cases [OF assms(1)]\<close>)
qed simp

lemma run_job_lane:
  assumes "file_os_ok Q" "rl_inv held (c_rx c)" "run_job Q j w c = Some (st, off, w', c')"
  shows "rl_inv held (c_rx c')"
proof (cases "job_reports j")
  case True
  then show ?thesis using save_job_frame [OF True assms(3)] assms(2) by (simp add: quiet_core_def)
next
  case False
  have ap: "c_rx c1 = c_rx c" if "append_loop Q path data o' b w c = Some (e, off, w1, c1)" for path data o' b e off w1 c1
    using append_loop_spec [OF that] by (simp add: retry_post_def quiet_core_def)
  have fl: "rl_inv held (c_rx c1)" if "flush_rx_before_close Q x c = Some (w1, c1)" for x w1 c1
    using that drain_rx_inv [OF assms(1,2)] assms(2) by (auto simp: flush_rx_before_close_def simp del: drain_rx.simps split: if_splits)
  show ?thesis
    using False assms(2,3) ap fl
    by (auto simp: run_job_def job_reports_def process_close_def process_open_def Let_def
        split: job_kind.splits option.splits prod.splits if_splits)
qed

lemma worker_pass_lane:
  assumes "file_os_ok Q" "rl_inv held (c_rx c)" "worker_pass Q w c = Some (t, w', c')"
  shows "rl_inv held (c_rx c')"
proof (cases "lw_stopping w")
  case True
  obtain w1 c1 w2 c2 where p: "cancel_pending (Suc kFileJobCapacity) Q w (lw_beat Q w c) = Some (w1, c1)"
      "drain_rx (Suc kRxBlockCount) Q w1 c1 = Some (w2, c2)" and e: "c' = lw_set_running False c2"
    using assms(3) True
    by (auto simp: worker_pass_def cancel_pending_rx_def simp del: cancel_pending.simps drain_rx.simps split: bind_splits)
  have "c_rx c1 = c_rx c" using cancel_pending_settles [OF assms(1) p(1)] by auto
  then show ?thesis using drain_rx_inv [OF assms(1) _ p(2), of held] assms(2) e by (simp add: lw_set_running_def)
next
  case False
  show ?thesis
  proof (cases "lw_jobs w")
    case (Cons j q)
    obtain st off w1 c1 where r: "run_job Q j (w\<lparr>lw_jobs := q\<rparr>) (lw_beat Q w c) = Some (st, off, w1, c1)"
      and f: "lw_finish Q (j\<lparr>fj_offset := off\<rparr>) st w1 c1 = Some (w', c')"
      by (rule job_pass [OF assms(1,3) False Cons])
    have "rl_inv held (c_rx (lw_beat Q w c))" using assms(2) by simp
    from run_job_lane [OF assms(1) this r] show ?thesis using finish_frame(2) [OF f] by simp
  next
    case Nil
    let ?c = "lw_beat Q w c"
    show ?thesis
    proof (cases "rl_raw_ready (c_rx ?c)")
      case raw: Nil
      then show ?thesis using assms False Nil
        by (auto simp: worker_pass_def file_os_rings(3) rx_pop_cases lw_set_parked_def Let_def)
    next
      case (Cons ref rest)
      then have "process_rx_ref Q ref w (?c\<lparr>c_rx := (c_rx ?c)\<lparr>rl_raw_ready := rest\<rparr>\<rparr>) = Some (w', c')"
        using assms False Nil by (auto simp: worker_pass_def file_os_rings(3) rx_pop_cases Let_def)
      from process_rx_ref_lane [OF assms(1) _ Cons this] show ?thesis using assms(2) by simp
    qed
  qed
qed

text \<open>What a pass does to the context the reader shares with it; a pass that does not return does nothing.\<close>

definition worker_on_core :: "file_os \<Rightarrow> log_writer \<Rightarrow> 'x core_scheme \<Rightarrow> 'x core_scheme" where
  "worker_on_core Q w c = (case worker_pass Q w c of None \<Rightarrow> c | Some (t, w', c') \<Rightarrow> c')"

lemma worker_on_core_rely:
  assumes "file_os_ok Q"
  shows "reader_rely (worker_on_core Q w)"
proof -
  have "\<exists>k. raw_payloads (c_rx (worker_on_core Q w c)) = drop k (raw_payloads (c_rx c))" for c :: "'a core_scheme"
  proof (cases "worker_pass Q w c")
    case None
    then show ?thesis by (intro exI [of _ 0]) (simp add: worker_on_core_def)
  next
    case (Some x)
    then obtain t w' c' where x: "worker_pass Q w c = Some (t, w', c')" by (cases x) auto
    have "\<exists>r. raw_payloads (c_rx c) = r @ raw_payloads (c_rx c')"
    proof (cases "saves w")
      case True
      then show ?thesis using save_pass_frame [OF assms x] by auto
    next
      case False
      then have "pass_settles Q w c w' c'"
        using stopping_pass_settles [OF assms x] block_pass_settles [OF assms x] job_pass_settles [OF assms x]
        by (cases "lw_stopping w"; cases "lw_jobs w") (auto simp: saves_def)
      then show ?thesis unfolding pass_settles_def by blast
    qed
    then obtain r where "raw_payloads (c_rx c) = r @ raw_payloads (c_rx c')" by blast
    then show ?thesis using x by (intro exI [of _ "length r"]) (simp add: worker_on_core_def)
  qed
  moreover have "lane_kept (worker_on_core Q w)"
    using worker_pass_lane [OF assms]
    by (auto simp: lane_kept_def worker_on_core_def split: option.split)
  ultimately show ?thesis by (simp add: reader_rely_def)
qed

section \<open>Properties\<close>


text \<open>
  A run in which every block waits for the file worker, so that the reader goes to sleep; the worker,
  with no file open, charges the one byte of the oldest block as a loss and frees the block; and the
  reader's three bytes end up last in the raw lane.
\<close>

definition full_lane :: rx_lane where
  "full_lane = \<lparr>rl_refs = replicate 128 1, rl_payload = replicate 128 (replicate 4096 7), rl_display_ready = [],
     rl_raw_ready = map (\<lambda>b. \<lparr>rr_event = b, rr_len = 1, rr_gen = 0, rr_ingress_ms = 0\<rparr>) [0..<128], rl_waiters = 0\<rparr>"

definition full_core :: core where
  "full_core = core_init\<lparr>c_port_state := PORT_OPEN, c_callback_admission := True, c_rx := full_lane\<rparr>"

lemma full_lane_inv: "rl_inv (\<lambda>_. 0) full_lane"
proof -
  have "count_list [0..<n] b = (if b < n then 1 else 0)" for n b :: nat
    by (induction n) (auto simp: count_list_append)
  then show ?thesis by (simp add: rl_inv_def full_lane_def ring_ok_def ring_refs_def comp_def)
qed

text \<open>The lane after the worker's pass, and after the reader's segment.\<close>

definition freed_lane :: rx_lane where
  "freed_lane = full_lane\<lparr>rl_refs := 0 # replicate 127 1,
     rl_raw_ready := map (\<lambda>b. \<lparr>rr_event = b, rr_len = 1, rr_gen = 0, rr_ingress_ms = 0\<rparr>) [1..<128]\<rparr>"

lemma replicate_128: "replicate 128 x = x # replicate 127 x"
  by (simp flip: replicate_Suc)

lemma full_lane_alloc: "rx_try_alloc rx_env_list True full_lane = None"
  by (simp add: rx_try_alloc_def rx_env_list_def full_lane_def list_alloc_def free_count_def)

lemma freed_lane_alloc:
  "rx_try_alloc rx_env_list True freed_lane = Some (0, False, freed_lane\<lparr>rl_refs := replicate 128 1\<rparr>)"
  by (simp add: rx_try_alloc_def rx_env_list_def freed_lane_def list_alloc_def free_count_def replicate_128)

lemma full_lane_worker:
  assumes "c_rx c = full_lane"
  shows "c_rx (worker_on_core demo_os log_writer_init c) = freed_lane"
    "m_save_rejected_bytes (c_metrics (worker_on_core demo_os log_writer_init c)) = m_save_rejected_bytes (c_metrics c) + 1"
proof -
  let ?ref = "\<lparr>rr_event = 0, rr_len = 1, rr_gen = 0, rr_ingress_ms = 0\<rparr>"
  let ?l = "freed_lane\<lparr>rl_refs := replicate 128 1\<rparr>"
  have "[0..<128] = (0 :: nat) # [1..<128]" by (simp add: upt_conv_Cons)
  then have "rx_pop_raw rx_env_list full_lane = Some (?ref, ?l)"
    by (simp add: rx_pop_raw_def rx_env_list_def full_lane_def freed_lane_def)
  moreover have "rx_release rx_env_list 0 ?l = freed_lane"
    by (simp add: rx_release_def rx_env_list_def freed_lane_def replicate_128)
  moreover have "length (raw_payload ?l ?ref) = 1"
    by (simp add: raw_payload_def freed_lane_def full_lane_def)
  ultimately show "c_rx (worker_on_core demo_os log_writer_init c) = freed_lane"
    "m_save_rejected_bytes (c_metrics (worker_on_core demo_os log_writer_init c)) = m_save_rejected_bytes (c_metrics c) + 1"
    using assms
    by (simp_all add: worker_on_core_def worker_pass_def process_rx_ref_def demo_os_def log_writer_init_def
        lw_beat_def charge_loss_def push_error_def raw_payload_def Let_def)
qed

lemma loop_done [simp]: "rx_ingress_loop I f ws [] b u e c = InDone c [] b u e"
  by (simp add: rx_ingress_loop.simps)

lemma freed_lane_segment:
  assumes "c_rx c = freed_lane"
  shows "\<exists>c'. rx_ingress_loop ingress_env_demo True [] [1, 2, 3] 0 0 True c = InDone c' [] 3 0 True \<and>
    m_save_rejected_bytes (c_metrics c') = m_save_rejected_bytes (c_metrics c)"
proof -
  have "\<exists>l2. rx_publish rx_env_list ref True False (rx_copy_in 0 data (freed_lane\<lparr>rl_refs := replicate 128 1\<rparr>)) = Some (False, l2)"
    for ref data
    by (simp add: rx_publish_def rx_env_list_def list_push_def rx_copy_in_def freed_lane_def)
  then obtain l2 where "rx_publish rx_env_list (rx_segment_ref 0 0 (Suc (Suc (Suc 0))) c) True False
      (rx_copy_in 0 [1, 2, 3] (freed_lane\<lparr>rl_refs := replicate 128 1\<rparr>)) = Some (False, l2)" by blast
  then show ?thesis
    using assms by (subst rx_ingress_loop.simps) (simp add: ingress_env_demo_def freed_lane_alloc Let_def)
qed

lemma full_core_run:
  "\<exists>c'. rx_ingress_loop ingress_env_demo True [worker_on_core demo_os log_writer_init] [1, 2, 3] 0 0 False full_core =
     InDone c' [] 3 0 True \<and> m_save_rejected_bytes (c_metrics c') = 1"
proof -
  define c2 where "c2 = worker_on_core demo_os log_writer_init (rx_note_stall full_core)"
  have "c_rx (rx_note_stall full_core) = full_lane" "m_save_rejected_bytes (c_metrics (rx_note_stall full_core)) = 0"
    by (simp_all add: full_core_def core_init_def metrics_zero_def)
  note w = full_lane_worker [OF this(1), folded c2_def, unfolded this(2)]
  have "rx_ingress_loop ingress_env_demo True [worker_on_core demo_os log_writer_init] [1, 2, 3] 0 0 False full_core =
      rx_ingress_loop ingress_env_demo True [] [1, 2, 3] 0 0 True c2"
    unfolding c2_def by (subst rx_ingress_loop.simps) (simp add: ingress_env_demo_def full_core_def full_lane_alloc Let_def)
  then show ?thesis using freed_lane_segment [OF w(1)] w(2) by simp
qed

lemma full_core_payloads: "raw_payloads (c_rx full_core) = replicate 128 [7]"
proof -
  have "take 1 (replicate 4096 7 :: u8 list) = [7]" by simp
  then have "map (raw_payload full_lane) (rl_raw_ready full_lane) = map (\<lambda>b. [7]) [0..<128]"
    by (simp add: raw_payload_def full_lane_def)
  then show ?thesis by (simp add: raw_payloads_def full_core_def map_replicate_const)
qed


end
