(* ===== verification/Shutdown_Facts.thy ===== *)
theory Shutdown_Facts
  imports Dispatch_Facts File_Lane
begin

text \<open>
  What a shutdown of the core leaves behind: nothing that runs, nothing that is queued, every receive block
  free, and of the transmit blocks only those of events that were pending when the Dispatcher stopped.
\<close>

section \<open>The receive lane through the file writer's stop\<close>

lemma worker_passes_lane:
  assumes "file_os_ok Q" "rl_inv h (c_rx c)" "worker_passes n Q w c = Some (w', c')"
  shows "rl_inv h (c_rx c')"
  using assms(2,3)
proof (induction n arbitrary: w c)
  case (Suc n)
  obtain t w1 c1 where p: "worker_pass Q w c = Some (t, w1, c1)"
    using Suc.prems(2) by (auto split: option.splits)
  have "rl_inv h (c_rx c1)" by (rule worker_pass_lane [OF assms(1) Suc.prems(1) p])
  then show ?case using Suc.IH Suc.prems(2) p by (cases t) auto
qed simp

lemma submit_sync_lane:
  assumes "file_os_ok Q" "rl_inv h (c_rx c)" "submit_sync Q event_ok n j w c = (st, w', c')"
  shows "rl_inv h (c_rx c')"
  using assms(2,3) worker_passes_lane [OF assms(1,2)]
  by (auto simp: submit_sync_def split: prod.splits option.splits if_splits)

lemma log_shutdown_lane:
  assumes "file_os_ok Q" "rl_inv h (c_rx c)" "log_shutdown Q event_ok waits n w c = Some (w', c')"
  shows "rl_inv h (c_rx c')"
proof (cases "\<not> lw_present w \<or> \<not> lw_running w")
  case False
  obtain st w1 c1 where l: "log_close Q event_ok waits n w c = (st, w1, c1)" by (metis prod_cases3)
  have "rl_inv h (c_rx c1)"
    using l assms(2) submit_sync_lane [OF assms(1,2)] by (auto simp: log_close_def split: if_splits prod.splits bool.splits)
  then have "rl_inv h (c_rx (lw_set_running False c1))" by (simp add: lw_set_running_def)
  from worker_pass_lane [OF assms(1) this] show ?thesis
    using assms(3) False l by (auto simp: log_shutdown_def Let_def)
qed (use assms in \<open>simp add: log_shutdown_def\<close>)

text \<open>A file writer that is not running has nothing queued and nothing open.\<close>

definition log_idle :: "log_writer \<Rightarrow> bool" where
  "log_idle w \<longleftrightarrow> \<not> lw_running w \<and> lw_jobs w = [] \<and> lw_log w = None \<and> lw_stream w = None"

definition log_consistent :: "log_writer \<Rightarrow> bool" where
  "log_consistent w \<longleftrightarrow> lw_inv None w \<and> (log_idle w \<or> lw_present w \<and> lw_running w)"

lemma log_shutdown_idle:
  assumes "file_os_ok Q" "log_consistent w"
  shows "\<exists>w' c'. log_shutdown Q event_ok waits n w c = Some (w', c') \<and> log_idle w'"
proof (cases "lw_present w \<and> lw_running w")
  case True
  obtain st w1 c1 where l: "log_close Q event_ok waits n w c = (st, w1, c1)" by (metis prod_cases3)
  let ?w2 = "(if st \<noteq> XCOM_OK then w1\<lparr>lw_accepting := False\<rparr> else w1)\<lparr>lw_stopping := True\<rparr>"
  have "lw_inv None ?w2" using log_close_inv [OF assms(1) _ l] assms(2) by (simp add: lw_inv_def log_consistent_def)
  from stopping_pass [OF assms(1) this, of "lw_set_running False c1"] show ?thesis
    using True l by (auto simp: log_shutdown_def Let_def log_idle_def)
qed (use assms(2) in \<open>auto simp: log_shutdown_def log_consistent_def log_idle_def\<close>)

section \<open>The lane and the blocks up to there\<close>

definition lane_ok :: "core_state \<Rightarrow> bool" where
  "lane_ok s \<longleftrightarrow> rl_inv (deferred_refs (k_deferred s)) (c_rx s) \<and> deferred_ok (k_deferred s)"

lemma release_deferred_lane:
  assumes "rx_env_ok (pf_rx P)" "lane_ok s"
  shows "rl_inv (\<lambda>_. 0) (c_rx (release_deferred P s))"
proof (cases "k_deferred s")
  case None
  then show ?thesis
    using assms(2) by (simp add: lane_ok_def release_deferred_def release_deferred_rx_def deferred_refs_None)
next
  case (Some d)
  let ?h = "deferred_refs (Some d)"
  have "rl_inv ?h (c_rx s)" "0 < ?h (rr_event d)" "rr_event d < kRxBlockCount"
    using assms(2) Some by (simp_all add: lane_ok_def deferred_ok_def deferred_refs_def)
  moreover have "?h(rr_event d := ?h (rr_event d) - 1) = (\<lambda>_. 0)" by (auto simp: deferred_refs_def)
  ultimately show ?thesis
    using deferred_release_charges_once [OF assms(1), of ?h s d _ "snd (release_deferred_rx (pf_rx P) (Some d) s)"] Some
    by (cases "release_deferred_rx (pf_rx P) (Some d) s") (simp add: release_deferred_def)
qed

lemma before_log_stop_lane:
  assumes "rx_env_ok (pf_rx P)" "lane_ok s"
  shows "rl_inv (\<lambda>_. 0) (c_rx (before_log_stop P s))"
proof -
  define s2 where "s2 = stop_dispatcher ((autosend_set_impl P 0 s)\<lparr>k_timer := timer_stop (k_timer (autosend_set_impl P 0 s))\<rparr>)"
  define s3 where "s3 = release_deferred P (drop_autosend_template s2)"
  define s4 where "s4 = (stop_session_writer s3)\<lparr>c_callback_admission := False\<rparr>"
  define s5 where "s5 = other_steps P (pf_during_close P s4) s4"
  have b: "before_log_stop P s = s5\<lparr>k_backend := backend_close (k_backend s5)\<rparr>"
    by (simp add: before_log_stop_def Let_def s2_def s3_def s4_def s5_def)
  have "owner_parts s4 = owner_parts s3"
    using stop_session_writer_result(2) [of s3] by (simp add: s4_def owner_parts_def)
  then have "owner_parts s5 = owner_parts s3" by (simp add: s5_def)
  then have o: "c_rx s5 = c_rx s3" by (simp add: owner_parts_def)
  have "c_rx s2 = c_rx s" "k_deferred s2 = k_deferred s"
    by (simp_all add: s2_def stop_dispatcher_def autosend_set_impl_def split: prod.split bool.split)
  then have "lane_ok (drop_autosend_template s2)"
    using assms(2) by (simp add: lane_ok_def drop_autosend_template_def core_tx_release_def split: option.split)
  from release_deferred_lane [OF assms(1) this] show ?thesis unfolding b using o by (simp add: s3_def)
qed

lemma leftover_posted:
  fixes s s' :: core_state
  assumes "sw_release_leftover_jobs w s = (w', Some s')"
  shows "k_posted s' = k_posted s"
proof -
  let ?I = "\<lambda>co :: core_state option. \<forall>c. co = Some c \<longrightarrow> k_posted c = k_posted s"
  have "?I (snd (pop_loop (Suc kMaxJobs) sw_try_pop sw_leftover_job w (Some s)))"
  proof (rule pop_loop_invariant [where I = ?I])
    show "?I (sw_leftover_job j co)" if "?I co" for j and co :: "core_state option"
      using that
      by (cases co) (auto simp: sw_leftover_job_def core_tx_release_def count_tx_rejected_def
        split: option.splits bind_splits if_splits)
  qed simp
  then show ?thesis using assms by (simp only: sw_release_leftover_jobs_def snd_conv)
qed

lemma stop_writer_posted: "k_posted (stop_session_writer s) = k_posted s"
  by (auto simp: stop_session_writer_def sw_stop_and_join_def Let_def dest!: leftover_posted
      split: prod.splits option.splits if_splits)

text \<open>\<open>X\<close> are the blocks of events the Dispatcher's stop discarded.\<close>

lemma stop_dispatcher_owned:
  assumes "tx_owned_by {#} s"
  shows "\<exists>X. tx_owned_by X (stop_dispatcher s) \<and> X + posted_claims (k_posted (stop_dispatcher s)) = posted_claims (k_posted s)"
proof (cases "k_started s")
  case True
  have "tx_owned_by (posted_claims (k_posted s)) (s\<lparr>k_posted := []\<rparr>)"
    using assms by (simp add: tx_owned_by_def held_def add.commute add.left_commute)
  then have "tx_owned_by (posted_claims (k_posted s)) (stop_dispatcher s)"
    by (rule owned_same) (rule tx_sameI, simp_all add: stop_dispatcher_def True)
  then show ?thesis using True by (intro exI [of _ "posted_claims (k_posted s)"]) (simp add: stop_dispatcher_def)
qed (use assms in \<open>auto simp: stop_dispatcher_def intro: exI [of _ "{#}"]\<close>)

lemma drop_template_owned:
  assumes "tx_owned_by X s"
  shows "tx_owned_by X (drop_autosend_template s)" "template_claims (k_send (drop_autosend_template s)) = {#}"
    "k_posted (drop_autosend_template s) = k_posted s"
proof -
  have init: "template_claims send_ctx_init = {#}" by (simp add: template_claims_def send_ctx_init_def)
  obtain c2 where c: "(if sx_autosend_block (k_send s) \<noteq> no_block then core_tx_release (sx_autosend_block (k_send s)) s else Some s) = Some c2"
    "tx_owned_by X (c2\<lparr>k_send := send_ctx_init\<rparr>)" using template_release [OF assms] by blast
  then show "tx_owned_by X (drop_autosend_template s)" "template_claims (k_send (drop_autosend_template s)) = {#}"
    using assms init by (auto simp: drop_autosend_template_def template_claims_def split: if_splits)
  show "k_posted (drop_autosend_template s) = k_posted s"
    by (simp add: drop_autosend_template_def core_tx_release_def split: option.split)
qed

lemma before_log_stop_tx:
  assumes "writes_in_pool P" "tx_owned_by {#} s"
  shows "sw_items (k_writer (before_log_stop P s)) = []" "template_claims (k_send (before_log_stop P s)) = {#}"
    "mset_set (fpool.used (c_tx (before_log_stop P s))) = posted_claims (k_posted s)" "\<not> k_aborted (before_log_stop P s)"
proof -
  define s1 where "s1 = (autosend_set_impl P 0 s)\<lparr>k_timer := timer_stop (k_timer (autosend_set_impl P 0 s))\<rparr>"
  define s3 where "s3 = release_deferred P (drop_autosend_template (stop_dispatcher s1))"
  define s4 where "s4 = (stop_session_writer s3)\<lparr>c_callback_admission := False\<rparr>"
  define s5 where "s5 = other_steps P (pf_during_close P s4) s4"
  have b: "before_log_stop P s = s5\<lparr>k_backend := backend_close (k_backend s5)\<rparr>"
    by (simp add: before_log_stop_def Let_def s1_def s3_def s4_def s5_def)
  have e1: "tx_same s s1"
    using tx_same_trans [OF autosend_set_same [of s P 0] tx_sameI] by (simp add: s1_def)
  obtain X where X: "tx_owned_by X (stop_dispatcher s1)" "X + posted_claims (k_posted (stop_dispatcher s1)) = posted_claims (k_posted s)"
    using stop_dispatcher_owned [OF owned_same [OF assms(2) e1]] e1 by (auto simp: tx_same_def)
  note d = drop_template_owned [OF X(1)]
  have e3: "tx_same (drop_autosend_template (stop_dispatcher s1)) s3"
    unfolding s3_def by (rule tx_sameI) (simp_all add: release_deferred_def release_deferred_rx_def
      count_deferred_display_loss_def count_rejected_rx_def Let_def split: option.split)
  have o4: "tx_owned_by X (stop_session_writer s3)" using stop_writer_owned owned_same [OF d(1) e3] by blast
  have e5: "tx_same (stop_session_writer s3) s5"
  proof -
    have "list_all write_ok (pf_during_close P s4)" using assms(1) by (simp add: writes_in_pool_def)
    then show ?thesis unfolding s5_def using tx_same_trans [OF _ other_steps_same] by (simp add: s4_def tx_same_def)
  qed
  have idle: "sw_items (k_writer s5) = []"
    using o4 e5 stop_session_writer_result(1) [of s3] by (simp add: tx_owned_by_def sw_ok_def tx_same_def)
  have "owner_parts (stop_session_writer s3) = owner_parts s3" by (rule stop_session_writer_result(2))
  then have send: "k_send s5 = k_send (drop_autosend_template (stop_dispatcher s1))"
    using e3 e5 by (simp add: tx_same_def owner_parts_def)
  have posted: "posted_claims (k_posted s5) = posted_claims (k_posted (stop_dispatcher s1))"
    using e3 e5 d(3) by (simp add: tx_same_def stop_writer_posted)
  have "held X s5" using owned_same [OF o4 e5] idle by (simp add: tx_owned_by_def no_claims)
  then have "posted_claims (k_posted s5) + X = mset_set (fpool.used (c_tx s5))" "\<not> k_aborted s5"
    using d(2) send by (simp_all add: held_def)
  then show "sw_items (k_writer (before_log_stop P s)) = []" "template_claims (k_send (before_log_stop P s)) = {#}"
    "mset_set (fpool.used (c_tx (before_log_stop P s))) = posted_claims (k_posted s)" "\<not> k_aborted (before_log_stop P s)"
    using idle d(2) send posted X(2) unfolding b by (simp_all add: add.commute)
qed

section \<open>Shutdown\<close>

text \<open>Nothing runs, nothing is open, nothing is queued, and every receive block is free.\<close>

definition everything_released :: "core_state \<Rightarrow> bool" where
  "everything_released s \<longleftrightarrow>
     \<not> k_started s \<and> \<not> pt_active (k_timer s) \<and>
     \<not> sw_active (k_writer s) \<and> sw_items (k_writer s) = [] \<and> template_claims (k_send s) = {#} \<and>
     \<not> sb_port (k_backend s) \<and> \<not> sb_open (k_backend s) \<and> \<not> sb_reader (k_backend s) \<and>
     log_idle (k_log s) \<and>
     k_deferred s = None \<and> rl_raw_ready (c_rx s) = [] \<and> rl_display_ready (c_rx s) = [] \<and>
     rl_refs (c_rx s) = replicate kRxBlockCount 0"

lemma drain_lanes_empty:
  assumes "rx_env_ok (pf_rx P)" "rl_inv (\<lambda>_. 0) (c_rx s)"
  shows "rl_raw_ready (c_rx (drain_lanes P s)) = [] \<and> rl_display_ready (c_rx (drain_lanes P s)) = [] \<and>
    rl_refs (c_rx (drain_lanes P s)) = replicate kRxBlockCount 0"
proof -
  obtain n l where r: "rx_drain_raw (pf_rx P) (c_rx s) = (n, l)" by (meson surj_pair)
  note raw = rx_drain_raw_spec [OF assms r]
  obtain m l2 where d: "rx_drain_display (pf_rx P) l = (m, l2)" by (meson surj_pair)
  note disp = rx_drain_display_spec [OF assms(1) raw(1) d]
  have e: "c_rx (drain_lanes P s) = l2" using r d by (simp add: drain_lanes_def push_error_def Let_def)
  have q: "rl_raw_ready l2 = []" "rl_display_ready l2 = []" using raw disp by simp_all
  then have "rl_refs l2 ! b = 0" if "b < kRxBlockCount" for b
    using disp(1) that by (simp add: rl_inv_def)
  moreover have "length (rl_refs l2) = kRxBlockCount" using disp(1) by (simp add: rl_inv_def)
  ultimately have "rl_refs l2 = replicate kRxBlockCount 0" by (intro nth_equalityI) simp_all
  then show ?thesis using e q by simp
qed

text \<open>
  C23 (shutdown_releases_everything). From a state in which the references of the receive lane balance, the
  transmit blocks have their owners and the file writer is consistent, the teardown always returns,
  whatever the storage and the other threads do, without a failed assertion. Afterwards nothing of the
  session runs, is open or is queued: the Dispatcher, the auto-send timer, the write worker, the serial
  port with its reader and the file writer are stopped; the write worker's job ring, the file writer's job
  ring, the raw lane and the display lane are empty; the auto-send template and the deferred receive block
  are given back, and all 128 receive blocks are free. The transmit blocks still in use are exactly those
  of the events that were pending when the Dispatcher stopped, and the Dispatcher is no longer marked as
  running, so its old stamp is not reported as a stall.
\<close>

theorem shutdown_releases_everything:
  assumes "file_os_ok (pf_files P)" "rx_env_ok (pf_rx P)" "writes_in_pool P"
    "log_consistent (k_log s)" "lane_ok s" "tx_owned_by {#} s"
  shows "\<exists>s'. shutdown P s = Some s' \<and> everything_released s' \<and> \<not> k_aborted s' \<and>
    mset_set (fpool.used (c_tx s')) = posted_claims (k_posted s) \<and>
    (k_started s \<longrightarrow> \<not> hb_dispatcher_running (c_heartbeats s'))"
proof -
  let ?b = "before_log_stop P s"
  note parts = before_log_stop_parts [where P = P and s = s]
  note tx = before_log_stop_tx [OF assms(3,6)]
  obtain w c where l: "log_shutdown (pf_files P) (la_event_ok (pf_log P ?b)) (la_waits (pf_log P ?b)) (la_passes (pf_log P ?b))
      (k_log ?b) ?b = Some (w, c)" "log_idle w"
    using log_shutdown_idle [OF assms(1), of "k_log ?b"] assms(4) parts(5) by metis
  note same = outer_fields [OF log_shutdown_outer [OF l(1)]]
  have lane: "rl_inv (\<lambda>_. 0) (c_rx c)"
    by (rule log_shutdown_lane [OF assms(1) before_log_stop_lane [OF assms(2,5)] l(1)])
  let ?s = "drain_lanes P (c\<lparr>k_log := w\<rparr>)"
  have "c_tx ?s = c_tx c" "k_aborted ?s = k_aborted c"
    by (simp_all add: drain_lanes_def push_error_def Let_def split: prod.split)
  moreover obtain b where "k_backend ?b = backend_close b" using parts(7) by blast
  then have "everything_released ?s"
    using parts tx(1,2) same l(2) drain_lanes_empty [OF assms(2), of "c\<lparr>k_log := w\<rparr>"] lane
    by (simp add: everything_released_def drain_lanes_fields backend_close_def)
  ultimately show ?thesis
    using l(1) parts(6) same tx(3,4) by (simp add: shutdown_split drain_lanes_fields)
qed

text \<open>A started core with a running write worker and a received block that waits in the display lane.\<close>

definition busy_core :: core_state where
  "busy_core = core_state_init\<lparr>c_rx := rx_lane_one\<lparr>rl_display_ready := [unlogged_ref]\<rparr>, k_started := True,
     k_writer := session_writer_init\<lparr>sw_active := True\<rparr>\<rparr>"

theorem shutdown_releases_everything_witness:
  "\<exists>s'. shutdown platform_ok busy_core = Some s' \<and> everything_released s' \<and> fpool.used (c_tx s') = {} \<and>
     \<not> hb_dispatcher_running (c_heartbeats s')"
proof -
  have "file_os_ok (pf_files platform_ok)" "rx_env_ok (pf_rx platform_ok)" "writes_in_pool platform_ok"
    using demo_os_ok rx_env_list_ok by (simp_all add: platform_ok_def writes_in_pool_def)
  moreover have "log_consistent (k_log busy_core)"
    by (simp add: busy_core_def core_state_init_def core.extend_def log_writer_init_def lw_inv_def reporting_def
      log_consistent_def log_idle_def)
  moreover have "lane_ok busy_core"
    by (auto simp: lane_ok_def busy_core_def core_state_init_def core.extend_def rl_inv_def ring_ok_def rx_lane_init_def
      rx_lane_one_def unlogged_ref_def nth_list_update deferred_refs_None deferred_ok_def)
  moreover have "tx_owned_by {#} busy_core" "k_posted busy_core = []" "k_started busy_core"
    using tx_inv_init
    by (simp_all add: busy_core_def core_state_init_def core.extend_def core_init_def tx_owned_by_def held_def
      template_claims_def send_ctx_init_def sw_ok_def sw_inv_def session_writer_init_def sw_items_def writer_claims_def)
  ultimately show ?thesis
    using shutdown_releases_everything [of platform_ok busy_core] by (auto simp: mset_set_empty_iff)
qed

end
