(* ===== verification/Spec2Isabelle.thy ===== *)
theory Spec2Isabelle
  imports Fixed_Pool Error_Ring Rx_Block_Lane Display_Lane Display_Format Status_Codes Thread_Health Periodic_Timer
    Core_Ctx Receive_Ao Rx_Ingress Send_Ao Serial_Ao Serial_Backend Serial_Reader Core_State Session_Lifecycle
    Log_Writer Log_Facts Log_Protocol Diagnostic Diagnostic_Facts Runtime Xcom_Abi Abi_Facts Selection
    Receive_View Receive_View_Facts Receive_Row Bridge_Exchange Bridge_Facts Layout_Config Plugin_Spec
    Console_Panels Console_Facts Bridge_Frame Frame_Facts Console_Frame Window_Facts Console_Types
    Dispatch Dispatch_Facts Fixed_Containers Unique_Handle Atomic_Stream Module_Paths Receive_Scroll Footer Widget_Style Glyphs
    Log_Account File_Lane Shutdown_Facts
begin

text \<open>
  \<^bold>\<open>XCOM: a serial terminal.\<close> The program is a C++ core (\<open>src/xcom_core\<close>) that owns one serial port, a C ABI in
  front of it, and a C++ window bridge (\<open>src/xcom_lua/native/xcom_imgui\<close>) that a Lua application drives frame by
  frame. This library models both C++ parts as definitions that compute and proves what they promise.

  \<^bold>\<open>How the parts interact.\<close> Bytes come from the reader thread of the serial adapter into \<open>rx_ingress\<close>, which copies
  them into reference-counted blocks; a kick event moves each block through the receive active object to the
  display lane (formatted text) and, with a log open, to the file writer. Transmit payloads travel the other
  way: ABI, transmit pool, send active object, session writer thread, adapter. The serial active object owns
  the port's lifecycle; the runtime installs the functions the active objects call (the dispatch sink) and
  supervises the threads. The Lua client polls the ABI, pushes received text into the window bridge, lends it
  the values its panels edit, and reads back an action mask, events and copies.

  \<^bold>\<open>Conventions.\<close> Counters, handles and bit fields keep their width as words; \<open>size_t\<close> lengths of buffers that fit the
  address space are naturals; floating point values of the window are rationals or integers in the GUI's units.
  A failed assertion and an over-long \<open>strcpy_s\<close> are \<open>None\<close>; error codes are the ABI's words. coact (the active
  object framework), Win32, Direct3D, Dear ImGui and the C library's number conversions are parameters or
  inputs: a ring is a list with the functions that push and pop (the contract \<open>bounded_fifo\<close>), a system call is
  an answer given to the definition, what a user does to a widget is a function of the widget's id. A
  definition is an uninterfered run of one thread; where threads meet, a step relation or an explicit list of
  the other thread's steps is given (the free list, the kick gate, the completion ring, the append leases, the
  open and close polls, the life of a session).

  \<^bold>\<open>Foundation.\<close>
  \<^item> \<open>Prelude\<close>: words, statuses, port states, shared lemmas and rewriting collections. \<open>Bounded_Fifo\<close>: the contract of
    the bounded rings as a locale, interpreted at every ring of the model.
  \<^item> \<open>Fixed_Pool\<close> (\<open>foundation/fixed_pool.hpp\<close>): the tagged free list, alone and under interleaved compare-and-swaps.
  \<^item> \<open>Rx_Block_Lane\<close> (\<open>foundation/rx_block_lane.hpp\<close>): claim with reserve, publish, release.
  \<^item> \<open>Error_Ring\<close>, \<open>Display_Lane\<close>, \<open>Core_Ctx\<close> (\<open>runtime/xcom_core.hpp\<close>): the error ring on wrapping positions, the
    transmit pool and the display lane with its generations, the shared context and the dispatch sink.
  \<^item> \<open>Thread_Health\<close>, \<open>Periodic_Timer\<close>, \<open>Status_Codes\<close>: liveness edges on 32-bit stamps, the timer's deadlines, the
    translations into the ABI's statuses.
  \<^item> \<open>Fixed_Containers\<close> (\<open>fixed_vector.hpp\<close>, \<open>fixed_function.hpp\<close>), \<open>Unique_Handle\<close> (\<open>unique_handle.cpp\<close>): storage in
    which objects are constructed and destroyed once, and kernel handles with one owner; \<open>Atomic_Stream\<close>
    (\<open>log_writer.cpp\<close>): the stream of an atomic save on top of it.

  \<^bold>\<open>The core.\<close>
  \<^item> \<open>Receive_Ao\<close>, \<open>Send_Ao\<close>, \<open>Serial_Ao\<close>, \<open>Display_Format\<close> (\<open>ao/xcom_ao.cpp\<close>): the handlers of the four active objects,
    the lifecycle table of the port, the two views of received data, and the session writer's job ring.
  \<^item> \<open>Rx_Ingress\<close>, \<open>Core_State\<close>, \<open>Runtime\<close> (\<open>runtime/xcom_core.cpp\<close>): ingress with its blocking wait, the functions the
    core installs, native writes, boot, shutdown and supervision.
  \<^item> \<open>Serial_Backend\<close>, \<open>Serial_Reader\<close> (\<open>io/serial_backend_win.cpp\<close>): validation, line programming and read-back, bounded
    writes, line status, the read loop and the port enumeration.
  \<^item> \<open>Log_Writer\<close>, \<open>Log_Facts\<close>, \<open>Log_Protocol\<close> (\<open>io/log_writer.cpp\<close>): jobs, completions, leases, every kind of job, the
    worker, and the worker together with its clients. \<open>Log_Account\<close>: every log byte a whole pass of the worker takes
    is written or charged. \<open>File_Lane\<close>: the reader's blocking segment loop and the queue of raw blocks in front of the
    worker, under a rely that the worker's own pass is shown to keep.
  \<^item> \<open>Session_Lifecycle\<close>: the lifecycle of the port over the core's own functions, interleaved with its threads.
    \<open>Shutdown_Facts\<close>: what a teardown from any consistent state leaves: every thread and handle down, every queue empty.
  \<^item> \<open>Dispatch\<close>, \<open>Dispatch_Facts\<close> (the tables and traits of \<open>xcom_core.cpp\<close>, \<open>xcom_ao.hpp\<close>, \<open>xcom_config.hpp\<close>): the five
    active objects behind one Dispatcher, and the whole send path as one step relation (\<open>core_run\<close>): any pending event
    next, the writer thread, the timer, the reader and the clients in between.
  \<^item> \<open>Diagnostic\<close>, \<open>Diagnostic_Facts\<close> (\<open>diagnostics/diagnostic.cpp\<close>): the diagnostic writer and its rotation,
    which empties the file it closes.
  \<^item> \<open>Xcom_Abi\<close>, \<open>Abi_Facts\<close> (\<open>abi/xcom_abi.cpp\<close>): every exported function over the one session slot.

  \<^bold>\<open>The window bridge\<close> (\<open>xcom_imgui_bridge.cpp\<close>).
  \<^item> \<open>Selection\<close> (\<open>receive_selection.hpp\<close>), \<open>Receive_View\<close>, \<open>Receive_View_Facts\<close>, \<open>Receive_Row\<close>: the retained log, its line
    index, the selection in stream bytes, the hit test, and how a row is cut into coloured runs. \<open>Receive_Scroll\<close>: its
    scroll bar and the latch that follows the tail.
  \<^item> \<open>Bridge_Exchange\<close>, \<open>Bridge_Facts\<close>: packed lists, highlight rules, the script console's data and events, plugin pages,
    the oscilloscope's rings. \<open>Plugin_Spec\<close>: the widget grammar of a page. \<open>Layout_Config\<close>: the layout file.
  \<^item> \<open>Console_Panels\<close>, \<open>Console_Facts\<close>: header, transmit panel, port panel, receive options. \<open>Console_Frame\<close>: the floating
    windows and the whole frame \<open>xcom_imgui_draw_console\<close>. \<open>Bridge_Frame\<close>, \<open>Frame_Facts\<close>: start, frames, resizes,
    shutdown. \<open>Window_Facts\<close>, \<open>Console_Types\<close>: what holds of whole frames and of any sequence of calls.
  \<^item> \<open>Footer\<close>: the status footer and the width caches (a locale, interpreted at each). \<open>Widget_Style\<close>: colours, the style
    table and the stacks of the GUI library. \<open>Glyphs\<close>: the texts and the characters the fonts are built for.
    \<open>Module_Paths\<close>: where fonts and the layout file are found, and the launcher (\<open>xcom_launcher.cpp\<close>).
  \<^item> One field of the program is split: the pending font rebuild is \<open>br_rebuild\<close> for the window's own requests and
    \<open>ex_rebuild\<close> for those of the script lists; \<open>console_new_frame\<close> serves both.

  \<^bold>\<open>What the lemmas show.\<close> Conservation: received bytes are accepted or charged, logged bytes are written or charged, a kick
  and a drain balance references and buffers, a transmit block has one owner in every run of the whole send path, a kernel
  handle is closed once and a temporary file settled once; with a log open the reader's bytes reach the file worker's queue
  complete and in order. Protocols: the receive wake-up (a published block has a queued kick, except after a refused kick
  or a close that emptied the deferred slot, both of which the next trigger repairs), no ABA in the pool,
  no overflow of the completion ring, leases against the close (and their failure under a store buffer), one published port state, the calls into the GUI library. Liveness and termination: an accepted open is
  resolved, the worker ends after a stop in a bounded number of passes, one pass returns whatever the disk answers;
  and one place where liveness fails, the window that lost its render target. Refinement: the error ring is a
  queue, the display lane a byte stream, an oscilloscope channel the latest samples. Round trips: the hexadecimal
  view, packed rules, the editor's save. Well-formedness: the state the client and the window share; the
  events of plugin pages have the agreed form, which the client's Lua pattern then fails to match. Where a property has an exception in the
  code, its statement gives the exact condition: a footer message that ends in a cut character, a reopen that fails
  while the diagnostic log rotates, the stop-bit rule of an open port's panel.

  \<^bold>\<open>Bounds and fuel.\<close> Loops that the code bounds recurse on that bound. The worker's run takes fuel; it is shown that the
  queued jobs and pending completions bound the passes a stop needs. The CAS loops are step relations. Ring and
  pool sizes are the code's constants.

  \<^bold>\<open>Not modelled.\<close> The pixels of the window (shapes of widgets and icons, fills, the Chinese texts): output
  without state of its own. The Lua application, coact, Dear ImGui, ImPlot and the other vendored libraries, tests and tools.
  Exceptions of the C++ library (allocation failure) and the debug-only owner array of the pool. Memory ordering, but for the one place where it decides a property (the append leases).
\<close>

end
